(* ===== verification/Prelude.thy ===== *)
theory Prelude
  imports Main "HOL-Library.Word" "HOL-Library.Multiset"
begin

text \<open>
  Shared vocabulary of the tinydbms development: bytes, the little-endian layout that both
  the record codec and the slotted page use, result values (a sum type with the error on the
  left), and the generic facts on lists, words and sorting that the component proofs rest on.
\<close>

unbundle bit_operations_syntax

named_theorems layout_simps
named_theorems result_simps
named_theorems codec_simps

type_synonym byte = "8 word"
type_synonym u16 = "16 word"
type_synonym u32 = "32 word"
type_synonym u64 = "64 word"
type_synonym ('e, 'a) result = "'e + 'a"

subsection \<open>Results\<close>

text \<open>Sequencing of fallible steps: the first error ends the computation.\<close>

definition bind_result :: "('e, 'a) result \<Rightarrow> ('a \<Rightarrow> ('e, 'b) result) \<Rightarrow> ('e, 'b) result" where
  "bind_result r f = (case r of Inl e \<Rightarrow> Inl e | Inr a \<Rightarrow> f a)"

definition map_error :: "('e \<Rightarrow> 'f) \<Rightarrow> ('e, 'a) result \<Rightarrow> ('f, 'a) result" where
  "map_error f r = (case r of Inl e \<Rightarrow> Inl (f e) | Inr a \<Rightarrow> Inr a)"

lemma bind_result_simps [simp, result_simps]:
  "bind_result (Inl e) f = Inl e"
  "bind_result (Inr a) f = f a"
  by (simp_all add: bind_result_def)

lemma map_error_simps [simp, result_simps]:
  "map_error f (Inl e) = Inl (f e)"
  "map_error f (Inr a) = Inr a"
  by (simp_all add: map_error_def)

lemma bind_result_Inr_iff [result_simps]:
  "bind_result r f = Inr b \<longleftrightarrow> (\<exists>a. r = Inr a \<and> f a = Inr b)"
  by (cases r) simp_all

lemma bind_result_Inl_iff [result_simps]:
  "bind_result r f = Inl e \<longleftrightarrow> r = Inl e \<or> (\<exists>a. r = Inr a \<and> f a = Inl e)"
  by (cases r) simp_all

lemma map_error_Inr_iff [simp, result_simps]: "map_error f r = Inr a \<longleftrightarrow> r = Inr a"
  by (cases r) simp_all

lemma map_error_Inl_iff [result_simps]: "map_error f r = Inl e \<longleftrightarrow> (\<exists>e'. r = Inl e' \<and> e = f e')"
  by (cases r) auto

text \<open>A loop that collects one result per element and stops at the first error.\<close>

fun collect_results :: "('a \<Rightarrow> ('e, 'b) result) \<Rightarrow> 'a list \<Rightarrow> ('e, 'b list) result" where
  "collect_results f [] = Inr []"
| "collect_results f (x # xs) =
     bind_result (f x) (\<lambda>y. bind_result (collect_results f xs) (\<lambda>ys. Inr (y # ys)))"

lemma collect_results_Inr_iff:
  "collect_results f xs = Inr ys \<longleftrightarrow> list_all2 (\<lambda>x y. f x = Inr y) xs ys"
  by (induction xs arbitrary: ys) (auto simp: result_simps list_all2_Cons1)

lemma collect_results_map_Inr:
  "(\<And>x. x \<in> set xs \<Longrightarrow> f x = Inr (g x)) \<Longrightarrow> collect_results f xs = Inr (map g xs)"
  by (induction xs) auto

subsection \<open>Characters and bytes\<close>

definition byte_of_char :: "char \<Rightarrow> byte" where
  "byte_of_char c = word_of_nat (of_char c)"

definition char_of_byte :: "byte \<Rightarrow> char" where
  "char_of_byte b = char_of (unat b)"

lemma char_of_byte_of_char [simp, codec_simps]: "char_of_byte (byte_of_char c) = c"
proof -
  have "(of_char c :: nat) < 256" by simp
  then have "unat (word_of_nat (of_char c) :: byte) = of_char c"
    by (simp add: unat_of_nat take_bit_nat_eq_self)
  then show ?thesis by (simp add: byte_of_char_def char_of_byte_def)
qed

lemma byte_of_char_of_byte [simp, codec_simps]: "byte_of_char (char_of_byte b) = b"
proof -
  have "unat b < 256" using unsigned_less [of b, where 'a = nat] by simp
  then show ?thesis by (simp add: byte_of_char_def char_of_byte_def of_char_of)
qed

lemma map_char_of_byte_of_char [simp, codec_simps]:
  "map char_of_byte (map byte_of_char s) = s"
  by (simp add: comp_def)

subsection \<open>Little-endian layout\<close>

text \<open>
  \<open>le_byte i v\<close> is the expression \<open>(value >> (i * 8)) & 0xff\<close> narrowed to a byte;
  \<open>le_value\<close> is the loop that ORs the bytes back together, lowest first.
\<close>

definition le_byte :: "nat \<Rightarrow> 'a::len word \<Rightarrow> byte" where
  "le_byte i v = ucast (drop_bit (i * 8) v AND 255)"

definition le_bytes :: "nat \<Rightarrow> 'a::len word \<Rightarrow> byte list" where
  "le_bytes n v = map (\<lambda>i. le_byte i v) [0..<n]"

definition le_value :: "byte list \<Rightarrow> 'a::len word" where
  "le_value bs = fold (\<lambda>i v. v OR push_bit (i * 8) (ucast (bs ! i))) [0..<length bs] 0"

lemma length_le_bytes [simp, codec_simps]: "length (le_bytes n v) = n"
  by (simp add: le_bytes_def)

lemma bit_255_byte: "bit (255 :: 'a::len word) j \<longleftrightarrow> j < 8 \<and> j < LENGTH('a)"
proof -
  have "(255 :: 'a word) = mask 8" by (simp add: mask_eq_exp_minus_1)
  then have "bit (255 :: 'a word) j \<longleftrightarrow> bit (mask 8 :: 'a word) j" by (rule arg_cong)
  also have "\<dots> \<longleftrightarrow> j < 8 \<and> j < LENGTH('a)" by (auto simp: bit_mask_iff)
  finally show ?thesis .
qed

lemma bit_le_byte: "bit (le_byte i v) j \<longleftrightarrow> j < 8 \<and> bit v (i * 8 + j)"
proof -
  have "j < LENGTH('a)" if "bit v (i * 8 + j)" using bit_imp_le_length [OF that] by simp
  then show ?thesis
    unfolding le_byte_def bit_unsigned_iff bit_and_iff bit_drop_bit_eq bit_255_byte by auto
qed

lemma bit_fold_or:
  "bit (fold (\<lambda>i v. v OR f i) is (w :: 'a::len word)) k \<longleftrightarrow> bit w k \<or> (\<exists>i \<in> set is. bit (f i) k)"
  by (induction "is" arbitrary: w) (auto simp: bit_simps)

lemma bit_le_value:
  "bit (le_value bs :: 'a::len word) k \<longleftrightarrow>
     k < LENGTH('a) \<and> k div 8 < length bs \<and> bit (bs ! (k div 8)) (k mod 8)"
proof -
  have "(\<exists>i \<in> set [0..<length bs]. bit (push_bit (i * 8) (ucast (bs ! i)) :: 'a word) k)
     \<longleftrightarrow> k < LENGTH('a) \<and> k div 8 < length bs \<and> bit (bs ! (k div 8)) (k mod 8)" (is "?L \<longleftrightarrow> ?R")
  proof
    assume ?L
    then obtain i where i: "i < length bs" "i * 8 \<le> k" "k < LENGTH('a)" "bit (bs ! i) (k - i * 8)"
      by (auto simp: bit_simps)
    then have "k - i * 8 < 8" using bit_imp_le_length by fastforce
    with i have d: "k div 8 = i" by (simp add: div_nat_eqI)
    then have "k mod 8 = k - i * 8" by (simp add: modulo_nat_def)
    with i d show ?R by simp
  next
    assume R: ?R
    then have "k - k div 8 * 8 = k mod 8" by (simp add: modulo_nat_def)
    with R show ?L
      by (intro bexI [where x = "k div 8"]) (auto simp: bit_simps bit_imp_le_length)
  qed
  then show ?thesis by (simp add: le_value_def bit_fold_or)
qed

lemma le_value_le_bytes:
  assumes "LENGTH('a) \<le> n * 8"
  shows "le_value (le_bytes n (v :: 'a::len word)) = v"
proof (rule bit_word_eqI)
  fix k assume k: "k < LENGTH('a)"
  with assms have "k div 8 < n" by (simp add: less_mult_imp_div_less)
  then show "bit (le_value (le_bytes n v) :: 'a word) k = bit v k"
    using k by (simp add: bit_le_value) (simp add: le_bytes_def bit_le_byte)
qed

lemma le_bytes_le_value:
  assumes "length bs = n" and "n * 8 \<le> LENGTH('a)"
  shows "le_bytes n (le_value bs :: 'a::len word) = bs"
proof (rule nth_equalityI)
  show "length (le_bytes n (le_value bs :: 'a word)) = length bs" using assms by simp
next
  fix i assume "i < length (le_bytes n (le_value bs :: 'a word))"
  then have i: "i < n" by simp
  show "le_bytes n (le_value bs :: 'a word) ! i = bs ! i"
  proof (rule bit_word_eqI)
    fix j assume "j < LENGTH(8)"
    then have "j < 8" by simp
    with i assms show "bit (le_bytes n (le_value bs :: 'a word) ! i) j = bit (bs ! i) j"
      by (simp add: le_bytes_def bit_le_byte bit_le_value)
  qed
qed

subsection \<open>Lists and sorting\<close>

lemma take_add_drop: "take (a + b) (drop k xs) = take a (drop k xs) @ take b (drop (k + a) xs)"
  by (simp add: take_add add.commute)

lemma drop_eq_append_iff:
  assumes "k \<le> length xs"
  shows "drop k xs = ys @ zs \<longleftrightarrow>
    take (length ys) (drop k xs) = ys \<and> k + length ys \<le> length xs \<and> drop (k + length ys) xs = zs"
proof -
  have "k + length ys \<le> length xs" if "take (length ys) (drop k xs) = ys"
    using arg_cong [OF that, of length] assms by simp
  moreover have "drop k xs = ys @ zs \<longleftrightarrow>
      ys = take (length ys) (drop k xs) \<and> zs = drop (length ys) (drop k xs)"
    unfolding append_eq_conv_conj [symmetric] by (rule eq_commute)
  ultimately show ?thesis by (auto simp: add.commute)
qed

lemma distinct_filter_eq: "distinct zs \<Longrightarrow> k \<in> set zs \<Longrightarrow> filter (\<lambda>x. x = k) zs = [k]"
  by (induction zs) (auto simp: filter_empty_conv)

lemma sort_key_distinctI:
  assumes "mset xs = mset ys" and "sorted (map f ys)" and "distinct (map f ys)"
  shows "sort_key f xs = ys"
proof (rule properties_for_sort_key)
  show "mset ys = mset xs" using assms(1) by simp
  show "sorted (map f ys)" by (rule assms(2))
  fix k assume k: "k \<in> set ys"
  have inj: "inj_on f (set ys)" and dy: "distinct ys"
    using assms(3) by (simp_all add: distinct_map)
  have sets: "set xs = set ys" using assms(1) by (rule mset_eq_setD)
  have dx: "distinct xs" using assms(1) dy by (metis mset_eq_imp_distinct_iff)
  have one: "filter (\<lambda>x. f k = f x) zs = [k]" if "distinct zs" "set zs = set ys" for zs
  proof -
    have "filter (\<lambda>x. f k = f x) zs = filter (\<lambda>x. x = k) zs"
      using that inj k by (intro filter_cong) (auto dest: inj_onD)
    also have "\<dots> = [k]" using that k by (simp add: distinct_filter_eq)
    finally show ?thesis .
  qed
  show "filter (\<lambda>x. f k = f x) ys = filter (\<lambda>x. f k = f x) xs"
    using one [OF dy] one [OF dx] sets by simp
qed

subsection \<open>Words\<close>

lemma unat_word_small: "n < 2 ^ LENGTH('a) \<Longrightarrow> unat (word_of_nat n :: 'a::len word) = n"
  by (simp add: unat_of_nat take_bit_nat_eq_self)

lemma unat_minus_small:
  "n \<le> unat w \<Longrightarrow> unat (w - word_of_nat n :: 'a::len word) = unat w - n"
proof -
  assume n: "n \<le> unat w"
  then have "n < 2 ^ LENGTH('a)" using unsigned_less [of w, where 'a = nat] by linarith
  then have e: "unat (word_of_nat n :: 'a word) = n" by (rule unat_word_small)
  then have "word_of_nat n \<le> w" using n by (simp add: word_le_nat_alt)
  then show ?thesis by (simp add: unat_sub e)
qed

lemma unat_plus_small:
  "unat w + n < 2 ^ LENGTH('a) \<Longrightarrow> unat (w + word_of_nat n :: 'a::len word) = unat w + n"
  by (metis add_lessD1 add.commute unat_add_lem unat_word_small)

lemma unat_max_u16: "unat (- 1 :: u16) = 65535"
  by (simp add: unsigned_minus_1_eq_mask mask_eq_exp_minus_1)

subsection \<open>Sums and counts over indexed lists\<close>

lemma find_upt_Some: "find P [0..<n] = Some i \<Longrightarrow> i < n \<and> P i"
  by (auto simp: find_Some_iff)

lemma sum_list_sort_key: "sum_list (map g (sort_key f xs)) = sum_list (map (g :: _ \<Rightarrow> nat) xs)"
  by (metis mset_map mset_sort sum_mset_sum_list)

lemma map_upt_shift: "map f [i..<i + length (x # xs)] = f i # map f [Suc i..<Suc i + length xs]"
  by (simp add: upt_conv_Cons del: upt_Suc)

lemma sum_list_update_other:
  "j < length xs \<Longrightarrow> sum_list (map f (xs[j := y])) = f y + (\<Sum>k\<leftarrow>[0..<length xs]. if k \<noteq> j then f (xs ! k) else (0::nat))"
proof (induction xs arbitrary: j)
  case Nil
  then show ?case by simp
next
  case (Cons x xs)
  have "[0..<length (x # xs)] = 0 # map Suc [0..<length xs]"
    by (simp add: upt_conv_Cons map_Suc_upt del: upt_Suc)
  then have shift: "(\<Sum>k\<leftarrow>[0..<length (x # xs)]. g k) = g 0 + (\<Sum>k\<leftarrow>[0..<length xs]. g (Suc k))" for g :: "nat \<Rightarrow> nat"
    by (simp only: list.map sum_list.Cons map_map comp_def)
  have all: "(\<Sum>k\<leftarrow>[0..<length xs]. f (xs ! k)) = sum_list (map f xs)"
    using arg_cong [OF map_nth [of xs], of "map f"] by (simp only: map_map comp_def)
  show ?case
  proof (cases j)
    case 0
    then show ?thesis unfolding shift by (simp add: all)
  next
    case (Suc i)
    then show ?thesis unfolding shift using Cons by (simp cong: if_cong)
  qed
qed

lemma length_filter_update:
  assumes "j < length xs" "P (xs ! j)" "\<not> P y"
  shows "length (filter P xs) = Suc (length (filter P (xs[j := y])))"
proof -
  have "xs = take j xs @ xs ! j # drop (Suc j) xs" using assms(1) by (rule id_take_nth_drop)
  then have "filter P xs = filter P (take j xs) @ xs ! j # filter P (drop (Suc j) xs)"
    using assms(2) by (metis filter.simps(2) filter_append)
  moreover have "filter P (xs[j := y]) = filter P (take j xs) @ filter P (drop (Suc j) xs)"
    using assms(1,3) by (simp add: upd_conv_take_nth_drop)
  ultimately show ?thesis by simp
qed

end
