(* ===== verification/Common.thy ===== *)
theory Common
  imports Prelude
begin

text \<open>
  The public data model of \<open>include/tinydbms/common.hpp\<close>: SQL types, runtime values, column and
  table metadata, and the byte limits. Signed integers are kept at their width as words and read
  with \<open>sint\<close>; a \<open>double\<close> is its IEEE-754 bit pattern, with the comparisons and the conversion
  from an integer that the source uses written out on that pattern.
\<close>

subsection \<open>Types and values\<close>

datatype Type = kInt | kBigInt | kDouble | kBoolean | kVarchar

datatype Value =
    VNull                \<comment> \<open>\<open>std::monostate\<close>\<close>
  | VInt u32             \<comment> \<open>\<open>std::int32_t\<close>\<close>
  | VBigInt u64          \<comment> \<open>\<open>std::int64_t\<close>\<close>
  | VDouble u64          \<comment> \<open>\<open>double\<close>, as its bit pattern\<close>
  | VBool bool
  | VText string

record ColumnMeta =
  cm_name :: string
  cm_type :: Type
  cm_nullable :: bool

record TableMeta =
  tm_table_id :: u32
  tm_table_name :: string
  tm_columns :: "ColumnMeta list"

text \<open>Stored records (\<open>include/tinydbms/storage.hpp\<close>).\<close>

record RecordId =
  rid_value :: u64

record Record =
  rec_rid :: RecordId
  rec_values :: "Value list"

record UpdateRow =
  uw_rid :: RecordId
  uw_values :: "Value list"

definition kMaxVarcharBytes :: nat where "kMaxVarcharBytes = 1024"
definition kMaxRowLogicalBytes :: nat where "kMaxRowLogicalBytes = 4096"

fun is_null_value :: "Value \<Rightarrow> bool" where
  "is_null_value VNull = True"
| "is_null_value _ = False"

lemma is_null_value_iff [simp]: "is_null_value v \<longleftrightarrow> v = VNull"
  by (cases v) simp_all

text \<open>The type of the alternative a value holds, \<open>None\<close> for NULL.\<close>

fun runtime_type :: "Value \<Rightarrow> Type option" where
  "runtime_type (VInt _) = Some kInt"
| "runtime_type (VBigInt _) = Some kBigInt"
| "runtime_type (VDouble _) = Some kDouble"
| "runtime_type (VBool _) = Some kBoolean"
| "runtime_type (VText _) = Some kVarchar"
| "runtime_type VNull = None"

lemma runtime_type_cases:
  "runtime_type v = None \<longleftrightarrow> v = VNull"
  "runtime_type v = Some kInt \<longleftrightarrow> (\<exists>i. v = VInt i)"
  "runtime_type v = Some kBigInt \<longleftrightarrow> (\<exists>i. v = VBigInt i)"
  "runtime_type v = Some kDouble \<longleftrightarrow> (\<exists>d. v = VDouble d)"
  "runtime_type v = Some kBoolean \<longleftrightarrow> (\<exists>b. v = VBool b)"
  "runtime_type v = Some kVarchar \<longleftrightarrow> (\<exists>s. v = VText s)"
  by (cases v; simp)+

subsection \<open>Doubles\<close>

text \<open>
  A finite double is an integer multiple of \<open>2 ^ -1074\<close>; \<open>double_scaled\<close> is that multiple. The
  same formula places the two infinities beyond every finite value, so the C++ comparisons are
  comparisons of \<open>double_scaled\<close> once NaN is excluded.
\<close>

definition double_negative :: "u64 \<Rightarrow> bool" where
  "double_negative d \<longleftrightarrow> bit d 63"

definition double_exponent :: "u64 \<Rightarrow> int" where
  "double_exponent d = uint (drop_bit 52 d AND 2047)"

definition double_fraction :: "u64 \<Rightarrow> int" where
  "double_fraction d = uint (d AND 4503599627370495)"

definition isfinite :: "u64 \<Rightarrow> bool" where
  "isfinite d \<longleftrightarrow> double_exponent d \<noteq> 2047"

definition isnan :: "u64 \<Rightarrow> bool" where
  "isnan d \<longleftrightarrow> double_exponent d = 2047 \<and> double_fraction d \<noteq> 0"

definition double_magnitude :: "u64 \<Rightarrow> int" where
  "double_magnitude d =
     (if double_exponent d = 0 then double_fraction d
      else (2 ^ 52 + double_fraction d) * 2 ^ nat (double_exponent d - 1))"

definition double_scaled :: "u64 \<Rightarrow> int" where
  "double_scaled d = (if double_negative d then - double_magnitude d else double_magnitude d)"

definition double_eq :: "u64 \<Rightarrow> u64 \<Rightarrow> bool" where
  "double_eq a b \<longleftrightarrow> \<not> isnan a \<and> \<not> isnan b \<and> double_scaled a = double_scaled b"

definition double_lt :: "u64 \<Rightarrow> u64 \<Rightarrow> bool" where
  "double_lt a b \<longleftrightarrow> \<not> isnan a \<and> \<not> isnan b \<and> double_scaled a < double_scaled b"

definition double_le :: "u64 \<Rightarrow> u64 \<Rightarrow> bool" where
  "double_le a b \<longleftrightarrow> \<not> isnan a \<and> \<not> isnan b \<and> double_scaled a \<le> double_scaled b"

text \<open>\<open>static_cast<double>\<close> of an integer: round to nearest, ties to even.\<close>

function bit_length :: "int \<Rightarrow> nat" where
  "bit_length i = (if i \<le> 0 then 0 else Suc (bit_length (i div 2)))"
  by pat_completeness auto
termination
  by (relation "measure nat") auto

declare bit_length.simps [simp del]

definition round_half_even :: "int \<Rightarrow> nat \<Rightarrow> int" where
  "round_half_even i s =
     (let q = i div 2 ^ s; r = i mod 2 ^ s; half = 2 ^ (s - 1)
      in if s = 0 then i
         else if half < r \<or> (r = half \<and> odd q) then q + 1 else q)"

definition double_of_int :: "int \<Rightarrow> u64" where
  "double_of_int i =
     (let m = \<bar>i\<bar>; len = bit_length m;
          q = (if len \<le> 53 then m * 2 ^ (53 - len) else round_half_even m (len - 53));
          sign = (if i < 0 then 2 ^ 63 else 0)
      in if i = 0 then 0
         else word_of_int (sign + (1022 + int len) * 2 ^ 52 + (q - 2 ^ 52)))"

lemma double_eq_refl: "\<not> isnan a \<Longrightarrow> double_eq a a"
  by (simp add: double_eq_def)

lemma double_eq_sym: "double_eq a b \<longleftrightarrow> double_eq b a"
  by (auto simp: double_eq_def)

lemma double_eq_trans: "double_eq a b \<Longrightarrow> double_eq b c \<Longrightarrow> double_eq a c"
  by (auto simp: double_eq_def)

lemma isfinite_not_nan: "isfinite d \<Longrightarrow> \<not> isnan d"
  by (simp add: isfinite_def isnan_def)

lemma double_trichotomy:
  "\<not> isnan a \<Longrightarrow> \<not> isnan b \<Longrightarrow> double_lt a b \<or> double_eq a b \<or> double_lt b a"
  by (auto simp: double_lt_def double_eq_def)

end
