(* ===== verification/Plan.thy ===== *)
theory Plan
  imports Common
begin

text \<open>
  Source ranges (\<open>include/tinydbms/diagnostic.hpp\<close>) and the plan language of
  \<open>include/tinydbms/compiler.hpp\<close>, the contract between the compiler and the
  executor: expressions over query-local slots and the plan tree. A \<open>std::unique_ptr\<close> child may be
  null, which is \<open>None\<close> here.
\<close>

type_synonym TableId = u32
type_synonym ColumnId = u32
type_synonym QuerySlot = u32   \<comment> \<open>\<open>SlotId\<close> of \<open>common.hpp\<close>\<close>

subsection \<open>Diagnostics\<close>

record SourceLocation =
  sl_line :: int
  sl_column :: int
  sl_byte_offset :: nat

record SourceRange =
  sr_begin :: SourceLocation
  sr_end :: SourceLocation

datatype CompileStage = kLex | kSyntax | kSemantic

record FixIt =
  fi_range :: SourceRange
  fi_replacement :: string

record CompileError =
  ce_stage :: CompileStage
  ce_source :: SourceRange
  ce_message :: string
  ce_suggestion :: "string option"
  ce_fix_it :: "FixIt option"

subsection \<open>Expressions\<close>

datatype CmpOp = kEq | kNe | kLt | kLe | kGt | kGe
datatype LogicOp = kAnd | kOr
datatype UnaryOp = kNot
datatype NullTestOp = kIsNull | kIsNotNull

text \<open>\<open>std::variant<CmpOp, LogicOp>\<close>\<close>

datatype BinaryOp = Cmp CmpOp | Logic LogicOp

datatype Expr =
    ColumnRef QuerySlot
  | Literal Value
  | Binary BinaryOp "Expr option" "Expr option"
  | Unary UnaryOp "Expr option"
  | NullTest NullTestOp "Expr option"

subsection \<open>Plans\<close>

record ScanColumn =
  sc_column_id :: ColumnId
  sc_output_slot :: QuerySlot

record CreateTablePlan =
  ct_table_name :: string
  ct_columns :: "ColumnMeta list"

record InsertPlan =
  ip_table_id :: TableId
  ip_columns :: "ColumnId list"
  ip_rows :: "Value list list"

record DeletePlan =
  dp_table_id :: TableId
  dp_input_columns :: "ScanColumn list"
  dp_predicate :: "Expr option"

record UpdateAssignment =
  ua_column_id :: ColumnId
  ua_value :: Value

record UpdatePlan =
  up_table_id :: TableId
  up_input_columns :: "ScanColumn list"
  up_assignments :: "UpdateAssignment list"
  up_predicate :: "Expr option"

datatype SortDirection = kAsc | kDesc

record SortKey =
  sk_slot_id :: QuerySlot
  sk_direction :: SortDirection

datatype JoinKind = kInner
datatype AggregateKind = kCount | kSum | kAvg | kMin | kMax

record AggregateCall =
  ac_kind :: AggregateKind
  ac_input_slot :: "QuerySlot option"
  ac_output_slot :: QuerySlot
  ac_output_type :: Type
  ac_nullable :: bool

datatype PlanNode =
    SeqScanNode TableId "ScanColumn list"
  | FilterNode Expr "PlanNode option"
  | JoinNode JoinKind Expr "PlanNode option" "PlanNode option"
  | AggregateNode "QuerySlot list" "AggregateCall list" "PlanNode option"
  | SortNode "SortKey list" "PlanNode option"
  | ProjectNode "QuerySlot list" "PlanNode option"

record QueryOutput =
  qo_slot_id :: QuerySlot
  qo_name :: string
  qo_type :: Type
  qo_nullable :: bool

record QueryPlan =
  qp_root :: "PlanNode option"
  qp_outputs :: "QueryOutput list"

datatype Plan =
    PlanCreateTable CreateTablePlan
  | PlanInsert InsertPlan
  | PlanDelete DeletePlan
  | PlanUpdate UpdatePlan
  | PlanQuery QueryPlan

end
