(* ===== verification/Expression.thy ===== *)
theory Expression
  imports Plan
begin

text \<open>
  \<open>src/core/expression.cpp\<close>: the runtime of predicates. Three-valued truth, the comparison rules of the
  SQL dialect, the structural validation of an expression against a row, and its evaluation. Enum
  values outside the declared enumerators do not exist here, so the branches that reject them have no
  counterpart.
\<close>

subsection \<open>Types, rows and results\<close>

definition kMaxExpressionDepth :: nat where "kMaxExpressionDepth = 256"

datatype ExprType = EInt | EBigInt | EDouble | EVarchar | EBool | ENull

datatype ExprError = ExprError (expr_error_message: string)

record SlotValue =
  sv_slot_id :: QuerySlot
  sv_value :: Value

type_synonym SlotRow = "SlotValue list"

datatype TruthValue = TFalse | TTrue | TUnknown

text \<open>\<open>std::to_string\<close> of an unsigned integer.\<close>

fun decimal :: "nat \<Rightarrow> string" where
  "decimal n = (if n < 10 then [char_of (48 + n)] else decimal (n div 10) @ [char_of (48 + n mod 10)])"

declare decimal.simps [simp del]

fun type_of_value :: "Value \<Rightarrow> ExprType" where
  "type_of_value (VInt _) = EInt"
| "type_of_value (VBigInt _) = EBigInt"
| "type_of_value (VDouble _) = EDouble"
| "type_of_value (VText _) = EVarchar"
| "type_of_value (VBool _) = EBool"
| "type_of_value VNull = ENull"

text \<open>The loop over the row: a slot bound twice or not at all is an error.\<close>

fun lookup_loop :: "SlotRow \<Rightarrow> QuerySlot \<Rightarrow> Value option \<Rightarrow> (ExprError, Value) result" where
  "lookup_loop [] slot_id None =
     Inl (ExprError (''expression slot s'' @ decimal (unat slot_id) @ '' is missing or unbound''))"
| "lookup_loop [] slot_id (Some v) = Inr v"
| "lookup_loop (entry # rest) slot_id found =
     (if sv_slot_id entry \<noteq> slot_id then lookup_loop rest slot_id found
      else case found of
        Some _ \<Rightarrow> Inl (ExprError (''expression slot s'' @ decimal (unat slot_id) @ '' is bound more than once''))
      | None \<Rightarrow> lookup_loop rest slot_id (Some (sv_value entry)))"

definition lookup_value :: "SlotRow \<Rightarrow> QuerySlot \<Rightarrow> (ExprError, Value) result" where
  "lookup_value row slot_id = lookup_loop row slot_id None"

subsection \<open>Three-valued logic\<close>

fun to_truth_value :: "Value \<Rightarrow> (ExprError, TruthValue) result" where
  "to_truth_value (VBool b) = Inr (if b then TTrue else TFalse)"
| "to_truth_value VNull = Inr TUnknown"
| "to_truth_value _ = Inl (ExprError ''predicate value must be BOOLEAN or NULL'')"

fun truth_value_to_value :: "TruthValue \<Rightarrow> Value" where
  "truth_value_to_value TFalse = VBool False"
| "truth_value_to_value TTrue = VBool True"
| "truth_value_to_value TUnknown = VNull"

fun truth_not :: "TruthValue \<Rightarrow> TruthValue" where
  "truth_not TFalse = TTrue"
| "truth_not TTrue = TFalse"
| "truth_not TUnknown = TUnknown"

definition truth_and :: "TruthValue \<Rightarrow> TruthValue \<Rightarrow> TruthValue" where
  "truth_and lhs rhs =
     (if lhs = TFalse \<or> rhs = TFalse then TFalse
      else if lhs = TUnknown \<or> rhs = TUnknown then TUnknown
      else TTrue)"

definition truth_or :: "TruthValue \<Rightarrow> TruthValue \<Rightarrow> TruthValue" where
  "truth_or lhs rhs =
     (if lhs = TTrue \<or> rhs = TTrue then TTrue
      else if lhs = TUnknown \<or> rhs = TUnknown then TUnknown
      else TFalse)"

subsection \<open>Comparisons\<close>

definition is_ordered_comparison :: "CmpOp \<Rightarrow> bool" where
  "is_ordered_comparison op \<longleftrightarrow> op = kLt \<or> op = kLe \<or> op = kGt \<or> op = kGe"

definition is_numeric_type :: "ExprType \<Rightarrow> bool" where
  "is_numeric_type type \<longleftrightarrow> type = EInt \<or> type = EBigInt \<or> type = EDouble"

fun numeric_double_value :: "Value \<Rightarrow> u64 option" where
  "numeric_double_value (VDouble d) = Some d"
| "numeric_double_value (VInt i) = Some (double_of_int (sint i))"
| "numeric_double_value (VBigInt i) = Some (double_of_int (sint i))"
| "numeric_double_value _ = None"

text \<open>\<open>std::int64_t\<close> values are read as integers: only comparisons are made on them.\<close>

fun integer_value :: "Value \<Rightarrow> int option" where
  "integer_value (VInt i) = Some (sint i)"
| "integer_value (VBigInt i) = Some (sint i)"
| "integer_value _ = None"

fun compare_ints :: "int \<Rightarrow> int \<Rightarrow> CmpOp \<Rightarrow> bool" where
  "compare_ints lhs rhs kEq \<longleftrightarrow> lhs = rhs"
| "compare_ints lhs rhs kNe \<longleftrightarrow> lhs \<noteq> rhs"
| "compare_ints lhs rhs kLt \<longleftrightarrow> lhs < rhs"
| "compare_ints lhs rhs kLe \<longleftrightarrow> lhs \<le> rhs"
| "compare_ints lhs rhs kGt \<longleftrightarrow> lhs > rhs"
| "compare_ints lhs rhs kGe \<longleftrightarrow> lhs \<ge> rhs"

fun compare_doubles :: "u64 \<Rightarrow> u64 \<Rightarrow> CmpOp \<Rightarrow> bool" where
  "compare_doubles lhs rhs kEq \<longleftrightarrow> double_eq lhs rhs"
| "compare_doubles lhs rhs kNe \<longleftrightarrow> \<not> double_eq lhs rhs"
| "compare_doubles lhs rhs kLt \<longleftrightarrow> double_lt lhs rhs"
| "compare_doubles lhs rhs kLe \<longleftrightarrow> double_le lhs rhs"
| "compare_doubles lhs rhs kGt \<longleftrightarrow> double_lt rhs lhs"
| "compare_doubles lhs rhs kGe \<longleftrightarrow> double_le rhs lhs"

fun compare_strings :: "string \<Rightarrow> string \<Rightarrow> CmpOp \<Rightarrow> bool" where
  "compare_strings lhs rhs kEq \<longleftrightarrow> lhs = rhs"
| "compare_strings lhs rhs kNe \<longleftrightarrow> lhs \<noteq> rhs"
| "compare_strings lhs rhs _ \<longleftrightarrow> False"

definition compare_booleans :: "bool \<Rightarrow> bool \<Rightarrow> CmpOp \<Rightarrow> bool" where
  "compare_booleans lhs rhs op \<longleftrightarrow> (if op = kEq then lhs = rhs else lhs \<noteq> rhs)"

subsection \<open>Validation\<close>

definition validate_comparison :: "CmpOp \<Rightarrow> ExprType \<Rightarrow> ExprType \<Rightarrow> (ExprError, ExprType) result" where
  "validate_comparison op lhs_type rhs_type =
     (if lhs_type = ENull \<or> rhs_type = ENull then
        let concrete_type = (if lhs_type = ENull then rhs_type else lhs_type) in
        if is_ordered_comparison op \<and> (concrete_type = EVarchar \<or> concrete_type = EBool) then
          Inl (ExprError (if concrete_type = EVarchar then ''VARCHAR only supports equality comparisons''
                          else ''BOOLEAN only supports equality comparisons''))
        else Inr EBool
      else
        let numeric_comparison = is_numeric_type lhs_type \<and> is_numeric_type rhs_type;
            same_equality_type = lhs_type = rhs_type \<and> (lhs_type = EVarchar \<or> lhs_type = EBool) in
        if \<not> numeric_comparison \<and> \<not> same_equality_type then
          Inl (ExprError ''comparison operands must have the same value type'')
        else if lhs_type = EVarchar \<and> is_ordered_comparison op then
          Inl (ExprError ''VARCHAR only supports equality comparisons'')
        else if lhs_type = EBool \<and> is_ordered_comparison op then
          Inl (ExprError ''BOOLEAN only supports equality comparisons'')
        else Inr EBool)"

definition validate_logic :: "ExprType \<Rightarrow> ExprType \<Rightarrow> (ExprError, ExprType) result" where
  "validate_logic lhs_type rhs_type =
     (let lhs_truth = lhs_type = EBool \<or> lhs_type = ENull;
          rhs_truth = rhs_type = EBool \<or> rhs_type = ENull in
      if \<not> lhs_truth \<or> \<not> rhs_truth then Inl (ExprError ''logical operands must be BOOL'')
      else Inr EBool)"

fun validate_impl :: "Expr \<Rightarrow> SlotRow \<Rightarrow> nat \<Rightarrow> (ExprError, ExprType) result" where
  "validate_impl (ColumnRef slot_id) row depth =
     (if kMaxExpressionDepth \<le> depth then Inl (ExprError ''expression depth exceeds core limit'')
      else bind_result (lookup_value row slot_id) (\<lambda>v. Inr (type_of_value v)))"
| "validate_impl (Literal value) row depth =
     (if kMaxExpressionDepth \<le> depth then Inl (ExprError ''expression depth exceeds core limit'')
      else Inr (type_of_value value))"
| "validate_impl (Binary op (Some lhs) (Some rhs)) row depth =
     (if kMaxExpressionDepth \<le> depth then Inl (ExprError ''expression depth exceeds core limit'')
      else bind_result (validate_impl lhs row (depth + 1)) (\<lambda>lhs_type.
           bind_result (validate_impl rhs row (depth + 1)) (\<lambda>rhs_type.
           case op of Cmp cmp \<Rightarrow> validate_comparison cmp lhs_type rhs_type
                    | Logic _ \<Rightarrow> validate_logic lhs_type rhs_type)))"
| "validate_impl (Binary op _ _) row depth =
     (if kMaxExpressionDepth \<le> depth then Inl (ExprError ''expression depth exceeds core limit'')
      else Inl (ExprError ''binary expression has a null child''))"
| "validate_impl (NullTest op (Some operand)) row depth =
     (if kMaxExpressionDepth \<le> depth then Inl (ExprError ''expression depth exceeds core limit'')
      else bind_result (validate_impl operand row (depth + 1)) (\<lambda>_. Inr EBool))"
| "validate_impl (NullTest op None) row depth =
     (if kMaxExpressionDepth \<le> depth then Inl (ExprError ''expression depth exceeds core limit'')
      else Inl (ExprError ''NULL test expression has a null operand''))"
| "validate_impl (Unary op (Some operand)) row depth =
     (if kMaxExpressionDepth \<le> depth then Inl (ExprError ''expression depth exceeds core limit'')
      else bind_result (validate_impl operand row (depth + 1)) (\<lambda>operand_type.
           if operand_type \<noteq> EBool \<and> operand_type \<noteq> ENull
           then Inl (ExprError ''NOT operand must be BOOL'') else Inr EBool))"
| "validate_impl (Unary op None) row depth =
     (if kMaxExpressionDepth \<le> depth then Inl (ExprError ''expression depth exceeds core limit'')
      else Inl (ExprError ''unary expression has a null operand''))"

definition validate_expr :: "Expr \<Rightarrow> SlotRow \<Rightarrow> (ExprError, ExprType) result" where
  "validate_expr expr row = validate_impl expr row 0"

definition validate_predicate :: "Expr \<Rightarrow> SlotRow \<Rightarrow> ExprError option" where
  "validate_predicate expr row =
     (case validate_impl expr row 0 of
        Inl error \<Rightarrow> Some error
      | Inr type \<Rightarrow>
          if type \<noteq> EBool \<and> type \<noteq> ENull
          then Some (ExprError ''predicate expression must evaluate to BOOL'') else None)"

subsection \<open>Evaluation\<close>

definition different_types :: ExprError where
  "different_types = ExprError ''comparison operands have different value types''"

definition evaluate_comparison :: "CmpOp \<Rightarrow> Value \<Rightarrow> Value \<Rightarrow> (ExprError, Value) result" where
  "evaluate_comparison op lhs rhs =
     (if lhs = VNull \<or> rhs = VNull then
        let concrete = (if lhs = VNull then rhs else lhs) in
        if is_ordered_comparison op \<and> (type_of_value concrete = EVarchar \<or> type_of_value concrete = EBool) then
          Inl (ExprError (if type_of_value concrete = EVarchar
            then ''VARCHAR only supports equality comparisons''
            else ''BOOLEAN only supports equality comparisons''))
        else Inr VNull
      else case lhs of
        VBool lhs_boolean \<Rightarrow>
          (case rhs of
             VBool rhs_boolean \<Rightarrow>
               if is_ordered_comparison op then Inl (ExprError ''BOOLEAN only supports equality comparisons'')
               else Inr (VBool (compare_booleans lhs_boolean rhs_boolean op))
           | _ \<Rightarrow> Inl different_types)
      | _ \<Rightarrow>
          if type_of_value rhs = EBool then Inl different_types
          else if type_of_value lhs = EDouble \<or> type_of_value rhs = EDouble then
            (case (numeric_double_value lhs, numeric_double_value rhs) of
               (Some lhs_number, Some rhs_number) \<Rightarrow> Inr (VBool (compare_doubles lhs_number rhs_number op))
             | _ \<Rightarrow> Inl different_types)
          else case (integer_value lhs, integer_value rhs) of
            (Some lhs_integer, Some rhs_integer) \<Rightarrow> Inr (VBool (compare_ints lhs_integer rhs_integer op))
          | (Some _, None) \<Rightarrow> Inl different_types
          | (None, Some _) \<Rightarrow> Inl different_types
          | (None, None) \<Rightarrow>
              (case lhs of
                 VText lhs_string \<Rightarrow>
                   (case rhs of
                      VText rhs_string \<Rightarrow> Inr (VBool (compare_strings lhs_string rhs_string op))
                    | _ \<Rightarrow> Inl different_types)
               | _ \<Rightarrow> Inl (ExprError ''comparison Value type is not supported by the runtime'')))"

definition evaluate_logic :: "LogicOp \<Rightarrow> Value \<Rightarrow> Value \<Rightarrow> (ExprError, Value) result" where
  "evaluate_logic op lhs rhs =
     bind_result (to_truth_value lhs) (\<lambda>lhs_truth.
     bind_result (to_truth_value rhs) (\<lambda>rhs_truth.
     Inr (truth_value_to_value
       (if op = kAnd then truth_and lhs_truth rhs_truth else truth_or lhs_truth rhs_truth))))"

definition evaluate_binary :: "BinaryOp \<Rightarrow> Value \<Rightarrow> Value \<Rightarrow> (ExprError, Value) result" where
  "evaluate_binary op lhs rhs =
     (case op of Cmp cmp \<Rightarrow> evaluate_comparison cmp lhs rhs | Logic logic \<Rightarrow> evaluate_logic logic lhs rhs)"

definition evaluate_null_test :: "NullTestOp \<Rightarrow> Value \<Rightarrow> Value" where
  "evaluate_null_test op value =
     VBool (if op = kIsNull then is_null_value value else \<not> is_null_value value)"

definition evaluate_not :: "Value \<Rightarrow> (ExprError, Value) result" where
  "evaluate_not value =
     bind_result (to_truth_value value) (\<lambda>truth. Inr (truth_value_to_value (truth_not truth)))"

fun evaluate_impl :: "Expr \<Rightarrow> SlotRow \<Rightarrow> nat \<Rightarrow> (ExprError, Value) result" where
  "evaluate_impl (ColumnRef slot_id) row depth =
     (if kMaxExpressionDepth \<le> depth then Inl (ExprError ''expression depth exceeds core limit'')
      else lookup_value row slot_id)"
| "evaluate_impl (Literal value) row depth =
     (if kMaxExpressionDepth \<le> depth then Inl (ExprError ''expression depth exceeds core limit'')
      else Inr value)"
| "evaluate_impl (Binary op (Some lhs) (Some rhs)) row depth =
     (if kMaxExpressionDepth \<le> depth then Inl (ExprError ''expression depth exceeds core limit'')
      else bind_result (evaluate_impl lhs row (depth + 1)) (\<lambda>lhs_value.
           bind_result (evaluate_impl rhs row (depth + 1)) (\<lambda>rhs_value.
           evaluate_binary op lhs_value rhs_value)))"
| "evaluate_impl (Binary op _ _) row depth =
     (if kMaxExpressionDepth \<le> depth then Inl (ExprError ''expression depth exceeds core limit'')
      else Inl (ExprError ''binary expression has a null child''))"
| "evaluate_impl (NullTest op (Some operand)) row depth =
     (if kMaxExpressionDepth \<le> depth then Inl (ExprError ''expression depth exceeds core limit'')
      else bind_result (evaluate_impl operand row (depth + 1)) (\<lambda>value. Inr (evaluate_null_test op value)))"
| "evaluate_impl (NullTest op None) row depth =
     (if kMaxExpressionDepth \<le> depth then Inl (ExprError ''expression depth exceeds core limit'')
      else Inl (ExprError ''NULL test expression has a null operand''))"
| "evaluate_impl (Unary op (Some operand)) row depth =
     (if kMaxExpressionDepth \<le> depth then Inl (ExprError ''expression depth exceeds core limit'')
      else bind_result (evaluate_impl operand row (depth + 1)) evaluate_not)"
| "evaluate_impl (Unary op None) row depth =
     (if kMaxExpressionDepth \<le> depth then Inl (ExprError ''expression depth exceeds core limit'')
      else Inl (ExprError ''unary expression has a null operand''))"

definition evaluate :: "Expr \<Rightarrow> SlotRow \<Rightarrow> (ExprError, Value) result" where
  "evaluate expr row = evaluate_impl expr row 0"

definition evaluate_predicate :: "Expr \<Rightarrow> SlotRow \<Rightarrow> (ExprError, bool) result" where
  "evaluate_predicate expr row =
     bind_result (evaluate_impl expr row 0) (\<lambda>value.
     bind_result (to_truth_value value) (\<lambda>truth. Inr (truth = TTrue)))"

subsection \<open>The depth limit\<close>

text \<open>Evaluation without the depth counter, and the height it is compared with.\<close>

fun eval_ref :: "Expr \<Rightarrow> SlotRow \<Rightarrow> (ExprError, Value) result" where
  "eval_ref (ColumnRef slot_id) row = lookup_value row slot_id"
| "eval_ref (Literal value) row = Inr value"
| "eval_ref (Binary op (Some lhs) (Some rhs)) row =
     bind_result (eval_ref lhs row) (\<lambda>l. bind_result (eval_ref rhs row) (\<lambda>r. evaluate_binary op l r))"
| "eval_ref (Binary op _ _) row = Inl (ExprError ''binary expression has a null child'')"
| "eval_ref (NullTest op (Some operand)) row =
     bind_result (eval_ref operand row) (\<lambda>value. Inr (evaluate_null_test op value))"
| "eval_ref (NullTest op None) row = Inl (ExprError ''NULL test expression has a null operand'')"
| "eval_ref (Unary op (Some operand)) row = bind_result (eval_ref operand row) evaluate_not"
| "eval_ref (Unary op None) row = Inl (ExprError ''unary expression has a null operand'')"

fun expr_height :: "Expr \<Rightarrow> nat" where
  "expr_height (ColumnRef _) = 1"
| "expr_height (Literal _) = 1"
| "expr_height (Binary _ (Some l) (Some r)) = Suc (max (expr_height l) (expr_height r))"
| "expr_height (Binary _ _ _) = 1"
| "expr_height (NullTest _ (Some x)) = Suc (expr_height x)"
| "expr_height (NullTest _ None) = 1"
| "expr_height (Unary _ (Some x)) = Suc (expr_height x)"
| "expr_height (Unary _ None) = 1"

fun type_ref :: "Expr \<Rightarrow> SlotRow \<Rightarrow> (ExprError, ExprType) result" where
  "type_ref (ColumnRef slot_id) row = bind_result (lookup_value row slot_id) (\<lambda>v. Inr (type_of_value v))"
| "type_ref (Literal value) row = Inr (type_of_value value)"
| "type_ref (Binary op (Some lhs) (Some rhs)) row =
     bind_result (type_ref lhs row) (\<lambda>l. bind_result (type_ref rhs row) (\<lambda>r.
       case op of Cmp cmp \<Rightarrow> validate_comparison cmp l r | Logic _ \<Rightarrow> validate_logic l r))"
| "type_ref (Binary op _ _) row = Inl (ExprError ''binary expression has a null child'')"
| "type_ref (NullTest op (Some operand)) row = bind_result (type_ref operand row) (\<lambda>_. Inr EBool)"
| "type_ref (NullTest op None) row = Inl (ExprError ''NULL test expression has a null operand'')"
| "type_ref (Unary op (Some operand)) row = bind_result (type_ref operand row) (\<lambda>t.
     if t \<noteq> EBool \<and> t \<noteq> ENull then Inl (ExprError ''NOT operand must be BOOL'') else Inr EBool)"
| "type_ref (Unary op None) row = Inl (ExprError ''unary expression has a null operand'')"

lemma evaluate_impl_Inr_iff:
  "evaluate_impl e row d = Inr v \<longleftrightarrow> eval_ref e row = Inr v \<and> d + expr_height e \<le> kMaxExpressionDepth"
  by (induction e row d arbitrary: v rule: evaluate_impl.induct) (auto simp: result_simps not_le)

lemma validate_impl_Inr_iff:
  "validate_impl e row d = Inr t \<longleftrightarrow> type_ref e row = Inr t \<and> d + expr_height e \<le> kMaxExpressionDepth"
  by (induction e row d arbitrary: t rule: validate_impl.induct) (auto simp: result_simps not_le)

lemma evaluate_impl_shallow:
  "d + expr_height e \<le> kMaxExpressionDepth \<Longrightarrow> evaluate_impl e row d = eval_ref e row"
  by (induction e row d rule: evaluate_impl.induct) auto

subsection \<open>Validated expressions evaluate\<close>

text \<open>A value conforms to a static type when it has it, or is the NULL a BOOLEAN expression may yield.\<close>

definition conforms :: "ExprType \<Rightarrow> Value \<Rightarrow> bool" where
  "conforms t v \<longleftrightarrow> type_of_value v = t \<or> (t = EBool \<and> v = VNull)"

lemma validate_comparison_Inr_iff:
  "validate_comparison op ta tb = Inr t \<longleftrightarrow> t = EBool \<and>
     (if ta = ENull \<or> tb = ENull
      then is_ordered_comparison op \<longrightarrow> ta \<notin> {EVarchar, EBool} \<and> tb \<notin> {EVarchar, EBool}
      else is_numeric_type ta \<and> is_numeric_type tb
        \<or> ta = tb \<and> ta \<in> {EVarchar, EBool} \<and> \<not> is_ordered_comparison op)"
  by (cases ta; cases tb) (simp_all add: validate_comparison_def is_numeric_type_def Let_def eq_commute)

lemma comparison_sound:
  assumes "validate_comparison op ta tb = Inr t" "conforms ta l" "conforms tb r"
  shows "\<exists>v. evaluate_comparison op l r = Inr v \<and> conforms t v"
  using assms
  by (cases l; cases r)
    (auto simp: validate_comparison_def evaluate_comparison_def conforms_def is_numeric_type_def Let_def
      split: if_splits)

lemma logic_sound:
  assumes "validate_logic ta tb = Inr t" "conforms ta l" "conforms tb r"
  shows "\<exists>v. evaluate_logic op l r = Inr v \<and> conforms t v"
proof -
  have truth: "\<exists>x. to_truth_value y = Inr x" if "conforms ty y" "ty = EBool \<or> ty = ENull" for ty y
    using that by (cases y) (auto simp: conforms_def)
  have "conforms EBool (truth_value_to_value x)" for x by (cases x) (auto simp: conforms_def)
  then show ?thesis
    using assms truth [of ta l] truth [of tb r]
    by (auto simp: validate_logic_def evaluate_logic_def Let_def split: if_splits)
qed

lemma not_sound:
  assumes "conforms t v" "t = EBool \<or> t = ENull"
  shows "\<exists>w. evaluate_not v = Inr w \<and> conforms EBool w"
  using assms by (cases v) (auto simp: evaluate_not_def conforms_def)

lemma type_ref_sound: "type_ref e row = Inr t \<Longrightarrow> \<exists>v. eval_ref e row = Inr v \<and> conforms t v"
proof (induction e row arbitrary: t rule: type_ref.induct)
  case (3 op l r row)
  then obtain ta tb vl vr where "eval_ref l row = Inr vl" "conforms ta vl" "eval_ref r row = Inr vr" "conforms tb vr"
    and op: "(case op of Cmp c \<Rightarrow> validate_comparison c ta tb | Logic _ \<Rightarrow> validate_logic ta tb) = Inr t"
    by (fastforce simp: result_simps)
  then show ?case using comparison_sound logic_sound by (cases op) (auto simp: evaluate_binary_def)
next
  case (5 op x row)
  then obtain v where "eval_ref x row = Inr v" "t = EBool" by (auto simp: result_simps)
  then show ?case by (simp add: conforms_def evaluate_null_test_def)
next
  case (7 op x row)
  then show ?case using not_sound by (fastforce simp: result_simps split: if_splits)
qed (auto simp: result_simps conforms_def)

lemma validate_impl_sound:
  "validate_impl e row d = Inr t \<Longrightarrow> \<exists>v. evaluate_impl e row d = Inr v \<and> conforms t v"
  using type_ref_sound by (auto simp: validate_impl_Inr_iff evaluate_impl_Inr_iff)

subsection \<open>Properties of expressions\<close>

text \<open>
  An expression that passes validation against a row evaluates on that row without an error, and the
  value has the type validation announced (or is NULL where a BOOLEAN was announced).
\<close>

lemma validated_expression_evaluates:
  assumes "validate_expr e row = Inr t"
  shows "\<exists>v. evaluate e row = Inr v \<and> conforms t v"
  using validate_impl_sound assms by (simp add: validate_expr_def evaluate_def)

text \<open>
  A predicate that passes validation against a row yields true or false on that row, never an error;
  a predicate whose value is NULL counts as false.
\<close>

lemma validated_predicate_decides:
  assumes "validate_predicate e row = None"
  shows "\<exists>b. evaluate_predicate e row = Inr b \<and> (b \<longleftrightarrow> evaluate e row = Inr (VBool True))"
proof -
  from assms obtain t where t: "validate_impl e row 0 = Inr t" "t = EBool \<or> t = ENull"
    by (auto simp: validate_predicate_def split: sum.splits if_splits)
  then obtain v where "evaluate_impl e row 0 = Inr v" "conforms t v" using validate_impl_sound by blast
  then show ?thesis using t(2)
    by (cases v) (auto simp: evaluate_predicate_def evaluate_def conforms_def)
qed

text \<open>The booleans a truth value may stand for; unknown stands for both.\<close>

fun possible :: "TruthValue \<Rightarrow> bool set" where
  "possible TFalse = {False}"
| "possible TTrue = {True}"
| "possible TUnknown = {False, True}"

text \<open>
  The three connectives compute exactly what can be known of the result when unknown operands may be
  true or false.
\<close>

lemma truth_tables_exact:
  "possible (truth_and a b) = {x \<and> y | x y. x \<in> possible a \<and> y \<in> possible b}
   \<and> possible (truth_or a b) = {x \<or> y | x y. x \<in> possible a \<and> y \<in> possible b}
   \<and> possible (truth_not a) = Not ` possible a"
  by (cases a; cases b) (auto simp: truth_and_def truth_or_def)

text \<open>
  The depth guard never changes a result: evaluation succeeds with a value exactly when the expression
  has height at most 256 and evaluation without the guard yields that value, and up to that height the
  guard is never reached.
\<close>

lemma depth_guard_transparent:
  "(evaluate e row = Inr v \<longleftrightarrow> expr_height e \<le> kMaxExpressionDepth \<and> eval_ref e row = Inr v)
   \<and> (expr_height e \<le> kMaxExpressionDepth \<longrightarrow> evaluate e row = eval_ref e row)"
  using evaluate_impl_Inr_iff [of e row 0 v] evaluate_impl_shallow [of 0 e row] by (auto simp: evaluate_def)

end
