(* ===== verification/Planner.thy ===== *)
theory Planner
  imports Expression
begin

text \<open>
  \<open>src/compiler/bound_ast.hpp\<close> and \<open>src/compiler/planner.cpp\<close>: the bound statements that semantic analysis
  produces, and their translation into plans. Children of bound expressions are never null (the code
  dereferences them unchecked), so they are not optional here.
\<close>

subsection \<open>Bound statements\<close>

record BoundColumnRef =
  bc_table_id :: TableId
  bc_column_id :: ColumnId

datatype BoundExpr =
    BoundColumn BoundColumnRef
  | BoundLiteral Value
  | BoundBinaryExpr BinaryOp BoundExpr BoundExpr
  | BoundUnaryExpr UnaryOp BoundExpr
  | BoundNullTestExpr NullTestOp BoundExpr

record BoundCreateTable =
  bct_table_name :: string
  bct_columns :: "ColumnMeta list"

record BoundInsert =
  bi_table_id :: TableId
  bi_columns :: "ColumnId list"
  bi_rows :: "Value list list"

record BoundSortKey =
  bsk_column :: BoundColumnRef
  bsk_direction :: SortDirection

record BoundAggregateCall =
  bac_kind :: AggregateKind
  bac_argument :: "BoundColumnRef option"
  bac_output_type :: Type
  bac_nullable :: bool

datatype BoundSelectItem = SelectColumn BoundColumnRef | SelectAggregate BoundAggregateCall

record BoundJoin =
  bj_table_id :: TableId
  bj_condition :: BoundExpr

record BoundSelect =
  bs_table_id :: TableId
  bs_joins :: "BoundJoin list"
  bs_items :: "BoundSelectItem list"
  bs_predicate :: "BoundExpr option"
  bs_group_by :: "BoundColumnRef list"
  bs_order_by :: "BoundSortKey list"

record BoundDelete =
  bd_table_id :: TableId
  bd_predicate :: "BoundExpr option"

record BoundUpdateAssignment =
  bua_column_id :: ColumnId
  bua_value :: Value

record BoundUpdate =
  bu_table_id :: TableId
  bu_assignments :: "BoundUpdateAssignment list"
  bu_predicate :: "BoundExpr option"

datatype BoundStatement =
    StatementCreateTable BoundCreateTable
  | StatementInsert BoundInsert
  | StatementSelect BoundSelect
  | StatementDelete BoundDelete
  | StatementUpdate BoundUpdate

subsection \<open>Errors and slot bindings\<close>

definition planner_error :: "string \<Rightarrow> CompileError" where
  "planner_error message =
     \<lparr>ce_stage = kSemantic,
      ce_source = \<lparr>sr_begin = \<lparr>sl_line = 1, sl_column = 1, sl_byte_offset = 0\<rparr>,
                   sr_end = \<lparr>sl_line = 1, sl_column = 1, sl_byte_offset = 0\<rparr>\<rparr>,
      ce_message = message, ce_suggestion = None, ce_fix_it = None\<rparr>"

record SlotBinding =
  sb_table :: TableMeta
  sb_columns :: "ScanColumn list"

definition find_table :: "TableMeta list \<Rightarrow> TableId \<Rightarrow> TableMeta option" where
  "find_table tables table_id = find (\<lambda>candidate. tm_table_id candidate = table_id) tables"

text \<open>The inner loop: one scan column per table column, slots numbered consecutively.\<close>

fun bind_columns ::
  "nat \<Rightarrow> nat \<Rightarrow> ColumnMeta list \<Rightarrow> (CompileError, ScanColumn list \<times> nat) result" where
  "bind_columns index next_slot [] = Inr ([], next_slot)"
| "bind_columns index next_slot (c # rest) =
     (if 4294967295 < index \<or> 4294967295 < next_slot then
        Inl (planner_error ''table has too many columns for plan slot binding'')
      else bind_result (bind_columns (index + 1) (next_slot + 1) rest) (\<lambda>(columns, final).
        Inr (\<lparr>sc_column_id = word_of_nat index, sc_output_slot = word_of_nat next_slot\<rparr> # columns, final)))"

fun build_slot_bindings_from ::
  "TableMeta list \<Rightarrow> nat \<Rightarrow> TableId list \<Rightarrow> (CompileError, SlotBinding list) result" where
  "build_slot_bindings_from tables next_slot [] = Inr []"
| "build_slot_bindings_from tables next_slot (table_id # rest) =
     (case find_table tables table_id of
        None \<Rightarrow> Inl (planner_error ''planner could not resolve bound table metadata'')
      | Some table \<Rightarrow>
          bind_result (bind_columns 0 next_slot (tm_columns table)) (\<lambda>(columns, next_slot').
          bind_result (build_slot_bindings_from tables next_slot' rest) (\<lambda>bindings.
          Inr (\<lparr>sb_table = table, sb_columns = columns\<rparr> # bindings))))"

definition build_slot_bindings :: "TableMeta list \<Rightarrow> TableId list \<Rightarrow> (CompileError, SlotBinding list) result" where
  "build_slot_bindings tables table_ids = build_slot_bindings_from tables 0 table_ids"

text \<open>The first binding of the table decides.\<close>

definition find_binding :: "SlotBinding list \<Rightarrow> TableId \<Rightarrow> SlotBinding option" where
  "find_binding bindings table_id =
     find (\<lambda>candidate. tm_table_id (sb_table candidate) = table_id) bindings"

fun find_slot :: "SlotBinding list \<Rightarrow> BoundColumnRef \<Rightarrow> QuerySlot option" where
  "find_slot [] reference = None"
| "find_slot (binding # rest) reference =
     (if tm_table_id (sb_table binding) \<noteq> bc_table_id reference then find_slot rest reference
      else map_option sc_output_slot
        (find (\<lambda>candidate. sc_column_id candidate = bc_column_id reference) (sb_columns binding)))"

fun aggregate_name :: "AggregateKind \<Rightarrow> string" where
  "aggregate_name kCount = ''COUNT''"
| "aggregate_name kSum = ''SUM''"
| "aggregate_name kAvg = ''AVG''"
| "aggregate_name kMin = ''MIN''"
| "aggregate_name kMax = ''MAX''"

subsection \<open>Expressions\<close>

fun generate_expr :: "BoundExpr \<Rightarrow> SlotBinding list \<Rightarrow> (CompileError, Expr) result" where
  "generate_expr (BoundColumn column) bindings =
     (case find_slot bindings column of
        None \<Rightarrow> Inl (planner_error ''bound expression references an unmapped column'')
      | Some slot \<Rightarrow> Inr (ColumnRef slot))"
| "generate_expr (BoundLiteral value) bindings = Inr (Literal value)"
| "generate_expr (BoundBinaryExpr op lhs rhs) bindings =
     bind_result (generate_expr lhs bindings) (\<lambda>l.
     bind_result (generate_expr rhs bindings) (\<lambda>r.
     Inr (Binary op (Some l) (Some r))))"
| "generate_expr (BoundNullTestExpr op operand) bindings =
     bind_result (generate_expr operand bindings) (\<lambda>x. Inr (NullTest op (Some x)))"
| "generate_expr (BoundUnaryExpr op operand) bindings =
     bind_result (generate_expr operand bindings) (\<lambda>x. Inr (Unary kNot (Some x)))"

definition generate_predicate ::
  "BoundExpr option \<Rightarrow> SlotBinding list \<Rightarrow> (CompileError, Expr option) result" where
  "generate_predicate predicate bindings =
     (case predicate of
        None \<Rightarrow> Inr None
      | Some e \<Rightarrow> bind_result (generate_expr e bindings) (\<lambda>x. Inr (Some x)))"

subsection \<open>Statements\<close>

definition generate_create_table_plan :: "BoundCreateTable \<Rightarrow> Plan" where
  "generate_create_table_plan statement =
     PlanCreateTable \<lparr>ct_table_name = bct_table_name statement, ct_columns = bct_columns statement\<rparr>"

definition generate_insert_plan :: "BoundInsert \<Rightarrow> Plan" where
  "generate_insert_plan statement =
     PlanInsert \<lparr>ip_table_id = bi_table_id statement, ip_columns = bi_columns statement,
       ip_rows = bi_rows statement\<rparr>"

text \<open>The select list: project slots, output descriptions, aggregate calls, and the next free slot.\<close>

fun generate_items ::
  "SlotBinding list \<Rightarrow> nat \<Rightarrow> BoundSelectItem list \<Rightarrow>
   (CompileError, QuerySlot list \<times> QueryOutput list \<times> AggregateCall list) result" where
  "generate_items bindings next_slot [] = Inr ([], [], [])"
| "generate_items bindings next_slot (SelectColumn output # rest) =
     (case (find_binding bindings (bc_table_id output), find_slot bindings output) of
        (Some binding, Some slot) \<Rightarrow>
          if length (tm_columns (sb_table binding)) \<le> unat (bc_column_id output) then
            Inl (planner_error ''bound SELECT output references an unmapped column'')
          else
            let column = tm_columns (sb_table binding) ! unat (bc_column_id output) in
            bind_result (generate_items bindings next_slot rest) (\<lambda>(projects, outputs, calls).
            Inr (slot # projects,
                 \<lparr>qo_slot_id = slot, qo_name = cm_name column, qo_type = cm_type column,
                  qo_nullable = cm_nullable column\<rparr> # outputs, calls))
      | _ \<Rightarrow> Inl (planner_error ''bound SELECT output references an unmapped column''))"
| "generate_items bindings next_slot (SelectAggregate aggregate # rest) =
     (if 4294967295 < next_slot then
        Inl (planner_error ''query has too many aggregate outputs for plan slot binding'')
      else
        let output_slot = word_of_nat next_slot in
        bind_result
          (case bac_argument aggregate of
             None \<Rightarrow> Inr (None, ''*'')
           | Some argument \<Rightarrow>
               (case (find_slot bindings argument, find_binding bindings (bc_table_id argument)) of
                  (Some slot, Some binding) \<Rightarrow>
                    if length (tm_columns (sb_table binding)) \<le> unat (bc_column_id argument) then
                      Inl (planner_error ''bound aggregate argument references an unmapped column'')
                    else Inr (Some slot, cm_name (tm_columns (sb_table binding) ! unat (bc_column_id argument)))
                | _ \<Rightarrow> Inl (planner_error ''bound aggregate argument references an unmapped column'')))
          (\<lambda>(input_slot, input_name).
        bind_result (generate_items bindings (next_slot + 1) rest) (\<lambda>(projects, outputs, calls).
        Inr (output_slot # projects,
             \<lparr>qo_slot_id = output_slot,
              qo_name = aggregate_name (bac_kind aggregate) @ ''('' @ input_name @ '')'',
              qo_type = bac_output_type aggregate, qo_nullable = bac_nullable aggregate\<rparr> # outputs,
             \<lparr>ac_kind = bac_kind aggregate, ac_input_slot = input_slot, ac_output_slot = output_slot,
              ac_output_type = bac_output_type aggregate, ac_nullable = bac_nullable aggregate\<rparr> # calls))))"

definition generate_group_keys ::
  "SlotBinding list \<Rightarrow> BoundColumnRef list \<Rightarrow> (CompileError, QuerySlot list) result" where
  "generate_group_keys bindings keys = collect_results (\<lambda>key.
     case find_slot bindings key of
       None \<Rightarrow> Inl (planner_error ''bound GROUP BY key references an unmapped column'')
     | Some slot \<Rightarrow> Inr slot) keys"

definition generate_sort_keys ::
  "SlotBinding list \<Rightarrow> BoundSortKey list \<Rightarrow> (CompileError, SortKey list) result" where
  "generate_sort_keys bindings keys = collect_results (\<lambda>key.
     case find_slot bindings (bsk_column key) of
       None \<Rightarrow> Inl (planner_error ''bound ORDER BY key references an unmapped column'')
     | Some slot \<Rightarrow> Inr \<lparr>sk_slot_id = slot, sk_direction = bsk_direction key\<rparr>) keys"

text \<open>The condition of join \<open>index\<close> sees the first \<open>index + 2\<close> tables.\<close>

definition generate_join_conditions ::
  "SlotBinding list \<Rightarrow> BoundJoin list \<Rightarrow> (CompileError, Expr list) result" where
  "generate_join_conditions bindings joins = collect_results (\<lambda>(index, join).
     generate_expr (bj_condition join) (take (index + 2) bindings)) (enumerate 0 joins)"

text \<open>The tree above the scans.\<close>

definition join_tree :: "BoundSelect \<Rightarrow> SlotBinding list \<Rightarrow> Expr list \<Rightarrow> PlanNode" where
  "join_tree statement bindings conditions =
     fold (\<lambda>(index, join) child.
         JoinNode kInner (conditions ! index) (Some child)
           (Some (SeqScanNode (bj_table_id join) (sb_columns (bindings ! (index + 1))))))
       (enumerate 0 (bs_joins statement))
       (SeqScanNode (bs_table_id statement) (sb_columns (hd bindings)))"

definition generate_select_plan :: "BoundSelect \<Rightarrow> TableMeta list \<Rightarrow> (CompileError, Plan) result" where
  "generate_select_plan statement catalog =
     (let table_ids = bs_table_id statement # map bj_table_id (bs_joins statement) in
      bind_result (build_slot_bindings catalog table_ids) (\<lambda>bindings.
      let next_slot = sum_list (map (\<lambda>b. length (sb_columns b)) bindings) in
      bind_result (generate_group_keys bindings (bs_group_by statement)) (\<lambda>group_keys.
      bind_result (generate_items bindings next_slot (bs_items statement))
        (\<lambda>(project_outputs, query_outputs, aggregate_calls).
      bind_result (generate_predicate (bs_predicate statement) bindings) (\<lambda>predicate.
      bind_result (generate_sort_keys bindings (bs_order_by statement)) (\<lambda>sort_keys.
      bind_result (generate_join_conditions bindings (bs_joins statement)) (\<lambda>join_conditions.
      let child = join_tree statement bindings join_conditions;
          child = (case predicate of None \<Rightarrow> child | Some p \<Rightarrow> FilterNode p (Some child));
          child = (if group_keys \<noteq> [] \<or> aggregate_calls \<noteq> []
                   then AggregateNode group_keys aggregate_calls (Some child) else child);
          child = (if sort_keys \<noteq> [] then SortNode sort_keys (Some child) else child)
      in Inr (PlanQuery \<lparr>qp_root = Some (ProjectNode project_outputs (Some child)),
                         qp_outputs = query_outputs\<rparr>))))))))"

definition generate_delete_plan :: "BoundDelete \<Rightarrow> TableMeta list \<Rightarrow> (CompileError, Plan) result" where
  "generate_delete_plan statement catalog =
     bind_result (build_slot_bindings catalog [bd_table_id statement]) (\<lambda>bindings.
     let binding = hd bindings in
     bind_result (generate_predicate (bd_predicate statement) [binding]) (\<lambda>predicate.
     Inr (PlanDelete \<lparr>dp_table_id = bd_table_id statement, dp_input_columns = sb_columns binding,
       dp_predicate = predicate\<rparr>)))"

definition generate_update_plan :: "BoundUpdate \<Rightarrow> TableMeta list \<Rightarrow> (CompileError, Plan) result" where
  "generate_update_plan statement catalog =
     bind_result (build_slot_bindings catalog [bu_table_id statement]) (\<lambda>bindings.
     let binding = hd bindings in
     bind_result (generate_predicate (bu_predicate statement) [binding]) (\<lambda>predicate.
     bind_result (collect_results (\<lambda>assignment.
         if length (tm_columns (sb_table binding)) \<le> unat (bua_column_id assignment) then
           Inl (planner_error ''bound UPDATE assignment references an unmapped column'')
         else Inr \<lparr>ua_column_id = bua_column_id assignment, ua_value = bua_value assignment\<rparr>)
       (bu_assignments statement)) (\<lambda>assignments.
     Inr (PlanUpdate \<lparr>up_table_id = bu_table_id statement, up_input_columns = sb_columns binding,
       up_assignments = assignments, up_predicate = predicate\<rparr>))))"

subsection \<open>Slot numbering\<close>

lemma bind_columns_Inr:
  "bind_columns i n cs = Inr (cols, m) \<Longrightarrow> m = n + length cs
     \<and> map sc_output_slot cols = map word_of_nat [n..<n + length cs]
     \<and> map sc_column_id cols = map word_of_nat [i..<i + length cs]
     \<and> (cs \<noteq> [] \<longrightarrow> n + length cs \<le> 2 ^ 32 \<and> i + length cs \<le> 2 ^ 32)"
proof (induction i n cs arbitrary: cols m rule: bind_columns.induct)
  case (2 i n c cs)
  then obtain cols' where b: "bind_columns (i + 1) (n + 1) cs = Inr (cols', m)" "i \<le> 4294967295" "n \<le> 4294967295"
    and cols: "cols = \<lparr>sc_column_id = word_of_nat i, sc_output_slot = word_of_nat n\<rparr> # cols'"
    by (auto simp: result_simps split: if_splits)
  have ih: "m = n + 1 + length cs
     \<and> map sc_output_slot cols' = map word_of_nat [n + 1..<n + 1 + length cs]
     \<and> map sc_column_id cols' = map word_of_nat [i + 1..<i + 1 + length cs]
     \<and> (cs \<noteq> [] \<longrightarrow> n + 1 + length cs \<le> 2 ^ 32 \<and> i + 1 + length cs \<le> 2 ^ 32)"
    using "2.IH" b by simp
  then show ?case using b(2,3) unfolding cols map_upt_shift by (cases "cs = []") auto
qed simp

lemma build_slot_bindings_from_Inr:
  "build_slot_bindings_from tables n ids = Inr bs \<Longrightarrow>
     map (\<lambda>b. tm_table_id (sb_table b)) bs = ids
     \<and> concat (map (\<lambda>b. map sc_output_slot (sb_columns b)) bs)
         = map word_of_nat [n..<n + sum_list (map (\<lambda>b. length (sb_columns b)) bs)]
     \<and> (sum_list (map (\<lambda>b. length (sb_columns b)) bs) \<noteq> 0 \<longrightarrow>
         n + sum_list (map (\<lambda>b. length (sb_columns b)) bs) \<le> 2 ^ 32)
     \<and> list_all (\<lambda>b. sb_table b \<in> set tables
         \<and> map sc_column_id (sb_columns b) = map word_of_nat [0..<length (tm_columns (sb_table b))]) bs"
proof (induction tables n ids arbitrary: bs rule: build_slot_bindings_from.induct)
  case (2 tables n tid rest)
  then obtain table cols m bs' where t: "find_table tables tid = Some table"
    and c: "bind_columns 0 n (tm_columns table) = Inr (cols, m)"
    and r: "build_slot_bindings_from tables m rest = Inr bs'"
    and bs: "bs = \<lparr>sb_table = table, sb_columns = cols\<rparr> # bs'"
    by (auto simp: result_simps split: option.splits)
  note cs = bind_columns_Inr [OF c]
  note ih = "2.IH" [OF t r]
  have len: "length cols = length (tm_columns table)" using cs by (metis diff_add_inverse length_map length_upt)
  have tid: "tm_table_id table = tid" "table \<in> set tables"
    using t by (auto simp: find_table_def find_Some_iff)
  let ?S = "sum_list (map (\<lambda>b. length (sb_columns b)) bs')"
  have "[n..<n + length cols + ?S] = [n..<n + length cols] @ [n + length cols..<n + length cols + ?S]"
    by (rule upt_add_eq_append) simp
  then have split: "map word_of_nat [n..<n + (length cols + ?S)]
      = map word_of_nat [n..<n + length cols] @ map word_of_nat [n + length cols..<n + length cols + ?S]"
    unfolding map_append [symmetric] add.assoc by (rule arg_cong)
  have m: "m = n + length cols" using cs len by simp
  have bound: "n + (length cols + ?S) \<le> 2 ^ 32" if "length cols + ?S \<noteq> 0"
    using that ih cs len unfolding m by (cases "?S = 0") (auto simp del: sum_list_eq_0_iff)
  show ?case
    unfolding bs list.map concat.simps sum_list.Cons SlotBinding.simps split list.pred_inject
    using ih cs bound tid len unfolding m by (simp del: sum_list_eq_0_iff)
qed simp

text \<open>
  The planner numbers the columns of the tables of a statement with consecutive slots from 0, in the
  order of the tables and of their columns; no slot is used twice, and every table keeps its own column
  numbers.
\<close>

lemma slot_bindings_consecutive:
  assumes "build_slot_bindings catalog table_ids = Inr bindings"
  shows "map (\<lambda>b. tm_table_id (sb_table b)) bindings = table_ids
    \<and> concat (map (\<lambda>b. map sc_output_slot (sb_columns b)) bindings)
        = map word_of_nat [0..<sum_list (map (\<lambda>b. length (sb_columns b)) bindings)]
    \<and> distinct (concat (map (\<lambda>b. map sc_output_slot (sb_columns b)) bindings))
    \<and> list_all (\<lambda>b. sb_table b \<in> set catalog
        \<and> map sc_column_id (sb_columns b) = map word_of_nat [0..<length (tm_columns (sb_table b))]) bindings"
proof -
  let ?n = "sum_list (map (\<lambda>b. length (sb_columns b)) bindings)"
  note b = build_slot_bindings_from_Inr [OF assms [unfolded build_slot_bindings_def]]
  have "inj_on (word_of_nat :: nat \<Rightarrow> u32) {0..<?n}"
  proof (rule inj_onI)
    fix i j assume ij: "i \<in> {0..<?n}" "j \<in> {0..<?n}" "(word_of_nat i :: u32) = word_of_nat j"
    then have "?n \<noteq> 0" by (metis atLeastLessThan_iff not_less_zero)
    then have "?n \<le> 2 ^ 32" using b by (simp del: sum_list_eq_0_iff)
    then have "i < 2 ^ LENGTH(32)" "j < 2 ^ LENGTH(32)" using ij(1,2) by simp_all
    note this [THEN unat_word_small]
    with ij(3) show "i = j" by metis
  qed
  then show ?thesis using b by (simp add: distinct_map)
qed

end
