(* ===== verification/Optimizer.thy ===== *)
theory Optimizer
  imports Planner
begin

text \<open>
  \<open>src/compiler/optimizer.cpp\<close>: constant folding and boolean simplification on bound expressions, with the
  trace of applied rules. The theorems relate the expression before and after through the planner's
  translation and the runtime's evaluation.
\<close>

subsection \<open>Rules and trace\<close>

datatype OptimizationRule =
    kConstantComparison | kBooleanSimplification | kDoubleNotElimination | kRedundantTruePredicateElimination

datatype OptimizationRuleScope =
    kComparisonExpression | kLogicalExpression | kUnaryExpression | kStatementPredicate

record OptimizationRuleDescriptor =
  ord_rule :: OptimizationRule
  ord_name :: string
  ord_scope :: OptimizationRuleScope

type_synonym OptimizationTrace = "OptimizationRule list"

definition kOptimizationRuleRegistry :: "OptimizationRuleDescriptor list" where
  "kOptimizationRuleRegistry =
     [\<lparr>ord_rule = kConstantComparison, ord_name = ''ConstantComparison'', ord_scope = kComparisonExpression\<rparr>,
      \<lparr>ord_rule = kBooleanSimplification, ord_name = ''BooleanSimplification'', ord_scope = kLogicalExpression\<rparr>,
      \<lparr>ord_rule = kDoubleNotElimination, ord_name = ''DoubleNotElimination'', ord_scope = kUnaryExpression\<rparr>,
      \<lparr>ord_rule = kRedundantTruePredicateElimination, ord_name = ''RedundantTruePredicateElimination'',
       ord_scope = kStatementPredicate\<rparr>]"

definition find_rule_descriptor :: "OptimizationRule \<Rightarrow> OptimizationRuleDescriptor option" where
  "find_rule_descriptor rule = find (\<lambda>descriptor. ord_rule descriptor = rule) kOptimizationRuleRegistry"

definition optimization_rule_name :: "OptimizationRule \<Rightarrow> string" where
  "optimization_rule_name rule =
     (case find_rule_descriptor rule of None \<Rightarrow> ''Unknown'' | Some descriptor \<Rightarrow> ord_name descriptor)"

fun optimization_rule_scope_name :: "OptimizationRuleScope \<Rightarrow> string" where
  "optimization_rule_scope_name kComparisonExpression = ''ComparisonExpression''"
| "optimization_rule_scope_name kLogicalExpression = ''LogicalExpression''"
| "optimization_rule_scope_name kUnaryExpression = ''UnaryExpression''"
| "optimization_rule_scope_name kStatementPredicate = ''StatementPredicate''"

subsection \<open>Constant truth values\<close>

datatype ConstantTruth = CFalse | CTrue | CUnknown

record OptimizedExpr =
  oe_expression :: BoundExpr
  oe_constant_truth :: "ConstantTruth option"

definition constant_truth_value :: "bool \<Rightarrow> ConstantTruth" where
  "constant_truth_value value = (if value then CTrue else CFalse)"

definition truth_literal :: "ConstantTruth \<Rightarrow> BoundExpr" where
  "truth_literal value =
     (if value = CUnknown then BoundLiteral VNull else BoundLiteral (VBool (value = CTrue)))"

definition constant_not :: "ConstantTruth \<Rightarrow> ConstantTruth" where
  "constant_not value = (if value = CUnknown then value else if value = CTrue then CFalse else CTrue)"

definition constant_and :: "ConstantTruth \<Rightarrow> ConstantTruth \<Rightarrow> ConstantTruth" where
  "constant_and lhs rhs =
     (if lhs = CFalse \<or> rhs = CFalse then CFalse
      else if lhs = CUnknown \<or> rhs = CUnknown then CUnknown
      else CTrue)"

definition constant_or :: "ConstantTruth \<Rightarrow> ConstantTruth \<Rightarrow> ConstantTruth" where
  "constant_or lhs rhs =
     (if lhs = CTrue \<or> rhs = CTrue then CTrue
      else if lhs = CUnknown \<or> rhs = CUnknown then CUnknown
      else CFalse)"

subsection \<open>Comparing literals\<close>

fun compare_integer :: "CmpOp \<Rightarrow> int \<Rightarrow> int \<Rightarrow> bool" where
  "compare_integer kEq lhs rhs \<longleftrightarrow> lhs = rhs"
| "compare_integer kNe lhs rhs \<longleftrightarrow> lhs \<noteq> rhs"
| "compare_integer kLt lhs rhs \<longleftrightarrow> lhs < rhs"
| "compare_integer kLe lhs rhs \<longleftrightarrow> lhs \<le> rhs"
| "compare_integer kGt lhs rhs \<longleftrightarrow> lhs > rhs"
| "compare_integer kGe lhs rhs \<longleftrightarrow> lhs \<ge> rhs"

fun compare_double :: "CmpOp \<Rightarrow> u64 \<Rightarrow> u64 \<Rightarrow> bool" where
  "compare_double kEq lhs rhs \<longleftrightarrow> double_eq lhs rhs"
| "compare_double kNe lhs rhs \<longleftrightarrow> \<not> double_eq lhs rhs"
| "compare_double kLt lhs rhs \<longleftrightarrow> double_lt lhs rhs"
| "compare_double kLe lhs rhs \<longleftrightarrow> double_le lhs rhs"
| "compare_double kGt lhs rhs \<longleftrightarrow> double_lt rhs lhs"
| "compare_double kGe lhs rhs \<longleftrightarrow> double_le rhs lhs"

fun literal_integer :: "Value \<Rightarrow> int option" where
  "literal_integer (VInt i) = Some (sint i)"
| "literal_integer (VBigInt i) = Some (sint i)"
| "literal_integer _ = None"

fun literal_double :: "Value \<Rightarrow> u64 option" where
  "literal_double (VDouble d) = Some d"
| "literal_double (VInt i) = Some (double_of_int (sint i))"
| "literal_double (VBigInt i) = Some (double_of_int (sint i))"
| "literal_double _ = None"

definition compare_string :: "CmpOp \<Rightarrow> string \<Rightarrow> string \<Rightarrow> bool" where
  "compare_string op lhs rhs \<longleftrightarrow> (if op = kEq then lhs = rhs else lhs \<noteq> rhs)"

definition compare_boolean :: "CmpOp \<Rightarrow> Value \<Rightarrow> Value \<Rightarrow> bool option" where
  "compare_boolean op lhs rhs =
     (case (lhs, rhs) of
        (VBool l, VBool r) \<Rightarrow>
          if op = kEq then Some (l = r) else if op = kNe then Some (l \<noteq> r) else None
      | _ \<Rightarrow> None)"

fun evaluate_literals :: "CmpOp \<Rightarrow> BoundExpr \<Rightarrow> BoundExpr \<Rightarrow> ConstantTruth option" where
  "evaluate_literals op (BoundLiteral lhs) (BoundLiteral rhs) =
     (if lhs = VNull \<or> rhs = VNull then Some CUnknown
      else if runtime_type lhs = Some kBoolean \<or> runtime_type rhs = Some kBoolean then
        map_option constant_truth_value (compare_boolean op lhs rhs)
      else if runtime_type lhs = Some kDouble \<or> runtime_type rhs = Some kDouble then
        (case (literal_double lhs, literal_double rhs) of
           (Some l, Some r) \<Rightarrow> Some (constant_truth_value (compare_double op l r))
         | _ \<Rightarrow> None)
      else case (literal_integer lhs, literal_integer rhs) of
        (Some l, Some r) \<Rightarrow> Some (constant_truth_value (compare_integer op l r))
      | _ \<Rightarrow>
          (case (lhs, rhs) of
             (VText l, VText r) \<Rightarrow> Some (constant_truth_value (compare_string op l r))
           | _ \<Rightarrow> None))"
| "evaluate_literals op _ _ = None"

subsection \<open>The rewrite rules\<close>

definition apply_constant_comparison_rule ::
  "CmpOp \<Rightarrow> OptimizedExpr \<Rightarrow> OptimizedExpr \<Rightarrow> OptimizationTrace \<Rightarrow> OptimizedExpr \<times> OptimizationTrace" where
  "apply_constant_comparison_rule op lhs rhs trace =
     (let constant = evaluate_literals op (oe_expression lhs) (oe_expression rhs);
          trace = (if constant \<noteq> None then trace @ [kConstantComparison] else trace) in
      if constant = Some CUnknown then
        (\<lparr>oe_expression = truth_literal CUnknown, oe_constant_truth = constant\<rparr>, trace)
      else
        (\<lparr>oe_expression = BoundBinaryExpr (Cmp op) (oe_expression lhs) (oe_expression rhs),
          oe_constant_truth = constant\<rparr>, trace))"

definition apply_boolean_simplification_rule ::
  "LogicOp \<Rightarrow> OptimizedExpr \<Rightarrow> OptimizedExpr \<Rightarrow> OptimizationTrace \<Rightarrow> OptimizedExpr \<times> OptimizationTrace" where
  "apply_boolean_simplification_rule op lhs rhs trace =
     (let simplified = trace @ [kBooleanSimplification];
          lt = oe_constant_truth lhs; rt = oe_constant_truth rhs;
          kept = (\<lparr>oe_expression = BoundBinaryExpr (Logic op) (oe_expression lhs) (oe_expression rhs),
                   oe_constant_truth = None\<rparr>, trace) in
      case (lt, rt) of
        (Some l, Some r) \<Rightarrow>
          let result = (if op = kAnd then constant_and l r else constant_or l r) in
          if result = CUnknown then
            (\<lparr>oe_expression = truth_literal result, oe_constant_truth = Some result\<rparr>, simplified)
          else if lt = Some result then (lhs, simplified)
          else if rt = Some result then (rhs, simplified)
          else (\<lparr>oe_expression = truth_literal result, oe_constant_truth = Some result\<rparr>, simplified)
      | _ \<Rightarrow>
          if op = kAnd then
            if lt = Some CTrue \<or> lt = Some CFalse then
              (if lt = Some CTrue then rhs else lhs, simplified)
            else if rt = Some CTrue \<or> rt = Some CFalse then
              (if rt = Some CTrue then lhs else rhs, simplified)
            else kept
          else
            if lt = Some CTrue \<or> lt = Some CFalse then
              (if lt = Some CTrue then lhs else rhs, simplified)
            else if rt = Some CTrue \<or> rt = Some CFalse then
              (if rt = Some CTrue then rhs else lhs, simplified)
            else kept)"

definition apply_double_not_rule :: "OptimizedExpr \<Rightarrow> OptimizationTrace \<Rightarrow> OptimizedExpr \<times> OptimizationTrace" where
  "apply_double_not_rule operand trace =
     (let constant = map_option constant_not (oe_constant_truth operand) in
      case oe_expression operand of
        BoundUnaryExpr kNot inner \<Rightarrow>
          (\<lparr>oe_expression = inner, oe_constant_truth = constant\<rparr>, trace @ [kDoubleNotElimination])
      | _ \<Rightarrow>
          if constant = Some CUnknown then
            (\<lparr>oe_expression = truth_literal CUnknown, oe_constant_truth = constant\<rparr>, trace)
          else
            (\<lparr>oe_expression = BoundUnaryExpr kNot (oe_expression operand), oe_constant_truth = constant\<rparr>, trace))"

fun literal_truth :: "Value \<Rightarrow> ConstantTruth option" where
  "literal_truth (VBool b) = Some (constant_truth_value b)"
| "literal_truth VNull = Some CUnknown"
| "literal_truth _ = None"

fun optimize_expression :: "BoundExpr \<Rightarrow> OptimizationTrace \<Rightarrow> OptimizedExpr \<times> OptimizationTrace" where
  "optimize_expression (BoundColumn column) trace =
     (\<lparr>oe_expression = BoundColumn column, oe_constant_truth = None\<rparr>, trace)"
| "optimize_expression (BoundLiteral value) trace =
     (\<lparr>oe_expression = BoundLiteral value, oe_constant_truth = literal_truth value\<rparr>, trace)"
| "optimize_expression (BoundBinaryExpr op l r) trace =
     (let (lhs, trace) = optimize_expression l trace;
          (rhs, trace) = optimize_expression r trace in
      case op of
        Cmp comparison \<Rightarrow> apply_constant_comparison_rule comparison lhs rhs trace
      | Logic logic \<Rightarrow> apply_boolean_simplification_rule logic lhs rhs trace)"
| "optimize_expression (BoundNullTestExpr op x) trace =
     (let (operand, trace) = optimize_expression x trace in
      case oe_expression operand of
        BoundLiteral value \<Rightarrow>
          let result = (if op = kIsNull then is_null_value value else \<not> is_null_value value) in
          (\<lparr>oe_expression = BoundLiteral (VBool result),
            oe_constant_truth = Some (constant_truth_value result)\<rparr>, trace)
      | _ \<Rightarrow>
          (\<lparr>oe_expression = BoundNullTestExpr op (oe_expression operand), oe_constant_truth = None\<rparr>, trace))"
| "optimize_expression (BoundUnaryExpr op x) trace =
     (let (operand, trace) = optimize_expression x trace in apply_double_not_rule operand trace)"

subsection \<open>Statements\<close>

definition apply_redundant_true_predicate_rule ::
  "OptimizedExpr \<Rightarrow> OptimizationTrace \<Rightarrow> BoundExpr option \<times> OptimizationTrace" where
  "apply_redundant_true_predicate_rule optimized trace =
     (if oe_constant_truth optimized = Some CTrue then (None, trace @ [kRedundantTruePredicateElimination])
      else (Some (oe_expression optimized), trace))"

definition optimize_predicate ::
  "BoundExpr option \<Rightarrow> OptimizationTrace \<Rightarrow> BoundExpr option \<times> OptimizationTrace" where
  "optimize_predicate predicate trace =
     (case predicate of
        None \<Rightarrow> (None, trace)
      | Some e \<Rightarrow>
          let (optimized, trace) = optimize_expression e trace
          in apply_redundant_true_predicate_rule optimized trace)"

definition optimize_join_condition :: "BoundExpr \<Rightarrow> OptimizationTrace \<Rightarrow> BoundExpr \<times> OptimizationTrace" where
  "optimize_join_condition condition trace =
     (let (optimized, trace) = optimize_expression condition trace in (oe_expression optimized, trace))"

fun optimize_joins :: "BoundJoin list \<Rightarrow> OptimizationTrace \<Rightarrow> BoundJoin list \<times> OptimizationTrace" where
  "optimize_joins [] trace = ([], trace)"
| "optimize_joins (join # rest) trace =
     (let (condition, trace) = optimize_join_condition (bj_condition join) trace;
          (rest, trace) = optimize_joins rest trace
      in (join\<lparr>bj_condition := condition\<rparr> # rest, trace))"

fun optimize_with_trace :: "BoundStatement \<Rightarrow> BoundStatement \<times> OptimizationTrace" where
  "optimize_with_trace (StatementSelect select) =
     (let (joins, trace) = optimize_joins (bs_joins select) [];
          (predicate, trace) = optimize_predicate (bs_predicate select) trace
      in (StatementSelect (select\<lparr>bs_joins := joins, bs_predicate := predicate\<rparr>), trace))"
| "optimize_with_trace (StatementDelete deletion) =
     (let (predicate, trace) = optimize_predicate (bd_predicate deletion) []
      in (StatementDelete (deletion\<lparr>bd_predicate := predicate\<rparr>), trace))"
| "optimize_with_trace (StatementUpdate update) =
     (let (predicate, trace) = optimize_predicate (bu_predicate update) []
      in (StatementUpdate (update\<lparr>bu_predicate := predicate\<rparr>), trace))"
| "optimize_with_trace statement = (statement, [])"

definition optimize :: "BoundStatement \<Rightarrow> BoundStatement" where
  "optimize statement = fst (optimize_with_trace statement)"

subsection \<open>Meaning of the constant annotations\<close>

fun truth_of_constant :: "ConstantTruth \<Rightarrow> TruthValue" where
  "truth_of_constant CFalse = TFalse"
| "truth_of_constant CTrue = TTrue"
| "truth_of_constant CUnknown = TUnknown"

text \<open>
  Two static types agree when folding may have turned the first into the second: a BOOLEAN expression
  may have become the NULL literal.
\<close>

definition type_refines :: "ExprType \<Rightarrow> ExprType \<Rightarrow> bool" where
  "type_refines t t' \<longleftrightarrow> t' = t \<or> (t = EBool \<and> t' = ENull)"

text \<open>
  \<open>preserves\<close>: the optimised expression translates, is no higher than before, has an agreeing type, still
  yields \<open>v\<close>, and its annotation is the truth of \<open>v\<close>.
\<close>

definition preserves :: "SlotBinding list \<Rightarrow> SlotRow \<Rightarrow> nat \<Rightarrow> ExprType \<Rightarrow> Value \<Rightarrow> OptimizedExpr \<Rightarrow> bool" where
  "preserves bindings row h t v opt \<longleftrightarrow>
     (\<exists>y t'. generate_expr (oe_expression opt) bindings = Inr y \<and> eval_ref y row = Inr v \<and> expr_height y \<le> h
        \<and> type_ref y row = Inr t' \<and> type_refines t t')
     \<and> (\<forall>c. oe_constant_truth opt = Some c \<longrightarrow> v = truth_value_to_value (truth_of_constant c))"

lemma preserves_literal:
  "1 \<le> h \<Longrightarrow> v = truth_value_to_value (truth_of_constant c) \<Longrightarrow>
   preserves bindings row h EBool v \<lparr>oe_expression = truth_literal c, oe_constant_truth = Some c\<rparr>"
  by (cases c) (auto simp: preserves_def truth_literal_def type_refines_def)

lemma preserves_weaken:
  "preserves bindings row h t v opt \<Longrightarrow> h \<le> h' \<Longrightarrow> type_refines s t \<or> t = ENull \<and> s = EBool \<Longrightarrow>
   preserves bindings row h' s v opt"
  unfolding preserves_def type_refines_def by (blast intro: order_trans)

lemma compare_integer_runtime: "compare_integer op a b = compare_ints a b op"
  by (cases op) simp_all

lemma compare_double_runtime: "compare_double op a b = compare_doubles a b op"
  by (cases op) simp_all

lemma evaluate_literals_sound:
  assumes "evaluate_literals op (BoundLiteral l) (BoundLiteral r) = Some c" "evaluate_comparison op l r = Inr v"
    and "type_of_value l = EVarchar \<Longrightarrow> \<not> is_ordered_comparison op"
  shows "v = truth_value_to_value (truth_of_constant c)"
proof -
  have t: "truth_value_to_value (truth_of_constant (constant_truth_value b)) = VBool b" for b
    by (simp add: constant_truth_value_def)
  have s: "compare_string op a b = compare_strings a b op" if "\<not> is_ordered_comparison op" for a b
    using that by (cases op) (simp_all add: compare_string_def is_ordered_comparison_def)
  show ?thesis
    using assms
    by (cases l; cases r)
      (auto simp: evaluate_comparison_def compare_integer_runtime compare_double_runtime t s
        compare_boolean_def compare_booleans_def split: if_splits)
qed


lemma validate_comparison_refines:
  assumes "validate_comparison op ta tb = Inr t" "type_refines ta ta'" "type_refines tb tb'"
  shows "validate_comparison op ta' tb' = Inr t" "t = EBool"
  using assms
  by (cases ta; cases tb; auto simp: validate_comparison_Inr_iff type_refines_def is_numeric_type_def)+

lemma validate_logic_refines:
  assumes "validate_logic ta tb = Inr t" "type_refines ta ta'" "type_refines tb tb'"
  shows "validate_logic ta' tb' = Inr t" "t = EBool" "ta = EBool \<or> ta = ENull" "tb = EBool \<or> tb = ENull"
  using assms by (auto simp: validate_logic_def type_refines_def Let_def split: if_splits)

lemma preserves_binary:
  assumes "preserves bindings row hl ta vl lhs" "preserves bindings row hr tb vr rhs"
    and "evaluate_binary op vl vr = Inr v"
    and "case op of Cmp c \<Rightarrow> validate_comparison c ta tb = Inr t | Logic _ \<Rightarrow> validate_logic ta tb = Inr t"
    and "\<And>c. k = Some c \<Longrightarrow> v = truth_value_to_value (truth_of_constant c)"
  shows "preserves bindings row (Suc (max hl hr)) t v
    \<lparr>oe_expression = BoundBinaryExpr op (oe_expression lhs) (oe_expression rhs), oe_constant_truth = k\<rparr>"
proof -
  obtain l ta' r tb' where l: "generate_expr (oe_expression lhs) bindings = Inr l" "eval_ref l row = Inr vl"
      "expr_height l \<le> hl" "type_ref l row = Inr ta'" "type_refines ta ta'"
    and r: "generate_expr (oe_expression rhs) bindings = Inr r" "eval_ref r row = Inr vr"
      "expr_height r \<le> hr" "type_ref r row = Inr tb'" "type_refines tb tb'"
    using assms(1,2) unfolding preserves_def by blast
  have "type_ref (Binary op (Some l) (Some r)) row = Inr t"
    using assms(4) l(4) r(4) validate_comparison_refines(1) [OF _ l(5) r(5)] validate_logic_refines(1) [OF _ l(5) r(5)]
    by (cases op) simp_all
  moreover have "eval_ref (Binary op (Some l) (Some r)) row = Inr v" using l r assms(3) by simp
  moreover have "expr_height (Binary op (Some l) (Some r)) \<le> Suc (max hl hr)"
    using max.mono [OF l(3) r(3)] by simp
  ultimately show ?thesis using l(1) r(1) assms(5) by (auto simp: preserves_def type_refines_def)
qed

lemma preserves_comparison:
  assumes l: "preserves bindings row hl ta vl lhs" "conforms ta vl"
    and r: "preserves bindings row hr tb vr rhs" "conforms tb vr"
    and v: "evaluate_comparison op vl vr = Inr v" and t: "validate_comparison op ta tb = Inr t"
  shows "preserves bindings row (Suc (max hl hr)) t v (fst (apply_constant_comparison_rule op lhs rhs trace))"
proof -
  have folded: "v = truth_value_to_value (truth_of_constant c)"
    if "evaluate_literals op (oe_expression lhs) (oe_expression rhs) = Some c" for c
  proof -
    from that obtain x y where xy: "oe_expression lhs = BoundLiteral x" "oe_expression rhs = BoundLiteral y"
      by (cases "(op, oe_expression lhs, oe_expression rhs)" rule: evaluate_literals.cases) auto
    then have "x = vl" "y = vr" using l(1) r(1) by (auto simp: preserves_def)
    moreover have "\<not> is_ordered_comparison op" if "type_of_value vl = EVarchar"
      using that t l(2) by (auto simp: conforms_def validate_comparison_Inr_iff is_numeric_type_def split: if_splits)
    ultimately show ?thesis using that xy v evaluate_literals_sound by simp
  qed
  have "t = EBool" using t by (simp add: validate_comparison_Inr_iff)
  then show ?thesis
    using folded preserves_literal [of "Suc (max hl hr)" v CUnknown bindings row]
      preserves_binary [OF l(1) r(1), of "Cmp op" v t] v t
    by (auto simp: apply_constant_comparison_rule_def Let_def evaluate_binary_def)
qed

lemma truth_roundtrip [simp]: "to_truth_value (truth_value_to_value x) = Inr x"
  by (cases x) simp_all

lemma to_truth_value_Inr: "to_truth_value v = Inr x \<longleftrightarrow> v = truth_value_to_value x"
  by (cases v; cases x) auto

lemma truth_of_constant_ops:
  "truth_of_constant (constant_and a b) = truth_and (truth_of_constant a) (truth_of_constant b)"
  "truth_of_constant (constant_or a b) = truth_or (truth_of_constant a) (truth_of_constant b)"
  "truth_of_constant (constant_not a) = truth_not (truth_of_constant a)"
  by (cases a; cases b; simp add: constant_and_def constant_or_def constant_not_def truth_and_def truth_or_def)+

lemma truth_value_to_value_inj: "truth_value_to_value x = truth_value_to_value y \<longleftrightarrow> x = y"
  by (cases x; cases y) simp_all

lemma truth_units:
  "truth_and TTrue x = x" "truth_and x TTrue = x" "truth_and TFalse x = TFalse" "truth_and x TFalse = TFalse"
  "truth_or TFalse x = x" "truth_or x TFalse = x" "truth_or TTrue x = TTrue" "truth_or x TTrue = TTrue"
  by (cases x; simp add: truth_and_def truth_or_def)+

lemma preserves_logic:
  assumes l: "preserves bindings row hl ta vl lhs" and r: "preserves bindings row hr tb vr rhs"
    and v: "evaluate_logic op vl vr = Inr v" and t: "validate_logic ta tb = Inr t"
  shows "preserves bindings row (Suc (max hl hr)) t v (fst (apply_boolean_simplification_rule op lhs rhs trace))"
proof -
  obtain x y where x: "vl = truth_value_to_value x" and y: "vr = truth_value_to_value y"
    and vxy: "v = truth_value_to_value (if op = kAnd then truth_and x y else truth_or x y)"
    using v by (auto simp: evaluate_logic_def result_simps to_truth_value_Inr)
  have b: "t = EBool" "ta = EBool \<or> ta = ENull" "tb = EBool \<or> tb = ENull"
    using validate_logic_refines [OF t, of ta tb] by (auto simp: type_refines_def)
  have cl: "truth_of_constant c = x" if "oe_constant_truth lhs = Some c" for c
    using that l x by (auto simp: preserves_def truth_value_to_value_inj)
  have cr: "truth_of_constant c = y" if "oe_constant_truth rhs = Some c" for c
    using that r y by (auto simp: preserves_def truth_value_to_value_inj)
  have L: "preserves bindings row (Suc (max hl hr)) t v lhs" if "v = vl"
    using preserves_weaken [OF l, of "Suc (max hl hr)" EBool] b that by (auto simp: type_refines_def)
  have R: "preserves bindings row (Suc (max hl hr)) t v rhs" if "v = vr"
    using preserves_weaken [OF r, of "Suc (max hl hr)" EBool] b that by (auto simp: type_refines_def)
  have K: "preserves bindings row (Suc (max hl hr)) t v
      \<lparr>oe_expression = BoundBinaryExpr (Logic op) (oe_expression lhs) (oe_expression rhs), oe_constant_truth = None\<rparr>"
    using preserves_binary [OF l r, of "Logic op" v t None] v t by (simp add: evaluate_binary_def)
  have C: "preserves bindings row (Suc (max hl hr)) t v \<lparr>oe_expression = truth_literal c, oe_constant_truth = Some c\<rparr>"
    if "truth_of_constant c = (if op = kAnd then truth_and x y else truth_or x y)" for c
    using that b(1) vxy preserves_literal [of "Suc (max hl hr)" v c bindings row] by simp
  show ?thesis
  proof (cases "oe_constant_truth lhs"; cases "oe_constant_truth rhs")
    assume "oe_constant_truth lhs = None" "oe_constant_truth rhs = None"
    then show ?thesis using K by (cases op) (simp_all add: apply_boolean_simplification_rule_def Let_def)
  next
    fix d assume d: "oe_constant_truth lhs = None" "oe_constant_truth rhs = Some d"
    then show ?thesis using K L R cr [OF d(2)] vxy x y
      by (cases d; cases op) (auto simp: apply_boolean_simplification_rule_def Let_def truth_units)
  next
    fix c assume c: "oe_constant_truth lhs = Some c" "oe_constant_truth rhs = None"
    then show ?thesis using K L R cl [OF c(1)] vxy x y
      by (cases c; cases op) (auto simp: apply_boolean_simplification_rule_def Let_def truth_units)
  next
    fix c d assume cd: "oe_constant_truth lhs = Some c" "oe_constant_truth rhs = Some d"
    define res where "res = (if op = kAnd then constant_and c d else constant_or c d)"
    have r: "truth_of_constant res = (if op = kAnd then truth_and x y else truth_or x y)"
      using cl [OF cd(1)] cr [OF cd(2)] by (simp add: res_def truth_of_constant_ops)
    have "v = vl" if "res = c" using that r cl [OF cd(1)] vxy x by simp
    moreover have "v = vr" if "res = d" using that r cr [OF cd(2)] vxy y by simp
    ultimately show ?thesis using C [OF r] L R
      unfolding apply_boolean_simplification_rule_def Let_def cd option.case prod.case res_def [symmetric]
      by (cases "res = CUnknown") auto
  qed
qed

lemma evaluate_not_Inr:
  "evaluate_not v = Inr w \<longleftrightarrow> (\<exists>x. v = truth_value_to_value x \<and> w = truth_value_to_value (truth_not x))"
  by (auto simp: evaluate_not_def result_simps to_truth_value_Inr)

lemma truth_not_not [simp]: "truth_not (truth_not x) = x"
  by (cases x) simp_all

lemma preserves_not:
  assumes x: "preserves bindings row h tx v operand" and w: "evaluate_not v = Inr w"
    and tx: "tx = EBool \<or> tx = ENull"
  shows "preserves bindings row (Suc h) EBool w (fst (apply_double_not_rule operand trace))"
proof -
  obtain y t' where y: "generate_expr (oe_expression operand) bindings = Inr y" "eval_ref y row = Inr v"
      "expr_height y \<le> h" "type_ref y row = Inr t'" "type_refines tx t'"
    using x unfolding preserves_def by blast
  have t': "t' = EBool \<or> t' = ENull" using y(5) tx by (auto simp: type_refines_def)
  let ?k = "map_option constant_not (oe_constant_truth operand)"
  obtain z where z: "v = truth_value_to_value z" "w = truth_value_to_value (truth_not z)"
    using w by (auto simp: evaluate_not_Inr)
  have k: "w = truth_value_to_value (truth_of_constant c)" if "?k = Some c" for c
    using that x z by (auto simp: preserves_def truth_of_constant_ops truth_value_to_value_inj)
  show ?thesis
  proof (cases "\<exists>inner. oe_expression operand = BoundUnaryExpr kNot inner")
    case True
    then obtain inner where inner: "oe_expression operand = BoundUnaryExpr kNot inner" by blast
    then obtain u where u: "generate_expr inner bindings = Inr u" "y = Unary kNot (Some u)"
      using y(1) by (auto simp: result_simps)
    then obtain vu tu where "eval_ref u row = Inr vu" "evaluate_not vu = Inr v" "type_ref u row = Inr tu"
        "tu = EBool \<or> tu = ENull"
      using y(2,4) by (auto simp: result_simps split: if_splits)
    moreover from this have "vu = w" using z by (auto simp: evaluate_not_Inr truth_value_to_value_inj)
    ultimately show ?thesis
      using u y(3) inner k by (auto simp: apply_double_not_rule_def preserves_def type_refines_def)
  next
    case False
    have "fst (apply_double_not_rule operand trace) =
        (if ?k = Some CUnknown then \<lparr>oe_expression = truth_literal CUnknown, oe_constant_truth = ?k\<rparr>
         else \<lparr>oe_expression = BoundUnaryExpr kNot (oe_expression operand), oe_constant_truth = ?k\<rparr>)"
      using False by (auto simp: apply_double_not_rule_def Let_def split: BoundExpr.splits UnaryOp.splits)
    moreover have "preserves bindings row (Suc h) EBool w
        \<lparr>oe_expression = BoundUnaryExpr kNot (oe_expression operand), oe_constant_truth = ?k\<rparr>"
      using y t' w k by (auto simp: preserves_def type_refines_def)
    moreover have "preserves bindings row (Suc h) EBool w
        \<lparr>oe_expression = truth_literal CUnknown, oe_constant_truth = ?k\<rparr>" if "?k = Some CUnknown"
      using k [OF that] preserves_literal [of "Suc h" w CUnknown] unfolding that by simp
    ultimately show ?thesis by simp
  qed
qed

text \<open>The rewrite system as a whole.\<close>

lemma optimize_expression_preserves:
  assumes "generate_expr e bindings = Inr x" "type_ref x row = Inr t" "eval_ref x row = Inr v"
  shows "preserves bindings row (expr_height x) t v (fst (optimize_expression e trace))"
  using assms
proof (induction e arbitrary: x t v trace)
  case (BoundColumn c)
  then show ?case by (auto simp: preserves_def type_refines_def split: option.splits)
next
  case (BoundLiteral l)
  then show ?case by (cases l) (auto simp: preserves_def type_refines_def constant_truth_value_def)
next
  case (BoundBinaryExpr op a b)
  then obtain l r where x: "generate_expr a bindings = Inr l" "generate_expr b bindings = Inr r"
      "x = Binary op (Some l) (Some r)" by (auto simp: result_simps)
  then obtain ta tb vl vr where l: "type_ref l row = Inr ta" "eval_ref l row = Inr vl"
    and r: "type_ref r row = Inr tb" "eval_ref r row = Inr vr"
    and op: "(case op of Cmp c \<Rightarrow> validate_comparison c ta tb | Logic _ \<Rightarrow> validate_logic ta tb) = Inr t"
      "evaluate_binary op vl vr = Inr v"
    using BoundBinaryExpr.prems by (auto simp: result_simps)
  have conf: "conforms ta vl" "conforms tb vr" using type_ref_sound l r by fastforce+
  obtain lo trl where lo: "optimize_expression a trace = (lo, trl)" by fastforce
  obtain ro trr where ro: "optimize_expression b trl = (ro, trr)" by fastforce
  have pl: "preserves bindings row (expr_height l) ta vl lo"
    using BoundBinaryExpr.IH(1) [OF x(1) l, of trace] lo by simp
  have pr: "preserves bindings row (expr_height r) tb vr ro"
    using BoundBinaryExpr.IH(2) [OF x(2) r, of trl] ro by simp
  show ?case
  proof (cases op)
    case (Cmp c)
    then show ?thesis
      using preserves_comparison [OF pl conf(1) pr conf(2), of c v t trr] op lo ro x(3)
      by (simp add: evaluate_binary_def)
  next
    case (Logic g)
    then show ?thesis
      using preserves_logic [OF pl pr, of g v t trr] op lo ro x(3) by (simp add: evaluate_binary_def)
  qed
next
  case (BoundUnaryExpr op a)
  then obtain u where u: "generate_expr a bindings = Inr u" "x = Unary kNot (Some u)"
    by (auto simp: result_simps)
  then obtain tu vu where s: "type_ref u row = Inr tu" "eval_ref u row = Inr vu" "tu = EBool \<or> tu = ENull"
      "evaluate_not vu = Inr v" "t = EBool"
    using BoundUnaryExpr.prems by (auto simp: result_simps split: if_splits)
  obtain uo tru where uo: "optimize_expression a trace = (uo, tru)" by fastforce
  have "preserves bindings row (expr_height u) tu vu uo"
    using BoundUnaryExpr.IH [OF u(1) s(1,2), of trace] uo by simp
  then show ?case using preserves_not [of bindings row "expr_height u" tu vu uo v tru] s uo u(2) by simp
next
  case (BoundNullTestExpr op a)
  then obtain u where u: "generate_expr a bindings = Inr u" "x = NullTest op (Some u)"
    by (auto simp: result_simps)
  then obtain tu vu where s: "type_ref u row = Inr tu" "eval_ref u row = Inr vu" "t = EBool"
      "v = evaluate_null_test op vu"
    using BoundNullTestExpr.prems by (auto simp: result_simps)
  obtain uo tru where uo: "optimize_expression a trace = (uo, tru)" by fastforce
  have p: "preserves bindings row (expr_height u) tu vu uo"
    using BoundNullTestExpr.IH [OF u(1) s(1,2), of trace] uo by simp
  show ?case
  proof (cases "\<exists>l. oe_expression uo = BoundLiteral l")
    case True
    then obtain l where l: "oe_expression uo = BoundLiteral l" by blast
    then have "l = vu" using p by (auto simp: preserves_def)
    then show ?thesis using l s uo u(2)
      by (auto simp: preserves_def type_refines_def evaluate_null_test_def constant_truth_value_def Let_def)
  next
    case False
    then have "fst (optimize_expression (BoundNullTestExpr op a) trace)
        = \<lparr>oe_expression = BoundNullTestExpr op (oe_expression uo), oe_constant_truth = None\<rparr>"
      using uo by (auto split: BoundExpr.splits)
    then show ?thesis using p s u(2) by (auto simp: preserves_def type_refines_def)
  qed
qed

subsection \<open>Properties of the optimizer\<close>

lemma optimize_expression_runtime:
  assumes "generate_expr e bindings = Inr x" "validate_expr x row = Inr t"
  obtains y t' where
    "generate_expr (oe_expression (fst (optimize_expression e trace))) bindings = Inr y"
    "evaluate y row = evaluate x row" "validate_expr y row = Inr t'" "type_refines t t'"
    "\<And>c. oe_constant_truth (fst (optimize_expression e trace)) = Some c \<Longrightarrow>
      evaluate x row = Inr (truth_value_to_value (truth_of_constant c))"
proof -
  have t: "type_ref x row = Inr t" "expr_height x \<le> kMaxExpressionDepth"
    using assms(2) by (simp_all add: validate_expr_def validate_impl_Inr_iff)
  then obtain v where v: "eval_ref x row = Inr v" using type_ref_sound by blast
  then have x: "evaluate x row = Inr v" using t(2) by (simp add: evaluate_def evaluate_impl_Inr_iff)
  note p = optimize_expression_preserves [OF assms(1) t(1) v, of trace]
  then obtain y t' where y: "generate_expr (oe_expression (fst (optimize_expression e trace))) bindings = Inr y"
      "eval_ref y row = Inr v" "expr_height y \<le> expr_height x" "type_ref y row = Inr t'" "type_refines t t'"
    unfolding preserves_def by blast
  show ?thesis
  proof (rule that [OF y(1) _ _ y(5)])
    have "evaluate y row = Inr v" using y t(2) by (simp add: evaluate_def evaluate_impl_Inr_iff)
    with x show "evaluate y row = evaluate x row" by simp
    show "validate_expr y row = Inr t'" using y t(2) by (simp add: validate_expr_def validate_impl_Inr_iff)
    show "evaluate x row = Inr (truth_value_to_value (truth_of_constant c))"
      if "oe_constant_truth (fst (optimize_expression e trace)) = Some c" for c
      using that p x unfolding preserves_def by simp
  qed
qed


definition demo_expr :: BoundExpr where
  "demo_expr = BoundBinaryExpr (Logic kAnd)
     (BoundBinaryExpr (Cmp kLt) (BoundLiteral (VInt 1)) (BoundLiteral (VInt 2)))
     (BoundUnaryExpr kNot (BoundUnaryExpr kNot (BoundColumn \<lparr>bc_table_id = 5, bc_column_id = 0\<rparr>)))"

definition demo_bindings :: "SlotBinding list" where
  "demo_bindings = [\<lparr>sb_table = \<lparr>tm_table_id = 5, tm_table_name = ''t'',
        tm_columns = [\<lparr>cm_name = ''b'', cm_type = kBoolean, cm_nullable = True\<rparr>]\<rparr>,
      sb_columns = [\<lparr>sc_column_id = 0, sc_output_slot = 0\<rparr>]\<rparr>]"

definition demo_planned :: Expr where
  "demo_planned = Binary (Logic kAnd)
     (Some (Binary (Cmp kLt) (Some (Literal (VInt 1))) (Some (Literal (VInt 2)))))
     (Some (Unary kNot (Some (Unary kNot (Some (ColumnRef 0))))))"

lemma demo_generate: "generate_expr demo_expr demo_bindings = Inr demo_planned"
  by code_simp

lemma demo_validate: "validate_expr demo_planned [\<lparr>sv_slot_id = 0, sv_value = VNull\<rparr>] = Inr EBool"
  by code_simp


text \<open>What a WHERE clause decides on a row; a missing one keeps every row.\<close>

definition keeps :: "Expr option \<Rightarrow> SlotRow \<Rightarrow> (ExprError, bool) result" where
  "keeps predicate row = (case predicate of None \<Rightarrow> Inr True | Some e \<Rightarrow> evaluate_predicate e row)"

definition where_valid :: "Expr option \<Rightarrow> SlotRow \<Rightarrow> bool" where
  "where_valid predicate row \<longleftrightarrow>
     (case predicate of None \<Rightarrow> True | Some e \<Rightarrow> validate_predicate e row = None)"

lemma validate_predicate_None:
  "validate_predicate e row = None \<longleftrightarrow> (\<exists>t. validate_expr e row = Inr t \<and> (t = EBool \<or> t = ENull))"
  by (auto simp: validate_predicate_def validate_expr_def split: sum.splits)

lemma evaluate_predicate_cong: "evaluate x row = evaluate y row \<Longrightarrow> evaluate_predicate x row = evaluate_predicate y row"
  by (simp add: evaluate_predicate_def evaluate_def)

lemma optimize_predicate_keeps:
  assumes "generate_predicate p bindings = Inr px"
  shows "where_valid px row \<Longrightarrow> \<exists>py. generate_predicate (fst (optimize_predicate p trace)) bindings = Inr py
     \<and> where_valid py row \<and> keeps py row = keeps px row"
proof (cases p)
  case None
  then show "where_valid px row \<Longrightarrow> \<exists>py. generate_predicate (fst (optimize_predicate p trace)) bindings = Inr py
     \<and> where_valid py row \<and> keeps py row = keeps px row"
    using assms by (simp add: generate_predicate_def optimize_predicate_def)
next
  case (Some e)
  assume "where_valid px row"
  with Some assms obtain x t where x: "generate_expr e bindings = Inr x" "px = Some x"
    and t: "validate_expr x row = Inr t" "t = EBool \<or> t = ENull"
    by (auto simp: generate_predicate_def result_simps where_valid_def validate_predicate_None)
  obtain y t' where y: "generate_expr (oe_expression (fst (optimize_expression e trace))) bindings = Inr y"
    "evaluate y row = evaluate x row" "validate_expr y row = Inr t'" "type_refines t t'"
    "\<And>c. oe_constant_truth (fst (optimize_expression e trace)) = Some c \<Longrightarrow>
      evaluate x row = Inr (truth_value_to_value (truth_of_constant c))"
    using optimize_expression_runtime [OF x(1) t(1), of trace] by blast
  have t': "t' = EBool \<or> t' = ENull" using y(4) t(2) by (auto simp: type_refines_def)
  obtain opt trace' where opt: "optimize_expression e trace = (opt, trace')" by fastforce
  show ?thesis
  proof (cases "oe_constant_truth (fst (optimize_expression e trace)) = Some CTrue")
    case True
    then have "keeps px row = Inr True"
      using y(5) x(2) by (simp add: keeps_def evaluate_predicate_def evaluate_def)
    moreover have "fst (optimize_predicate p trace) = None"
      using True Some opt by (simp add: optimize_predicate_def apply_redundant_true_predicate_rule_def)
    ultimately show ?thesis by (simp add: generate_predicate_def where_valid_def keeps_def)
  next
    case False
    then have "fst (optimize_predicate p trace) = Some (oe_expression (fst (optimize_expression e trace)))"
      using Some opt by (simp add: optimize_predicate_def apply_redundant_true_predicate_rule_def)
    moreover have "evaluate_predicate y row = evaluate_predicate x row" using y(2) by (rule evaluate_predicate_cong)
    ultimately show ?thesis using y(1,3) t' x(2)
      by (auto simp: generate_predicate_def where_valid_def keeps_def validate_predicate_None)
  qed
qed

text \<open>
  Optimising a DELETE does not change which rows it deletes: the plan of the optimised statement scans
  the same table with the same slots, and on every row against which the original WHERE clause validates,
  the new clause (possibly none) validates and decides the same.
\<close>

lemma optimized_delete_same_rows:
  assumes "generate_delete_plan s catalog = Inr (PlanDelete plan)"
  shows "\<exists>s'. optimize (StatementDelete s) = StatementDelete s' \<and>
    (\<forall>row. where_valid (dp_predicate plan) row \<longrightarrow>
      (\<exists>plan'. generate_delete_plan s' catalog = Inr (PlanDelete plan')
         \<and> dp_table_id plan' = dp_table_id plan \<and> dp_input_columns plan' = dp_input_columns plan
         \<and> where_valid (dp_predicate plan') row
         \<and> keeps (dp_predicate plan') row = keeps (dp_predicate plan) row))"
proof -
  let ?p = "fst (optimize_predicate (bd_predicate s) [])"
  from assms obtain bindings predicate where b: "build_slot_bindings catalog [bd_table_id s] = Inr bindings"
    and p: "generate_predicate (bd_predicate s) [hd bindings] = Inr predicate"
    and plan: "plan = \<lparr>dp_table_id = bd_table_id s, dp_input_columns = sb_columns (hd bindings),
       dp_predicate = predicate\<rparr>"
    by (auto simp: generate_delete_plan_def result_simps Let_def)
  have opt: "optimize (StatementDelete s) = StatementDelete (s\<lparr>bd_predicate := ?p\<rparr>)"
    by (simp add: optimize_def split: prod.splits)
  show ?thesis
  proof (rule exI [where x = "s\<lparr>bd_predicate := ?p\<rparr>"], intro conjI allI impI)
    show "optimize (StatementDelete s) = StatementDelete (s\<lparr>bd_predicate := ?p\<rparr>)" by (rule opt)
    fix row assume "where_valid (dp_predicate plan) row"
    then have "where_valid predicate row" using plan by simp
    from optimize_predicate_keeps [OF p this, of "[]"]
    show "\<exists>plan'. generate_delete_plan (s\<lparr>bd_predicate := ?p\<rparr>) catalog = Inr (PlanDelete plan')
         \<and> dp_table_id plan' = dp_table_id plan \<and> dp_input_columns plan' = dp_input_columns plan
         \<and> where_valid (dp_predicate plan') row
         \<and> keeps (dp_predicate plan') row = keeps (dp_predicate plan) row"
      using b plan by (auto simp: generate_delete_plan_def Let_def)
  qed
qed

definition demo_delete :: BoundDelete where
  "demo_delete = \<lparr>bd_table_id = 5, bd_predicate = Some demo_expr\<rparr>"

lemma demo_delete_plan:
  "generate_delete_plan demo_delete (map sb_table demo_bindings)
     = Inr (PlanDelete \<lparr>dp_table_id = 5, dp_input_columns = [\<lparr>sc_column_id = 0, sc_output_slot = 0\<rparr>],
         dp_predicate = Some demo_planned\<rparr>)"
  using demo_generate
  by (simp add: generate_delete_plan_def demo_delete_def build_slot_bindings_def find_table_def
      generate_predicate_def demo_bindings_def)

end
