(* ===== verification/Slots.thy ===== *)
theory Slots
  imports Planner
begin

text \<open>
  \<open>src/core/internal.hpp\<close> and the first part of \<open>src/core/executor.cpp\<close>: errors of the core, the checks
  on table metadata, and the binding of physical rows to query slots, for real rows and for the
  validation row that stands for the static types of a scan.
\<close>

subsection \<open>Errors of the core\<close>

datatype ErrorKind = kCompile | kExecute | kStorage | kAnalysis | kInternal

record Error =
  er_kind :: ErrorKind
  er_compile_stage :: "CompileStage option"
  er_source :: "SourceRange option"
  er_message :: string
  er_suggestion :: "string option"
  er_fix_it :: "FixIt option"

definition make_error_hint :: "ErrorKind \<Rightarrow> string \<Rightarrow> string option \<Rightarrow> Error" where
  "make_error_hint kind message suggestion =
     \<lparr>er_kind = kind, er_compile_stage = None, er_source = None, er_message = message,
      er_suggestion = suggestion, er_fix_it = None\<rparr>"

definition make_error :: "ErrorKind \<Rightarrow> string \<Rightarrow> Error" where
  "make_error kind message =
     \<lparr>er_kind = kind, er_compile_stage = None, er_source = None, er_message = message,
      er_suggestion = None, er_fix_it = None\<rparr>"

subsection \<open>Table metadata\<close>

definition has_duplicate_table :: "TableMeta list \<Rightarrow> TableMeta \<Rightarrow> bool" where
  "has_duplicate_table tables candidate \<longleftrightarrow>
     list_ex (\<lambda>table. tm_table_id table = tm_table_id candidate
       \<or> tm_table_name table = tm_table_name candidate) tables"

definition lower_letter :: "char \<Rightarrow> bool" where
  "lower_letter c \<longleftrightarrow> (97 :: nat) \<le> of_char c \<and> (of_char c :: nat) \<le> 122"

definition identifier_char :: "char \<Rightarrow> bool" where
  "identifier_char c \<longleftrightarrow> lower_letter c \<or> ((48 :: nat) \<le> of_char c \<and> (of_char c :: nat) \<le> 57) \<or> c = CHR ''_''"

definition is_valid_identifier :: "string \<Rightarrow> bool" where
  "is_valid_identifier value \<longleftrightarrow>
     (case value of
        [] \<Rightarrow> False
      | first # rest \<Rightarrow> length value \<le> 64 \<and> lower_letter first \<and> list_all identifier_char rest)"

fun validate_columns :: "ColumnMeta list \<Rightarrow> ColumnMeta list \<Rightarrow> Error option" where
  "validate_columns previous [] = None"
| "validate_columns previous (column # rest) =
     (if \<not> is_valid_identifier (cm_name column) then
        Some (make_error kInternal ''table schema contains an invalid column name'')
      else if list_ex (\<lambda>p. cm_name p = cm_name column) previous then
        Some (make_error kInternal ''table schema contains duplicate column names'')
      else validate_columns (previous @ [column]) rest)"

definition validate_table_metadata :: "TableMeta \<Rightarrow> Error option" where
  "validate_table_metadata table =
     (if \<not> is_valid_identifier (tm_table_name table) then
        Some (make_error kInternal ''table metadata contains an invalid table name'')
      else if tm_columns table = [] then
        Some (make_error kInternal ''table schema must contain at least one column'')
      else validate_columns [] (tm_columns table))"

subsection \<open>Binding rows to slots\<close>

type_synonym Row = "Value list"

fun validation_value :: "Type \<Rightarrow> Value" where
  "validation_value kInt = VInt 0"
| "validation_value kBigInt = VBigInt 0"
| "validation_value kDouble = VDouble 0"
| "validation_value kBoolean = VBool False"
| "validation_value kVarchar = VText ''''"

definition find_catalog_table :: "TableMeta list \<Rightarrow> TableId \<Rightarrow> TableMeta option" where
  "find_catalog_table catalog table_id = find (\<lambda>table. tm_table_id table = table_id) catalog"

definition value_matches_column :: "Value \<Rightarrow> ColumnMeta \<Rightarrow> bool" where
  "value_matches_column value column \<longleftrightarrow>
     (if value = VNull then cm_nullable column else runtime_type value = Some (cm_type column))"

definition validate_physical_row :: "TableMeta \<Rightarrow> Row \<Rightarrow> Error option" where
  "validate_physical_row table row =
     (if length row \<noteq> length (tm_columns table) then
        Some (make_error kInternal ''record row width does not match table schema'')
      else if \<not> list_all (\<lambda>(value, column). value_matches_column value column) (zip row (tm_columns table)) then
        Some (make_error kInternal ''record value type does not match table schema'')
      else None)"

fun check_scan_columns :: "nat \<Rightarrow> nat list \<Rightarrow> QuerySlot list \<Rightarrow> ScanColumn list \<Rightarrow> Error option" where
  "check_scan_columns width used_columns used_slots [] = None"
| "check_scan_columns width used_columns used_slots (column # rest) =
     (let column_index = unat (sc_column_id column) in
      if width \<le> column_index then Some (make_error kInternal ''scan column id is out of range'')
      else if column_index \<in> set used_columns then
        Some (make_error kInternal ''scan column mapping contains a duplicate column id'')
      else if sc_output_slot column \<in> set used_slots then
        Some (make_error kInternal ''scan column mapping contains a duplicate output slot'')
      else check_scan_columns width (column_index # used_columns) (sc_output_slot column # used_slots) rest)"

definition validate_scan_columns :: "TableMeta \<Rightarrow> ScanColumn list \<Rightarrow> Error option" where
  "validate_scan_columns table columns =
     (if length columns \<noteq> length (tm_columns table) then
        Some (make_error kInternal ''scan column mapping must cover the table schema'')
      else check_scan_columns (length (tm_columns table)) [] [] columns)"

definition materialize_slot_row :: "TableMeta \<Rightarrow> Row \<Rightarrow> ScanColumn list \<Rightarrow> (Error, SlotRow) result" where
  "materialize_slot_row table physical_row columns =
     (case validate_physical_row table physical_row of
        Some error \<Rightarrow> Inl error
      | None \<Rightarrow>
          (case validate_scan_columns table columns of
             Some error \<Rightarrow> Inl error
           | None \<Rightarrow>
               Inr (map (\<lambda>column. \<lparr>sv_slot_id = sc_output_slot column,
                 sv_value = physical_row ! unat (sc_column_id column)\<rparr>) columns)))"

definition make_validation_slot_row :: "TableMeta \<Rightarrow> ScanColumn list \<Rightarrow> (Error, SlotRow) result" where
  "make_validation_slot_row table columns =
     materialize_slot_row table (map (\<lambda>column. validation_value (cm_type column)) (tm_columns table)) columns"

text \<open>The executor's own slot lookup differs from the expression runtime's only in its messages.\<close>

fun slot_lookup_loop :: "SlotRow \<Rightarrow> QuerySlot \<Rightarrow> Value option \<Rightarrow> (Error, Value) result" where
  "slot_lookup_loop [] slot_id None = Inl (make_error kInternal ''slot is missing or unbound'')"
| "slot_lookup_loop [] slot_id (Some v) = Inr v"
| "slot_lookup_loop (entry # rest) slot_id found =
     (if sv_slot_id entry \<noteq> slot_id then slot_lookup_loop rest slot_id found
      else case found of
        Some _ \<Rightarrow> Inl (make_error kInternal ''slot is bound more than once'')
      | None \<Rightarrow> slot_lookup_loop rest slot_id (Some (sv_value entry)))"

definition slot_lookup :: "SlotRow \<Rightarrow> QuerySlot \<Rightarrow> (Error, Value) result" where
  "slot_lookup row slot_id = slot_lookup_loop row slot_id None"

subsection \<open>Rows that conform to a validation row\<close>

definition value_fits :: "Value \<Rightarrow> Value \<Rightarrow> bool" where
  "value_fits p v \<longleftrightarrow> v = VNull \<or> runtime_type v = runtime_type p"

definition row_conforms :: "SlotRow \<Rightarrow> SlotRow \<Rightarrow> bool" where
  "row_conforms proto row \<longleftrightarrow>
     list_all2 (\<lambda>p r. sv_slot_id r = sv_slot_id p \<and> value_fits (sv_value p) (sv_value r)) proto row"

abbreviation slots_of :: "SlotRow \<Rightarrow> QuerySlot list" where
  "slots_of row \<equiv> map sv_slot_id row"

lemma row_conforms_slots: "row_conforms proto row \<Longrightarrow> slots_of row = slots_of proto"
  unfolding row_conforms_def by (induction rule: list_all2_induct) auto

lemma lookup_loop_same: "slot_lookup_loop row s f = Inr v \<longleftrightarrow> lookup_loop row s f = Inr v"
  by (induction row s f rule: slot_lookup_loop.induct) (auto split: option.splits)

lemma slot_lookup_iff: "slot_lookup row s = Inr v \<longleftrightarrow> lookup_value row s = Inr v"
  by (simp add: slot_lookup_def lookup_value_def lookup_loop_same)

lemma lookup_loop_Some: "s \<notin> set (slots_of row) \<Longrightarrow> lookup_loop row s (Some v) = Inr v"
  by (induction row) auto

lemma lookup_value_distinct:
  "distinct (slots_of row) \<Longrightarrow> lookup_value row s = Inr v \<longleftrightarrow> \<lparr>sv_slot_id = s, sv_value = v\<rparr> \<in> set row"
proof (induction row)
  case (Cons e row)
  show ?case
  proof (cases "sv_slot_id e = s")
    case True
    then have "s \<notin> set (slots_of row)" using Cons.prems by auto
    moreover from this have "\<lparr>sv_slot_id = s, sv_value = v\<rparr> \<notin> set row" by force
    ultimately show ?thesis using True by (cases e) (auto simp: lookup_value_def lookup_loop_Some)
  next
    case False
    then show ?thesis using Cons by (cases e) (auto simp: lookup_value_def)
  qed
qed (simp add: lookup_value_def)

lemma lookup_loop_conforms:
  assumes "row_conforms proto row"
  shows "lookup_loop proto s (Some v) = Inr u \<Longrightarrow> u = v \<and> lookup_loop row s (Some w) = Inr w"
    and "lookup_loop proto s None = Inr v \<Longrightarrow> \<exists>w. lookup_loop row s None = Inr w \<and> value_fits v w"
proof -
  from assms have l: "list_all2 (\<lambda>p r. sv_slot_id r = sv_slot_id p \<and> value_fits (sv_value p) (sv_value r)) proto row"
    by (simp add: row_conforms_def)
  show one: "lookup_loop proto s (Some v) = Inr u \<Longrightarrow> u = v \<and> lookup_loop row s (Some w) = Inr w" for v u w
    using l by (induction rule: list_all2_induct) (auto split: if_splits)
  show "lookup_loop proto s None = Inr v \<Longrightarrow> \<exists>w. lookup_loop row s None = Inr w \<and> value_fits v w"
    using l
  proof (induction rule: list_all2_induct)
    case (Cons p ps r rs)
    have "u = v \<and> lookup_loop rs s (Some w) = Inr w" if "lookup_loop ps s (Some v) = Inr u" for v u w
      using Cons.hyps(2) that by (induction rule: list_all2_induct) (auto split: if_splits)
    with Cons show ?case by (fastforce split: if_splits)
  qed simp
qed

lemma lookup_value_conforms:
  "row_conforms proto row \<Longrightarrow> lookup_value proto s = Inr v \<Longrightarrow>
   \<exists>w. lookup_value row s = Inr w \<and> value_fits v w"
  using lookup_loop_conforms(2) by (simp add: lookup_value_def)

lemma type_of_value_fits: "value_fits v w \<Longrightarrow> type_of_value w = type_of_value v \<or> type_of_value w = ENull"
  by (cases v; cases w) (auto simp: value_fits_def)

lemma validate_comparison_nulls:
  assumes "validate_comparison op ta tb = Inr t" "ta' = ta \<or> ta' = ENull" "tb' = tb \<or> tb' = ENull"
  shows "validate_comparison op ta' tb' = Inr t"
  using assms
  by (cases ta; cases tb) (auto simp: validate_comparison_Inr_iff is_numeric_type_def)

lemma type_ref_conforms:
  "type_ref e proto = Inr t \<Longrightarrow> row_conforms proto row \<Longrightarrow>
   \<exists>t'. type_ref e row = Inr t' \<and> (t' = t \<or> t' = ENull)"
proof (induction e proto arbitrary: t rule: type_ref.induct)
  case (1 s proto)
  then obtain v where "lookup_value proto s = Inr v" "t = type_of_value v" by (auto simp: result_simps)
  then show ?case using lookup_value_conforms [OF "1.prems"(2)] type_of_value_fits
    by (fastforce simp: result_simps)
next
  case (3 op l r proto)
  then obtain ta tb where ab: "type_ref l proto = Inr ta" "type_ref r proto = Inr tb"
    and op: "(case op of Cmp c \<Rightarrow> validate_comparison c ta tb | Logic _ \<Rightarrow> validate_logic ta tb) = Inr t"
    by (auto simp: result_simps)
  obtain ta' tb' where "type_ref l row = Inr ta'" "ta' = ta \<or> ta' = ENull"
      "type_ref r row = Inr tb'" "tb' = tb \<or> tb' = ENull"
    using "3.IH" ab "3.prems"(2) by blast
  moreover have "(case op of Cmp c \<Rightarrow> validate_comparison c ta' tb' | Logic _ \<Rightarrow> validate_logic ta' tb') = Inr t"
  proof (cases op)
    case (Cmp c)
    then have "validate_comparison c ta tb = Inr t" using op by simp
    from validate_comparison_nulls [OF this calculation(2,4)] show ?thesis using Cmp by simp
  next
    case (Logic g)
    then show ?thesis using op calculation(2,4) by (auto simp: validate_logic_def Let_def split: if_splits)
  qed
  ultimately show ?case by simp
next
  case (7 op x proto)
  then show ?case by (fastforce simp: result_simps split: if_splits)
qed (fastforce simp: result_simps)+

text \<open>Validation against the static row covers every row that conforms to it.\<close>

lemma validate_predicate_conforms:
  assumes "validate_predicate e proto = None" "row_conforms proto row"
  shows "validate_predicate e row = None"
proof -
  from assms(1) obtain t where "type_ref e proto = Inr t" "t = EBool \<or> t = ENull"
      "expr_height e \<le> kMaxExpressionDepth"
    by (auto simp: validate_predicate_def validate_impl_Inr_iff split: sum.splits if_splits)
  then obtain t' where "type_ref e row = Inr t'" "t' = EBool \<or> t' = ENull"
    using type_ref_conforms [OF _ assms(2)] by blast
  then have "validate_impl e row 0 = Inr t'"
    using \<open>expr_height e \<le> kMaxExpressionDepth\<close> by (simp add: validate_impl_Inr_iff)
  with \<open>t' = EBool \<or> t' = ENull\<close> show ?thesis by (auto simp: validate_predicate_def)
qed


lemma check_scan_columns_None:
  "check_scan_columns width uc us cols = None \<longleftrightarrow>
     (\<forall>c \<in> set cols. unat (sc_column_id c) < width)
     \<and> distinct (map (\<lambda>c. unat (sc_column_id c)) cols) \<and> set (map (\<lambda>c. unat (sc_column_id c)) cols) \<inter> set uc = {}
     \<and> distinct (map sc_output_slot cols) \<and> set (map sc_output_slot cols) \<inter> set us = {}"
  by (induction width uc us cols rule: check_scan_columns.induct) (auto simp: Let_def)

lemma validate_physical_row_None:
  "validate_physical_row table row = None \<longleftrightarrow> list_all2 value_matches_column row (tm_columns table)"
  by (auto simp: validate_physical_row_def list_all2_iff list_all_iff)

lemma materialize_Inr:
  "materialize_slot_row table row columns = Inr r \<longleftrightarrow>
     list_all2 value_matches_column row (tm_columns table) \<and> validate_scan_columns table columns = None
     \<and> r = map (\<lambda>c. \<lparr>sv_slot_id = sc_output_slot c, sv_value = row ! unat (sc_column_id c)\<rparr>) columns"
  by (auto simp: materialize_slot_row_def validate_physical_row_None [symmetric] split: option.splits)

lemma runtime_type_validation_value [simp]: "runtime_type (validation_value t) = Some t"
  by (cases t) simp_all

lemma validation_value_not_null [simp]: "validation_value t \<noteq> VNull"
  by (cases t) simp_all

lemma validation_row_matches:
  "list_all2 value_matches_column (map (\<lambda>c. validation_value (cm_type c)) columns) columns"
  by (simp add: list_all2_conv_all_nth value_matches_column_def)

text \<open>A row read from a table conforms to the validation row of the same scan, and slots are unique.\<close>

lemma materialize_conforms:
  assumes "make_validation_slot_row table columns = Inr proto" "materialize_slot_row table row columns = Inr r"
  shows "row_conforms proto r" "distinct (slots_of r)" "distinct (slots_of proto)"
proof -
  let ?n = "length (tm_columns table)"
  have cols: "\<forall>c \<in> set columns. unat (sc_column_id c) < ?n" "distinct (map sc_output_slot columns)"
    and proto: "proto = map (\<lambda>c. \<lparr>sv_slot_id = sc_output_slot c,
        sv_value = map (\<lambda>c. validation_value (cm_type c)) (tm_columns table) ! unat (sc_column_id c)\<rparr>) columns"
    using assms(1)
    by (auto simp: make_validation_slot_row_def materialize_Inr validate_scan_columns_def check_scan_columns_None
        split: if_splits)
  have r: "r = map (\<lambda>c. \<lparr>sv_slot_id = sc_output_slot c, sv_value = row ! unat (sc_column_id c)\<rparr>) columns"
    and match: "list_all2 value_matches_column row (tm_columns table)"
    using assms(2) by (simp_all add: materialize_Inr)
  have "value_fits (validation_value (cm_type (tm_columns table ! i))) (row ! i)" if "i < ?n" for i
    using list_all2_nthD2 [OF match that] by (auto simp: value_matches_column_def value_fits_def split: if_splits)
  then show "row_conforms proto r" using cols(1)
    by (simp add: row_conforms_def proto r list_all2_conv_all_nth)
  show "distinct (slots_of r)" "distinct (slots_of proto)" using cols(2) by (simp_all add: r proto comp_def)
qed

lemma validate_scan_columns_None:
  "validate_scan_columns table columns = None \<longleftrightarrow>
     length columns = length (tm_columns table) \<and> distinct (map sc_output_slot columns)
     \<and> set (map (\<lambda>c. unat (sc_column_id c)) columns) = {..<length (tm_columns table)}"
proof -
  let ?ids = "map (\<lambda>c. unat (sc_column_id c)) columns" and ?n = "length (tm_columns table)"
  have "set ?ids = {..<?n}" if "length columns = ?n" "distinct ?ids" "set ?ids \<subseteq> {..<?n}"
    using that by (intro card_subset_eq) (auto simp: distinct_card simp del: set_map)
  moreover have "distinct ?ids" if "length columns = ?n" "set ?ids = {..<?n}"
    using that by (intro card_distinct) (simp del: set_map)
  ultimately show ?thesis
    by (auto simp: validate_scan_columns_def check_scan_columns_None)
qed

subsection \<open>Properties of row binding\<close>

text \<open>
  C19: checking a WHERE clause once against the static types of a table suffices: if the clause validates
  against the validation row of a scan, it evaluates without an error on every row of the table that
  matches the schema, NULLs included.
\<close>

theorem static_check_covers_rows:
  assumes "make_validation_slot_row table columns = Inr proto"
    and "validate_predicate e proto = None"
    and "materialize_slot_row table row columns = Inr r"
  shows "\<exists>b. evaluate_predicate e r = Inr b"
proof -
  have "validate_predicate e r = None"
    by (rule validate_predicate_conforms [OF assms(2) materialize_conforms(1) [OF assms(1,3)]])
  then obtain t where t: "validate_impl e r 0 = Inr t" "t = EBool \<or> t = ENull"
    by (auto simp: validate_predicate_def split: sum.splits if_splits)
  then obtain v where "evaluate_impl e r 0 = Inr v" "conforms t v" using validate_impl_sound by blast
  then show ?thesis using t(2) by (cases v) (auto simp: evaluate_predicate_def conforms_def)
qed

definition demo_schema :: TableMeta where
  "demo_schema = \<lparr>tm_table_id = 1, tm_table_name = ''t'',
     tm_columns = [\<lparr>cm_name = ''a'', cm_type = kInt, cm_nullable = True\<rparr>]\<rparr>"

theorem static_check_covers_rows_witness:
  "\<exists>b. evaluate_predicate (Binary (Cmp kLt) (Some (ColumnRef 0)) (Some (Literal (VBigInt 9))))
     [\<lparr>sv_slot_id = 0, sv_value = VNull\<rparr>] = Inr b"
proof (rule static_check_covers_rows)
  show "make_validation_slot_row demo_schema [\<lparr>sc_column_id = 0, sc_output_slot = 0\<rparr>]
      = Inr [\<lparr>sv_slot_id = 0, sv_value = VInt 0\<rparr>]" by code_simp
  show "materialize_slot_row demo_schema [VNull] [\<lparr>sc_column_id = 0, sc_output_slot = 0\<rparr>]
      = Inr [\<lparr>sv_slot_id = 0, sv_value = VNull\<rparr>]" by code_simp
  show "validate_predicate (Binary (Cmp kLt) (Some (ColumnRef 0)) (Some (Literal (VBigInt 9))))
      [\<lparr>sv_slot_id = 0, sv_value = VInt 0\<rparr>] = None" by code_simp
qed

text \<open>
  Binding a stored row to slots succeeds exactly for rows of the schema's width and types and for
  mappings that cover every column once with distinct slots; then every slot of the mapping reads the
  column it names.
\<close>

lemma slot_binding_exact:
  "((\<exists>r. materialize_slot_row table row columns = Inr r) \<longleftrightarrow>
      list_all2 value_matches_column row (tm_columns table) \<and> length columns = length (tm_columns table)
      \<and> distinct (map sc_output_slot columns)
      \<and> set (map (\<lambda>c. unat (sc_column_id c)) columns) = {..<length (tm_columns table)})
   \<and> (\<forall>r. materialize_slot_row table row columns = Inr r \<longrightarrow>
        slots_of r = map sc_output_slot columns
        \<and> (\<forall>c \<in> set columns. slot_lookup r (sc_output_slot c) = Inr (row ! unat (sc_column_id c))))"
proof -
  have "slot_lookup r (sc_output_slot c) = Inr (row ! unat (sc_column_id c))"
    if "materialize_slot_row table row columns = Inr r" "c \<in> set columns" for r c
  proof -
    have r: "r = map (\<lambda>c. \<lparr>sv_slot_id = sc_output_slot c, sv_value = row ! unat (sc_column_id c)\<rparr>) columns"
      and v: "validate_scan_columns table columns = None" using that(1) by (simp_all add: materialize_Inr)
    have "distinct (slots_of r)"
      using v by (auto simp: r comp_def validate_scan_columns_def check_scan_columns_None split: if_splits)
    then show ?thesis using that(2) by (auto simp: slot_lookup_iff lookup_value_distinct) (auto simp: r)
  qed
  then show ?thesis by (auto simp: materialize_Inr validate_scan_columns_None comp_def)
qed

end
