(* ===== verification/Value_Hash.thy ===== *)
theory Value_Hash
  imports Slots
begin

text \<open>
  Equality and hashing of grouping and join keys in \<open>src/core/executor.cpp\<close>, and the hash indexes built
  on them. The functions \<open>std::hash\<close> of the C++ library are a parameter; an \<open>std::unordered_map\<close> is the
  association list of its entries, searched by hash and equality.
\<close>

subsection \<open>Key equality and key hash\<close>

record StdHash =
  sh_int32 :: "u32 \<Rightarrow> u64"
  sh_int64 :: "u64 \<Rightarrow> u64"
  sh_double :: "u64 \<Rightarrow> u64"
  sh_bool :: "bool \<Rightarrow> u64"
  sh_string :: "string \<Rightarrow> u64"

text \<open>\<open>operator==\<close> on the variant: same alternative, equal contents.\<close>

fun grouping_value_equal :: "Value \<Rightarrow> Value \<Rightarrow> bool" where
  "grouping_value_equal VNull VNull \<longleftrightarrow> True"
| "grouping_value_equal (VInt a) (VInt b) \<longleftrightarrow> a = b"
| "grouping_value_equal (VBigInt a) (VBigInt b) \<longleftrightarrow> a = b"
| "grouping_value_equal (VDouble a) (VDouble b) \<longleftrightarrow> double_eq a b"
| "grouping_value_equal (VBool a) (VBool b) \<longleftrightarrow> a = b"
| "grouping_value_equal (VText a) (VText b) \<longleftrightarrow> a = b"
| "grouping_value_equal _ _ \<longleftrightarrow> False"

definition grouping_keys_equal :: "Value list \<Rightarrow> Value list \<Rightarrow> bool" where
  "grouping_keys_equal lhs rhs \<longleftrightarrow>
     length lhs = length rhs \<and> list_all (\<lambda>(a, b). grouping_value_equal a b) (zip lhs rhs)"

fun value_is_nan :: "Value \<Rightarrow> bool" where
  "value_is_nan (VDouble d) = isnan d"
| "value_is_nan _ = False"

definition key_contains_nan :: "Value list \<Rightarrow> bool" where
  "key_contains_nan key = list_ex value_is_nan key"

fun value_hash :: "StdHash \<Rightarrow> Value \<Rightarrow> u64" where
  "value_hash h VNull = 0"
| "value_hash h (VInt item) = sh_int32 h item"
| "value_hash h (VBigInt item) = sh_int64 h item"
| "value_hash h (VDouble item) = sh_double h (if double_eq item 0 then 0 else item)"
| "value_hash h (VBool item) = sh_bool h item"
| "value_hash h (VText item) = sh_string h item"

definition value_key_hash :: "StdHash \<Rightarrow> Value list \<Rightarrow> u64" where
  "value_key_hash h key =
     fold (\<lambda>value seed. (seed XOR value_hash h value) * 1099511628211) key 1469598103934665603"

subsection \<open>Hash indexes\<close>

definition hash_find :: "('k \<Rightarrow> u64) \<Rightarrow> ('k \<Rightarrow> 'k \<Rightarrow> bool) \<Rightarrow> ('k \<times> 'v) list \<Rightarrow> 'k \<Rightarrow> 'v option" where
  "hash_find hash eq index key =
     map_option snd (find (\<lambda>(k, _). hash k = hash key \<and> eq k key) index)"

text \<open>\<open>index[key].push_back(i)\<close>\<close>

fun index_push :: "('k \<Rightarrow> u64) \<Rightarrow> ('k \<Rightarrow> 'k \<Rightarrow> bool) \<Rightarrow> 'k \<Rightarrow> 'v \<Rightarrow> ('k \<times> 'v list) list \<Rightarrow> ('k \<times> 'v list) list" where
  "index_push hash eq key i [] = [(key, [i])]"
| "index_push hash eq key i ((k, is) # index) =
     (if hash k = hash key \<and> eq k key then (k, is @ [i]) # index
      else (k, is) # index_push hash eq key i index)"

text \<open>
  What an \<open>std::unordered_map\<close> asks of its hash and equality: an equivalence on the keys that are stored,
  and equal hashes for equal keys. Then the hash never changes what a lookup finds.
\<close>

locale hashed_keys =
  fixes hash :: "'k \<Rightarrow> u64" and eq :: "'k \<Rightarrow> 'k \<Rightarrow> bool" and ok :: "'k \<Rightarrow> bool"
  assumes eq_refl: "ok k \<Longrightarrow> eq k k"
    and eq_sym: "eq k l \<Longrightarrow> eq l k"
    and eq_trans: "eq k l \<Longrightarrow> eq l m \<Longrightarrow> eq k m"
    and eq_hash: "eq k l \<Longrightarrow> hash k = hash l"
begin

lemma hash_match: "(hash k = hash key \<and> eq k key) \<longleftrightarrow> eq k key"
  using eq_hash by blast

lemma hash_find_eq: "hash_find hash eq index key = map_option snd (find (\<lambda>(k, _). eq k key) index)"
  by (simp add: hash_find_def hash_match)

lemma hash_find_push:
  assumes "ok key" "ok key'"
  shows "hash_find hash eq (index_push hash eq key i index) key' =
    (if eq key key'
     then Some ((case hash_find hash eq index key of None \<Rightarrow> [] | Some is \<Rightarrow> is) @ [i])
     else hash_find hash eq index key')"
  unfolding hash_find_eq
proof (induction index)
  case (Cons e index)
  obtain k "is" where e: "e = (k, is)" by force
  have "eq k key' \<longleftrightarrow> eq k key" if "eq key key'" using eq_trans eq_sym that by blast
  moreover have "\<not> eq k key'" if "eq k key" "\<not> eq key key'" using eq_trans eq_sym that by blast
  ultimately show ?case using Cons by (auto simp: e hash_match)
qed (use assms eq_refl in auto)

lemma hash_find_cong: "eq key key' \<Longrightarrow> hash_find hash eq index key = hash_find hash eq index key'"
proof -
  assume "eq key key'"
  then have "eq k key \<longleftrightarrow> eq k key'" for k using eq_trans eq_sym by blast
  then show ?thesis by (simp add: hash_find_eq)
qed

text \<open>After pushing a sequence of entries a lookup returns those with an equal key, in order.\<close>

lemma hash_find_pushes:
  assumes "\<forall>(k, i) \<in> set ps. ok k" "ok key"
  shows "hash_find hash eq (fold (\<lambda>(k, i). index_push hash eq k i) ps []) key =
    (let is = map snd (filter (\<lambda>(k, i). eq k key) ps) in if is = [] then None else Some is)"
  using assms(1)
proof (induction ps rule: rev_induct)
  case (snoc p ps)
  obtain k i where p: "p = (k, i)" by force
  have "ok k" using snoc.prems p by auto
  let ?m = "fold (\<lambda>(k, i). index_push hash eq k i) ps []"
  have "hash_find hash eq ?m k = hash_find hash eq ?m key" if "eq k key" by (rule hash_find_cong [OF that])
  then show ?case using snoc hash_find_push [OF \<open>ok k\<close> assms(2), of i ?m] by (auto simp: p Let_def)
qed (simp add: hash_find_def)

end

subsection \<open>Equal doubles have equal bits, zeros apart\<close>

lemma double_parts_eq:
  assumes "double_negative a = double_negative b" "double_exponent a = double_exponent b"
    "double_fraction a = double_fraction b"
  shows "a = b"
proof (rule bit_word_eqI)
  fix n assume n: "n < LENGTH(64)"
  have m: "(4503599627370495 :: u64) = mask 52" by (simp add: mask_eq_exp_minus_1)
  have f: "a AND mask 52 = b AND mask 52"
    using assms(3) by (simp add: double_fraction_def m word_uint_eq_iff)
  have m2: "(2047 :: u64) = mask 11" by (simp add: mask_eq_exp_minus_1)
  have e: "drop_bit 52 a AND mask 11 = drop_bit 52 b AND mask 11"
    using assms(2) by (simp add: double_exponent_def m2 word_uint_eq_iff)
  consider "n < 52" | "52 \<le> n" "n < 63" | "n = 63" using n by force
  then show "bit a n = bit b n"
  proof cases
    case 1
    have "bit (a AND mask 52) n = bit (b AND mask 52) n" using f by simp
    then show ?thesis using 1 n by (simp add: bit_simps)
  next
    case 2
    have "bit (drop_bit 52 a AND mask 11) (n - 52) = bit (drop_bit 52 b AND mask 11) (n - 52)" using e by simp
    moreover have "n - 52 < 64" "n - 52 < 11" using 2 by auto
    ultimately show ?thesis using 2 n by (simp add: bit_simps)
  next
    case 3
    then show ?thesis using assms(1) by (simp add: double_negative_def)
  qed
qed

lemma double_part_bounds:
  "0 \<le> double_fraction d" "double_fraction d < 2 ^ 52" "0 \<le> double_exponent d"
proof -
  have "d AND 4503599627370495 = d AND mask 52" by (simp add: mask_eq_exp_minus_1)
  also have "\<dots> = take_bit 52 d" by (simp add: take_bit_eq_mask)
  finally have "uint (d AND 4503599627370495) = take_bit 52 (uint d)" by (simp add: unsigned_take_bit_eq)
  then show "0 \<le> double_fraction d" "double_fraction d < 2 ^ 52"
    using take_bit_int_less_exp [of 52 "uint d"] by (simp_all add: double_fraction_def del: uint_and)
  show "0 \<le> double_exponent d" by (simp add: double_exponent_def)
qed

text \<open>A positive magnitude determines its exponent field: it is the position of the leading bit.\<close>

lemma magnitude_range:
  assumes "double_exponent d \<noteq> 0"
  shows "2 ^ (52 + nat (double_exponent d - 1)) \<le> double_magnitude d"
    and "double_magnitude d < 2 ^ (53 + nat (double_exponent d - 1))"
  using assms double_part_bounds [of d]
  by (simp_all add: double_magnitude_def power_add)

lemma double_magnitude_inj:
  assumes "double_magnitude a = double_magnitude b"
  shows "double_exponent a = double_exponent b \<and> double_fraction a = double_fraction b"
proof -
  have less: False if "double_exponent x < double_exponent y" "double_magnitude x = double_magnitude y" for x y
  proof (cases "double_exponent x = 0")
    case True
    have "(2 :: int) ^ 52 \<le> 2 ^ (52 + nat (double_exponent y - 1))" by (intro power_increasing) auto
    then show False using magnitude_range(1) [of y] that True double_part_bounds [of x]
      by (auto simp: double_magnitude_def [of x])
  next
    case False
    have "nat (double_exponent x - 1) < nat (double_exponent y - 1)"
      using that False double_part_bounds(3) [of x] by linarith
    then have "(2 :: int) ^ (53 + nat (double_exponent x - 1)) \<le> 2 ^ (52 + nat (double_exponent y - 1))"
      by (intro power_increasing) auto
    then show False using magnitude_range [of x] magnitude_range [of y] that False double_part_bounds(3) [of x] by linarith
  qed
  have "double_exponent a = double_exponent b" using less [of a b] less [of b a] assms by (metis linorder_less_linear)
  then show ?thesis using assms by (auto simp: double_magnitude_def split: if_splits)
qed

lemma double_magnitude_nonneg: "0 \<le> double_magnitude d"
  using double_part_bounds [of d] by (simp add: double_magnitude_def)

lemma double_scaled_inj:
  assumes "double_scaled a = double_scaled b" "double_scaled a \<noteq> 0"
  shows "a = b"
proof -
  have "double_negative a = double_negative b" "double_magnitude a = double_magnitude b"
    using assms double_magnitude_nonneg [of a] double_magnitude_nonneg [of b]
    by (auto simp: double_scaled_def split: if_splits)
  then show ?thesis using double_magnitude_inj double_parts_eq by blast
qed

lemma double_zero [simp]: "double_scaled 0 = 0" "\<not> isnan 0"
  by (simp_all add: double_scaled_def double_magnitude_def double_exponent_def double_fraction_def
      double_negative_def isnan_def)

lemma double_eq_normalised: "double_eq a b \<Longrightarrow> (if double_eq a 0 then 0 else a) = (if double_eq b 0 then 0 else b)"
  using double_scaled_inj [of a b] by (auto simp: double_eq_def)

subsection \<open>Key equality\<close>

lemma grouping_keys_equal_iff: "grouping_keys_equal ks ls \<longleftrightarrow> list_all2 grouping_value_equal ks ls"
  by (auto simp: grouping_keys_equal_def list_all2_iff list_all_iff)

lemma grouping_value_sym: "grouping_value_equal a b \<Longrightarrow> grouping_value_equal b a"
  by (cases a; cases b) (auto simp: double_eq_sym)

lemma grouping_value_trans: "grouping_value_equal a b \<Longrightarrow> grouping_value_equal b c \<Longrightarrow> grouping_value_equal a c"
  by (cases a; cases b; cases c) (auto intro: double_eq_trans)

lemma grouping_value_refl: "grouping_value_equal a a \<longleftrightarrow> \<not> value_is_nan a"
  by (cases a) (auto simp: double_eq_def)

lemma value_hash_equal: "grouping_value_equal a b \<Longrightarrow> value_hash h a = value_hash h b"
  by (cases a; cases b) (simp_all add: double_eq_normalised)

lemma value_key_hash_equal:
  "grouping_keys_equal ks ls \<Longrightarrow> value_key_hash h ks = value_key_hash h ls"
proof -
  have "fold (\<lambda>value seed. (seed XOR value_hash h value) * 1099511628211) ks s =
      fold (\<lambda>value seed. (seed XOR value_hash h value) * 1099511628211) ls s" if "list_all2 grouping_value_equal ks ls" for s
    using that by (induction arbitrary: s rule: list_all2_induct) (simp_all add: value_hash_equal)
  then show "grouping_keys_equal ks ls \<Longrightarrow> ?thesis" by (simp add: value_key_hash_def grouping_keys_equal_iff)
qed

lemma grouping_keys_refl: "\<not> key_contains_nan ks \<Longrightarrow> grouping_keys_equal ks ks"
  by (auto simp: grouping_keys_equal_iff key_contains_nan_def list_ex_iff grouping_value_refl list_all2_same)

interpretation value_keys: hashed_keys "value_key_hash h" grouping_keys_equal "\<lambda>k. \<not> key_contains_nan k" for h
proof
  show "\<not> key_contains_nan k \<Longrightarrow> grouping_keys_equal k k" for k by (rule grouping_keys_refl)
  show "grouping_keys_equal k l \<Longrightarrow> grouping_keys_equal l k" for k l
    unfolding grouping_keys_equal_iff by (auto simp: list_all2_conv_all_nth intro: grouping_value_sym)
  show "grouping_keys_equal k l \<Longrightarrow> grouping_keys_equal l m \<Longrightarrow> grouping_keys_equal k m" for k l m
    unfolding grouping_keys_equal_iff by (rule list_all2_trans [OF grouping_value_trans])
  show "grouping_keys_equal k l \<Longrightarrow> value_key_hash h k = value_key_hash h l" for k l by (rule value_key_hash_equal)
qed

text \<open>
  Hashing agrees with key equality whatever \<open>std::hash\<close> computes: keys that the executor's equality
  identifies, \<open>-0.0\<close> and \<open>0.0\<close> included, have the same hash, so a lookup in a hash index built by pushing
  entries finds exactly the entries with an equal key, in the order they were pushed.
\<close>

lemma hash_index_exact:
  assumes "\<forall>(k, i) \<in> set ps. \<not> key_contains_nan k" "\<not> key_contains_nan key"
  shows "hash_find (value_key_hash h) grouping_keys_equal
      (fold (\<lambda>(k, i). index_push (value_key_hash h) grouping_keys_equal k i) ps []) key =
    (let is = map snd (filter (\<lambda>(k, i). grouping_keys_equal k key) ps) in if is = [] then None else Some is)"
  using value_keys.hash_find_pushes [OF assms] .

end
