(* ===== verification/Row_Join.thy ===== *)
theory Row_Join
  imports Value_Hash
begin

text \<open>
  The join operator of \<open>src/core/executor.cpp\<close>: merging of slot rows, the collection of equality pairs from
  the condition, the hash join over them and the nested loop it falls back to.
\<close>

subsection \<open>Merging rows\<close>

definition duplicate_bindings :: Error where
  "duplicate_bindings = make_error kInternal ''join inputs contain duplicate slot bindings''"

fun merge_slot_loop :: "SlotRow \<Rightarrow> SlotRow \<Rightarrow> (Error, SlotRow) result" where
  "merge_slot_loop merged [] = Inr merged"
| "merge_slot_loop merged (value # right) =
     (case slot_lookup merged (sv_slot_id value) of
        Inr _ \<Rightarrow> Inl duplicate_bindings
      | Inl _ \<Rightarrow> merge_slot_loop (merged @ [value]) right)"

definition merge_slot_rows :: "SlotRow \<Rightarrow> SlotRow \<Rightarrow> (Error, SlotRow) result" where
  "merge_slot_rows left right = merge_slot_loop left right"

definition slot_sets_disjoint :: "SlotRow \<Rightarrow> SlotRow \<Rightarrow> bool" where
  "slot_sets_disjoint left right \<longleftrightarrow>
     list_all (\<lambda>l. list_all (\<lambda>r. sv_slot_id l \<noteq> sv_slot_id r) right) left"

definition merge_disjoint_rows :: "SlotRow \<Rightarrow> SlotRow \<Rightarrow> SlotRow" where
  "merge_disjoint_rows left right = left @ right"

definition append_slot_types :: "SlotRow \<Rightarrow> SlotRow \<Rightarrow> SlotRow" where
  "append_slot_types slot_types row =
     fold (\<lambda>entry types. if list_ex (\<lambda>existing. sv_slot_id existing = sv_slot_id entry) types
                         then types else types @ [entry]) row slot_types"

subsection \<open>Equality pairs of a join condition\<close>

datatype SlotKeyType = KeyNull | KeyInt | KeyBigInt | KeyDouble | KeyVarchar | KeyBoolean | KeyOther

fun slot_key_type :: "Value \<Rightarrow> SlotKeyType" where
  "slot_key_type VNull = KeyNull"
| "slot_key_type (VInt _) = KeyInt"
| "slot_key_type (VBigInt _) = KeyBigInt"
| "slot_key_type (VDouble _) = KeyDouble"
| "slot_key_type (VText _) = KeyVarchar"
| "slot_key_type (VBool _) = KeyBoolean"

record EquiJoinKeyPlan =
  ek_left_slots :: "QuerySlot list"
  ek_right_slots :: "QuerySlot list"

definition usable :: "EquiJoinKeyPlan \<Rightarrow> bool" where
  "usable plan \<longleftrightarrow> ek_left_slots plan \<noteq> [] \<and> length (ek_left_slots plan) = length (ek_right_slots plan)"

definition find_slot_type_value :: "SlotRow \<Rightarrow> QuerySlot \<Rightarrow> Value option" where
  "find_slot_type_value slot_types slot_id =
     map_option sv_value (find (\<lambda>entry. sv_slot_id entry = slot_id) slot_types)"

definition contains_slot :: "QuerySlot list \<Rightarrow> QuerySlot \<Rightarrow> bool" where
  "contains_slot slots slot_id \<longleftrightarrow> slot_id \<in> set slots"

definition slot_ids_of :: "SlotRow \<Rightarrow> QuerySlot list" where
  "slot_ids_of row = map sv_slot_id row"

text \<open>One comparison of two columns: which side each slot is on, whether the types match, whether it is new.\<close>

definition collect_column_pair ::
  "QuerySlot \<Rightarrow> QuerySlot \<Rightarrow> QuerySlot list \<Rightarrow> QuerySlot list \<Rightarrow> SlotRow \<Rightarrow> EquiJoinKeyPlan \<Rightarrow> EquiJoinKeyPlan" where
  "collect_column_pair lhs_slot rhs_slot left_slots right_slots slot_types plan =
     (let sides =
        (if contains_slot left_slots lhs_slot \<and> contains_slot right_slots rhs_slot then Some (lhs_slot, rhs_slot)
         else if contains_slot right_slots lhs_slot \<and> contains_slot left_slots rhs_slot then Some (rhs_slot, lhs_slot)
         else None)
      in case sides of
        None \<Rightarrow> plan
      | Some (left_id, right_id) \<Rightarrow>
          (case (find_slot_type_value slot_types left_id, find_slot_type_value slot_types right_id) of
             (Some left_type, Some right_type) \<Rightarrow>
               let left_key = slot_key_type left_type in
               if left_key \<noteq> slot_key_type right_type \<or> left_key = KeyNull \<or> left_key = KeyOther then plan
               else if contains_slot (ek_left_slots plan) left_id \<and> contains_slot (ek_right_slots plan) right_id then plan
               else plan\<lparr>ek_left_slots := ek_left_slots plan @ [left_id],
                         ek_right_slots := ek_right_slots plan @ [right_id]\<rparr>
           | _ \<Rightarrow> plan))"

fun collect_equi_join_pairs ::
  "Expr \<Rightarrow> QuerySlot list \<Rightarrow> QuerySlot list \<Rightarrow> SlotRow \<Rightarrow> EquiJoinKeyPlan \<Rightarrow> EquiJoinKeyPlan" where
  "collect_equi_join_pairs (Binary (Logic logic) lhs rhs) left_slots right_slots slot_types plan =
     (if logic \<noteq> kAnd then plan
      else
        let plan = (case lhs of Some l \<Rightarrow> collect_equi_join_pairs l left_slots right_slots slot_types plan | None \<Rightarrow> plan)
        in case rhs of Some r \<Rightarrow> collect_equi_join_pairs r left_slots right_slots slot_types plan | None \<Rightarrow> plan)"
| "collect_equi_join_pairs (Binary (Cmp kEq) (Some (ColumnRef a)) (Some (ColumnRef b))) left_slots right_slots slot_types plan =
     collect_column_pair a b left_slots right_slots slot_types plan"
| "collect_equi_join_pairs _ left_slots right_slots slot_types plan = plan"

subsection \<open>Joining\<close>

definition join_limit_error :: "nat \<Rightarrow> Error" where
  "join_limit_error max_query_rows = make_error_hint kExecute
     (''join materialization exceeds the maximum row count (limit '' @ decimal max_query_rows @ '')'')
     (Some ''raise max_query_rows or narrow the query'')"

definition push_match :: "Expr \<Rightarrow> nat \<Rightarrow> SlotRow \<Rightarrow> SlotRow list \<Rightarrow> (Error, SlotRow list) result" where
  "push_match condition max_query_rows candidate joined =
     (case evaluate_predicate condition candidate of
        Inl error \<Rightarrow> Inl (make_error kInternal (expr_error_message error))
      | Inr matches \<Rightarrow>
          if \<not> matches then Inr joined
          else if max_query_rows \<le> length joined then Inl (join_limit_error max_query_rows)
          else Inr (joined @ [candidate]))"

fun push_matches :: "Expr \<Rightarrow> nat \<Rightarrow> SlotRow list \<Rightarrow> SlotRow list \<Rightarrow> (Error, SlotRow list) result" where
  "push_matches condition max_query_rows [] joined = Inr joined"
| "push_matches condition max_query_rows (candidate # rest) joined =
     bind_result (push_match condition max_query_rows candidate joined)
       (push_matches condition max_query_rows rest)"

text \<open>The key of a row; \<open>None\<close> when a key column is NULL, which stops the loop.\<close>

fun join_key :: "SlotRow \<Rightarrow> QuerySlot list \<Rightarrow> (Error, Value list option) result" where
  "join_key row [] = Inr (Some [])"
| "join_key row (slot_id # slots) =
     bind_result (slot_lookup row slot_id) (\<lambda>found.
       if found = VNull then Inr None
       else bind_result (join_key row slots) (\<lambda>key. Inr (map_option (Cons found) key)))"

fun build_right_index ::
  "StdHash \<Rightarrow> QuerySlot list \<Rightarrow> nat \<Rightarrow> SlotRow list \<Rightarrow> (Value list \<times> nat list) list \<Rightarrow>
     (Error, (Value list \<times> nat list) list) result" where
  "build_right_index h slots index [] right_index = Inr right_index"
| "build_right_index h slots index (row # rows) right_index =
     bind_result (join_key row slots) (\<lambda>key.
       build_right_index h slots (index + 1) rows
         (case key of
            Some k \<Rightarrow> if key_contains_nan k then right_index
                      else index_push (value_key_hash h) grouping_keys_equal k index right_index
          | None \<Rightarrow> right_index))"

fun probe_left_rows ::
  "StdHash \<Rightarrow> Expr \<Rightarrow> nat \<Rightarrow> QuerySlot list \<Rightarrow> (Value list \<times> nat list) list \<Rightarrow> SlotRow list \<Rightarrow> SlotRow list \<Rightarrow>
     SlotRow list \<Rightarrow> (Error, SlotRow list) result" where
  "probe_left_rows h condition limit slots right_index right_rows [] joined = Inr joined"
| "probe_left_rows h condition limit slots right_index right_rows (left # lefts) joined =
     bind_result (join_key left slots) (\<lambda>key.
       let candidates =
         (case key of
            Some k \<Rightarrow>
              if key_contains_nan k then []
              else (case hash_find (value_key_hash h) grouping_keys_equal right_index k of
                      None \<Rightarrow> [] | Some indexes \<Rightarrow> indexes)
          | None \<Rightarrow> [])
       in bind_result (push_matches condition limit
            (map (\<lambda>index. merge_disjoint_rows left (right_rows ! index)) candidates) joined)
          (probe_left_rows h condition limit slots right_index right_rows lefts))"

fun nested_loop_join :: "Expr \<Rightarrow> nat \<Rightarrow> SlotRow list \<Rightarrow> SlotRow list \<Rightarrow> SlotRow list \<Rightarrow> (Error, SlotRow list) result" where
  "nested_loop_join condition limit right_rows [] joined = Inr joined"
| "nested_loop_join condition limit right_rows (left # lefts) joined =
     bind_result (push_matches condition limit (map (merge_disjoint_rows left) right_rows) joined)
       (nested_loop_join condition limit right_rows lefts)"

text \<open>The join node on the rows of its children.\<close>

definition execute_join ::
  "StdHash \<Rightarrow> nat \<Rightarrow> SlotRow \<Rightarrow> Expr \<Rightarrow> SlotRow list \<Rightarrow> SlotRow list \<Rightarrow> (Error, SlotRow list) result" where
  "execute_join h max_query_rows slot_types condition left_rows right_rows =
     (if left_rows = [] \<or> right_rows = [] then Inr []
      else if \<not> slot_sets_disjoint (hd left_rows) (hd right_rows) then Inl duplicate_bindings
      else
        let key_plan = collect_equi_join_pairs condition (slot_ids_of (hd left_rows)) (slot_ids_of (hd right_rows))
              slot_types \<lparr>ek_left_slots = [], ek_right_slots = []\<rparr>
        in if usable key_plan then
             bind_result (build_right_index h (ek_right_slots key_plan) 0 right_rows []) (\<lambda>right_index.
               probe_left_rows h condition max_query_rows (ek_left_slots key_plan) right_index right_rows left_rows [])
           else nested_loop_join condition max_query_rows right_rows left_rows [])"

subsection \<open>What a join means\<close>

definition holds :: "Expr \<Rightarrow> SlotRow \<Rightarrow> bool" where
  "holds condition row \<longleftrightarrow> evaluate_predicate condition row = Inr True"

text \<open>All pairs that satisfy the condition, left rows outermost, or the limit error.\<close>

definition limited :: "nat \<Rightarrow> SlotRow list \<Rightarrow> (Error, SlotRow list) result" where
  "limited limit rows = (if length rows \<le> limit then Inr rows else Inl (join_limit_error limit))"

definition join_spec :: "Expr \<Rightarrow> nat \<Rightarrow> SlotRow list \<Rightarrow> SlotRow list \<Rightarrow> (Error, SlotRow list) result" where
  "join_spec condition limit left_rows right_rows =
     limited limit (filter (holds condition) (concat (map (\<lambda>l. map (\<lambda>r. l @ r) right_rows) left_rows)))"

lemma push_matches_limited:
  assumes "\<forall>c \<in> set cands. \<exists>b. evaluate_predicate condition c = Inr b" "length joined \<le> limit"
  shows "push_matches condition limit cands joined = limited limit (joined @ filter (holds condition) cands)"
  using assms
proof (induction cands arbitrary: joined)
  case (Cons c cands)
  then obtain b where b: "evaluate_predicate condition c = Inr b" by auto
  show ?case using Cons b by (auto simp: push_match_def holds_def limited_def)
qed (simp add: limited_def)

text \<open>A probe that tries a subset of the right rows containing all matches gives the same result.\<close>

lemma nested_loop_limited:
  assumes "\<forall>l \<in> set lefts. \<forall>r \<in> set rights. \<exists>b. evaluate_predicate condition (l @ r) = Inr b"
    and "length joined \<le> limit"
  shows "nested_loop_join condition limit rights lefts joined =
    limited limit (joined @ filter (holds condition) (concat (map (\<lambda>l. map (\<lambda>r. l @ r) rights) lefts)))"
  using assms
proof (induction lefts arbitrary: joined)
  case (Cons l lefts)
  have "push_matches condition limit (map (merge_disjoint_rows l) rights) joined =
      limited limit (joined @ filter (holds condition) (map (\<lambda>r. l @ r) rights))"
    using Cons.prems by (subst push_matches_limited) (auto simp: merge_disjoint_rows_def [abs_def])
  then show ?case using Cons by (auto simp: limited_def)
qed (simp add: limited_def)

subsection \<open>The equality pairs are implied by the condition\<close>

definition pair_sound :: "QuerySlot list \<Rightarrow> QuerySlot list \<Rightarrow> SlotRow \<Rightarrow> SlotRow \<Rightarrow> QuerySlot \<Rightarrow> QuerySlot \<Rightarrow> bool" where
  "pair_sound ls rs types row a b \<longleftrightarrow> a \<in> set ls \<and> b \<in> set rs
     \<and> (\<exists>ta tb. find_slot_type_value types a = Some ta \<and> find_slot_type_value types b = Some tb
          \<and> slot_key_type ta = slot_key_type tb \<and> ta \<noteq> VNull)
     \<and> (\<exists>v w. lookup_value row a = Inr v \<and> lookup_value row b = Inr w
          \<and> (evaluate_comparison kEq v w = Inr (VBool True) \<or> evaluate_comparison kEq w v = Inr (VBool True)))"

definition plan_sound :: "QuerySlot list \<Rightarrow> QuerySlot list \<Rightarrow> SlotRow \<Rightarrow> SlotRow \<Rightarrow> EquiJoinKeyPlan \<Rightarrow> bool" where
  "plan_sound ls rs types row plan \<longleftrightarrow> list_all2 (pair_sound ls rs types row) (ek_left_slots plan) (ek_right_slots plan)"

lemma slot_key_null [simp]: "slot_key_type v = KeyNull \<longleftrightarrow> v = VNull" "KeyNull = slot_key_type v \<longleftrightarrow> v = VNull"
  by (cases v; simp)+

lemma and_true:
  "evaluate_logic kAnd l r = Inr (VBool True) \<longleftrightarrow> l = VBool True \<and> r = VBool True"
  by (cases l; cases r) (auto simp: evaluate_logic_def truth_and_def split: if_splits)

lemma collect_column_pair_sound:
  assumes "plan_sound ls rs types row plan"
    and "eval_ref (Binary (Cmp kEq) (Some (ColumnRef a)) (Some (ColumnRef b))) row = Inr (VBool True)"
  shows "plan_sound ls rs types row (collect_column_pair a b ls rs types plan)"
proof -
  from assms(2) obtain v w where vw: "lookup_value row a = Inr v" "lookup_value row b = Inr w"
      "evaluate_comparison kEq v w = Inr (VBool True)"
    by (auto simp: result_simps evaluate_binary_def)
  have "pair_sound ls rs types row x y"
    if "contains_slot ls x" "contains_slot rs y" "find_slot_type_value types x = Some ta"
      "find_slot_type_value types y = Some tb" "slot_key_type ta = slot_key_type tb" "ta \<noteq> VNull"
      "(x, y) = (a, b) \<or> (x, y) = (b, a)" for x y ta tb
    using that vw by (auto simp: pair_sound_def contains_slot_def)
  then show ?thesis using assms(1)
    by (auto simp: collect_column_pair_def plan_sound_def Let_def list_all2_appendI split: option.splits)
qed

lemma collect_sound:
  "eval_ref condition row = Inr (VBool True) \<Longrightarrow> plan_sound ls rs types row plan \<Longrightarrow>
   plan_sound ls rs types row (collect_equi_join_pairs condition ls rs types plan)"
proof (induction condition ls rs types plan rule: collect_equi_join_pairs.induct)
  case (1 logic lhs rhs ls rs types plan)
  then obtain l r vl vr where e: "lhs = Some l" "rhs = Some r" "eval_ref l row = Inr vl" "eval_ref r row = Inr vr"
    and b: "evaluate_binary (Logic logic) vl vr = Inr (VBool True)"
    by (cases lhs; cases rhs) (auto simp: result_simps)
  show ?case
  proof (cases "logic = kAnd")
    case True
    then have "vl = VBool True" "vr = VBool True" using b by (simp_all add: evaluate_binary_def and_true)
    then show ?thesis using 1 e True by (simp add: Let_def)
  qed (use 1 in simp)
next
  case (2 a b ls rs types plan)
  then show ?case using collect_column_pair_sound by simp
qed simp_all

text \<open>A true equality between values of one static type makes them equal as keys, never NULL or NaN.\<close>

lemma equal_as_key:
  assumes "slot_key_type ta = slot_key_type tb" "ta \<noteq> VNull" "value_fits ta v" "value_fits tb w"
    and "evaluate_comparison kEq v w = Inr (VBool True) \<or> evaluate_comparison kEq w v = Inr (VBool True)"
  shows "v \<noteq> VNull \<and> w \<noteq> VNull \<and> \<not> value_is_nan v \<and> \<not> value_is_nan w \<and> grouping_value_equal v w"
proof -
  have nn: "v \<noteq> VNull" "w \<noteq> VNull" using assms(5) by (auto simp: evaluate_comparison_def Let_def split: if_splits)
  then have "runtime_type v = runtime_type ta" "runtime_type w = runtime_type tb"
    using assms(3,4) by (auto simp: value_fits_def)
  moreover have "runtime_type tb = runtime_type ta" using assms(1) by (cases ta; cases tb) auto
  ultimately have "runtime_type v = runtime_type w" by simp
  then show ?thesis using assms(5) nn
    by (cases v; cases w) (auto simp: evaluate_comparison_def compare_booleans_def is_ordered_comparison_def double_eq_def
      dest: signed_word_eqI)
qed

subsection \<open>Keys of conforming rows\<close>

lemma join_key_total:
  assumes "row_conforms proto row" "\<forall>s \<in> set slots. \<exists>p. slot_lookup proto s = Inr p"
  shows "\<exists>key. join_key row slots = Inr key"
  using assms(2)
proof (induction slots)
  case (Cons s slots)
  then obtain p where "slot_lookup proto s = Inr p" by auto
  then obtain v where "slot_lookup row s = Inr v"
    using lookup_value_conforms [OF assms(1)] by (auto simp: slot_lookup_iff)
  then show ?case using Cons by (auto simp: result_simps)
qed simp

lemma join_key_Some:
  "join_key row slots = Inr (Some key) \<longleftrightarrow>
     list_all2 (\<lambda>s v. slot_lookup row s = Inr v \<and> v \<noteq> VNull) slots key"
proof (induction slots arbitrary: key)
  case (Cons s slots)
  show ?case using Cons by (cases key) (auto simp: result_simps split: if_splits)
qed auto

lemma lookup_left:
  assumes "distinct (slots_of (l @ r))" "s \<in> set (slots_of l)"
  shows "lookup_value (l @ r) s = Inr v \<longleftrightarrow> lookup_value l s = Inr v"
proof -
  have "s \<notin> set (slots_of r)" using assms by auto
  then have "\<lparr>sv_slot_id = s, sv_value = v\<rparr> \<notin> set r" by force
  moreover have "distinct (slots_of l)" using assms(1) by simp
  ultimately show ?thesis using lookup_value_distinct [OF assms(1)] lookup_value_distinct [of l] by simp
qed

lemma lookup_right:
  assumes "distinct (slots_of (l @ r))" "s \<in> set (slots_of r)"
  shows "lookup_value (l @ r) s = Inr v \<longleftrightarrow> lookup_value r s = Inr v"
proof -
  have "s \<notin> set (slots_of l)" using assms by auto
  then have "\<lparr>sv_slot_id = s, sv_value = v\<rparr> \<notin> set l" by force
  moreover have "distinct (slots_of r)" using assms(1) by simp
  ultimately show ?thesis using lookup_value_distinct [OF assms(1)] lookup_value_distinct [of r] by simp
qed

definition types_agree :: "SlotRow \<Rightarrow> SlotRow \<Rightarrow> bool" where
  "types_agree types proto \<longleftrightarrow> (\<forall>e \<in> set proto. find_slot_type_value types (sv_slot_id e) = Some (sv_value e))"

lemma types_agree_lookup:
  assumes "types_agree types proto" "row_conforms proto row" "distinct (slots_of proto)"
    and "s \<in> set (slots_of proto)" "find_slot_type_value types s = Some t"
  shows "\<exists>v. lookup_value row s = Inr v \<and> value_fits t v"
proof -
  from assms(4) obtain e where e: "e \<in> set proto" "sv_slot_id e = s" by auto
  then have "sv_value e = t" using assms(1,5) by (auto simp: types_agree_def)
  then have "lookup_value proto s = Inr t" using e lookup_value_distinct [OF assms(3)] by (cases e) auto
  then show ?thesis by (rule lookup_value_conforms [OF assms(2)])
qed

lemma pair_sound_keys:
  assumes sound: "pair_sound (slots_of pl) (slots_of pr) types (l @ r) a b"
    and conf: "row_conforms pl l" "row_conforms pr r" and d: "distinct (slots_of (pl @ pr))"
    and types: "types_agree types pl" "types_agree types pr"
  shows "\<exists>v w. slot_lookup l a = Inr v \<and> slot_lookup r b = Inr w \<and> v \<noteq> VNull \<and> w \<noteq> VNull
    \<and> \<not> value_is_nan v \<and> \<not> value_is_nan w \<and> grouping_value_equal v w"
proof -
  from sound obtain ta tb v w where t: "find_slot_type_value types a = Some ta" "find_slot_type_value types b = Some tb"
      "slot_key_type ta = slot_key_type tb" "ta \<noteq> VNull"
    and in_slots: "a \<in> set (slots_of pl)" "b \<in> set (slots_of pr)"
    and vw: "lookup_value (l @ r) a = Inr v" "lookup_value (l @ r) b = Inr w"
      "evaluate_comparison kEq v w = Inr (VBool True) \<or> evaluate_comparison kEq w v = Inr (VBool True)"
    unfolding pair_sound_def by blast
  note slots = row_conforms_slots [OF conf(1)] row_conforms_slots [OF conf(2)]
  have dlr: "distinct (slots_of (l @ r))" using d by (simp only: map_append slots)
  have lv: "lookup_value l a = Inr v" using vw(1) lookup_left [OF dlr, of a v] in_slots by (simp add: slots del: set_map)
  have rw: "lookup_value r b = Inr w" using vw(2) lookup_right [OF dlr, of b w] in_slots by (simp add: slots del: set_map)
  have "value_fits ta v" using types_agree_lookup [OF types(1) conf(1) _ in_slots(1) t(1)] d lv by auto
  moreover have "value_fits tb w" using types_agree_lookup [OF types(2) conf(2) _ in_slots(2) t(2)] d rw by auto
  ultimately show ?thesis using equal_as_key [OF t(3,4) _ _ vw(3)] lv rw by (auto simp: slot_lookup_iff)
qed

lemma plan_sound_keys:
  assumes "plan_sound (slots_of pl) (slots_of pr) types (l @ r) plan"
    and "row_conforms pl l" "row_conforms pr r" "distinct (slots_of (pl @ pr))"
    and "types_agree types pl" "types_agree types pr"
  shows "\<exists>kl kr. join_key l (ek_left_slots plan) = Inr (Some kl) \<and> join_key r (ek_right_slots plan) = Inr (Some kr)
    \<and> \<not> key_contains_nan kl \<and> \<not> key_contains_nan kr \<and> grouping_keys_equal kr kl"
  using assms(1) unfolding plan_sound_def join_key_Some
proof (induction rule: list_all2_induct)
  case (Cons a as b bs)
  from pair_sound_keys [OF Cons.hyps(1) assms(2-)] obtain v w where
    vw: "slot_lookup l a = Inr v" "slot_lookup r b = Inr w" "v \<noteq> VNull" "w \<noteq> VNull"
      "\<not> value_is_nan v" "\<not> value_is_nan w" "grouping_value_equal v w" by blast
  from Cons.IH obtain kl kr where "list_all2 (\<lambda>s v. slot_lookup l s = Inr v \<and> v \<noteq> VNull) as kl"
      "list_all2 (\<lambda>s v. slot_lookup r s = Inr v \<and> v \<noteq> VNull) bs kr"
      "\<not> key_contains_nan kl" "\<not> key_contains_nan kr" "grouping_keys_equal kr kl" by blast
  then show ?case using vw grouping_value_sym [OF vw(7)]
    by (intro exI [of _ "v # kl"] exI [of _ "w # kr"]) (simp add: key_contains_nan_def grouping_keys_equal_iff)
qed (auto simp: key_contains_nan_def grouping_keys_equal_def)

subsection \<open>The hash index of the right rows\<close>

fun index_entries :: "QuerySlot list \<Rightarrow> nat \<Rightarrow> SlotRow list \<Rightarrow> (Value list \<times> nat) list" where
  "index_entries slots i [] = []"
| "index_entries slots i (row # rows) =
     (case join_key row slots of
        Inr (Some k) \<Rightarrow> if key_contains_nan k then [] else [(k, i)]
      | _ \<Rightarrow> []) @ index_entries slots (i + 1) rows"

lemma build_right_index_entries:
  "\<forall>r \<in> set rows. \<exists>key. join_key r slots = Inr key \<Longrightarrow>
   build_right_index h slots i rows index =
     Inr (fold (\<lambda>(k, i). index_push (value_key_hash h) grouping_keys_equal k i) (index_entries slots i rows) index)"
proof (induction rows arbitrary: i index)
  case (Cons r rows)
  then obtain key where "join_key r slots = Inr key" by auto
  then show ?case using Cons by (cases key) auto
qed simp

lemma index_entries_ok: "\<forall>(k, i) \<in> set (index_entries slots n rows). \<not> key_contains_nan k"
  by (induction slots n rows rule: index_entries.induct) (auto split: sum.splits option.splits)

definition key_matches :: "QuerySlot list \<Rightarrow> Value list \<Rightarrow> SlotRow \<Rightarrow> bool" where
  "key_matches slots key row \<longleftrightarrow>
     (case join_key row slots of Inr (Some k) \<Rightarrow> \<not> key_contains_nan k \<and> grouping_keys_equal k key | _ \<Rightarrow> False)"

lemma index_entries_rows:
  "map (\<lambda>(k, i). (pre @ rows) ! i) (filter (\<lambda>(k, i). grouping_keys_equal k key) (index_entries slots (length pre) rows))
     = filter (key_matches slots key) rows"
proof (induction rows arbitrary: pre)
  case (Cons r rows)
  show ?case using Cons [of "pre @ [r]"]
    by (auto simp: key_matches_def split: sum.splits option.splits)
qed simp

definition probe_rows :: "QuerySlot list \<Rightarrow> QuerySlot list \<Rightarrow> SlotRow list \<Rightarrow> SlotRow \<Rightarrow> SlotRow list" where
  "probe_rows ls rs rights left =
     (case join_key left ls of
        Inr (Some k) \<Rightarrow> if key_contains_nan k then [] else filter (key_matches rs k) rights
      | _ \<Rightarrow> [])"

lemma hash_find_rows:
  assumes "\<not> key_contains_nan k"
  shows "map (\<lambda>i. f (rights ! i)) (case hash_find (value_key_hash h) grouping_keys_equal
        (fold (\<lambda>(k, i). index_push (value_key_hash h) grouping_keys_equal k i) (index_entries rs 0 rights) []) k of
        None \<Rightarrow> [] | Some indexes \<Rightarrow> indexes) = map f (filter (key_matches rs k) rights)"
proof -
  let ?e = "filter (\<lambda>(k', i). grouping_keys_equal k' k) (index_entries rs 0 rights)"
  have "map f (filter (key_matches rs k) rights) = map (\<lambda>(k, i). f (rights ! i)) ?e"
    using arg_cong [OF index_entries_rows [of "[]" rights k rs], of "map f"] by (simp add: case_prod_unfold comp_def)
  then show ?thesis
    using value_keys.hash_find_pushes [OF index_entries_ok assms, of h rs 0 rights]
    by (auto simp: Let_def case_prod_unfold comp_def)
qed

lemma probe_rows_filter:
  "probe_rows ls rs rights l = filter (\<lambda>r. case join_key l ls of
     Inr (Some k) \<Rightarrow> \<not> key_contains_nan k \<and> key_matches rs k r | _ \<Rightarrow> False) rights"
  by (simp add: probe_rows_def split: sum.splits option.splits)

lemma filter_self: "xs = filter Q ys \<Longrightarrow> xs = filter (\<lambda>r. r \<in> set xs) ys"
  by (auto intro: filter_cong)

lemma probe_limited:
  assumes evals: "\<forall>l \<in> set lefts. \<forall>r \<in> set rights. \<exists>b. evaluate_predicate condition (l @ r) = Inr b"
    and keys: "\<forall>l \<in> set lefts. \<exists>key. join_key l ls = Inr key"
    and complete: "\<forall>l \<in> set lefts. \<forall>r \<in> set rights. holds condition (l @ r) \<longrightarrow> r \<in> set (probe_rows ls rs rights l)"
    and "length joined \<le> limit"
  shows "probe_left_rows h condition limit ls
      (fold (\<lambda>(k, i). index_push (value_key_hash h) grouping_keys_equal k i) (index_entries rs 0 rights) [])
      rights lefts joined =
    limited limit (joined @ filter (holds condition) (concat (map (\<lambda>l. map (\<lambda>r. l @ r) rights) lefts)))"
  using assms
proof (induction lefts arbitrary: joined)
  case (Cons l lefts)
  let ?c = "map (\<lambda>r. l @ r) (probe_rows ls rs rights l)"
  have sub: "probe_rows ls rs rights l = filter (\<lambda>r. r \<in> set (probe_rows ls rs rights l)) rights"
    by (rule filter_self) (rule probe_rows_filter)
  have "filter (holds condition) ?c = filter (holds condition) (map (\<lambda>r. l @ r) rights)"
    using Cons.prems(3) by (subst sub) (auto simp: filter_map comp_def intro!: arg_cong [of _ _ "map _"] filter_cong)
  moreover have "\<forall>c \<in> set ?c. \<exists>b. evaluate_predicate condition c = Inr b"
    using Cons.prems(1) by (subst sub) auto
  ultimately have p: "push_matches condition limit ?c joined =
      limited limit (joined @ filter (holds condition) (map (\<lambda>r. l @ r) rights))"
    using Cons.prems(4) by (simp add: push_matches_limited)
  obtain key where key: "join_key l ls = Inr key" using Cons.prems(2) by auto
  have "probe_left_rows h condition limit ls
      (fold (\<lambda>(k, i). index_push (value_key_hash h) grouping_keys_equal k i) (index_entries rs 0 rights) [])
      rights (l # lefts) joined =
    bind_result (push_matches condition limit ?c joined) (probe_left_rows h condition limit ls
      (fold (\<lambda>(k, i). index_push (value_key_hash h) grouping_keys_equal k i) (index_entries rs 0 rights) []) rights lefts)"
  proof (cases key)
    case (Some k)
    then show ?thesis using key hash_find_rows [of k "\<lambda>r. l @ r" rights h rs]
      by (simp add: Let_def merge_disjoint_rows_def probe_rows_def)
  qed (simp add: key probe_rows_def)
  then show ?case using Cons p by (auto simp: limited_def)
qed (simp add: limited_def)

lemma holds_eval_ref: "holds condition row \<Longrightarrow> eval_ref condition row = Inr (VBool True)"
proof -
  assume "holds condition row"
  then obtain v where "evaluate_impl condition row 0 = Inr v" "to_truth_value v = Inr TTrue"
    by (auto simp: holds_def evaluate_predicate_def result_simps)
  then show ?thesis by (cases v) (auto simp: evaluate_impl_Inr_iff split: if_splits)
qed

lemma row_conforms_append: "row_conforms pl l \<Longrightarrow> row_conforms pr r \<Longrightarrow> row_conforms (pl @ pr) (l @ r)"
  by (simp add: row_conforms_def list_all2_appendI)

lemma collect_slots:
  "set (ek_left_slots (collect_equi_join_pairs condition ls rs types plan)) \<subseteq> set ls \<union> set (ek_left_slots plan)
   \<and> set (ek_right_slots (collect_equi_join_pairs condition ls rs types plan)) \<subseteq> set rs \<union> set (ek_right_slots plan)"
proof (induction condition ls rs types plan rule: collect_equi_join_pairs.induct)
  case (1 logic lhs rhs ls rs types plan)
  then show ?case by (cases lhs; cases rhs) (auto simp: Let_def, blast+)
next
  case (2 a b ls rs types plan)
  then show ?case by (auto simp: collect_column_pair_def contains_slot_def Let_def split: option.splits if_splits)
qed auto

lemma validated_holds_total:
  assumes "validate_predicate condition proto = None" "row_conforms proto row"
  shows "\<exists>b. evaluate_predicate condition row = Inr b"
proof -
  obtain t where t: "validate_impl condition row 0 = Inr t" "t = EBool \<or> t = ENull"
    using validate_predicate_conforms [OF assms] by (auto simp: validate_predicate_def split: sum.splits if_splits)
  then obtain v where "evaluate_impl condition row 0 = Inr v" "conforms t v" using validate_impl_sound by blast
  then show ?thesis using t(2) by (cases v) (auto simp: evaluate_predicate_def conforms_def)
qed

lemma slot_in_proto:
  assumes "distinct (slots_of proto)" "s \<in> set (slots_of proto)"
  shows "\<exists>p. slot_lookup proto s = Inr p"
proof -
  from assms(2) obtain e where "sv_slot_id e = s" "e \<in> set proto" by auto
  then have "lookup_value proto s = Inr (sv_value e)"
    unfolding lookup_value_distinct [OF assms(1)] by (cases e) auto
  then show ?thesis by (auto simp: slot_lookup_iff)
qed

subsection \<open>The join operator meets its specification\<close>

lemma execute_join_spec:
  assumes lefts: "\<forall>l \<in> set lefts. row_conforms pl l" and rights: "\<forall>r \<in> set rights. row_conforms pr r"
    and d: "distinct (slots_of (pl @ pr))" and valid: "validate_predicate condition (pl @ pr) = None"
    and types: "types_agree types pl" "types_agree types pr"
  shows "execute_join h limit types condition lefts rights = join_spec condition limit lefts rights"
proof (cases "lefts = [] \<or> rights = []")
  case True
  then have none: "concat (map (\<lambda>l. map (\<lambda>r. l @ r) rights) lefts) = []" by auto
  show ?thesis using True unfolding execute_join_def join_spec_def limited_def none by simp
next
  case False
  define plan where "plan = collect_equi_join_pairs condition (slots_of pl) (slots_of pr) types
    \<lparr>ek_left_slots = [], ek_right_slots = []\<rparr>"
  have hds: "row_conforms pl (hd lefts)" "row_conforms pr (hd rights)" using lefts rights False by simp_all
  note slots = row_conforms_slots [OF hds(1)] row_conforms_slots [OF hds(2)]
  have "slot_sets_disjoint (hd lefts) (hd rights) \<longleftrightarrow> set (slots_of (hd lefts)) \<inter> set (slots_of (hd rights)) = {}"
    by (auto simp: slot_sets_disjoint_def list_all_iff)
  then have disj: "slot_sets_disjoint (hd lefts) (hd rights)"
    using d unfolding slots map_append distinct_append by blast
  have evals: "\<forall>l \<in> set lefts. \<forall>r \<in> set rights. \<exists>b. evaluate_predicate condition (l @ r) = Inr b"
    using validated_holds_total [OF valid row_conforms_append] lefts rights by blast
  have plan_slots: "set (ek_left_slots plan) \<subseteq> set (slots_of pl)" "set (ek_right_slots plan) \<subseteq> set (slots_of pr)"
    using collect_slots [of condition "slots_of pl" "slots_of pr" types "\<lparr>ek_left_slots = [], ek_right_slots = []\<rparr>"]
    unfolding plan_def [symmetric] by simp_all
  have keys: "\<forall>l \<in> set lefts. \<exists>key. join_key l (ek_left_slots plan) = Inr key"
    "\<forall>r \<in> set rights. \<exists>key. join_key r (ek_right_slots plan) = Inr key"
    using join_key_total slot_in_proto [of pl] slot_in_proto [of pr] plan_slots lefts rights d
    by (simp_all only: map_append distinct_append) blast+
  have "r \<in> set (probe_rows (ek_left_slots plan) (ek_right_slots plan) rights l)"
    if lr: "l \<in> set lefts" "r \<in> set rights" "holds condition (l @ r)" for l r
  proof -
    have "plan_sound (slots_of pl) (slots_of pr) types (l @ r) plan"
      unfolding plan_def by (rule collect_sound [OF holds_eval_ref [OF lr(3)]]) (simp add: plan_sound_def)
    from plan_sound_keys [OF this _ _ d types] lefts rights lr(1,2)
    show ?thesis using lr(2) by (auto simp: probe_rows_def key_matches_def)
  qed
  with probe_limited [OF evals keys(1), of "ek_right_slots plan" "[]" limit h]
  have "probe_left_rows h condition limit (ek_left_slots plan)
      (fold (\<lambda>(k, i). index_push (value_key_hash h) grouping_keys_equal k i) (index_entries (ek_right_slots plan) 0 rights) [])
      rights lefts [] = join_spec condition limit lefts rights" by (simp add: join_spec_def)
  moreover have "nested_loop_join condition limit rights lefts [] = join_spec condition limit lefts rights"
    using nested_loop_limited [OF evals, of "[]" limit] by (simp add: join_spec_def)
  ultimately show ?thesis using False disj build_right_index_entries [OF keys(2)]
    by (simp add: execute_join_def slot_ids_of_def slots plan_def [symmetric] Let_def)
qed

lemma slot_lookup_bound:
  "distinct (slots_of row) \<Longrightarrow> (\<exists>v. slot_lookup row s = Inr v) \<longleftrightarrow> s \<in> set (slots_of row)"
  using slot_in_proto by (force simp: slot_lookup_iff lookup_value_distinct)

lemma merge_slot_loop_Inr:
  "distinct (slots_of merged) \<Longrightarrow>
   merge_slot_loop merged right = Inr m \<longleftrightarrow> distinct (slots_of (merged @ right)) \<and> m = merged @ right"
proof (induction merged right rule: merge_slot_loop.induct)
  case (2 merged v right)
  show ?case
  proof (cases "slot_lookup merged (sv_slot_id v)")
    case (Inl e)
    then have "sv_slot_id v \<notin> set (slots_of merged)" using slot_lookup_bound [OF "2.prems", of "sv_slot_id v"] by auto
    then show ?thesis using 2 Inl by simp
  next
    case (Inr w)
    then have "sv_slot_id v \<in> set (slots_of merged)" using slot_lookup_bound [OF "2.prems", of "sv_slot_id v"] by auto
    then show ?thesis using Inr by auto
  qed
qed auto

lemma merge_slot_rows_Inr:
  "distinct (slots_of left) \<Longrightarrow>
   merge_slot_rows left right = Inr m \<longleftrightarrow> distinct (slots_of (left @ right)) \<and> m = left @ right"
  by (simp only: merge_slot_rows_def merge_slot_loop_Inr)

subsection \<open>Properties of the join operator\<close>

text \<open>
  C20: the join operator computes the join. For inputs that conform to their validation rows, a condition that
  validates against the merged validation row and a type table that agrees with both, the result (by the
  hash join or by the nested loop) is the list of all merged pairs that satisfy the condition, left
  rows outermost and right rows in order, or the limit error exactly when there are more than the limit.
\<close>

theorem join_operator_correct:
  assumes "\<forall>l \<in> set lefts. row_conforms pl l" "\<forall>r \<in> set rights. row_conforms pr r"
    and "distinct (slots_of pl)" "merge_slot_rows pl pr = Inr merged"
    and "validate_predicate condition merged = None"
    and "types_agree types merged"
  shows "execute_join h limit types condition lefts rights =
    (let rows = filter (\<lambda>row. evaluate_predicate condition row = Inr True)
           (concat (map (\<lambda>l. map (\<lambda>r. l @ r) rights) lefts))
     in if length rows \<le> limit then Inr rows else Inl (join_limit_error limit))"
proof -
  have m: "distinct (slots_of (pl @ pr))" "merged = pl @ pr"
    using assms(4) merge_slot_rows_Inr [OF assms(3)] by blast+
  show ?thesis
    using execute_join_spec [OF assms(1,2) m(1), of condition types h limit] assms(5,6)
    by (simp add: m(2) types_agree_def join_spec_def limited_def holds_def [abs_def] Let_def)
qed

definition demo_hash :: StdHash where
  "demo_hash = \<lparr>sh_int32 = \<lambda>_. 0, sh_int64 = id, sh_double = id, sh_bool = \<lambda>_. 1, sh_string = \<lambda>_. 2\<rparr>"

theorem join_operator_correct_witness:
  "execute_join demo_hash 10 [\<lparr>sv_slot_id = 0, sv_value = VInt 0\<rparr>, \<lparr>sv_slot_id = 1, sv_value = VInt 0\<rparr>]
      (Binary (Cmp kEq) (Some (ColumnRef 0)) (Some (ColumnRef 1)))
      [[\<lparr>sv_slot_id = 0, sv_value = VInt 4\<rparr>], [\<lparr>sv_slot_id = 0, sv_value = VNull\<rparr>]]
      [[\<lparr>sv_slot_id = 1, sv_value = VInt 5\<rparr>], [\<lparr>sv_slot_id = 1, sv_value = VInt 4\<rparr>]]
    = Inr [[\<lparr>sv_slot_id = 0, sv_value = VInt 4\<rparr>, \<lparr>sv_slot_id = 1, sv_value = VInt 4\<rparr>]]"
proof (subst join_operator_correct [where pl = "[\<lparr>sv_slot_id = 0, sv_value = VInt 0\<rparr>]"
      and pr = "[\<lparr>sv_slot_id = 1, sv_value = VInt 0\<rparr>]"
      and merged = "[\<lparr>sv_slot_id = 0, sv_value = VInt 0\<rparr>, \<lparr>sv_slot_id = 1, sv_value = VInt 0\<rparr>]"])
  show "validate_predicate (Binary (Cmp kEq) (Some (ColumnRef 0)) (Some (ColumnRef 1)))
      [\<lparr>sv_slot_id = 0, sv_value = VInt 0\<rparr>, \<lparr>sv_slot_id = 1, sv_value = VInt 0\<rparr>] = None" by code_simp
  show "merge_slot_rows [\<lparr>sv_slot_id = 0, sv_value = VInt 0\<rparr>] [\<lparr>sv_slot_id = 1, sv_value = VInt 0\<rparr>]
      = Inr [\<lparr>sv_slot_id = 0, sv_value = VInt 0\<rparr>, \<lparr>sv_slot_id = 1, sv_value = VInt 0\<rparr>]" by code_simp
  show "(let rows = filter (\<lambda>row. evaluate_predicate (Binary (Cmp kEq) (Some (ColumnRef 0)) (Some (ColumnRef 1))) row = Inr True)
           (concat (map (\<lambda>l. map (\<lambda>r. l @ r) [[\<lparr>sv_slot_id = 1, sv_value = VInt 5\<rparr>], [\<lparr>sv_slot_id = 1, sv_value = VInt 4\<rparr>]])
             [[\<lparr>sv_slot_id = 0, sv_value = VInt 4\<rparr>], [\<lparr>sv_slot_id = 0, sv_value = VNull\<rparr>]]))
     in if length rows \<le> 10 then Inr rows else Inl (join_limit_error 10))
    = Inr [[\<lparr>sv_slot_id = 0, sv_value = VInt 4\<rparr>, \<lparr>sv_slot_id = 1, sv_value = VInt 4\<rparr>]]" by code_simp
qed (simp_all add: row_conforms_def value_fits_def types_agree_def find_slot_type_value_def)

end
