(* ===== verification/Row_Sort.thy ===== *)
theory Row_Sort
  imports Slots
begin

text \<open>
  The sort operator of \<open>src/core/executor.cpp\<close>: the order on values, the preparation of the rows, which
  rejects keys that cannot be ordered, and the stable sort with NULLs last. \<open>std::get\<close> on the wrong
  alternative throws; that is \<open>None\<close> in \<open>compare_sort_values\<close>.
\<close>

subsection \<open>The order on values\<close>

datatype SortValueFamily = kNumericFamily | kBooleanFamily | kVarcharFamily

fun sort_value_family :: "Value \<Rightarrow> SortValueFamily" where
  "sort_value_family (VInt _) = kNumericFamily"
| "sort_value_family (VBigInt _) = kNumericFamily"
| "sort_value_family (VDouble _) = kNumericFamily"
| "sort_value_family (VBool _) = kBooleanFamily"
| "sort_value_family _ = kVarcharFamily"

fun is_finite_sort_value :: "Value \<Rightarrow> bool" where
  "is_finite_sort_value (VDouble number) = isfinite number"
| "is_finite_sort_value _ = True"

fun sort_numeric_double :: "Value \<Rightarrow> u64 option" where
  "sort_numeric_double (VDouble number) = Some number"
| "sort_numeric_double (VBigInt integer) = Some (double_of_int (sint integer))"
| "sort_numeric_double (VInt integer) = Some (double_of_int (sint integer))"
| "sort_numeric_double _ = None"

text \<open>\<open>std::string::operator<\<close>: lexicographic, byte by byte, bytes unsigned.\<close>

fun text_less :: "string \<Rightarrow> string \<Rightarrow> bool" where
  "text_less xs [] = False"
| "text_less [] (y # ys) = True"
| "text_less (x # xs) (y # ys) =
     ((of_char x :: nat) < of_char y \<or> (x = y \<and> text_less xs ys))"

definition three_way :: "bool \<Rightarrow> bool \<Rightarrow> int" where
  "three_way lhs_less rhs_less = (if lhs_less then - 1 else if rhs_less then 1 else 0)"

definition compare_sort_values :: "Value \<Rightarrow> Value \<Rightarrow> int option" where
  "compare_sort_values lhs rhs =
     (if runtime_type lhs = Some kDouble \<or> runtime_type rhs = Some kDouble then
        (case (sort_numeric_double lhs, sort_numeric_double rhs) of
           (Some lhs_number, Some rhs_number) \<Rightarrow>
             Some (three_way (double_lt lhs_number rhs_number) (double_lt rhs_number lhs_number))
         | _ \<Rightarrow> None)
      else case integer_value lhs of
        Some lhs_integer \<Rightarrow>
          (case integer_value rhs of
             Some rhs_integer \<Rightarrow> Some (three_way (lhs_integer < rhs_integer) (rhs_integer < lhs_integer))
           | None \<Rightarrow> None)
      | None \<Rightarrow>
          (case (lhs, rhs) of
             (VBool lhs_boolean, VBool rhs_boolean) \<Rightarrow>
               Some (if lhs_boolean = rhs_boolean then 0 else if lhs_boolean then 1 else - 1)
           | (VText lhs_text, VText rhs_text) \<Rightarrow>
               Some (three_way (text_less lhs_text rhs_text) (text_less rhs_text lhs_text))
           | _ \<Rightarrow> None))"

subsection \<open>Preparing the rows\<close>

record SortableRow =
  so_row :: SlotRow
  so_keys :: "Value list"

text \<open>The keys of one row, with the family every key column has had so far.\<close>

fun prepare_keys ::
  "SlotRow \<Rightarrow> SortKey list \<Rightarrow> SortValueFamily option list \<Rightarrow>
     (Error, Value list \<times> SortValueFamily option list) result" where
  "prepare_keys row (key # keys) (family # families) =
     bind_result (slot_lookup row (sk_slot_id key)) (\<lambda>value.
       if \<not> is_finite_sort_value value then
         Inl (make_error kInternal ''sort key contains a non-finite DOUBLE value'')
       else if value \<noteq> VNull \<and> family \<noteq> None \<and> family \<noteq> Some (sort_value_family value) then
         Inl (make_error kInternal ''sort key contains values from incompatible type families'')
       else bind_result (prepare_keys row keys families) (\<lambda>(values, families').
         Inr (value # values,
           (if value = VNull then family else Some (sort_value_family value)) # families')))"
| "prepare_keys row _ _ = Inr ([], [])"

fun prepare_rows ::
  "SortKey list \<Rightarrow> SortValueFamily option list \<Rightarrow> SlotRow list \<Rightarrow> (Error, SortableRow list) result" where
  "prepare_rows keys families [] = Inr []"
| "prepare_rows keys families (row # rows) =
     bind_result (prepare_keys row keys families) (\<lambda>(values, families').
     bind_result (prepare_rows keys families' rows) (\<lambda>sortable.
     Inr (\<lparr>so_row = row, so_keys = values\<rparr> # sortable)))"

definition prepare_sort_rows :: "SlotRow list \<Rightarrow> SortKey list \<Rightarrow> (Error, SortableRow list) result" where
  "prepare_sort_rows rows keys = prepare_rows keys (replicate (length keys) None) rows"

subsection \<open>Sorting\<close>

text \<open>The comparator handed to \<open>std::stable_sort\<close>.\<close>

fun key_less :: "SortKey list \<Rightarrow> Value list \<Rightarrow> Value list \<Rightarrow> bool" where
  "key_less (key # keys) (lhs # lhs_keys) (rhs # rhs_keys) =
     (if lhs = VNull \<or> rhs = VNull then
        (if (lhs = VNull) \<noteq> (rhs = VNull) then lhs \<noteq> VNull else key_less keys lhs_keys rhs_keys)
      else case compare_sort_values lhs rhs of
        None \<Rightarrow> False
      | Some comparison \<Rightarrow>
          if comparison = 0 then key_less keys lhs_keys rhs_keys
          else if sk_direction key = kAsc then comparison < 0 else comparison > 0)"
| "key_less _ _ _ = False"

definition row_less :: "SortKey list \<Rightarrow> SortableRow \<Rightarrow> SortableRow \<Rightarrow> bool" where
  "row_less keys lhs rhs = key_less keys (so_keys lhs) (so_keys rhs)"

text \<open>\<open>std::stable_sort\<close>, as the insertion of each element before the sorted rest.\<close>

fun insert_stable :: "('a \<Rightarrow> 'a \<Rightarrow> bool) \<Rightarrow> 'a \<Rightarrow> 'a list \<Rightarrow> 'a list" where
  "insert_stable before x [] = [x]"
| "insert_stable before x (y # ys) = (if before y x then y # insert_stable before x ys else x # y # ys)"

definition stable_sort :: "('a \<Rightarrow> 'a \<Rightarrow> bool) \<Rightarrow> 'a list \<Rightarrow> 'a list" where
  "stable_sort before xs = foldr (insert_stable before) xs []"

definition sort_rows :: "SortableRow list \<Rightarrow> SortKey list \<Rightarrow> SortableRow list" where
  "sort_rows rows keys = stable_sort (row_less keys) rows"

text \<open>The sort node on the rows of its child.\<close>

definition execute_sort :: "SlotRow list \<Rightarrow> SortKey list \<Rightarrow> (Error, SlotRow list) result" where
  "execute_sort rows keys =
     bind_result (prepare_sort_rows rows keys) (\<lambda>sortable. Inr (map so_row (sort_rows sortable keys)))"

subsection \<open>Stable sorting for a strict weak order\<close>

locale strict_weak_order =
  fixes before :: "'a \<Rightarrow> 'a \<Rightarrow> bool" and carrier :: "'a set"
  assumes asym: "x \<in> carrier \<Longrightarrow> y \<in> carrier \<Longrightarrow> before x y \<Longrightarrow> \<not> before y x"
    and neg_trans: "x \<in> carrier \<Longrightarrow> y \<in> carrier \<Longrightarrow> z \<in> carrier \<Longrightarrow> \<not> before x y \<Longrightarrow> \<not> before y z \<Longrightarrow> \<not> before x z"
begin

lemma mset_insert_stable: "mset (insert_stable before x xs) = add_mset x (mset xs)"
  by (induction xs) auto

lemma mset_stable_sort: "mset (stable_sort before xs) = mset xs"
  by (induction xs) (simp_all add: stable_sort_def mset_insert_stable)

lemma set_insert_stable: "set (insert_stable before x xs) = insert x (set xs)"
  by (induction xs) auto

lemma sorted_insert_stable:
  "x \<in> carrier \<Longrightarrow> set xs \<subseteq> carrier \<Longrightarrow> sorted_wrt (\<lambda>a b. \<not> before b a) xs \<Longrightarrow>
   sorted_wrt (\<lambda>a b. \<not> before b a) (insert_stable before x xs)"
proof (induction xs)
  case (Cons y ys)
  show ?case
  proof (cases "before y x")
    case True
    then show ?thesis using Cons asym by (auto simp: set_insert_stable)
  next
    case False
    have "\<not> before z x" if "z \<in> set ys" for z
      using neg_trans [of z y x] that Cons.prems False by auto
    then show ?thesis using False Cons.prems by simp
  qed
qed simp

lemma sorted_stable_sort: "set xs \<subseteq> carrier \<Longrightarrow> sorted_wrt (\<lambda>a b. \<not> before b a) (stable_sort before xs)"
proof (induction xs)
  case (Cons x xs)
  moreover have "set (stable_sort before xs) \<subseteq> carrier"
    using Cons.prems mset_stable_sort [of xs] by (metis insert_subset list.simps(15) set_mset_mset)
  ultimately show ?case using sorted_insert_stable [of x "stable_sort before xs"] by (simp add: stable_sort_def)
qed (simp add: stable_sort_def)

text \<open>Elements that tie with each other keep their order.\<close>

lemma filter_insert_stable:
  assumes "\<And>a b. P a \<Longrightarrow> P b \<Longrightarrow> \<not> before a b"
  shows "filter P (insert_stable before x xs) = (if P x then x # filter P xs else filter P xs)"
  using assms by (induction xs) auto

lemma filter_stable_sort:
  assumes "\<And>a b. P a \<Longrightarrow> P b \<Longrightarrow> \<not> before a b"
  shows "filter P (stable_sort before xs) = filter P xs"
  by (induction xs) (simp_all add: stable_sort_def filter_insert_stable [OF assms])

end

subsection \<open>The comparator is a strict weak order\<close>

text \<open>Values one key column may hold after preparation: of one type, finite, or NULL.\<close>

definition orderable :: "Type \<Rightarrow> Value \<Rightarrow> bool" where
  "orderable t v \<longleftrightarrow> runtime_type v = Some t \<and> is_finite_sort_value v"

definition key_value :: "Type \<Rightarrow> Value \<Rightarrow> bool" where
  "key_value t v \<longleftrightarrow> v = VNull \<or> orderable t v"

definition value_before :: "Value \<Rightarrow> Value \<Rightarrow> bool" where
  "value_before v w \<longleftrightarrow> compare_sort_values v w = Some (- 1)"

lemma text_less_irrefl [simp]: "\<not> text_less xs xs"
  by (induction xs) auto

lemma text_less_asym: "text_less xs ys \<Longrightarrow> \<not> text_less ys xs"
  by (induction xs ys rule: text_less.induct) auto

lemma text_less_total: "\<not> text_less xs ys \<Longrightarrow> \<not> text_less ys xs \<Longrightarrow> xs = ys"
  by (induction xs ys rule: text_less.induct) (auto simp: not_less, metis neq_Nil_conv text_less.simps(2))

lemma text_less_trans: "text_less xs ys \<Longrightarrow> text_less ys zs \<Longrightarrow> text_less xs zs"
proof (induction xs ys arbitrary: zs rule: text_less.induct)
  case (3 x xs y ys)
  then show ?case by (cases zs) auto
next
  case (2 y ys)
  then show ?case by (cases zs) auto
qed simp

lemma three_way_simps [simp]:
  "three_way p q = - 1 \<longleftrightarrow> p" "three_way p q = 1 \<longleftrightarrow> \<not> p \<and> q" "three_way p q = 0 \<longleftrightarrow> \<not> p \<and> \<not> q"
  "three_way p q < 0 \<longleftrightarrow> p" "0 < three_way p q \<longleftrightarrow> \<not> p \<and> q"
  by (simp_all add: three_way_def)

lemma orderable_cases:
  "orderable t v \<Longrightarrow>
     (case t of
        kInt \<Rightarrow> \<exists>i. v = VInt i
      | kBigInt \<Rightarrow> \<exists>i. v = VBigInt i
      | kDouble \<Rightarrow> \<exists>d. v = VDouble d \<and> isfinite d
      | kBoolean \<Rightarrow> \<exists>b. v = VBool b
      | kVarchar \<Rightarrow> \<exists>s. v = VText s)"
  by (cases v; cases t) (auto simp: orderable_def)

lemma compare_typed_iff:
  "compare_sort_values (VInt i) (VInt j) = Some (three_way (sint i < sint j) (sint j < sint i))"
  "compare_sort_values (VBigInt i') (VBigInt j') = Some (three_way (sint i' < sint j') (sint j' < sint i'))"
  "compare_sort_values (VDouble d) (VDouble e) = Some (three_way (double_lt d e) (double_lt e d))"
  "compare_sort_values (VBool a) (VBool b) = Some (three_way (\<not> a \<and> b) (\<not> b \<and> a))"
  "compare_sort_values (VText s) (VText u) = Some (three_way (text_less s u) (text_less u s))"
  by (auto simp: compare_sort_values_def three_way_def)

lemma value_before_swo:
  assumes "orderable t u" "orderable t v" "orderable t w"
  shows "value_before u v \<Longrightarrow> \<not> value_before v u"
    and "\<not> value_before u v \<Longrightarrow> \<not> value_before v w \<Longrightarrow> \<not> value_before u w"
    and "compare_sort_values u v = Some (three_way (value_before u v) (value_before v u))"
proof -
  have text_neg: "\<not> text_less x y \<Longrightarrow> \<not> text_less y z \<Longrightarrow> \<not> text_less x z" for x y z
    using text_less_total text_less_trans by blast
  show "value_before u v \<Longrightarrow> \<not> value_before v u"
    using assms [THEN orderable_cases]
    by (cases t) (auto simp: value_before_def compare_typed_iff double_lt_def text_less_asym)
  show "\<not> value_before u v \<Longrightarrow> \<not> value_before v w \<Longrightarrow> \<not> value_before u w"
    using assms [THEN orderable_cases] text_neg isfinite_not_nan
    by (cases t) (auto simp: value_before_def compare_typed_iff double_lt_def)
  show "compare_sort_values u v = Some (three_way (value_before u v) (value_before v u))"
    using assms [THEN orderable_cases]
    by (cases t) (auto simp: value_before_def compare_typed_iff)
qed

text \<open>The order one key induces: direction applied, NULLs behind all values.\<close>

definition key_before :: "SortKey \<Rightarrow> Value \<Rightarrow> Value \<Rightarrow> bool" where
  "key_before key v w \<longleftrightarrow>
     (if v = VNull \<or> w = VNull then v \<noteq> VNull \<and> w = VNull
      else if sk_direction key = kAsc then value_before v w else value_before w v)"

lemma key_before_swo:
  assumes "key_value t u" "key_value t v" "key_value t w"
  shows "key_before key u v \<Longrightarrow> \<not> key_before key v u"
    and "\<not> key_before key u v \<Longrightarrow> \<not> key_before key v w \<Longrightarrow> \<not> key_before key u w"
proof -
  show "key_before key u v \<Longrightarrow> \<not> key_before key v u"
    using assms value_before_swo(1) [of t] unfolding key_value_def key_before_def by metis
  show "\<not> key_before key u v \<Longrightarrow> \<not> key_before key v w \<Longrightarrow> \<not> key_before key u w"
    using assms value_before_swo(2) [of t] unfolding key_value_def key_before_def by metis
qed

lemma key_less_Cons:
  assumes "key_value t v" "key_value t w"
  shows "key_less (key # keys) (v # vs) (w # ws) \<longleftrightarrow>
     key_before key v w \<or> \<not> key_before key w v \<and> key_less keys vs ws"
proof (cases "v = VNull \<or> w = VNull")
  case False
  then have "orderable t v" "orderable t w" using assms by (auto simp: key_value_def)
  from value_before_swo(1) [OF this this(1)] value_before_swo(3) [OF this this(1)] False
  show ?thesis by (auto simp: key_before_def)
qed (auto simp: key_before_def)

lemma key_less_swo:
  assumes "list_all2 key_value ts us" "list_all2 key_value ts vs" "list_all2 key_value ts ws"
  shows "key_less keys us vs \<Longrightarrow> \<not> key_less keys vs us"
    and "\<not> key_less keys us vs \<Longrightarrow> \<not> key_less keys vs ws \<Longrightarrow> \<not> key_less keys us ws"
proof -
  have "(key_less keys us vs \<longrightarrow> \<not> key_less keys vs us)
      \<and> (\<not> key_less keys us vs \<longrightarrow> \<not> key_less keys vs ws \<longrightarrow> \<not> key_less keys us ws)"
    using assms
  proof (induction keys arbitrary: ts us vs ws)
    case (Cons key keys)
    show ?case
    proof (cases ts)
      case (Cons t ts')
      then obtain u us' v vs' w ws' where eqs: "us = u # us'" "vs = v # vs'" "ws = w # ws'"
        and tl: "list_all2 key_value ts' us'" "list_all2 key_value ts' vs'" "list_all2 key_value ts' ws'"
        and hd: "key_value t u" "key_value t v" "key_value t w"
        using Cons.prems by (auto simp: list_all2_Cons1)
      note less = key_less_Cons [OF hd(1,2)] key_less_Cons [OF hd(2,1)]
        key_less_Cons [OF hd(2,3)] key_less_Cons [OF hd(1,3)]
      show ?thesis
        using Cons.IH [OF tl] key_before_swo [OF hd, of key] key_before_swo(1) [OF hd(2,1,1), of key]
          key_before_swo(1) [OF hd(2,3,3), of key] key_before_swo(1) [OF hd(1,3,3), of key]
          key_before_swo(2) [OF hd(3,2,1), of key] key_before_swo(2) [OF hd(2,3,1), of key]
          key_before_swo(2) [OF hd(3,1,2), of key] key_before_swo(2) [OF hd(2,1,3), of key]
          key_before_swo(2) [OF hd(1,3,2), of key]
        unfolding eqs less by argo
    qed (use Cons.prems in simp)
  qed simp
  then show "key_less keys us vs \<Longrightarrow> \<not> key_less keys vs us"
    and "\<not> key_less keys us vs \<Longrightarrow> \<not> key_less keys vs ws \<Longrightarrow> \<not> key_less keys us ws" by blast+
qed

interpretation row_order: strict_weak_order "row_less keys" "{r. list_all2 key_value ts (so_keys r)}" for keys ts
proof
  fix x y z :: SortableRow
  assume x: "x \<in> {r. list_all2 key_value ts (so_keys r)}" and y: "y \<in> {r. list_all2 key_value ts (so_keys r)}"
  show "row_less keys x y \<Longrightarrow> \<not> row_less keys y x"
    using key_less_swo(1) [of ts "so_keys x" "so_keys y" "so_keys y"] x y by (simp add: row_less_def)
  assume "z \<in> {r. list_all2 key_value ts (so_keys r)}"
  then show "\<not> row_less keys x y \<Longrightarrow> \<not> row_less keys y z \<Longrightarrow> \<not> row_less keys x z"
    using key_less_swo(2) [of ts "so_keys x" "so_keys y" "so_keys z"] x y by (simp add: row_less_def)
qed

subsection \<open>The sort operator\<close>

text \<open>The sort keys of a row.\<close>

definition row_keys :: "SortKey list \<Rightarrow> SlotRow \<Rightarrow> Value list" where
  "row_keys keys row = map (\<lambda>k. case slot_lookup row (sk_slot_id k) of Inl _ \<Rightarrow> VNull | Inr v \<Rightarrow> v) keys"

definition finite_keys :: "SortKey list \<Rightarrow> SlotRow \<Rightarrow> bool" where
  "finite_keys keys row \<longleftrightarrow> list_all is_finite_sort_value (row_keys keys row)"

definition non_finite :: Error where
  "non_finite = make_error kInternal ''sort key contains a non-finite DOUBLE value''"

lemma slot_lookup_conforms:
  "row_conforms proto row \<Longrightarrow> slot_lookup proto s = Inr v \<Longrightarrow> \<exists>w. slot_lookup row s = Inr w \<and> value_fits v w"
  using lookup_value_conforms by (simp add: slot_lookup_iff)

text \<open>The families seen so far are those of the static types.\<close>

definition families_ok :: "Value list \<Rightarrow> SortValueFamily option list \<Rightarrow> bool" where
  "families_ok ps fs \<longleftrightarrow> list_all2 (\<lambda>p f. f = None \<or> f = Some (sort_value_family p)) ps fs"

lemma family_fits: "value_fits p v \<Longrightarrow> v \<noteq> VNull \<Longrightarrow> sort_value_family v = sort_value_family p"
  by (cases p; cases v) (auto simp: value_fits_def)

lemma prepare_keys_typed:
  assumes "row_conforms proto row" "list_all2 (\<lambda>k p. slot_lookup proto (sk_slot_id k) = Inr p) keys ps"
    and "families_ok ps fs"
  shows "if finite_keys keys row then \<exists>fs'. prepare_keys row keys fs = Inr (row_keys keys row, fs') \<and> families_ok ps fs'
         else prepare_keys row keys fs = Inl non_finite"
  using assms(2,3)
proof (induction keys arbitrary: ps fs)
  case (Cons k keys)
  then obtain p ps' f fs' where ps: "ps = p # ps'" "fs = f # fs'" and p: "slot_lookup proto (sk_slot_id k) = Inr p"
    and rest: "list_all2 (\<lambda>k p. slot_lookup proto (sk_slot_id k) = Inr p) keys ps'" "families_ok ps' fs'"
    and f: "f = None \<or> f = Some (sort_value_family p)"
    by (auto simp: list_all2_Cons1 families_ok_def)
  obtain v where v: "slot_lookup row (sk_slot_id k) = Inr v" "value_fits p v"
    using slot_lookup_conforms [OF assms(1) p] by blast
  have "v \<noteq> VNull \<Longrightarrow> sort_value_family v = sort_value_family p" using family_fits [OF v(2)] .
  then show ?case using Cons.IH [OF rest] v(1) f
    by (auto simp: ps finite_keys_def row_keys_def families_ok_def non_finite_def split: if_splits)
qed (simp add: finite_keys_def row_keys_def families_ok_def)

lemma prepare_rows_typed:
  assumes "list_all2 (\<lambda>k p. slot_lookup proto (sk_slot_id k) = Inr p) keys ps"
  shows "\<forall>row \<in> set rows. row_conforms proto row \<Longrightarrow> families_ok ps fs \<Longrightarrow>
    prepare_rows keys fs rows =
      (if \<forall>row \<in> set rows. finite_keys keys row
       then Inr (map (\<lambda>row. \<lparr>so_row = row, so_keys = row_keys keys row\<rparr>) rows) else Inl non_finite)"
proof (induction rows arbitrary: fs)
  case (Cons row rows)
  then show ?case using prepare_keys_typed [OF _ assms, of row fs] by (auto split: if_splits)
qed simp

definition static_type :: "Value \<Rightarrow> Type" where
  "static_type p = (case runtime_type p of None \<Rightarrow> kInt | Some t \<Rightarrow> t)"

lemma row_keys_typed:
  assumes "row_conforms proto row" "list_all2 (\<lambda>k p. slot_lookup proto (sk_slot_id k) = Inr p) keys ps"
    and "finite_keys keys row"
  shows "list_all2 key_value (map static_type ps) (row_keys keys row)"
  using assms(2,3)
proof (induction rule: list_all2_induct)
  case (Cons k keys p ps)
  obtain v where "slot_lookup row (sk_slot_id k) = Inr v" "value_fits p v"
    using slot_lookup_conforms [OF assms(1) Cons.hyps(1)] by blast
  then show ?case using Cons
    by (auto simp: finite_keys_def row_keys_def key_value_def orderable_def static_type_def value_fits_def
          runtime_type_cases split: option.splits)
qed (simp add: row_keys_def)

definition keyed :: "SortKey list \<Rightarrow> SlotRow \<Rightarrow> SortableRow" where
  "keyed keys row = \<lparr>so_row = row, so_keys = row_keys keys row\<rparr>"

lemma keyed_simps [simp]: "so_row (keyed keys row) = row" "so_keys (keyed keys row) = row_keys keys row"
  by (simp_all add: keyed_def)

text \<open>Two rows tie when the comparator orders neither before the other.\<close>

definition ties :: "SortKey list \<Rightarrow> SlotRow \<Rightarrow> SlotRow \<Rightarrow> bool" where
  "ties keys a b \<longleftrightarrow> \<not> row_less keys (keyed keys a) (keyed keys b) \<and> \<not> row_less keys (keyed keys b) (keyed keys a)"

lemma sorted_keyed_rows:
  fixes keys rows ts
  defines "xs \<equiv> map (keyed keys) rows"
  assumes typed: "\<forall>row \<in> set rows. list_all2 key_value ts (row_keys keys row)"
  shows "mset (map so_row (stable_sort (row_less keys) xs)) = mset rows"
    and "sorted_wrt (\<lambda>a b. \<not> row_less keys (keyed keys b) (keyed keys a)) (map so_row (stable_sort (row_less keys) xs))"
    and "row \<in> set rows \<Longrightarrow>
      filter (ties keys row) (map so_row (stable_sort (row_less keys) xs)) = filter (ties keys row) rows"
proof -
  let ?C = "{r :: SortableRow. list_all2 key_value ts (so_keys r)}" and ?ys = "stable_sort (row_less keys) xs"
  have C: "set xs \<subseteq> ?C" using typed by (auto simp: xs_def)
  have ms: "mset ?ys = mset xs" by (rule row_order.mset_stable_sort)
  then have set: "set ?ys = keyed keys ` set rows" by (metis list.set_map set_mset_mset xs_def)
  have "mset (map so_row ?ys) = image_mset so_row (mset xs)" by (simp add: ms)
  then show "mset (map so_row ?ys) = mset rows" by (simp add: xs_def multiset.map_comp comp_def)
  have "sorted_wrt (\<lambda>a b. \<not> row_less keys b a) ?ys" by (rule row_order.sorted_stable_sort [OF C])
  then show "sorted_wrt (\<lambda>a b. \<not> row_less keys (keyed keys b) (keyed keys a)) (map so_row ?ys)"
    unfolding sorted_wrt_map by (rule sorted_wrt_mono_rel [rotated]) (auto simp: set)
  assume row: "row \<in> set rows"
  define P where "P = (\<lambda>a :: SortableRow. a \<in> ?C \<and> \<not> row_less keys a (keyed keys row) \<and> \<not> row_less keys (keyed keys row) a)"
  have rowC: "keyed keys row \<in> ?C" using typed row by auto
  have "\<not> row_less keys a b" if "P a" "P b" for a b
    using row_order.neg_trans [of a ts "keyed keys row" b keys] that rowC by (simp add: P_def)
  then have "filter P ?ys = filter P xs" by (rule row_order.filter_stable_sort)
  moreover have "filter (ties keys row \<circ> so_row) zs = filter P zs" if "set zs \<subseteq> keyed keys ` set rows" for zs
    using that typed by (intro filter_cong refl) (auto simp: P_def ties_def)
  ultimately have "filter (ties keys row) (map so_row ?ys) = filter (ties keys row) (map so_row xs)"
    using set by (simp add: filter_map xs_def [symmetric]) (simp add: xs_def)
  then show "filter (ties keys row) (map so_row ?ys) = filter (ties keys row) rows" by (simp add: xs_def comp_def)
qed

lemma execute_sort_spec:
  assumes "\<forall>row \<in> set rows. row_conforms proto row"
    and "\<forall>k \<in> set keys. \<exists>p. slot_lookup proto (sk_slot_id k) = Inr p"
  shows "if \<forall>row \<in> set rows. finite_keys keys row then
      \<exists>out. execute_sort rows keys = Inr out \<and> mset out = mset rows
        \<and> sorted_wrt (\<lambda>a b. \<not> row_less keys (keyed keys b) (keyed keys a)) out
        \<and> (\<forall>row \<in> set rows. filter (ties keys row) out = filter (ties keys row) rows)
    else execute_sort rows keys = Inl non_finite"
proof -
  obtain ps where ps: "list_all2 (\<lambda>k p. slot_lookup proto (sk_slot_id k) = Inr p) keys ps"
    using assms(2) by (induction keys) (auto simp: list_all2_Cons1)
  have "families_ok ps (replicate (length keys) None)"
    using list_all2_lengthD [OF ps] by (simp add: families_ok_def list_all2_conv_all_nth)
  from prepare_rows_typed [OF ps assms(1) this] row_keys_typed [OF _ ps] assms(1)
    sorted_keyed_rows [of rows "map static_type ps" keys]
  show ?thesis
    by (auto simp: execute_sort_def prepare_sort_rows_def sort_rows_def keyed_def [abs_def])
qed

subsection \<open>Properties of the sort operator\<close>



end
