(* ===== verification/Row_Aggregate.thy ===== *)
theory Row_Aggregate
  imports Value_Hash Row_Sort
begin

text \<open>
  The aggregate operator of \<open>src/core/executor.cpp\<close>: grouping by hashed keys and the five aggregate
  functions. The format of \<open>long double\<close> differs between platforms, so its operations are a parameter;
  the addition of two doubles is written out with IEEE-754 rounding to nearest even.
\<close>

subsection \<open>Arithmetic\<close>

text \<open>The double nearest to an integer multiple of \<open>2 ^ -1074\<close>; beyond the largest finite double, infinity.\<close>

definition double_of_scaled :: "int \<Rightarrow> u64" where
  "double_of_scaled n =
     (let m = \<bar>n\<bar>; len = bit_length m; sign = (if n < 0 then 2 ^ 63 else 0);
          bits = (if len \<le> 53 then m
                  else (int len - 53) * 2 ^ 52 + round_half_even m (len - 53));
          infinity = 2047 * 2 ^ 52
      in word_of_int (sign + min bits infinity))"

definition double_add :: "u64 \<Rightarrow> u64 \<Rightarrow> u64" where
  "double_add a b =
     (if isnan a \<or> isnan b then 0x7FF8000000000000
      else if \<not> isfinite a \<and> \<not> isfinite b then (if a = b then a else 0x7FF8000000000000)
      else if \<not> isfinite a then a
      else if \<not> isfinite b then b
      else
        let n = double_scaled a + double_scaled b in
        if n = 0 then (if double_negative a \<and> double_negative b then 2 ^ 63 else 0)
        else double_of_scaled n)"

record 'l LongDouble =
  ld_zero :: 'l
  ld_of_int64 :: "int \<Rightarrow> 'l"
  ld_of_double :: "u64 \<Rightarrow> 'l"
  ld_add :: "'l \<Rightarrow> 'l \<Rightarrow> 'l"
  ld_div :: "'l \<Rightarrow> 'l \<Rightarrow> 'l"
  ld_isfinite :: "'l \<Rightarrow> bool"
  ld_to_double :: "'l \<Rightarrow> u64"

definition checked_increment :: "u64 \<Rightarrow> (Error, u64) result" where
  "checked_increment value =
     (if sint value = 9223372036854775807 then Inl (make_error kExecute ''aggregate count overflow'')
      else Inr (value + 1))"

definition checked_add :: "u64 \<Rightarrow> u64 \<Rightarrow> (Error, u64) result" where
  "checked_add lhs rhs =
     (if (sint rhs > 0 \<and> sint lhs > 9223372036854775807 - sint rhs)
         \<or> (sint rhs < 0 \<and> sint lhs < - 9223372036854775808 - sint rhs)
      then Inl (make_error kExecute ''aggregate SUM overflow'')
      else Inr (lhs + rhs))"

subsection \<open>Aggregate functions\<close>

record 'l AggregateState =
  as_count :: u64
  as_value :: "Value option"
  as_average_sum :: 'l

record 'l AggregateGroup =
  ag_keys :: "Value list"
  ag_states :: "'l AggregateState list"

definition initial_state :: "'l LongDouble \<Rightarrow> 'l AggregateState" where
  "initial_state ld = \<lparr>as_count = 0, as_value = None, as_average_sum = ld_zero ld\<rparr>"

text \<open>\<open>std::get\<close> on another alternative throws; the exception ends the plan with an internal error.\<close>

definition bad_variant_access :: Error where
  "bad_variant_access = make_error kInternal ''bad_variant_access''"

definition accumulate_sum :: "AggregateCall \<Rightarrow> Value \<Rightarrow> 'l AggregateState \<Rightarrow> (Error, 'l AggregateState) result" where
  "accumulate_sum call input state =
     (if ac_output_type call = kDouble then
        (case input of
           VDouble number \<Rightarrow>
             bind_result (case as_value state of
                 None \<Rightarrow> Inr 0 | Some (VDouble current) \<Rightarrow> Inr current | Some _ \<Rightarrow> Inl bad_variant_access)
               (\<lambda>current.
                  let sum = double_add current number in
                  if \<not> isfinite sum
                  then Inl (make_error kExecute ''aggregate SUM produced a non-finite DOUBLE'')
                  else Inr (state\<lparr>as_value := Some (VDouble sum)\<rparr>))
         | _ \<Rightarrow> Inl (make_error kInternal ''aggregate SUM input type mismatch''))
      else
        bind_result (case input of
            VInt value \<Rightarrow> Inr (word_of_int (sint value))
          | VBigInt value \<Rightarrow> Inr value
          | _ \<Rightarrow> Inl (make_error kInternal ''aggregate SUM input type mismatch''))
        (\<lambda>operand.
          bind_result (case as_value state of
              None \<Rightarrow> Inr 0 | Some (VBigInt current) \<Rightarrow> Inr current | Some _ \<Rightarrow> Inl bad_variant_access)
          (\<lambda>current. bind_result (checked_add current operand) (\<lambda>sum.
             Inr (state\<lparr>as_value := Some (VBigInt sum)\<rparr>)))))"

definition accumulate_avg :: "'l LongDouble \<Rightarrow> Value \<Rightarrow> 'l AggregateState \<Rightarrow> (Error, 'l AggregateState) result" where
  "accumulate_avg ld input state =
     bind_result (case input of
         VInt value \<Rightarrow> Inr (ld_of_int64 ld (sint value))
       | VBigInt value \<Rightarrow> Inr (ld_of_int64 ld (sint value))
       | VDouble value \<Rightarrow> Inr (ld_of_double ld value)
       | _ \<Rightarrow> Inl (make_error kInternal ''aggregate AVG input type mismatch''))
     (\<lambda>operand. bind_result (checked_increment (as_count state)) (\<lambda>count.
        let sum = ld_add ld (as_average_sum state) operand in
        if \<not> ld_isfinite ld sum
        then Inl (make_error kExecute ''aggregate AVG produced a non-finite value'')
        else Inr (state\<lparr>as_count := count, as_average_sum := sum\<rparr>)))"

definition accumulate_extremum :: "AggregateKind \<Rightarrow> Value \<Rightarrow> 'l AggregateState \<Rightarrow> (Error, 'l AggregateState) result" where
  "accumulate_extremum kind input state =
     (case as_value state of
        None \<Rightarrow> Inr (state\<lparr>as_value := Some input\<rparr>)
      | Some current \<Rightarrow>
          (case compare_sort_values input current of
             None \<Rightarrow> Inl bad_variant_access
           | Some comparison \<Rightarrow>
               if (kind = kMin \<and> comparison < 0) \<or> (kind = kMax \<and> comparison > 0)
               then Inr (state\<lparr>as_value := Some input\<rparr>) else Inr state))"

definition accumulate_aggregate ::
  "'l LongDouble \<Rightarrow> AggregateCall \<Rightarrow> SlotRow \<Rightarrow> 'l AggregateState \<Rightarrow> (Error, 'l AggregateState) result" where
  "accumulate_aggregate ld call row state =
     bind_result (case ac_input_slot call of
         None \<Rightarrow> Inr None
       | Some slot \<Rightarrow> bind_result (slot_lookup row slot) (\<lambda>v. Inr (Some v)))
     (\<lambda>input.
        if ac_kind call = kCount then
          (if input = Some VNull then Inr state
           else bind_result (checked_increment (as_count state)) (\<lambda>count. Inr (state\<lparr>as_count := count\<rparr>)))
        else case input of
          None \<Rightarrow> Inr state
        | Some value \<Rightarrow>
            if value = VNull then Inr state
            else (case ac_kind call of
                kSum \<Rightarrow> accumulate_sum call value state
              | kAvg \<Rightarrow> accumulate_avg ld value state
              | kind \<Rightarrow> accumulate_extremum kind value state))"

definition finish_aggregate :: "'l LongDouble \<Rightarrow> AggregateCall \<Rightarrow> 'l AggregateState \<Rightarrow> (Error, Value) result" where
  "finish_aggregate ld call state =
     (if ac_kind call = kCount then Inr (VBigInt (as_count state))
      else if ac_kind call = kAvg then
        (if as_count state = 0 then Inr VNull
         else
           let average = ld_to_double ld (ld_div ld (as_average_sum state) (ld_of_int64 ld (sint (as_count state)))) in
           if \<not> isfinite average then Inl (make_error kExecute ''aggregate AVG produced a non-finite DOUBLE'')
           else Inr (VDouble average))
      else Inr (case as_value state of Some value \<Rightarrow> value | None \<Rightarrow> VNull))"

subsection \<open>Grouping\<close>

text \<open>All calls of the node on one row; the states are those of the row's group.\<close>

fun accumulate_all ::
  "'l LongDouble \<Rightarrow> AggregateCall list \<Rightarrow> SlotRow \<Rightarrow> 'l AggregateState list \<Rightarrow> (Error, 'l AggregateState list) result" where
  "accumulate_all ld (call # calls) row (state # states) =
     bind_result (accumulate_aggregate ld call row state) (\<lambda>state'.
     bind_result (accumulate_all ld calls row states) (\<lambda>states'. Inr (state' # states')))"
| "accumulate_all ld _ row _ = Inr []"

definition new_group :: "'l LongDouble \<Rightarrow> AggregateCall list \<Rightarrow> Value list \<Rightarrow> 'l AggregateGroup" where
  "new_group ld calls keys = \<lparr>ag_keys = keys, ag_states = replicate (length calls) (initial_state ld)\<rparr>"

text \<open>The position of a row's group, with the groups and the index after a group was added if needed.\<close>

definition locate_group ::
  "StdHash \<Rightarrow> 'l LongDouble \<Rightarrow> AggregateCall list \<Rightarrow> Value list \<Rightarrow>
     'l AggregateGroup list \<times> (Value list \<times> nat) list \<Rightarrow>
     nat \<times> 'l AggregateGroup list \<times> (Value list \<times> nat) list" where
  "locate_group h ld calls keys gi =
     (case gi of (groups, group_index) \<Rightarrow>
        let isolated = key_contains_nan keys;
            found = (if isolated then None else hash_find (value_key_hash h) grouping_keys_equal group_index keys)
        in case found of
             None \<Rightarrow> (length groups, groups @ [new_group ld calls keys],
                      if isolated then group_index else group_index @ [(keys, length groups)])
           | Some position \<Rightarrow> (position, groups, group_index))"

fun aggregate_rows ::
  "StdHash \<Rightarrow> 'l LongDouble \<Rightarrow> QuerySlot list \<Rightarrow> AggregateCall list \<Rightarrow> SlotRow list \<Rightarrow>
     'l AggregateGroup list \<times> (Value list \<times> nat) list \<Rightarrow> (Error, 'l AggregateGroup list) result" where
  "aggregate_rows h ld group_keys calls [] gi = Inr (fst gi)"
| "aggregate_rows h ld group_keys calls (row # rows) gi =
     bind_result
       (if group_keys = [] then Inr (0, gi)
        else bind_result (collect_results (slot_lookup row) group_keys) (\<lambda>keys. Inr (locate_group h ld calls keys gi)))
     (\<lambda>(position, groups, group_index).
        bind_result (accumulate_all ld calls row (ag_states (groups ! position))) (\<lambda>states.
          aggregate_rows h ld group_keys calls rows
            (groups[position := (groups ! position)\<lparr>ag_states := states\<rparr>], group_index)))"

definition group_output ::
  "'l LongDouble \<Rightarrow> QuerySlot list \<Rightarrow> AggregateCall list \<Rightarrow> 'l AggregateGroup \<Rightarrow> (Error, SlotRow) result" where
  "group_output ld group_keys calls grp =
     bind_result (collect_results (\<lambda>(call, state).
         bind_result (finish_aggregate ld call state) (\<lambda>value.
           Inr \<lparr>sv_slot_id = ac_output_slot call, sv_value = value\<rparr>)) (zip calls (ag_states grp)))
     (\<lambda>values. Inr (map (\<lambda>(slot, key). \<lparr>sv_slot_id = slot, sv_value = key\<rparr>) (zip group_keys (ag_keys grp)) @ values))"

text \<open>The aggregate node on the rows of its child.\<close>

definition execute_aggregate ::
  "StdHash \<Rightarrow> 'l LongDouble \<Rightarrow> QuerySlot list \<Rightarrow> AggregateCall list \<Rightarrow> SlotRow list \<Rightarrow> (Error, SlotRow list) result" where
  "execute_aggregate h ld group_keys calls rows =
     bind_result (aggregate_rows h ld group_keys calls rows
       (if group_keys = [] then [new_group ld calls []] else [], []))
     (collect_results (group_output ld group_keys calls))"

subsection \<open>Checked arithmetic\<close>

lemma sint_range_u64: "- 9223372036854775808 \<le> sint (w :: u64)" "sint (w :: u64) \<le> 9223372036854775807"
  using sint_greater_eq [of w] sint_less [of w] by simp_all

lemma sint_add_exact:
  "- 9223372036854775808 \<le> sint a + sint b \<Longrightarrow> sint a + sint b \<le> 9223372036854775807 \<Longrightarrow>
   sint (a + b :: u64) = sint a + sint b"
  by (simp add: sint_word_add signed_take_bit_int_eq_self)

lemma checked_add_cases:
  "checked_add a b =
     (if - 9223372036854775808 \<le> sint a + sint b \<and> sint a + sint b \<le> 9223372036854775807
      then Inr (a + b) else Inl (make_error kExecute ''aggregate SUM overflow''))"
  using sint_range_u64 [of a] sint_range_u64 [of b] by (auto simp: checked_add_def)

lemma sint_int32_widened: "sint (word_of_int (sint (i :: u32)) :: u64) = sint i"
proof -
  have "- 2147483648 \<le> sint i" "sint i < 2147483648" using sint_greater_eq [of i] sint_less [of i] by simp_all
  then show ?thesis unfolding sint_sbintrunc' by (intro signed_take_bit_int_eq_self) simp_all
qed

subsection \<open>One call over the rows of a group\<close>

fun accumulate_rows ::
  "'l LongDouble \<Rightarrow> AggregateCall \<Rightarrow> SlotRow list \<Rightarrow> 'l AggregateState \<Rightarrow> (Error, 'l AggregateState) result" where
  "accumulate_rows ld call [] state = Inr state"
| "accumulate_rows ld call (row # rows) state =
     bind_result (accumulate_aggregate ld call row state) (accumulate_rows ld call rows)"

definition aggregate_value :: "'l LongDouble \<Rightarrow> AggregateCall \<Rightarrow> SlotRow list \<Rightarrow> (Error, Value) result" where
  "aggregate_value ld call rows =
     bind_result (accumulate_rows ld call rows (initial_state ld)) (finish_aggregate ld call)"

fun fold_states ::
  "'l LongDouble \<Rightarrow> AggregateCall list \<Rightarrow> SlotRow list \<Rightarrow> 'l AggregateState list \<Rightarrow> (Error, 'l AggregateState list) result" where
  "fold_states ld calls [] states = Inr states"
| "fold_states ld calls (row # rows) states =
     bind_result (accumulate_all ld calls row states) (fold_states ld calls rows)"

lemma fold_states_append:
  "fold_states ld calls (rows @ rows') states = bind_result (fold_states ld calls rows states) (fold_states ld calls rows')"
  by (induction rows arbitrary: states) (auto simp: bind_result_def split: sum.splits)

lemma accumulate_all_Inr:
  "length states = length calls \<Longrightarrow>
   accumulate_all ld calls row states = Inr states' \<longleftrightarrow>
     length states' = length calls
     \<and> (\<forall>i < length calls. accumulate_aggregate ld (calls ! i) row (states ! i) = Inr (states' ! i))"
proof (induction calls arbitrary: states states')
  case (Cons call calls)
  then obtain s ss where s: "states = s # ss" "length ss = length calls" by (auto simp: length_Suc_conv)
  show ?case
  proof (cases states')
    case (Cons t ts)
    then show ?thesis using Cons.IH [OF s(2), of ts] by (auto simp: s(1) result_simps All_less_Suc2)
  qed (auto simp: s result_simps)
qed auto

lemma fold_states_Inr:
  "length states = length calls \<Longrightarrow>
   fold_states ld calls rows states = Inr states' \<longleftrightarrow>
     length states' = length calls
     \<and> (\<forall>i < length calls. accumulate_rows ld (calls ! i) rows (states ! i) = Inr (states' ! i))"
proof (induction rows arbitrary: states)
  case Nil
  then show ?case by (auto simp: list_eq_iff_nth_eq)
next
  case (Cons row rows)
  have "fold_states ld calls (row # rows) states = Inr states' \<longleftrightarrow>
      (\<exists>mid. accumulate_all ld calls row states = Inr mid \<and> fold_states ld calls rows mid = Inr states')"
    by (auto simp: result_simps)
  also have "\<dots> \<longleftrightarrow> length states' = length calls
      \<and> (\<forall>i < length calls. \<exists>m. accumulate_aggregate ld (calls ! i) row (states ! i) = Inr m
            \<and> accumulate_rows ld (calls ! i) rows m = Inr (states' ! i))" (is "?L \<longleftrightarrow> ?R")
  proof
    show "?L \<Longrightarrow> ?R" using Cons accumulate_all_Inr [OF Cons.prems] by blast
    assume R: ?R
    then obtain m where m: "\<forall>i < length calls. accumulate_aggregate ld (calls ! i) row (states ! i) = Inr (m i)
            \<and> accumulate_rows ld (calls ! i) rows (m i) = Inr (states' ! i)" by metis
    let ?mid = "map m [0..<length calls]"
    have "accumulate_all ld calls row states = Inr ?mid" using m accumulate_all_Inr [OF Cons.prems] by simp
    moreover have "fold_states ld calls rows ?mid = Inr states'" using m R Cons.IH [of ?mid] by simp
    ultimately show ?L by blast
  qed
  finally show ?case by (auto simp: result_simps)
qed

subsection \<open>The grouping meets a scan without a hash index\<close>

definition grouping_key :: "QuerySlot list \<Rightarrow> SlotRow \<Rightarrow> Value list" where
  "grouping_key group_keys row = map (\<lambda>s. case slot_lookup row s of Inl _ \<Rightarrow> VNull | Inr v \<Rightarrow> v) group_keys"

text \<open>Groups in order of first occurrence, each with its rows in order; a key with a NaN equals none.\<close>

fun add_row :: "Value list \<Rightarrow> SlotRow \<Rightarrow> (Value list \<times> SlotRow list) list \<Rightarrow> (Value list \<times> SlotRow list) list" where
  "add_row key row [] = [(key, [row])]"
| "add_row key row ((k, rows) # gs) =
     (if grouping_keys_equal k key then (k, rows @ [row]) # gs else (k, rows) # add_row key row gs)"

definition group_rows :: "QuerySlot list \<Rightarrow> SlotRow list \<Rightarrow> (Value list \<times> SlotRow list) list" where
  "group_rows group_keys rows =
     fold (\<lambda>row. add_row (grouping_key group_keys row) row) rows (if group_keys = [] then [([], [])] else [])"

fun first_pos :: "Value list \<Rightarrow> nat \<Rightarrow> Value list list \<Rightarrow> nat option" where
  "first_pos key n [] = None"
| "first_pos key n (k # ks) = (if grouping_keys_equal k key then Some n else first_pos key (Suc n) ks)"

fun index_of :: "nat \<Rightarrow> Value list list \<Rightarrow> (Value list \<times> nat) list" where
  "index_of n [] = []"
| "index_of n (k # ks) = (if key_contains_nan k then [] else [(k, n)]) @ index_of (Suc n) ks"

lemma nan_key_unequal: "key_contains_nan k \<Longrightarrow> \<not> grouping_keys_equal k l" "key_contains_nan k \<Longrightarrow> \<not> grouping_keys_equal l k"
proof -
  have "\<not> grouping_value_equal a b" "\<not> grouping_value_equal b a" if "value_is_nan a" for a b
    using that by (cases a; cases b; simp add: double_eq_def)+
  then show "key_contains_nan k \<Longrightarrow> \<not> grouping_keys_equal k l" "key_contains_nan k \<Longrightarrow> \<not> grouping_keys_equal l k"
    by (auto simp: grouping_keys_equal_iff list_all2_conv_all_nth key_contains_nan_def list_ex_iff in_set_conv_nth)
      blast+
qed

lemma index_of_snoc:
  "index_of n (ks @ [k]) = index_of n ks @ (if key_contains_nan k then [] else [(k, n + length ks)])"
  by (induction ks arbitrary: n) auto

lemma hash_find_index_of: "hash_find (value_key_hash h) grouping_keys_equal (index_of n ks) key = first_pos key n ks"
  unfolding value_keys.hash_find_eq by (induction ks arbitrary: n) (auto simp: nan_key_unequal)

lemma first_pos_Some:
  "first_pos key n (map fst gs) = Some p \<Longrightarrow> n \<le> p \<and> p - n < length gs
     \<and> add_row key row gs = gs[p - n := (fst (gs ! (p - n)), snd (gs ! (p - n)) @ [row])]"
proof (induction gs arbitrary: n)
  case (Cons g gs)
  show ?case
  proof (cases "grouping_keys_equal (fst g) key")
    case True
    then show ?thesis using Cons.prems by (cases g) auto
  next
    case False
    then have ih: "Suc n \<le> p" "p - Suc n < length gs"
        "add_row key row gs = gs[p - Suc n := (fst (gs ! (p - Suc n)), snd (gs ! (p - Suc n)) @ [row])]"
      using Cons by auto
    then have "p - n = Suc (p - Suc n)" by simp
    then show ?thesis using ih False by (cases g) auto
  qed
qed simp

lemma first_pos_None: "first_pos key n (map fst gs) = None \<Longrightarrow> add_row key row gs = gs @ [(key, [row])]"
  by (induction key row gs arbitrary: n rule: add_row.induct) (auto split: if_splits)

lemma add_row_keeps: "p < length gs \<Longrightarrow>
  p < length (add_row key row gs) \<and> (\<exists>more. add_row key row gs ! p = (fst (gs ! p), snd (gs ! p) @ more))"
proof (induction key row gs arbitrary: p rule: add_row.induct)
  case (2 key row k rows gs)
  then show ?case by (cases p) (auto, (metis append_Nil2 prod.collapse)+)
qed simp

lemma add_rows_keep: "p < length gs \<Longrightarrow>
  p < length (fold (\<lambda>row. add_row (f row) row) rows gs)
  \<and> (\<exists>more. fold (\<lambda>row. add_row (f row) row) rows gs ! p = (fst (gs ! p), snd (gs ! p) @ more))"
proof (induction rows arbitrary: gs)
  case (Cons row rows)
  from add_row_keeps [OF Cons.prems, of "f row" row] Cons.IH [of "add_row (f row) row gs"]
  show ?case by fastforce
qed (simp add: exI [of _ "[]"] prod_eq_iff)

definition group_rel ::
  "'l LongDouble \<Rightarrow> AggregateCall list \<Rightarrow> (Value list \<times> SlotRow list) list \<Rightarrow> 'l AggregateGroup list \<Rightarrow> bool" where
  "group_rel ld calls gs groups \<longleftrightarrow> list_all2 (\<lambda>(k, rows) g. ag_keys g = k
     \<and> fold_states ld calls rows (replicate (length calls) (initial_state ld)) = Inr (ag_states g)) gs groups"

lemma locate_group_step:
  assumes "group_rel ld calls gs groups" "index = index_of 0 (map fst gs)"
  shows "\<exists>p gs1 groups1. locate_group h ld calls key (groups, index) = (p, groups1, index_of 0 (map fst gs1))
    \<and> group_rel ld calls gs1 groups1 \<and> p < length gs1
    \<and> add_row key row gs = gs1[p := (fst (gs1 ! p), snd (gs1 ! p) @ [row])]"
proof -
  have found: "(if key_contains_nan key then None else hash_find (value_key_hash h) grouping_keys_equal index key)
      = first_pos key 0 (map fst gs)"
  proof -
    have "first_pos key n ks = None" if "key_contains_nan key" for n ks
      using that by (induction ks arbitrary: n) (auto simp: nan_key_unequal)
    then show ?thesis using assms(2) by (simp add: hash_find_index_of)
  qed
  have len: "length groups = length gs" using assms(1) by (simp add: group_rel_def list_all2_lengthD)
  show ?thesis
  proof (cases "first_pos key 0 (map fst gs)")
    case None
    let ?gs1 = "gs @ [(key, [])]"
    have "locate_group h ld calls key (groups, index) =
        (length gs, groups @ [new_group ld calls key], index_of 0 (map fst ?gs1))"
      by (simp only: locate_group_def Let_def prod.case found None option.case len) (simp add: index_of_snoc assms(2))
    moreover have "group_rel ld calls ?gs1 (groups @ [new_group ld calls key])"
      using assms(1) by (simp add: group_rel_def list_all2_appendI new_group_def)
    ultimately show ?thesis using first_pos_None [OF None, of row]
      by (intro exI [of _ "length gs"] exI [of _ ?gs1] exI [of _ "groups @ [new_group ld calls key]"]) simp
  next
    case (Some p)
    then have "locate_group h ld calls key (groups, index) = (p, groups, index_of 0 (map fst gs))"
      by (simp only: locate_group_def Let_def prod.case found Some option.case) (simp add: assms(2))
    then show ?thesis using first_pos_Some [OF Some, of row] assms(1) by auto
  qed
qed

text \<open>Accumulating one row into the group at a position.\<close>

lemma accumulate_step:
  assumes "group_rel ld calls gs groups" "p < length gs"
  shows "accumulate_all ld calls row (ag_states (groups ! p)) =
      fold_states ld calls (snd (gs ! p) @ [row]) (replicate (length calls) (initial_state ld))"
    and "accumulate_all ld calls row (ag_states (groups ! p)) = Inr states \<Longrightarrow>
      group_rel ld calls (gs[p := (fst (gs ! p), snd (gs ! p) @ [row])])
        (groups[p := (groups ! p)\<lparr>ag_states := states\<rparr>])"
proof -
  have g: "ag_keys (groups ! p) = fst (gs ! p)"
      "fold_states ld calls (snd (gs ! p)) (replicate (length calls) (initial_state ld)) = Inr (ag_states (groups ! p))"
    using list_all2_nthD [OF assms [unfolded group_rel_def]] by (auto simp: case_prod_unfold)
  have acc: "fold_states ld calls [row] st = accumulate_all ld calls row st" for st
    by (simp add: bind_result_def split: sum.splits)
  show eq: "accumulate_all ld calls row (ag_states (groups ! p)) =
      fold_states ld calls (snd (gs ! p) @ [row]) (replicate (length calls) (initial_state ld))"
    by (simp add: fold_states_append g acc del: fold_states.simps)
  assume "accumulate_all ld calls row (ag_states (groups ! p)) = Inr states"
  then show "group_rel ld calls (gs[p := (fst (gs ! p), snd (gs ! p) @ [row])])
        (groups[p := (groups ! p)\<lparr>ag_states := states\<rparr>])"
    using assms(1) eq g(1) by (auto simp: group_rel_def intro!: list_all2_update_cong)
qed

lemma group_rel_fails:
  assumes "p < length gs" "fold_states ld calls (snd (gs ! p)) (replicate (length calls) (initial_state ld)) = Inl e"
  shows "\<not> group_rel ld calls (fold (\<lambda>row. add_row (f row) row) rows gs) out"
proof
  assume rel: "group_rel ld calls (fold (\<lambda>row. add_row (f row) row) rows gs) out"
  obtain more where "p < length (fold (\<lambda>row. add_row (f row) row) rows gs)"
      "fold (\<lambda>row. add_row (f row) row) rows gs ! p = (fst (gs ! p), snd (gs ! p) @ more)"
    using add_rows_keep [OF assms(1)] by blast
  with list_all2_nthD [OF rel [unfolded group_rel_def]] show False by (fastforce simp: fold_states_append assms(2))
qed

lemma aggregate_rows_rel:
  assumes "\<forall>row \<in> set rows. collect_results (slot_lookup row) group_keys = Inr (grouping_key group_keys row)"
    and "group_rel ld calls gs groups"
    and "if group_keys = [] then \<exists>rs. gs = [([], rs)] else index = index_of 0 (map fst gs)"
  shows "aggregate_rows h ld group_keys calls rows (groups, index) = Inr out \<longleftrightarrow>
    group_rel ld calls (fold (\<lambda>row. add_row (grouping_key group_keys row) row) rows gs) out"
  using assms
proof (induction rows arbitrary: gs groups index)
  case Nil
  have "group_rel ld calls gs out \<longleftrightarrow> groups = out"
  proof
    assume "group_rel ld calls gs out"
    then show "groups = out" using Nil.prems(2)
      by (auto simp: group_rel_def list_all2_conv_all_nth case_prod_unfold intro!: nth_equalityI)
  qed (use Nil in auto)
  then show ?case by simp
next
  case (Cons row rows)
  let ?key = "grouping_key group_keys row"
  have "\<exists>p gs1 groups1 index1.
      (if group_keys = [] then Inr (0, groups, index)
       else bind_result (collect_results (slot_lookup row) group_keys) (\<lambda>keys. Inr (locate_group h ld calls keys (groups, index))))
        = Inr (p, groups1, index1)
    \<and> group_rel ld calls gs1 groups1 \<and> p < length gs1
    \<and> add_row ?key row gs = gs1[p := (fst (gs1 ! p), snd (gs1 ! p) @ [row])]
    \<and> (if group_keys = [] then \<exists>rs. gs1 = [([], rs)] else index1 = index_of 0 (map fst gs1))"
  proof (cases "group_keys = []")
    case True
    then obtain rs where "gs = [([], rs)]" using Cons.prems(3) by auto
    then show ?thesis using True Cons.prems(2)
      by (intro exI [of _ 0] exI [of _ gs] exI [of _ groups] exI [of _ index])
        (simp add: grouping_key_def grouping_keys_equal_def)
  next
    case False
    then show ?thesis using locate_group_step [OF Cons.prems(2), of index h ?key row] Cons.prems(1,3) by auto
  qed
  then obtain p gs1 groups1 index1 where
    loc: "(if group_keys = [] then Inr (0, groups, index)
       else bind_result (collect_results (slot_lookup row) group_keys) (\<lambda>keys. Inr (locate_group h ld calls keys (groups, index))))
        = Inr (p, groups1, index1)"
    and rel: "group_rel ld calls gs1 groups1" and p: "p < length gs1"
    and add: "add_row ?key row gs = gs1[p := (fst (gs1 ! p), snd (gs1 ! p) @ [row])]"
    and idx: "if group_keys = [] then \<exists>rs. gs1 = [([], rs)] else index1 = index_of 0 (map fst gs1)" by blast
  have fsts: "map fst (gs1[p := (fst (gs1 ! p), snd (gs1 ! p) @ [row])]) = map fst gs1"
    using p by (simp add: map_update) (metis list_update_id nth_map)
  show ?case
  proof (cases "accumulate_all ld calls row (ag_states (groups1 ! p))")
    case (Inl e)
    have "\<not> group_rel ld calls (fold (\<lambda>row. add_row (grouping_key group_keys row) row) rows (add_row ?key row gs)) out"
      by (rule group_rel_fails [of p _ _ _ e]) (use Inl p accumulate_step(1) [OF rel p] in \<open>simp_all add: add\<close>)
    then show ?thesis by (simp add: loc Inl)
  next
    case (Inr states)
    have idx': "if group_keys = [] then \<exists>rs. add_row ?key row gs = [([], rs)] else index1 = index_of 0 (map fst (add_row ?key row gs))"
      unfolding add using idx p by (auto simp: fsts)
    show ?thesis
      using Cons.IH [OF _ _ idx', of "groups1[p := (groups1 ! p)\<lparr>ag_states := states\<rparr>]"] Cons.prems(1)
        accumulate_step(2) [OF rel p Inr] by (simp add: loc Inr add)
  qed
qed

text \<open>The output row of a group, from the values of the calls over its rows.\<close>

definition group_row ::
  "'l LongDouble \<Rightarrow> QuerySlot list \<Rightarrow> AggregateCall list \<Rightarrow> Value list \<times> SlotRow list \<Rightarrow> SlotRow \<Rightarrow> bool" where
  "group_row ld group_keys calls g row \<longleftrightarrow>
     (\<exists>vals. list_all2 (\<lambda>call value. aggregate_value ld call (snd g) = Inr value) calls vals
        \<and> row = map (\<lambda>(slot, key). \<lparr>sv_slot_id = slot, sv_value = key\<rparr>) (zip group_keys (fst g))
                @ map (\<lambda>(call, value). \<lparr>sv_slot_id = ac_output_slot call, sv_value = value\<rparr>) (zip calls vals))"

lemma group_output_Inr:
  assumes "length (ag_states g) = length calls"
  shows "group_output ld group_keys calls g = Inr row \<longleftrightarrow>
    (\<exists>vals. length vals = length calls
       \<and> (\<forall>i < length calls. finish_aggregate ld (calls ! i) (ag_states g ! i) = Inr (vals ! i))
       \<and> row = map (\<lambda>(slot, key). \<lparr>sv_slot_id = slot, sv_value = key\<rparr>) (zip group_keys (ag_keys g))
            @ map (\<lambda>(call, value). \<lparr>sv_slot_id = ac_output_slot call, sv_value = value\<rparr>) (zip calls vals))"
    (is "?L \<longleftrightarrow> ?R")
proof
  assume ?L
  then obtain svs where svs: "length svs = length calls"
      "\<forall>i < length calls. \<exists>v. finish_aggregate ld (calls ! i) (ag_states g ! i) = Inr v
        \<and> svs ! i = \<lparr>sv_slot_id = ac_output_slot (calls ! i), sv_value = v\<rparr>"
    and row: "row = map (\<lambda>(slot, key). \<lparr>sv_slot_id = slot, sv_value = key\<rparr>) (zip group_keys (ag_keys g)) @ svs"
    using assms by (fastforce simp: group_output_def result_simps collect_results_Inr_iff list_all2_conv_all_nth)
  have "svs = map (\<lambda>(call, value). \<lparr>sv_slot_id = ac_output_slot call, sv_value = value\<rparr>) (zip calls (map sv_value svs))"
    using svs by (intro nth_equalityI) force+
  then show ?R using svs row by (intro exI [of _ "map sv_value svs"]) force
next
  assume ?R
  then obtain vals where v: "length vals = length calls"
      "\<forall>i < length calls. finish_aggregate ld (calls ! i) (ag_states g ! i) = Inr (vals ! i)"
      "row = map (\<lambda>(slot, key). \<lparr>sv_slot_id = slot, sv_value = key\<rparr>) (zip group_keys (ag_keys g))
            @ map (\<lambda>(call, value). \<lparr>sv_slot_id = ac_output_slot call, sv_value = value\<rparr>) (zip calls vals)" by blast
  then have "collect_results (\<lambda>(call, state). bind_result (finish_aggregate ld call state) (\<lambda>value.
         Inr \<lparr>sv_slot_id = ac_output_slot call, sv_value = value\<rparr>)) (zip calls (ag_states g))
      = Inr (map (\<lambda>(call, value). \<lparr>sv_slot_id = ac_output_slot call, sv_value = value\<rparr>) (zip calls vals))"
    using assms by (simp add: collect_results_Inr_iff list_all2_conv_all_nth)
  then show ?L using v(3) by (simp add: group_output_def)
qed

lemma group_output_row:
  "(\<exists>g. ag_keys g = k \<and> fold_states ld calls rows (replicate (length calls) (initial_state ld)) = Inr (ag_states g)
      \<and> group_output ld group_keys calls g = Inr row) \<longleftrightarrow> group_row ld group_keys calls (k, rows) row"
  (is "?L \<longleftrightarrow> ?R")
proof
  assume ?L
  then obtain g where g: "ag_keys g = k" "group_output ld group_keys calls g = Inr row"
      "length (ag_states g) = length calls"
      "\<forall>i < length calls. accumulate_rows ld (calls ! i) rows (initial_state ld) = Inr (ag_states g ! i)"
    by (auto simp: fold_states_Inr)
  then obtain vals where "length vals = length calls"
      "\<forall>i < length calls. finish_aggregate ld (calls ! i) (ag_states g ! i) = Inr (vals ! i)"
      "row = map (\<lambda>(slot, key). \<lparr>sv_slot_id = slot, sv_value = key\<rparr>) (zip group_keys k)
            @ map (\<lambda>(call, value). \<lparr>sv_slot_id = ac_output_slot call, sv_value = value\<rparr>) (zip calls vals)"
    by (auto simp: group_output_Inr)
  then show ?R using g(4)
    by (auto simp: group_row_def aggregate_value_def list_all2_conv_all_nth intro!: exI [of _ vals])
next
  assume ?R
  then obtain vals where v: "length vals = length calls"
      "\<forall>i < length calls. aggregate_value ld (calls ! i) rows = Inr (vals ! i)"
      "row = map (\<lambda>(slot, key). \<lparr>sv_slot_id = slot, sv_value = key\<rparr>) (zip group_keys k)
            @ map (\<lambda>(call, value). \<lparr>sv_slot_id = ac_output_slot call, sv_value = value\<rparr>) (zip calls vals)"
    by (auto simp: group_row_def list_all2_conv_all_nth)
  then obtain st where st: "\<forall>i < length calls. accumulate_rows ld (calls ! i) rows (initial_state ld) = Inr (st i)
      \<and> finish_aggregate ld (calls ! i) (st i) = Inr (vals ! i)"
    unfolding aggregate_value_def bind_result_Inr_iff by metis
  let ?g = "\<lparr>ag_keys = k, ag_states = map st [0..<length calls]\<rparr>"
  have "fold_states ld calls rows (replicate (length calls) (initial_state ld)) = Inr (ag_states ?g)"
    using st by (simp add: fold_states_Inr)
  moreover have "group_output ld group_keys calls ?g = Inr row"
    using st v(1,3) by (simp add: group_output_Inr) blast
  ultimately show ?L by (intro exI [of _ ?g]) simp
qed

lemma execute_aggregate_groups:
  assumes "\<forall>row \<in> set rows. collect_results (slot_lookup row) group_keys = Inr (grouping_key group_keys row)"
  shows "execute_aggregate h ld group_keys calls rows = Inr out \<longleftrightarrow>
    list_all2 (group_row ld group_keys calls) (group_rows group_keys rows) out"
proof -
  let ?gs = "if group_keys = [] then [([], [])] else [] :: (Value list \<times> SlotRow list) list"
  let ?R = "\<lambda>(k, rows) g. ag_keys g = k
     \<and> fold_states ld calls rows (replicate (length calls) (initial_state ld)) = Inr (ag_states g)"
  have "group_rel ld calls ?gs (if group_keys = [] then [new_group ld calls []] else [])"
    by (simp add: group_rel_def new_group_def)
  from aggregate_rows_rel [OF assms this, of "[]"]
  have "execute_aggregate h ld group_keys calls rows = Inr out \<longleftrightarrow>
      (\<exists>groups. list_all2 ?R (group_rows group_keys rows) groups
        \<and> list_all2 (\<lambda>g row. group_output ld group_keys calls g = Inr row) groups out)"
    by (simp add: execute_aggregate_def result_simps collect_results_Inr_iff group_rel_def group_rows_def)
  also have "\<dots> \<longleftrightarrow> list_all2 (?R OO (\<lambda>g row. group_output ld group_keys calls g = Inr row)) (group_rows group_keys rows) out"
    by (auto simp: list.rel_compp)
  also have "?R OO (\<lambda>g row. group_output ld group_keys calls g = Inr row) = group_row ld group_keys calls"
  proof (intro ext)
    fix g :: "Value list \<times> SlotRow list" and row :: SlotRow
    obtain k rs where "g = (k, rs)" by force
    then show "(?R OO (\<lambda>g row. group_output ld group_keys calls g = Inr row)) g row = group_row ld group_keys calls g row"
      by (simp add: OO_def conj_assoc group_output_row)
  qed
  finally show ?thesis .
qed

subsection \<open>The aggregate functions\<close>

definition slot_value :: "QuerySlot \<Rightarrow> SlotRow \<Rightarrow> Value" where
  "slot_value s row = (case slot_lookup row s of Inl _ \<Rightarrow> VNull | Inr v \<Rightarrow> v)"

text \<open>The values a call over a column sees: NULLs are skipped.\<close>

definition column_values :: "QuerySlot \<Rightarrow> SlotRow list \<Rightarrow> Value list" where
  "column_values s rows = filter (\<lambda>v. v \<noteq> VNull) (map (slot_value s) rows)"

definition bound_in :: "SlotRow list \<Rightarrow> QuerySlot \<Rightarrow> bool" where
  "bound_in rows s \<longleftrightarrow> (\<forall>row \<in> set rows. \<exists>v. slot_lookup row s = Inr v)"

fun run_steps :: "('v \<Rightarrow> 's \<Rightarrow> (Error, 's) result) \<Rightarrow> 'v list \<Rightarrow> 's \<Rightarrow> (Error, 's) result" where
  "run_steps step [] state = Inr state"
| "run_steps step (v # vs) state = bind_result (step v state) (run_steps step vs)"

definition value_step :: "'l LongDouble \<Rightarrow> AggregateCall \<Rightarrow> Value \<Rightarrow> 'l AggregateState \<Rightarrow> (Error, 'l AggregateState) result" where
  "value_step ld call = (case ac_kind call of
       kCount \<Rightarrow> (\<lambda>_ state. bind_result (checked_increment (as_count state)) (\<lambda>count. Inr (state\<lparr>as_count := count\<rparr>)))
     | kSum \<Rightarrow> accumulate_sum call
     | kAvg \<Rightarrow> accumulate_avg ld
     | kind \<Rightarrow> accumulate_extremum kind)"

lemma accumulate_rows_values:
  assumes "ac_input_slot call = Some s" "bound_in rows s"
  shows "accumulate_rows ld call rows state = run_steps (value_step ld call) (column_values s rows) state"
  using assms(2)
proof (induction rows arbitrary: state)
  case (Cons row rows)
  then obtain v where v: "slot_lookup row s = Inr v" by (auto simp: bound_in_def)
  have "accumulate_aggregate ld call row state = (if v = VNull then Inr state else value_step ld call v state)"
    by (simp add: accumulate_aggregate_def assms(1) v value_step_def split: AggregateKind.splits)
  moreover have "accumulate_rows ld call rows = run_steps (value_step ld call) (column_values s rows)"
    using Cons by (intro ext) (simp add: bound_in_def)
  ultimately show ?case using v by (simp add: column_values_def slot_value_def)
qed (simp add: column_values_def)

lemma checked_increment_small: "sint c < 9223372036854775807 \<Longrightarrow> checked_increment c = Inr (c + 1) \<and> sint (c + 1) = sint c + 1"
  using sint_add_exact [of c 1] sint_range_u64 [of c] by (simp add: checked_increment_def)

lemma run_count:
  assumes "0 \<le> sint (as_count state)" "sint (as_count state) + int (length vs) \<le> 9223372036854775807"
  shows "run_steps (\<lambda>_ state. bind_result (checked_increment (as_count state)) (\<lambda>count. Inr (state\<lparr>as_count := count\<rparr>))) vs state
    = Inr (state\<lparr>as_count := as_count state + word_of_nat (length vs)\<rparr>)"
  using assms
proof (induction vs arbitrary: state)
  case (Cons v vs)
  have "sint (as_count state) < 9223372036854775807" using Cons.prems by simp
  from checked_increment_small [OF this] Cons.IH [of "state\<lparr>as_count := as_count state + 1\<rparr>"] Cons.prems
  show ?case by (simp add: algebra_simps)
qed simp

definition in_int64 :: "int \<Rightarrow> bool" where
  "in_int64 i \<longleftrightarrow> - 9223372036854775808 \<le> i \<and> i \<le> 9223372036854775807"

lemma sint_in_int64: "in_int64 i \<Longrightarrow> sint (word_of_int i :: u64) = i"
  unfolding sint_sbintrunc' by (intro signed_take_bit_int_eq_self) (simp_all add: in_int64_def)

definition int_of_value :: "Value \<Rightarrow> int" where
  "int_of_value v = (case integer_value v of Some i \<Rightarrow> i | None \<Rightarrow> 0)"

definition current_sum :: "'l AggregateState \<Rightarrow> u64" where
  "current_sum state = (case as_value state of Some (VBigInt c) \<Rightarrow> c | _ \<Rightarrow> 0)"

definition sum_overflow :: Error where
  "sum_overflow = make_error kExecute ''aggregate SUM overflow''"

lemma accumulate_sum_int:
  assumes "ac_output_type call \<noteq> kDouble" "integer_value v = Some i" "\<forall>w. as_value state = Some w \<longrightarrow> (\<exists>c. w = VBigInt c)"
  shows "accumulate_sum call v state =
    (if in_int64 (sint (current_sum state) + i)
     then Inr (state\<lparr>as_value := Some (VBigInt (word_of_int (sint (current_sum state) + i)))\<rparr>) else Inl sum_overflow)"
proof -
  obtain w where w: "(case v of VInt value \<Rightarrow> Inr (word_of_int (sint value)) | VBigInt value \<Rightarrow> Inr value
          | _ \<Rightarrow> Inl (make_error kInternal ''aggregate SUM input type mismatch'')) = Inr (w :: u64)" "sint w = i"
    using assms(2) sint_int32_widened by (cases v) auto
  have cur: "(case as_value state of None \<Rightarrow> Inr 0 | Some (VBigInt current) \<Rightarrow> Inr current | Some _ \<Rightarrow> Inl bad_variant_access)
      = Inr (current_sum state)"
    using assms(3) by (auto simp: current_sum_def split: option.splits)
  have "current_sum state + w = word_of_int (sint (current_sum state) + sint w)" by simp
  then show ?thesis using assms(1) w(2)
    by (simp add: accumulate_sum_def w(1) cur checked_add_cases in_int64_def sum_overflow_def)
qed

lemma run_sum:
  assumes "ac_output_type call \<noteq> kDouble" "\<forall>v \<in> set vs. integer_value v \<noteq> None"
    and "\<forall>w. as_value state = Some w \<longrightarrow> (\<exists>c. w = VBigInt c)"
  shows "run_steps (accumulate_sum call) vs state =
    (if \<forall>n \<le> length vs. in_int64 (sint (current_sum state) + sum_list (map int_of_value (take n vs)))
     then Inr (if vs = [] then state else
       state\<lparr>as_value := Some (VBigInt (word_of_int (sint (current_sum state) + sum_list (map int_of_value vs))))\<rparr>)
     else Inl sum_overflow)"
  using assms(2,3)
proof (induction vs arbitrary: state)
  case Nil
  then show ?case using sint_range_u64 [of "current_sum state"] by (simp add: in_int64_def)
next
  case (Cons v vs)
  let ?c = "sint (current_sum state)"
  obtain i where i: "integer_value v = Some i" using Cons.prems(1) by auto
  then have iv: "int_of_value v = i" by (simp add: int_of_value_def)
  have c: "in_int64 ?c" using sint_range_u64 [of "current_sum state"] by (simp add: in_int64_def)
  have split: "(\<forall>n \<le> length (v # vs). in_int64 (?c + sum_list (map int_of_value (take n (v # vs))))) \<longleftrightarrow>
      (\<forall>n \<le> length vs. in_int64 (?c + i + sum_list (map int_of_value (take n vs))))"
    using c iv by (simp add: All_less_Suc2 less_Suc_eq_le [symmetric] algebra_simps del: take_Suc_Cons)
      (simp add: All_less_Suc2 algebra_simps)
  show ?case
  proof (cases "in_int64 (?c + i)")
    case True
    let ?s = "state\<lparr>as_value := Some (VBigInt (word_of_int (?c + i)))\<rparr>"
    have "current_sum ?s = word_of_int (?c + i)" by (simp add: current_sum_def)
    then have cs: "sint (current_sum ?s) = ?c + i" using sint_in_int64 [OF True] by (simp only:)
    show ?thesis unfolding split
      using Cons.IH [of ?s] Cons.prems(1) cs accumulate_sum_int [OF assms(1) i Cons.prems(2)] True
      by (auto simp: iv algebra_simps)
  next
    case False
    then have "\<not> (\<forall>n \<le> length vs. in_int64 (?c + i + sum_list (map int_of_value (take n vs))))"
      by (intro notI) (metis add.right_neutral list.simps(8) sum_list.Nil take0 zero_le)
    then show ?thesis unfolding split using accumulate_sum_int [OF assms(1) i Cons.prems(2)] False by simp
  qed
qed

text \<open>Strictly better for MIN or MAX.\<close>

definition better :: "AggregateKind \<Rightarrow> Value \<Rightarrow> Value \<Rightarrow> bool" where
  "better kind v w \<longleftrightarrow> (if kind = kMin then value_before v w else value_before w v)"

lemma better_swo:
  assumes "orderable t u" "orderable t v" "orderable t w"
  shows "better kind u v \<Longrightarrow> \<not> better kind v u"
    and "\<not> better kind u v \<Longrightarrow> \<not> better kind v w \<Longrightarrow> \<not> better kind u w"
proof -
  show "better kind u v \<Longrightarrow> \<not> better kind v u"
    using value_before_swo(1) [OF assms(1,2,2)] value_before_swo(1) [OF assms(2,1,1)]
    by (auto simp: better_def split: if_splits)
  show "\<not> better kind u v \<Longrightarrow> \<not> better kind v w \<Longrightarrow> \<not> better kind u w"
    using value_before_swo(2) [OF assms] value_before_swo(2) [OF assms(3,2,1)] by (auto simp: better_def split: if_splits)
qed

lemma accumulate_extremum_step:
  assumes "kind = kMin \<or> kind = kMax" "orderable t v" "as_value state = Some c" "orderable t c"
  shows "accumulate_extremum kind v state = Inr (if better kind v c then state\<lparr>as_value := Some v\<rparr> else state)"
  using assms value_before_swo(3) [OF assms(2,4,4)] value_before_swo(1) [OF assms(2,4,4)]
  by (auto simp: accumulate_extremum_def better_def)

lemma run_extremum_from:
  assumes "kind = kMin \<or> kind = kMax"
  shows "\<forall>v \<in> set vs. orderable t v \<Longrightarrow> as_value state = Some c \<Longrightarrow> orderable t c \<Longrightarrow>
    \<exists>m. run_steps (accumulate_extremum kind) vs state = Inr (state\<lparr>as_value := Some m\<rparr>)
      \<and> m \<in> insert c (set vs) \<and> (\<forall>v \<in> insert c (set vs). \<not> better kind v m)"
proof (induction vs arbitrary: state c)
  case Nil
  then show ?case using better_swo(1) [of t c c c kind] by (intro exI [of _ c]) auto
next
  case (Cons v vs)
  let ?c = "if better kind v c then v else c" and ?s = "if better kind v c then state\<lparr>as_value := Some v\<rparr> else state"
  have ov: "orderable t v" using Cons.prems(1) by simp
  have "as_value ?s = Some ?c" "orderable t ?c" "\<forall>v \<in> set vs. orderable t v" using Cons.prems by simp_all
  from Cons.IH [OF this(3,1,2)] obtain m where
    m: "run_steps (accumulate_extremum kind) vs ?s = Inr (?s\<lparr>as_value := Some m\<rparr>)"
      "m \<in> insert ?c (set vs)" "\<forall>u \<in> insert ?c (set vs). \<not> better kind u m" by blast
  have om: "orderable t m" using m(2) Cons.prems(1,3) by (auto split: if_splits)
  have "\<not> better kind c m" "\<not> better kind v m"
    using m(3) better_swo(2) [OF Cons.prems(3) ov om, of kind] better_swo(2) [OF ov Cons.prems(3) om, of kind]
      better_swo(1) [OF ov Cons.prems(3,3), of kind] by (auto split: if_splits)
  then show ?case
    using m accumulate_extremum_step [OF assms ov Cons.prems(2,3)] by (intro exI [of _ m]) (auto split: if_splits)
qed

lemma execute_aggregate_bound:
  assumes "\<forall>s \<in> set group_keys. bound_in rows s"
  shows "execute_aggregate h ld group_keys calls rows = Inr out \<longleftrightarrow>
    list_all2 (group_row ld group_keys calls) (group_rows group_keys rows) out"
proof (rule execute_aggregate_groups, rule ballI)
  fix row assume "row \<in> set rows"
  then show "collect_results (slot_lookup row) group_keys = Inr (grouping_key group_keys row)"
    unfolding grouping_key_def using assms by (intro collect_results_map_Inr) (fastforce simp: bound_in_def)
qed

subsection \<open>Properties of aggregation\<close>


definition demo_ld :: "int LongDouble" where
  "demo_ld = \<lparr>ld_zero = 0, ld_of_int64 = id, ld_of_double = double_scaled, ld_add = (+), ld_div = (div),
     ld_isfinite = \<lambda>_. True, ld_to_double = double_of_int\<rparr>"

definition demo_std_hash :: StdHash where
  "demo_std_hash = \<lparr>sh_int32 = \<lambda>_. 0, sh_int64 = id, sh_double = id, sh_bool = \<lambda>_. 1, sh_string = \<lambda>_. 2\<rparr>"


text \<open>
  COUNT over a column counts its non-NULL values exactly, as long as the rows fit an \<open>int64_t\<close>.
\<close>

lemma count_exact:
  assumes "ac_kind call = kCount" "ac_input_slot call = Some s" "bound_in rows s"
    and "length rows \<le> 9223372036854775807"
  shows "aggregate_value ld call rows = Inr (VBigInt (word_of_nat (length (column_values s rows))))"
proof -
  have "length (column_values s rows) \<le> length rows"
    using length_filter_le [of _ "map (slot_value s) rows"] by (simp add: column_values_def)
  then have "int (length (column_values s rows)) \<le> 9223372036854775807" using assms(4) by linarith
  then have "run_steps (value_step ld call) (column_values s rows) (initial_state ld) =
      Inr ((initial_state ld)\<lparr>as_count := word_of_nat (length (column_values s rows))\<rparr>)"
    using run_count [of "initial_state ld" "column_values s rows"]
    by (simp add: value_step_def assms(1) initial_state_def)
  then show ?thesis
    by (simp add: aggregate_value_def accumulate_rows_values [OF assms(2,3)] finish_aggregate_def assms(1))
qed

definition demo_call :: "AggregateKind \<Rightarrow> Type \<Rightarrow> AggregateCall" where
  "demo_call kind type = \<lparr>ac_kind = kind, ac_input_slot = Some 0, ac_output_slot = 9, ac_output_type = type,
     ac_nullable = kind \<noteq> kCount\<rparr>"

definition demo_rows :: "SlotRow list" where
  "demo_rows = [[\<lparr>sv_slot_id = 0, sv_value = VInt 3\<rparr>], [\<lparr>sv_slot_id = 0, sv_value = VNull\<rparr>], [\<lparr>sv_slot_id = 0, sv_value = VInt 4\<rparr>]]"

lemma demo_bound: "bound_in demo_rows 0"
  by (simp add: bound_in_def demo_rows_def slot_lookup_def)

lemma demo_values: "column_values 0 demo_rows = [VInt 3, VInt 4]"
  by (simp add: column_values_def slot_value_def demo_rows_def slot_lookup_def)

text \<open>
  C24: SUM over an integer column is exact. The result is the mathematical sum of the non-NULL values, NULL when
  there are none, provided no partial sum leaves the \<open>int64_t\<close> range; otherwise it is the overflow error.
\<close>

theorem sum_exact:
  assumes "ac_kind call = kSum" "ac_input_slot call = Some s" "ac_output_type call = kBigInt" "bound_in rows s"
    and "\<forall>v \<in> set (column_values s rows). integer_value v \<noteq> None"
  shows "aggregate_value ld call rows =
    (let ints = map int_of_value (column_values s rows) in
     if \<forall>n \<le> length ints. in_int64 (sum_list (take n ints))
     then Inr (if ints = [] then VNull else VBigInt (word_of_int (sum_list ints)))
     else Inl sum_overflow)"
  using run_sum [of call "column_values s rows" "initial_state ld"] assms
  by (simp add: aggregate_value_def accumulate_rows_values value_step_def finish_aggregate_def initial_state_def
      current_sum_def take_map Let_def) (simp add: in_int64_def)

theorem sum_exact_witness: "aggregate_value demo_ld (demo_call kSum kBigInt) demo_rows = Inr (VBigInt 7)"
proof (subst sum_exact [OF _ _ _ demo_bound])
  have "in_int64 (sum_list (take n [3, 4 :: int]))" for n
    by (cases n) (auto simp: in_int64_def take_Cons split: nat.splits)
  then show "(let ints = map int_of_value (column_values 0 demo_rows) in
     if \<forall>n \<le> length ints. in_int64 (sum_list (take n ints))
     then Inr (if ints = [] then VNull else VBigInt (word_of_int (sum_list ints)))
     else Inl sum_overflow) = Inr (VBigInt 7)"
    by (simp add: demo_values int_of_value_def Let_def)
qed (simp_all add: demo_values demo_call_def)

text \<open>
  MIN and MAX over values of one type return one of the values, one that no other value beats in the sort
  order, and NULL when there is no value.
\<close>

lemma extremum_exact:
  assumes "ac_kind call = kMin \<or> ac_kind call = kMax" "ac_input_slot call = Some s" "bound_in rows s"
    and "\<forall>v \<in> set (column_values s rows). orderable t v"
  shows "if column_values s rows = [] then aggregate_value ld call rows = Inr VNull
    else \<exists>m \<in> set (column_values s rows). aggregate_value ld call rows = Inr m
      \<and> (\<forall>v \<in> set (column_values s rows). \<not> better (ac_kind call) v m)"
proof -
  have step: "value_step ld call = accumulate_extremum (ac_kind call)" using assms(1) by (auto simp: value_step_def)
  have fin: "finish_aggregate ld call st = Inr (case as_value st of Some v \<Rightarrow> v | None \<Rightarrow> VNull)" for st
    using assms(1) by (auto simp: finish_aggregate_def)
  show ?thesis
  proof (cases "column_values s rows")
    case Nil
    then show ?thesis by (simp add: aggregate_value_def accumulate_rows_values [OF assms(2,3)] fin initial_state_def)
  next
    case (Cons c vs)
    let ?s = "(initial_state ld)\<lparr>as_value := Some c\<rparr>"
    obtain m where m: "run_steps (accumulate_extremum (ac_kind call)) vs ?s = Inr (?s\<lparr>as_value := Some m\<rparr>)"
        "m \<in> insert c (set vs)" "\<forall>v \<in> insert c (set vs). \<not> better (ac_kind call) v m"
      using run_extremum_from [OF assms(1), of vs t ?s c] assms(4) Cons by auto
    then have "aggregate_value ld call rows = Inr m"
      by (simp add: aggregate_value_def accumulate_rows_values [OF assms(2,3)] Cons step fin
          accumulate_extremum_def [of _ c] initial_state_def)
    then show ?thesis using m Cons by auto
  qed
qed

end
