(* ===== verification/Storage_Scan.thy ===== *)
theory Storage_Scan
  imports Slots
begin

text \<open>
  The executor's side of a table scan (\<open>scan_records\<close>, \<open>CursorGuard\<close> and their callers in
  \<open>src/core/executor.cpp\<close>). What the storage API answers to the calls of one scan is a parameter:
  the answers to \<open>open_table\<close>, to the successive \<open>scan_next\<close> and to \<open>close_cursor\<close>, each of which may
  be a result, an error or an exception. A failure carries the error of the statement and whether
  \<open>abort_after_storage_exception\<close> is called, which ends the session. Cancellation is not modelled.
\<close>

subsection \<open>Answers of the storage API\<close>

datatype StorageErrorKind = kTableNotFound | kCursorInvalid | kValueTooLarge | kIoError | kStorageCorrupt | kInvalidRequest

record StorageError =
  se_kind :: StorageErrorKind
  se_message :: string

text \<open>An exception: one with a text, or one \<open>catch (...)\<close> knows nothing of.\<close>

datatype Thrown = StdException string | UnknownException

datatype 'a Answer = Threw Thrown | Returned 'a

record OpenTableResult =
  ot_cursor :: bool
  ot_error :: "StorageError option"

record ScanNextResult =
  sn_record :: "Record option"
  sn_error :: "StorageError option"

text \<open>One scan. After the last listed answer \<open>scan_next\<close> reports the end of the table.\<close>

record TableScan =
  ts_open :: "OpenTableResult Answer"
  ts_next :: "ScanNextResult Answer list"
  ts_close :: "StorageError option Answer"

datatype Failure = Failure (failed_with: Error) (aborts_session: bool)

definition map_storage_error :: "StorageError \<Rightarrow> Error" where
  "map_storage_error error = make_error kStorage (se_message error)"

definition thrown_message :: "string \<Rightarrow> Thrown \<Rightarrow> string" where
  "thrown_message unknown thrown = (case thrown of StdException what \<Rightarrow> what | UnknownException \<Rightarrow> unknown)"

definition close_threw :: "TableScan \<Rightarrow> bool" where
  "close_threw scan = (case ts_close scan of Threw _ \<Rightarrow> True | Returned _ \<Rightarrow> False)"

subsection \<open>The scan loop\<close>

fun scan_records ::
  "TableScan \<Rightarrow> ('s \<Rightarrow> Record \<Rightarrow> (Failure, 's) result) \<Rightarrow> ScanNextResult Answer list \<Rightarrow> 's \<Rightarrow> (Failure, 's) result" where
  "scan_records scan handler [] state = Inr state"
| "scan_records scan handler (Threw thrown # answers) state =
     Inl (Failure (make_error kInternal (thrown_message ''unknown exception while scanning records'' thrown)) True)"
| "scan_records scan handler (Returned next # answers) state =
     (case (sn_error next, sn_record next) of
        (Some _, Some _) \<Rightarrow>
          Inl (Failure (make_error kInternal ''scan_next returned both error and record'') (close_threw scan))
      | (Some error, None) \<Rightarrow> Inl (Failure (map_storage_error error) (close_threw scan))
      | (None, None) \<Rightarrow> Inr state
      | (None, Some record) \<Rightarrow>
          (case handler state record of
             Inl failure \<Rightarrow> Inl (Failure (failed_with failure) (aborts_session failure \<or> close_threw scan))
           | Inr state' \<Rightarrow> scan_records scan handler answers state'))"

text \<open>Opening the cursor, the scan, and closing the cursor, which is attempted once.\<close>

definition scan_table ::
  "string \<Rightarrow> TableScan \<Rightarrow> ('s \<Rightarrow> Record \<Rightarrow> (Failure, 's) result) \<Rightarrow> 's \<Rightarrow> (Failure, 's) result" where
  "scan_table unknown_open scan handler state =
     (case ts_open scan of
        Threw thrown \<Rightarrow> Inl (Failure (make_error kInternal (thrown_message unknown_open thrown)) True)
      | Returned opened \<Rightarrow>
          (case ot_error opened of
             Some error \<Rightarrow>
               if ot_cursor opened
               then Inl (Failure (make_error kInternal ''open_table returned both error and cursor'') (close_threw scan))
               else Inl (Failure (map_storage_error error) False)
           | None \<Rightarrow>
               if \<not> ot_cursor opened
               then Inl (Failure (make_error kInternal ''open_table returned no cursor on success'') False)
               else
                 bind_result (scan_records scan handler (ts_next scan) state) (\<lambda>state'.
                   case ts_close scan of
                     Threw thrown \<Rightarrow>
                       Inl (Failure (make_error kInternal
                         (thrown_message ''unknown exception while closing cursor'' thrown)) True)
                   | Returned (Some error) \<Rightarrow> Inl (Failure (map_storage_error error) False)
                   | Returned None \<Rightarrow> Inr state')))"

subsection \<open>Scans that go well\<close>

text \<open>The records the scan delivers before its first answer without a record.\<close>

fun delivered :: "ScanNextResult Answer list \<Rightarrow> Record list" where
  "delivered [] = []"
| "delivered (Threw _ # answers) = []"
| "delivered (Returned next # answers) =
     (case (sn_error next, sn_record next) of (None, Some record) \<Rightarrow> record # delivered answers | _ \<Rightarrow> [])"

fun scan_ends :: "ScanNextResult Answer list \<Rightarrow> bool" where
  "scan_ends [] = True"
| "scan_ends (Threw _ # answers) = False"
| "scan_ends (Returned next # answers) =
     (case (sn_error next, sn_record next) of
        (None, Some _) \<Rightarrow> scan_ends answers | (None, None) \<Rightarrow> True | _ \<Rightarrow> False)"

definition scan_ok :: "TableScan \<Rightarrow> bool" where
  "scan_ok scan \<longleftrightarrow> ts_open scan = Returned \<lparr>ot_cursor = True, ot_error = None\<rparr>
     \<and> scan_ends (ts_next scan) \<and> ts_close scan = Returned None"

fun handle_all :: "('s \<Rightarrow> 'r \<Rightarrow> ('e, 's) result) \<Rightarrow> 'r list \<Rightarrow> 's \<Rightarrow> ('e, 's) result" where
  "handle_all handler [] state = Inr state"
| "handle_all handler (record # rest) state = bind_result (handler state record) (handle_all handler rest)"

lemma scan_records_ok:
  "scan_ends answers \<Longrightarrow> \<not> close_threw scan \<Longrightarrow>
   scan_records scan handler answers state = handle_all handler (delivered answers) state"
proof (induction scan handler answers state rule: scan_records.induct)
  case (3 scan handler nxt answers state)
  then show ?case
    by (cases "handler state (the (sn_record nxt))")
      (auto simp: bind_result_def split: option.splits sum.splits)
qed auto

lemma scan_table_ok:
  "scan_ok scan \<Longrightarrow> scan_table unknown scan handler state = handle_all handler (delivered (ts_next scan)) state"
  by (cases "handle_all handler (delivered (ts_next scan)) state")
    (auto simp: scan_table_def scan_ok_def scan_records_ok close_threw_def)

text \<open>The scan loop calls the handler on the delivered records in order, and on nothing else.\<close>

lemma scan_records_Inr:
  "scan_records scan handler answers state = Inr state' \<longleftrightarrow>
     scan_ends answers \<and> handle_all handler (delivered answers) state = Inr state'"
proof (induction scan handler answers state rule: scan_records.induct)
  case (3 scan handler nxt answers state)
  then show ?case
    by (auto simp: result_simps split: option.splits sum.splits)
qed auto

lemma scan_table_Inr:
  "scan_table unknown scan handler state = Inr state' \<longleftrightarrow>
     scan_ok scan \<and> handle_all handler (delivered (ts_next scan)) state = Inr state'"
proof (cases "ts_close scan")
  case (Returned c)
  then show ?thesis
    by (cases c) (auto simp: scan_table_def scan_ok_def result_simps scan_records_Inr
        split: Answer.splits option.splits if_splits)
qed (auto simp: scan_table_def scan_ok_def result_simps split: Answer.splits option.splits if_splits)

end
