(* ===== verification/Query_Plan.thy ===== *)
theory Query_Plan
  imports Row_Join Row_Aggregate Storage_Scan
begin

text \<open>
  Queries in \<open>src/core/executor.cpp\<close>: the validation of a plan tree against the catalog
  (\<open>validate_dataflow_node\<close>, \<open>validate_query_plan\<close>), which computes the static row of every node and the
  table of slot types, and the execution of the tree (\<open>execute_query\<close>).
\<close>

subsection \<open>Validation\<close>

definition kMaxPlanDepth :: nat where "kMaxPlanDepth = 256"

definition internal :: "string \<Rightarrow> Error" where
  "internal message = make_error kInternal message"

definition expression_error :: "ExprError \<Rightarrow> Error" where
  "expression_error error = make_error kInternal (expr_error_message error)"

fun validate_group_keys :: "SlotRow \<Rightarrow> QuerySlot list \<Rightarrow> SlotRow \<Rightarrow> (Error, SlotRow) result" where
  "validate_group_keys child_row [] output = Inr output"
| "validate_group_keys child_row (slot_id # slots) output =
     bind_result (slot_lookup child_row slot_id) (\<lambda>value.
       if list_ex (\<lambda>entry. sv_slot_id entry = slot_id) output
       then Inl (internal ''aggregate contains a duplicate group slot'')
       else validate_group_keys child_row slots (output @ [\<lparr>sv_slot_id = slot_id, sv_value = value\<rparr>]))"

definition call_types_valid :: "AggregateCall \<Rightarrow> Type option \<Rightarrow> bool" where
  "call_types_valid call input_type \<longleftrightarrow>
     (let numeric = input_type = Some kInt \<or> input_type = Some kBigInt \<or> input_type = Some kDouble;
          valid =
            (case ac_kind call of
               kCount \<Rightarrow> ac_output_type call = kBigInt \<and> \<not> ac_nullable call
             | kSum \<Rightarrow> ac_input_slot call \<noteq> None \<and> numeric \<and> ac_nullable call
                 \<and> ac_output_type call = (if input_type = Some kDouble then kDouble else kBigInt)
             | kAvg \<Rightarrow> ac_input_slot call \<noteq> None \<and> numeric \<and> ac_nullable call \<and> ac_output_type call = kDouble
             | _ \<Rightarrow> ac_input_slot call \<noteq> None \<and> input_type \<noteq> None \<and> input_type \<noteq> Some kBoolean
                 \<and> ac_nullable call \<and> Some (ac_output_type call) = input_type)
      in if ac_kind call \<noteq> kCount \<and> ac_input_slot call = None then False else valid)"

fun validate_calls :: "SlotRow \<Rightarrow> AggregateCall list \<Rightarrow> SlotRow \<Rightarrow> (Error, SlotRow) result" where
  "validate_calls child_row [] output = Inr output"
| "validate_calls child_row (call # calls) output =
     (if (case slot_lookup child_row (ac_output_slot call) of Inr _ \<Rightarrow> True | Inl _ \<Rightarrow> False)
         \<or> list_ex (\<lambda>entry. sv_slot_id entry = ac_output_slot call) output
      then Inl (internal ''aggregate output slot collides with an existing slot'')
      else
        bind_result (case ac_input_slot call of
            None \<Rightarrow> Inr None
          | Some slot \<Rightarrow> bind_result (slot_lookup child_row slot) (\<lambda>input. Inr (runtime_type input)))
        (\<lambda>input_type.
          if \<not> call_types_valid call input_type
          then Inl (internal ''aggregate call has an invalid type contract'')
          else validate_calls child_row calls
            (output @ [\<lparr>sv_slot_id = ac_output_slot call, sv_value = validation_value (ac_output_type call)\<rparr>])))"

fun check_sort_slots :: "SlotRow \<Rightarrow> SortKey list \<Rightarrow> (Error, unit) result" where
  "check_sort_slots row [] = Inr ()"
| "check_sort_slots row (key # keys) =
     bind_result (slot_lookup row (sk_slot_id key)) (\<lambda>_. check_sort_slots row keys)"

text \<open>The static row of a node, and the slot types collected so far.\<close>

fun validate_dataflow_node ::
  "TableMeta list \<Rightarrow> PlanNode \<Rightarrow> nat \<Rightarrow> SlotRow \<Rightarrow> (Error, SlotRow \<times> SlotRow) result" where
  "validate_dataflow_node catalog (SeqScanNode table_id columns) depth slot_types =
     (if kMaxPlanDepth \<le> depth then Inl (internal ''query plan depth exceeds core limit'')
      else case find_catalog_table catalog table_id of
        None \<Rightarrow> Inl (internal ''query plan references an unknown table'')
      | Some table \<Rightarrow>
          (case validate_table_metadata table of
             Some error \<Rightarrow> Inl error
           | None \<Rightarrow> bind_result (make_validation_slot_row table columns) (\<lambda>slots.
               Inr (slots, append_slot_types slot_types slots))))"
| "validate_dataflow_node catalog (FilterNode predicate (Some child)) depth slot_types =
     (if kMaxPlanDepth \<le> depth then Inl (internal ''query plan depth exceeds core limit'')
      else bind_result (validate_dataflow_node catalog child (depth + 1) slot_types) (\<lambda>(row, slot_types').
        case validate_predicate predicate row of
          Some error \<Rightarrow> Inl (expression_error error)
        | None \<Rightarrow> Inr (row, slot_types')))"
| "validate_dataflow_node catalog (FilterNode predicate None) depth slot_types =
     (if kMaxPlanDepth \<le> depth then Inl (internal ''query plan depth exceeds core limit'')
      else Inl (internal ''filter node has a null child''))"
| "validate_dataflow_node catalog (SortNode keys child) depth slot_types =
     (if kMaxPlanDepth \<le> depth then Inl (internal ''query plan depth exceeds core limit'')
      else if keys = [] then Inl (internal ''sort keys must not be empty'')
      else case child of
        None \<Rightarrow> Inl (internal ''sort node has a null child'')
      | Some child \<Rightarrow>
          bind_result (validate_dataflow_node catalog child (depth + 1) slot_types) (\<lambda>(row, slot_types').
          bind_result (check_sort_slots row keys) (\<lambda>_. Inr (row, slot_types'))))"
| "validate_dataflow_node catalog (JoinNode kind condition (Some left) (Some right)) depth slot_types =
     (if kMaxPlanDepth \<le> depth then Inl (internal ''query plan depth exceeds core limit'')
      else
        bind_result (validate_dataflow_node catalog left (depth + 1) slot_types) (\<lambda>(left_row, types1).
        bind_result (validate_dataflow_node catalog right (depth + 1) types1) (\<lambda>(right_row, types2).
        bind_result (merge_slot_rows left_row right_row) (\<lambda>row.
          case validate_predicate condition row of
            Some error \<Rightarrow> Inl (expression_error error)
          | None \<Rightarrow> Inr (row, types2)))))"
| "validate_dataflow_node catalog (JoinNode kind condition _ _) depth slot_types =
     (if kMaxPlanDepth \<le> depth then Inl (internal ''query plan depth exceeds core limit'')
      else Inl (internal ''join node has a null child''))"
| "validate_dataflow_node catalog (AggregateNode group_keys calls (Some child)) depth slot_types =
     (if kMaxPlanDepth \<le> depth then Inl (internal ''query plan depth exceeds core limit'')
      else
        bind_result (validate_dataflow_node catalog child (depth + 1) slot_types) (\<lambda>(child_row, slot_types').
        bind_result (validate_group_keys child_row group_keys []) (\<lambda>keys.
        bind_result (validate_calls child_row calls keys) (\<lambda>output.
          Inr (output, append_slot_types slot_types' output)))))"
| "validate_dataflow_node catalog (AggregateNode group_keys calls None) depth slot_types =
     (if kMaxPlanDepth \<le> depth then Inl (internal ''query plan depth exceeds core limit'')
      else Inl (internal ''aggregate node has a null child''))"
| "validate_dataflow_node catalog (ProjectNode outputs child) depth slot_types =
     (if kMaxPlanDepth \<le> depth then Inl (internal ''query plan depth exceeds core limit'')
      else Inl (internal ''query plan has an invalid node topology''))"

record ColumnHeader =
  ch_name :: string
  ch_type :: Type

record ValidatedQuery =
  vq_input :: PlanNode
  vq_outputs :: "QuerySlot list"
  vq_result_columns :: "ColumnHeader list"
  vq_slot_types :: SlotRow

fun check_output_slots :: "SlotRow \<Rightarrow> QuerySlot list \<Rightarrow> (Error, unit) result" where
  "check_output_slots row [] = Inr ()"
| "check_output_slots row (slot_id # slots) =
     bind_result (slot_lookup row slot_id) (\<lambda>_. check_output_slots row slots)"

fun result_headers :: "QuerySlot list \<Rightarrow> QueryOutput list \<Rightarrow> (Error, ColumnHeader list) result" where
  "result_headers (slot_id # slots) (output # outputs) =
     (if slot_id \<noteq> qo_slot_id output then Inl (internal ''query output slot does not match project position'')
      else bind_result (result_headers slots outputs) (\<lambda>columns.
        Inr (\<lparr>ch_name = qo_name output, ch_type = qo_type output\<rparr> # columns)))"
| "result_headers _ _ = Inr []"

definition validate_query_plan :: "TableMeta list \<Rightarrow> QueryPlan \<Rightarrow> (Error, ValidatedQuery) result" where
  "validate_query_plan catalog plan =
     bind_result
       (case qp_root plan of
          None \<Rightarrow> Inl (internal ''query plan has a null root'')
        | Some (ProjectNode outputs None) \<Rightarrow> Inl (internal ''project node has a null child'')
        | Some (ProjectNode outputs (Some child)) \<Rightarrow>
            if outputs = [] then Inl (internal ''project outputs must not be empty'') else Inr (child, Some outputs)
        | Some root \<Rightarrow> Inr (root, None))
     (\<lambda>(input, project).
        bind_result (validate_dataflow_node catalog input 1 []) (\<lambda>(row, slot_types).
          let outputs = (case project of None \<Rightarrow> map sv_slot_id row | Some slots \<Rightarrow> slots) in
          if length outputs \<noteq> length (qp_outputs plan)
          then Inl (internal ''query output count does not match projected row width'')
          else
            bind_result (check_output_slots row outputs) (\<lambda>_.
            bind_result (result_headers outputs (qp_outputs plan)) (\<lambda>columns.
              Inr \<lparr>vq_input = input, vq_outputs = outputs, vq_result_columns = columns, vq_slot_types = slot_types\<rparr>))))"

subsection \<open>Execution\<close>

text \<open>
  What execution reads besides the plan: the catalog, the answers of storage to a scan of each table, the
  row limit, the platform's hash functions and \<open>long double\<close>, and the slot types of the plan.
\<close>

record 'l QueryEnv =
  qe_catalog :: "TableMeta list"
  qe_scan :: "TableId \<Rightarrow> TableScan"
  qe_max_query_rows :: nat
  qe_hash :: StdHash
  qe_long_double :: "'l LongDouble"
  qe_slot_types :: SlotRow

definition query_limit_error :: "nat \<Rightarrow> Error" where
  "query_limit_error max_query_rows = make_error_hint kExecute
     (''query materialization exceeds the maximum row count (limit '' @ decimal max_query_rows @ '')'')
     (Some ''raise max_query_rows or narrow the query'')"

definition scan_handler :: "TableMeta \<Rightarrow> ScanColumn list \<Rightarrow> nat \<Rightarrow> SlotRow list \<Rightarrow> Record \<Rightarrow> (Failure, SlotRow list) result" where
  "scan_handler table columns max_query_rows rows record =
     (case materialize_slot_row table (rec_values record) columns of
        Inl error \<Rightarrow> Inl (Failure error True)
      | Inr row \<Rightarrow>
          if max_query_rows \<le> length rows then Inl (Failure (query_limit_error max_query_rows) False)
          else Inr (rows @ [row]))"

fun filter_rows :: "Expr \<Rightarrow> SlotRow list \<Rightarrow> (Error, SlotRow list) result" where
  "filter_rows predicate [] = Inr []"
| "filter_rows predicate (row # rows) =
     (case evaluate_predicate predicate row of
        Inl error \<Rightarrow> Inl (expression_error error)
      | Inr keep \<Rightarrow> bind_result (filter_rows predicate rows) (\<lambda>kept. Inr (if keep then row # kept else kept)))"

abbreviation fails :: "(Error, 'a) result \<Rightarrow> (Failure, 'a) result" where
  "fails r \<equiv> map_error (\<lambda>e. Failure e False) r"

definition plan_too_deep :: "(Failure, 'a) result" where
  "plan_too_deep = Inl (Failure (internal ''query plan depth exceeds core limit'') False)"

text \<open>A null child is excluded by validation; the model answers the topology error for it.\<close>

fun execute_node :: "'l QueryEnv \<Rightarrow> PlanNode \<Rightarrow> nat \<Rightarrow> (Failure, SlotRow list) result" where
  "execute_node env (SeqScanNode table_id columns) depth =
     (if kMaxPlanDepth \<le> depth then plan_too_deep
      else case find_catalog_table (qe_catalog env) table_id of
        None \<Rightarrow> fails (Inl (internal ''query plan references an unknown table''))
      | Some table \<Rightarrow>
          scan_table ''unknown exception while opening table for query'' (qe_scan env (tm_table_id table))
            (scan_handler table columns (qe_max_query_rows env)) [])"
| "execute_node env (FilterNode predicate (Some child)) depth =
     (if kMaxPlanDepth \<le> depth then plan_too_deep
      else bind_result (execute_node env child (depth + 1)) (\<lambda>rows. fails (filter_rows predicate rows)))"
| "execute_node env (SortNode keys (Some child)) depth =
     (if kMaxPlanDepth \<le> depth then plan_too_deep
      else bind_result (execute_node env child (depth + 1)) (\<lambda>rows. fails (execute_sort rows keys)))"
| "execute_node env (JoinNode kind condition (Some left) (Some right)) depth =
     (if kMaxPlanDepth \<le> depth then plan_too_deep
      else
        bind_result (execute_node env left (depth + 1)) (\<lambda>left_rows.
        bind_result (execute_node env right (depth + 1)) (\<lambda>right_rows.
          fails (execute_join (qe_hash env) (qe_max_query_rows env) (qe_slot_types env) condition left_rows right_rows))))"
| "execute_node env (AggregateNode group_keys calls (Some child)) depth =
     (if kMaxPlanDepth \<le> depth then plan_too_deep
      else bind_result (execute_node env child (depth + 1)) (\<lambda>rows.
        fails (execute_aggregate (qe_hash env) (qe_long_double env) group_keys calls rows)))"
| "execute_node env _ depth =
     (if kMaxPlanDepth \<le> depth then plan_too_deep
      else fails (Inl (internal ''query execution encountered an invalid node topology'')))"

record QueryResult =
  qr_columns :: "ColumnHeader list"
  qr_rows :: "Row list"

fun project_rows :: "QuerySlot list \<Rightarrow> nat \<Rightarrow> SlotRow list \<Rightarrow> (Error, Row list) result" where
  "project_rows outputs width [] = Inr []"
| "project_rows outputs width (row # rows) =
     bind_result (collect_results (slot_lookup row) outputs) (\<lambda>projected.
       if length projected \<noteq> width then Inl (internal ''projected row width does not match query output count'')
       else bind_result (project_rows outputs width rows) (\<lambda>rest. Inr (projected # rest)))"

text \<open>The slot types of the environment are those validation collects.\<close>

definition execute_query :: "'l QueryEnv \<Rightarrow> QueryPlan \<Rightarrow> (Failure, QueryResult) result" where
  "execute_query env plan =
     bind_result (fails (validate_query_plan (qe_catalog env) plan)) (\<lambda>query.
     bind_result (execute_node (env\<lparr>qe_slot_types := vq_slot_types query\<rparr>) (vq_input query) 1) (\<lambda>rows.
     bind_result (fails (project_rows (vq_outputs query) (length (vq_result_columns query)) rows)) (\<lambda>projected.
       Inr \<lparr>qr_columns = vq_result_columns query, qr_rows = projected\<rparr>)))"

subsection \<open>Slot types\<close>

lemma find_append_slot_types:
  "find_slot_type_value (append_slot_types types row) s =
     (case find_slot_type_value types s of Some v \<Rightarrow> Some v | None \<Rightarrow> find_slot_type_value row s)"
proof (induction row arbitrary: types)
  case (Cons e row)
  have known: "list_ex (\<lambda>existing. sv_slot_id existing = sv_slot_id e) types \<longleftrightarrow> find_slot_type_value types (sv_slot_id e) \<noteq> None"
    by (auto simp: find_slot_type_value_def find_None_iff list_ex_iff)
  have snoc: "find_slot_type_value (types @ [e]) s =
      (case find_slot_type_value types s of Some v \<Rightarrow> Some v | None \<Rightarrow> if sv_slot_id e = s then Some (sv_value e) else None)"
    by (induction types) (auto simp: find_slot_type_value_def)
  show ?case using Cons.IH known snoc
    by (auto simp: append_slot_types_def find_slot_type_value_def [of "e # row"] find_slot_type_value_def [of row]
        split: option.splits if_splits)
qed (simp add: append_slot_types_def find_slot_type_value_def split: option.splits)

text \<open>Later slot types never change what an earlier lookup found.\<close>

definition types_extend :: "SlotRow \<Rightarrow> SlotRow \<Rightarrow> bool" where
  "types_extend types types' \<longleftrightarrow> (\<forall>s v. find_slot_type_value types s = Some v \<longrightarrow> find_slot_type_value types' s = Some v)"

lemma types_extend_refl [simp]: "types_extend types types"
  by (simp add: types_extend_def)

lemma types_extend_trans: "types_extend a b \<Longrightarrow> types_extend b c \<Longrightarrow> types_extend a c"
  by (simp add: types_extend_def)

lemma types_extend_append [simp]: "types_extend types (append_slot_types types row)"
  by (simp add: types_extend_def find_append_slot_types)

lemma types_agree_extend: "types_agree types proto \<Longrightarrow> types_extend types types' \<Longrightarrow> types_agree types' proto"
  by (auto simp: types_agree_def types_extend_def)

definition known_slots :: "SlotRow \<Rightarrow> QuerySlot set" where
  "known_slots types = {s. find_slot_type_value types s \<noteq> None}"

lemma find_slot_type_distinct:
  "distinct (slots_of row) \<Longrightarrow> e \<in> set row \<Longrightarrow> find_slot_type_value row (sv_slot_id e) = Some (sv_value e)"
  by (induction row) (auto simp: find_slot_type_value_def)

lemma find_slot_type_None: "find_slot_type_value row s = None \<longleftrightarrow> s \<notin> set (slots_of row)"
  by (auto simp: find_slot_type_value_def find_None_iff)

lemma known_slots_append: "known_slots (append_slot_types types row) = known_slots types \<union> set (slots_of row)"
proof (rule set_eqI)
  fix s
  show "s \<in> known_slots (append_slot_types types row) \<longleftrightarrow> s \<in> known_slots types \<union> set (slots_of row)"
    using find_slot_type_None [of row s]
    by (cases "find_slot_type_value types s"; cases "find_slot_type_value row s")
      (auto simp: known_slots_def find_append_slot_types)
qed

lemma types_agree_append:
  assumes "distinct (slots_of row)"
    and "\<forall>e \<in> set row. find_slot_type_value types (sv_slot_id e) \<in> {None, Some (sv_value e)}"
  shows "types_agree (append_slot_types types row) row"
  using assms find_slot_type_distinct by (fastforce simp: types_agree_def find_append_slot_types split: option.splits)

text \<open>The slots a plan introduces: the outputs of its scans and of its aggregate calls.\<close>

fun introduced :: "PlanNode \<Rightarrow> QuerySlot list" where
  "introduced (SeqScanNode _ columns) = map sc_output_slot columns"
| "introduced (FilterNode _ (Some child)) = introduced child"
| "introduced (SortNode _ (Some child)) = introduced child"
| "introduced (ProjectNode _ (Some child)) = introduced child"
| "introduced (JoinNode _ _ (Some left) (Some right)) = introduced left @ introduced right"
| "introduced (AggregateNode _ calls (Some child)) = introduced child @ map ac_output_slot calls"
| "introduced _ = []"

lemma list_ex_slot: "list_ex (\<lambda>entry. sv_slot_id entry = s) row \<longleftrightarrow> s \<in> set (slots_of row)"
  by (auto simp: list_ex_iff)

lemma validate_group_keys_Inr:
  "validate_group_keys child slots acc = Inr keys \<Longrightarrow> distinct (slots_of acc) \<Longrightarrow>
   distinct (slots_of keys) \<and> slots_of keys = slots_of acc @ slots
   \<and> (\<forall>e \<in> set keys. e \<in> set acc \<or> slot_lookup child (sv_slot_id e) = Inr (sv_value e))"
proof (induction slots arbitrary: acc)
  case (Cons s slots)
  then obtain v where v: "slot_lookup child s = Inr v" "s \<notin> set (slots_of acc)"
      "validate_group_keys child slots (acc @ [\<lparr>sv_slot_id = s, sv_value = v\<rparr>]) = Inr keys"
    by (auto simp: result_simps list_ex_slot split: if_splits)
  have "distinct (slots_of (acc @ [\<lparr>sv_slot_id = s, sv_value = v\<rparr>]))" using v(2) Cons.prems(2) by auto
  note ih = Cons.IH [OF v(3) this]
  show ?case
  proof (intro conjI)
    show "distinct (slots_of keys)" using ih by blast
    show "slots_of keys = slots_of acc @ s # slots" using ih by simp
    show "\<forall>e \<in> set keys. e \<in> set acc \<or> slot_lookup child (sv_slot_id e) = Inr (sv_value e)"
      using ih v(1) by auto
  qed
qed simp

lemma validate_calls_Inr:
  "validate_calls child calls acc = Inr out \<Longrightarrow> distinct (slots_of acc) \<Longrightarrow>
   \<exists>added. out = acc @ added \<and> distinct (slots_of out)
     \<and> list_all2 (\<lambda>call e. e = \<lparr>sv_slot_id = ac_output_slot call, sv_value = validation_value (ac_output_type call)\<rparr>
         \<and> (\<forall>v. slot_lookup child (ac_output_slot call) \<noteq> Inr v)
         \<and> (case ac_input_slot call of None \<Rightarrow> call_types_valid call None
            | Some s \<Rightarrow> \<exists>v. slot_lookup child s = Inr v \<and> call_types_valid call (runtime_type v))) calls added"
proof (induction calls arbitrary: acc)
  case (Cons call calls)
  let ?e = "\<lparr>sv_slot_id = ac_output_slot call, sv_value = validation_value (ac_output_type call)\<rparr>"
  from Cons.prems(1) obtain t where t: "(case ac_input_slot call of None \<Rightarrow> Inr None
          | Some slot \<Rightarrow> bind_result (slot_lookup child slot) (\<lambda>input. Inr (runtime_type input))) = Inr t"
      "call_types_valid call t" "validate_calls child calls (acc @ [?e]) = Inr out"
    and new: "\<forall>v. slot_lookup child (ac_output_slot call) \<noteq> Inr v" "ac_output_slot call \<notin> set (slots_of acc)"
    by (auto simp: result_simps list_ex_slot split: if_splits sum.splits)
  from new(2) Cons.prems(2) have "distinct (slots_of (acc @ [?e]))" by auto
  from Cons.IH [OF t(3) this] obtain added where "out = (acc @ [?e]) @ added" "distinct (slots_of out)"
      "list_all2 (\<lambda>call e. e = \<lparr>sv_slot_id = ac_output_slot call, sv_value = validation_value (ac_output_type call)\<rparr>
         \<and> (\<forall>v. slot_lookup child (ac_output_slot call) \<noteq> Inr v)
         \<and> (case ac_input_slot call of None \<Rightarrow> call_types_valid call None
            | Some s \<Rightarrow> \<exists>v. slot_lookup child s = Inr v \<and> call_types_valid call (runtime_type v))) calls added"
    by blast
  then show ?case using t(1,2) new
    by (intro exI [of _ "?e # added"]) (auto simp: result_simps split: option.splits)
qed simp

lemma call_entries_slots:
  "list_all2 (\<lambda>call e. e = \<lparr>sv_slot_id = ac_output_slot call, sv_value = f call\<rparr> \<and> P call) calls added \<Longrightarrow>
   slots_of added = map ac_output_slot calls"
  by (induction rule: list_all2_induct) auto

lemma validate_calls_slots:
  "validate_calls child calls acc = Inr out \<Longrightarrow> distinct (slots_of acc) \<Longrightarrow>
   \<exists>added. out = acc @ added \<and> distinct (slots_of out) \<and> slots_of added = map ac_output_slot calls"
  by (drule (1) validate_calls_Inr, elim exE conjE, drule call_entries_slots, blast)

subsection \<open>What validation establishes\<close>

lemma validation_slots:
  assumes "make_validation_slot_row table columns = Inr proto"
  shows "slots_of proto = map sc_output_slot columns" "distinct (slots_of proto)"
  using assms by (auto simp: make_validation_slot_row_def materialize_Inr validate_scan_columns_None comp_def)

definition static_ok :: "SlotRow \<Rightarrow> PlanNode \<Rightarrow> SlotRow \<times> SlotRow \<Rightarrow> bool" where
  "static_ok types node r \<longleftrightarrow>
     distinct (slots_of (fst r)) \<and> set (slots_of (fst r)) \<subseteq> set (introduced node)
     \<and> types_extend types (snd r) \<and> known_slots (snd r) \<subseteq> known_slots types \<union> set (introduced node)
     \<and> (distinct (introduced node) \<longrightarrow> set (introduced node) \<inter> known_slots types = {} \<longrightarrow> types_agree (snd r) (fst r))"

lemma static_ok_scan:
  assumes "make_validation_slot_row table columns = Inr proto"
  shows "static_ok types (SeqScanNode tid columns) (proto, append_slot_types types proto)"
proof -
  note slots = validation_slots [OF assms]
  have "types_agree (append_slot_types types proto) proto"
    if "set (slots_of proto) \<inter> known_slots types = {}"
  proof (rule types_agree_append [OF slots(2)], rule ballI)
    fix e assume "e \<in> set proto"
    then have "sv_slot_id e \<in> set (slots_of proto)" by simp
    then have "sv_slot_id e \<notin> known_slots types" using that by auto
    then show "find_slot_type_value types (sv_slot_id e) \<in> {None, Some (sv_value e)}" by (simp add: known_slots_def)
  qed
  moreover have "introduced (SeqScanNode tid columns) = slots_of proto" by (simp add: slots(1))
  ultimately show ?thesis using slots(2) by (simp add: static_ok_def known_slots_append)
qed

lemma static_ok_join:
  assumes left: "static_ok types l (pl, types1)" and right: "static_ok types1 r (pr, types2)"
    and merged: "merge_slot_rows pl pr = Inr proto"
  shows "static_ok types (JoinNode k c (Some l) (Some r)) (proto, types2)"
proof -
  have d: "distinct (slots_of (pl @ pr))" "proto = pl @ pr"
    using merged merge_slot_rows_Inr left unfolding static_ok_def fst_conv by blast+
  have ext: "types_extend types1 types2" using right by (simp add: static_ok_def)
  have "types_agree types2 proto"
    if "distinct (introduced l @ introduced r)" "set (introduced l @ introduced r) \<inter> known_slots types = {}"
  proof -
    have "types_agree types1 pl" using left that unfolding static_ok_def by auto
    moreover have "set (introduced r) \<inter> known_slots types1 = {}" using left that unfolding static_ok_def by auto
    ultimately show ?thesis using types_agree_extend [OF _ ext] right that
      unfolding static_ok_def by (auto simp: d(2) types_agree_def)
  qed
  then show ?thesis using left right d types_extend_trans [OF _ ext]
    unfolding static_ok_def by (auto simp: d(2))
qed

lemma static_ok_aggregate:
  assumes child: "static_ok types node (pc, types1)" and keys: "validate_group_keys pc group_keys [] = Inr keys"
    and calls: "validate_calls pc calls keys = Inr out"
  shows "static_ok types (AggregateNode group_keys calls (Some node)) (out, append_slot_types types1 out)"
proof -
  have "distinct (slots_of ([] :: SlotRow))" by simp
  from validate_group_keys_Inr [OF keys this]
  have k: "distinct (slots_of keys)" "\<forall>e \<in> set keys. slot_lookup pc (sv_slot_id e) = Inr (sv_value e)"
    by (blast, simp)
  obtain added where out: "out = keys @ added" "distinct (slots_of out)" "slots_of added = map ac_output_slot calls"
    using validate_calls_slots [OF calls k(1)] by blast
  have dc: "distinct (slots_of pc)" using child by (simp add: static_ok_def)
  have key_entry: "e \<in> set pc" if "e \<in> set keys" for e
    using k(2) that lookup_value_distinct [OF dc, of "sv_slot_id e" "sv_value e"]
    by (cases e rule: SlotValue.cases) (auto simp: slot_lookup_iff)
  have sub: "set (slots_of keys) \<subseteq> set (introduced node)" using key_entry child by (fastforce simp: static_ok_def)
  have "types_agree (append_slot_types types1 out) out"
    if new: "distinct (introduced node @ map ac_output_slot calls)"
      "set (introduced node @ map ac_output_slot calls) \<inter> known_slots types = {}"
  proof (rule types_agree_append [OF out(2)], rule ballI)
    fix e assume "e \<in> set out"
    then consider "e \<in> set keys" | "e \<in> set added" using out(1) by auto
    then show "find_slot_type_value types1 (sv_slot_id e) \<in> {None, Some (sv_value e)}"
    proof cases
      case 1
      then show ?thesis using key_entry child new unfolding static_ok_def by (auto simp: types_agree_def)
    next
      case 2
      then have "sv_slot_id e \<in> set (map ac_output_slot calls)" unfolding out(3) [symmetric] by simp
      then have "sv_slot_id e \<notin> known_slots types1"
        using child new unfolding static_ok_def fst_conv snd_conv distinct_append set_append by blast
      then show ?thesis by (simp add: known_slots_def)
    qed
  qed
  moreover have slots: "set (slots_of out) \<subseteq> set (introduced node @ map ac_output_slot calls)"
    using sub unfolding out(1) map_append set_append out(3) by blast
  moreover have "known_slots (append_slot_types types1 out)
      \<subseteq> known_slots types \<union> set (introduced node @ map ac_output_slot calls)"
    using child slots unfolding static_ok_def known_slots_append fst_conv snd_conv set_append by blast
  moreover have "types_extend types (append_slot_types types1 out)"
    using child types_extend_trans [OF _ types_extend_append] unfolding static_ok_def by simp
  ultimately show ?thesis using out(2) unfolding static_ok_def fst_conv snd_conv introduced.simps by blast
qed

lemma validate_node_static:
  "validate_dataflow_node catalog node depth types = Inr r \<Longrightarrow> static_ok types node r"
proof (induction catalog node depth types arbitrary: r rule: validate_dataflow_node.induct)
  case (1 catalog tid columns depth types)
  then show ?case using static_ok_scan by (auto simp: result_simps split: if_splits option.splits)
next
  case (2 catalog predicate child depth types)
  then show ?case by (fastforce simp: result_simps static_ok_def split: if_splits option.splits)
next
  case (4 catalog keys child depth types)
  then show ?case by (fastforce simp: result_simps static_ok_def split: if_splits option.splits)
next
  case (5 catalog kind condition left right depth types)
  then obtain pl types1 pr types2 merged where
    l: "validate_dataflow_node catalog left (depth + 1) types = Inr (pl, types1)"
    and r: "validate_dataflow_node catalog right (depth + 1) types1 = Inr (pr, types2)"
    and m: "merge_slot_rows pl pr = Inr merged" "r = (merged, types2)" and d: "\<not> kMaxPlanDepth \<le> depth"
    by (auto simp: result_simps split: if_splits option.splits)
  show ?case unfolding m(2)
    by (rule static_ok_join [OF "5.IH"(1) [OF d l] "5.IH"(2) [OF d r] m(1)])
next
  case (7 catalog group_keys calls child depth types)
  then obtain pc types1 keys out where c: "validate_dataflow_node catalog child (depth + 1) types = Inr (pc, types1)"
    and k: "validate_group_keys pc group_keys [] = Inr keys" "validate_calls pc calls keys = Inr out"
    and r: "r = (out, append_slot_types types1 out)" and d: "\<not> kMaxPlanDepth \<le> depth"
    by (auto simp: result_simps split: if_splits)
  show ?case unfolding r by (rule static_ok_aggregate [OF "7.IH" [OF d c] k])
qed (auto split: if_splits)

end
