(* ===== verification/Query_Semantics.thy ===== *)
theory Query_Semantics
  imports Query_Plan
begin

text \<open>
  What a query means, and that validated queries compute it. The reference evaluates the plan tree with
  a filter that cannot fail and a join by definition; validated plans that introduce every slot once
  execute exactly like that, and every intermediate row conforms to the static row of its node.
\<close>

subsection \<open>Reference semantics\<close>

fun ref_node :: "'l QueryEnv \<Rightarrow> PlanNode \<Rightarrow> (Failure, SlotRow list) result" where
  "ref_node env (SeqScanNode table_id columns) =
     (case find_catalog_table (qe_catalog env) table_id of
        None \<Rightarrow> fails (Inl (internal ''query plan references an unknown table''))
      | Some table \<Rightarrow>
          scan_table ''unknown exception while opening table for query'' (qe_scan env (tm_table_id table))
            (scan_handler table columns (qe_max_query_rows env)) [])"
| "ref_node env (FilterNode predicate (Some child)) =
     bind_result (ref_node env child) (\<lambda>rows. Inr (filter (holds predicate) rows))"
| "ref_node env (SortNode keys (Some child)) =
     bind_result (ref_node env child) (\<lambda>rows. fails (execute_sort rows keys))"
| "ref_node env (JoinNode kind condition (Some left) (Some right)) =
     bind_result (ref_node env left) (\<lambda>left_rows.
     bind_result (ref_node env right) (\<lambda>right_rows.
       fails (join_spec condition (qe_max_query_rows env) left_rows right_rows)))"
| "ref_node env (AggregateNode group_keys calls (Some child)) =
     bind_result (ref_node env child) (\<lambda>rows.
       fails (execute_aggregate (qe_hash env) (qe_long_double env) group_keys calls rows))"
| "ref_node env _ = fails (Inl (internal ''query execution encountered an invalid node topology''))"

abbreviation conform :: "SlotRow \<Rightarrow> SlotRow list \<Rightarrow> bool" where
  "conform proto rows \<equiv> \<forall>row \<in> set rows. row_conforms proto row"

subsection \<open>Scans and filters\<close>

lemma handle_scan_rows:
  assumes "\<forall>row \<in> set rows. \<exists>values. materialize_slot_row table values columns = Inr row"
    and "handle_all (scan_handler table columns limit) records rows = Inr out"
  shows "\<forall>row \<in> set out. \<exists>values. materialize_slot_row table values columns = Inr row"
  using assms
proof (induction records arbitrary: rows)
  case (Cons rcd records)
  from Cons.prems(2) obtain row where row: "materialize_slot_row table (rec_values rcd) columns = Inr row"
      "handle_all (scan_handler table columns limit) records (rows @ [row]) = Inr out"
    by (auto simp: scan_handler_def [of table columns limit rows rcd] result_simps split: sum.splits if_splits)
  with Cons.IH [of "rows @ [row]"] Cons.prems(1) show ?case by auto
qed simp

lemma scan_conforms:
  assumes "make_validation_slot_row table columns = Inr proto"
    and "scan_table msg scan (scan_handler table columns limit) [] = Inr rows"
  shows "conform proto rows"
  using handle_scan_rows [of "[]"] assms materialize_conforms(1) [OF assms(1)] by (fastforce simp: scan_table_Inr)

lemma filter_rows_spec:
  assumes "validate_predicate predicate proto = None" "conform proto rows"
  shows "filter_rows predicate rows = Inr (filter (holds predicate) rows)"
  using assms(2)
proof (induction rows)
  case (Cons row rows)
  then obtain b where "evaluate_predicate predicate row = Inr b"
    using validated_holds_total [OF assms(1)] by auto
  then show ?case using Cons by (simp add: holds_def)
qed simp

lemma check_sort_slots_Inr: "check_sort_slots row keys = Inr u \<Longrightarrow> \<forall>k \<in> set keys. \<exists>p. slot_lookup row (sk_slot_id k) = Inr p"
  by (induction keys) (auto simp: result_simps)

lemma sort_conforms:
  assumes "conform proto rows" "check_sort_slots proto keys = Inr u" "execute_sort rows keys = Inr out"
  shows "mset out = mset rows"
  using execute_sort_spec [OF assms(1) check_sort_slots_Inr [OF assms(2)]] assms(3) by (auto split: if_splits)

lemma join_spec_conforms:
  assumes "conform pl lefts" "conform pr rights" "join_spec condition limit lefts rights = Inr rows"
  shows "conform (pl @ pr) rows"
  using assms row_conforms_append by (fastforce simp: join_spec_def limited_def split: if_splits)

subsection \<open>Aggregates\<close>

lemma add_row_members:
  "\<forall>(k, ms) \<in> set gs. P k \<and> set ms \<subseteq> S \<Longrightarrow> P key \<Longrightarrow> row \<in> S \<Longrightarrow>
   \<forall>(k, ms) \<in> set (add_row key row gs). P k \<and> set ms \<subseteq> S"
  by (induction key row gs rule: add_row.induct) (auto split: if_splits)

lemma fold_add_row_members:
  "\<forall>(k, ms) \<in> set gs. P k \<and> set ms \<subseteq> S \<Longrightarrow> \<forall>row \<in> set rows. P (f row) \<and> row \<in> S \<Longrightarrow>
   \<forall>(k, ms) \<in> set (fold (\<lambda>row. add_row (f row) row) rows gs). P k \<and> set ms \<subseteq> S"
proof (induction rows arbitrary: gs)
  case (Cons row rows)
  then show ?case using add_row_members [of gs P S "f row" row] by simp
qed simp

text \<open>The members of a group are rows of the input, and its key fits the static row.\<close>

lemma group_rows_members:
  assumes "\<forall>row \<in> set rows. P (grouping_key group_keys row)" "group_keys = [] \<Longrightarrow> P []"
    and "(k, ms) \<in> set (group_rows group_keys rows)"
  shows "P k" "set ms \<subseteq> set rows"
proof -
  have "\<forall>(k, ms) \<in> set (if group_keys = [] then [([], [])] else []). P k \<and> set ms \<subseteq> set rows"
    using assms(2) by auto
  moreover have "\<forall>row \<in> set rows. P (grouping_key group_keys row) \<and> row \<in> set rows" using assms(1) by blast
  ultimately have "\<forall>(k, ms) \<in> set (group_rows group_keys rows). P k \<and> set ms \<subseteq> set rows"
    unfolding group_rows_def by (rule fold_add_row_members)
  then show "P k" "set ms \<subseteq> set rows" using assms(3) by auto
qed

lemma bound_in_conform:
  assumes "conform proto rows" "slot_lookup proto s = Inr p"
  shows "bound_in rows s" "v \<in> set (column_values s rows) \<Longrightarrow> runtime_type v = runtime_type p"
proof -
  have fits: "\<exists>w. slot_lookup row s = Inr w \<and> value_fits p w" if "row \<in> set rows" for row
    using slot_lookup_conforms assms that by blast
  then show "bound_in rows s" by (auto simp: bound_in_def)
  show "runtime_type v = runtime_type p" if "v \<in> set (column_values s rows)"
    using that fits by (fastforce simp: column_values_def slot_value_def value_fits_def)
qed

lemma run_steps_invariant:
  assumes "run_steps step vs state = Inr state'" "I state"
    and "\<And>v s s'. v \<in> set vs \<Longrightarrow> I s \<Longrightarrow> step v s = Inr s' \<Longrightarrow> I s'"
  shows "I state'"
  using assms
proof (induction vs arbitrary: state)
  case (Cons v vs)
  then obtain s where "step v state = Inr s" "run_steps step vs s = Inr state'" by (auto simp: result_simps)
  with Cons show ?case by (metis list.set_intros)
qed simp

lemma sum_state_typed:
  assumes "accumulate_sum call v s = Inr s'"
  shows "\<exists>w. as_value s' = Some w \<and> runtime_type w = Some (if ac_output_type call = kDouble then kDouble else kBigInt)"
  using assms by (auto simp: accumulate_sum_def result_simps Let_def split: if_splits Value.splits)

lemma extremum_state_member:
  assumes "accumulate_extremum kind v s = Inr s'"
  shows "as_value s' = Some v \<or> as_value s' = as_value s"
  using assms by (auto simp: accumulate_extremum_def split: option.splits if_splits)

lemma aggregate_value_typed:
  assumes "conform proto rows" "aggregate_value ld call rows = Inr v"
    and "case ac_input_slot call of None \<Rightarrow> call_types_valid call None
         | Some s \<Rightarrow> \<exists>p. slot_lookup proto s = Inr p \<and> call_types_valid call (runtime_type p)"
  shows "value_fits (validation_value (ac_output_type call)) v"
proof (cases "ac_kind call = kCount \<or> ac_kind call = kAvg")
  case True
  have out: "ac_kind call = kCount \<and> ac_output_type call = kBigInt \<or> ac_kind call = kAvg \<and> ac_output_type call = kDouble"
    using assms(3) True by (auto simp: call_types_valid_def Let_def split: option.splits if_splits)
  from assms(2) obtain st where "finish_aggregate ld call st = Inr v" by (auto simp: aggregate_value_def result_simps)
  then show ?thesis using out by (auto simp: finish_aggregate_def value_fits_def Let_def split: if_splits)
next
  case False
  then obtain s p where s: "ac_input_slot call = Some s" "slot_lookup proto s = Inr p" "call_types_valid call (runtime_type p)"
    using assms(3) by (cases "ac_input_slot call") (auto simp: call_types_valid_def split: option.splits)
  note bnd = bound_in_conform [OF assms(1) s(2)]
  obtain st where st: "run_steps (value_step ld call) (column_values s rows) (initial_state ld) = Inr st"
      "finish_aggregate ld call st = Inr v"
    using assms(2) by (auto simp: aggregate_value_def accumulate_rows_values [OF s(1) bnd(1)] result_simps)
  let ?I = "\<lambda>st :: 'a AggregateState. \<forall>w. as_value st = Some w \<longrightarrow> runtime_type w = Some (ac_output_type call)"
  have "?I st"
  proof (rule run_steps_invariant [OF st(1)])
    show "?I (initial_state ld)" by (simp add: initial_state_def)
    fix v s1 s2 assume v: "v \<in> set (column_values s rows)" "?I s1" "value_step ld call v s1 = Inr s2"
    show "?I s2"
    proof (cases "ac_kind call = kSum")
      case True
      then have "accumulate_sum call v s1 = Inr s2" using v(3) by (simp add: value_step_def)
      moreover have "ac_output_type call = kDouble \<or> ac_output_type call = kBigInt"
        using s(3) True by (auto simp: call_types_valid_def Let_def split: if_splits)
      ultimately show ?thesis using sum_state_typed by fastforce
    next
      case 2: False
      then have "accumulate_extremum (ac_kind call) v s1 = Inr s2" using v(3) False
        by (cases "ac_kind call") (auto simp: value_step_def)
      moreover have "runtime_type p = Some (ac_output_type call)"
        using s(3) 2 False by (cases "ac_kind call") (auto simp: call_types_valid_def Let_def split: if_splits)
      ultimately show ?thesis using extremum_state_member v(1,2) bnd(2) by fastforce
    qed
  qed
  moreover have "v = (case as_value st of Some v \<Rightarrow> v | None \<Rightarrow> VNull)" using st(2) False by (simp add: finish_aggregate_def)
  ultimately show ?thesis by (auto simp: value_fits_def split: option.splits)
qed

lemma keyed_entries_conform:
  "list_all2 (\<lambda>e v. value_fits (sv_value e) v) keys k \<Longrightarrow>
   row_conforms keys (map (\<lambda>(slot, key). \<lparr>sv_slot_id = slot, sv_value = key\<rparr>) (zip (slots_of keys) k))"
  unfolding row_conforms_def by (induction rule: list_all2_induct) auto

lemma grouping_key_fits:
  assumes "row_conforms pc row" "\<forall>e \<in> set keys. slot_lookup pc (sv_slot_id e) = Inr (sv_value e)"
  shows "list_all2 (\<lambda>e v. value_fits (sv_value e) v) keys (grouping_key (slots_of keys) row)"
  using assms(2)
proof (induction keys)
  case (Cons e keys)
  then obtain w where "slot_lookup row (sv_slot_id e) = Inr w" "value_fits (sv_value e) w"
    using slot_lookup_conforms [OF assms(1)] by (meson list.set_intros(1))
  then show ?case using Cons by (simp add: grouping_key_def)
qed (simp add: grouping_key_def)

lemma call_entries_conform:
  assumes "list_all2 (\<lambda>call e. e = \<lparr>sv_slot_id = ac_output_slot call, sv_value = validation_value (ac_output_type call)\<rparr>
      \<and> P call) calls added"
    and "list_all2 (\<lambda>call v. Q call v) calls vs"
    and "\<And>call v. P call \<Longrightarrow> Q call v \<Longrightarrow> value_fits (validation_value (ac_output_type call)) v"
  shows "row_conforms added (map (\<lambda>(call, value). \<lparr>sv_slot_id = ac_output_slot call, sv_value = value\<rparr>) (zip calls vs))"
  using assms(1,2)
proof (induction calls arbitrary: added vs)
  case (Cons call calls)
  then show ?case using assms(3) by (auto simp: list_all2_Cons1 row_conforms_def)
qed (simp add: row_conforms_def)

lemma validated_keys:
  assumes "validate_group_keys pc group_keys [] = Inr keys"
  shows "distinct (slots_of keys)" "group_keys = slots_of keys"
    "\<forall>e \<in> set keys. slot_lookup pc (sv_slot_id e) = Inr (sv_value e)"
proof -
  have "distinct (slots_of ([] :: SlotRow))" by simp
  note k = validate_group_keys_Inr [OF assms this]
  show "distinct (slots_of keys)" using k by blast
  show "group_keys = slots_of keys" "\<forall>e \<in> set keys. slot_lookup pc (sv_slot_id e) = Inr (sv_value e)" using k by auto
qed

lemma aggregate_conforms:
  assumes "conform pc rows" "validate_group_keys pc group_keys [] = Inr keys" "validate_calls pc calls keys = Inr out"
    and "execute_aggregate h ld group_keys calls rows = Inr rows'"
  shows "conform out rows'"
proof
  fix row assume row: "row \<in> set rows'"
  note keys = validated_keys [OF assms(2)]
  have "\<forall>s \<in> set group_keys. bound_in rows s"
    using bound_in_conform(1) [OF assms(1)] keys(3) unfolding keys(2) by auto
  then have "list_all2 (group_row ld group_keys calls) (group_rows group_keys rows) rows'"
    using execute_aggregate_bound assms(4) by blast
  then obtain k ms where g: "(k, ms) \<in> set (group_rows group_keys rows)" "group_row ld group_keys calls (k, ms) row"
    using row by (metis in_set_conv_nth list_all2_conv_all_nth old.prod.exhaust)
  have "\<forall>row \<in> set rows. list_all2 (\<lambda>e v. value_fits (sv_value e) v) keys (grouping_key group_keys row)"
    using grouping_key_fits [OF _ keys(3)] assms(1) keys(2) by blast
  moreover have "group_keys = [] \<Longrightarrow> list_all2 (\<lambda>e v. value_fits (sv_value e) v) keys []" using keys(2) by simp
  ultimately have k: "list_all2 (\<lambda>e v. value_fits (sv_value e) v) keys k" and "set ms \<subseteq> set rows"
    using group_rows_members [OF _ _ g(1)] by blast+
  then have ms: "conform pc ms" using assms(1) by blast
  obtain added where added: "out = keys @ added"
      "list_all2 (\<lambda>call e. e = \<lparr>sv_slot_id = ac_output_slot call, sv_value = validation_value (ac_output_type call)\<rparr>
         \<and> ((\<forall>v. slot_lookup pc (ac_output_slot call) \<noteq> Inr v)
         \<and> (case ac_input_slot call of None \<Rightarrow> call_types_valid call None
            | Some s \<Rightarrow> \<exists>v. slot_lookup pc s = Inr v \<and> call_types_valid call (runtime_type v)))) calls added"
    using validate_calls_Inr [OF assms(3) keys(1)] by blast
  obtain vs where vs: "list_all2 (\<lambda>call v. aggregate_value ld call ms = Inr v) calls vs"
    and r: "row = map (\<lambda>(slot, key). \<lparr>sv_slot_id = slot, sv_value = key\<rparr>) (zip group_keys k)
       @ map (\<lambda>(call, value). \<lparr>sv_slot_id = ac_output_slot call, sv_value = value\<rparr>) (zip calls vs)"
    using g(2) by (auto simp: group_row_def)
  have "row_conforms added (map (\<lambda>(call, value). \<lparr>sv_slot_id = ac_output_slot call, sv_value = value\<rparr>) (zip calls vs))"
    by (rule call_entries_conform [OF added(2) vs]) (use aggregate_value_typed [OF ms] in blast)
  then show "row_conforms out row"
    unfolding r added(1) keys(2) by (rule row_conforms_append [OF keyed_entries_conform [OF k]])
qed

subsection \<open>Which errors remain\<close>

text \<open>Errors of the statement's data, as opposed to errors of the engine.\<close>

definition data_error :: "Error \<Rightarrow> bool" where
  "data_error e \<longleftrightarrow> er_kind e = kExecute \<or> e = non_finite"

definition call_ok :: "SlotRow \<Rightarrow> AggregateCall \<Rightarrow> bool" where
  "call_ok proto call \<longleftrightarrow>
     (case ac_input_slot call of None \<Rightarrow> call_types_valid call None
      | Some s \<Rightarrow> \<exists>p. slot_lookup proto s = Inr p \<and> call_types_valid call (runtime_type p))"

definition state_ok :: "AggregateCall \<Rightarrow> 'l AggregateState \<Rightarrow> bool" where
  "state_ok call st \<longleftrightarrow> (\<forall>w. as_value st = Some w \<longrightarrow> runtime_type w = Some (ac_output_type call))"

definition data_result :: "('a \<Rightarrow> bool) \<Rightarrow> (Error, 'a) result \<Rightarrow> bool" where
  "data_result P r \<longleftrightarrow> (case r of Inl e \<Rightarrow> data_error e | Inr a \<Rightarrow> P a)"

lemma data_result_simps [simp]: "data_result P (Inl e) \<longleftrightarrow> data_error e" "data_result P (Inr a) \<longleftrightarrow> P a"
  by (simp_all add: data_result_def)

lemma data_result_mono: "data_result P r \<Longrightarrow> (\<And>a. P a \<Longrightarrow> Q a) \<Longrightarrow> data_result Q r"
  by (cases r) auto

lemma data_result_bind:
  "data_result P r \<Longrightarrow> (\<And>a. P a \<Longrightarrow> data_result Q (f a)) \<Longrightarrow> data_result Q (bind_result r f)"
  by (cases r) auto

lemma execute_is_data_error [simp]: "data_error (make_error kExecute m)" "data_error (make_error_hint kExecute m h)" "data_error non_finite"
  by (simp_all add: data_error_def make_error_def make_error_hint_def)

lemma compare_same_type: "runtime_type v = Some t \<Longrightarrow> runtime_type w = Some t \<Longrightarrow> compare_sort_values v w \<noteq> None"
  by (cases t) (auto simp: runtime_type_cases compare_typed_iff)

lemma extremum_data:
  assumes "runtime_type v = Some t" "state_ok call st" "ac_output_type call = t"
  shows "data_result (state_ok call) (accumulate_extremum kind v st)"
proof (cases "as_value st")
  case (Some c)
  then have "runtime_type c = Some t" using assms(2,3) by (simp add: state_ok_def)
  then obtain i where "compare_sort_values v c = Some i" using compare_same_type [OF assms(1)] by blast
  then show ?thesis using Some assms by (simp add: accumulate_extremum_def state_ok_def)
qed (simp add: accumulate_extremum_def state_ok_def assms)

lemma value_step_data:
  assumes "call_types_valid call (Some t)" "runtime_type v = Some t" "state_ok call st"
  shows "data_result (state_ok call) (value_step ld call v st)"
proof (cases "ac_kind call")
  case kCount
  then show ?thesis using assms(3) by (auto simp: value_step_def checked_increment_def state_ok_def)
next
  case kSum
  have out: "ac_output_type call = (if t = kDouble then kDouble else kBigInt)" "t = kInt \<or> t = kBigInt \<or> t = kDouble"
    using assms(1) kSum by (auto simp: call_types_valid_def Let_def split: if_splits)
  show ?thesis using kSum out assms(2,3)
    by (cases v; cases "as_value st")
      (auto simp: value_step_def accumulate_sum_def state_ok_def Let_def checked_add_def runtime_type_cases)
next
  case kAvg
  then have "t = kInt \<or> t = kBigInt \<or> t = kDouble"
    using assms(1) by (auto simp: call_types_valid_def Let_def split: if_splits)
  then show ?thesis using kAvg assms(2,3)
    by (cases v) (auto simp: value_step_def accumulate_avg_def checked_increment_def state_ok_def Let_def)
next
  case kMin
  then have "ac_output_type call = t" using assms(1) by (auto simp: call_types_valid_def Let_def split: if_splits)
  then show ?thesis using kMin extremum_data [OF assms(2,3)] by (simp add: value_step_def)
next
  case kMax
  then have "ac_output_type call = t" using assms(1) by (auto simp: call_types_valid_def Let_def split: if_splits)
  then show ?thesis using kMax extremum_data [OF assms(2,3)] by (simp add: value_step_def)
qed

lemma accumulate_data:
  assumes "call_ok proto call" "row_conforms proto row" "state_ok call st"
  shows "data_result (state_ok call) (accumulate_aggregate ld call row st)"
proof (cases "ac_input_slot call")
  case None
  then have "ac_kind call = kCount"
    using assms(1) by (auto simp: call_ok_def call_types_valid_def Let_def split: if_splits)
  then show ?thesis using None assms(3)
    by (auto simp: accumulate_aggregate_def checked_increment_def state_ok_def)
next
  case (Some s)
  then obtain p where p: "slot_lookup proto s = Inr p" "call_types_valid call (runtime_type p)"
    using assms(1) by (auto simp: call_ok_def)
  obtain v where v: "slot_lookup row s = Inr v" "value_fits p v" using slot_lookup_conforms [OF assms(2) p(1)] by blast
  have "accumulate_aggregate ld call row st = (if v = VNull then Inr st else value_step ld call v st)"
    by (simp add: accumulate_aggregate_def Some v value_step_def split: AggregateKind.splits)
  moreover have "data_result (state_ok call) (value_step ld call v st)" if "v \<noteq> VNull"
  proof -
    have "runtime_type v = runtime_type p" using v(2) that by (simp add: value_fits_def)
    moreover obtain t where "runtime_type v = Some t" by (cases v) (use \<open>v \<noteq> VNull\<close> in auto)
    ultimately show ?thesis using value_step_data p(2) assms(3) by metis
  qed
  ultimately show ?thesis using assms(3) by simp
qed

abbreviation states_ok :: "AggregateCall list \<Rightarrow> 'l AggregateState list \<Rightarrow> bool" where
  "states_ok calls states \<equiv> list_all2 state_ok calls states"

lemma accumulate_all_data:
  assumes "\<forall>call \<in> set calls. call_ok proto call" "row_conforms proto row" "states_ok calls states"
  shows "data_result (states_ok calls) (accumulate_all ld calls row states)"
  using assms(3,1)
proof (induction rule: list_all2_induct)
  case (Cons call calls st states)
  show ?case unfolding accumulate_all.simps
    by (intro data_result_bind [OF accumulate_data [OF _ assms(2) Cons.hyps(1)]] data_result_bind [OF Cons.IH])
      (use Cons.prems in auto)
qed simp

definition groups_ok :: "QuerySlot list \<Rightarrow> AggregateCall list \<Rightarrow> 'l AggregateGroup list \<times> (Value list \<times> nat) list \<Rightarrow> bool" where
  "groups_ok group_keys calls gi \<longleftrightarrow> (\<forall>g \<in> set (fst gi). states_ok calls (ag_states g))
     \<and> (\<forall>(k, i) \<in> set (snd gi). i < length (fst gi)) \<and> (group_keys = [] \<longrightarrow> fst gi \<noteq> [])"

lemma locate_group_ok:
  assumes "groups_ok group_keys calls gi" "locate_group h ld calls keys gi = (p, groups, index)"
  shows "p < length groups \<and> groups_ok group_keys calls (groups, index)"
proof -
  have "states_ok calls (ag_states (new_group ld calls keys))"
    by (simp add: new_group_def initial_state_def state_ok_def list_all2_conv_all_nth)
  moreover have "i < length (fst gi)" if "hash_find (value_key_hash h) grouping_keys_equal (snd gi) keys = Some i" for i
  proof -
    from that obtain k where "(k, i) \<in> set (snd gi)" by (auto simp: hash_find_def find_Some_iff) (metis nth_mem)
    then show ?thesis using assms(1) by (auto simp: groups_ok_def)
  qed
  ultimately show ?thesis using assms
    by (cases gi) (fastforce simp: groups_ok_def locate_group_def Let_def split: if_splits option.splits)
qed

lemma aggregate_rows_data:
  assumes "\<forall>call \<in> set calls. call_ok proto call" "conform proto rows"
    and "\<forall>s \<in> set group_keys. \<exists>p. slot_lookup proto s = Inr p" "groups_ok group_keys calls gi"
  shows "data_result (\<lambda>groups. \<forall>g \<in> set groups. states_ok calls (ag_states g)) (aggregate_rows h ld group_keys calls rows gi)"
  using assms(2,4)
proof (induction rows arbitrary: gi)
  case Nil
  then show ?case by (simp add: groups_ok_def)
next
  case (Cons row rows)
  have keys: "collect_results (slot_lookup row) group_keys = Inr (grouping_key group_keys row)"
    unfolding grouping_key_def
  proof (rule collect_results_map_Inr)
    fix s assume "s \<in> set group_keys"
    then obtain w where "slot_lookup row s = Inr w"
      using slot_lookup_conforms [of proto row] assms(3) Cons.prems(1) by fastforce
    then show "slot_lookup row s = Inr (case slot_lookup row s of Inl _ \<Rightarrow> VNull | Inr v \<Rightarrow> v)" by simp
  qed
  have "\<exists>p groups index. (if group_keys = [] then Inr (0, gi)
       else bind_result (collect_results (slot_lookup row) group_keys) (\<lambda>keys. Inr (locate_group h ld calls keys gi)))
        = Inr (p, groups, index) \<and> p < length groups \<and> groups_ok group_keys calls (groups, index)"
  proof (cases "group_keys = []")
    case True
    then show ?thesis using Cons.prems(2) by (cases gi) (auto simp: groups_ok_def)
  next
    case False
    then show ?thesis using locate_group_ok [OF Cons.prems(2), of h ld "grouping_key group_keys row"] keys
      by (cases "locate_group h ld calls (grouping_key group_keys row) gi") auto
  qed
  then obtain p groups index where
    loc: "(if group_keys = [] then Inr (0, gi)
       else bind_result (collect_results (slot_lookup row) group_keys) (\<lambda>keys. Inr (locate_group h ld calls keys gi)))
        = Inr (p, groups, index)"
    and ok: "p < length groups" "groups_ok group_keys calls (groups, index)" by blast
  have "states_ok calls (ag_states (groups ! p))" using ok by (simp add: groups_ok_def)
  then have "data_result (states_ok calls) (accumulate_all ld calls row (ag_states (groups ! p)))"
    by (intro accumulate_all_data [OF assms(1)]) (use Cons.prems(1) in auto)
  moreover have "data_result (\<lambda>groups. \<forall>g \<in> set groups. states_ok calls (ag_states g))
      (aggregate_rows h ld group_keys calls rows (groups[p := (groups ! p)\<lparr>ag_states := states\<rparr>], index))"
    if "states_ok calls states" for states
    using that ok Cons.prems(1)
    by (intro Cons.IH) (auto simp: groups_ok_def dest: subsetD [OF set_update_subset_insert])
  ultimately show ?case by (simp only: aggregate_rows.simps loc bind_result_simps prod.case) (rule data_result_bind)
qed

lemma collect_results_data: "\<forall>x \<in> set xs. data_result (\<lambda>_. True) (f x) \<Longrightarrow> data_result (\<lambda>_. True) (collect_results f xs)"
  by (induction xs) (auto intro!: data_result_bind)

lemma execute_aggregate_data:
  assumes "conform pc rows" "validate_group_keys pc group_keys [] = Inr keys" "validate_calls pc calls keys = Inr out"
  shows "data_result (\<lambda>_. True) (execute_aggregate h ld group_keys calls rows)"
proof -
  note keys = validated_keys [OF assms(2)]
  have calls: "\<forall>call \<in> set calls. call_ok pc call"
    using validate_calls_Inr [OF assms(3) keys(1)]
    by (auto simp: call_ok_def list_all2_conv_all_nth in_set_conv_nth)
  have start: "groups_ok group_keys calls (if group_keys = [] then [new_group ld calls []] else [], [])"
    by (simp add: groups_ok_def new_group_def initial_state_def state_ok_def list_all2_conv_all_nth)
  have "\<forall>s \<in> set group_keys. \<exists>p. slot_lookup pc s = Inr p" using keys(3) unfolding keys(2) by auto
  from aggregate_rows_data [OF calls assms(1) this start]
  have "data_result (\<lambda>_. True) (aggregate_rows h ld group_keys calls rows (if group_keys = [] then [new_group ld calls []] else [], []))"
    by (rule data_result_mono) simp
  then show ?thesis unfolding execute_aggregate_def
  proof (rule data_result_bind, intro collect_results_data ballI)
    fix gs :: "'a AggregateGroup list" and g :: "'a AggregateGroup"
    show "data_result (\<lambda>_. True) (group_output ld group_keys calls g)"
      unfolding group_output_def
      by (intro data_result_bind [OF collect_results_data]) (auto simp: finish_aggregate_def Let_def)
  qed
qed

text \<open>Storage works: scans of catalog tables succeed and deliver rows of the schema.\<close>

definition storage_ok :: "'l QueryEnv \<Rightarrow> bool" where
  "storage_ok env \<longleftrightarrow> (\<forall>table \<in> set (qe_catalog env). scan_ok (qe_scan env (tm_table_id table))
     \<and> (\<forall>r \<in> set (delivered (ts_next (qe_scan env (tm_table_id table)))). validate_physical_row table (rec_values r) = None))"

definition failure_ok :: "Failure \<Rightarrow> bool" where
  "failure_ok f \<longleftrightarrow> data_error (failed_with f) \<and> \<not> aborts_session f"

lemma handle_scan_data:
  assumes "\<forall>r \<in> set records. \<exists>row. materialize_slot_row table (rec_values r) columns = Inr row"
    and "handle_all (scan_handler table columns limit) records rows = Inl f"
  shows "failure_ok f"
  using assms
proof (induction records arbitrary: rows)
  case (Cons rcd records)
  then obtain row where row: "materialize_slot_row table (rec_values rcd) columns = Inr row" by auto
  show ?case
  proof (cases "limit \<le> length rows")
    case True
    then show ?thesis using Cons.prems(2) row by (auto simp: scan_handler_def query_limit_error_def failure_ok_def)
  next
    case False
    then show ?thesis using Cons.IH [of "rows @ [row]"] Cons.prems row by (simp add: scan_handler_def [of table columns limit rows rcd])
  qed
qed simp

lemma scan_data:
  assumes "storage_ok env" "find_catalog_table (qe_catalog env) tid = Some table"
    and "make_validation_slot_row table columns = Inr proto"
    and "scan_table msg (qe_scan env (tm_table_id table)) (scan_handler table columns limit) [] = Inl f"
  shows "failure_ok f"
proof -
  have t: "table \<in> set (qe_catalog env)" using assms(2) by (auto simp: find_catalog_table_def find_Some_iff)
  have "validate_scan_columns table columns = None"
    using assms(3) by (simp add: make_validation_slot_row_def materialize_Inr)
  then have "\<forall>r \<in> set (delivered (ts_next (qe_scan env (tm_table_id table)))).
      \<exists>row. materialize_slot_row table (rec_values r) columns = Inr row"
    using assms(1) t by (auto simp: storage_ok_def materialize_Inr validate_physical_row_None)
  then show ?thesis using handle_scan_data assms(1,4) t by (auto simp: storage_ok_def scan_table_ok)
qed

lemma sort_data:
  assumes "conform proto rows" "check_sort_slots proto keys = Inr u" "execute_sort rows keys = Inl e"
  shows "data_error e"
  using execute_sort_spec [OF assms(1) check_sort_slots_Inr [OF assms(2)]] assms(3) by (auto split: if_splits)

lemma join_spec_data: "join_spec condition limit lefts rights = Inl e \<Longrightarrow> data_error e"
  by (auto simp: join_spec_def limited_def join_limit_error_def split: if_splits)

lemma aggregate_failure:
  assumes "conform pc rows" "validate_group_keys pc group_keys [] = Inr keys" "validate_calls pc calls keys = Inr out"
    and "fails (execute_aggregate h ld group_keys calls rows) = Inl f"
  shows "failure_ok f"
  using execute_aggregate_data [OF assms(1-3), of h ld] assms(4)
  by (cases "execute_aggregate h ld group_keys calls rows") (auto simp: failure_ok_def)

subsection \<open>Execution computes the reference\<close>

text \<open>What is shown of a node: execution is the reference, its rows conform to the static row, and when
  storage works its failures are data errors.\<close>

definition node_ok :: "'l QueryEnv \<Rightarrow> PlanNode \<Rightarrow> nat \<Rightarrow> SlotRow \<Rightarrow> bool" where
  "node_ok env node depth proto \<longleftrightarrow> execute_node env node depth = ref_node env node
     \<and> (\<forall>rows. ref_node env node = Inr rows \<longrightarrow> conform proto rows)
     \<and> (storage_ok env \<longrightarrow> (\<forall>f. ref_node env node = Inl f \<longrightarrow> failure_ok f))"

lemma execute_node_ref:
  assumes "validate_dataflow_node (qe_catalog env) node depth types = Inr (proto, types')"
    and "distinct (introduced node)" "set (introduced node) \<inter> known_slots types = {}"
    and "types_extend types' (qe_slot_types env)"
  shows "node_ok env node depth proto"
  using assms
proof (induction "qe_catalog env" node depth types arbitrary: proto types' rule: validate_dataflow_node.induct)
  case (1 tid columns depth types)
  then obtain table where t: "find_catalog_table (qe_catalog env) tid = Some table"
      "make_validation_slot_row table columns = Inr proto" and d: "\<not> kMaxPlanDepth \<le> depth"
    by (auto simp: result_simps split: if_splits option.splits)
  then show ?case using scan_conforms [OF t(2)] scan_data [OF _ t] by (auto simp: node_ok_def)
next
  case (2 predicate child depth types)
  then have v: "validate_dataflow_node (qe_catalog env) child (depth + 1) types = Inr (proto, types')"
      "validate_predicate predicate proto = None" and d: "\<not> kMaxPlanDepth \<le> depth"
    by (auto simp: result_simps split: if_splits option.splits)
  have "node_ok env child (depth + 1) proto" using "2.hyps" [OF d v(1)] "2.prems" by simp
  then show ?case using d filter_rows_spec [OF v(2)]
    by (cases "ref_node env child") (auto simp: node_ok_def)
next
  case (4 keys child depth types)
  then obtain c u where c: "child = Some c" "validate_dataflow_node (qe_catalog env) c (depth + 1) types = Inr (proto, types')"
      "check_sort_slots proto keys = Inr u" and d: "\<not> kMaxPlanDepth \<le> depth" and k: "keys \<noteq> []"
    by (auto simp: result_simps split: if_splits option.splits)
  have "node_ok env c (depth + 1) proto" using "4.hyps" [OF d k c(1,2)] "4.prems" c(1) by simp
  then show ?case using d sort_conforms [OF _ c(3)] sort_data [OF _ c(3)] c(1)
    by (cases "ref_node env c") (auto simp: node_ok_def result_simps failure_ok_def, metis mset_eq_setD)
next
  case (5 kind condition left right depth types)
  then obtain pl types1 pr where
    l: "validate_dataflow_node (qe_catalog env) left (depth + 1) types = Inr (pl, types1)"
    and r: "validate_dataflow_node (qe_catalog env) right (depth + 1) types1 = Inr (pr, types')"
    and m: "merge_slot_rows pl pr = Inr proto" "validate_predicate condition proto = None"
    and d: "\<not> kMaxPlanDepth \<le> depth"
    by (auto simp: result_simps split: if_splits option.splits)
  note sl = validate_node_static [OF l] and sr = validate_node_static [OF r]
  have d_pl: "distinct (slots_of pl)" using sl by (simp add: static_ok_def)
  have p: "distinct (slots_of (pl @ pr))" "proto = pl @ pr" using m(1) merge_slot_rows_Inr [OF d_pl] by blast+
  have fresh: "set (introduced left) \<inter> known_slots types = {}" "set (introduced right) \<inter> known_slots types1 = {}"
    using "5.prems"(2,3) sl unfolding static_ok_def fst_conv snd_conv introduced.simps distinct_append set_append by blast+
  have ext: "types_extend types1 (qe_slot_types env)" "types_extend types' (qe_slot_types env)"
    using sr "5.prems"(4) types_extend_trans by (auto simp: static_ok_def)
  have agree: "types_agree (qe_slot_types env) pl" "types_agree (qe_slot_types env) pr"
    using sl sr fresh "5.prems"(2) ext types_agree_extend by (auto simp: static_ok_def)
  have "node_ok env left (depth + 1) pl" using "5.hyps"(1) [OF d l] "5.prems"(2) fresh ext by simp
  moreover have "node_ok env right (depth + 1) pr" using "5.hyps"(2) [OF d r] "5.prems"(2) fresh ext by simp
  moreover have "validate_predicate condition (pl @ pr) = None" using m(2) p(2) by simp
  ultimately show ?case
    using d execute_join_spec [OF _ _ p(1) _ agree] join_spec_conforms [where pl = pl and pr = pr] p(2) join_spec_data
    by (cases "ref_node env left"; cases "ref_node env right") (auto simp: node_ok_def result_simps failure_ok_def)
next
  case (7 group_keys calls child depth types)
  then obtain pc types1 keys where c: "validate_dataflow_node (qe_catalog env) child (depth + 1) types = Inr (pc, types1)"
    and k: "validate_group_keys pc group_keys [] = Inr keys" "validate_calls pc calls keys = Inr proto"
    and t: "types' = append_slot_types types1 proto" and d: "\<not> kMaxPlanDepth \<le> depth"
    by (auto simp: result_simps split: if_splits)
  have "types_extend types1 (qe_slot_types env)"
    using "7.prems"(4) types_extend_trans [OF types_extend_append] by (simp add: t)
  then have "node_ok env child (depth + 1) pc" using "7.hyps" [OF d c] "7.prems"(2,3) by auto
  then show ?case using d aggregate_conforms [OF _ k] aggregate_failure [OF _ k]
    by (cases "ref_node env child") (simp_all add: node_ok_def, blast)
qed (auto split: if_splits)

lemma ref_node_slot_types [simp]: "ref_node (env\<lparr>qe_slot_types := t\<rparr>) node = ref_node env node"
  by (induction env node rule: ref_node.induct) (simp_all split: option.splits)

lemma check_output_slots_Inr: "check_output_slots row slots = Inr u \<Longrightarrow> \<forall>s \<in> set slots. \<exists>p. slot_lookup row s = Inr p"
  by (induction slots) (auto simp: result_simps)

lemma result_headers_length: "result_headers slots outs = Inr cols \<Longrightarrow> length slots = length outs \<Longrightarrow> length cols = length slots"
  by (induction slots outs arbitrary: cols rule: result_headers.induct) (auto simp: result_simps split: if_splits)

definition project :: "QuerySlot list \<Rightarrow> SlotRow \<Rightarrow> Row" where
  "project outputs row = map (\<lambda>s. slot_value s row) outputs"

lemma project_rows_conform:
  assumes "conform proto rows" "\<forall>s \<in> set outputs. \<exists>p. slot_lookup proto s = Inr p"
  shows "project_rows outputs (length outputs) rows = Inr (map (project outputs) rows)"
  using assms(1)
proof (induction rows)
  case (Cons row rows)
  have "collect_results (slot_lookup row) outputs = Inr (project outputs row)"
    unfolding project_def
  proof (rule collect_results_map_Inr)
    fix s assume "s \<in> set outputs"
    then obtain w where "slot_lookup row s = Inr w"
      using slot_lookup_conforms [of proto row] assms(2) Cons.prems by fastforce
    then show "slot_lookup row s = Inr (slot_value s row)" by (simp add: slot_value_def)
  qed
  then show ?case using Cons by (simp add: project_def)
qed simp

lemma validated_query:
  assumes "validate_query_plan catalog plan = Inr query"
  obtains proto where "validate_dataflow_node catalog (vq_input query) 1 [] = Inr (proto, vq_slot_types query)"
    and "\<forall>s \<in> set (vq_outputs query). \<exists>p. slot_lookup proto s = Inr p"
    and "length (vq_result_columns query) = length (vq_outputs query)"
proof -
  from assms obtain inp prj proto types outs cols u where
    v: "validate_dataflow_node catalog inp 1 [] = Inr (proto, types)"
    and o: "length outs = length (qp_outputs plan)" "check_output_slots proto outs = Inr u"
      "result_headers outs (qp_outputs plan) = Inr cols"
    and q: "query = \<lparr>vq_input = inp, vq_outputs = outs, vq_result_columns = cols, vq_slot_types = types\<rparr>"
    by (auto simp: validate_query_plan_def result_simps Let_def split: if_splits)
  show ?thesis using that [of proto] v check_output_slots_Inr [OF o(2)] result_headers_length [OF o(3,1)] q by simp
qed

lemma execute_query_ref:
  assumes "validate_query_plan (qe_catalog env) plan = Inr query" "distinct (introduced (vq_input query))"
  shows "execute_query env plan =
    bind_result (ref_node env (vq_input query)) (\<lambda>rows.
      Inr \<lparr>qr_columns = vq_result_columns query, qr_rows = map (project (vq_outputs query)) rows\<rparr>)"
    and "\<exists>proto types. validate_dataflow_node (qe_catalog env) (vq_input query) 1 [] = Inr (proto, types)
      \<and> (\<forall>rows. ref_node env (vq_input query) = Inr rows \<longrightarrow> conform proto rows)"
proof -
  obtain proto where v: "validate_dataflow_node (qe_catalog env) (vq_input query) 1 [] = Inr (proto, vq_slot_types query)"
      "\<forall>s \<in> set (vq_outputs query). \<exists>p. slot_lookup proto s = Inr p"
      "length (vq_result_columns query) = length (vq_outputs query)"
    using validated_query [OF assms(1)] by blast
  let ?env = "env\<lparr>qe_slot_types := vq_slot_types query\<rparr>"
  have "known_slots [] = {}" by (simp add: known_slots_def find_slot_type_value_def)
  then have ok: "node_ok ?env (vq_input query) 1 proto"
    using execute_node_ref [of ?env "vq_input query" 1 "[]" proto "vq_slot_types query"] v(1) assms(2) by simp
  then show "execute_query env plan =
    bind_result (ref_node env (vq_input query)) (\<lambda>rows.
      Inr \<lparr>qr_columns = vq_result_columns query, qr_rows = map (project (vq_outputs query)) rows\<rparr>)"
    using project_rows_conform [OF _ v(2)] v(3) assms(1)
    by (cases "ref_node env (vq_input query)") (auto simp: execute_query_def node_ok_def)
  show "\<exists>proto types. validate_dataflow_node (qe_catalog env) (vq_input query) 1 [] = Inr (proto, types)
      \<and> (\<forall>rows. ref_node env (vq_input query) = Inr rows \<longrightarrow> conform proto rows)"
    using v(1) ok by (auto simp: node_ok_def)
qed

subsection \<open>Plans of the planner introduce every slot once\<close>

lemma generate_items_calls:
  "generate_items bindings n items = Inr (projects, outs, calls) \<Longrightarrow>
   map ac_output_slot calls = map word_of_nat [n..<n + length calls] \<and> (calls \<noteq> [] \<longrightarrow> n + length calls \<le> 2 ^ 32)"
proof (induction bindings n items arbitrary: projects outs calls rule: generate_items.induct)
  case (2 bindings n column rest)
  then show ?case by (auto simp: result_simps Let_def split: option.splits if_splits)
next
  case (3 bindings n aggregate rest)
  then obtain projects' outs' calls' c where r: "generate_items bindings (n + 1) rest = Inr (projects', outs', calls')"
    and c: "calls = c # calls'" "ac_output_slot c = word_of_nat n" and n: "\<not> 4294967295 < n"
    by (auto simp: result_simps Let_def split: if_splits)
  have "map ac_output_slot calls' = map word_of_nat [n + 1..<n + 1 + length calls']
      \<and> (calls' \<noteq> [] \<longrightarrow> n + 1 + length calls' \<le> 2 ^ 32)" by (rule "3.IH" [OF n refl r])
  then show ?case using c n unfolding c(1) map_upt_shift by (cases "calls' = []") auto
qed simp

lemma join_tree_introduced:
  assumes "length bindings = Suc (length (bs_joins statement))"
  shows "introduced (join_tree statement bindings conditions) = concat (map (\<lambda>b. map sc_output_slot (sb_columns b)) bindings)"
proof -
  have fold: "introduced (fold (\<lambda>(index, join) child. JoinNode kInner (conditions ! index) (Some child)
         (Some (SeqScanNode (bj_table_id join) (sb_columns (bindings ! (index + 1)))))) (enumerate k joins) t)
      = introduced t @ concat (map (\<lambda>i. map sc_output_slot (sb_columns (bindings ! (i + 1)))) [k..<k + length joins])" for k joins t
  proof (induction joins arbitrary: k t)
    case (Cons j joins)
    have "[k..<k + length (j # joins)] = k # [Suc k..<Suc k + length joins]" by (simp add: upt_rec)
    then show ?case using Cons by simp
  qed simp
  obtain b bs where b: "bindings = b # bs" "length bs = length (bs_joins statement)" using assms by (cases bindings) auto
  have "map (\<lambda>i. map sc_output_slot (sb_columns (bindings ! (i + 1)))) [0..<0 + length (bs_joins statement)]
      = map (\<lambda>b. map sc_output_slot (sb_columns b)) bs"
    using b by (intro nth_equalityI) auto
  then show ?thesis unfolding join_tree_def fold by (simp add: b(1))
qed

lemma distinct_slot_numbers: "m \<le> 2 ^ 32 \<Longrightarrow> distinct (map (word_of_nat :: nat \<Rightarrow> u32) [0..<m])"
proof -
  assume m: "m \<le> 2 ^ 32"
  have "inj_on (word_of_nat :: nat \<Rightarrow> u32) {0..<m}"
  proof (rule inj_onI)
    fix i j assume ij: "i \<in> {0..<m}" "j \<in> {0..<m}" "(word_of_nat i :: u32) = word_of_nat j"
    then have "i < 2 ^ LENGTH(32)" "j < 2 ^ LENGTH(32)" using m by simp_all
    note this [THEN unat_word_small]
    with ij(3) show "i = j" by metis
  qed
  then show ?thesis by (simp add: distinct_map)
qed

definition plan_child :: "PlanNode \<Rightarrow> Expr option \<Rightarrow> QuerySlot list \<Rightarrow> AggregateCall list \<Rightarrow> SortKey list \<Rightarrow> PlanNode" where
  "plan_child tree predicate group_keys calls sort_keys =
     (let child = (case predicate of None \<Rightarrow> tree | Some p \<Rightarrow> FilterNode p (Some tree));
          child = (if group_keys \<noteq> [] \<or> calls \<noteq> [] then AggregateNode group_keys calls (Some child) else child)
      in if sort_keys \<noteq> [] then SortNode sort_keys (Some child) else child)"

lemma introduced_plan_child:
  "introduced (plan_child tree predicate group_keys calls sort_keys) = introduced tree @ map ac_output_slot calls"
  by (cases predicate) (simp_all add: plan_child_def Let_def)

lemma generate_select_plan_eq:
  "generate_select_plan statement catalog =
     bind_result (build_slot_bindings catalog (bs_table_id statement # map bj_table_id (bs_joins statement))) (\<lambda>bindings.
     bind_result (generate_group_keys bindings (bs_group_by statement)) (\<lambda>gk.
     bind_result (generate_items bindings (sum_list (map (\<lambda>b. length (sb_columns b)) bindings)) (bs_items statement))
       (\<lambda>(outs, qouts, calls).
     bind_result (generate_predicate (bs_predicate statement) bindings) (\<lambda>predicate.
     bind_result (generate_sort_keys bindings (bs_order_by statement)) (\<lambda>sk.
     bind_result (generate_join_conditions bindings (bs_joins statement)) (\<lambda>conds.
       Inr (PlanQuery \<lparr>qp_root = Some (ProjectNode outs (Some (plan_child (join_tree statement bindings conds) predicate gk calls sk))),
         qp_outputs = qouts\<rparr>)))))))"
  by (simp only: generate_select_plan_def plan_child_def Let_def)

lemma bind_result_InrE: "bind_result r f = Inr b \<Longrightarrow> (\<And>a. r = Inr a \<Longrightarrow> f a = Inr b \<Longrightarrow> thesis) \<Longrightarrow> thesis"
  by (cases r) auto

lemma planner_introduces_once:
  assumes "generate_select_plan statement catalog = Inr (PlanQuery plan)"
  shows "\<exists>outs child. qp_root plan = Some (ProjectNode outs (Some child)) \<and> distinct (introduced child)"
proof -
  obtain bindings gk it where
    b: "build_slot_bindings catalog (bs_table_id statement # map bj_table_id (bs_joins statement)) = Inr bindings"
    and it: "generate_items bindings (sum_list (map (\<lambda>b. length (sb_columns b)) bindings)) (bs_items statement) = Inr it"
    and rest: "(case it of (outs, qouts, calls) \<Rightarrow>
     bind_result (generate_predicate (bs_predicate statement) bindings) (\<lambda>predicate.
     bind_result (generate_sort_keys bindings (bs_order_by statement)) (\<lambda>sk.
     bind_result (generate_join_conditions bindings (bs_joins statement)) (\<lambda>conds.
       Inr (PlanQuery \<lparr>qp_root = Some (ProjectNode outs (Some (plan_child (join_tree statement bindings conds) predicate gk calls sk))),
         qp_outputs = qouts\<rparr>))))) = Inr (PlanQuery plan)"
    using assms unfolding generate_select_plan_eq by (elim bind_result_InrE)
  obtain outs qouts calls where i: "it = (outs, qouts, calls)" by (cases it)
  obtain predicate sk conds where
    root: "qp_root plan = Some (ProjectNode outs (Some (plan_child (join_tree statement bindings conds) predicate gk calls sk)))"
    using rest unfolding i prod.case by (elim bind_result_InrE) auto
  note i = it [unfolded i]
  let ?N = "sum_list (map (\<lambda>b. length (sb_columns b)) bindings)"
  note bs = build_slot_bindings_from_Inr [OF b [unfolded build_slot_bindings_def]]
  have "length bindings = Suc (length (bs_joins statement))" using bs by (metis length_Cons length_map)
  note tree = join_tree_introduced [OF this]
  have columns: "concat (map (\<lambda>b. map sc_output_slot (sb_columns b)) bindings) = map word_of_nat [0..<?N]"
    using bs unfolding add_0 by blast
  have outputs: "map ac_output_slot calls = map word_of_nat [?N..<?N + length calls]"
    using generate_items_calls [OF i] by blast
  have slots: "introduced (join_tree statement bindings conditions) @ map ac_output_slot calls
      = map word_of_nat [0..<?N + length calls]" for conditions
    unfolding tree columns outputs upt_add_eq_append [OF le0] map_append ..
  have "?N \<le> 2 ^ 32" using bs by (cases "?N = 0") (simp_all del: sum_list_eq_0_iff)
  then have "?N + length calls \<le> 2 ^ 32" using generate_items_calls [OF i] by (cases "calls = []") simp_all
  then show ?thesis using root slots distinct_slot_numbers introduced_plan_child by metis
qed

end
