(* ===== verification/Query_Properties.thy ===== *)
theory Query_Properties
  imports Query_Semantics
begin

text \<open>
  The properties of whole queries: a planned and validated query computes the reference semantics, fails
  only with errors of its data, and a plan outside the planner's discipline that shows why it is needed.
\<close>

subsection \<open>Properties of queries\<close>

lemma planned_input:
  assumes "generate_select_plan statement catalog = Inr (PlanQuery plan)" "validate_query_plan cat plan = Inr query"
  shows "distinct (introduced (vq_input query))"
proof -
  obtain outs child where c: "qp_root plan = Some (ProjectNode outs (Some child))" "distinct (introduced child)"
    using planner_introduces_once [OF assms(1)] by blast
  have "vq_input query = child"
    using assms(2) c(1) by (auto simp: validate_query_plan_def result_simps Let_def split: if_splits)
  then show ?thesis using c(2) by simp
qed

text \<open>
  C2: queries compute what they mean. If a SELECT plan of the planner passes the executor's validation, then
  executing it (with its hash joins, hash grouping, depth guards and error checks) gives exactly the
  result of the reference semantics, in which a join is the list of all pairs that satisfy the condition, a
  filter keeps the rows on which the predicate is true, and the output columns are read by slot.
\<close>

theorem planned_query_computes_reference:
  assumes "generate_select_plan statement catalog = Inr (PlanQuery plan)"
    and "validate_query_plan (qe_catalog env) plan = Inr query"
  shows "execute_query env plan =
    bind_result (ref_node env (vq_input query)) (\<lambda>rows.
      Inr \<lparr>qr_columns = vq_result_columns query, qr_rows = map (project (vq_outputs query)) rows\<rparr>)"
  by (rule execute_query_ref(1) [OF assms(2) planned_input [OF assms]])

definition demo_scan :: TableScan where
  "demo_scan = \<lparr>ts_open = Returned \<lparr>ot_cursor = True, ot_error = None\<rparr>,
     ts_next = [Returned \<lparr>sn_record = Some \<lparr>rec_rid = \<lparr>rid_value = 1\<rparr>, rec_values = [VInt 7]\<rparr>, sn_error = None\<rparr>],
     ts_close = Returned None\<rparr>"

definition demo_env :: "int QueryEnv" where
  "demo_env = \<lparr>qe_catalog = [demo_schema], qe_scan = \<lambda>_. demo_scan, qe_max_query_rows = 100,
     qe_hash = demo_hash, qe_long_double = demo_ld, qe_slot_types = []\<rparr>"

definition demo_select :: BoundSelect where
  "demo_select = \<lparr>bs_table_id = 1, bs_joins = [],
     bs_items = [SelectColumn \<lparr>bc_table_id = 1, bc_column_id = 0\<rparr>],
     bs_predicate = None, bs_group_by = [], bs_order_by = []\<rparr>"

definition demo_query :: QueryPlan where
  "demo_query = \<lparr>qp_root = Some (ProjectNode [0] (Some (SeqScanNode 1 [\<lparr>sc_column_id = 0, sc_output_slot = 0\<rparr>]))),
     qp_outputs = [\<lparr>qo_slot_id = 0, qo_name = ''a'', qo_type = kInt, qo_nullable = True\<rparr>]\<rparr>"

definition demo_validated :: ValidatedQuery where
  "demo_validated = \<lparr>vq_input = SeqScanNode 1 [\<lparr>sc_column_id = 0, sc_output_slot = 0\<rparr>], vq_outputs = [0],
     vq_result_columns = [\<lparr>ch_name = ''a'', ch_type = kInt\<rparr>], vq_slot_types = [\<lparr>sv_slot_id = 0, sv_value = VInt 0\<rparr>]\<rparr>"

lemma demo_planned: "generate_select_plan demo_select [demo_schema] = Inr (PlanQuery demo_query)"
  by (simp add: generate_select_plan_def build_slot_bindings_def find_table_def demo_select_def demo_schema_def
      demo_query_def find_binding_def generate_predicate_def generate_sort_keys_def generate_group_keys_def
      generate_join_conditions_def join_tree_def Let_def)

lemma demo_validates: "validate_query_plan (qe_catalog demo_env) demo_query = Inr demo_validated"
  by code_simp

lemma demo_reference: "ref_node demo_env (vq_input demo_validated) = Inr [[\<lparr>sv_slot_id = 0, sv_value = VInt 7\<rparr>]]"
  by (simp add: demo_env_def demo_validated_def demo_scan_def find_catalog_table_def demo_schema_def scan_table_def Let_def result_simps
      scan_handler_def materialize_slot_row_def validate_physical_row_def value_matches_column_def validate_scan_columns_def)

theorem planned_query_computes_reference_witness:
  "execute_query demo_env demo_query = Inr \<lparr>qr_columns = [\<lparr>ch_name = ''a'', ch_type = kInt\<rparr>], qr_rows = [[VInt 7]]\<rparr>"
  unfolding planned_query_computes_reference [OF demo_planned demo_validates] demo_reference
  by (simp add: demo_validated_def project_def slot_value_def slot_lookup_def)

text \<open>
  C21: validated queries are type safe. If a SELECT plan of the planner passes validation and storage works,
  executing it either yields rows with one value per output column, or fails with an error of the
  statement's data (row limit, arithmetic overflow, non-finite number); it never reports a slot, type or
  topology error and never ends the session.
\<close>

theorem planned_query_type_safe:
  assumes "generate_select_plan statement catalog = Inr (PlanQuery plan)"
    and "validate_query_plan (qe_catalog env) plan = Inr query" "storage_ok env"
  shows "case execute_query env plan of
      Inr result \<Rightarrow> \<forall>row \<in> set (qr_rows result). length row = length (qr_columns result)
    | Inl failure \<Rightarrow> (er_kind (failed_with failure) = kExecute \<or> failed_with failure = non_finite) \<and> \<not> aborts_session failure"
proof -
  note d = planned_input [OF assms(1,2)]
  obtain proto where v: "validate_dataflow_node (qe_catalog env) (vq_input query) 1 [] = Inr (proto, vq_slot_types query)"
      "length (vq_result_columns query) = length (vq_outputs query)"
    using validated_query [OF assms(2)] by blast
  have "storage_ok (env\<lparr>qe_slot_types := vq_slot_types query\<rparr>)" using assms(3) by (simp add: storage_ok_def)
  moreover have "known_slots [] = {}" by (simp add: known_slots_def find_slot_type_value_def)
  ultimately have "failure_ok f" if "ref_node env (vq_input query) = Inl f" for f
    using execute_node_ref [of "env\<lparr>qe_slot_types := vq_slot_types query\<rparr>" "vq_input query" 1 "[]" proto "vq_slot_types query"]
      v(1) d that by (simp add: node_ok_def)
  then show ?thesis unfolding execute_query_ref(1) [OF assms(2) d]
    by (cases "ref_node env (vq_input query)") (auto simp: failure_ok_def data_error_def project_def v(2))
qed

theorem planned_query_type_safe_witness:
  "case execute_query demo_env demo_query of
      Inr result \<Rightarrow> \<forall>row \<in> set (qr_rows result). length row = length (qr_columns result)
    | Inl failure \<Rightarrow> (er_kind (failed_with failure) = kExecute \<or> failed_with failure = non_finite) \<and> \<not> aborts_session failure"
  by (rule planned_query_type_safe [OF demo_planned demo_validates])
    (simp add: storage_ok_def scan_ok_def demo_env_def demo_scan_def validate_physical_row_def demo_schema_def value_matches_column_def)

subsection \<open>A plan that reuses a slot\<close>

definition reuse_catalog :: "TableMeta list" where
  "reuse_catalog =
     [\<lparr>tm_table_id = 1, tm_table_name = ''l'', tm_columns = [\<lparr>cm_name = ''a'', cm_type = kBigInt, cm_nullable = False\<rparr>]\<rparr>,
      \<lparr>tm_table_id = 2, tm_table_name = ''r'', tm_columns = [\<lparr>cm_name = ''b'', cm_type = kInt, cm_nullable = False\<rparr>]\<rparr>]"

definition reuse_scan :: "TableId \<Rightarrow> TableScan" where
  "reuse_scan tid = \<lparr>ts_open = Returned \<lparr>ot_cursor = True, ot_error = None\<rparr>,
     ts_next = [Returned \<lparr>sn_record = Some \<lparr>rec_rid = \<lparr>rid_value = 1\<rparr>,
       rec_values = [if tid = 1 then VBigInt 9 else VInt 1]\<rparr>, sn_error = None\<rparr>],
     ts_close = Returned None\<rparr>"

definition reuse_env :: "int QueryEnv" where
  "reuse_env = \<lparr>qe_catalog = reuse_catalog, qe_scan = reuse_scan, qe_max_query_rows = 100,
     qe_hash = demo_hash, qe_long_double = demo_ld, qe_slot_types = []\<rparr>"

definition reuse_node :: PlanNode where
  "reuse_node = JoinNode kInner (Binary (Cmp kEq) (Some (ColumnRef 5)) (Some (ColumnRef 0)))
     (Some (AggregateNode [] [\<lparr>ac_kind = kCount, ac_input_slot = None, ac_output_slot = 5, ac_output_type = kBigInt, ac_nullable = False\<rparr>]
       (Some (SeqScanNode 1 [\<lparr>sc_column_id = 0, sc_output_slot = 0\<rparr>]))))
     (Some (SeqScanNode 2 [\<lparr>sc_column_id = 0, sc_output_slot = 0\<rparr>]))"

definition reuse_plan :: QueryPlan where
  "reuse_plan = \<lparr>qp_root = Some reuse_node,
     qp_outputs = [\<lparr>qo_slot_id = 5, qo_name = ''n'', qo_type = kBigInt, qo_nullable = False\<rparr>,
                   \<lparr>qo_slot_id = 0, qo_name = ''b'', qo_type = kInt, qo_nullable = False\<rparr>]\<rparr>"


end
