(* ===== verification/Session.thy ===== *)
theory Session
  imports Storage_Scan
begin

text \<open>
  The session object of \<open>src/core/database.cpp\<close>: its state (\<open>Database::Impl\<close> of \<open>internal.hpp\<close>), opening
  and closing, the forced end of a session, destruction and move assignment. A process may hold many
  \<open>Database\<close> objects, but \<open>g_database_open\<close> lets at most one of them own the storage engine; the operations
  below therefore work on a pair of an object's state and that process-wide flag. What storage answers to
  each call is a parameter. A call holds the object's mutex from beginning to end, so it is one step.
\<close>

subsection \<open>State\<close>

record Impl =
  im_catalog :: "TableMeta list"
  im_next_table_id :: u64
  im_open :: bool
  im_forced_close_pending :: bool
  im_cleanup_retry_needed :: bool

type_synonym DbState = "Impl \<times> bool"

definition initial_impl :: Impl where
  "initial_impl = \<lparr>im_catalog = [], im_next_table_id = 0, im_open = False,
     im_forced_close_pending = False, im_cleanup_retry_needed = False\<rparr>"

definition clear :: "Impl \<Rightarrow> Impl" where
  "clear impl = impl\<lparr>im_open := False, im_catalog := [], im_next_table_id := 0, im_cleanup_retry_needed := False\<rparr>"

definition with_flags :: "bool \<Rightarrow> bool \<Rightarrow> Impl \<Rightarrow> Impl" where
  "with_flags forced retry impl = impl\<lparr>im_forced_close_pending := forced, im_cleanup_retry_needed := retry\<rparr>"

subsection \<open>Ending a session\<close>

type_synonym CloseAnswer = "StorageError option Answer"

text \<open>Whether an answer of \<open>close_storage\<close> leaves storage in an unknown state.\<close>

definition retry_cleanup :: "CloseAnswer \<Rightarrow> bool" where
  "retry_cleanup answer =
     (case answer of
        Threw _ \<Rightarrow> True
      | Returned None \<Rightarrow> False
      | Returned (Some error) \<Rightarrow> se_kind error \<noteq> kInvalidRequest)"

definition abort_after_storage_exception :: "CloseAnswer \<Rightarrow> DbState \<Rightarrow> DbState" where
  "abort_after_storage_exception closed state =
     (case state of (impl, slot) \<Rightarrow>
        if \<not> im_open impl \<and> im_forced_close_pending impl then (impl, slot)
        else (with_flags True (retry_cleanup closed) (clear impl),
              if im_open impl \<and> \<not> retry_cleanup closed then False else slot))"

definition owns_slot :: "Impl \<Rightarrow> bool" where
  "owns_slot impl \<longleftrightarrow> im_open impl \<or> im_cleanup_retry_needed impl"

text \<open>The destructor: only the process-wide flag outlives the object.\<close>

definition destroy_database :: "Impl option \<Rightarrow> bool \<Rightarrow> bool" where
  "destroy_database object slot =
     (case object of None \<Rightarrow> slot | Some impl \<Rightarrow> if owns_slot impl then False else slot)"

text \<open>\<open>operator=(Database&&)\<close> of two different objects: the target, the source and the flag afterwards.\<close>

definition move_assign ::
  "CloseAnswer \<Rightarrow> Impl option \<Rightarrow> Impl option \<Rightarrow> bool \<Rightarrow> Impl option \<times> Impl option \<times> bool" where
  "move_assign closed target source slot =
     (case target of
        None \<Rightarrow> (source, None, slot)
      | Some impl \<Rightarrow>
          if \<not> owns_slot impl then (source, None, slot)
          else if retry_cleanup closed then (Some (with_flags True True (clear impl)), source, slot)
          else (source, None, False))"

subsection \<open>Opening\<close>

record ListTablesResult =
  lt_tables :: "TableMeta list"
  lt_error :: "StorageError option"

text \<open>What storage answers to the calls of one \<open>open\<close>.\<close>

record OpenAnswers =
  oa_open_storage :: "StorageError option Answer"
  oa_list_tables :: "ListTablesResult Answer"
  oa_close_storage :: CloseAnswer

fun restore_tables :: "TableMeta list \<Rightarrow> TableMeta list \<Rightarrow> u64 \<Rightarrow> (Error, TableMeta list \<times> u64) result" where
  "restore_tables restored [] next_table_id = Inr (restored, next_table_id)"
| "restore_tables restored (table # tables) next_table_id =
     (case validate_table_metadata table of
        Some error \<Rightarrow> Inl error
      | None \<Rightarrow>
          if has_duplicate_table restored table
          then Inl (make_error kInternal ''storage returned duplicate table metadata'')
          else restore_tables (restored @ [table]) tables (max next_table_id (ucast (tm_table_id table) + 1)))"

definition abort_open :: "CloseAnswer \<Rightarrow> bool \<Rightarrow> Error \<Rightarrow> DbState \<Rightarrow> Error option \<times> DbState" where
  "abort_open closed close_needed error state =
     (case state of (impl, slot) \<Rightarrow>
        let retry = close_needed \<and> retry_cleanup closed
        in (Some error, with_flags retry retry (clear impl), if retry then slot else False))"

definition open_storage_and_restore :: "OpenAnswers \<Rightarrow> DbState \<Rightarrow> Error option \<times> DbState" where
  "open_storage_and_restore answers state =
     (let fail = abort_open (oa_close_storage answers);
          unknown = ''unknown exception while opening database''
      in case oa_open_storage answers of
        Threw thrown \<Rightarrow> fail True (make_error kInternal (thrown_message unknown thrown)) state
      | Returned (Some error) \<Rightarrow> fail False (map_storage_error error) state
      | Returned None \<Rightarrow>
          (case oa_list_tables answers of
             Threw thrown \<Rightarrow> fail True (make_error kInternal (thrown_message unknown thrown)) state
           | Returned listed \<Rightarrow>
               (case lt_error listed of
                  Some error \<Rightarrow> fail True (map_storage_error error) state
                | None \<Rightarrow>
                    (case restore_tables [] (lt_tables listed) 0 of
                       Inl error \<Rightarrow> fail True error state
                     | Inr (restored, next_table_id) \<Rightarrow>
                         (None, (fst state)\<lparr>im_catalog := restored, im_next_table_id := next_table_id, im_open := True,
                            im_forced_close_pending := False, im_cleanup_retry_needed := False\<rparr>, snd state)))))"

definition open_database :: "OpenAnswers \<Rightarrow> string \<Rightarrow> DbState \<Rightarrow> Error option \<times> DbState" where
  "open_database answers data_dir state =
     (case state of (impl, slot) \<Rightarrow>
        if im_open impl then (Some (make_error kExecute ''database is already open''), state)
        else if im_forced_close_pending impl then
          (Some (make_error kExecute ''database requires close after a storage exception''), state)
        else if data_dir = [] then (Some (make_error kExecute ''data_dir must not be empty''), state)
        else if slot then (Some (make_error kExecute ''another database is already open in this process''), state)
        else open_storage_and_restore answers (impl, True))"

subsection \<open>Closing\<close>

definition close_error :: "string \<Rightarrow> CloseAnswer \<Rightarrow> Error" where
  "close_error unknown closed =
     (case closed of
        Threw thrown \<Rightarrow> make_error kInternal (thrown_message unknown thrown)
      | Returned (Some error) \<Rightarrow> map_storage_error error
      | Returned None \<Rightarrow> make_error kInternal unknown)"

definition close_database :: "CloseAnswer \<Rightarrow> DbState \<Rightarrow> Error option \<times> DbState" where
  "close_database closed state =
     (case state of (impl, slot) \<Rightarrow>
        if \<not> im_open impl then
          if im_forced_close_pending impl then
            if im_cleanup_retry_needed impl then
              if retry_cleanup closed
              then (Some (close_error ''unknown exception while retrying storage cleanup'' closed), state)
              else (None, with_flags False False impl, False)
            else (None, impl\<lparr>im_forced_close_pending := False\<rparr>, slot)
          else (Some (make_error kExecute ''database is not open''), state)
        else if retry_cleanup closed
        then (Some (close_error ''unknown exception while closing database'' closed), with_flags True True (clear impl), slot)
        else (None, with_flags False False (clear impl), False))"

subsection \<open>Well-formed objects\<close>

text \<open>
  A catalog holds valid tables with different ids and names below the next id; an object without an open
  session has an empty catalog, and cleanup is owed only by a closed object that asks to be closed.
\<close>

definition catalog_ok :: "TableMeta list \<Rightarrow> u64 \<Rightarrow> bool" where
  "catalog_ok catalog next_table_id \<longleftrightarrow>
     (\<forall>table \<in> set catalog. validate_table_metadata table = None \<and> unat (tm_table_id table) < unat next_table_id)
     \<and> distinct (map tm_table_id catalog) \<and> distinct (map tm_table_name catalog) \<and> unat next_table_id \<le> 2 ^ 32"

definition impl_ok :: "Impl \<Rightarrow> bool" where
  "impl_ok impl \<longleftrightarrow> catalog_ok (im_catalog impl) (im_next_table_id impl)
     \<and> (\<not> im_open impl \<longrightarrow> im_catalog impl = [] \<and> im_next_table_id impl = 0)
     \<and> (im_cleanup_retry_needed impl \<longrightarrow> \<not> im_open impl \<and> im_forced_close_pending impl)
     \<and> (im_forced_close_pending impl \<longrightarrow> \<not> im_open impl)"

lemma has_duplicate_table_iff:
  "has_duplicate_table tables t \<longleftrightarrow> tm_table_id t \<in> tm_table_id ` set tables \<or> tm_table_name t \<in> tm_table_name ` set tables"
  by (simp add: has_duplicate_table_def list_ex_iff image_iff) metis

lemma unat_table_id: "unat (ucast (t :: u32) :: u64) = unat t"
proof -
  have "unat t < 2 ^ 64" using unsigned_less [of t, where 'a = nat] by simp
  then show ?thesis by (simp add: unsigned_ucast_eq take_bit_nat_eq_self)
qed

lemma unat_next_table_id: "unat (ucast (t :: u32) + 1 :: u64) = Suc (unat t)"
proof -
  have "unat t < 2 ^ 32" using unsigned_less [of t, where 'a = nat] by simp
  then have "unat (ucast t :: u64) + unat (1 :: u64) < 2 ^ LENGTH(64)" by (simp add: unat_table_id)
  then show ?thesis by (simp add: unat_plus_simple [THEN iffD1] no_olen_add_nat unat_table_id)
qed

lemma unat_max: "unat (max a b :: 'a::len word) = max (unat a) (unat b)"
  by (simp add: max_def word_le_nat_alt)

lemma catalog_ok_empty [simp]: "catalog_ok [] 0"
  by (simp add: catalog_ok_def)

lemma catalog_ok_add:
  assumes "catalog_ok catalog n" "validate_table_metadata table = None" "\<not> has_duplicate_table catalog table"
    and "unat n \<le> unat n'" "unat (tm_table_id table) < unat n'" "unat n' \<le> 2 ^ 32"
  shows "catalog_ok (catalog @ [table]) n'"
  using assms by (fastforce simp: catalog_ok_def has_duplicate_table_iff)

lemma restore_tables_ok:
  "restore_tables restored tables n = Inr (catalog, m) \<Longrightarrow> catalog_ok restored n \<Longrightarrow>
   catalog_ok catalog m \<and> catalog = restored @ tables"
proof (induction restored tables n rule: restore_tables.induct)
  case (2 restored table tables n)
  have id: "unat (tm_table_id table) < 2 ^ 32" using unsigned_less [of "tm_table_id table", where 'a = nat] by simp
  have "unat n \<le> 2 ^ 32" using "2.prems"(2) by (simp add: catalog_ok_def)
  then have "catalog_ok (restored @ [table]) (max n (ucast (tm_table_id table) + 1))"
    using "2.prems" id by (intro catalog_ok_add) (auto simp: unat_max unat_next_table_id split: option.splits if_splits)
  then show ?case using 2 by (auto split: option.splits if_splits)
qed simp

end
