(* ===== verification/Commands.thy ===== *)
theory Commands
  imports Session Query_Plan
begin

text \<open>
  Statements in \<open>src/core/executor.cpp\<close>: CREATE TABLE, INSERT, DELETE and UPDATE with their plan checks, the
  requests they send to storage and the handling of its answers, and the dispatch \<open>execute_plan_impl\<close>.
  The answers of storage to each request are functions of the request. Every statement returns its outcome, whether
  storage was called, and the state of the session.
\<close>

subsection \<open>Requests, answers and outcomes\<close>

record CreateTableRequest =
  cr_table_id :: TableId
  cr_table_name :: string
  cr_columns :: "ColumnMeta list"

record InsertRequest =
  ir_table_id :: TableId
  ir_rows :: "Row list"

record InsertResult =
  is_rids :: "RecordId list"
  is_error :: "StorageError option"

record DeleteRequest =
  dr_table_id :: TableId
  dr_rids :: "RecordId list"

record DeleteResult =
  ds_deleted_count :: u64
  ds_error :: "StorageError option"

record UpdateRequest =
  ur_table_id :: TableId
  ur_rows :: "UpdateRow list"

record UpdateResult =
  us_updated_count :: u64
  us_error :: "StorageError option"

record 'l StorageCalls =
  sc_create_table :: "CreateTableRequest \<Rightarrow> StorageError option Answer"
  sc_insert :: "InsertRequest \<Rightarrow> InsertResult Answer"
  sc_delete_records :: "DeleteRequest \<Rightarrow> DeleteResult Answer"
  sc_update_rows :: "UpdateRequest \<Rightarrow> UpdateResult Answer"
  sc_scan :: "TableId \<Rightarrow> TableScan"
  sc_close_storage :: CloseAnswer
  sc_hash :: StdHash
  sc_long_double :: "'l LongDouble"

record CommandResult =
  co_affected_rows :: u64
  co_error :: "Error option"

datatype ExecuteResult = QueryOutcome QueryResult | CommandOutcome CommandResult | ErrorOutcome Error

text \<open>The result of a plan without its cancellation flag.\<close>

record PlanExecutionResult =
  pe_outcome :: ExecuteResult
  pe_storage_called :: bool

definition refuse :: "Error \<Rightarrow> DbState \<Rightarrow> PlanExecutionResult \<times> DbState" where
  "refuse error state = (\<lparr>pe_outcome = ErrorOutcome error, pe_storage_called = False\<rparr>, state)"

definition respond :: "ExecuteResult \<Rightarrow> DbState \<Rightarrow> PlanExecutionResult \<times> DbState" where
  "respond outcome state = (\<lparr>pe_outcome = outcome, pe_storage_called = True\<rparr>, state)"

text \<open>An error after \<open>abort_after_storage_exception\<close>.\<close>

definition abort_statement :: "CloseAnswer \<Rightarrow> Error \<Rightarrow> DbState \<Rightarrow> PlanExecutionResult \<times> DbState" where
  "abort_statement closed error state = respond (ErrorOutcome error) (abort_after_storage_exception closed state)"

definition scan_failed :: "CloseAnswer \<Rightarrow> Failure \<Rightarrow> DbState \<Rightarrow> PlanExecutionResult \<times> DbState" where
  "scan_failed closed failure state =
     (if aborts_session failure then abort_statement closed (failed_with failure) state
      else respond (ErrorOutcome (failed_with failure)) state)"

subsection \<open>CREATE TABLE\<close>

definition execute_create_table ::
  "'l StorageCalls \<Rightarrow> CreateTablePlan \<Rightarrow> DbState \<Rightarrow> PlanExecutionResult \<times> DbState" where
  "execute_create_table calls plan state =
     (case state of (impl, slot) \<Rightarrow>
        if 4294967295 < im_next_table_id impl then refuse (make_error kExecute ''table id exhausted'') state
        else
          let candidate_id = ucast (im_next_table_id impl);
              metadata = \<lparr>tm_table_id = candidate_id, tm_table_name = ct_table_name plan, tm_columns = ct_columns plan\<rparr>
          in case validate_table_metadata metadata of
            Some error \<Rightarrow> refuse error state
          | None \<Rightarrow>
              if has_duplicate_table (im_catalog impl) metadata
              then refuse (make_error kExecute ''table id or table name already exists'') state
              else
                (case sc_create_table calls \<lparr>cr_table_id = candidate_id, cr_table_name = ct_table_name plan,
                    cr_columns = ct_columns plan\<rparr> of
                   Threw thrown \<Rightarrow>
                     abort_statement (sc_close_storage calls)
                       (internal (thrown_message ''unknown exception while creating table'' thrown)) state
                 | Returned (Some error) \<Rightarrow> respond (ErrorOutcome (map_storage_error error)) state
                 | Returned None \<Rightarrow>
                     respond (CommandOutcome \<lparr>co_affected_rows = 0, co_error = None\<rparr>)
                       (impl\<lparr>im_catalog := im_catalog impl @ [metadata],
                             im_next_table_id := ucast candidate_id + 1\<rparr>, slot)))"

subsection \<open>INSERT\<close>

fun columns_permute :: "nat \<Rightarrow> nat list \<Rightarrow> ColumnId list \<Rightarrow> bool" where
  "columns_permute column_count used [] = True"
| "columns_permute column_count used (column_id # rest) =
     (unat column_id < column_count \<and> unat column_id \<notin> set used \<and> columns_permute column_count (unat column_id # used) rest)"

definition place_values :: "nat \<Rightarrow> ColumnId list \<Rightarrow> Row \<Rightarrow> Row" where
  "place_values column_count columns input_row =
     (if columns = [] then input_row
      else fold (\<lambda>(column_id, value) row. row[unat column_id := value]) (zip columns input_row) (replicate column_count VNull))"

definition physical_row :: "TableMeta \<Rightarrow> ColumnId list \<Rightarrow> Row \<Rightarrow> (Error, Row) result" where
  "physical_row table columns input_row =
     (let column_count = length (tm_columns table)
      in if length input_row \<noteq> (if columns = [] then column_count else length columns)
         then Inl (internal ''insert row width does not match the plan'')
         else
           (case validate_physical_row table (place_values column_count columns input_row) of
              Some error \<Rightarrow> Inl error
            | None \<Rightarrow> Inr (place_values column_count columns input_row)))"

definition insert_rows :: "TableMeta \<Rightarrow> InsertPlan \<Rightarrow> (Error, Row list) result" where
  "insert_rows table plan =
     (let column_count = length (tm_columns table)
      in if ip_rows plan = [] then Inl (internal ''insert plan must contain at least one row'')
         else if ip_columns plan \<noteq> [] \<and> length (ip_columns plan) \<noteq> column_count
         then Inl (internal ''insert column list must contain every table column'')
         else if \<not> columns_permute column_count [] (ip_columns plan)
         then Inl (internal ''insert column list is not a permutation'')
         else collect_results (physical_row table (ip_columns plan)) (ip_rows plan))"

definition insert_answered ::
  "CloseAnswer \<Rightarrow> nat \<Rightarrow> InsertResult Answer \<Rightarrow> DbState \<Rightarrow> PlanExecutionResult \<times> DbState" where
  "insert_answered closed requested answer state =
     (case answer of
        Threw thrown \<Rightarrow>
          abort_statement closed (internal (thrown_message ''unknown exception while inserting rows'' thrown)) state
      | Returned inserted \<Rightarrow>
          if requested < length (is_rids inserted)
          then abort_statement closed (internal ''storage returned too many inserted record ids'') state
          else
            (case is_error inserted of
               Some error \<Rightarrow>
                 if is_rids inserted = [] then respond (ErrorOutcome (map_storage_error error)) state
                 else respond (CommandOutcome \<lparr>co_affected_rows = word_of_nat (length (is_rids inserted)),
                   co_error = Some (map_storage_error error)\<rparr>) state
             | None \<Rightarrow>
                 if length (is_rids inserted) \<noteq> requested
                 then abort_statement closed (internal ''storage returned an incomplete successful insert result'') state
                 else respond (CommandOutcome \<lparr>co_affected_rows = word_of_nat requested, co_error = None\<rparr>) state))"

definition execute_insert :: "'l StorageCalls \<Rightarrow> InsertPlan \<Rightarrow> DbState \<Rightarrow> PlanExecutionResult \<times> DbState" where
  "execute_insert calls plan state =
     (case find_catalog_table (im_catalog (fst state)) (ip_table_id plan) of
        None \<Rightarrow> refuse (internal ''insert plan references an unknown table'') state
      | Some table \<Rightarrow>
          (case validate_table_metadata table of
             Some error \<Rightarrow> refuse error state
           | None \<Rightarrow>
               (case insert_rows table plan of
                  Inl error \<Rightarrow> refuse error state
                | Inr physical_rows \<Rightarrow>
                    insert_answered (sc_close_storage calls) (length (ip_rows plan))
                      (sc_insert calls \<lparr>ir_table_id = ip_table_id plan, ir_rows = physical_rows\<rparr>) state)))"

subsection \<open>DELETE and UPDATE\<close>

definition matches :: "Expr option \<Rightarrow> SlotRow \<Rightarrow> (Error, bool) result" where
  "matches predicate row =
     (case predicate of None \<Rightarrow> Inr True | Some p \<Rightarrow> map_error expression_error (evaluate_predicate p row))"

definition validate_where :: "Expr option \<Rightarrow> SlotRow \<Rightarrow> Error option" where
  "validate_where predicate row =
     (case predicate of None \<Rightarrow> None | Some p \<Rightarrow> map_option expression_error (validate_predicate p row))"

text \<open>The texts in which the two statements differ where the handling of the answer is the same.\<close>

record CountTexts =
  tx_unknown :: string
  tx_too_many :: string
  tx_incomplete :: string

definition count_answered ::
  "CloseAnswer \<Rightarrow> CountTexts \<Rightarrow> u64 \<Rightarrow> (u64 \<times> StorageError option) Answer \<Rightarrow> DbState \<Rightarrow> PlanExecutionResult \<times> DbState" where
  "count_answered closed texts requested answer state =
     (case answer of
        Threw thrown \<Rightarrow> abort_statement closed (internal (thrown_message (tx_unknown texts) thrown)) state
      | Returned (affected, failed) \<Rightarrow>
          if requested < affected then abort_statement closed (internal (tx_too_many texts)) state
          else
            (case failed of
               Some error \<Rightarrow>
                 if affected = 0 then respond (ErrorOutcome (map_storage_error error)) state
                 else respond (CommandOutcome \<lparr>co_affected_rows = affected, co_error = Some (map_storage_error error)\<rparr>) state
             | None \<Rightarrow>
                 if affected \<noteq> requested then abort_statement closed (internal (tx_incomplete texts)) state
                 else respond (CommandOutcome \<lparr>co_affected_rows = affected, co_error = None\<rparr>) state))"

fun map_answer :: "('a \<Rightarrow> 'b) \<Rightarrow> 'a Answer \<Rightarrow> 'b Answer" where
  "map_answer f (Threw thrown) = Threw thrown"
| "map_answer f (Returned x) = Returned (f x)"

definition delete_texts :: CountTexts where
  "delete_texts = \<lparr>tx_unknown = ''unknown exception while deleting rows'',
     tx_too_many = ''storage returned too many deleted rows'',
     tx_incomplete = ''storage returned an incomplete successful delete result''\<rparr>"

definition update_texts :: CountTexts where
  "update_texts = \<lparr>tx_unknown = ''unknown exception while updating rows'',
     tx_too_many = ''storage returned too many updated rows'',
     tx_incomplete = ''storage returned an incomplete successful update result''\<rparr>"

definition delete_answered :: "'l StorageCalls \<Rightarrow> TableId \<Rightarrow> RecordId list \<Rightarrow> DbState \<Rightarrow> PlanExecutionResult \<times> DbState" where
  "delete_answered calls table_id rids =
     count_answered (sc_close_storage calls) delete_texts (word_of_nat (length rids))
       (map_answer (\<lambda>deleted. (ds_deleted_count deleted, ds_error deleted))
         (sc_delete_records calls \<lparr>dr_table_id = table_id, dr_rids = rids\<rparr>))"

definition update_answered :: "'l StorageCalls \<Rightarrow> TableId \<Rightarrow> UpdateRow list \<Rightarrow> DbState \<Rightarrow> PlanExecutionResult \<times> DbState" where
  "update_answered calls table_id updates =
     count_answered (sc_close_storage calls) update_texts (word_of_nat (length updates))
       (map_answer (\<lambda>updated. (us_updated_count updated, us_error updated))
         (sc_update_rows calls \<lparr>ur_table_id = table_id, ur_rows = updates\<rparr>))"

definition delete_handler ::
  "TableMeta \<Rightarrow> DeletePlan \<Rightarrow> RecordId list \<Rightarrow> Record \<Rightarrow> (Failure, RecordId list) result" where
  "delete_handler table plan record_ids record =
     (case materialize_slot_row table (rec_values record) (dp_input_columns plan) of
        Inl error \<Rightarrow> Inl (Failure error True)
      | Inr row \<Rightarrow>
          bind_result (fails (matches (dp_predicate plan) row)) (\<lambda>keep.
            Inr (if keep then record_ids @ [rec_rid record] else record_ids)))"

definition execute_delete :: "'l StorageCalls \<Rightarrow> DeletePlan \<Rightarrow> DbState \<Rightarrow> PlanExecutionResult \<times> DbState" where
  "execute_delete calls plan state =
     (case find_catalog_table (im_catalog (fst state)) (dp_table_id plan) of
        None \<Rightarrow> refuse (internal ''delete plan references an unknown table'') state
      | Some table \<Rightarrow>
          (case validate_table_metadata table of
             Some error \<Rightarrow> refuse error state
           | None \<Rightarrow>
               (case make_validation_slot_row table (dp_input_columns plan) of
                  Inl error \<Rightarrow> refuse error state
                | Inr validation_row \<Rightarrow>
                    (case validate_where (dp_predicate plan) validation_row of
                       Some error \<Rightarrow> refuse error state
                     | None \<Rightarrow>
                         (case scan_table ''unknown exception while opening table for delete''
                             (sc_scan calls (dp_table_id plan)) (delete_handler table plan) [] of
                            Inl failure \<Rightarrow> scan_failed (sc_close_storage calls) failure state
                          | Inr record_ids \<Rightarrow> delete_answered calls (dp_table_id plan) record_ids state)))))"

definition assign_values :: "UpdateAssignment list \<Rightarrow> Row \<Rightarrow> Row" where
  "assign_values assignments row = fold (\<lambda>a row. row[unat (ua_column_id a) := ua_value a]) assignments row"

fun check_assignments :: "TableMeta \<Rightarrow> nat list \<Rightarrow> UpdateAssignment list \<Rightarrow> Error option" where
  "check_assignments table assigned [] = None"
| "check_assignments table assigned (a # rest) =
     (let column_index = unat (ua_column_id a)
      in if length (tm_columns table) \<le> column_index
         then Some (internal ''update assignment column id is out of range'')
         else if column_index \<in> set assigned
         then Some (internal ''update plan contains a duplicate assignment column'')
         else if \<not> value_matches_column (ua_value a) (tm_columns table ! column_index)
         then Some (internal ''update assignment value type does not match table schema'')
         else check_assignments table (column_index # assigned) rest)"

definition update_handler ::
  "TableMeta \<Rightarrow> UpdatePlan \<Rightarrow> UpdateRow list \<Rightarrow> Record \<Rightarrow> (Failure, UpdateRow list) result" where
  "update_handler table plan updates record =
     (case materialize_slot_row table (rec_values record) (up_input_columns plan) of
        Inl error \<Rightarrow> Inl (Failure error True)
      | Inr row \<Rightarrow>
          bind_result (fails (matches (up_predicate plan) row)) (\<lambda>keep.
            if \<not> keep then Inr updates
            else
              let replacement = assign_values (up_assignments plan) (rec_values record)
              in case validate_physical_row table replacement of
                   Some error \<Rightarrow> Inl (Failure error False)
                 | None \<Rightarrow> Inr (updates @ [\<lparr>uw_rid = rec_rid record, uw_values = replacement\<rparr>])))"

definition execute_update :: "'l StorageCalls \<Rightarrow> UpdatePlan \<Rightarrow> DbState \<Rightarrow> PlanExecutionResult \<times> DbState" where
  "execute_update calls plan state =
     (case find_catalog_table (im_catalog (fst state)) (up_table_id plan) of
        None \<Rightarrow> refuse (internal ''update plan references an unknown table'') state
      | Some table \<Rightarrow>
          (case validate_table_metadata table of
             Some error \<Rightarrow> refuse error state
           | None \<Rightarrow>
               if up_assignments plan = [] then refuse (internal ''update plan must contain assignments'') state
               else
                 (case make_validation_slot_row table (up_input_columns plan) of
                    Inl error \<Rightarrow> refuse error state
                  | Inr validation_row \<Rightarrow>
                      (case check_assignments table [] (up_assignments plan) of
                         Some error \<Rightarrow> refuse error state
                       | None \<Rightarrow>
                           (case validate_where (up_predicate plan) validation_row of
                              Some error \<Rightarrow> refuse error state
                            | None \<Rightarrow>
                                (case scan_table ''unknown exception while opening table for update''
                                    (sc_scan calls (up_table_id plan)) (update_handler table plan) [] of
                                   Inl failure \<Rightarrow> scan_failed (sc_close_storage calls) failure state
                                 | Inr updates \<Rightarrow> update_answered calls (up_table_id plan) updates state))))))"

subsection \<open>Plans\<close>

definition query_env :: "'l StorageCalls \<Rightarrow> nat \<Rightarrow> TableMeta list \<Rightarrow> 'l QueryEnv" where
  "query_env calls max_query_rows catalog =
     \<lparr>qe_catalog = catalog, qe_scan = sc_scan calls, qe_max_query_rows = max_query_rows,
      qe_hash = sc_hash calls, qe_long_double = sc_long_double calls, qe_slot_types = []\<rparr>"

text \<open>
  A validated query reaches the scan at its leftmost leaf, so storage has been called as soon as validation
  succeeds. An exception that leaves the query (\<open>std::bad_variant_access\<close>) ends the session.
\<close>

definition run_query :: "'l StorageCalls \<Rightarrow> nat \<Rightarrow> QueryPlan \<Rightarrow> DbState \<Rightarrow> PlanExecutionResult \<times> DbState" where
  "run_query calls max_query_rows plan state =
     (let catalog = im_catalog (fst state)
      in case validate_query_plan catalog plan of
           Inl error \<Rightarrow> refuse error state
         | Inr _ \<Rightarrow>
             (case execute_query (query_env calls max_query_rows catalog) plan of
                Inl failure \<Rightarrow>
                  scan_failed (sc_close_storage calls)
                    (Failure (failed_with failure) (aborts_session failure \<or> failed_with failure = bad_variant_access)) state
              | Inr result \<Rightarrow> respond (QueryOutcome result) state))"

definition execute_plan_impl :: "'l StorageCalls \<Rightarrow> nat \<Rightarrow> Plan \<Rightarrow> DbState \<Rightarrow> PlanExecutionResult \<times> DbState" where
  "execute_plan_impl calls max_query_rows plan state =
     (if \<not> im_open (fst state) then refuse (make_error kExecute ''database is not open'') state
      else case plan of
        PlanCreateTable p \<Rightarrow> execute_create_table calls p state
      | PlanInsert p \<Rightarrow> execute_insert calls p state
      | PlanDelete p \<Rightarrow> execute_delete calls p state
      | PlanUpdate p \<Rightarrow> execute_update calls p state
      | PlanQuery p \<Rightarrow> run_query calls max_query_rows p state)"

end
