(* ===== verification/Source_Text.thy ===== *)
theory Source_Text
  imports Plan
begin

text \<open>
  Positions in SQL text: how \<open>src/core/diagnostics.cpp\<close> computes and checks line and column numbers, and how
  \<open>split_statements\<close> of \<open>src/compiler/compiler.cpp\<close> cuts a script into statements with source ranges. The
  two count a carriage return differently unless a line feed follows.
\<close>

definition CR :: char where "CR = CHR 0x0D"
definition LF :: char where "LF = CHR 0x0A"

lemma CR_LF [simp]: "CR \<noteq> LF" "LF \<noteq> CR"
  by (simp_all add: CR_def LF_def)

definition kMaxSqlBytes :: nat where "kMaxSqlBytes = 1024 * 1024"
definition kIntMax :: int where "kIntMax = 2147483647"

subsection \<open>Locations and ranges\<close>

definition is_valid_location :: "SourceLocation \<Rightarrow> bool" where
  "is_valid_location location \<longleftrightarrow> 1 \<le> sl_line location \<and> 1 \<le> sl_column location"

definition is_valid_endpoint :: "nat \<Rightarrow> string \<Rightarrow> bool" where
  "is_valid_endpoint offset text \<longleftrightarrow> offset \<le> length text
     \<and> \<not> (0 < offset \<and> offset < length text \<and> text ! (offset - 1) = CR \<and> text ! offset = LF)"

text \<open>The loop of \<open>location_at_offset\<close>: the text behind the index, and how far the offset still is.\<close>

fun walk_to_offset :: "string \<Rightarrow> nat \<Rightarrow> int \<Rightarrow> int \<Rightarrow> int \<times> int" where
  "walk_to_offset [] remaining line column = (line, column)"
| "walk_to_offset (c # rest) 0 line column = (line, column)"
| "walk_to_offset [c] (Suc k) line column =
     (if c = LF then walk_to_offset [] k (line + 1) 1 else walk_to_offset [] k line (column + 1))"
| "walk_to_offset (c # d # rest) (Suc k) line column =
     (if c = CR \<and> d = LF then walk_to_offset rest (k - 1) (line + 1) 1
      else if c = LF then walk_to_offset (d # rest) k (line + 1) 1
      else walk_to_offset (d # rest) k line (column + 1))"

definition location_at_offset :: "string \<Rightarrow> nat \<Rightarrow> SourceLocation option" where
  "location_at_offset text offset =
     (if \<not> is_valid_endpoint offset text then None
      else case walk_to_offset text offset 1 1 of (line, column) \<Rightarrow>
        if kIntMax < line \<or> kIntMax < column then None
        else Some \<lparr>sl_line = line, sl_column = column, sl_byte_offset = offset\<rparr>)"

definition empty_source_range :: SourceRange where
  "empty_source_range = \<lparr>sr_begin = \<lparr>sl_line = 1, sl_column = 1, sl_byte_offset = 0\<rparr>,
     sr_end = \<lparr>sl_line = 1, sl_column = 1, sl_byte_offset = 0\<rparr>\<rparr>"

definition is_valid_source_range :: "SourceRange \<Rightarrow> string \<Rightarrow> bool" where
  "is_valid_source_range rng text \<longleftrightarrow>
     is_valid_location (sr_begin rng) \<and> is_valid_location (sr_end rng)
     \<and> sl_byte_offset (sr_begin rng) \<le> sl_byte_offset (sr_end rng)
     \<and> sl_byte_offset (sr_end rng) \<le> length text
     \<and> is_valid_endpoint (sl_byte_offset (sr_begin rng)) text
     \<and> is_valid_endpoint (sl_byte_offset (sr_end rng)) text
     \<and> (case (location_at_offset text (sl_byte_offset (sr_begin rng)), location_at_offset text (sl_byte_offset (sr_end rng))) of
          (Some begin', Some end') \<Rightarrow>
            sl_line begin' = sl_line (sr_begin rng) \<and> sl_column begin' = sl_column (sr_begin rng)
            \<and> sl_line end' = sl_line (sr_end rng) \<and> sl_column end' = sl_column (sr_end rng)
        | _ \<Rightarrow> False)"

record SplitStatement =
  ss_sql :: string
  ss_source :: SourceRange

definition absolutize_range :: "SplitStatement \<Rightarrow> SourceRange \<Rightarrow> string \<Rightarrow> SourceRange option" where
  "absolutize_range statement relative script_text =
     (let statement_begin = sl_byte_offset (sr_begin (ss_source statement));
          statement_end = sl_byte_offset (sr_end (ss_source statement));
          begin_offset = statement_begin + sl_byte_offset (sr_begin relative);
          end_offset = statement_begin + sl_byte_offset (sr_end relative)
      in if \<not> is_valid_source_range (ss_source statement) script_text then None
         else if statement_end < statement_begin \<or> statement_end - statement_begin \<noteq> length (ss_sql statement) then None
         else if \<not> is_valid_source_range relative (ss_sql statement) then None
         else if length script_text < begin_offset \<or> length script_text < end_offset then None
         else case (location_at_offset script_text begin_offset, location_at_offset script_text end_offset) of
           (Some begin', Some end') \<Rightarrow> Some \<lparr>sr_begin = begin', sr_end = end'\<rparr>
         | _ \<Rightarrow> None)"

subsection \<open>Splitting a script\<close>

datatype SplitState = kNormal | kInString | kInLineComment | kInBlockComment

definition is_whitespace :: "char \<Rightarrow> bool" where
  "is_whitespace value \<longleftrightarrow> value = CHR '' '' \<or> value = CHR 0x09 \<or> value = LF \<or> value = CR
     \<or> value = CHR 0x0C \<or> value = CHR 0x0B"

text \<open>The variables of the loop.\<close>

record Splitter =
  sp_state :: SplitState
  sp_segment_start :: nat
  sp_segment_location :: SourceLocation
  sp_line :: int
  sp_column :: int
  sp_has_sql_content :: bool
  sp_statements :: "SplitStatement list"

definition advance_location :: "char \<Rightarrow> Splitter \<Rightarrow> Splitter" where
  "advance_location value s =
     (if value = LF then s\<lparr>sp_line := sp_line s + 1, sp_column := 1\<rparr>
      else if value \<noteq> CR then s\<lparr>sp_column := sp_column s + 1\<rparr>
      else s)"

definition append_segment :: "string \<Rightarrow> nat \<Rightarrow> SourceLocation \<Rightarrow> Splitter \<Rightarrow> Splitter" where
  "append_segment text end_index end_location s =
     s\<lparr>sp_statements := sp_statements s @
        [\<lparr>ss_sql = take (end_index - sp_segment_start s) (drop (sp_segment_start s) text),
          ss_source = \<lparr>sr_begin = sp_segment_location s, sr_end = end_location\<rparr>\<rparr>]\<rparr>"

definition location_here :: "Splitter \<Rightarrow> nat \<Rightarrow> SourceLocation" where
  "location_here s index = \<lparr>sl_line = sp_line s, sl_column = sp_column s, sl_byte_offset = index\<rparr>"

text \<open>A statement ends behind its semicolon; segments without content are dropped.\<close>

definition end_segment :: "string \<Rightarrow> nat \<Rightarrow> Splitter \<Rightarrow> Splitter" where
  "end_segment text index s =
     (let s' = (if sp_has_sql_content s then append_segment text index (location_here s index) s else s)
      in s'\<lparr>sp_segment_start := index, sp_segment_location := location_here s index, sp_has_sql_content := False\<rparr>)"

definition split_step :: "string \<Rightarrow> nat \<Rightarrow> char \<Rightarrow> char \<Rightarrow> Splitter \<Rightarrow> Splitter \<times> bool" where
  "split_step text index current next_char s =
     (let one = advance_location current s; two = advance_location next_char one
      in case sp_state s of
        kNormal \<Rightarrow>
          if current = CHR 0x27 then (one\<lparr>sp_has_sql_content := True, sp_state := kInString\<rparr>, False)
          else if current = CHR ''-'' \<and> next_char = CHR ''-'' then (two\<lparr>sp_state := kInLineComment\<rparr>, True)
          else if current = CHR ''/'' \<and> next_char = CHR ''*'' then (two\<lparr>sp_state := kInBlockComment\<rparr>, True)
          else if current = CHR '';'' then (end_segment text (index + 1) one, False)
          else (if is_whitespace current then one else one\<lparr>sp_has_sql_content := True\<rparr>, False)
      | kInString \<Rightarrow>
          if current = CHR 0x27 \<and> next_char = CHR 0x27 then (two, True)
          else (if current = CHR 0x27 then one\<lparr>sp_state := kNormal\<rparr> else one, False)
      | kInLineComment \<Rightarrow> (if current = LF then one\<lparr>sp_state := kNormal\<rparr> else one, False)
      | kInBlockComment \<Rightarrow>
          if current = CHR ''*'' \<and> next_char = CHR ''/'' then (two\<lparr>sp_state := kNormal\<rparr>, True) else (one, False))"

text \<open>The loop over the text behind the index; a step consumes one character or two.\<close>

fun split_loop :: "string \<Rightarrow> nat \<Rightarrow> string \<Rightarrow> Splitter \<Rightarrow> Splitter" where
  "split_loop text index [] s = s"
| "split_loop text index [c] s = fst (split_step text index c (CHR 0x00) s)"
| "split_loop text index (c # d # rest) s =
     (case split_step text index c d s of
        (s', True) \<Rightarrow> split_loop text (index + 2) rest s'
      | (s', False) \<Rightarrow> split_loop text (index + 1) (d # rest) s')"

definition initial_splitter :: Splitter where
  "initial_splitter = \<lparr>sp_state = kNormal, sp_segment_start = 0,
     sp_segment_location = \<lparr>sl_line = 1, sl_column = 1, sl_byte_offset = 0\<rparr>, sp_line = 1, sp_column = 1,
     sp_has_sql_content = False, sp_statements = []\<rparr>"

definition split_statements :: "string \<Rightarrow> (CompileError, SplitStatement list) result" where
  "split_statements text =
     (if kMaxSqlBytes < length text then
        Inl \<lparr>ce_stage = kLex, ce_source = empty_source_range, ce_message = ''SQL text exceeds maximum length'',
          ce_suggestion = None, ce_fix_it = None\<rparr>
      else
        let s = split_loop text 0 text initial_splitter
        in Inr (sp_statements
             (if sp_has_sql_content s \<or> sp_state s = kInString \<or> sp_state s = kInBlockComment
              then append_segment text (length text) (location_here s (length text)) s else s)))"

subsection \<open>The two ways to count agree on texts without a lone carriage return\<close>

fun no_lone_CR :: "string \<Rightarrow> bool" where
  "no_lone_CR [] = True"
| "no_lone_CR [c] = (c \<noteq> CR)"
| "no_lone_CR (c # d # rest) = ((c = CR \<longrightarrow> d = LF) \<and> no_lone_CR (d # rest))"

fun count_char :: "char \<Rightarrow> int \<times> int \<Rightarrow> int \<times> int" where
  "count_char c (line, column) = (if c = LF then (line + 1, 1) else if c = CR then (line, column) else (line, column + 1))"

lemma advance_location_counts:
  "(sp_line (advance_location c s), sp_column (advance_location c s)) = count_char c (sp_line s, sp_column s)"
  by (simp add: advance_location_def)

lemma valid_endpoint_Cons:
  "is_valid_endpoint (Suc k) (c # rest) \<Longrightarrow> is_valid_endpoint k rest"
  by (cases k) (auto simp: is_valid_endpoint_def)

lemma walk_counts:
  "no_lone_CR cs \<Longrightarrow> is_valid_endpoint offset cs \<Longrightarrow>
   walk_to_offset cs offset line column = fold count_char (take offset cs) (line, column)"
proof (induction cs offset line column rule: walk_to_offset.induct)
  case (4 c d rest k l col)
  show ?case
  proof (cases "c = CR")
    case True
    then have "d = LF" using "4.prems"(1) by simp
    have "k \<noteq> 0" using "4.prems"(2) True \<open>d = LF\<close> by (cases k) (auto simp: is_valid_endpoint_def)
    then obtain m where m: "k = Suc m" by (cases k) auto
    have "no_lone_CR rest" using "4.prems"(1) by (cases rest) auto
    moreover have "is_valid_endpoint m rest"
      using "4.prems"(2) valid_endpoint_Cons [of m d rest] valid_endpoint_Cons [of k c "d # rest"] m by simp
    ultimately show ?thesis using "4.IH"(1) True \<open>d = LF\<close> m by simp
  next
    case False
    have "no_lone_CR (d # rest)" "is_valid_endpoint k (d # rest)" using "4.prems" valid_endpoint_Cons by auto
    then show ?thesis using "4.IH"(2,3) False by simp
  qed
qed auto

lemma count_char_bounds:
  "1 \<le> fst p \<Longrightarrow> 1 \<le> snd p \<Longrightarrow>
   1 \<le> fst (fold count_char cs p) \<and> 1 \<le> snd (fold count_char cs p)
   \<and> fst (fold count_char cs p) \<le> fst p + int (length cs) \<and> snd (fold count_char cs p) \<le> snd p + int (length cs)"
proof (induction cs arbitrary: p)
  case (Cons c cs)
  obtain l k where p: "p = (l, k)" by (cases p)
  show ?case using Cons.IH [of "count_char c p"] Cons.prems by (auto simp: p)
qed simp

lemma location_at_offset_counts:
  assumes "no_lone_CR text" "is_valid_endpoint offset text" "length text \<le> kMaxSqlBytes"
    and "(line, column) = fold count_char (take offset text) (1, 1)"
  shows "location_at_offset text offset = Some \<lparr>sl_line = line, sl_column = column, sl_byte_offset = offset\<rparr>"
    "1 \<le> line" "1 \<le> column"
proof -
  have bound: "fst (fold count_char (take offset text) (1, 1)) \<le> kIntMax" "snd (fold count_char (take offset text) (1, 1)) \<le> kIntMax"
    using count_char_bounds [of "(1, 1)" "take offset text"] assms(3) by (auto simp: kMaxSqlBytes_def kIntMax_def)
  then show "location_at_offset text offset = Some \<lparr>sl_line = line, sl_column = column, sl_byte_offset = offset\<rparr>"
    using walk_counts [OF assms(1,2)] assms(2) unfolding assms(4) [symmetric]
    by (simp add: location_at_offset_def assms(4) [symmetric])
  show "1 \<le> line" "1 \<le> column"
    using count_char_bounds [of "(1, 1)" "take offset text"] unfolding assms(4) [symmetric] by auto
qed

subsection \<open>The ranges of split statements\<close>

definition location_of :: "string \<Rightarrow> nat \<Rightarrow> SourceLocation" where
  "location_of text k = (case fold count_char (take k text) (1, 1) of (line, column) \<Rightarrow>
     \<lparr>sl_line = line, sl_column = column, sl_byte_offset = k\<rparr>)"

lemma location_of_offset [simp]: "sl_byte_offset (location_of text k) = k"
  by (simp add: location_of_def split: prod.split)

lemma location_of_range:
  assumes "no_lone_CR text" "length text \<le> kMaxSqlBytes" "a \<le> b" "is_valid_endpoint a text" "is_valid_endpoint b text"
  shows "is_valid_source_range \<lparr>sr_begin = location_of text a, sr_end = location_of text b\<rparr> text"
proof -
  have loc: "location_at_offset text k = Some (location_of text k) \<and> is_valid_location (location_of text k)"
    if "is_valid_endpoint k text" for k
    using location_at_offset_counts [OF assms(1) that assms(2)]
    by (cases "fold count_char (take k text) (1, 1)") (auto simp: location_of_def is_valid_location_def)
  have "b \<le> length text" using assms(5) by (simp add: is_valid_endpoint_def)
  then show ?thesis using loc [OF assms(4)] loc [OF assms(5)] assms(3-5) by (simp add: is_valid_source_range_def)
qed

definition good_statement :: "string \<Rightarrow> SplitStatement \<Rightarrow> bool" where
  "good_statement text st \<longleftrightarrow> (\<exists>a b. a \<le> b \<and> is_valid_endpoint a text \<and> is_valid_endpoint b text
     \<and> ss_source st = \<lparr>sr_begin = location_of text a, sr_end = location_of text b\<rparr> \<and> ss_sql st = take (b - a) (drop a text))"

definition begins_at :: "SplitStatement \<Rightarrow> nat" where
  "begins_at st = sl_byte_offset (sr_begin (ss_source st))"

definition ends_at :: "SplitStatement \<Rightarrow> nat" where
  "ends_at st = sl_byte_offset (sr_end (ss_source st))"

definition split_inv :: "string \<Rightarrow> nat \<Rightarrow> Splitter \<Rightarrow> bool" where
  "split_inv text index s \<longleftrightarrow>
     location_here s index = location_of text index \<and> index \<le> length text
     \<and> sp_segment_start s \<le> index \<and> is_valid_endpoint (sp_segment_start s) text
     \<and> sp_segment_location s = location_of text (sp_segment_start s)
     \<and> list_all (good_statement text) (sp_statements s)
     \<and> list_all (\<lambda>st. ends_at st \<le> sp_segment_start s) (sp_statements s)
     \<and> sorted_wrt (\<lambda>a b. ends_at a \<le> begins_at b) (sp_statements s)"

lemma split_inv_flags [simp]:
  "split_inv text index (s\<lparr>sp_state := st\<rparr>) \<longleftrightarrow> split_inv text index s"
  "split_inv text index (s\<lparr>sp_has_sql_content := b\<rparr>) \<longleftrightarrow> split_inv text index s"
  by (simp_all add: split_inv_def location_here_def)

lemma split_inv_advance:
  assumes "split_inv text index s" "index < length text" "text ! index = c"
  shows "split_inv text (Suc index) (advance_location c s)"
proof -
  have "take (Suc index) text = take index text @ [c]" using assms(2,3) by (simp add: take_Suc_conv_app_nth)
  then have "location_here (advance_location c s) (Suc index) = location_of text (Suc index)"
    using assms(1) advance_location_counts [of c s]
    by (cases "fold count_char (take index text) (1, 1)") (auto simp: split_inv_def location_of_def location_here_def)
  then show ?thesis using assms(1,2) by (simp add: split_inv_def advance_location_def)
qed

lemma split_inv_append:
  assumes "split_inv text index s" "is_valid_endpoint index text"
  shows "list_all (good_statement text) (sp_statements (append_segment text index (location_here s index) s))"
    "sorted_wrt (\<lambda>a b. ends_at a \<le> begins_at b) (sp_statements (append_segment text index (location_here s index) s))"
    "list_all (\<lambda>st. ends_at st \<le> index) (sp_statements (append_segment text index (location_here s index) s))"
  using assms
  by (auto simp: split_inv_def append_segment_def good_statement_def ends_at_def begins_at_def sorted_wrt_append list_all_iff
      intro: exI [of _ "sp_segment_start s"])

lemma split_inv_end_segment:
  assumes "split_inv text index s" "is_valid_endpoint index text"
  shows "split_inv text index (end_segment text index s)"
  using assms split_inv_append [OF assms]
  by (auto simp: split_inv_def end_segment_def Let_def location_here_def append_segment_def list_all_iff)

lemma split_step_inv:
  assumes "split_inv text index s" "index < length text" "text ! index = c" "split_step text index c d s = (s', both)"
    and "d = CHR 0x00 \<or> Suc index < length text \<and> text ! Suc index = d"
  shows "if both then split_inv text (Suc (Suc index)) s' \<and> d \<noteq> CHR 0x00 else split_inv text (Suc index) s'"
proof -
  let ?one = "advance_location c s" and ?two = "advance_location d (advance_location c s)"
  have one: "split_inv text (Suc index) ?one" by (rule split_inv_advance [OF assms(1-3)])
  have two: "split_inv text (Suc (Suc index)) ?two" if "d \<noteq> CHR 0x00"
    using split_inv_advance [OF one] assms(5) that by simp
  have "is_valid_endpoint (Suc index) text" if "c = CHR '';''"
    using assms(2,3) that by (auto simp: is_valid_endpoint_def CR_def)
  then have "split_inv text (Suc index) (end_segment text (Suc index) ?one)" if "c = CHR '';''"
    using split_inv_end_segment [OF one] that by simp
  then show ?thesis using one two assms(4)
    by (cases "sp_state s") (auto simp: split_step_def Let_def split: if_splits)
qed

lemma drop_ConsD:
  assumes "drop i xs = c # rest"
  shows "i < length xs" "xs ! i = c" "drop (Suc i) xs = rest"
proof -
  show i: "i < length xs" using assms by (cases "i < length xs") auto
  show "xs ! i = c" "drop (Suc i) xs = rest" using Cons_nth_drop_Suc [OF i] assms by simp_all
qed

lemma split_loop_inv:
  "split_inv cs index s \<Longrightarrow> rest = drop index cs \<Longrightarrow> split_inv cs (length cs) (split_loop cs index rest s)"
proof (induction cs index rest s rule: split_loop.induct)
  case (1 cs index s)
  then have "index = length cs" by (simp add: split_inv_def)
  then show ?case using 1 by simp
next
  case (2 cs index c s)
  note i = drop_ConsD [OF "2.prems"(2) [symmetric]]
  have "Suc index = length cs" using i(1,3) by simp
  then show ?case using split_step_inv [OF "2.prems"(1) i(1,2), of "CHR 0x00"]
    by (cases "split_step cs index c (CHR 0x00) s") (auto split: if_splits)
next
  case (3 cs index c d rest s)
  note i = drop_ConsD [OF "3.prems"(2) [symmetric]]
  note j = drop_ConsD [OF i(3)]
  obtain s' both where st: "split_step cs index c d s = (s', both)" by (cases "split_step cs index c d s")
  have "if both then split_inv cs (Suc (Suc index)) s' \<and> d \<noteq> CHR 0x00 else split_inv cs (Suc index) s'"
    by (rule split_step_inv [OF "3.prems"(1) i(1,2) st]) (use j in simp)
  then show ?case using "3.IH" [OF st [symmetric]] i(3) j(3) st by (cases both) simp_all
qed

lemma split_statements_good:
  assumes "split_statements text = Inr statements"
  shows "length text \<le> kMaxSqlBytes" "list_all (good_statement text) statements"
    "sorted_wrt (\<lambda>a b. ends_at a \<le> begins_at b) statements"
proof -
  let ?s = "split_loop text 0 text initial_splitter"
  have "split_inv text 0 initial_splitter"
    by (simp add: split_inv_def initial_splitter_def location_of_def location_here_def is_valid_endpoint_def)
  from split_loop_inv [OF this] have inv: "split_inv text (length text) ?s" by simp
  have "is_valid_endpoint (length text) text" by (simp add: is_valid_endpoint_def)
  note app = split_inv_append [OF inv this]
  show "length text \<le> kMaxSqlBytes" using assms by (simp add: split_statements_def split: if_splits)
  show "list_all (good_statement text) statements" "sorted_wrt (\<lambda>a b. ends_at a \<le> begins_at b) statements"
    using assms app inv by (auto simp: split_statements_def Let_def split_inv_def split: if_splits)
qed

lemma split_statement_range:
  assumes "good_statement text st" "no_lone_CR text" "length text \<le> kMaxSqlBytes"
  shows "is_valid_source_range (ss_source st) text \<and> ss_sql st = take (ends_at st - begins_at st) (drop (begins_at st) text)"
  using assms(1) location_of_range [OF assms(2,3)] by (auto simp: good_statement_def ends_at_def begins_at_def)

lemma no_lone_CR_nth: "no_lone_CR text \<longleftrightarrow> (\<forall>i < length text. text ! i = CR \<longrightarrow> Suc i < length text \<and> text ! Suc i = LF)"
  by (induction "text" rule: no_lone_CR.induct) (auto simp: All_less_Suc2)

lemma no_lone_CR_slice:
  assumes "no_lone_CR text" "is_valid_endpoint b text"
  shows "no_lone_CR (take (b - a) (drop a text))"
  unfolding no_lone_CR_nth
proof (intro allI impI)
  fix i assume i: "i < length (take (b - a) (drop a text))" "take (b - a) (drop a text) ! i = CR"
  then have t: "a + i < b" "a + i < length text" "text ! (a + i) = CR" by auto
  then have n: "Suc (a + i) < length text" "text ! Suc (a + i) = LF" using assms(1) by (simp_all add: no_lone_CR_nth)
  have "Suc (a + i) \<noteq> b" using assms(2) t(3) n by (auto simp: is_valid_endpoint_def)
  then show "Suc i < length (take (b - a) (drop a text)) \<and> take (b - a) (drop a text) ! Suc i = LF" using t n by auto
qed

text \<open>
  C31: the source ranges of split statements. Unless the text has a carriage return without a line feed behind it, every
  statement \<open>split_statements\<close> finds carries a range that the core accepts (line, column and byte offset of
  both ends agree with the text) and exactly the text of that range; the ranges are in order and do not overlap.
\<close>

theorem split_ranges_valid:
  assumes "split_statements text = Inr statements" "no_lone_CR text"
  shows "(\<forall>st \<in> set statements. is_valid_source_range (ss_source st) text
      \<and> ss_sql st = take (ends_at st - begins_at st) (drop (begins_at st) text))
    \<and> sorted_wrt (\<lambda>a b. ends_at a \<le> begins_at b) statements"
proof -
  show ?thesis using split_statement_range [OF _ assms(2)] split_statements_good [OF assms(1)] by (auto simp: list_all_iff)
qed

theorem split_ranges_valid_witness:
  "\<exists>a b. split_statements (''x;'' @ [CR, LF] @ ''y'') = Inr [a, b] \<and> is_valid_source_range (ss_source b) (''x;'' @ [CR, LF] @ ''y'')
    \<and> ss_sql b = [CR, LF] @ ''y''"
proof -
  let ?t = "''x;'' @ [CR, LF] @ ''y''"
  obtain a b where s: "split_statements ?t = Inr [a, b]" "ss_sql b = [CR, LF] @ ''y''"
    by (simp add: split_statements_def kMaxSqlBytes_def split_step_def advance_location_def initial_splitter_def end_segment_def
        append_segment_def is_whitespace_def Let_def CR_def LF_def)
  moreover have "no_lone_CR ?t" by (simp add: CR_def LF_def)
  ultimately show ?thesis using split_ranges_valid [OF s(1)] by auto
qed

subsection \<open>Ranges of diagnostics in the script\<close>

lemma walk_bounds:
  "1 \<le> line \<Longrightarrow> 1 \<le> column \<Longrightarrow>
   1 \<le> fst (walk_to_offset cs k line column) \<and> 1 \<le> snd (walk_to_offset cs k line column)
   \<and> fst (walk_to_offset cs k line column) \<le> line + int (length cs)
   \<and> snd (walk_to_offset cs k line column) \<le> column + int (length cs)"
  by (induction cs k line column rule: walk_to_offset.induct) (auto intro: order_trans)

lemma location_at_offset_Some:
  assumes "is_valid_endpoint k text" "length text \<le> kMaxSqlBytes"
  obtains location where "location_at_offset text k = Some location" "sl_byte_offset location = k" "is_valid_location location"
proof -
  have b: "fst (walk_to_offset text k 1 1) \<le> kIntMax" "snd (walk_to_offset text k 1 1) \<le> kIntMax"
    "1 \<le> fst (walk_to_offset text k 1 1)" "1 \<le> snd (walk_to_offset text k 1 1)"
    using walk_bounds [of 1 1 "text" k] assms(2) by (auto simp: kMaxSqlBytes_def kIntMax_def)
  show ?thesis
    by (rule that [of "\<lparr>sl_line = fst (walk_to_offset text k 1 1), sl_column = snd (walk_to_offset text k 1 1), sl_byte_offset = k\<rparr>"])
      (use b assms(1) in \<open>auto simp: location_at_offset_def is_valid_location_def split: prod.split\<close>)
qed

definition text_slice :: "string \<Rightarrow> SourceRange \<Rightarrow> string" where
  "text_slice text rng = take (sl_byte_offset (sr_end rng) - sl_byte_offset (sr_begin rng)) (drop (sl_byte_offset (sr_begin rng)) text)"

lemma endpoint_in_slice:
  assumes "is_valid_endpoint a text" "is_valid_endpoint b text" "a \<le> b" "is_valid_endpoint k (take (b - a) (drop a text))"
  shows "is_valid_endpoint (a + k) text"
proof -
  have b: "b \<le> length text" using assms(2) by (simp add: is_valid_endpoint_def)
  then have k: "k \<le> b - a" using assms(4) by (simp add: is_valid_endpoint_def)
  consider "k = 0" | "k = b - a" | "0 < k" "k < b - a" using k by linarith
  then show ?thesis
  proof cases
    case 3
    then have "text ! (a + k) = take (b - a) (drop a text) ! k" "text ! (a + k - 1) = take (b - a) (drop a text) ! (k - 1)"
      using b by simp_all
    then show ?thesis using assms(4) 3 b by (auto simp: is_valid_endpoint_def)
  qed (use assms in simp_all)
qed

text \<open>
  A diagnostic keeps its place. The range of a compile error, given relative to its statement, is translated
  into a valid range of the script that covers the same characters.
\<close>

lemma absolutized_range_exact:
  assumes "is_valid_source_range (ss_source statement) text" "ss_sql statement = text_slice text (ss_source statement)"
    and "is_valid_source_range relative (ss_sql statement)" "length text \<le> kMaxSqlBytes"
  shows "\<exists>rng. absolutize_range statement relative text = Some rng \<and> is_valid_source_range rng text
    \<and> text_slice text rng = text_slice (ss_sql statement) relative"
proof -
  let ?a = "sl_byte_offset (sr_begin (ss_source statement))" and ?b = "sl_byte_offset (sr_end (ss_source statement))"
  let ?i = "sl_byte_offset (sr_begin relative)" and ?j = "sl_byte_offset (sr_end relative)"
  have ab: "?a \<le> ?b" "?b \<le> length text" "is_valid_endpoint ?a text" "is_valid_endpoint ?b text"
    using assms(1) by (simp_all add: is_valid_source_range_def)
  have sql: "ss_sql statement = take (?b - ?a) (drop ?a text)" using assms(2) by (simp add: text_slice_def)
  then have len: "length (ss_sql statement) = ?b - ?a" using ab by simp
  have ij: "?i \<le> ?j" "?j \<le> ?b - ?a" "is_valid_endpoint ?i (ss_sql statement)" "is_valid_endpoint ?j (ss_sql statement)"
    using assms(3) len by (simp_all add: is_valid_source_range_def)
  have ends: "is_valid_endpoint (?a + ?i) text" "is_valid_endpoint (?a + ?j) text"
    using endpoint_in_slice [OF ab(3,4,1)] ij(3,4) sql by simp_all
  obtain l where l: "location_at_offset text (?a + ?i) = Some l" "sl_byte_offset l = ?a + ?i" "is_valid_location l"
    using location_at_offset_Some [OF ends(1) assms(4)] .
  obtain m where m: "location_at_offset text (?a + ?j) = Some m" "sl_byte_offset m = ?a + ?j" "is_valid_location m"
    using location_at_offset_Some [OF ends(2) assms(4)] .
  have "\<not> length text < ?a + ?i" "\<not> length text < ?a + ?j" using ab(1,2) ij(1,2) by linarith+
  then have "absolutize_range statement relative text = Some \<lparr>sr_begin = l, sr_end = m\<rparr>"
    using assms(1,3) ab(1) l(1) m(1) len by (simp add: absolutize_range_def Let_def)
  moreover have "is_valid_source_range \<lparr>sr_begin = l, sr_end = m\<rparr> text"
    using ab ij l m ends by (simp add: is_valid_source_range_def)
  moreover have "text_slice text \<lparr>sr_begin = l, sr_end = m\<rparr> = text_slice (ss_sql statement) relative"
    using ij(1,2) l(2) m(2) by (simp add: text_slice_def [of _ relative] sql text_slice_def [of "text"] drop_take take_take add.commute min_def)
  ultimately show ?thesis by blast
qed

end
