(* ===== verification/Script.thy ===== *)
theory Script
  imports Commands Source_Text
begin

text \<open>
  Scripts: \<open>Database::execute_script\<close> of \<open>src/core/script.cpp\<close> with the statement results of
  \<open>include/tinydbms/core.hpp\<close> and the shadow catalog of \<open>src/core/analysis_catalog.cpp\<close>. The compiler and the plan
  renderer are parameters here, as are the answers of storage to each statement and whether the script is
  cancelled at a statement boundary; cancellation inside a statement is not modelled.
\<close>

subsection \<open>Statement results\<close>

datatype ScriptErrorPolicy = kStopOnFirstError | kAnalyzeRemaining
datatype ExecutionMode = kExecuteMode | kPlanOnlyMode

datatype StatementStatus =
    kExecuted | kPlanOnly | kCompileError | kExecutionError | kExecutionIndeterminate | kAnalysisError
  | kAnalysisOnly | kSkippedExecution | kCancelled

definition kMaxStatementsPerScript :: nat where "kMaxStatementsPerScript = 4096"

record StatementResult =
  st_statement_index :: nat
  st_source :: SourceRange
  st_status :: StatementStatus
  st_outcome :: "ExecuteResult option"

fun is_error_kind :: "ExecuteResult \<Rightarrow> ErrorKind \<Rightarrow> bool" where
  "is_error_kind (ErrorOutcome error) kind = (er_kind error = kind)"
| "is_error_kind _ kind = False"

definition is_execution_error_kind :: "ErrorKind \<Rightarrow> bool" where
  "is_execution_error_kind kind \<longleftrightarrow> kind = kExecute \<or> kind = kStorage"

fun carries_execution_error :: "ExecuteResult \<Rightarrow> bool" where
  "carries_execution_error (ErrorOutcome error) = is_execution_error_kind (er_kind error)"
| "carries_execution_error (CommandOutcome command) =
     (case co_error command of None \<Rightarrow> False | Some error \<Rightarrow> is_execution_error_kind (er_kind error))"
| "carries_execution_error (QueryOutcome _) = False"

text \<open>The message of the exception a factory throws on an outcome that does not fit the status.\<close>

fun validate_statement_result :: "StatementStatus \<Rightarrow> ExecuteResult option \<Rightarrow> string option" where
  "validate_statement_result kExecuted outcome =
     (case outcome of
        None \<Rightarrow> Some ''kExecuted requires an outcome''
      | Some (QueryOutcome _) \<Rightarrow> None
      | Some (CommandOutcome command) \<Rightarrow>
          if co_error command = None then None else Some ''kExecuted must carry a result without an error''
      | Some (ErrorOutcome _) \<Rightarrow> Some ''kExecuted must carry a result without an error'')"
| "validate_statement_result kCompileError outcome =
     (case outcome of
        None \<Rightarrow> Some ''kCompileError requires a kCompile error''
      | Some r \<Rightarrow> if is_error_kind r kCompile then None else Some ''kCompileError requires a kCompile error'')"
| "validate_statement_result kPlanOnly outcome =
     (case outcome of Some (QueryOutcome _) \<Rightarrow> None | _ \<Rightarrow> Some ''kPlanOnly requires a query result'')"
| "validate_statement_result kExecutionError outcome =
     (case outcome of
        None \<Rightarrow> Some ''kExecutionError requires a kExecute or kStorage error''
      | Some r \<Rightarrow> if carries_execution_error r then None else Some ''kExecutionError requires a kExecute or kStorage error'')"
| "validate_statement_result kAnalysisError outcome =
     (case outcome of
        None \<Rightarrow> Some ''kAnalysisError requires a kAnalysis error''
      | Some r \<Rightarrow> if is_error_kind r kAnalysis then None else Some ''kAnalysisError requires a kAnalysis error'')"
| "validate_statement_result _ outcome =
     (case outcome of None \<Rightarrow> None | Some _ \<Rightarrow> Some ''status must not carry an outcome'')"

text \<open>The factories with an outcome (which check it), and those without.\<close>

definition checked_result ::
  "nat \<Rightarrow> SourceRange \<Rightarrow> StatementStatus \<Rightarrow> ExecuteResult \<Rightarrow> (string, StatementResult) result" where
  "checked_result index source status outcome =
     (case validate_statement_result status (Some outcome) of
        Some message \<Rightarrow> Inl message
      | None \<Rightarrow> Inr \<lparr>st_statement_index = index, st_source = source, st_status = status, st_outcome = Some outcome\<rparr>)"

definition bare_result :: "nat \<Rightarrow> SourceRange \<Rightarrow> StatementStatus \<Rightarrow> StatementResult" where
  "bare_result index source status =
     \<lparr>st_statement_index = index, st_source = source, st_status = status, st_outcome = None\<rparr>"

subsection \<open>The shadow catalog\<close>

record AnalysisCatalog =
  an_tables :: "TableMeta list"
  an_next_table_id :: u64

datatype ShadowApplyOutcome = NoCatalogChange | Applied | Rejected string

definition kFirstUserTableId :: TableId where "kFirstUserTableId = 2"

definition make_analysis_catalog :: "TableMeta list \<Rightarrow> u64 \<Rightarrow> AnalysisCatalog" where
  "make_analysis_catalog tables next_table_id = \<lparr>an_tables = tables, an_next_table_id = next_table_id\<rparr>"

definition apply_supported_ddl :: "AnalysisCatalog \<Rightarrow> Plan \<Rightarrow> ShadowApplyOutcome \<times> AnalysisCatalog" where
  "apply_supported_ddl analysis plan =
     (case plan of
        PlanCreateTable create \<Rightarrow>
          if 4294967295 < an_next_table_id analysis then (Rejected ''table id exhausted'', analysis)
          else
            let candidate = ucast (an_next_table_id analysis);
                metadata = \<lparr>tm_table_id = candidate, tm_table_name = ct_table_name create, tm_columns = ct_columns create\<rparr>
            in if candidate < kFirstUserTableId
               then (Rejected ''shadow catalog cannot allocate a reserved table id'', analysis)
               else
                 (case validate_table_metadata metadata of
                    Some error \<Rightarrow> (Rejected (er_message error), analysis)
                  | None \<Rightarrow>
                      if has_duplicate_table (an_tables analysis) metadata
                      then (Rejected ''table id or table name already exists'', analysis)
                      else (Applied, \<lparr>an_tables = an_tables analysis @ [metadata], an_next_table_id = ucast candidate + 1\<rparr>))
      | _ \<Rightarrow> (NoCatalogChange, analysis))"

subsection \<open>Requests, parameters and results\<close>

record ExecuteScriptRequest =
  rq_text :: string
  rq_error_policy :: ScriptErrorPolicy
  rq_mode :: ExecutionMode
  rq_max_query_rows :: nat

record 'l ScriptEnv =
  env_compile :: "string \<Rightarrow> TableMeta list \<Rightarrow> (CompileError, Plan) result Answer"
  env_render_plan :: "Plan \<Rightarrow> TableMeta list \<Rightarrow> (Error, QueryResult) result"
  env_calls :: "nat \<Rightarrow> 'l StorageCalls"
  env_cancelled :: "nat \<Rightarrow> bool"

record ExecuteScriptResult =
  es_script_error :: "Error option"
  es_statements :: "StatementResult list"

definition script_error_result :: "Error \<Rightarrow> ExecuteScriptResult" where
  "script_error_result error = \<lparr>es_script_error = Some error, es_statements = []\<rparr>"

definition make_error_at :: "ErrorKind \<Rightarrow> SourceRange \<Rightarrow> string \<Rightarrow> Error" where
  "make_error_at kind source message = (make_error kind message)\<lparr>er_source := Some source\<rparr>"

definition compile_error_at :: "CompileError \<Rightarrow> SourceRange \<Rightarrow> FixIt option \<Rightarrow> Error" where
  "compile_error_at error source fix_it =
     \<lparr>er_kind = kCompile, er_compile_stage = Some (ce_stage error), er_source = Some source, er_message = ce_message error,
      er_suggestion = ce_suggestion error, er_fix_it = fix_it\<rparr>"

subsection \<open>The statement loop\<close>

text \<open>Loop state: the results so far, the session, whether statements are still executed, and the shadow catalog.\<close>

record ScriptState =
  sx_results :: "StatementResult list"
  sx_db :: DbState
  sx_execution_allowed :: bool
  sx_analysis :: AnalysisCatalog

fun fill_status :: "StatementStatus \<Rightarrow> nat \<Rightarrow> SplitStatement list \<Rightarrow> StatementResult list" where
  "fill_status status index [] = []"
| "fill_status status index (statement # rest) =
     bare_result index (ss_source statement) status # fill_status status (Suc index) rest"

definition side_effects_possible :: "bool \<Rightarrow> DbState \<Rightarrow> bool" where
  "side_effects_possible storage_called db \<longleftrightarrow>
     storage_called \<or> im_cleanup_retry_needed (fst db) \<or> im_forced_close_pending (fst db)"

text \<open>\<open>abort_script\<close> and \<open>abort_after_exception\<close>: the current statement heads the remaining ones.\<close>

definition abort_script ::
  "bool \<Rightarrow> nat \<Rightarrow> SplitStatement \<Rightarrow> SplitStatement list \<Rightarrow> Error \<Rightarrow> ScriptState \<Rightarrow> ExecuteScriptResult \<times> DbState" where
  "abort_script storage_called index statement rest error st =
     (\<lparr>es_script_error = Some (case er_source error of None \<Rightarrow> error\<lparr>er_source := Some (ss_source statement)\<rparr> | Some _ \<Rightarrow> error),
       es_statements = sx_results st @
         (if side_effects_possible storage_called (sx_db st)
          then bare_result index (ss_source statement) kExecutionIndeterminate # fill_status kSkippedExecution (Suc index) rest
          else fill_status kSkippedExecution index (statement # rest))\<rparr>, sx_db st)"

definition factory_threw ::
  "bool \<Rightarrow> nat \<Rightarrow> SplitStatement \<Rightarrow> SplitStatement list \<Rightarrow> string \<Rightarrow> ScriptState \<Rightarrow> ExecuteScriptResult \<times> DbState" where
  "factory_threw storage_called index statement rest message st =
     abort_script storage_called index statement rest
       (make_error kInternal (''script execution was aborted: '' @ message)) st"

definition finish_script :: "ScriptState \<Rightarrow> ExecuteScriptResult \<times> DbState" where
  "finish_script st = (\<lparr>es_script_error = None, es_statements = sx_results st\<rparr>, sx_db st)"

definition push_result :: "StatementResult \<Rightarrow> ScriptState \<Rightarrow> ScriptState" where
  "push_result r st = st\<lparr>sx_results := sx_results st @ [r]\<rparr>"

definition exception_text :: "Thrown \<Rightarrow> string" where
  "exception_text thrown = thrown_message ''unknown exception'' thrown"

text \<open>The absolute range and fix-it of a compile error, or the message of the contract violation.\<close>

definition locate_compile_error :: "SplitStatement \<Rightarrow> CompileError \<Rightarrow> string \<Rightarrow> (string, Error) result" where
  "locate_compile_error statement error text =
     (case absolutize_range statement (ce_source error) text of
        None \<Rightarrow> Inl ''compiler returned an invalid compile error range''
      | Some absolute \<Rightarrow>
          (case ce_fix_it error of
             None \<Rightarrow> Inr (compile_error_at error absolute None)
           | Some fix_it \<Rightarrow>
               (case absolutize_range statement (fi_range fix_it) text of
                  None \<Rightarrow> Inl ''compiler returned an invalid fix-it range''
                | Some fix_range \<Rightarrow>
                    Inr (compile_error_at error absolute (Some \<lparr>fi_range = fix_range, fi_replacement = fi_replacement fix_it\<rparr>)))))"

fun is_execution_failure :: "ExecuteResult \<Rightarrow> bool" where
  "is_execution_failure (ErrorOutcome _) = True"
| "is_execution_failure (CommandOutcome command) = (co_error command \<noteq> None)"
| "is_execution_failure (QueryOutcome _) = False"

definition creates_table :: "Plan \<Rightarrow> bool" where
  "creates_table plan = (case plan of PlanCreateTable _ \<Rightarrow> True | _ \<Rightarrow> False)"

text \<open>What one statement leads to: the loop goes on, or the script ends.\<close>

datatype Continuation = Continue ScriptState | Finish "ExecuteScriptResult \<times> DbState"

text \<open>After a failed statement the script stops or goes on in analysis only.\<close>

definition after_failure :: "ExecuteScriptRequest \<Rightarrow> nat \<Rightarrow> SplitStatement list \<Rightarrow> ScriptState \<Rightarrow> Continuation" where
  "after_failure request index rest st =
     (if rq_error_policy request = kAnalyzeRemaining then Continue (st\<lparr>sx_execution_allowed := False\<rparr>)
      else Finish (finish_script (st\<lparr>sx_results := sx_results st @ fill_status kSkippedExecution (Suc index) rest\<rparr>)))"

definition compile_failed ::
  "ExecuteScriptRequest \<Rightarrow> nat \<Rightarrow> SplitStatement \<Rightarrow> SplitStatement list \<Rightarrow> CompileError \<Rightarrow> ScriptState \<Rightarrow> Continuation" where
  "compile_failed request index statement rest error st =
     (case locate_compile_error statement error (rq_text request) of
        Inl message \<Rightarrow> Finish (abort_script False index statement rest (make_error kInternal message) st)
      | Inr located \<Rightarrow>
          (case checked_result index (ss_source statement) kCompileError (ErrorOutcome located) of
             Inl message \<Rightarrow> Finish (factory_threw False index statement rest message st)
           | Inr r \<Rightarrow>
               let st' = push_result r st
               in if \<not> sx_execution_allowed st then Continue st' else after_failure request index rest st'))"

definition show_plan ::
  "'l ScriptEnv \<Rightarrow> TableMeta list \<Rightarrow> nat \<Rightarrow> SplitStatement \<Rightarrow> SplitStatement list \<Rightarrow> Plan \<Rightarrow> ScriptState \<Rightarrow> Continuation" where
  "show_plan env catalog index statement rest plan st =
     (case env_render_plan env plan catalog of
        Inl error \<Rightarrow> Finish (abort_script False index statement rest error st)
      | Inr rendered \<Rightarrow>
          (case checked_result index (ss_source statement) kPlanOnly (QueryOutcome rendered) of
             Inl message \<Rightarrow> Finish (factory_threw False index statement rest message st)
           | Inr r \<Rightarrow> Continue (push_result r st)))"

definition analyze_plan :: "nat \<Rightarrow> SplitStatement \<Rightarrow> SplitStatement list \<Rightarrow> Plan \<Rightarrow> ScriptState \<Rightarrow> Continuation" where
  "analyze_plan index statement rest plan st =
     (case apply_supported_ddl (sx_analysis st) plan of (shadow, analysis) \<Rightarrow>
        let st' = st\<lparr>sx_analysis := analysis\<rparr>
        in case shadow of
          Rejected message \<Rightarrow>
            (case checked_result index (ss_source statement) kAnalysisError
                (ErrorOutcome (make_error_at kAnalysis (ss_source statement) message)) of
               Inl message \<Rightarrow> Finish (factory_threw False index statement rest message st')
             | Inr r \<Rightarrow> Continue (push_result r st'))
        | _ \<Rightarrow> Continue (push_result (bare_result index (ss_source statement) kAnalysisOnly) st'))"

definition run_plan ::
  "'l ScriptEnv \<Rightarrow> ExecuteScriptRequest \<Rightarrow> nat \<Rightarrow> SplitStatement \<Rightarrow> SplitStatement list \<Rightarrow> Plan \<Rightarrow> ScriptState \<Rightarrow> Continuation" where
  "run_plan env request index statement rest plan st =
     (case execute_plan_impl (env_calls env index) (rq_max_query_rows request) plan (sx_db st) of (executed, db) \<Rightarrow>
        let st' = st\<lparr>sx_db := db\<rparr>; called = pe_storage_called executed; outcome = pe_outcome executed
        in if is_error_kind outcome kInternal
           then Finish (abort_script called index statement rest
             (make_error kInternal (case outcome of ErrorOutcome error \<Rightarrow> er_message error | _ \<Rightarrow> [])) st')
           else if is_execution_failure outcome then
             (case checked_result index (ss_source statement) kExecutionError outcome of
                Inl message \<Rightarrow> Finish (factory_threw called index statement rest message st')
              | Inr r \<Rightarrow> after_failure request index rest (push_result r st'))
           else
             (case checked_result index (ss_source statement) kExecuted outcome of
                Inl message \<Rightarrow> Finish (factory_threw called index statement rest message st')
              | Inr r \<Rightarrow>
                  let st'' = push_result r st'
                  in Continue (if rq_error_policy request = kAnalyzeRemaining \<and> creates_table plan
                    then st''\<lparr>sx_analysis := make_analysis_catalog (im_catalog (fst db)) (im_next_table_id (fst db))\<rparr>
                    else st'')))"

definition run_statement ::
  "'l ScriptEnv \<Rightarrow> ExecuteScriptRequest \<Rightarrow> nat \<Rightarrow> SplitStatement \<Rightarrow> SplitStatement list \<Rightarrow> ScriptState \<Rightarrow> Continuation" where
  "run_statement env request index statement rest st =
     (if env_cancelled env index
      then Finish (finish_script (st\<lparr>sx_results := sx_results st @ fill_status kCancelled index (statement # rest)\<rparr>))
      else
        let catalog = (if sx_execution_allowed st then im_catalog (fst (sx_db st)) else an_tables (sx_analysis st))
        in case env_compile env (ss_sql statement) catalog of
          Threw thrown \<Rightarrow>
            Finish (abort_script False index statement rest
              (make_error kInternal (case thrown of
                 StdException what \<Rightarrow> ''compiler raised an exception: '' @ what
               | UnknownException \<Rightarrow> ''compiler raised an unknown exception'')) st)
        | Returned (Inl error) \<Rightarrow> compile_failed request index statement rest error st
        | Returned (Inr plan) \<Rightarrow>
            if rq_mode request = kPlanOnlyMode then show_plan env catalog index statement rest plan st
            else if \<not> sx_execution_allowed st then analyze_plan index statement rest plan st
            else run_plan env request index statement rest plan st)"

fun run_statements ::
  "'l ScriptEnv \<Rightarrow> ExecuteScriptRequest \<Rightarrow> nat \<Rightarrow> SplitStatement list \<Rightarrow> ScriptState \<Rightarrow> ExecuteScriptResult \<times> DbState" where
  "run_statements env request index [] st = finish_script st"
| "run_statements env request index (statement # rest) st =
     (case run_statement env request index statement rest st of
        Finish r \<Rightarrow> r
      | Continue st' \<Rightarrow> run_statements env request (Suc index) rest st')"

subsection \<open>Scripts\<close>

definition split_failed :: "CompileError \<Rightarrow> string \<Rightarrow> ExecuteScriptResult" where
  "split_failed error text =
     (if \<not> is_valid_source_range (ce_source error) text
      then script_error_result (make_error_at kInternal empty_source_range ''compiler returned an invalid split error range'')
      else if (case ce_fix_it error of None \<Rightarrow> False | Some fix_it \<Rightarrow> \<not> is_valid_source_range (fi_range fix_it) text)
      then script_error_result (make_error_at kInternal empty_source_range ''compiler returned an invalid split fix-it range'')
      else script_error_result (compile_error_at error (ce_source error) (ce_fix_it error)))"

definition statement_range_ok :: "string \<Rightarrow> SplitStatement \<Rightarrow> bool" where
  "statement_range_ok text statement \<longleftrightarrow>
     is_valid_source_range (ss_source statement) text
     \<and> sl_byte_offset (sr_begin (ss_source statement)) \<le> sl_byte_offset (sr_end (ss_source statement))
     \<and> sl_byte_offset (sr_end (ss_source statement)) - sl_byte_offset (sr_begin (ss_source statement)) = length (ss_sql statement)"

definition initial_script :: "DbState \<Rightarrow> ScriptState" where
  "initial_script db = \<lparr>sx_results = [], sx_db = db, sx_execution_allowed = True,
     sx_analysis = make_analysis_catalog (im_catalog (fst db)) (im_next_table_id (fst db))\<rparr>"

definition execute_script ::
  "'l ScriptEnv \<Rightarrow> ExecuteScriptRequest \<Rightarrow> DbState \<Rightarrow> ExecuteScriptResult \<times> DbState" where
  "execute_script env request db =
     (if \<not> im_open (fst db) then (script_error_result (make_error kExecute ''database is not open''), db)
      else if rq_max_query_rows request = 0
      then (script_error_result (make_error kExecute ''max_query_rows must be at least 1''), db)
      else case split_statements (rq_text request) of
        Inl error \<Rightarrow> (split_failed error (rq_text request), db)
      | Inr statements \<Rightarrow>
          if \<not> list_all (statement_range_ok (rq_text request)) statements
          then (script_error_result (make_error_at kInternal empty_source_range ''compiler returned an invalid split statement range''), db)
          else if kMaxStatementsPerScript < length statements
          then (script_error_result ((make_error_at kCompile empty_source_range ''script contains too many statements'')
            \<lparr>er_compile_stage := Some kLex\<rparr>), db)
          else run_statements env request 0 statements (initial_script db))"

end
