(* ===== verification/Error_Kinds.thy ===== *)
theory Error_Kinds
  imports Commands
begin

text \<open>
  Which kinds of error the executor reports: every error of a plan is an execution error, a storage error or
  an internal one, whatever the plan and whatever storage answers, and the error of a partly executed command
  is a storage error. The script layer relies on it.
\<close>

named_theorems kind_simps

definition raises :: "('e \<Rightarrow> bool) \<Rightarrow> ('e, 'a) result \<Rightarrow> bool" where
  "raises P r \<longleftrightarrow> (\<forall>e. r = Inl e \<longrightarrow> P e)"

definition runtime_error :: "Error \<Rightarrow> bool" where
  "runtime_error e \<longleftrightarrow> er_kind e \<in> {kExecute, kStorage, kInternal}"

definition runtime_failure :: "Failure \<Rightarrow> bool" where
  "runtime_failure f \<longleftrightarrow> runtime_error (failed_with f)"

lemma raises_simps [kind_simps]:
  "raises P (Inl e) \<longleftrightarrow> P e" "raises P (Inr x)"
  "raises P (bind_result r f) \<longleftrightarrow> raises P r \<and> (\<forall>x. r = Inr x \<longrightarrow> raises P (f x))"
  "raises runtime_failure (fails s) \<longleftrightarrow> raises runtime_error s"
  by (auto simp: raises_def result_simps runtime_failure_def)

lemma raises_cases [kind_simps]:
  "raises P (if b then r else s) \<longleftrightarrow> (b \<longrightarrow> raises P r) \<and> (\<not> b \<longrightarrow> raises P s)"
  by simp

lemma runtime_errors [kind_simps]:
  "runtime_error (make_error kInternal m)" "runtime_error (make_error kExecute m)" "runtime_error (make_error_hint kExecute m h)"
  "runtime_error (internal m)" "runtime_error (expression_error ee)" "runtime_error (map_storage_error se)"
  "runtime_error duplicate_bindings" "runtime_error (join_limit_error n)" "runtime_error (query_limit_error n)"
  "runtime_error bad_variant_access"
  by (simp_all add: runtime_error_def make_error_def make_error_hint_def internal_def expression_error_def map_storage_error_def
      duplicate_bindings_def join_limit_error_def query_limit_error_def bad_variant_access_def)

lemma runtime_failure_Failure [kind_simps]: "runtime_failure (Failure e b) \<longleftrightarrow> runtime_error e"
  by (simp add: runtime_failure_def)

lemma collect_raises: "(\<And>x. x \<in> set xs \<Longrightarrow> raises P (f x)) \<Longrightarrow> raises P (collect_results f xs)"
  by (induction xs) (auto simp: kind_simps)

subsection \<open>Rows and metadata\<close>

lemma validate_columns_kind: "validate_columns previous columns = Some e \<Longrightarrow> runtime_error e"
  by (induction previous columns rule: validate_columns.induct) (auto simp: kind_simps split: if_splits)

lemma validate_table_metadata_kind: "validate_table_metadata table = Some e \<Longrightarrow> runtime_error e"
  by (auto simp: validate_table_metadata_def kind_simps dest: validate_columns_kind split: if_splits)

lemma validate_physical_row_kind: "validate_physical_row table row = Some e \<Longrightarrow> runtime_error e"
  by (auto simp: validate_physical_row_def kind_simps split: if_splits)

lemma check_scan_columns_kind: "check_scan_columns w uc us cols = Some e \<Longrightarrow> runtime_error e"
  by (induction w uc us cols rule: check_scan_columns.induct) (auto simp: kind_simps Let_def split: if_splits)

lemma materialize_raises [kind_simps]: "raises runtime_error (materialize_slot_row table row columns)"
  by (auto simp: materialize_slot_row_def validate_scan_columns_def raises_def kind_simps
      dest: validate_physical_row_kind check_scan_columns_kind split: option.splits if_splits)

lemmas materialize_kind = materialize_raises [unfolded raises_def, rule_format]

lemma make_validation_raises [kind_simps]: "raises runtime_error (make_validation_slot_row table columns)"
  by (simp add: make_validation_slot_row_def kind_simps)

lemma slot_lookup_raises [kind_simps]: "raises runtime_error (slot_lookup row s)"
proof -
  have "raises runtime_error (slot_lookup_loop row s f)" for f
    by (induction row s f rule: slot_lookup_loop.induct) (auto simp: kind_simps split: option.splits)
  then show ?thesis by (simp add: slot_lookup_def)
qed

subsection \<open>Queries\<close>

lemma validation_raises [kind_simps]:
  "raises runtime_error (validate_group_keys row slots outs)"
  "raises runtime_error (validate_calls row calls outs)"
  "raises runtime_error (check_sort_slots row keys)"
  "raises runtime_error (check_output_slots row slots)"
  "raises runtime_error (result_headers slots outputs)"
  "raises runtime_error (merge_slot_rows row right)"
proof -
  show "raises runtime_error (validate_group_keys row slots outs)"
    by (induction row slots outs rule: validate_group_keys.induct) (auto simp: kind_simps)
  show "raises runtime_error (validate_calls row calls outs)"
    by (induction row calls outs rule: validate_calls.induct) (auto simp: kind_simps split: option.splits)
  show "raises runtime_error (check_sort_slots row keys)" by (induction keys) (auto simp: kind_simps)
  show "raises runtime_error (check_output_slots row slots)" by (induction slots) (auto simp: kind_simps)
  show "raises runtime_error (result_headers slots outputs)"
    by (induction slots outputs rule: result_headers.induct) (auto simp: kind_simps)
  have "raises runtime_error (merge_slot_loop l r)" for l r
    by (induction l r rule: merge_slot_loop.induct) (auto simp: kind_simps split: sum.splits)
  then show "raises runtime_error (merge_slot_rows row right)" by (simp add: merge_slot_rows_def)
qed

lemma validate_dataflow_raises [kind_simps]: "raises runtime_error (validate_dataflow_node catalog node depth types)"
  by (induction catalog node depth types rule: validate_dataflow_node.induct)
    (auto simp: kind_simps dest: validate_table_metadata_kind split: option.splits)

lemma validate_query_plan_raises [kind_simps]: "raises runtime_error (validate_query_plan catalog plan)"
  by (auto simp: validate_query_plan_def kind_simps Let_def split: option.splits PlanNode.splits)

lemma sort_raises [kind_simps]: "raises runtime_error (execute_sort rows keys)"
proof -
  have keys: "raises runtime_error (prepare_keys row ks fs)" for row ks fs
    by (induction row ks fs rule: prepare_keys.induct) (auto simp: kind_simps)
  have "raises runtime_error (prepare_rows ks fs rs)" for ks fs rs
    by (induction ks fs rs rule: prepare_rows.induct) (auto simp: kind_simps keys)
  then show ?thesis by (simp add: execute_sort_def prepare_sort_rows_def kind_simps)
qed

lemma join_raises [kind_simps]: "raises runtime_error (execute_join h limit types condition lefts rights)"
proof -
  have match: "raises runtime_error (push_match condition limit c j)" for c j
    by (simp add: push_match_def kind_simps split: sum.splits)
  have matches: "raises runtime_error (push_matches condition limit cs j)" for cs j
    by (induction cs arbitrary: j) (auto simp: kind_simps match)
  have key: "raises runtime_error (join_key row ss)" for row ss
    by (induction ss) (auto simp: kind_simps)
  have index: "raises runtime_error (build_right_index h ss i rows ri)" for ss i rows ri
    by (induction rows arbitrary: i ri) (auto simp: kind_simps key)
  have probe: "raises runtime_error (probe_left_rows h condition limit ss ri rs ls j)" for ss ri rs ls j
    by (induction ls arbitrary: j) (auto simp: kind_simps key matches Let_def)
  have "raises runtime_error (nested_loop_join condition limit rs ls j)" for rs ls j
    by (induction ls arbitrary: j) (auto simp: kind_simps matches)
  then show ?thesis by (simp add: execute_join_def kind_simps Let_def index probe)
qed

lemma aggregate_raises [kind_simps]: "raises runtime_error (execute_aggregate h ld gks calls rows)"
proof -
  have inc: "raises runtime_error (checked_increment w)" for w by (simp add: checked_increment_def kind_simps)
  have add: "raises runtime_error (checked_add v w)" for v w by (simp add: checked_add_def kind_simps)
  have sum: "raises runtime_error (accumulate_sum call v st)" for call v and st :: "'a AggregateState"
    by (simp add: accumulate_sum_def kind_simps add Let_def split: Value.splits option.splits)
  have avg: "raises runtime_error (accumulate_avg l v st)" for l :: "'a LongDouble" and v st
    by (simp add: accumulate_avg_def kind_simps inc Let_def split: Value.splits)
  have ext: "raises runtime_error (accumulate_extremum k v st)" for k v and st :: "'a AggregateState"
    by (simp add: accumulate_extremum_def kind_simps split: option.splits)
  have acc: "raises runtime_error (accumulate_aggregate l call row st)" for l :: "'a LongDouble" and call row st
    by (simp add: accumulate_aggregate_def kind_simps inc sum avg ext split: option.splits AggregateKind.splits)
  have all: "raises runtime_error (accumulate_all l cs row sts)" for l :: "'a LongDouble" and cs row sts
    by (induction l cs row sts rule: accumulate_all.induct) (auto simp: kind_simps acc)
  have rows: "raises runtime_error (aggregate_rows h ld gks calls rs gi)" for rs gi
    by (induction rs arbitrary: gi) (auto simp: kind_simps all intro!: collect_raises)
  have fin: "raises runtime_error (finish_aggregate ld call st)" for call st
    by (simp add: finish_aggregate_def kind_simps Let_def)
  have "raises runtime_error (group_output ld gks calls g)" for g
    by (auto simp: group_output_def kind_simps fin intro!: collect_raises)
  then show ?thesis by (auto simp: execute_aggregate_def kind_simps rows intro!: collect_raises)
qed

lemma filter_raises [kind_simps]: "raises runtime_error (filter_rows predicate rows)"
  by (induction rows) (auto simp: kind_simps split: sum.splits)

lemma project_raises [kind_simps]: "raises runtime_error (project_rows outputs width rows)"
  by (induction rows) (auto simp: kind_simps intro!: collect_raises)

subsection \<open>Scans\<close>

lemma scan_records_raises:
  assumes "\<And>state rcd. raises runtime_failure (handler state rcd)"
  shows "raises runtime_failure (scan_records scan handler answers state)"
proof (induction answers arbitrary: state)
  case (Cons answer answers)
  have handled: "runtime_error (failed_with f)" if "handler state rcd = Inl f" for f rcd
    using assms [of state rcd] that by (simp add: raises_def runtime_failure_def)
  show ?case
    by (cases answer) (auto simp: kind_simps handled Cons.IH split: option.splits sum.splits)
qed (simp add: kind_simps)

lemma scan_table_raises:
  assumes "\<And>state rcd. raises runtime_failure (handler state rcd)"
  shows "raises runtime_failure (scan_table unknown scan handler state)"
  using scan_records_raises [OF assms]
  by (auto simp: scan_table_def kind_simps split: Answer.splits option.splits)

lemma scan_handler_raises: "raises runtime_failure (scan_handler table columns limit rows rcd)"
  by (auto simp: scan_handler_def kind_simps dest: materialize_kind split: sum.splits)

lemma execute_node_raises [kind_simps]: "raises runtime_failure (execute_node env node depth)"
  by (induction env node depth rule: execute_node.induct)
    (auto simp: kind_simps plan_too_deep_def split: option.splits intro!: scan_table_raises scan_handler_raises)

lemma execute_query_raises [kind_simps]: "raises runtime_failure (execute_query env plan)"
  by (simp add: execute_query_def kind_simps)

lemma matches_raises [kind_simps]: "raises runtime_error (matches predicate row)"
  by (cases "predicate") (auto simp: matches_def raises_def result_simps kind_simps)

lemma delete_handler_raises: "raises runtime_failure (delete_handler table plan rids rcd)"
  by (auto simp: delete_handler_def kind_simps dest: materialize_kind split: sum.splits)

lemma update_handler_raises: "raises runtime_failure (update_handler table plan updates rcd)"
  by (auto simp: update_handler_def kind_simps Let_def dest: materialize_kind validate_physical_row_kind split: sum.splits option.splits)

subsection \<open>Statements\<close>

definition outcome_kinds :: "ExecuteResult \<Rightarrow> bool" where
  "outcome_kinds outcome =
     (case outcome of
        QueryOutcome _ \<Rightarrow> True
      | CommandOutcome command \<Rightarrow> (\<forall>e. co_error command = Some e \<longrightarrow> er_kind e = kStorage)
      | ErrorOutcome error \<Rightarrow> runtime_error error)"

lemma outcome_kinds_simps [kind_simps]:
  "outcome_kinds (pe_outcome (fst (refuse e st))) \<longleftrightarrow> runtime_error e"
  "outcome_kinds (pe_outcome (fst (respond outcome st))) \<longleftrightarrow> outcome_kinds outcome"
  "outcome_kinds (pe_outcome (fst (abort_statement closed e st))) \<longleftrightarrow> runtime_error e"
  "outcome_kinds (pe_outcome (fst (scan_failed closed f st))) \<longleftrightarrow> runtime_failure f"
  "outcome_kinds (ErrorOutcome e) \<longleftrightarrow> runtime_error e" "outcome_kinds (QueryOutcome q)"
  "outcome_kinds (CommandOutcome \<lparr>co_affected_rows = n, co_error = None\<rparr>)"
  "outcome_kinds (CommandOutcome \<lparr>co_affected_rows = n, co_error = Some (map_storage_error se)\<rparr>)"
  by (simp_all add: outcome_kinds_def refuse_def respond_def abort_statement_def scan_failed_def runtime_failure_def
      map_storage_error_def make_error_def)

lemma count_answered_kinds: "outcome_kinds (pe_outcome (fst (count_answered closed texts requested answer st)))"
  by (auto simp: count_answered_def kind_simps split: Answer.splits option.splits)

lemma insert_rows_raises: "raises runtime_error (insert_rows table plan)"
  by (auto simp: insert_rows_def kind_simps Let_def physical_row_def dest: validate_physical_row_kind
      intro!: collect_raises split: option.splits)

lemma validate_where_kind: "validate_where predicate row = Some e \<Longrightarrow> runtime_error e"
  by (auto simp: validate_where_def kind_simps split: option.splits)

lemma check_assignments_kind: "check_assignments table used assignments = Some e \<Longrightarrow> runtime_error e"
  by (induction table used assignments rule: check_assignments.induct) (auto simp: kind_simps Let_def split: if_splits)

lemma execute_plan_kinds: "outcome_kinds (pe_outcome (fst (execute_plan_impl calls limit plan st)))"
proof -
  have create: "outcome_kinds (pe_outcome (fst (execute_create_table calls p st)))" for p
    by (auto simp: execute_create_table_def kind_simps Let_def dest: validate_table_metadata_kind
        split: prod.splits option.splits Answer.splits)
  have insert: "outcome_kinds (pe_outcome (fst (execute_insert calls p st)))" for p
    using insert_rows_raises
    by (auto simp: execute_insert_def insert_answered_def kind_simps raises_def dest: validate_table_metadata_kind
        split: option.splits sum.splits Answer.splits)
  have delete: "outcome_kinds (pe_outcome (fst (execute_delete calls p st)))" for p
    using make_validation_raises scan_table_raises [OF delete_handler_raises]
    by (auto simp: execute_delete_def delete_answered_def kind_simps raises_def count_answered_kinds
        dest: validate_table_metadata_kind validate_where_kind split: option.splits sum.splits)
  have update: "outcome_kinds (pe_outcome (fst (execute_update calls p st)))" for p
    using make_validation_raises scan_table_raises [OF update_handler_raises]
    by (auto simp: execute_update_def update_answered_def kind_simps raises_def count_answered_kinds
        dest: validate_table_metadata_kind validate_where_kind check_assignments_kind split: option.splits sum.splits)
  have query: "outcome_kinds (pe_outcome (fst (run_query calls limit p st)))" for p
    using validate_query_plan_raises [of "im_catalog (fst st)" p] execute_query_raises [of "query_env calls limit (im_catalog (fst st))" p]
    by (auto simp: run_query_def kind_simps Let_def runtime_failure_def raises_def split: sum.splits)
  show ?thesis by (simp add: execute_plan_impl_def kind_simps create insert delete update query split: Plan.splits)
qed

end
