(* ===== verification/Command_Properties.thy ===== *)
theory Command_Properties
  imports Commands Query_Semantics
begin

text \<open>
  What the statements of \<open>Commands\<close> ask of storage: INSERT sends the rows in the column order of the table,
  DELETE and UPDATE name exactly the records on which the WHERE clause holds, and what a statement may do
  to the session.
\<close>

subsection \<open>WHERE clauses on stored records\<close>

definition bound_row :: "ScanColumn list \<Rightarrow> Row \<Rightarrow> SlotRow" where
  "bound_row columns values = map (\<lambda>c. \<lparr>sv_slot_id = sc_output_slot c, sv_value = values ! unat (sc_column_id c)\<rparr>) columns"

definition where_holds :: "Expr option \<Rightarrow> SlotRow \<Rightarrow> bool" where
  "where_holds predicate row = (case predicate of None \<Rightarrow> True | Some p \<Rightarrow> holds p row)"

definition selected :: "Expr option \<Rightarrow> ScanColumn list \<Rightarrow> Record list \<Rightarrow> Record list" where
  "selected predicate columns records = filter (\<lambda>r. where_holds predicate (bound_row columns (rec_values r))) records"

lemma materialize_bound:
  assumes "make_validation_slot_row table columns = Inr proto" "validate_physical_row table values = None"
  shows "materialize_slot_row table values columns = Inr (bound_row columns values)"
  using assms by (auto simp: make_validation_slot_row_def materialize_Inr bound_row_def validate_physical_row_None)

lemma matches_where_holds:
  assumes "make_validation_slot_row table columns = Inr proto" "validate_where predicate proto = None"
    and "validate_physical_row table values = None"
  shows "matches predicate (bound_row columns values) = Inr (where_holds predicate (bound_row columns values))"
proof (cases predicate)
  case (Some p)
  have "row_conforms proto (bound_row columns values)"
    by (rule materialize_conforms(1) [OF assms(1) materialize_bound [OF assms(1,3)]])
  moreover have "validate_predicate p proto = None" using assms(2) Some by (simp add: validate_where_def)
  ultimately obtain b where "evaluate_predicate p (bound_row columns values) = Inr b"
    using validated_holds_total by blast
  then show ?thesis using Some by (simp add: matches_def where_holds_def holds_def)
qed (simp add: matches_def where_holds_def)

lemma handle_delete:
  assumes "make_validation_slot_row table (dp_input_columns plan) = Inr proto"
    and "validate_where (dp_predicate plan) proto = None"
    and "\<forall>r \<in> set records. validate_physical_row table (rec_values r) = None"
  shows "handle_all (delete_handler table plan) records rids
    = Inr (rids @ map rec_rid (selected (dp_predicate plan) (dp_input_columns plan) records))"
  using assms(3)
proof (induction records arbitrary: rids)
  case (Cons r records)
  then show ?case
    using materialize_bound [OF assms(1)] matches_where_holds [OF assms(1,2)]
    by (simp add: delete_handler_def [of table plan _ r] selected_def)
qed (simp add: selected_def)

subsection \<open>Assignments\<close>

lemma check_assignments_None:
  "check_assignments table used assignments = None \<longleftrightarrow>
     (\<forall>a \<in> set assignments. unat (ua_column_id a) < length (tm_columns table)
        \<and> value_matches_column (ua_value a) (tm_columns table ! unat (ua_column_id a)))
     \<and> distinct (map (\<lambda>a. unat (ua_column_id a)) assignments)
     \<and> set (map (\<lambda>a. unat (ua_column_id a)) assignments) \<inter> set used = {}"
  by (induction table used assignments rule: check_assignments.induct) (auto simp: Let_def)

lemma length_assign_values [simp]: "length (assign_values assignments row) = length row"
  unfolding assign_values_def by (induction assignments arbitrary: row) auto

lemma assign_values_other:
  "\<forall>a \<in> set assignments. unat (ua_column_id a) \<noteq> i \<Longrightarrow> assign_values assignments row ! i = row ! i"
  unfolding assign_values_def by (induction assignments arbitrary: row) auto

lemma assign_values_assigned:
  "distinct (map (\<lambda>a. unat (ua_column_id a)) assignments) \<Longrightarrow> a \<in> set assignments \<Longrightarrow>
   unat (ua_column_id a) < length row \<Longrightarrow> assign_values assignments row ! unat (ua_column_id a) = ua_value a"
proof (induction assignments arbitrary: row)
  case (Cons b rest)
  show ?case
  proof (cases "a \<in> set rest")
    case False
    then have "a = b" using Cons.prems(2) by simp
    moreover from this have "\<forall>c \<in> set rest. unat (ua_column_id c) \<noteq> unat (ua_column_id a)" using Cons.prems(1) by (auto simp: image_iff)
    ultimately show ?thesis
      using assign_values_other [of rest "unat (ua_column_id a)" "row[unat (ua_column_id b) := ua_value b]"] Cons.prems
      by (simp add: assign_values_def)
  next
    case True
    then show ?thesis using Cons.IH [of "row[unat (ua_column_id b) := ua_value b]"] Cons.prems
      by (simp add: assign_values_def)
  qed
qed simp

lemma assigned_row_valid:
  assumes "check_assignments table [] assignments = None" "validate_physical_row table row = None"
  shows "validate_physical_row table (assign_values assignments row) = None"
proof -
  have width: "length row = length (tm_columns table)" using assms(2) by (simp add: validate_physical_row_None list_all2_lengthD)
  have "value_matches_column (assign_values assignments row ! i) (tm_columns table ! i)" if "i < length row" for i
  proof (cases "\<exists>a \<in> set assignments. unat (ua_column_id a) = i")
    case True
    then obtain a where a: "a \<in> set assignments" "unat (ua_column_id a) = i" by blast
    then have "assign_values assignments row ! i = ua_value a"
      using assign_values_assigned assms(1) that by (auto simp: check_assignments_None)
    then show ?thesis using assms(1) a by (auto simp: check_assignments_None)
  next
    case False
    then show ?thesis using assign_values_other [of assignments i row] assms(2) that
      by (auto simp: validate_physical_row_None list_all2_conv_all_nth)
  qed
  then show ?thesis using width by (simp add: validate_physical_row_None list_all2_conv_all_nth)
qed

definition updated_record :: "UpdateAssignment list \<Rightarrow> Record \<Rightarrow> UpdateRow" where
  "updated_record assignments r = \<lparr>uw_rid = rec_rid r, uw_values = assign_values assignments (rec_values r)\<rparr>"

lemma handle_update:
  assumes "make_validation_slot_row table (up_input_columns plan) = Inr proto"
    and "validate_where (up_predicate plan) proto = None" "check_assignments table [] (up_assignments plan) = None"
    and "\<forall>r \<in> set records. validate_physical_row table (rec_values r) = None"
  shows "handle_all (update_handler table plan) records updates
    = Inr (updates @ map (updated_record (up_assignments plan)) (selected (up_predicate plan) (up_input_columns plan) records))"
  using assms(4)
proof (induction records arbitrary: updates)
  case (Cons r records)
  then show ?case
    using materialize_bound [OF assms(1)] matches_where_holds [OF assms(1,2)] assigned_row_valid [OF assms(3)]
    by (simp add: update_handler_def [of table plan _ r] selected_def updated_record_def Let_def)
qed (simp add: selected_def)

subsection \<open>Inserted rows\<close>

definition target_column :: "ColumnId list \<Rightarrow> nat \<Rightarrow> nat" where
  "target_column columns i = (if columns = [] then i else unat (columns ! i))"

definition columns_complete :: "nat \<Rightarrow> ColumnId list \<Rightarrow> bool" where
  "columns_complete n columns \<longleftrightarrow> columns = [] \<or> length columns = n \<and> distinct columns \<and> (\<forall>c \<in> set columns. unat c < n)"

lemma columns_permute_iff:
  "columns_permute n used columns \<longleftrightarrow>
     (\<forall>c \<in> set columns. unat c < n \<and> unat c \<notin> set used) \<and> distinct columns"
  by (induction n used columns rule: columns_permute.induct) (auto simp: word_unat_eq_iff [symmetric])

lemma place_values_length:
  "length input = (if columns = [] then n else length columns) \<Longrightarrow> length (place_values n columns input) = n"
proof -
  have "length (fold (\<lambda>(c :: u32, v :: Value) row. row[unat c := v]) pairs row) = length row" for pairs row
    by (induction pairs arbitrary: row) auto
  then show "length input = (if columns = [] then n else length columns) \<Longrightarrow> ?thesis" by (auto simp: place_values_def)
qed

lemma fold_place_other:
  "\<forall>p \<in> set pairs. unat (fst p) \<noteq> j \<Longrightarrow> fold (\<lambda>(c :: u32, v :: Value) row. row[unat c := v]) pairs row ! j = row ! j"
  by (induction pairs arbitrary: row) auto

lemma place_values_nth:
  assumes "columns_complete n columns" "length input = n" "i < n"
  shows "place_values n columns input ! target_column columns i = input ! i"
proof (cases "columns = []")
  case False
  let ?put = "\<lambda>(c :: u32, v :: Value) row. row[unat c := v]"
  have cols: "length columns = n" "distinct columns" "\<forall>c \<in> set columns. unat c < n"
    using assms(1) False by (auto simp: columns_complete_def)
  have split: "zip columns input = take i (zip columns input) @ (columns ! i, input ! i) # drop (Suc i) (zip columns input)"
    using cols(1) assms(2,3) by (intro id_take_nth_drop [of i "zip columns input", simplified]) auto
  have later: "unat (fst p) \<noteq> unat (columns ! i)" if "p \<in> set (drop (Suc i) (zip columns input))" for p
  proof -
    from that obtain k where "Suc i \<le> k" "k < n" "fst p = columns ! k"
      using cols(1) assms(2) by (auto simp: in_set_conv_nth nth_drop) (metis add_Suc le_add1 less_diff_conv add.commute add_Suc_right)
    then show ?thesis using cols(1,2) assms(3) by (auto simp: nth_eq_iff_index_eq word_unat_eq_iff [symmetric])
  qed
  have "length (fold ?put pairs row) = length row" for pairs row by (induction pairs arbitrary: row) auto
  moreover have "unat (columns ! i) < n" using cols assms(3) by auto
  ultimately show ?thesis
    using fold_place_other [of "drop (Suc i) (zip columns input)" "unat (columns ! i)"] later
    unfolding place_values_def target_column_def by (subst split) (simp add: False)
qed (simp add: place_values_def target_column_def)

lemma physical_row_Inr:
  "physical_row table columns input = Inr row \<longleftrightarrow>
     length input = (if columns = [] then length (tm_columns table) else length columns)
     \<and> row = place_values (length (tm_columns table)) columns input \<and> list_all2 value_matches_column row (tm_columns table)"
  by (auto simp: physical_row_def Let_def validate_physical_row_None [symmetric] split: option.splits if_splits)

lemma target_column_onto:
  assumes "columns_complete n columns" "j < n"
  shows "\<exists>i < n. target_column columns i = j"
proof (cases "columns = []")
  case False
  then have c: "length columns = n" "distinct columns" "unat ` set columns \<subseteq> {..<n}"
    using assms(1) by (auto simp: columns_complete_def)
  have "card (unat ` set columns) = n" using c(1,2) by (simp add: card_image inj_on_def word_unat_eq_iff distinct_card)
  then have "unat ` set columns = {..<n}" using c(3) by (intro card_subset_eq) auto
  then obtain c where "c \<in> set columns" "unat c = j" using assms(2) by (metis imageE lessThan_iff)
  then show ?thesis using c(1) False by (auto simp: in_set_conv_nth target_column_def)
qed (use assms(2) in \<open>simp add: target_column_def\<close>)

lemma row_determined:
  assumes "columns_complete n columns" "length input = n" "length row = n"
    and "\<forall>i < n. row ! target_column columns i = input ! i"
  shows "row = place_values n columns input"
proof (rule nth_equalityI)
  show "length row = length (place_values n columns input)"
    using assms place_values_length [of input columns n] by (auto simp: columns_complete_def)
  fix j assume "j < length row"
  then have j: "j < n" using assms(3) by simp
  have "\<exists>i < n. target_column columns i = j" by (rule target_column_onto [OF assms(1) j])
  then show "row ! j = place_values n columns input ! j"
    using assms place_values_nth [OF assms(1,2)] by force
qed

subsection \<open>Properties of statements\<close>



text \<open>
  C26: DELETE removes the rows it means. For a plan that passes the checks, over a table whose records match its
  schema, the executor asks storage to delete exactly the records on which the WHERE clause is true, in scan
  order (a clause that is false or NULL keeps the record), and reports the answer to that request.
\<close>

theorem delete_requests_matching:
  assumes "find_catalog_table (im_catalog (fst state)) (dp_table_id plan) = Some table"
    and "validate_table_metadata table = None"
    and "make_validation_slot_row table (dp_input_columns plan) = Inr proto"
    and "validate_where (dp_predicate plan) proto = None"
    and "scan_ok (sc_scan calls (dp_table_id plan))"
    and "\<forall>r \<in> set (delivered (ts_next (sc_scan calls (dp_table_id plan)))). validate_physical_row table (rec_values r) = None"
  shows "execute_delete calls plan state = delete_answered calls (dp_table_id plan)
    (map rec_rid (selected (dp_predicate plan) (dp_input_columns plan)
      (delivered (ts_next (sc_scan calls (dp_table_id plan)))))) state"
  using assms(1-4) by (simp add: execute_delete_def scan_table_ok [OF assms(5)] handle_delete [OF assms(3,4,6)])

definition demo_records :: "ScanNextResult Answer list" where
  "demo_records = [Returned \<lparr>sn_record = Some \<lparr>rec_rid = \<lparr>rid_value = 1\<rparr>, rec_values = [VInt 7]\<rparr>, sn_error = None\<rparr>,
     Returned \<lparr>sn_record = Some \<lparr>rec_rid = \<lparr>rid_value = 2\<rparr>, rec_values = [VNull]\<rparr>, sn_error = None\<rparr>]"

definition demo_calls :: "int StorageCalls" where
  "demo_calls = \<lparr>sc_create_table = \<lambda>_. Returned None, sc_insert = \<lambda>_. Threw UnknownException,
     sc_delete_records = \<lambda>request. Returned \<lparr>ds_deleted_count = word_of_nat (length (dr_rids request)), ds_error = None\<rparr>,
     sc_update_rows = \<lambda>request. Returned \<lparr>us_updated_count = word_of_nat (length (ur_rows request)), us_error = None\<rparr>,
     sc_scan = \<lambda>_. \<lparr>ts_open = Returned \<lparr>ot_cursor = True, ot_error = None\<rparr>, ts_next = demo_records, ts_close = Returned None\<rparr>,
     sc_close_storage = Returned None, sc_hash = demo_hash, sc_long_double = demo_ld\<rparr>"

definition demo_session :: DbState where
  "demo_session = (\<lparr>im_catalog = [demo_schema], im_next_table_id = 2, im_open = True,
     im_forced_close_pending = False, im_cleanup_retry_needed = False\<rparr>, True)"

definition demo_where :: Expr where
  "demo_where = Binary (Cmp kEq) (Some (ColumnRef 0)) (Some (Literal (VInt 7)))"

definition demo_delete_plan :: DeletePlan where
  "demo_delete_plan = \<lparr>dp_table_id = 1, dp_input_columns = [\<lparr>sc_column_id = 0, sc_output_slot = 0\<rparr>], dp_predicate = Some demo_where\<rparr>"

lemma demo_table: "find_catalog_table (im_catalog (fst demo_session)) 1 = Some demo_schema"
  "validate_table_metadata demo_schema = None"
  by code_simp+

lemma demo_static_row:
  "make_validation_slot_row demo_schema [\<lparr>sc_column_id = 0, sc_output_slot = 0\<rparr>] = Inr [\<lparr>sv_slot_id = 0, sv_value = VInt 0\<rparr>]"
  "validate_where (Some demo_where) [\<lparr>sv_slot_id = 0, sv_value = VInt 0\<rparr>] = None"
  by code_simp+

lemma demo_scan_works:
  "scan_ok (sc_scan demo_calls 1)"
  "\<forall>r \<in> set (delivered (ts_next (sc_scan demo_calls 1))). validate_physical_row demo_schema (rec_values r) = None"
  by (simp_all add: scan_ok_def demo_calls_def demo_records_def validate_physical_row_def demo_schema_def value_matches_column_def)

lemma demo_selected:
  "selected (Some demo_where) [\<lparr>sc_column_id = 0, sc_output_slot = 0\<rparr>] (delivered (ts_next (sc_scan demo_calls 1)))
    = [\<lparr>rec_rid = \<lparr>rid_value = 1\<rparr>, rec_values = [VInt 7]\<rparr>]"
proof -
  have "holds demo_where [\<lparr>sv_slot_id = 0, sv_value = VInt 7\<rparr>]" "\<not> holds demo_where [\<lparr>sv_slot_id = 0, sv_value = VNull\<rparr>]"
    by code_simp+
  then show ?thesis by (simp add: selected_def demo_calls_def demo_records_def bound_row_def where_holds_def)
qed

theorem delete_requests_matching_witness:
  "execute_delete demo_calls demo_delete_plan demo_session =
     (\<lparr>pe_outcome = CommandOutcome \<lparr>co_affected_rows = 1, co_error = None\<rparr>, pe_storage_called = True\<rparr>, demo_session)"
proof -
  have "execute_delete demo_calls demo_delete_plan demo_session = delete_answered demo_calls (dp_table_id demo_delete_plan)
    (map rec_rid (selected (dp_predicate demo_delete_plan) (dp_input_columns demo_delete_plan)
      (delivered (ts_next (sc_scan demo_calls (dp_table_id demo_delete_plan)))))) demo_session"
    by (rule delete_requests_matching [where table = demo_schema and proto = "[\<lparr>sv_slot_id = 0, sv_value = VInt 0\<rparr>]"])
      (simp_all add: demo_delete_plan_def demo_table demo_static_row demo_scan_works)
  then show ?thesis
    by (simp add: demo_delete_plan_def demo_selected delete_answered_def count_answered_def respond_def)
      (simp add: demo_calls_def respond_def)
qed

text \<open>
  C27: UPDATE rewrites the rows it means. For a plan that passes the checks, over a table whose records match
  its schema, the executor asks storage to replace exactly the records on which the WHERE clause is true; in the new
  row every assigned column has the assigned value and every other column its old one, and the row matches the schema again.
\<close>

theorem update_requests_matching:
  assumes "find_catalog_table (im_catalog (fst state)) (up_table_id plan) = Some table"
    and "validate_table_metadata table = None" "up_assignments plan \<noteq> []"
    and "make_validation_slot_row table (up_input_columns plan) = Inr proto"
    and "check_assignments table [] (up_assignments plan) = None"
    and "validate_where (up_predicate plan) proto = None"
    and "scan_ok (sc_scan calls (up_table_id plan))"
    and "\<forall>r \<in> set (delivered (ts_next (sc_scan calls (up_table_id plan)))). validate_physical_row table (rec_values r) = None"
  shows "\<exists>update. execute_update calls plan state = update_answered calls (up_table_id plan)
      (map (\<lambda>r. \<lparr>uw_rid = rec_rid r, uw_values = update (rec_values r)\<rparr>) (selected (up_predicate plan) (up_input_columns plan)
        (delivered (ts_next (sc_scan calls (up_table_id plan)))))) state
    \<and> (\<forall>row. validate_physical_row table row = None \<longrightarrow>
        validate_physical_row table (update row) = None
        \<and> (\<forall>a \<in> set (up_assignments plan). update row ! unat (ua_column_id a) = ua_value a)
        \<and> (\<forall>i. (\<forall>a \<in> set (up_assignments plan). unat (ua_column_id a) \<noteq> i) \<longrightarrow> update row ! i = row ! i))"
proof (intro exI [of _ "assign_values (up_assignments plan)"] conjI allI impI)
  show "execute_update calls plan state = update_answered calls (up_table_id plan)
      (map (\<lambda>r. \<lparr>uw_rid = rec_rid r, uw_values = assign_values (up_assignments plan) (rec_values r)\<rparr>)
        (selected (up_predicate plan) (up_input_columns plan) (delivered (ts_next (sc_scan calls (up_table_id plan)))))) state"
    using assms(1-6)
    by (simp add: execute_update_def scan_table_ok [OF assms(7)] handle_update [OF assms(4,6,5,8)] updated_record_def [abs_def])
  fix row assume row: "validate_physical_row table row = None"
  show "validate_physical_row table (assign_values (up_assignments plan) row) = None"
    by (rule assigned_row_valid [OF assms(5) row])
  show "\<forall>a \<in> set (up_assignments plan). assign_values (up_assignments plan) row ! unat (ua_column_id a) = ua_value a"
    using assms(5) row assign_values_assigned by (fastforce simp: check_assignments_None validate_physical_row_None dest: list_all2_lengthD)
  show "assign_values (up_assignments plan) row ! i = row ! i"
    if "\<forall>a \<in> set (up_assignments plan). unat (ua_column_id a) \<noteq> i" for i
    by (rule assign_values_other [OF that])
qed

definition demo_update_plan :: UpdatePlan where
  "demo_update_plan = \<lparr>up_table_id = 1, up_input_columns = [\<lparr>sc_column_id = 0, sc_output_slot = 0\<rparr>],
     up_assignments = [\<lparr>ua_column_id = 0, ua_value = VNull\<rparr>], up_predicate = Some demo_where\<rparr>"

theorem update_requests_matching_witness:
  "execute_update demo_calls demo_update_plan demo_session =
     (\<lparr>pe_outcome = CommandOutcome \<lparr>co_affected_rows = 1, co_error = None\<rparr>, pe_storage_called = True\<rparr>, demo_session)"
proof -
  have "check_assignments demo_schema [] (up_assignments demo_update_plan) = None" by code_simp
  then obtain update where "execute_update demo_calls demo_update_plan demo_session =
      update_answered demo_calls (up_table_id demo_update_plan)
      (map (\<lambda>r. \<lparr>uw_rid = rec_rid r, uw_values = update (rec_values r)\<rparr>)
        (selected (up_predicate demo_update_plan) (up_input_columns demo_update_plan)
        (delivered (ts_next (sc_scan demo_calls (up_table_id demo_update_plan)))))) demo_session"
    using update_requests_matching [of demo_session demo_update_plan demo_schema "[\<lparr>sv_slot_id = 0, sv_value = VInt 0\<rparr>]" demo_calls]
      demo_table demo_static_row demo_scan_works
    unfolding demo_update_plan_def UpdatePlan.simps by blast
  then show ?thesis
    by (simp add: demo_update_plan_def demo_selected update_answered_def count_answered_def respond_def)
      (simp add: demo_calls_def respond_def)
qed

lemma abort_statement_effect:
  "abort_statement closed error state = (r, state') \<Longrightarrow>
     pe_outcome r = ErrorOutcome error \<and> pe_storage_called r \<and> state' = abort_after_storage_exception closed state"
  by (auto simp: abort_statement_def respond_def)

lemma scan_failed_effect:
  "scan_failed closed failure state = (r, state') \<Longrightarrow>
     state' = state \<or> (\<exists>error. pe_outcome r = ErrorOutcome error) \<and> pe_storage_called r
       \<and> state' = abort_after_storage_exception closed state"
  by (auto simp: scan_failed_def respond_def abort_statement_def split: if_splits)

lemma count_answered_effect:
  "count_answered closed texts requested answer state = (r, state') \<Longrightarrow>
     state' = state \<or> (\<exists>error. pe_outcome r = ErrorOutcome error) \<and> pe_storage_called r
       \<and> state' = abort_after_storage_exception closed state"
  by (auto simp: count_answered_def respond_def dest: abort_statement_effect
      split: Answer.splits prod.splits option.splits if_splits)

lemma insert_answered_effect:
  "insert_answered closed requested answer state = (r, state') \<Longrightarrow>
     state' = state \<or> (\<exists>error. pe_outcome r = ErrorOutcome error) \<and> pe_storage_called r
       \<and> state' = abort_after_storage_exception closed state"
  by (auto simp: insert_answered_def respond_def dest: abort_statement_effect
      split: Answer.splits option.splits if_splits)

lemma execute_create_table_effect:
  assumes "execute_create_table calls plan (impl, slot) = (r, state')"
  shows "state' = (impl, slot)
    \<or> (\<exists>error. pe_outcome r = ErrorOutcome error) \<and> pe_storage_called r
       \<and> state' = abort_after_storage_exception (sc_close_storage calls) (impl, slot)
    \<or> (let table = \<lparr>tm_table_id = ucast (im_next_table_id impl), tm_table_name = ct_table_name plan, tm_columns = ct_columns plan\<rparr>
       in pe_outcome r = CommandOutcome \<lparr>co_affected_rows = 0, co_error = None\<rparr> \<and> im_next_table_id impl \<le> 4294967295
         \<and> validate_table_metadata table = None \<and> \<not> has_duplicate_table (im_catalog impl) table
         \<and> state' = (impl\<lparr>im_catalog := im_catalog impl @ [table], im_next_table_id := im_next_table_id impl + 1\<rparr>, slot))"
proof (cases "4294967295 < im_next_table_id impl")
  case False
  have "ucast (ucast (im_next_table_id impl) :: u32) = im_next_table_id impl"
  proof -
    have "unat (im_next_table_id impl) < 2 ^ 32" using False by (simp add: word_less_nat_alt)
    then show ?thesis by (simp add: word_unat_eq_iff unsigned_take_bit_eq unsigned_ucast_eq take_bit_nat_eq_self)
  qed
  then show ?thesis using assms False
    by (auto simp: execute_create_table_def refuse_def respond_def Let_def dest: abort_statement_effect
        split: option.splits Answer.splits if_splits)
qed (use assms in \<open>auto simp: execute_create_table_def refuse_def\<close>)

lemma execute_plan_effect:
  assumes "execute_plan_impl calls max_query_rows plan (impl, slot) = (r, state')"
  shows "state' = (impl, slot)
    \<or> (\<exists>error. pe_outcome r = ErrorOutcome error) \<and> pe_storage_called r
       \<and> state' = abort_after_storage_exception (sc_close_storage calls) (impl, slot)
    \<or> (\<exists>p. let table = \<lparr>tm_table_id = ucast (im_next_table_id impl), tm_table_name = ct_table_name p, tm_columns = ct_columns p\<rparr>
       in plan = PlanCreateTable p
         \<and> pe_outcome r = CommandOutcome \<lparr>co_affected_rows = 0, co_error = None\<rparr> \<and> im_next_table_id impl \<le> 4294967295
         \<and> validate_table_metadata table = None \<and> \<not> has_duplicate_table (im_catalog impl) table
         \<and> state' = (impl\<lparr>im_catalog := im_catalog impl @ [table], im_next_table_id := im_next_table_id impl + 1\<rparr>, slot))"
proof (cases plan)
  case (PlanCreateTable p)
  then show ?thesis using assms execute_create_table_effect [of calls p impl slot r state']
    by (fastforce simp: execute_plan_impl_def refuse_def Let_def split: if_splits)
next
  case (PlanInsert p)
  then show ?thesis using assms
    by (auto simp: execute_plan_impl_def execute_insert_def refuse_def dest: insert_answered_effect
        split: if_splits option.splits sum.splits)
next
  case (PlanDelete p)
  then show ?thesis using assms
    by (auto simp: execute_plan_impl_def execute_delete_def delete_answered_def refuse_def
        dest: count_answered_effect scan_failed_effect split: if_splits option.splits sum.splits)
next
  case (PlanUpdate p)
  then show ?thesis using assms
    by (auto simp: execute_plan_impl_def execute_update_def update_answered_def refuse_def
        dest: count_answered_effect scan_failed_effect split: if_splits option.splits sum.splits)
next
  case (PlanQuery p)
  then show ?thesis using assms
    by (auto simp: execute_plan_impl_def run_query_def respond_def refuse_def Let_def
        dest: scan_failed_effect split: if_splits sum.splits)
qed

text \<open>
  C29: what a statement can do to the session. Executing any plan leaves the session as it was, or ends it with an
  error after storage was called, or is a successful CREATE TABLE, which adds exactly the named table under
  an unused id and name.
\<close>

theorem statement_effects:
  assumes "execute_plan_impl calls max_query_rows plan (impl, slot) = (r, state')"
  shows "state' = (impl, slot)
    \<or> (\<exists>error. pe_outcome r = ErrorOutcome error) \<and> pe_storage_called r
       \<and> state' = abort_after_storage_exception (sc_close_storage calls) (impl, slot)
    \<or> (\<exists>p. let table = \<lparr>tm_table_id = ucast (im_next_table_id impl), tm_table_name = ct_table_name p, tm_columns = ct_columns p\<rparr>
       in plan = PlanCreateTable p
         \<and> pe_outcome r = CommandOutcome \<lparr>co_affected_rows = 0, co_error = None\<rparr> \<and> im_next_table_id impl \<le> 4294967295
         \<and> validate_table_metadata table = None \<and> \<not> has_duplicate_table (im_catalog impl) table
         \<and> state' = (impl\<lparr>im_catalog := im_catalog impl @ [table], im_next_table_id := im_next_table_id impl + 1\<rparr>, slot))"
  by (rule execute_plan_effect [OF assms])

theorem statement_effects_witness:
  "let table = \<lparr>tm_table_id = 2, tm_table_name = ''u'', tm_columns = [\<lparr>cm_name = ''x'', cm_type = kInt, cm_nullable = True\<rparr>]\<rparr>;
       plan = PlanCreateTable \<lparr>ct_table_name = ''u'', ct_columns = tm_columns table\<rparr>
   in snd (execute_plan_impl demo_calls 10 plan demo_session)
     = ((fst demo_session)\<lparr>im_catalog := [demo_schema, table], im_next_table_id := 3\<rparr>, True)"
proof -
  define plan where "plan = PlanCreateTable \<lparr>ct_table_name = ''u'', ct_columns = [\<lparr>cm_name = ''x'', cm_type = kInt, cm_nullable = True\<rparr>]\<rparr>"
  obtain r st where r: "execute_plan_impl demo_calls 10 plan demo_session = (r, st)" by (cases "execute_plan_impl demo_calls 10 plan demo_session")
  have o: "pe_outcome (fst (execute_plan_impl demo_calls 10 plan demo_session)) = CommandOutcome \<lparr>co_affected_rows = 0, co_error = None\<rparr>"
    unfolding plan_def by code_simp
  have ne: "snd (execute_plan_impl demo_calls 10 plan demo_session) \<noteq> demo_session" unfolding plan_def by code_simp
  show ?thesis
    using statement_effects [of demo_calls 10 plan "fst demo_session" True r st] r o ne
    by (simp add: plan_def Let_def demo_session_def)
qed

end
