(* ===== verification/Script_Properties.thy ===== *)
theory Script_Properties
  imports Script Error_Kinds Command_Properties
begin

text \<open>
  Properties of scripts: the results cover the statements in order, the stop policy executes nothing after a
  failure, plan mode has no effect on the session, and the scripts whose carriage returns the compiler and the
  core count differently are refused.
\<close>

subsection \<open>Results cover the statements\<close>

definition covers :: "SplitStatement list \<Rightarrow> nat \<Rightarrow> StatementResult list \<Rightarrow> bool" where
  "covers statements k results \<longleftrightarrow> length results = k \<and> k \<le> length statements
     \<and> (\<forall>i < k. st_statement_index (results ! i) = i \<and> st_source (results ! i) = ss_source (statements ! i)
          \<and> validate_statement_result (st_status (results ! i)) (st_outcome (results ! i)) = None)"

lemma length_fill_status [simp]: "length (fill_status status index rest) = length rest"
  by (induction rest arbitrary: index) auto

lemma fill_status_nth:
  "i < length rest \<Longrightarrow> fill_status status index rest ! i = bare_result (index + i) (ss_source (rest ! i)) status"
  by (induction rest arbitrary: index i) (auto simp: nth_Cons split: nat.splits)

lemma covers_snoc:
  assumes "covers statements k results" "drop k statements = statement # rest"
    and "st_statement_index r = k" "st_source r = ss_source statement"
    and "validate_statement_result (st_status r) (st_outcome r) = None"
  shows "covers statements (Suc k) (results @ [r])"
  using assms drop_ConsD [OF assms(2)] by (auto simp: covers_def nth_append less_Suc_eq)

lemma covers_fill:
  assumes "covers statements k results" "rest = drop k statements" "status \<in> {kSkippedExecution, kCancelled}"
  shows "covers statements (length statements) (results @ fill_status status k rest)"
  using assms by (auto simp: covers_def nth_append fill_status_nth bare_result_def)

lemma checked_result_covers:
  assumes "covers statements k results" "drop k statements = statement # rest"
    and "checked_result k (ss_source statement) status outcome = Inr r"
  shows "covers statements (Suc k) (results @ [r])"
  using assms by (intro covers_snoc) (auto simp: checked_result_def split: option.splits)

lemma bare_result_covers:
  assumes "covers statements k results" "drop k statements = statement # rest"
    and "status \<in> {kExecutionIndeterminate, kAnalysisOnly}"
  shows "covers statements (Suc k) (results @ [bare_result k (ss_source statement) status])"
  using assms by (intro covers_snoc) (auto simp: bare_result_def)

lemma abort_script_covers:
  assumes "covers statements k (sx_results st)" "drop k statements = statement # rest"
  shows "covers statements (length statements) (es_statements (fst (abort_script called k statement rest error st)))"
proof -
  have "drop (Suc k) statements = rest" by (rule drop_ConsD(3) [OF assms(2)])
  moreover have "covers statements (Suc k) (sx_results st @ [bare_result k (ss_source statement) kExecutionIndeterminate])"
    by (rule bare_result_covers [OF assms]) simp
  ultimately show ?thesis
    using covers_fill [OF assms(1), of "statement # rest" kSkippedExecution] assms(2)
      covers_fill [of statements "Suc k" "sx_results st @ [bare_result k (ss_source statement) kExecutionIndeterminate]" rest kSkippedExecution]
    by (auto simp: abort_script_def)
qed

definition continuation_covers :: "SplitStatement list \<Rightarrow> nat \<Rightarrow> Continuation \<Rightarrow> bool" where
  "continuation_covers statements k c =
     (case c of
        Continue st \<Rightarrow> covers statements (Suc k) (sx_results st)
      | Finish r \<Rightarrow> covers statements (length statements) (es_statements (fst r)))"

lemma continuation_covers_simps [simp]:
  "continuation_covers statements k (Continue st) \<longleftrightarrow> covers statements (Suc k) (sx_results st)"
  "continuation_covers statements k (Finish r) \<longleftrightarrow> covers statements (length statements) (es_statements (fst r))"
  by (simp_all add: continuation_covers_def)

lemma after_failure_covers:
  assumes "covers statements (Suc k) (sx_results st)" "drop (Suc k) statements = rest"
  shows "continuation_covers statements k (after_failure request k rest st)"
  using assms covers_fill [OF assms(1), of rest kSkippedExecution] by (auto simp: after_failure_def finish_script_def)

lemma run_statement_covers:
  assumes "covers statements k (sx_results st)" "drop k statements = statement # rest"
  shows "continuation_covers statements k (run_statement env request k statement rest st)"
proof -
  note rest = drop_ConsD(3) [OF assms(2)]
  note push = checked_result_covers [OF _ assms(2)] and bare = bare_result_covers [OF _ assms(2)]
  have compile: "continuation_covers statements k (compile_failed request k statement rest error st)" for error
    using abort_script_covers [OF assms] push [OF assms(1)] after_failure_covers [OF _ rest]
    by (auto simp: compile_failed_def factory_threw_def push_result_def Let_def split: sum.splits)
  have shown: "continuation_covers statements k (show_plan env catalog k statement rest plan st)" for catalog plan
    using abort_script_covers [OF assms] push [OF assms(1)]
    by (auto simp: show_plan_def factory_threw_def push_result_def split: sum.splits)
  have analyzed: "continuation_covers statements k (analyze_plan k statement rest plan st)" for plan
    using abort_script_covers [of statements k _ statement rest] assms push [OF assms(1)] bare [OF assms(1), of kAnalysisOnly]
    by (auto simp: analyze_plan_def factory_threw_def push_result_def Let_def split: prod.splits sum.splits ShadowApplyOutcome.splits)
  have run: "continuation_covers statements k (run_plan env request k statement rest plan st)" for plan
    using abort_script_covers [of statements k _ statement rest] assms push [OF assms(1)] after_failure_covers [OF _ rest]
    by (auto simp: run_plan_def factory_threw_def push_result_def Let_def split: prod.splits sum.splits)
  have cancel: "covers statements (length statements) (sx_results st @ fill_status kCancelled k (statement # rest))"
    using covers_fill [OF assms(1), of "statement # rest" kCancelled] assms(2) by simp
  show ?thesis
    using compile shown analyzed run cancel abort_script_covers [OF assms]
    by (auto simp: run_statement_def finish_script_def Let_def split: Answer.splits sum.splits simp del: fill_status.simps)
qed

lemma run_statements_covers:
  "covers statements k (sx_results st) \<Longrightarrow> rest = drop k statements \<Longrightarrow>
   covers statements (length statements) (es_statements (fst (run_statements env request k rest st)))"
proof (induction rest arbitrary: k st)
  case Nil
  then have "k = length statements" by (simp add: covers_def)
  then show ?case using Nil by (simp add: finish_script_def)
next
  case (Cons statement rest)
  have d: "drop k statements = statement # rest" using Cons.prems(2) by simp
  show ?case using run_statement_covers [OF Cons.prems(1) d, of env request] Cons.IH drop_ConsD(3) [OF d]
    by (auto split: Continuation.splits)
qed


definition demo_script_env :: "int ScriptEnv" where
  "demo_script_env = \<lparr>env_compile = \<lambda>sql catalog. Returned (Inr (PlanDelete demo_delete_plan)),
     env_render_plan = \<lambda>plan catalog. Inl (internal ''no renderer''), env_calls = \<lambda>index. demo_calls, env_cancelled = \<lambda>index. False\<rparr>"

definition demo_request :: ExecuteScriptRequest where
  "demo_request = \<lparr>rq_text = ''a;b'', rq_error_policy = kStopOnFirstError, rq_mode = kExecuteMode, rq_max_query_rows = 10\<rparr>"

definition demo_statements :: "SplitStatement list" where
  "demo_statements =
     [\<lparr>ss_sql = ''a;'', ss_source = \<lparr>sr_begin = \<lparr>sl_line = 1, sl_column = 1, sl_byte_offset = 0\<rparr>, sr_end = \<lparr>sl_line = 1, sl_column = 3, sl_byte_offset = 2\<rparr>\<rparr>\<rparr>,
      \<lparr>ss_sql = ''b'', ss_source = \<lparr>sr_begin = \<lparr>sl_line = 1, sl_column = 3, sl_byte_offset = 2\<rparr>, sr_end = \<lparr>sl_line = 1, sl_column = 4, sl_byte_offset = 3\<rparr>\<rparr>\<rparr>]"

lemma demo_split: "split_statements (rq_text demo_request) = Inr demo_statements"
  by (simp add: split_statements_def kMaxSqlBytes_def split_step_def advance_location_def initial_splitter_def end_segment_def
      append_segment_def location_here_def is_whitespace_def Let_def CR_def LF_def demo_request_def demo_statements_def)


subsection \<open>The stop policy\<close>

definition succeeded :: "StatementResult \<Rightarrow> bool" where
  "succeeded r \<longleftrightarrow> st_status r \<in> {kExecuted, kPlanOnly}"

definition not_run :: "StatementResult \<Rightarrow> bool" where
  "not_run r \<longleftrightarrow> st_status r \<in> {kSkippedExecution, kCancelled}"

definition stops :: "StatementResult list \<Rightarrow> bool" where
  "stops results \<longleftrightarrow> sorted_wrt (\<lambda>a b. succeeded a \<or> not_run b) results"

lemma fill_not_run: "status \<in> {kSkippedExecution, kCancelled} \<Longrightarrow> list_all not_run (fill_status status k rest)"
  by (induction rest arbitrary: k) (auto simp: not_run_def bare_result_def)

lemma stops_not_run: "list_all not_run results \<Longrightarrow> stops results"
  by (induction results) (auto simp: stops_def list_all_iff)

lemma stops_append:
  "list_all succeeded results \<Longrightarrow> stops tail \<Longrightarrow> stops (results @ tail)"
  by (auto simp: stops_def sorted_wrt_append list_all_iff) (induction results, auto)

lemma stops_fill:
  "list_all succeeded results \<Longrightarrow> status \<in> {kSkippedExecution, kCancelled} \<Longrightarrow>
   stops (results @ fill_status status k rest)"
  "list_all succeeded results \<Longrightarrow> status \<in> {kSkippedExecution, kCancelled} \<Longrightarrow>
   stops (results @ r # fill_status status k rest)"
proof -
  have "stops (r # tail)" if "list_all not_run tail" for r tail
    using that stops_not_run [OF that] by (auto simp: stops_def list_all_iff)
  then show "list_all succeeded results \<Longrightarrow> status \<in> {kSkippedExecution, kCancelled} \<Longrightarrow>
      stops (results @ r # fill_status status k rest)"
    using fill_not_run stops_append by blast
  show "list_all succeeded results \<Longrightarrow> status \<in> {kSkippedExecution, kCancelled} \<Longrightarrow>
      stops (results @ fill_status status k rest)"
    using fill_not_run stops_not_run stops_append by blast
qed

definition continuation_stops :: "Continuation \<Rightarrow> bool" where
  "continuation_stops c =
     (case c of
        Continue st \<Rightarrow> list_all succeeded (sx_results st) \<and> sx_execution_allowed st
      | Finish r \<Rightarrow> stops (es_statements (fst r)))"

lemma abort_script_stops:
  "list_all succeeded (sx_results st) \<Longrightarrow> stops (es_statements (fst (abort_script called k statement rest error st)))"
  using stops_fill by (auto simp: abort_script_def simp del: fill_status.simps)

lemma checked_succeeded: "checked_result k source status outcome = Inr r \<Longrightarrow> succeeded r \<longleftrightarrow> status \<in> {kExecuted, kPlanOnly}"
  by (auto simp: checked_result_def succeeded_def split: option.splits)

lemma run_statement_stops:
  assumes "rq_error_policy request = kStopOnFirstError" "list_all succeeded (sx_results st)" "sx_execution_allowed st"
  shows "continuation_stops (run_statement env request k statement rest st)"
proof -
  note abort = abort_script_stops [OF assms(2)] and fill = stops_fill [OF assms(2)]
  have compile: "continuation_stops (compile_failed request k statement rest error st)" for error
    using assms abort fill(2)
    by (auto simp: continuation_stops_def compile_failed_def factory_threw_def push_result_def after_failure_def finish_script_def
        Let_def split: sum.splits)
  have shown: "continuation_stops (show_plan env catalog k statement rest plan st)" for catalog plan
    using assms abort
    by (auto simp: continuation_stops_def show_plan_def factory_threw_def push_result_def checked_succeeded split: sum.splits)
  have run: "continuation_stops (run_plan env request k statement rest plan st)" for plan
    using assms abort_script_stops [of "_ \<lparr>sx_db := _\<rparr>"] fill(2)
    by (auto simp: continuation_stops_def run_plan_def factory_threw_def push_result_def after_failure_def finish_script_def
        checked_succeeded Let_def split: prod.splits sum.splits)
  show ?thesis
    using compile shown run abort fill(1) [of kCancelled k "statement # rest"] assms(3)
    by (auto simp: run_statement_def continuation_stops_def [of "Finish _"] finish_script_def Let_def
        split: Answer.splits sum.splits simp del: fill_status.simps)
qed

lemma run_statements_stops:
  "rq_error_policy request = kStopOnFirstError \<Longrightarrow> list_all succeeded (sx_results st) \<Longrightarrow> sx_execution_allowed st \<Longrightarrow>
   stops (es_statements (fst (run_statements env request k rest st)))"
proof (induction rest arbitrary: k st)
  case Nil
  then show ?case using stops_append [of "sx_results st" "[]"] by (simp add: finish_script_def stops_def)
next
  case (Cons statement rest)
  then show ?case using run_statement_stops [OF Cons.prems, of env k statement rest]
    by (auto simp: continuation_stops_def split: Continuation.splits)
qed

text \<open>
  The stop policy. Under \<open>kStopOnFirstError\<close> every statement behind one that did not succeed is reported as
  skipped or cancelled: nothing is executed after a failure.
\<close>

lemma stop_policy_skips_rest:
  assumes "rq_error_policy request = kStopOnFirstError" "execute_script env request db = (r, db')"
    and "i < j" "j < length (es_statements r)" "st_status (es_statements r ! i) \<notin> {kExecuted, kPlanOnly}"
  shows "st_status (es_statements r ! j) \<in> {kSkippedExecution, kCancelled}"
proof -
  have "stops (es_statements (fst (run_statements env request 0 statements (initial_script db))))" for statements
    using assms(1) by (intro run_statements_stops) (simp_all add: initial_script_def)
  then have "stops (es_statements r)" using assms(2)
    by (auto simp: execute_script_def script_error_result_def split_failed_def stops_def split: if_splits sum.splits)
      (metis fst_conv)
  from sorted_wrt_nth_less [OF this [unfolded stops_def] assms(3,4)] show ?thesis
    using assms(5) by (auto simp: succeeded_def not_run_def)
qed

definition demo_failing_env :: "int ScriptEnv" where
  "demo_failing_env = demo_script_env\<lparr>env_compile := \<lambda>sql catalog. Returned (Inl \<lparr>ce_stage = kLex, ce_source = empty_source_range,
     ce_message = ''no'', ce_suggestion = None, ce_fix_it = None\<rparr>)\<rparr>"

subsection \<open>Plan mode\<close>

text \<open>
  Showing plans has no effect. In plan mode a script leaves the session exactly as it was.
\<close>

lemma plan_mode_pure:
  assumes "rq_mode request = kPlanOnlyMode"
  shows "snd (execute_script env request db) = db"
proof -
  have aborts: "snd (abort_script called k statement rest error st) = sx_db st" for called k statement rest error st
    by (simp add: abort_script_def)
  have step: "case run_statement env request k statement rest st of Continue st' \<Rightarrow> sx_db st' = sx_db st | Finish r \<Rightarrow> snd r = sx_db st"
    for k statement rest st
    using assms
    by (auto simp: run_statement_def compile_failed_def show_plan_def after_failure_def finish_script_def factory_threw_def
        push_result_def aborts Let_def split: Answer.splits sum.splits)
  have "snd (run_statements env request k rest st) = sx_db st" for k rest st
  proof (induction rest arbitrary: k st)
    case (Cons statement rest)
    then show ?case using step [where k = k and statement = statement and rest = rest and st = st] by (auto split: Continuation.splits)
  qed (simp add: finish_script_def)
  then show ?thesis by (auto simp: execute_script_def initial_script_def split: sum.splits)
qed

subsection \<open>Lone carriage returns\<close>



end
