(* ===== verification/Process.thy ===== *)
theory Process
  imports Script_Properties
begin

text \<open>
  All \<open>Database\<close> objects of a process (\<open>src/core/database.cpp\<close>) as a state machine: objects are constructed, moved and
  destroyed, sessions opened and closed, and scripts executed, in any order and with any answers of storage.
  The invariant: \<open>g_database_open\<close> is set exactly while one object owns the storage engine, and every catalog
  is well formed.
\<close>

subsection \<open>Steps of a process\<close>

text \<open>An object that was moved from has no \<open>Impl\<close>.\<close>

record Process =
  pc_slot :: bool
  pc_objects :: "nat \<Rightarrow> Impl option option"

definition initial_process :: Process where
  "initial_process = \<lparr>pc_slot = False, pc_objects = \<lambda>i. None\<rparr>"

definition put_object :: "nat \<Rightarrow> DbState \<Rightarrow> Process \<Rightarrow> Process" where
  "put_object i state p = p\<lparr>pc_slot := snd state, pc_objects := (pc_objects p)(i := Some (Some (fst state)))\<rparr>"

inductive process_step :: "'l ScriptEnv \<Rightarrow> Process \<Rightarrow> Process \<Rightarrow> bool" for env :: "'l ScriptEnv" where
  construct: "pc_objects p i = None \<Longrightarrow>
    process_step env p (p\<lparr>pc_objects := (pc_objects p)(i := Some (Some initial_impl))\<rparr>)"
| destroy: "pc_objects p i = Some obj \<Longrightarrow>
    process_step env p (p\<lparr>pc_slot := destroy_database obj (pc_slot p), pc_objects := (pc_objects p)(i := None)\<rparr>)"
| move_construct: "pc_objects p i = Some obj \<Longrightarrow> pc_objects p j = None \<Longrightarrow>
    process_step env p (p\<lparr>pc_objects := (pc_objects p)(j := Some obj, i := Some None)\<rparr>)"
| move_assignment: "pc_objects p i = Some target \<Longrightarrow> pc_objects p j = Some source \<Longrightarrow> i \<noteq> j \<Longrightarrow>
    move_assign closed target source (pc_slot p) = (target', source', slot) \<Longrightarrow>
    process_step env p (p\<lparr>pc_slot := slot, pc_objects := (pc_objects p)(i := Some target', j := Some source')\<rparr>)"
| open_session: "pc_objects p i = Some (Some impl) \<Longrightarrow> open_database answers dir (impl, pc_slot p) = (err, state) \<Longrightarrow>
    process_step env p (put_object i state p)"
| close_session: "pc_objects p i = Some (Some impl) \<Longrightarrow> close_database closed (impl, pc_slot p) = (err, state) \<Longrightarrow>
    process_step env p (put_object i state p)"
| script: "pc_objects p i = Some (Some impl) \<Longrightarrow>
    execute_script (env\<lparr>env_calls := calls, env_cancelled := cancelled\<rparr>) request (impl, pc_slot p) = (res, state) \<Longrightarrow>
    process_step env p (put_object i state p)"

subsection \<open>What a call does to an object and the flag\<close>

text \<open>
  A call keeps the object well formed, takes the flag only when it is free, and leaves it set exactly when this
  object or another one owns the engine.
\<close>

definition call_ok :: "DbState \<Rightarrow> DbState \<Rightarrow> bool" where
  "call_ok before after \<longleftrightarrow>
     (impl_ok (fst before) \<and> (owns_slot (fst before) \<longrightarrow> snd before) \<longrightarrow>
        impl_ok (fst after) \<and> (snd after \<longleftrightarrow> owns_slot (fst after) \<or> snd before \<and> \<not> owns_slot (fst before))
        \<and> (owns_slot (fst after) \<and> \<not> owns_slot (fst before) \<longrightarrow> \<not> snd before))"

lemma call_ok_refl [simp]: "call_ok state state"
  by (auto simp: call_ok_def)

lemma call_ok_trans: "call_ok a b \<Longrightarrow> call_ok b c \<Longrightarrow> call_ok a c"
  unfolding call_ok_def by auto

lemma impl_ok_cleared [simp]:
  "impl_ok (with_flags forced retry (clear impl)) \<longleftrightarrow> (retry \<longrightarrow> forced)"
  by (auto simp: impl_ok_def with_flags_def clear_def)

lemma owns_slot_cleared [simp]: "owns_slot (with_flags forced retry (clear impl)) \<longleftrightarrow> retry"
  by (simp add: owns_slot_def with_flags_def clear_def)

lemma abort_call_ok: "im_open (fst state) \<Longrightarrow> call_ok state (abort_after_storage_exception closed state)"
  by (cases state) (auto simp: call_ok_def abort_after_storage_exception_def owns_slot_def with_flags_def clear_def impl_ok_def)

lemma close_call_ok: "close_database closed state = (err, state') \<Longrightarrow> call_ok state state'"
  by (cases state)
    (auto simp: call_ok_def close_database_def owns_slot_def impl_ok_def with_flags_def clear_def split: if_splits)

lemma open_call_ok: "open_database answers dir state = (err, state') \<Longrightarrow> call_ok state state'"
proof (cases state)
  case (Pair impl slot)
  have restored: "catalog_ok restored n" if "restore_tables [] tables 0 = Inr (restored, n)" for tables restored n
    using restore_tables_ok [OF that catalog_ok_empty] by blast
  have failed: "call_ok (impl, False) st" if "abort_open closed needed error (impl, True) = (e, st)" for closed needed error e st
    using that by (auto simp: call_ok_def abort_open_def Let_def owns_slot_def impl_ok_def with_flags_def clear_def)
  have done': "call_ok (impl, False) (impl\<lparr>im_catalog := restored, im_next_table_id := n, im_open := True,
      im_forced_close_pending := False, im_cleanup_retry_needed := False\<rparr>, True)"
    if "restore_tables [] tables 0 = Inr (restored, n)" for tables restored n
    using restored [OF that] by (auto simp: call_ok_def impl_ok_def owns_slot_def)
  assume opened: "open_database answers dir state = (err, state')"
  show ?thesis
  proof (cases "im_open impl \<or> im_forced_close_pending impl \<or> dir = [] \<or> slot")
    case True
    then show ?thesis using opened Pair by (auto simp: open_database_def split: if_splits)
  next
    case False
    then have "open_storage_and_restore answers (impl, True) = (err, state')" "slot = False"
      using opened Pair by (auto simp: open_database_def)
    then show ?thesis
      unfolding Pair open_storage_and_restore_def Let_def
      by (auto dest!: failed done' split: Answer.splits option.splits sum.splits prod.splits)
  qed
qed

lemma create_table_ok:
  assumes "impl_ok impl" "im_open impl" "im_next_table_id impl \<le> 4294967295"
    and "validate_table_metadata \<lparr>tm_table_id = ucast (im_next_table_id impl), tm_table_name = name, tm_columns = columns\<rparr> = None"
    and "\<not> has_duplicate_table (im_catalog impl) \<lparr>tm_table_id = ucast (im_next_table_id impl), tm_table_name = name, tm_columns = columns\<rparr>"
  shows "impl_ok (impl\<lparr>im_catalog := im_catalog impl @ [\<lparr>tm_table_id = ucast (im_next_table_id impl), tm_table_name = name,
    tm_columns = columns\<rparr>], im_next_table_id := im_next_table_id impl + 1\<rparr>)"
proof -
  let ?n = "im_next_table_id impl"
  have n: "unat ?n \<le> 4294967295" using assms(3) by (simp add: word_le_nat_alt)
  have id: "unat (ucast ?n :: u32) = unat ?n" using n by (simp add: unsigned_ucast_eq take_bit_nat_eq_self)
  have next': "unat (?n + 1) = Suc (unat ?n)" using n by (simp add: unat_plus_simple [THEN iffD1] no_olen_add_nat)
  have "catalog_ok (im_catalog impl @ [\<lparr>tm_table_id = ucast ?n, tm_table_name = name, tm_columns = columns\<rparr>]) (?n + 1)"
    using assms(1,4,5) n id next' by (intro catalog_ok_add) (auto simp: impl_ok_def)
  then show ?thesis using assms(1,2) by (simp add: impl_ok_def)
qed

lemma plan_call_ok:
  assumes "execute_plan_impl calls limit plan state = (r, state')"
  shows "call_ok state state'"
proof (cases state)
  case (Pair impl slot)
  show ?thesis
  proof (cases "im_open impl")
    case True
    from execute_plan_effect [OF assms [unfolded Pair]] show ?thesis
    proof (elim disjE exE)
      show ?thesis if "state' = (impl, slot)" using that Pair by simp
      show ?thesis if "(\<exists>error. pe_outcome r = ErrorOutcome error) \<and> pe_storage_called r
          \<and> state' = abort_after_storage_exception (sc_close_storage calls) (impl, slot)"
        using that True Pair abort_call_ok [of state] by simp
    next
      fix p
      assume "let table = \<lparr>tm_table_id = ucast (im_next_table_id impl), tm_table_name = ct_table_name p, tm_columns = ct_columns p\<rparr>
       in plan = PlanCreateTable p
         \<and> pe_outcome r = CommandOutcome \<lparr>co_affected_rows = 0, co_error = None\<rparr> \<and> im_next_table_id impl \<le> 4294967295
         \<and> validate_table_metadata table = None \<and> \<not> has_duplicate_table (im_catalog impl) table
         \<and> state' = (impl\<lparr>im_catalog := im_catalog impl @ [table], im_next_table_id := im_next_table_id impl + 1\<rparr>, slot)"
      then show ?thesis using True create_table_ok [of impl "ct_table_name p" "ct_columns p"]
        by (auto simp: Pair call_ok_def Let_def owns_slot_def)
    qed
  next
    case False
    then show ?thesis using assms Pair by (simp add: execute_plan_impl_def refuse_def)
  qed
qed

lemma run_statement_call_ok:
  "case run_statement env request k statement rest st of
     Continue st' \<Rightarrow> call_ok (sx_db st) (sx_db st') | Finish r \<Rightarrow> call_ok (sx_db st) (snd r)"
  by (auto simp: run_statement_def compile_failed_def show_plan_def analyze_plan_def run_plan_def after_failure_def
      finish_script_def factory_threw_def push_result_def abort_script_def Let_def dest: plan_call_ok
      split: Answer.splits sum.splits prod.splits ShadowApplyOutcome.splits)

lemma run_statements_call_ok: "call_ok (sx_db st) (snd (run_statements env request k rest st))"
proof (induction rest arbitrary: k st)
  case (Cons statement rest)
  then show ?case using run_statement_call_ok [of st env request k statement rest] call_ok_trans
    by (auto split: Continuation.splits)
qed (simp add: finish_script_def)

lemma script_call_ok: "execute_script env request state = (r, state') \<Longrightarrow> call_ok state state'"
  using run_statements_call_ok [of "initial_script state" env request 0]
  by (auto simp: execute_script_def initial_script_def split: if_splits sum.splits) (metis snd_conv)

subsection \<open>The invariant\<close>

definition owner :: "Process \<Rightarrow> nat \<Rightarrow> bool" where
  "owner p i \<longleftrightarrow> (\<exists>impl. pc_objects p i = Some (Some impl) \<and> owns_slot impl)"

definition process_ok :: "Process \<Rightarrow> bool" where
  "process_ok p \<longleftrightarrow> (\<forall>i impl. pc_objects p i = Some (Some impl) \<longrightarrow> impl_ok impl)
     \<and> (\<forall>i j. owner p i \<and> owner p j \<longrightarrow> i = j) \<and> (pc_slot p \<longleftrightarrow> (\<exists>i. owner p i))"

lemma process_ok_put:
  assumes "process_ok p" "pc_objects p i = Some (Some impl)" "call_ok (impl, pc_slot p) state"
  shows "process_ok (put_object i state p)"
proof -
  have before: "impl_ok impl" "owns_slot impl \<longrightarrow> pc_slot p" using assms(1,2) by (auto simp: process_ok_def owner_def)
  then have after: "impl_ok (fst state)" "snd state \<longleftrightarrow> owns_slot (fst state) \<or> pc_slot p \<and> \<not> owns_slot impl"
    "owns_slot (fst state) \<and> \<not> owns_slot impl \<longrightarrow> \<not> pc_slot p"
    using assms(3) by (simp_all add: call_ok_def)
  have own_i: "owner p i \<longleftrightarrow> owns_slot impl" using assms(2) by (simp add: owner_def)
  have owners: "owner (put_object i state p) j \<longleftrightarrow> (if j = i then owns_slot (fst state) else owner p j)" for j
    by (simp add: owner_def put_object_def)
  have unique: "j = k" if "owner p j" "owner p k" for j k using assms(1) that by (auto simp: process_ok_def)
  have slot: "pc_slot p \<longleftrightarrow> (\<exists>j. owner p j)" using assms(1) by (simp add: process_ok_def)
  have "\<forall>j k. owner (put_object i state p) j \<and> owner (put_object i state p) k \<longrightarrow> j = k"
    unfolding owners using unique after(3) own_i slot by (metis (full_types))
  moreover have "pc_slot (put_object i state p) \<longleftrightarrow> (\<exists>j. owner (put_object i state p) j)"
    unfolding owners using after(2) own_i slot unique by (simp add: put_object_def) metis
  moreover have "\<forall>j impl'. pc_objects (put_object i state p) j = Some (Some impl') \<longrightarrow> impl_ok impl'"
    using assms(1) after(1) by (auto simp: process_ok_def put_object_def)
  ultimately show ?thesis by (simp add: process_ok_def)
qed

lemma process_ok_construct:
  assumes "process_ok p" "pc_objects p i = None"
  shows "process_ok (p\<lparr>pc_objects := (pc_objects p)(i := Some (Some initial_impl))\<rparr>)"
proof -
  have "owner (p\<lparr>pc_objects := (pc_objects p)(i := Some (Some initial_impl))\<rparr>) j \<longleftrightarrow> owner p j" for j
    using assms(2) by (auto simp: owner_def owns_slot_def initial_impl_def)
  moreover have "impl_ok initial_impl" by (simp add: impl_ok_def initial_impl_def)
  ultimately show ?thesis using assms(1) by (auto simp: process_ok_def)
qed

lemma process_ok_destroy:
  assumes "process_ok p" "pc_objects p i = Some obj"
  shows "process_ok (p\<lparr>pc_slot := destroy_database obj (pc_slot p), pc_objects := (pc_objects p)(i := None)\<rparr>)" (is "process_ok ?q")
proof -
  have owners: "owner ?q j \<longleftrightarrow> j \<noteq> i \<and> owner p j" for j by (simp add: owner_def)
  have i: "owner p i \<longleftrightarrow> (case obj of None \<Rightarrow> False | Some impl \<Rightarrow> owns_slot impl)"
    using assms(2) by (auto simp: owner_def split: option.splits)
  have "pc_slot ?q \<longleftrightarrow> pc_slot p \<and> \<not> owner p i" using i by (auto simp: destroy_database_def split: option.splits)
  then have "pc_slot ?q \<longleftrightarrow> (\<exists>j. owner ?q j)"
    using assms(1) unfolding owners process_ok_def by metis
  moreover have "\<forall>j k. owner ?q j \<and> owner ?q k \<longrightarrow> j = k" using assms(1) unfolding owners process_ok_def by blast
  ultimately show ?thesis using assms(1) unfolding process_ok_def by auto
qed

lemma process_ok_move:
  assumes "process_ok p" "pc_objects p i = Some obj" "pc_objects p j = None"
  shows "process_ok (p\<lparr>pc_objects := (pc_objects p)(j := Some obj, i := Some None)\<rparr>)" (is "process_ok ?q")
proof -
  have ij: "i \<noteq> j" using assms(2,3) by auto
  have owners: "owner ?q k \<longleftrightarrow> (if k = j then owner p i else k \<noteq> i \<and> owner p k)" for k
    using ij assms(2) by (auto simp: owner_def)
  have "\<not> owner p j" using assms(3) by (simp add: owner_def)
  then have "(\<exists>k. owner ?q k) \<longleftrightarrow> (\<exists>k. owner p k)" unfolding owners by (metis (full_types))
  moreover have "\<forall>k m. owner ?q k \<and> owner ?q m \<longrightarrow> k = m"
    using assms(1) unfolding owners process_ok_def by (metis (full_types))
  ultimately show ?thesis using assms(1,2) by (auto simp: process_ok_def)
qed

lemma process_ok_assign:
  assumes "process_ok p" "pc_objects p i = Some target" "pc_objects p j = Some source" "i \<noteq> j"
    and "move_assign closed target source (pc_slot p) = (target', source', slot)"
  shows "process_ok (p\<lparr>pc_slot := slot, pc_objects := (pc_objects p)(i := Some target', j := Some source')\<rparr>)" (is "process_ok ?q")
proof -
  define own where "own object \<longleftrightarrow> (case object of None \<Rightarrow> False | Some impl \<Rightarrow> owns_slot impl)" for object
  have own: "owner p i \<longleftrightarrow> own target" "owner p j \<longleftrightarrow> own source"
    using assms(2,3) by (auto simp: owner_def own_def split: option.splits)
  have owners: "owner ?q k \<longleftrightarrow> (if k = i then own target' else if k = j then own source' else owner p k)" for k
    using assms(4) by (auto simp: owner_def own_def split: option.splits)
  have ok: "impl_ok impl" if "pc_objects p k = Some (Some impl)" for k impl using assms(1) that by (auto simp: process_ok_def)
  have unique: "k = m" if "owner p k" "owner p m" for k m using assms(1) that by (auto simp: process_ok_def)
  have flag: "pc_slot p \<longleftrightarrow> (\<exists>k. owner p k)" using assms(1) by (simp add: process_ok_def)
  consider "\<not> own target" "target' = source" "source' = None" "slot = pc_slot p"
    | "own target" "own target'" "\<And>impl. target' = Some impl \<Longrightarrow> impl_ok impl" "source' = source" "slot = pc_slot p"
    | "own target" "target' = source" "source' = None" "slot = False"
    using assms(5) by (auto simp: move_assign_def own_def split: option.splits if_splits)
  then have "(\<forall>k m. owner ?q k \<and> owner ?q m \<longrightarrow> k = m) \<and> (slot \<longleftrightarrow> (\<exists>k. owner ?q k))
      \<and> (\<forall>impl. target' = Some impl \<longrightarrow> impl_ok impl) \<and> (\<forall>impl. source' = Some impl \<longrightarrow> impl_ok impl)"
  proof cases
    case 1
    then show ?thesis unfolding owners using own unique flag ok assms(2-4) by (auto simp: own_def) metis+
  next
    case 2
    then show ?thesis unfolding owners using own unique flag ok assms(2-4) by (auto simp: own_def)
  next
    case 3
    then show ?thesis unfolding owners using own unique flag ok assms(2-4) by (auto simp: own_def)
  qed
  then show ?thesis using ok by (auto simp: process_ok_def)
qed

lemma process_step_ok: "process_step env p q \<Longrightarrow> process_ok p \<Longrightarrow> process_ok q"
  by (induction rule: process_step.induct)
    (auto intro: process_ok_construct process_ok_destroy process_ok_move process_ok_assign process_ok_put
      dest: open_call_ok close_call_ok script_call_ok)

lemma reachable_process_ok: "(process_step env)\<^sup>*\<^sup>* initial_process p \<Longrightarrow> process_ok p"
proof (induction rule: rtranclp_induct)
  case base
  show ?case by (simp add: process_ok_def initial_process_def owner_def)
qed (rule process_step_ok)

text \<open>
  C25: one session at a time. Whatever objects a process constructs, moves, opens, closes, destroys and runs scripts on,
  in whatever order, and whatever storage answers, at most one object owns the storage engine (has an open session or
  owes a cleanup), the process-wide flag is set exactly while one does, and every catalog has valid tables with
  different ids and names below the next id.
\<close>

theorem session_ownership_invariant:
  assumes "(process_step env)\<^sup>*\<^sup>* initial_process p"
  shows "(\<forall>i j. owner p i \<and> owner p j \<longrightarrow> i = j) \<and> (pc_slot p \<longleftrightarrow> (\<exists>i. owner p i))
    \<and> (\<forall>i impl. pc_objects p i = Some (Some impl) \<longrightarrow> catalog_ok (im_catalog impl) (im_next_table_id impl)
        \<and> (im_open impl \<longrightarrow> \<not> im_forced_close_pending impl \<and> \<not> im_cleanup_retry_needed impl))"
  using reachable_process_ok [OF assms] by (auto simp: process_ok_def impl_ok_def)

definition demo_answers :: OpenAnswers where
  "demo_answers = \<lparr>oa_open_storage = Returned None, oa_list_tables = Returned \<lparr>lt_tables = [demo_schema], lt_error = None\<rparr>,
     oa_close_storage = Returned None\<rparr>"

definition demo_process :: Process where
  "demo_process = \<lparr>pc_slot = True, pc_objects = (\<lambda>i. None)(0 := Some (Some (fst demo_session)))\<rparr>"

lemma demo_opened: "open_database demo_answers ''d'' (initial_impl, False) = (None, demo_session)"
  by code_simp

theorem session_ownership_invariant_witness:
  "{i. owner demo_process i} = {0} \<and> pc_slot demo_process \<and> catalog_ok [demo_schema] 2"
proof -
  let ?p = "initial_process\<lparr>pc_objects := (pc_objects initial_process)(0 := Some (Some initial_impl))\<rparr>"
  have a: "process_step demo_script_env initial_process ?p" by (rule process_step.construct) (simp add: initial_process_def)
  have "process_step demo_script_env ?p (put_object 0 demo_session ?p)"
    by (rule process_step.open_session [where impl = initial_impl and answers = demo_answers and dir = "''d''" and err = None])
      (simp_all add: initial_process_def demo_opened)
  moreover have "put_object 0 demo_session ?p = demo_process"
    by (simp add: put_object_def demo_process_def initial_process_def demo_session_def)
  ultimately have r: "(process_step demo_script_env)\<^sup>*\<^sup>* initial_process demo_process" using a by (metis r_into_rtranclp rtranclp.rtrancl_into_rtrancl)
  have o: "owner demo_process 0" by (simp add: owner_def demo_process_def demo_session_def owns_slot_def)
  have "pc_objects demo_process 0 = Some (Some (fst demo_session))" by (simp add: demo_process_def)
  with session_ownership_invariant [OF r] have "catalog_ok (im_catalog (fst demo_session)) (im_next_table_id (fst demo_session))" by blast
  then show ?thesis using session_ownership_invariant [OF r] o by (auto simp: demo_session_def)
qed

text \<open>
  C32: a session can always be recovered. From any well-formed state in which a session is open or was ended by a storage exception,
  closing with a storage engine that closes succeeds, frees the flag if the object held it, and leaves the object
  as new, so that it can be opened again as soon as no other object owns the engine.
\<close>

theorem close_recovers:
  assumes "impl_ok impl" "im_open impl \<or> im_forced_close_pending impl"
  shows "close_database (Returned None) (impl, slot) = (None, initial_impl, slot \<and> \<not> owns_slot impl)"
  using assms by (auto simp: close_database_def retry_cleanup_def impl_ok_def owns_slot_def with_flags_def clear_def initial_impl_def)

theorem close_recovers_witness:
  "close_database (Returned None) (abort_after_storage_exception (Threw UnknownException) demo_session) = (None, initial_impl, False)"
proof -
  let ?i = "fst (abort_after_storage_exception (Threw UnknownException) demo_session)"
  have s: "abort_after_storage_exception (Threw UnknownException) demo_session = (?i, True)" by code_simp
  have "im_forced_close_pending ?i" "owns_slot ?i" by code_simp+
  moreover have "impl_ok ?i" by (simp add: abort_after_storage_exception_def demo_session_def retry_cleanup_def)
  ultimately show ?thesis using close_recovers [of ?i True] s by simp
qed

end
