(* ===== verification/Utf8.thy ===== *)
theory Utf8
  imports Common
begin

text \<open>
  The UTF-8 validator of \<open>src/storage/record_codec.cpp\<close> (\<open>is_continuation\<close>, \<open>is_valid_utf8\<close>), and
  the proof that the byte sequences it accepts are exactly the encodings of sequences of Unicode
  scalar values.
\<close>

subsection \<open>The validator\<close>

definition is_continuation :: "nat \<Rightarrow> bool" where
  "is_continuation b \<longleftrightarrow> 0x80 \<le> b \<and> b \<le> 0xBF"

text \<open>The loop over the bytes of a text; the list is what is left from \<open>index\<close> on.\<close>

fun valid_utf8_from :: "nat list \<Rightarrow> bool" where
  "valid_utf8_from [] = True"
| "valid_utf8_from (first # rest) =
     (if first \<le> 0x7F then valid_utf8_from rest
      else if 0xC2 \<le> first \<and> first \<le> 0xDF then
        (case rest of
           second # rest' \<Rightarrow> is_continuation second \<and> valid_utf8_from rest'
         | _ \<Rightarrow> False)
      else if 0xE0 \<le> first \<and> first \<le> 0xEF then
        (case rest of
           second # third # rest' \<Rightarrow>
             (if first = 0xE0 then 0xA0 \<le> second \<and> second \<le> 0xBF
              else if first = 0xED then 0x80 \<le> second \<and> second \<le> 0x9F
              else is_continuation second)
             \<and> is_continuation third \<and> valid_utf8_from rest'
         | _ \<Rightarrow> False)
      else if 0xF0 \<le> first \<and> first \<le> 0xF4 then
        (case rest of
           second # third # fourth # rest' \<Rightarrow>
             (if first = 0xF0 then 0x90 \<le> second \<and> second \<le> 0xBF
              else if first = 0xF4 then 0x80 \<le> second \<and> second \<le> 0x8F
              else is_continuation second)
             \<and> is_continuation third \<and> is_continuation fourth \<and> valid_utf8_from rest'
         | _ \<Rightarrow> False)
      else False)"

definition is_valid_utf8 :: "string \<Rightarrow> bool" where
  "is_valid_utf8 text = valid_utf8_from (map of_char text)"

subsection \<open>The standard's encoding\<close>

text \<open>Unicode scalar values and their UTF-8 encoding, as the standard defines them.\<close>

definition unicode_scalar :: "nat \<Rightarrow> bool" where
  "unicode_scalar c \<longleftrightarrow> c < 0xD800 \<or> (0xDFFF < c \<and> c \<le> 0x10FFFF)"

definition utf8_encode :: "nat \<Rightarrow> nat list" where
  "utf8_encode c =
     (if c < 0x80 then [c]
      else if c < 0x800 then [0xC0 + c div 64, 0x80 + c mod 64]
      else if c < 0x10000 then [0xE0 + c div 4096, 0x80 + c div 64 mod 64, 0x80 + c mod 64]
      else [0xF0 + c div 262144, 0x80 + c div 4096 mod 64, 0x80 + c div 64 mod 64, 0x80 + c mod 64])"

lemma radix64: "r < 64 \<Longrightarrow> (x * 64 + r) div 64 = x" "r < 64 \<Longrightarrow> (x * 64 + r) mod 64 = (r :: nat)"
  by simp_all

lemma div_radix: "c div 4096 = c div 64 div (64 :: nat)" "c div 262144 = c div 64 div 64 div (64 :: nat)"
  by (simp_all add: div_mult2_eq [symmetric])

lemma continuation_digit: "is_continuation b \<Longrightarrow> \<exists>q. b = 0x80 + q \<and> q < 64"
  by (intro exI [where x = "b - 0x80"]) (auto simp: is_continuation_def)

lemma utf8_encode_two:
  assumes "0xC2 \<le> a" "a \<le> 0xDF" "is_continuation b"
  shows "\<exists>c. unicode_scalar c \<and> utf8_encode c = [a, b]"
proof -
  obtain p where a: "a = 0xC0 + p" "2 \<le> p" "p < 32"
    using assms(1,2) by (intro that [of "a - 0xC0"]) auto
  obtain q where b: "b = 0x80 + q" "q < 64" using continuation_digit assms(3) by blast
  have "unicode_scalar (p * 64 + q)" "utf8_encode (p * 64 + q) = [a, b]"
    using a b by (auto simp: unicode_scalar_def utf8_encode_def radix64)
  then show ?thesis by blast
qed

lemma utf8_encode_three:
  assumes "0xE0 \<le> a" "a \<le> 0xEF" "is_continuation b" "is_continuation d"
    "a = 0xE0 \<Longrightarrow> 0xA0 \<le> b" "a = 0xED \<Longrightarrow> b \<le> 0x9F"
  shows "\<exists>c. unicode_scalar c \<and> utf8_encode c = [a, b, d]"
proof -
  obtain p where a: "a = 0xE0 + p" "p < 16"
    using assms(1,2) by (intro that [of "a - 0xE0"]) auto
  obtain q r where b: "b = 0x80 + q" "q < 64" and d: "d = 0x80 + r" "r < 64"
    using continuation_digit assms(3,4) by metis
  let ?c = "(p * 64 + q) * 64 + r"
  have q: "p = 0 \<Longrightarrow> 32 \<le> q" "p = 13 \<Longrightarrow> q < 32" using assms(5,6) a b by auto
  have lo: "0x800 \<le> ?c" and hi: "?c < 0x10000" using a b d q by (cases "p = 0"; auto)+
  have "unicode_scalar ?c"
    using a b d q hi by (cases "p = 13"; cases "p < 13") (auto simp: unicode_scalar_def)
  moreover have "utf8_encode ?c = [a, b, d]"
    using lo hi a b d by (simp only: utf8_encode_def div_radix radix64) simp
  ultimately show ?thesis by blast
qed

lemma utf8_encode_four:
  assumes "0xF0 \<le> a" "a \<le> 0xF4" "is_continuation b" "is_continuation d" "is_continuation e"
    "a = 0xF0 \<Longrightarrow> 0x90 \<le> b" "a = 0xF4 \<Longrightarrow> b \<le> 0x8F"
  shows "\<exists>c. unicode_scalar c \<and> utf8_encode c = [a, b, d, e]"
proof -
  obtain p where a: "a = 0xF0 + p" "p < 5"
    using assms(1,2) by (intro that [of "a - 0xF0"]) auto
  obtain q r s where b: "b = 0x80 + q" "q < 64" and d: "d = 0x80 + r" "r < 64" and e: "e = 0x80 + s" "s < 64"
    using continuation_digit assms(3-5) by metis
  let ?c = "((p * 64 + q) * 64 + r) * 64 + s"
  have q: "p = 0 \<Longrightarrow> 16 \<le> q" "p = 4 \<Longrightarrow> q < 16" using assms(6,7) a b by auto
  have lo: "0x10000 \<le> ?c" using a b d e q by (cases "p = 0") auto
  have hi: "?c \<le> 0x10FFFF" using a b d e q by (cases "p = 4") auto
  have "unicode_scalar ?c" using lo hi by (auto simp: unicode_scalar_def)
  moreover have "utf8_encode ?c = [a, b, d, e]"
    using lo a b d e by (simp only: utf8_encode_def div_radix radix64) simp
  ultimately show ?thesis by blast
qed

lemma utf8_digits:
  obtains p q r s where "c = ((p * 64 + q) * 64 + r) * 64 + (s :: nat)" "q < 64" "r < 64" "s < 64"
proof
  show "c = ((c div 262144 * 64 + c div 4096 mod 64) * 64 + c div 64 mod 64) * 64 + c mod 64"
    by (simp only: div_radix div_mult_mod_eq)
qed simp_all

lemma valid_utf8_cons:
  assumes "unicode_scalar c"
  shows "valid_utf8_from (utf8_encode c @ bs) \<longleftrightarrow> valid_utf8_from bs"
proof -
  obtain p q r s where c: "c = ((p * 64 + q) * 64 + r) * 64 + s" and d: "q < 64" "r < 64" "s < 64"
    by (rule utf8_digits)
  consider "c < 0x80" | "0x80 \<le> c" "c < 0x800" | "0x800 \<le> c" "c < 0x10000" | "0x10000 \<le> c" "c \<le> 0x10FFFF"
    using assms by (fastforce simp: unicode_scalar_def)
  then show ?thesis
  proof cases
    case 3
    then have "p = 0" using c by auto
    then have e: "utf8_encode c = [0xE0 + q, 0x80 + r, 0x80 + s]"
      using 3 c d by (simp only: utf8_encode_def div_radix radix64) (simp add: radix64)
    have "q < 16" "q = 0 \<Longrightarrow> 32 \<le> r" "q = 13 \<Longrightarrow> r < 32"
      using 3 c d \<open>p = 0\<close> assms by (auto simp: unicode_scalar_def)
    then show ?thesis using d by (auto simp: e is_continuation_def)
  next
    case 4
    then have e: "utf8_encode c = [0xF0 + p, 0x80 + q, 0x80 + r, 0x80 + s]"
      using c d by (simp only: utf8_encode_def div_radix radix64) (simp add: radix64)
    have "p < 5" "p = 0 \<Longrightarrow> 16 \<le> q" "p = 4 \<Longrightarrow> q < 16"
      using 4 c d by auto
    then show ?thesis using d by (auto simp: e is_continuation_def)
  qed (auto simp: utf8_encode_def is_continuation_def)
qed

lemma valid_utf8_cases:
  assumes valid: "valid_utf8_from (first # rest)"
  obtains (one) "first \<le> 0x7F" "valid_utf8_from rest"
  | (two) b rest' where "0xC2 \<le> first" "first \<le> 0xDF" "rest = b # rest'" "is_continuation b"
      "valid_utf8_from rest'"
  | (three) b d rest' where "0xE0 \<le> first" "first \<le> 0xEF" "rest = b # d # rest'"
      "if first = 0xE0 then 0xA0 \<le> b \<and> b \<le> 0xBF
       else if first = 0xED then 0x80 \<le> b \<and> b \<le> 0x9F else is_continuation b"
      "is_continuation d" "valid_utf8_from rest'"
  | (four) b d e rest' where "0xF0 \<le> first" "first \<le> 0xF4" "rest = b # d # e # rest'"
      "if first = 0xF0 then 0x90 \<le> b \<and> b \<le> 0xBF
       else if first = 0xF4 then 0x80 \<le> b \<and> b \<le> 0x8F else is_continuation b"
      "is_continuation d" "is_continuation e" "valid_utf8_from rest'"
proof -
  have out: False if "\<not> first \<le> 0x7F" "\<not> (0xC2 \<le> first \<and> first \<le> 0xDF)"
    "\<not> (0xE0 \<le> first \<and> first \<le> 0xEF)" "\<not> (0xF0 \<le> first \<and> first \<le> 0xF4)"
    using valid that by simp
  consider "first \<le> 0x7F" | "0xC2 \<le> first \<and> first \<le> 0xDF" | "0xE0 \<le> first \<and> first \<le> 0xEF"
    | "0xF0 \<le> first \<and> first \<le> 0xF4"
    using out by blast
  then show thesis
  proof cases
    case 1
    then show thesis using valid by (intro one) simp_all
  next
    case 2
    then obtain b rest' where "rest = b # rest'" using valid by (cases rest) auto
    then show thesis using valid 2 by (intro two) auto
  next
    case 3
    then obtain b d rest' where "rest = b # d # rest'"
      using valid by (cases rest; cases "tl rest") auto
    then show thesis using valid 3 by (intro three) (auto split: if_splits)
  next
    case 4
    then obtain b d e rest' where "rest = b # d # e # rest'"
      using valid by (cases rest; cases "tl rest"; cases "tl (tl rest)") auto
    then show thesis using valid 4 by (intro four) (auto split: if_splits)
  qed
qed

lemma valid_utf8_from_iff:
  "valid_utf8_from bs \<longleftrightarrow> (\<exists>cs. list_all unicode_scalar cs \<and> bs = concat (map utf8_encode cs))"
proof
  show "valid_utf8_from bs \<Longrightarrow> \<exists>cs. list_all unicode_scalar cs \<and> bs = concat (map utf8_encode cs)"
  proof (induction bs rule: valid_utf8_from.induct)
    case 1
    show ?case by (intro exI [where x = "[]"]) simp
  next
    case (2 first rest)
    have step: ?case if "unicode_scalar c" "utf8_encode c = ds" "first # rest = ds @ rest'"
      "\<exists>cs. list_all unicode_scalar cs \<and> rest' = concat (map utf8_encode cs)" for c ds rest'
    proof -
      from that(4) obtain cs where "list_all unicode_scalar cs" "rest' = concat (map utf8_encode cs)" by blast
      with that(1-3) show ?thesis by (intro exI [where x = "c # cs"]) simp
    qed
    show ?case
      using "2.prems"
    proof (cases rule: valid_utf8_cases)
      case one
      then have "unicode_scalar first" "utf8_encode first = [first]"
        by (simp_all add: unicode_scalar_def utf8_encode_def)
      then show ?thesis
        using "2.IH"(1) one by (intro step [of first "[first]" rest]) simp_all
    next
      case (two b rest')
      then have "\<exists>cs. list_all unicode_scalar cs \<and> rest' = concat (map utf8_encode cs)"
        using "2.IH"(2) by simp
      with utf8_encode_two [of first b] two show ?thesis using step [of _ "[first, b]" rest'] by auto
    next
      case (three b d rest')
      then have "is_continuation b" "first = 0xE0 \<Longrightarrow> 0xA0 \<le> b" "first = 0xED \<Longrightarrow> b \<le> 0x9F"
        by (auto simp: is_continuation_def split: if_splits)
      moreover have "\<exists>cs. list_all unicode_scalar cs \<and> rest' = concat (map utf8_encode cs)"
        using "2.IH"(3) three by simp
      ultimately show ?thesis
        using utf8_encode_three [of first b d] three step [of _ "[first, b, d]" rest'] by auto
    next
      case (four b d e rest')
      then have "is_continuation b" "first = 0xF0 \<Longrightarrow> 0x90 \<le> b" "first = 0xF4 \<Longrightarrow> b \<le> 0x8F"
        by (auto simp: is_continuation_def split: if_splits)
      moreover have "\<exists>cs. list_all unicode_scalar cs \<and> rest' = concat (map utf8_encode cs)"
        using "2.IH"(4) four by simp
      ultimately show ?thesis
        using utf8_encode_four [of first b d e] four step [of _ "[first, b, d, e]" rest'] by auto
    qed
  qed
next
  assume "\<exists>cs. list_all unicode_scalar cs \<and> bs = concat (map utf8_encode cs)"
  then obtain cs where "list_all unicode_scalar cs" "bs = concat (map utf8_encode cs)" by blast
  then show "valid_utf8_from bs"
    by (induction cs arbitrary: bs) (simp_all add: valid_utf8_cons)
qed
text \<open>
  C16: a text passes the VARCHAR validity check exactly when its bytes are the UTF-8 encoding of
  some sequence of Unicode scalar values; overlong forms, surrogates and values beyond
  \<open>U+10FFFF\<close> are all refused, and nothing well-formed is.
\<close>

theorem utf8_valid_iff:
  "is_valid_utf8 text \<longleftrightarrow>
     (\<exists>cs. list_all unicode_scalar cs \<and> map of_char text = concat (map utf8_encode cs))"
  by (simp add: is_valid_utf8_def valid_utf8_from_iff)

end
