(* ===== verification/Lexer.thy ===== *)
theory Lexer
  imports Source_Text Utf8 Slots
begin

text \<open>
  The lexer of \<open>src/compiler/lexer.cpp\<close>. The scanner's state is the text that is left and the location it starts
  at. \<open>std::from_chars\<close> on floating-point literals is a parameter: the double of a text of digits with one
  point, if it is in range.
\<close>

subsection \<open>Tokens and characters\<close>

datatype TokenKind =
    TkCreate | TkTable | TkInsert | TkInto | TkValues | TkSelect | TkFrom | TkJoin | TkInner | TkOn | TkWhere | TkOrder
  | TkBy | TkGroup | TkCount | TkSum | TkAvg | TkMin | TkMax | TkAsc | TkDesc | TkDelete | TkUpdate | TkSet | TkAnd | TkOr
  | TkNot | TkInt | TkBigInt | TkDouble | TkBoolean | TkVarchar | TkTrue | TkFalse | TkNull | TkIs | TkIdentifier
  | TkIntegerLiteral | TkDoubleLiteral | TkStringLiteral | TkEq | TkNe | TkLt | TkLe | TkGt | TkGe | TkLeftParen
  | TkRightParen | TkComma | TkSemicolon | TkStar | TkDot | TkEnd

record Token =
  tk_kind :: TokenKind
  tk_lexeme :: string
  tk_source :: SourceRange

definition char_between :: "nat \<Rightarrow> nat \<Rightarrow> char \<Rightarrow> bool" where
  "char_between low high value \<longleftrightarrow> low \<le> of_char value \<and> (of_char value :: nat) \<le> high"

definition is_ascii_letter :: "char \<Rightarrow> bool" where
  "is_ascii_letter value \<longleftrightarrow> char_between 65 90 value \<or> char_between 97 122 value"

definition is_ascii_digit :: "char \<Rightarrow> bool" where
  "is_ascii_digit value \<longleftrightarrow> char_between 48 57 value"

definition is_identifier_continue :: "char \<Rightarrow> bool" where
  "is_identifier_continue value \<longleftrightarrow> is_ascii_letter value \<or> is_ascii_digit value \<or> value = CHR ''_''"

definition ascii_lower :: "char \<Rightarrow> char" where
  "ascii_lower value = (if char_between 65 90 value then char_of (of_char value - 65 + 97 :: nat) else value)"

definition keyword_table :: "(string \<times> TokenKind) list" where
  "keyword_table =
     [(''create'', TkCreate), (''table'', TkTable), (''insert'', TkInsert), (''into'', TkInto), (''values'', TkValues),
      (''select'', TkSelect), (''from'', TkFrom), (''join'', TkJoin), (''inner'', TkInner), (''on'', TkOn),
      (''where'', TkWhere), (''order'', TkOrder), (''by'', TkBy), (''group'', TkGroup), (''count'', TkCount),
      (''sum'', TkSum), (''avg'', TkAvg), (''min'', TkMin), (''max'', TkMax), (''asc'', TkAsc), (''desc'', TkDesc),
      (''delete'', TkDelete), (''update'', TkUpdate), (''set'', TkSet), (''and'', TkAnd), (''or'', TkOr), (''not'', TkNot),
      (''int'', TkInt), (''bigint'', TkBigInt), (''double'', TkDouble), (''boolean'', TkBoolean), (''varchar'', TkVarchar),
      (''true'', TkTrue), (''false'', TkFalse), (''null'', TkNull), (''is'', TkIs)]"

definition keyword_kind :: "string \<Rightarrow> TokenKind option" where
  "keyword_kind value = map_of keyword_table value"

text \<open>The lexer's own UTF-8 check, written apart from the storage codec's; the two agree.\<close>

fun literal_utf8_from :: "nat list \<Rightarrow> bool" where
  "literal_utf8_from [] = True"
| "literal_utf8_from (first # rest) =
     (if first \<le> 0x7F then literal_utf8_from rest
      else if 0xC2 \<le> first \<and> first \<le> 0xDF then
        (case rest of
           second # rest' \<Rightarrow> is_continuation second \<and> literal_utf8_from rest'
         | _ \<Rightarrow> False)
      else if 0xE0 \<le> first \<and> first \<le> 0xEF then
        (case rest of
           second # third # rest' \<Rightarrow>
             (first = 0xE0 \<and> 0xA0 \<le> second \<and> second \<le> 0xBF
              \<or> first = 0xED \<and> 0x80 \<le> second \<and> second \<le> 0x9F
              \<or> (0xE1 \<le> first \<and> first \<le> 0xEC \<or> 0xEE \<le> first \<and> first \<le> 0xEF) \<and> is_continuation second)
             \<and> is_continuation third \<and> literal_utf8_from rest'
         | _ \<Rightarrow> False)
      else if 0xF0 \<le> first \<and> first \<le> 0xF4 then
        (case rest of
           second # third # fourth # rest' \<Rightarrow>
             (first = 0xF0 \<and> 0x90 \<le> second \<and> second \<le> 0xBF
              \<or> 0xF1 \<le> first \<and> first \<le> 0xF3 \<and> is_continuation second
              \<or> first = 0xF4 \<and> 0x80 \<le> second \<and> second \<le> 0x8F)
             \<and> is_continuation third \<and> is_continuation fourth \<and> literal_utf8_from rest'
         | _ \<Rightarrow> False)
      else False)"

definition literal_valid_utf8 :: "string \<Rightarrow> bool" where
  "literal_valid_utf8 value = literal_utf8_from (map of_char value)"

lemma literal_utf8_from_eq: "literal_utf8_from bytes = valid_utf8_from bytes"
proof (induction bytes rule: length_induct)
  case (1 bytes)
  show ?case
  proof (cases bytes)
    case (Cons first rest)
    have h: "literal_utf8_from r = valid_utf8_from r" if "length r \<le> length rest" for r
      using 1 that by (simp add: Cons)
    consider "first \<le> 0x7F" | "0x7F < first" "first < 0xC2" | "0xC2 \<le> first" "first \<le> 0xDF"
      | "0xE0 \<le> first" "first \<le> 0xEF" | "0xF0 \<le> first" "first \<le> 0xF4" | "0xF4 < first" by linarith
    then show ?thesis
    proof cases
      case 3
      then show ?thesis by (cases rest) (simp_all add: Cons h)
    next
      case 4
      then show ?thesis by (cases rest; cases "tl rest") ((simp_all add: Cons h)?, auto?)
    next
      case 5
      then show ?thesis by (cases rest; cases "tl rest"; cases "tl (tl rest)") ((simp_all add: Cons h)?, auto?)
    qed (simp_all add: Cons h)
  qed simp
qed

lemma literal_valid_utf8_eq [simp]: "literal_valid_utf8 value = is_valid_utf8 value"
  by (simp add: literal_valid_utf8_def is_valid_utf8_def literal_utf8_from_eq)

subsection \<open>Moving through the text\<close>

type_synonym Cursor = "string \<times> SourceLocation"

definition next_location :: "char \<Rightarrow> SourceLocation \<Rightarrow> SourceLocation" where
  "next_location value loc =
     (if value = LF then \<lparr>sl_line = sl_line loc + 1, sl_column = 1, sl_byte_offset = sl_byte_offset loc + 1\<rparr>
      else if value \<noteq> CR then loc\<lparr>sl_column := sl_column loc + 1, sl_byte_offset := sl_byte_offset loc + 1\<rparr>
      else loc\<lparr>sl_byte_offset := sl_byte_offset loc + 1\<rparr>)"

fun advance :: "Cursor \<Rightarrow> Cursor" where
  "advance ([], loc) = ([], loc)"
| "advance (c # rest, loc) = (rest, next_location c loc)"

definition peek :: "string \<Rightarrow> char" where
  "peek rest = (case rest of _ # d # _ \<Rightarrow> d | _ \<Rightarrow> CHR 0x00)"

text \<open>\<open>while (!at_end() && P(current())) advance();\<close>\<close>

fun skip_while :: "(char \<Rightarrow> bool) \<Rightarrow> string \<Rightarrow> SourceLocation \<Rightarrow> Cursor" where
  "skip_while P [] loc = ([], loc)"
| "skip_while P (c # rest) loc = (if P c then skip_while P rest (next_location c loc) else (c # rest, loc))"

definition skip_line_comment :: "Cursor \<Rightarrow> Cursor" where
  "skip_line_comment cursor = (case advance (advance cursor) of (rest, loc) \<Rightarrow> skip_while (\<lambda>c. c \<noteq> LF) rest loc)"

fun skip_block_body :: "string \<Rightarrow> SourceLocation \<Rightarrow> bool \<times> Cursor" where
  "skip_block_body [] loc = (False, [], loc)"
| "skip_block_body (c # rest) loc =
     (if c = CHR ''*'' \<and> peek (c # rest) = CHR ''/'' then (True, advance (rest, next_location c loc))
      else skip_block_body rest (next_location c loc))"

definition skip_block_comment :: "Cursor \<Rightarrow> bool \<times> Cursor" where
  "skip_block_comment cursor = (case advance (advance cursor) of (rest, loc) \<Rightarrow> skip_block_body rest loc)"

subsection \<open>Words, numbers and strings\<close>

definition lex_error :: "SourceLocation \<Rightarrow> SourceLocation \<Rightarrow> string \<Rightarrow> CompileError" where
  "lex_error start stop message =
     \<lparr>ce_stage = kLex, ce_source = \<lparr>sr_begin = start, sr_end = stop\<rparr>, ce_message = message,
      ce_suggestion = None, ce_fix_it = None\<rparr>"

definition make_token :: "TokenKind \<Rightarrow> string \<Rightarrow> SourceLocation \<Rightarrow> SourceLocation \<Rightarrow> Token" where
  "make_token kind lexeme start stop = \<lparr>tk_kind = kind, tk_lexeme = lexeme, tk_source = \<lparr>sr_begin = start, sr_end = stop\<rparr>\<rparr>"

text \<open>The result of a scan: its value and where it stops, or the location and message of an error.\<close>

fun scan_word_loop :: "string \<Rightarrow> SourceLocation \<Rightarrow> string \<Rightarrow> (SourceLocation \<times> string, string \<times> Cursor) result" where
  "scan_word_loop [] loc value = Inr (value, [], loc)"
| "scan_word_loop (c # rest) loc value =
     (if \<not> is_identifier_continue c then Inr (value, c # rest, loc)
      else if 64 \<le> length value then Inl (loc, ''identifier exceeds 64 bytes'')
      else scan_word_loop rest (next_location c loc) (value @ [ascii_lower c]))"

definition scan_word :: "Cursor \<Rightarrow> (CompileError, Token \<times> Cursor) result" where
  "scan_word cursor =
     (case cursor of (text, start) \<Rightarrow>
        case scan_word_loop text start [] of
          Inl (loc, message) \<Rightarrow> Inl (lex_error start loc message)
        | Inr (value, rest, loc) \<Rightarrow>
            Inr (make_token (case keyword_kind value of Some kind \<Rightarrow> kind | None \<Rightarrow> TkIdentifier) value start loc, rest, loc))"

text \<open>The value of an integer literal, or \<open>None\<close> when it exceeds the 64-bit range.\<close>

fun integer_value_loop :: "string \<Rightarrow> u64 \<Rightarrow> u64 option" where
  "integer_value_loop [] value = Some value"
| "integer_value_loop (c # rest) value =
     (let digit = word_of_nat (of_char c - 48)
      in if (0x7FFFFFFFFFFFFFFF - digit) div 10 < value then None else integer_value_loop rest (value * 10 + digit))"

text \<open>The number that a text of decimal digits denotes.\<close>

definition decimal_value :: "string \<Rightarrow> nat" where
  "decimal_value lexeme = foldl (\<lambda>value c. value * 10 + (of_char c - 48)) 0 lexeme"

definition scan_fraction :: "Cursor \<Rightarrow> bool \<times> Cursor" where
  "scan_fraction cursor =
     (case cursor of (rest, loc) \<Rightarrow>
        if rest \<noteq> [] \<and> hd rest = CHR ''.'' \<and> is_ascii_digit (peek rest)
        then (True, case advance (rest, loc) of (rest', loc') \<Rightarrow> skip_while is_ascii_digit rest' loc')
        else if rest \<noteq> [] \<and> hd rest = CHR ''.'' \<and> (peek rest = CHR ''e'' \<or> peek rest = CHR ''E'')
        then (True, advance (rest, loc))
        else (False, rest, loc))"

definition skip_exponent :: "Cursor \<Rightarrow> Cursor" where
  "skip_exponent cursor =
     (case advance cursor of (rest, loc) \<Rightarrow>
        case (if rest \<noteq> [] \<and> (hd rest = CHR ''+'' \<or> hd rest = CHR ''-'') then advance (rest, loc) else (rest, loc)) of
          (rest', loc') \<Rightarrow> skip_while is_ascii_digit rest' loc')"

definition scan_number :: "(string \<Rightarrow> u64 option) \<Rightarrow> Cursor \<Rightarrow> (CompileError, Token \<times> Cursor) result" where
  "scan_number from_chars cursor =
     (case cursor of (text, start) \<Rightarrow>
        case scan_fraction (skip_while is_ascii_digit text start) of (is_floating, rest, loc) \<Rightarrow>
          let lexeme = take (length text - length rest) text
          in if rest \<noteq> [] \<and> (hd rest = CHR ''e'' \<or> hd rest = CHR ''E'')
             then Inl (lex_error start (snd (skip_exponent (rest, loc))) ''exponent-form floating literals are not supported'')
             else if is_floating then
               (case from_chars lexeme of
                  Some value \<Rightarrow>
                    if isfinite value then Inr (make_token TkDoubleLiteral lexeme start loc, rest, loc)
                    else Inl (lex_error start loc ''floating literal out of range'')
                | None \<Rightarrow> Inl (lex_error start loc ''floating literal out of range''))
             else
               (case integer_value_loop lexeme 0 of
                  None \<Rightarrow> Inl (lex_error start loc ''integer literal out of range'')
                | Some _ \<Rightarrow> Inr (make_token TkIntegerLiteral lexeme start loc, rest, loc)))"

fun scan_string_loop :: "string \<Rightarrow> SourceLocation \<Rightarrow> string \<Rightarrow> (SourceLocation \<times> string, string \<times> Cursor) result" where
  "scan_string_loop [] loc value = Inl (loc, ''unterminated string literal'')"
| "scan_string_loop (c # rest) loc value =
     (if c \<noteq> CHR 0x27 then
        (if kMaxVarcharBytes \<le> length value then Inl (loc, ''string literal exceeds maximum VARCHAR length'')
         else scan_string_loop rest (next_location c loc) (value @ [c]))
      else case rest of
        d # rest' \<Rightarrow>
          if d = CHR 0x27 then
            (if kMaxVarcharBytes \<le> length value then Inl (loc, ''string literal exceeds maximum VARCHAR length'')
             else scan_string_loop rest' (next_location d (next_location c loc)) (value @ [CHR 0x27]))
          else Inr (value, rest, next_location c loc)
      | [] \<Rightarrow> Inr (value, rest, next_location c loc))"

definition scan_string :: "Cursor \<Rightarrow> (CompileError, Token \<times> Cursor) result" where
  "scan_string cursor =
     (case cursor of (text, start) \<Rightarrow>
        case advance cursor of (body, body_loc) \<Rightarrow>
          case scan_string_loop body body_loc [] of
            Inl (loc, message) \<Rightarrow> Inl (lex_error start loc message)
          | Inr (value, rest, loc) \<Rightarrow>
              if \<not> literal_valid_utf8 value then Inl (lex_error start loc ''string literal contains invalid UTF-8'')
              else if kMaxVarcharBytes < length value
              then Inl (lex_error start loc ''string literal exceeds maximum VARCHAR length'')
              else Inr (make_token TkStringLiteral value start loc, rest, loc))"

subsection \<open>The scanner\<close>

definition add_single :: "TokenKind \<Rightarrow> Cursor \<Rightarrow> Token option \<times> Cursor" where
  "add_single kind cursor = (Some (make_token kind (take 1 (fst cursor)) (snd cursor) (snd (advance cursor))), advance cursor)"

definition add_double :: "TokenKind \<Rightarrow> Cursor \<Rightarrow> Token option \<times> Cursor" where
  "add_double kind cursor =
     (Some (make_token kind (take 2 (fst cursor)) (snd cursor) (snd (advance (advance cursor)))), advance (advance cursor))"

definition bad_character :: "string \<Rightarrow> Cursor \<Rightarrow> (CompileError, Token option \<times> Cursor) result" where
  "bad_character message cursor = Inl (lex_error (snd cursor) (snd (advance cursor)) message)"

definition scan_symbol :: "Cursor \<Rightarrow> (CompileError, Token option \<times> Cursor) result" where
  "scan_symbol cursor =
     (let c = hd (fst cursor); d = peek (fst cursor)
      in if c = CHR ''='' then Inr (add_single TkEq cursor)
         else if c = CHR ''!'' then
           (if d \<noteq> CHR ''='' then bad_character (''invalid character '' @ [CHR 0x27, CHR 0x21, CHR 0x27]) cursor else Inr (add_double TkNe cursor))
         else if c = CHR ''<'' then Inr (if d = CHR ''='' then add_double TkLe cursor else add_single TkLt cursor)
         else if c = CHR ''>'' then Inr (if d = CHR ''='' then add_double TkGe cursor else add_single TkGt cursor)
         else if c = CHR ''('' then Inr (add_single TkLeftParen cursor)
         else if c = CHR '')'' then Inr (add_single TkRightParen cursor)
         else if c = CHR '','' then Inr (add_single TkComma cursor)
         else if c = CHR '';'' then Inr (add_single TkSemicolon cursor)
         else if c = CHR ''*'' then Inr (add_single TkStar cursor)
         else if c = CHR ''.'' then Inr (add_single TkDot cursor)
         else if c = CHR ''_'' then bad_character ''invalid identifier start'' cursor
         else bad_character ''invalid character'' cursor)"

text \<open>One pass of the main loop: at most one token.\<close>

definition some_token :: "(CompileError, Token \<times> Cursor) result \<Rightarrow> (CompileError, Token option \<times> Cursor) result" where
  "some_token r = bind_result r (\<lambda>(token, cursor). Inr (Some token, cursor))"

definition scan_step :: "(string \<Rightarrow> u64 option) \<Rightarrow> Cursor \<Rightarrow> (CompileError, Token option \<times> Cursor) result" where
  "scan_step from_chars cursor =
     (let c = hd (fst cursor); d = peek (fst cursor)
      in if is_whitespace c then Inr (None, advance cursor)
         else if c = CHR ''-'' \<and> d = CHR ''-'' then Inr (None, skip_line_comment cursor)
         else if c = CHR ''/'' \<and> d = CHR ''*'' then
           (case skip_block_comment cursor of (closed, cursor') \<Rightarrow>
              if closed then Inr (None, cursor')
              else Inl (lex_error (snd cursor) (snd cursor') ''unterminated block comment''))
         else if is_ascii_letter c then some_token (scan_word cursor)
         else if is_ascii_digit c then some_token (scan_number from_chars cursor)
         else if c = CHR 0x27 then some_token (scan_string cursor)
         else scan_symbol cursor)"

subsection \<open>Progress\<close>

lemma length_advance [simp]: "length (fst (advance cursor)) = length (fst cursor) - 1"
  by (cases cursor rule: advance.cases) simp_all

lemma skip_while_length: "length (fst (skip_while P rest loc)) \<le> length rest"
  by (induction P rest loc rule: skip_while.induct) auto

lemma skip_block_body_length: "length (fst (snd (skip_block_body rest loc))) \<le> length rest"
  by (induction rest loc rule: skip_block_body.induct) (auto intro: le_SucI)

lemma scan_word_loop_length:
  "scan_word_loop rest loc value = Inr (value', cursor) \<Longrightarrow> length (fst cursor) \<le> length rest"
  by (induction rest loc "value" rule: scan_word_loop.induct) (auto split: if_splits intro: le_SucI)

lemma scan_string_loop_length:
  "scan_string_loop rest loc value = Inr (value', cursor) \<Longrightarrow> length (fst cursor) \<le> length rest"
  by (induction rest loc "value" rule: scan_string_loop.induct) (auto split: if_splits list.splits intro: le_SucI)

lemma skip_while_cursor_length:
  "length (fst (case cursor of (rest, loc) \<Rightarrow> skip_while P rest loc)) \<le> length (fst cursor)"
  using skip_while_length by (cases cursor) simp

lemma skip_block_comment_length:
  "fst cursor \<noteq> [] \<Longrightarrow> length (fst (snd (skip_block_comment cursor))) < length (fst cursor)"
  using skip_block_body_length [of "fst (advance (advance cursor))" "snd (advance (advance cursor))"]
  by (cases cursor rule: advance.cases) (auto simp: skip_block_comment_def case_prod_beta)

lemma skip_line_comment_length: "fst cursor \<noteq> [] \<Longrightarrow> length (fst (skip_line_comment cursor)) < length (fst cursor)"
  using skip_while_cursor_length [of "\<lambda>c. c \<noteq> LF" "advance (advance cursor)"]
  by (cases cursor rule: advance.cases) (auto simp: skip_line_comment_def)

lemma scan_word_length:
  assumes "scan_word cursor = Inr (token, cursor')" "fst cursor \<noteq> []" "is_ascii_letter (hd (fst cursor))"
  shows "length (fst cursor') < length (fst cursor)"
proof (cases cursor rule: advance.cases)
  case (2 c rest loc)
  then have "\<exists>v. scan_word_loop rest (next_location c loc) [ascii_lower c] = Inr (v, cursor')"
    using assms by (auto simp: scan_word_def is_identifier_continue_def split: sum.splits)
  then show ?thesis using 2 scan_word_loop_length by fastforce
qed (use assms in simp)

lemma scan_fraction_length: "length (fst (snd (scan_fraction cursor))) \<le> length (fst cursor)"
  using skip_while_cursor_length [of is_ascii_digit "advance cursor"] by (cases cursor) (auto simp: scan_fraction_def)

lemma scan_number_cursor:
  "scan_number from_chars cursor = Inr (token, cursor') \<Longrightarrow>
     cursor' = snd (scan_fraction (skip_while is_ascii_digit (fst cursor) (snd cursor)))"
  by (auto simp: scan_number_def Let_def split: prod.splits if_splits option.splits)

lemma scan_number_length:
  assumes "scan_number from_chars cursor = Inr (token, cursor')" "fst cursor \<noteq> []" "is_ascii_digit (hd (fst cursor))"
  shows "length (fst cursor') < length (fst cursor)"
proof (cases cursor rule: advance.cases)
  case (2 c rest loc)
  then show ?thesis
    using assms scan_number_cursor [OF assms(1)] skip_while_length [of is_ascii_digit rest "next_location c loc"]
      scan_fraction_length [of "skip_while is_ascii_digit rest (next_location c loc)"] by simp
qed (use assms in simp)

lemma scan_string_length:
  assumes "scan_string cursor = Inr (token, cursor')" "fst cursor \<noteq> []"
  shows "length (fst cursor') < length (fst cursor)"
proof (cases cursor rule: advance.cases)
  case (2 c rest loc)
  then show ?thesis using assms scan_string_loop_length
    by (auto simp: scan_string_def split: sum.splits if_splits) fastforce
qed (use assms in simp)

lemma scan_symbol_length:
  "scan_symbol cursor = Inr (token, cursor') \<Longrightarrow> fst cursor \<noteq> [] \<Longrightarrow> length (fst cursor') < length (fst cursor)"
  by (auto simp: scan_symbol_def Let_def bad_character_def add_single_def add_double_def split: if_splits)

lemma scan_step_length:
  assumes "scan_step from_chars cursor = Inr (token, cursor')" "fst cursor \<noteq> []"
  shows "length (fst cursor') < length (fst cursor)"
  using assms skip_line_comment_length [OF assms(2)] skip_block_comment_length [OF assms(2)]
  by (auto simp: scan_step_def Let_def some_token_def bind_result_def
      dest!: scan_word_length scan_number_length scan_string_length scan_symbol_length
      split: if_splits prod.splits sum.splits)

subsection \<open>The main loop\<close>

function tokenize_loop :: "(string \<Rightarrow> u64 option) \<Rightarrow> Cursor \<Rightarrow> Token list \<Rightarrow> (CompileError, Token list) result" where
  "tokenize_loop from_chars cursor tokens =
     (if fst cursor = [] then Inr (tokens @ [make_token TkEnd [] (snd cursor) (snd cursor)])
      else case scan_step from_chars cursor of
        Inl e \<Rightarrow> Inl e
      | Inr (token, cursor') \<Rightarrow>
          tokenize_loop from_chars cursor' (tokens @ (case token of Some t \<Rightarrow> [t] | None \<Rightarrow> [])))"
  by pat_completeness auto
termination
  by (relation "measure (\<lambda>(_, cursor, _). length (fst cursor))") (auto dest!: scan_step_length)

definition tokenize :: "(string \<Rightarrow> u64 option) \<Rightarrow> string \<Rightarrow> (CompileError, Token list) result" where
  "tokenize from_chars sql = tokenize_loop from_chars (sql, \<lparr>sl_line = 1, sl_column = 1, sl_byte_offset = 0\<rparr>) []"

end
