(* ===== verification/Lexer_Properties.thy ===== *)
theory Lexer_Properties
  imports Lexer
begin

text \<open>
  What the parser and the core rely on in the lexer's result: the tokens' lexemes, their source ranges, and the ranges
  of its errors.
\<close>

subsection \<open>Positions\<close>

text \<open>A cursor of the scanner stands somewhere in the text, at the location of that offset.\<close>

definition at_pos :: "string \<Rightarrow> Cursor \<Rightarrow> bool" where
  "at_pos text cursor \<longleftrightarrow> length (fst cursor) \<le> length text
     \<and> fst cursor = drop (length text - length (fst cursor)) text
     \<and> snd cursor = location_of text (length text - length (fst cursor))"

lemma at_posI: "k \<le> length text \<Longrightarrow> at_pos text (drop k text, location_of text k)"
  by (simp add: at_pos_def)

lemma at_posE:
  assumes "at_pos text cursor"
  obtains k where "k \<le> length text" "cursor = (drop k text, location_of text k)"
  using assms that [of "length text - length (fst cursor)"] by (cases cursor) (simp add: at_pos_def)

lemma next_location_of:
  assumes "k < length text" "text ! k = c"
  shows "next_location c (location_of text k) = location_of text (Suc k)"
proof -
  have "take (Suc k) text = take k text @ [c]" using assms by (simp add: take_Suc_conv_app_nth)
  then show ?thesis
    by (cases "fold count_char (take k text) (1, 1)") (simp add: location_of_def next_location_def)
qed

lemma at_pos_next: "at_pos text (c # rest, loc) \<Longrightarrow> at_pos text (rest, next_location c loc)"
proof (elim at_posE)
  fix k assume k: "k \<le> length text" "(c # rest, loc) = (drop k text, location_of text k)"
  then have "drop k text = c # rest" by simp
  note d = drop_ConsD [OF this]
  show "at_pos text (rest, next_location c loc)"
    using at_posI [of "Suc k" "text"] d next_location_of [OF d(1,2)] k(2) by simp
qed

lemma at_pos_advance: "at_pos text cursor \<Longrightarrow> at_pos text (advance cursor)"
  by (cases cursor rule: advance.cases) (simp_all add: at_pos_next)

lemma skip_while_pos:
  "at_pos text (rest, loc) \<Longrightarrow> at_pos text (skip_while P rest loc)"
  by (induction P rest loc rule: skip_while.induct) (auto dest: at_pos_next)

lemma skip_while_split: "rest = takeWhile P rest @ fst (skip_while P rest loc)"
  by (induction P rest loc rule: skip_while.induct) auto

lemma skip_block_body_pos:
  "at_pos text (rest, loc) \<Longrightarrow> at_pos text (snd (skip_block_body rest loc))
     \<and> length (fst (snd (skip_block_body rest loc))) \<le> length rest"
proof (induction rest loc rule: skip_block_body.induct)
  case (2 c rest loc)
  then show ?case using at_pos_advance [OF at_pos_next [OF "2.prems"]] at_pos_next [OF "2.prems"] by auto
qed simp

lemma scan_word_loop_pos:
  "at_pos text (rest, loc) \<Longrightarrow>
   (case scan_word_loop rest loc value of
      Inl (loc', message) \<Rightarrow> \<exists>rest'. at_pos text (rest', loc') \<and> length rest' \<le> length rest
    | Inr (value', cursor) \<Rightarrow> at_pos text cursor \<and> length (fst cursor) \<le> length rest)"
proof (induction rest loc "value" rule: scan_word_loop.induct)
  case (2 c rest loc "value")
  then show ?case using at_pos_next [OF "2.prems"]
    by (cases "scan_word_loop rest (next_location c loc) (value @ [ascii_lower c])") (auto 0 3 intro: le_SucI)
qed simp

lemma scan_string_loop_pos:
  "at_pos text (rest, loc) \<Longrightarrow>
   (case scan_string_loop rest loc value of
      Inl (loc', message) \<Rightarrow> \<exists>rest'. at_pos text (rest', loc') \<and> length rest' \<le> length rest
    | Inr (value', cursor) \<Rightarrow> at_pos text cursor \<and> length (fst cursor) \<le> length rest)"
proof (induction rest loc "value" rule: scan_string_loop.induct)
  case (2 c rest loc "value")
  note n = at_pos_next [OF "2.prems"]
  show ?case
  proof (cases "c = CHR 0x27")
    case False
    then show ?thesis using "2.IH"(1) n "2.prems"
      by (cases "scan_string_loop rest (next_location c loc) (value @ [c])") (auto 0 3 intro: le_SucI)
  next
    case True
    show ?thesis
    proof (cases rest)
      case (Cons d rest')
      have "at_pos text (rest', next_location d (next_location c loc))" using at_pos_next n Cons by blast
      then show ?thesis using "2.IH"(2) True Cons n "2.prems"
        by (cases "scan_string_loop rest' (next_location d (next_location c loc)) (value @ [CHR 0x27])")
          (auto 0 3 intro: le_SucI)
    qed (use True n in simp)
  qed
qed auto

text \<open>A position where a range may begin or end: not between a carriage return and its line feed.\<close>

definition good_pos :: "string \<Rightarrow> Cursor \<Rightarrow> bool" where
  "good_pos text cursor \<longleftrightarrow> at_pos text cursor \<and> is_valid_endpoint (length text - length (fst cursor)) text"

lemma good_pos_at [simp]: "good_pos text cursor \<Longrightarrow> at_pos text cursor"
  by (simp add: good_pos_def)

lemma good_pos_end: "at_pos text ([], loc) \<Longrightarrow> good_pos text ([], loc)"
  by (simp add: good_pos_def is_valid_endpoint_def)

lemma good_pos_head: "at_pos text (c # rest, loc) \<Longrightarrow> c \<noteq> LF \<Longrightarrow> good_pos text (c # rest, loc)"
proof -
  assume a: "at_pos text (c # rest, loc)" "c \<noteq> LF"
  then have "text ! (length text - length (c # rest)) = c"
    using drop_ConsD(2) [of "length text - length (c # rest)" "text" c rest] by (simp add: at_pos_def)
  then show ?thesis using a by (auto simp: good_pos_def is_valid_endpoint_def)
qed

lemma good_pos_next: "at_pos text (c # rest, loc) \<Longrightarrow> c \<noteq> CR \<Longrightarrow> good_pos text (rest, next_location c loc)"
proof -
  assume a: "at_pos text (c # rest, loc)" "c \<noteq> CR"
  have "drop (length text - length (c # rest)) text = c # rest" "length (c # rest) \<le> length text"
    using a(1) by (simp_all add: at_pos_def)
  then have "text ! (length text - length rest - 1) = c" using drop_ConsD(2) by fastforce
  then show ?thesis using at_pos_next [OF a(1)] a(2) by (auto simp: good_pos_def is_valid_endpoint_def)
qed

lemma skip_while_good:
  "good_pos text (rest, loc) \<Longrightarrow> (\<And>c. P c \<Longrightarrow> c \<noteq> CR) \<Longrightarrow> good_pos text (skip_while P rest loc)"
proof (induction P rest loc rule: skip_while.induct)
  case (2 P c rest loc)
  then show ?case using good_pos_next [OF good_pos_at [OF "2.prems"(1)]] by auto
qed simp

lemma advance_good: "at_pos text cursor \<Longrightarrow> fst cursor \<noteq> [] \<Longrightarrow> hd (fst cursor) \<noteq> CR \<Longrightarrow> good_pos text (advance cursor)"
  by (cases cursor rule: advance.cases) (auto dest: good_pos_next)

lemma not_CR:
  "is_ascii_digit c \<Longrightarrow> c \<noteq> CR" "is_ascii_letter c \<Longrightarrow> c \<noteq> CR" "is_identifier_continue c \<Longrightarrow> c \<noteq> CR"
  by (auto simp: is_identifier_continue_def is_ascii_digit_def is_ascii_letter_def char_between_def CR_def)

lemma not_LF:
  "is_ascii_digit c \<Longrightarrow> c \<noteq> LF" "is_ascii_letter c \<Longrightarrow> c \<noteq> LF"
  by (auto simp: is_ascii_digit_def is_ascii_letter_def char_between_def LF_def)

lemma skip_block_body_good:
  "at_pos text (rest, loc) \<Longrightarrow> \<not> fst (skip_block_body rest loc) \<Longrightarrow> good_pos text (snd (skip_block_body rest loc))"
  by (induction rest loc rule: skip_block_body.induct) (auto dest: at_pos_next good_pos_end split: if_splits)

lemma scan_word_loop_good:
  "good_pos text (rest, loc) \<Longrightarrow>
   (case scan_word_loop rest loc value of
      Inl (loc', message) \<Rightarrow> \<exists>rest'. good_pos text (rest', loc') \<and> length rest' \<le> length rest
    | Inr (value', cursor) \<Rightarrow> good_pos text cursor \<and> length (fst cursor) \<le> length rest)"
proof (induction rest loc "value" rule: scan_word_loop.induct)
  case (2 c rest loc "value")
  then show ?case using good_pos_next [OF good_pos_at [OF "2.prems"]] not_CR(3)
    by (cases "scan_word_loop rest (next_location c loc) (value @ [ascii_lower c])") (auto 0 3 intro: le_SucI)
qed simp

lemma scan_string_loop_good:
  "at_pos text (rest, loc) \<Longrightarrow>
   (case scan_string_loop rest loc value of
      Inl (loc', message) \<Rightarrow> \<exists>rest'. at_pos text (rest', loc') \<and> length rest' \<le> length rest
        \<and> (message = ''unterminated string literal'' \<and> good_pos text (rest', loc')
            \<or> message = ''string literal exceeds maximum VARCHAR length'')
    | Inr (value', cursor) \<Rightarrow> good_pos text cursor \<and> length (fst cursor) \<le> length rest)"
proof (induction rest loc "value" rule: scan_string_loop.induct)
  case (1 loc "value")
  then show ?case using good_pos_end by auto
next
  case (2 c rest loc "value")
  note n = at_pos_next [OF "2.prems"]
  show ?case
  proof (cases "c = CHR 0x27")
    case False
    then show ?thesis using "2.IH"(1) n "2.prems"
      by (cases "scan_string_loop rest (next_location c loc) (value @ [c])") (auto 0 4 intro: le_SucI)
  next
    case True
    have q: "good_pos text (rest, next_location c loc)" using good_pos_next [OF "2.prems"] True by (simp add: CR_def)
    show ?thesis
    proof (cases rest)
      case (Cons d rest')
      have "at_pos text (rest', next_location d (next_location c loc))" using at_pos_next n Cons by blast
      then show ?thesis using "2.IH"(2) True Cons q "2.prems"
        by (cases "scan_string_loop rest' (next_location d (next_location c loc)) (value @ [CHR 0x27])")
          (auto 0 4 intro: le_SucI)
    qed (use True q in simp)
  qed
qed

subsection \<open>One token\<close>

text \<open>What a scan of one token from a given cursor may do: stop further on, with ranges that begin at the cursor.\<close>

definition too_long :: string where "too_long = ''string literal exceeds maximum VARCHAR length''"

definition scans :: "string \<Rightarrow> Cursor \<Rightarrow> (CompileError, Token option \<times> Cursor) result \<Rightarrow> bool" where
  "scans text cursor r \<longleftrightarrow>
     (case r of
        Inl e \<Rightarrow> ce_stage e = kLex \<and> good_pos text cursor \<and> sr_begin (ce_source e) = snd cursor
          \<and> (\<exists>rest. at_pos text (rest, sr_end (ce_source e)) \<and> length rest \<le> length (fst cursor)
              \<and> (good_pos text (rest, sr_end (ce_source e)) \<or> ce_message e = too_long))
          \<and> ce_fix_it e = None
      | Inr (token, cursor') \<Rightarrow> at_pos text cursor' \<and> length (fst cursor') < length (fst cursor)
          \<and> (\<forall>t. token = Some t \<longrightarrow> good_pos text cursor \<and> good_pos text cursor'
               \<and> tk_source t = \<lparr>sr_begin = snd cursor, sr_end = snd cursor'\<rparr>))"

lemma scans_token:
  assumes "good_pos text cursor" "good_pos text cursor'" "length (fst cursor') < length (fst cursor)"
  shows "scans text cursor (Inr (Some (make_token kind lexeme (snd cursor) (snd cursor')), cursor'))"
  using assms by (simp add: scans_def make_token_def)

lemma scans_error:
  assumes "good_pos text cursor" "good_pos text (rest, loc)" "length rest \<le> length (fst cursor)"
  shows "scans text cursor (Inl (lex_error (snd cursor) loc message))"
  using assms good_pos_at [OF assms(2)] by (auto simp: scans_def lex_error_def intro!: exI [of _ rest])

lemma scan_word_scans:
  assumes "good_pos text (c # rest, loc)" "is_ascii_letter c"
  shows "scans text (c # rest, loc) (some_token (scan_word (c # rest, loc)))"
proof -
  have n: "good_pos text (rest, next_location c loc)" using good_pos_next [OF good_pos_at [OF assms(1)]] not_CR(2) assms(2) by simp
  show ?thesis
  proof (cases "scan_word_loop rest (next_location c loc) [ascii_lower c]")
    case (Inl e)
    then show ?thesis using scan_word_loop_good [OF n, of "[ascii_lower c]"] assms scans_error [OF assms(1)]
      by (cases e) (fastforce simp: scan_word_def some_token_def bind_result_def is_identifier_continue_def intro: le_SucI)
  next
    case (Inr r)
    then show ?thesis using scan_word_loop_good [OF n, of "[ascii_lower c]"] assms scans_token [OF assms(1)]
      by (cases r) (auto simp: scan_word_def some_token_def bind_result_def is_identifier_continue_def less_Suc_eq_le)
  qed
qed

lemma skip_digits_good:
  "good_pos text cursor \<Longrightarrow> good_pos text (case cursor of (rest, loc) \<Rightarrow> skip_while is_ascii_digit rest loc)"
  using skip_while_good not_CR(1) by (cases cursor) simp

lemma symbol_not_CR [simp]:
  "CHR ''.'' \<noteq> CR" "CHR ''e'' \<noteq> CR" "CHR ''E'' \<noteq> CR" "CHR ''+'' \<noteq> CR" "CHR ''-'' \<noteq> CR" "CHR 0x27 \<noteq> CR" "CHR ''='' \<noteq> CR"
  by (simp_all add: CR_def)

lemma scan_fraction_good: "good_pos text cursor \<Longrightarrow> good_pos text (snd (scan_fraction cursor))"
  using advance_good [OF good_pos_at, of "text" cursor] skip_digits_good [of "text" "advance cursor"]
  by (cases cursor) (auto simp: scan_fraction_def)

lemma skip_exponent_good:
  assumes "good_pos text cursor" "fst cursor \<noteq> []" "hd (fst cursor) \<noteq> CR"
  shows "good_pos text (skip_exponent cursor) \<and> length (fst (skip_exponent cursor)) \<le> length (fst cursor)"
proof -
  define a where "a = advance cursor"
  define b where "b = (if fst a \<noteq> [] \<and> (hd (fst a) = CHR ''+'' \<or> hd (fst a) = CHR ''-'') then advance a else a)"
  have a: "good_pos text a" using advance_good assms good_pos_at by (simp add: a_def)
  have "good_pos text b" using a advance_good [OF good_pos_at [OF a]] by (auto simp: b_def CR_def)
  moreover have "skip_exponent cursor = skip_while is_ascii_digit (fst b) (snd b)"
    by (simp add: skip_exponent_def a_def b_def case_prod_beta)
  moreover have "length (fst b) \<le> length (fst cursor)" by (simp add: a_def b_def)
  ultimately show ?thesis
    using skip_while_good [of "text" "fst b" "snd b" is_ascii_digit] not_CR(1) skip_while_length [of is_ascii_digit "fst b" "snd b"]
    by auto
qed

lemma scan_number_scans:
  assumes "good_pos text (c # rest, loc)" "is_ascii_digit c"
  shows "scans text (c # rest, loc) (some_token (scan_number from_chars (c # rest, loc)))"
proof -
  define a where "a = skip_while is_ascii_digit rest (next_location c loc)"
  obtain fl r l where f: "scan_fraction a = (fl, r, l)" by (cases "scan_fraction a") auto
  have n: "good_pos text (rest, next_location c loc)"
    using good_pos_next [OF good_pos_at [OF assms(1)]] not_CR(1) assms(2) by simp
  have g: "good_pos text (r, l)"
    using scan_fraction_good [of "text" a] skip_digits_good [OF n] f by (simp add: a_def)
  have len: "length r \<le> length rest"
    using scan_fraction_length [of a] skip_while_length [of is_ascii_digit rest "next_location c loc"] f by (simp add: a_def)
  have e: "good_pos text (skip_exponent (r, l)) \<and> length (fst (skip_exponent (r, l))) \<le> length r"
    if "r \<noteq> []" "hd r = CHR ''e'' \<or> hd r = CHR ''E''"
    using skip_exponent_good [OF g] that by auto
  obtain er el where ex: "skip_exponent (r, l) = (er, el)" by (cases "skip_exponent (r, l)")
  have err: "scans text (c # rest, loc) (Inl (lex_error loc l m))" for m
    using scans_error [OF assms(1) g] len by simp
  have err': "scans text (c # rest, loc) (Inl (lex_error loc el m))" if "r \<noteq> []" "hd r = CHR ''e'' \<or> hd r = CHR ''E''" for m
    using scans_error [OF assms(1), of er el] len ex e [OF that] by simp
  have tok: "scans text (c # rest, loc) (Inr (Some (make_token k x loc l), r, l))" for k x
    using scans_token [OF assms(1) g] len by simp
  note f' = f [unfolded a_def]
  note defs = scan_number_def f' ex Let_def some_token_def bind_result_def
  show ?thesis
  proof (cases "r \<noteq> [] \<and> (hd r = CHR ''e'' \<or> hd r = CHR ''E'')")
    case True
    then show ?thesis using err' assms(2) by (simp add: defs del: not_Cons_self2)
  next
    case False
    then show ?thesis
      using err tok assms(2)
      by (cases fl; cases "from_chars (take (length (c # rest) - length r) (c # rest))";
          cases "integer_value_loop (take (length (c # rest) - length r) (c # rest)) 0") (auto simp: defs)
  qed
qed

lemma scan_string_scans:
  assumes "good_pos text (CHR 0x27 # rest, loc)"
  shows "scans text (CHR 0x27 # rest, loc) (some_token (scan_string (CHR 0x27 # rest, loc)))"
proof -
  let ?l = "next_location CHR 0x27 loc"
  have n: "at_pos text (rest, ?l)" using at_pos_next [OF good_pos_at [OF assms]] .
  show ?thesis
  proof (cases "scan_string_loop rest ?l []")
    case (Inl e)
    then show ?thesis using scan_string_loop_good [OF n, of "[]"] assms
      by (cases e) (auto simp: scan_string_def some_token_def bind_result_def scans_def lex_error_def too_long_def intro: le_SucI)
  next
    case (Inr r)
    then obtain v r' l where r: "scan_string_loop rest ?l [] = Inr (v, r', l)" by (cases r) auto
    have g: "good_pos text (r', l)" "length r' \<le> length rest" using scan_string_loop_good [OF n, of "[]"] r by auto
    then have "scans text (CHR 0x27 # rest, loc) (Inl (lex_error loc l m))" for m
      using scans_error [OF assms g(1)] by simp
    then show ?thesis using scans_token [OF assms g(1)] g(2)
      by (auto simp: scan_string_def r some_token_def bind_result_def)
  qed
qed

lemma add_single_scans:
  assumes "good_pos text (c # rest, loc)" "c \<noteq> CR"
  shows "scans text (c # rest, loc) (Inr (add_single kind (c # rest, loc)))"
  using scans_token [OF assms(1) advance_good [OF good_pos_at [OF assms(1)]]] assms(2) by (simp add: add_single_def)

lemma add_double_scans:
  assumes "good_pos text (c # CHR ''='' # rest, loc)" "c \<noteq> CR"
  shows "scans text (c # CHR ''='' # rest, loc) (Inr (add_double kind (c # CHR ''='' # rest, loc)))"
  using scans_token [OF assms(1) advance_good [OF at_pos_advance [OF good_pos_at [OF assms(1)]]]] assms(2)
  by (simp add: add_double_def)

lemma bad_character_scans:
  assumes "good_pos text (c # rest, loc)" "c \<noteq> CR"
  shows "scans text (c # rest, loc) (bad_character message (c # rest, loc))"
  using scans_error [OF assms(1), of rest "next_location c loc"] good_pos_next [OF good_pos_at [OF assms(1)] assms(2)]
  by (simp add: bad_character_def)

lemma peek_eq: "peek (c # rest) = CHR ''='' \<Longrightarrow> \<exists>rest'. rest = CHR ''='' # rest'"
  by (auto simp: peek_def split: list.splits)

lemma scans_if: "scans text cursor (if b then r else r') = (if b then scans text cursor r else scans text cursor r')"
  by simp

lemma scans_ifI:
  "(b \<Longrightarrow> scans text cursor r) \<Longrightarrow> (\<not> b \<Longrightarrow> scans text cursor r') \<Longrightarrow> scans text cursor (if b then r else r')"
  by simp

lemma scan_symbol_scans:
  assumes "good_pos text (c # rest, loc)" "c \<noteq> CR"
  shows "scans text (c # rest, loc) (scan_symbol (c # rest, loc))"
proof (cases "peek (c # rest) = CHR ''=''")
  case True
  then obtain rest' where r: "rest = CHR ''='' # rest'" using peek_eq by blast
  show ?thesis
    using add_double_scans [of "text" c rest' loc] add_single_scans [OF assms] bad_character_scans [OF assms] assms
    unfolding r by (simp add: scan_symbol_def Let_def scans_if peek_def split del: if_split cong del: if_weak_cong)
next
  case False
  then show ?thesis using add_single_scans [OF assms] bad_character_scans [OF assms]
    by (simp add: scan_symbol_def Let_def scans_if split del: if_split cong del: if_weak_cong)
qed

lemma skip_block_comment_pos:
  assumes "good_pos text cursor" "fst cursor \<noteq> []"
  shows "at_pos text (snd (skip_block_comment cursor))"
    "\<not> fst (skip_block_comment cursor) \<Longrightarrow> good_pos text (snd (skip_block_comment cursor))"
proof -
  obtain r l where a: "advance (advance cursor) = (r, l)" by (cases "advance (advance cursor)")
  then have "at_pos text (r, l)" using at_pos_advance [OF at_pos_advance [OF good_pos_at [OF assms(1)]]] by simp
  then show "at_pos text (snd (skip_block_comment cursor))"
    "\<not> fst (skip_block_comment cursor) \<Longrightarrow> good_pos text (snd (skip_block_comment cursor))"
    using skip_block_body_pos skip_block_body_good by (simp_all add: skip_block_comment_def a)
qed

lemma skip_line_comment_pos: "at_pos text cursor \<Longrightarrow> at_pos text (skip_line_comment cursor)"
  using skip_while_pos at_pos_advance by (simp add: skip_line_comment_def case_prod_beta)

lemma block_comment_scans:
  assumes "good_pos text (c # rest, loc)"
  shows "scans text (c # rest, loc)
    (case skip_block_comment (c # rest, loc) of (closed, cursor') \<Rightarrow>
       if closed then Inr (None, cursor') else Inl (lex_error loc (snd cursor') message))"
proof -
  obtain closed r l where k: "skip_block_comment (c # rest, loc) = (closed, r, l)"
    by (cases "skip_block_comment (c # rest, loc)") auto
  have len: "length r < length (c # rest)" using skip_block_comment_length [of "(c # rest, loc)"] k by simp
  show ?thesis
  proof (cases closed)
    case True
    then show ?thesis using skip_block_comment_pos(1) [OF assms] k len by (simp add: scans_def)
  next
    case False
    then show ?thesis using scans_error [OF assms, of r l] skip_block_comment_pos(2) [OF assms] k len by simp
  qed
qed

lemma scan_step_scans:
  assumes "at_pos text (c # rest, loc)"
  shows "scans text (c # rest, loc) (scan_step from_chars (c # rest, loc))"
proof (cases "is_whitespace c")
  case True
  then show ?thesis using at_pos_next [OF assms] by (simp add: scan_step_def scans_def)
next
  case False
  then have n: "c \<noteq> LF" "c \<noteq> CR" by (auto simp: is_whitespace_def)
  note g = good_pos_head [OF assms n(1)]
  have l: "scans text (c # rest, loc) (Inr (None, skip_line_comment (c # rest, loc)))"
    using skip_line_comment_pos [OF assms] skip_line_comment_length [of "(c # rest, loc)"] by (simp add: scans_def)
  have str: "c = CHR 0x27 \<Longrightarrow> scans text (c # rest, loc) (some_token (scan_string (c # rest, loc)))"
    using scan_string_scans [of "text" rest loc] g by simp
  show ?thesis
    unfolding scan_step_def Let_def fst_conv snd_conv list.sel
    by (intro scans_ifI, use False in blast, rule l, rule block_comment_scans [OF g], erule scan_word_scans [OF g],
        erule scan_number_scans [OF g], erule str, rule scan_symbol_scans [OF g n(2)])
qed

subsection \<open>The tokens of a text\<close>

definition good_token :: "string \<Rightarrow> Token \<Rightarrow> bool" where
  "good_token text t \<longleftrightarrow> (\<exists>a b. a \<le> b \<and> is_valid_endpoint a text \<and> is_valid_endpoint b text
     \<and> tk_source t = \<lparr>sr_begin = location_of text a, sr_end = location_of text b\<rparr>)"

definition token_begin :: "Token \<Rightarrow> nat" where
  "token_begin t = sl_byte_offset (sr_begin (tk_source t))"

definition token_end :: "Token \<Rightarrow> nat" where
  "token_end t = sl_byte_offset (sr_end (tk_source t))"

lemma good_pos_offset:
  assumes "good_pos text (rest, loc)"
  shows "loc = location_of text (length text - length rest)" "is_valid_endpoint (length text - length rest) text"
    "sl_byte_offset loc = length text - length rest" "length rest \<le> length text"
  using assms by (auto simp: good_pos_def at_pos_def)

lemma good_tokenI:
  assumes "good_pos text c" "good_pos text c'" "length (fst c') \<le> length (fst c)"
    "tk_source t = \<lparr>sr_begin = snd c, sr_end = snd c'\<rparr>"
  shows "good_token text t" "token_begin t = length text - length (fst c)" "token_end t = length text - length (fst c')"
proof -
  obtain r l r' l' where c: "c = (r, l)" "c' = (r', l')" by (cases c, cases c')
  note p = good_pos_offset [OF assms(1) [unfolded c]] good_pos_offset [OF assms(2) [unfolded c]]
  show "good_token text t" unfolding good_token_def
    by (rule exI [of _ "length text - length r"], rule exI [of _ "length text - length r'"])
      (use p assms(3,4) c in auto)
  show "token_begin t = length text - length (fst c)" "token_end t = length text - length (fst c')"
    using p assms(4) c by (simp_all add: token_begin_def token_end_def)
qed

text \<open>Tokens up to an offset: in order, without overlap.\<close>

definition tokens_to :: "string \<Rightarrow> nat \<Rightarrow> Token list \<Rightarrow> bool" where
  "tokens_to text n tokens \<longleftrightarrow> list_all (\<lambda>t. good_token text t \<and> token_begin t \<le> token_end t \<and> token_end t \<le> n) tokens
     \<and> sorted_wrt (\<lambda>a b. token_end a \<le> token_begin b) tokens"

lemma tokens_to_append:
  "tokens_to text n tokens \<Longrightarrow> n \<le> token_begin t \<Longrightarrow> good_token text t \<Longrightarrow> token_begin t \<le> token_end t
   \<Longrightarrow> token_end t \<le> m \<Longrightarrow> tokens_to text m (tokens @ [t])"
  by (fastforce simp: tokens_to_def list_all_iff sorted_wrt_append)

lemma tokens_to_mono: "tokens_to text n tokens \<Longrightarrow> n \<le> m \<Longrightarrow> tokens_to text m tokens"
  by (fastforce simp: tokens_to_def list_all_iff)

lemma tokenize_loop_good:
  "at_pos text cursor \<Longrightarrow> tokens_to text (length text - length (fst cursor)) tokens \<Longrightarrow>
   case tokenize_loop from_chars cursor tokens of
     Inl e \<Rightarrow> ce_stage e = kLex \<and> ce_fix_it e = None
       \<and> (\<exists>a b. a \<le> b \<and> b \<le> length text \<and> is_valid_endpoint a text \<and> (is_valid_endpoint b text \<or> ce_message e = too_long)
           \<and> ce_source e = \<lparr>sr_begin = location_of text a, sr_end = location_of text b\<rparr>)
   | Inr ts \<Rightarrow> tokens_to text (length text) ts \<and> (\<exists>front t. ts = front @ [t] \<and> tk_kind t = TkEnd)"
proof (induction from_chars cursor tokens rule: tokenize_loop.induct)
  case (1 from_chars cursor tokens)
  show ?case
  proof (cases cursor rule: advance.cases)
    case (1 loc)
    then have g: "good_pos text ([], loc)" using good_pos_end "1.prems" by simp
    let ?t = "make_token TkEnd [] loc loc"
    have "good_token text ?t" "token_begin ?t = length text" "token_end ?t = length text"
      using good_tokenI [OF g g, of ?t] by (simp_all add: make_token_def)
    then have "tokens_to text (length text) (tokens @ [?t])"
      using "1.prems"(2) 1 by (intro tokens_to_append) auto
    then show ?thesis using 1 by (auto simp: make_token_def)
  next
    case (2 c rest loc)
    have s: "scans text cursor (scan_step from_chars cursor)" using scan_step_scans "1.prems"(1) 2 by simp
    show ?thesis
    proof (cases "scan_step from_chars cursor")
      case (Inl e)
      obtain r where r: "good_pos text cursor" "at_pos text (r, sr_end (ce_source e))" "length r \<le> length (fst cursor)"
        "good_pos text (r, sr_end (ce_source e)) \<or> ce_message e = too_long"
        and b: "sr_begin (ce_source e) = snd cursor" "ce_stage e = kLex" "ce_fix_it e = None"
        using s Inl by (auto simp: scans_def)
      have "ce_source e = \<lparr>sr_begin = location_of text (length text - length (fst cursor)),
          sr_end = location_of text (length text - length r)\<rparr>"
        using good_pos_offset [of "text" "fst cursor" "snd cursor"] r(1,2) b(1) by (simp add: at_pos_def)
      moreover have "is_valid_endpoint (length text - length r) text \<or> ce_message e = too_long"
        using r(4) good_pos_offset(2) by blast
      moreover have "is_valid_endpoint (length text - length (fst cursor)) text"
        using good_pos_offset(2) [of "text" "fst cursor" "snd cursor"] r(1) by simp
      ultimately have "\<exists>a b. a \<le> b \<and> b \<le> length text \<and> is_valid_endpoint a text
          \<and> (is_valid_endpoint b text \<or> ce_message e = too_long)
          \<and> ce_source e = \<lparr>sr_begin = location_of text a, sr_end = location_of text b\<rparr>"
        using r(3) by (meson diff_le_mono2 diff_le_self)
      then show ?thesis using Inl 2 b(2,3) by simp
    next
      case (Inr p)
      obtain tok cursor' where p: "p = (tok, cursor')" by (cases p)
      let ?ts = "tokens @ (case tok of Some t \<Rightarrow> [t] | None \<Rightarrow> [])"
      have c': "at_pos text cursor'" "length (fst cursor') < length (fst cursor)" using s Inr p by (simp_all add: scans_def)
      have le: "length text - length (fst cursor) \<le> length text - length (fst cursor')" using c'(2) by simp
      have "tokens_to text (length text - length (fst cursor')) ?ts"
      proof (cases tok)
        case None
        then show ?thesis using tokens_to_mono [OF "1.prems"(2) le] by simp
      next
        case (Some t)
        then have t: "good_pos text cursor" "good_pos text cursor'" "tk_source t = \<lparr>sr_begin = snd cursor, sr_end = snd cursor'\<rparr>"
          using s Inr p by (simp_all add: scans_def)
        note g = good_tokenI [OF t(1,2) less_imp_le [OF c'(2)] t(3)]
        show ?thesis using tokens_to_append [OF "1.prems"(2), of t] g le Some by simp
      qed
      then show ?thesis using "1.IH" [OF _ Inr p [symmetric]] c'(1) 2 Inr p by simp
    qed
  qed
qed

lemma at_pos_start: "at_pos text (text, \<lparr>sl_line = 1, sl_column = 1, sl_byte_offset = 0\<rparr>)"
  using at_posI [of 0 "text"] by (simp add: location_of_def)

lemma tokenize_good:
  "case tokenize from_chars text of
     Inl e \<Rightarrow> ce_stage e = kLex \<and> ce_fix_it e = None
       \<and> (\<exists>a b. a \<le> b \<and> b \<le> length text \<and> is_valid_endpoint a text \<and> (is_valid_endpoint b text \<or> ce_message e = too_long)
           \<and> ce_source e = \<lparr>sr_begin = location_of text a, sr_end = location_of text b\<rparr>)
   | Inr ts \<Rightarrow> tokens_to text (length text) ts \<and> (\<exists>front t. ts = front @ [t] \<and> tk_kind t = TkEnd)"
  unfolding tokenize_def by (rule tokenize_loop_good [OF at_pos_start]) (simp add: tokens_to_def)

lemmas lex_defs = scan_step_def scan_symbol_def scan_word_def scan_number_def scan_fraction_def scan_string_def add_single_def
  add_double_def skip_line_comment_def some_token_def bind_result_def peek_def make_token_def next_location_def is_whitespace_def is_ascii_letter_def
  is_ascii_digit_def is_identifier_continue_def char_between_def ascii_lower_def keyword_kind_def keyword_table_def CR_def LF_def Let_def



subsection \<open>The tokens' lexemes\<close>

definition lexeme_ok :: "(string \<Rightarrow> u64 option) \<Rightarrow> Token \<Rightarrow> bool" where
  "lexeme_ok from_chars t \<longleftrightarrow>
     (case tk_kind t of
        TkIdentifier \<Rightarrow> is_valid_identifier (tk_lexeme t) \<and> keyword_kind (tk_lexeme t) = None
      | TkIntegerLiteral \<Rightarrow> tk_lexeme t \<noteq> [] \<and> list_all is_ascii_digit (tk_lexeme t) \<and> decimal_value (tk_lexeme t) < 2 ^ 63
      | TkDoubleLiteral \<Rightarrow> (\<exists>value. from_chars (tk_lexeme t) = Some value \<and> isfinite value)
      | TkStringLiteral \<Rightarrow> is_valid_utf8 (tk_lexeme t) \<and> length (tk_lexeme t) \<le> kMaxVarcharBytes
      | _ \<Rightarrow> True)"

lemma ascii_lower_identifier: "is_identifier_continue c \<Longrightarrow> identifier_char (ascii_lower c)"
  by (auto simp: is_identifier_continue_def is_ascii_letter_def is_ascii_digit_def char_between_def ascii_lower_def
      identifier_char_def lower_letter_def of_char_of)

lemma ascii_lower_letter: "is_ascii_letter c \<Longrightarrow> lower_letter (ascii_lower c)"
  by (auto simp: is_ascii_letter_def char_between_def ascii_lower_def lower_letter_def of_char_of)

lemma scan_word_loop_lexeme:
  "scan_word_loop rest loc value = Inr (value', cursor) \<Longrightarrow> list_all identifier_char value \<Longrightarrow> length value \<le> 64 \<Longrightarrow>
   \<exists>more. value' = value @ more \<and> list_all identifier_char value' \<and> length value' \<le> 64"
  by (induction rest loc "value" rule: scan_word_loop.induct)
    (fastforce split: if_splits simp: ascii_lower_identifier)+

lemma keyword_kinds:
  "keyword_kind word = Some kind \<Longrightarrow>
     kind \<noteq> TkIdentifier \<and> kind \<noteq> TkIntegerLiteral \<and> kind \<noteq> TkDoubleLiteral \<and> kind \<noteq> TkStringLiteral"
  by (drule map_of_SomeD [of keyword_table, folded keyword_kind_def]) (auto simp: keyword_table_def)

lemma scan_word_lexeme:
  assumes "scan_word (c # rest, loc) = Inr (t, cursor)" "is_ascii_letter c"
  shows "lexeme_ok from_chars t"
proof -
  have id: "is_identifier_continue c" using assms(2) by (simp add: is_identifier_continue_def)
  obtain v where v: "scan_word_loop rest (next_location c loc) [ascii_lower c] = Inr (v, cursor)"
    and t: "t = make_token (case keyword_kind v of Some kind \<Rightarrow> kind | None \<Rightarrow> TkIdentifier) v loc (snd cursor)"
    using assms id by (auto simp: scan_word_def split: sum.splits)
  obtain more where "v = ascii_lower c # more" "list_all identifier_char v" "length v \<le> 64"
    using scan_word_loop_lexeme [OF v] ascii_lower_identifier [OF id] by auto
  then have "is_valid_identifier v" using ascii_lower_letter [OF assms(2)] by (simp add: is_valid_identifier_def)
  then show ?thesis using keyword_kinds [of v]
    by (cases "keyword_kind v") (auto simp: t lexeme_ok_def make_token_def split: TokenKind.split)
qed

lemma div_bound: "x \<le> (m - d) div 10 \<Longrightarrow> d \<le> m \<Longrightarrow> x * 10 + d \<le> m" for x m d :: nat
  by linarith

lemma integer_value_loop_bound:
  "integer_value_loop cs value = Some w \<Longrightarrow> list_all is_ascii_digit cs \<Longrightarrow> unat value < 2 ^ 63 \<Longrightarrow>
   foldl (\<lambda>value c. value * 10 + (of_char c - 48)) (unat value) cs < 2 ^ 63"
proof (induction cs "value" rule: integer_value_loop.induct)
  case (2 c rest "value")
  define digit :: u64 where "digit = word_of_nat (of_char c - 48)"
  have d: "(of_char c :: nat) - 48 \<le> 9" using "2.prems"(2) by (auto simp: is_ascii_digit_def char_between_def)
  have "(of_char c :: nat) - 48 < 2 ^ 64" using d by (rule order_le_less_trans) simp
  then have digit: "unat digit = of_char c - 48" by (simp add: digit_def unat_of_nat)
  have max: "unat (0x7FFFFFFFFFFFFFFF :: u64) = 2 ^ 63 - 1" by simp
  have "digit \<le> 0x7FFFFFFFFFFFFFFF" using digit d by (simp add: word_le_nat_alt)
  then have sub: "unat (0x7FFFFFFFFFFFFFFF - digit) = 2 ^ 63 - 1 - unat digit"
    using max by (simp add: unat_sub)
  have ok: "\<not> (0x7FFFFFFFFFFFFFFF - digit) div 10 < value" "integer_value_loop rest (value * 10 + digit) = Some w"
    using "2.prems"(1) by (auto simp: Let_def digit_def split: if_splits)
  have q: "unat value \<le> (2 ^ 63 - 1 - unat digit) div 10"
    using ok(1) sub by (simp add: word_less_nat_alt unat_div_distrib not_less)
  have le: "unat value * 10 + unat digit \<le> 2 ^ 63 - 1"
    by (rule div_bound [OF q]) (use digit d in simp)
  have "unat (value * 10 + digit) = unat value * 10 + unat digit"
    using le by (simp add: unat_word_ariths)
  then show ?case using "2.IH" [OF digit_def _ ] ok "2.prems"(2) le digit
    by (simp add: digit_def [symmetric])
qed simp

lemma skip_while_taken: "takeWhile P rest = take (length rest - length (fst (skip_while P rest loc))) rest"
  by (metis append_eq_conv_conj diff_add_inverse2 length_append skip_while_split)

lemma scan_number_lexeme:
  assumes "scan_number from_chars (c # rest, loc) = Inr (t, cursor)" "is_ascii_digit c"
  shows "lexeme_ok from_chars t"
proof -
  define a where "a = skip_while is_ascii_digit (c # rest) loc"
  obtain fl r l where f: "scan_fraction a = (fl, r, l)" by (cases "scan_fraction a") auto
  define lexeme where "lexeme = take (length (c # rest) - length r) (c # rest)"
  show ?thesis
  proof (cases fl)
    case True
    then show ?thesis using assms(1)
      by (auto simp: scan_number_def a_def [symmetric] f Let_def lexeme_ok_def make_token_def simp del: skip_while.simps
          split: if_splits option.splits)
  next
    case False
    then have "(r, l) = a" using f by (auto simp: scan_fraction_def split: prod.splits if_splits)
    then have "r = fst a" by (cases a) simp
    then have lx: "lexeme = takeWhile is_ascii_digit (c # rest)"
      using skip_while_taken [of is_ascii_digit "c # rest" loc] by (simp add: lexeme_def a_def)
    then have digits: "list_all is_ascii_digit lexeme" by (auto simp: list_all_iff dest: set_takeWhileD)
    obtain w where w: "integer_value_loop lexeme 0 = Some w" and t: "t = make_token TkIntegerLiteral lexeme loc l"
      using assms(1) False
      by (auto simp: scan_number_def a_def [symmetric] f Let_def lexeme_def simp del: skip_while.simps
          split: if_splits option.splits)
    show ?thesis using integer_value_loop_bound [OF w digits] digits lx assms(2)
      by (simp add: t lexeme_ok_def make_token_def decimal_value_def)
  qed
qed

lemma scan_string_lexeme: "scan_string cursor = Inr (t, cursor') \<Longrightarrow> lexeme_ok from_chars t"
  by (auto simp: scan_string_def lexeme_ok_def make_token_def split: sum.splits prod.splits if_splits)

lemma scan_symbol_lexeme: "scan_symbol cursor = Inr (Some t, cursor') \<Longrightarrow> lexeme_ok from_chars t"
  by (auto simp: scan_symbol_def Let_def bad_character_def add_single_def add_double_def lexeme_ok_def make_token_def
      split: if_splits)

lemma scan_step_lexeme:
  assumes "scan_step from_chars cursor = Inr (Some t, cursor')" "fst cursor \<noteq> []"
  shows "lexeme_ok from_chars t"
proof (cases cursor rule: advance.cases)
  case (2 c rest loc)
  show ?thesis using assms(1) scan_symbol_lexeme scan_string_lexeme scan_word_lexeme scan_number_lexeme unfolding 2
    by (auto simp: scan_step_def Let_def some_token_def bind_result_def split: if_splits prod.splits sum.splits)
qed (use assms in simp)

lemma tokenize_loop_lexemes:
  "tokenize_loop from_chars cursor tokens = Inr ts \<Longrightarrow> list_all (lexeme_ok from_chars) tokens \<Longrightarrow>
   list_all (lexeme_ok from_chars) ts"
proof (induction from_chars cursor tokens rule: tokenize_loop.induct)
  case (1 from_chars cursor tokens)
  show ?case
  proof (cases "fst cursor = []")
    case True
    then show ?thesis using "1.prems" by (auto simp: lexeme_ok_def make_token_def)
  next
    case False
    obtain tok cursor' where s: "scan_step from_chars cursor = Inr (tok, cursor')"
      using "1.prems"(1) False by (auto split: sum.splits prod.splits)
    have "list_all (lexeme_ok from_chars) (tokens @ (case tok of Some t \<Rightarrow> [t] | None \<Rightarrow> []))"
      using "1.prems"(2) scan_step_lexeme [of from_chars cursor] s False by (auto split: option.splits)
    then show ?thesis using "1.IH" [OF False s refl] "1.prems"(1) False s by simp
  qed
qed

text \<open>
  C37: the lexer's lexemes. In every token list the lexer returns, identifiers are valid SQL names (lower case, at most 64
  bytes) and not keywords, integer literals are decimal numbers below 2 to the 63, floating literals denote finite doubles and
  string literals are valid UTF-8 of at most 1024 bytes; so the parser's literal conversions cannot fail.
\<close>

theorem lexemes_well_formed:
  assumes "tokenize from_chars text = Inr ts"
  shows "list_all (lexeme_ok from_chars) ts"
  using tokenize_loop_lexemes [OF assms [unfolded tokenize_def]] by simp

theorem lexemes_well_formed_witness:
  "\<exists>ts. tokenize (\<lambda>_. None) ''A1=42'' = Inr ts \<and> map tk_kind ts = [TkIdentifier, TkEq, TkIntegerLiteral, TkEnd]
    \<and> list_all (lexeme_ok (\<lambda>_. None)) ts"
proof -
  obtain ts where "tokenize (\<lambda>_. None) ''A1=42'' = Inr ts" "map tk_kind ts = [TkIdentifier, TkEq, TkIntegerLiteral, TkEnd]"
    by (simp add: tokenize_def lex_defs)
  then show ?thesis using lexemes_well_formed [of "\<lambda>_. None" "''A1=42''" ts] by simp
qed

lemma next_location_offset [simp]: "sl_byte_offset (next_location c loc) = sl_byte_offset loc + 1"
  by (simp add: next_location_def)

lemma fold_next_location_offset: "sl_byte_offset (fold next_location cs loc) = sl_byte_offset loc + length cs"
  by (induction cs arbitrary: loc) simp_all

lemma scan_string_loop_plain:
  "list_all (\<lambda>c. c \<noteq> CHR 0x27) cs \<Longrightarrow> length value + length cs \<le> kMaxVarcharBytes \<Longrightarrow>
   scan_string_loop (cs @ rest) loc value = scan_string_loop rest (fold next_location cs loc) (value @ cs)"
  by (induction cs arbitrary: loc "value") auto


end
