(* ===== verification/Suggestion.thy ===== *)
theory Suggestion
  imports Lexer
begin

text \<open>
  Spelling suggestions (\<open>src/compiler/diagnostic_suggestion.hpp\<close>): the bounded Damerau-Levenshtein distance by
  three rolling rows, and the choice of the best candidate. The reference is the recursive definition of the optimal
  string alignment distance.
\<close>

subsection \<open>The code\<close>

record SuggestionCandidate =
  su_spelling :: string
  su_display :: string

definition normalize_suggestion_text :: "string \<Rightarrow> string" where
  "normalize_suggestion_text text = map ascii_lower text"

definition suggestion_distance_limit :: "nat \<Rightarrow> nat" where
  "suggestion_distance_limit len = (if len \<le> 4 then 1 else if len \<le> 8 then 2 else min 3 (len div 3))"

text \<open>The cells \<open>0 \<dots> column\<close> of the current row, from the two rows before it.\<close>

fun row_cells :: "string \<Rightarrow> string \<Rightarrow> nat list \<Rightarrow> nat list \<Rightarrow> nat \<Rightarrow> nat \<Rightarrow> nat list" where
  "row_cells input candidate previous_previous previous row 0 = [row]"
| "row_cells input candidate previous_previous previous row (Suc c) =
     (let current = row_cells input candidate previous_previous previous row c;
          substitution_cost = (if input ! (row - 1) = candidate ! c then 0 else 1);
          cell = min (min (previous ! Suc c + 1) (current ! c + 1)) (previous ! c + substitution_cost)
      in current @
           [if 1 < row \<and> 1 < Suc c \<and> input ! (row - 1) = candidate ! (c - 1) \<and> input ! (row - 2) = candidate ! c
            then min cell (previous_previous ! (c - 1) + 1) else cell])"

fun distance_rows :: "string \<Rightarrow> string \<Rightarrow> nat \<Rightarrow> nat \<Rightarrow> nat \<Rightarrow> nat list \<Rightarrow> nat list \<Rightarrow> nat list option" where
  "distance_rows input candidate limit 0 row previous_previous previous = Some previous"
| "distance_rows input candidate limit (Suc left) row previous_previous previous =
     (let current = row_cells input candidate previous_previous previous row (length candidate)
      in if limit < Min (set current) \<and> length candidate + limit < row then None
         else distance_rows input candidate limit left (row + 1) previous current)"

definition bounded_damerau_levenshtein :: "string \<Rightarrow> string \<Rightarrow> nat \<Rightarrow> nat option" where
  "bounded_damerau_levenshtein input candidate limit =
     (if length candidate + limit < length input \<or> length input + limit < length candidate then None
      else case distance_rows input candidate limit (length input) 1 (replicate (length candidate + 1) 0) [0..<length candidate + 1] of
        None \<Rightarrow> None
      | Some previous \<Rightarrow>
          if previous ! length candidate \<le> limit then Some (previous ! length candidate) else None)"

text \<open>The state of the loop over the candidates: best distance, best display, tied.\<close>

definition consider_candidate ::
    "string \<Rightarrow> nat \<Rightarrow> SuggestionCandidate \<Rightarrow> nat \<times> string option \<times> bool \<Rightarrow> nat \<times> string option \<times> bool" where
  "consider_candidate normalized_input limit candidate state =
     (case state of (best_distance, best, tied) \<Rightarrow>
        case bounded_damerau_levenshtein normalized_input (normalize_suggestion_text (su_spelling candidate)) limit of
          None \<Rightarrow> state
        | Some distance \<Rightarrow>
            if distance < best_distance then (distance, Some (su_display candidate), False)
            else if distance = best_distance \<and> best \<noteq> None \<and> best \<noteq> Some (su_display candidate) then (best_distance, best, True)
            else state)"

definition best_suggestion :: "string \<Rightarrow> SuggestionCandidate list \<Rightarrow> string option" where
  "best_suggestion input candidates =
     (let normalized_input = normalize_suggestion_text input;
          limit = suggestion_distance_limit (length normalized_input)
      in case fold (consider_candidate normalized_input limit) candidates (2 ^ 64 - 1, None, False) of
           (best_distance, best, tied) \<Rightarrow> if best \<noteq> None \<and> \<not> tied then best else None)"

definition suggestion_message :: "string \<Rightarrow> string" where
  "suggestion_message candidate = ''did you mean '' @ [CHR 0x27] @ candidate @ [CHR 0x27, CHR ''?'']"

subsection \<open>The reference distance\<close>

text \<open>The optimal string alignment distance of the first \<open>i\<close> and \<open>j\<close> characters of two texts.\<close>

fun alignment :: "'a list \<Rightarrow> 'a list \<Rightarrow> nat \<Rightarrow> nat \<Rightarrow> nat" where
  "alignment a b 0 j = j"
| "alignment a b (Suc i) 0 = Suc i"
| "alignment a b (Suc i) (Suc j) =
     (let cell = min (min (alignment a b i (Suc j) + 1) (alignment a b (Suc i) j + 1))
                   (alignment a b i j + (if a ! i = b ! j then 0 else 1))
      in if 0 < i \<and> 0 < j \<and> a ! i = b ! (j - 1) \<and> a ! (i - 1) = b ! j
         then min cell (alignment a b (i - 1) (j - 1) + 1) else cell)"

definition alignment_distance :: "'a list \<Rightarrow> 'a list \<Rightarrow> nat" where
  "alignment_distance a b = alignment a b (length a) (length b)"

lemma alignment_0 [simp]: "alignment a b i 0 = i"
  by (cases i) simp_all

lemma alignment_length: "i \<le> alignment a b i j + j \<and> j \<le> alignment a b i j + i"
proof (induction a b i j rule: alignment.induct)
  case (3 a b i j)
  have "Suc i - 1 \<le> alignment a b (i - 1) (j - 1) + 1 + j \<and> Suc j - 1 \<le> alignment a b (i - 1) (j - 1) + 1 + i"
    if "0 < i" "0 < j" "a ! i = b ! (j - 1)" "a ! (i - 1) = b ! j"
  proof -
    have "i - 1 \<le> alignment a b (i - 1) (j - 1) + (j - 1) \<and> j - 1 \<le> alignment a b (i - 1) (j - 1) + (i - 1)"
      using "3.IH"(4) that by simp
    then show ?thesis using that(1,2) by linarith
  qed
  then show ?case using "3.IH"(1,2,3) by (auto simp: Let_def min_def)
qed simp_all

lemma alignment_distance_length:
  "length a \<le> alignment_distance a b + length b" "length b \<le> alignment_distance a b + length a"
  using alignment_length [of "length a" a b "length b"] by (simp_all add: alignment_distance_def)

subsection \<open>The rolling rows compute the reference\<close>

definition row_of :: "string \<Rightarrow> string \<Rightarrow> nat \<Rightarrow> nat list" where
  "row_of a b i = map (alignment a b i) [0..<length b + 1]"

lemma nth_row_of [simp]: "j \<le> length b \<Longrightarrow> row_of a b i ! j = alignment a b i j"
  unfolding row_of_def by (subst nth_map) (simp_all del: upt_Suc)

lemma row_cells_alignment:
  assumes "previous = row_of a b i" "0 < i \<Longrightarrow> previous_previous = row_of a b (i - 1)" "c \<le> length b"
  shows "row_cells a b previous_previous previous (Suc i) c = map (alignment a b (Suc i)) [0..<Suc c]"
  using assms(3)
proof (induction c)
  case (Suc c)
  then have "row_cells a b previous_previous previous (Suc i) c = map (alignment a b (Suc i)) [0..<Suc c]" by simp
  then have "row_cells a b previous_previous previous (Suc i) (Suc c) = map (alignment a b (Suc i)) [0..<Suc c] @ [alignment a b (Suc i) (Suc c)]"
    using Suc.prems assms(1,2) by (simp add: Let_def nth_append)
  then show ?case by simp
qed simp

lemma distance_rows_alignment:
  assumes "previous = row_of a b i" "0 < i \<Longrightarrow> previous_previous = row_of a b (i - 1)" "i + left \<le> length b + limit"
  shows "distance_rows a b limit left (Suc i) previous_previous previous = Some (row_of a b (i + left))"
  using assms
proof (induction left arbitrary: i previous previous_previous)
  case (Suc left)
  have "row_cells a b previous_previous previous (Suc i) (length b) = row_of a b (Suc i)"
    using row_cells_alignment [OF Suc.prems(1,2)] by (simp add: row_of_def)
  then show ?case using Suc.IH [of "row_of a b (Suc i)" "Suc i" previous] Suc.prems by (simp add: Let_def)
qed simp

lemma bounded_distance:
  "bounded_damerau_levenshtein a b limit =
     (if alignment_distance a b \<le> limit then Some (alignment_distance a b) else None)"
proof (cases "length b + limit < length a \<or> length a + limit < length b")
  case True
  then have "\<not> alignment_distance a b \<le> limit" using alignment_distance_length [where a = a and b = b] by linarith
  then show ?thesis using True by (simp add: bounded_damerau_levenshtein_def)
next
  case False
  have "[0..<length b + 1] = row_of a b 0" by (simp add: row_of_def map_idI)
  then have "distance_rows a b limit (length a) 1 (replicate (length b + 1) 0) [0..<length b + 1] = Some (row_of a b (length a))"
    using distance_rows_alignment [of "[0..<length b + 1]" a b 0 "replicate (length b + 1) 0" "length a" limit] False by simp
  then show ?thesis using False by (simp add: bounded_damerau_levenshtein_def alignment_distance_def)
qed

subsection \<open>The best candidate\<close>

text \<open>The distance the code compares, with both texts in lower case.\<close>

definition candidate_distance :: "string \<Rightarrow> SuggestionCandidate \<Rightarrow> nat" where
  "candidate_distance input c =
     alignment_distance (normalize_suggestion_text input) (normalize_suggestion_text (su_spelling c))"

text \<open>
  The loop's state after the candidates \<open>cs\<close>: nothing near enough, or the least distance, the display of the first candidate
  at that distance, and whether another one has a different display.
\<close>

definition best_of :: "string \<Rightarrow> nat \<Rightarrow> SuggestionCandidate list \<Rightarrow> nat \<times> string option \<times> bool \<Rightarrow> bool" where
  "best_of input limit cs state \<longleftrightarrow> (case state of (m, best, tied) \<Rightarrow>
     (best = None \<and> \<not> tied \<and> m = 2 ^ 64 - 1 \<and> (\<forall>c \<in> set cs. limit < candidate_distance input c))
     \<or> (\<exists>c \<in> set cs. best = Some (su_display c) \<and> candidate_distance input c = m \<and> m \<le> limit
          \<and> (\<forall>d \<in> set cs. m \<le> candidate_distance input d)
          \<and> (tied \<longleftrightarrow> (\<exists>d \<in> set cs. candidate_distance input d = m \<and> su_display d \<noteq> su_display c))))"

lemma consider_candidate_best:
  assumes "best_of input limit cs state" "limit < 2 ^ 64 - 1"
  shows "best_of input limit (cs @ [c]) (consider_candidate (normalize_suggestion_text input) limit c state)"
proof -
  obtain m best tied where s: "state = (m, best, tied)" by (cases state) auto
  have d: "bounded_damerau_levenshtein (normalize_suggestion_text input) (normalize_suggestion_text (su_spelling c)) limit
      = (if candidate_distance input c \<le> limit then Some (candidate_distance input c) else None)"
    by (simp add: bounded_distance candidate_distance_def)
  consider "best = None" "\<not> tied" "m = 2 ^ 64 - 1" "\<forall>c \<in> set cs. limit < candidate_distance input c"
    | b where "b \<in> set cs" "best = Some (su_display b)" "candidate_distance input b = m" "m \<le> limit"
        "\<forall>d \<in> set cs. m \<le> candidate_distance input d"
        "tied \<longleftrightarrow> (\<exists>d \<in> set cs. candidate_distance input d = m \<and> su_display d \<noteq> su_display b)"
    using assms(1) unfolding best_of_def s by auto
  then show ?thesis
  proof cases
    case 1
    then show ?thesis using assms(2) by (auto simp: best_of_def consider_candidate_def s d)
  next
    case 2
    let ?k = "candidate_distance input c"
    let ?s' = "consider_candidate (normalize_suggestion_text input) limit c state"
    consider "limit < ?k \<or> m < ?k" | "?k < m" | "?k = m" by linarith
    then show ?thesis
    proof cases
      case 1
      then have "?s' = (m, best, tied)" using 2(4) by (auto simp: consider_candidate_def s d)
      moreover have "m < ?k" using 1 2(4) by linarith
      ultimately show ?thesis unfolding best_of_def using 2 by (auto intro!: bexI [of _ b])
    next
      case lt: 2
      then have "?s' = (?k, Some (su_display c), False)" using 2(4) by (simp add: consider_candidate_def s d)
      moreover have "\<forall>d \<in> set cs. ?k < candidate_distance input d" using 2(5) lt by fastforce
      ultimately show ?thesis unfolding best_of_def using lt 2(4) by (auto intro!: bexI [of _ c])
    next
      case eq: 3
      then have e: "?s' = (m, best, tied \<or> su_display c \<noteq> su_display b)" using 2(2,4) by (auto simp: consider_candidate_def s d)
      have t: "(tied \<or> su_display c \<noteq> su_display b)
          \<longleftrightarrow> (\<exists>d \<in> set (cs @ [c]). candidate_distance input d = m \<and> su_display d \<noteq> su_display b)"
        using 2(6) eq by auto
      show ?thesis unfolding best_of_def e case_prod_conv
        by (intro disjI2 bexI [of _ b] conjI t) (use 2(1-5) eq in auto)
    qed
  qed
qed

lemma fold_consider_best:
  "best_of input limit cs state \<Longrightarrow> limit < 2 ^ 64 - 1 \<Longrightarrow>
   best_of input limit (cs @ ds) (fold (consider_candidate (normalize_suggestion_text input) limit) ds state)"
proof (induction ds arbitrary: cs state)
  case (Cons d ds)
  show ?case using Cons.IH [OF consider_candidate_best [OF Cons.prems]] Cons.prems(2) by simp
qed simp

lemma suggestion_limit: "suggestion_distance_limit n \<le> 3"
  by (simp add: suggestion_distance_limit_def)

text \<open>
  C36: the spelling suggestions. The rolling-row algorithm with its early exits finds the optimal string alignment distance, and
  a suggestion is made exactly when some candidate is within the limit for the length of the word and all
  candidates at the least distance have the same display.
\<close>

theorem best_suggestion_correct:
  "best_suggestion input candidates = Some display \<longleftrightarrow>
     (\<exists>c \<in> set candidates. su_display c = display \<and> candidate_distance input c \<le> suggestion_distance_limit (length input)
       \<and> (\<forall>d \<in> set candidates. candidate_distance input c \<le> candidate_distance input d)
       \<and> (\<forall>d \<in> set candidates. candidate_distance input d = candidate_distance input c \<longrightarrow> su_display d = display))"
proof -
  let ?limit = "suggestion_distance_limit (length input)"
  obtain m best tied where f: "fold (consider_candidate (normalize_suggestion_text input) ?limit) candidates (2 ^ 64 - 1, None, False)
      = (m, best, tied)" by (metis prod_cases3)
  have "?limit < 2 ^ 64 - 1" using suggestion_limit [of "length input"] by (rule order_le_less_trans) simp
  then have b: "best_of input ?limit candidates (m, best, tied)"
    using fold_consider_best [of input ?limit "[]" "(2 ^ 64 - 1, None, False)" candidates] f by (simp add: best_of_def)
  have r: "best_suggestion input candidates = (if best \<noteq> None \<and> \<not> tied then best else None)"
    using f by (simp add: best_suggestion_def Let_def normalize_suggestion_text_def)
  consider "best = None" "\<forall>c \<in> set candidates. ?limit < candidate_distance input c"
    | c where "c \<in> set candidates" "best = Some (su_display c)" "candidate_distance input c = m" "m \<le> ?limit"
        "\<forall>d \<in> set candidates. m \<le> candidate_distance input d"
        "tied \<longleftrightarrow> (\<exists>d \<in> set candidates. candidate_distance input d = m \<and> su_display d \<noteq> su_display c)"
    using b unfolding best_of_def by auto
  then show ?thesis
  proof cases
    case 1
    then show ?thesis unfolding r by (fastforce simp: not_less)
  next
    case 2
    show ?thesis
    proof
      assume "best_suggestion input candidates = Some display"
      then have "su_display c = display" "\<not> tied" using r 2(2) by (auto split: if_splits)
      then show "\<exists>c \<in> set candidates. su_display c = display \<and> candidate_distance input c \<le> ?limit
          \<and> (\<forall>d \<in> set candidates. candidate_distance input c \<le> candidate_distance input d)
          \<and> (\<forall>d \<in> set candidates. candidate_distance input d = candidate_distance input c \<longrightarrow> su_display d = display)"
        using 2 by (intro bexI [of _ c]) auto
    next
      assume "\<exists>c \<in> set candidates. su_display c = display \<and> candidate_distance input c \<le> ?limit
          \<and> (\<forall>d \<in> set candidates. candidate_distance input c \<le> candidate_distance input d)
          \<and> (\<forall>d \<in> set candidates. candidate_distance input d = candidate_distance input c \<longrightarrow> su_display d = display)"
      then obtain e where e: "e \<in> set candidates" "\<forall>d \<in> set candidates. candidate_distance input e \<le> candidate_distance input d"
        "\<forall>d \<in> set candidates. candidate_distance input d = candidate_distance input e \<longrightarrow> su_display d = display" by blast
      have "candidate_distance input e = m" using e(1,2) 2(1,3,5) by (metis le_antisym)
      then have "\<not> tied" "su_display c = display" using e(3) 2(1,3,6) by metis+
      then show "best_suggestion input candidates = Some display" using r 2(2) by simp
    qed
  qed
qed

theorem best_suggestion_correct_witness:
  "best_suggestion ''SELCT'' [\<lparr>su_spelling = ''select'', su_display = ''SELECT''\<rparr>, \<lparr>su_spelling = ''delete'', su_display = ''DELETE''\<rparr>] = Some ''SELECT''"
proof -
  let ?s = "\<lparr>su_spelling = ''select'', su_display = ''SELECT''\<rparr>" and ?d = "\<lparr>su_spelling = ''delete'', su_display = ''DELETE''\<rparr>"
  have "candidate_distance ''SELCT'' ?s = 1" "candidate_distance ''SELCT'' ?d = 3" by code_simp+
  then show ?thesis using best_suggestion_correct [of "''SELCT''" "[?s, ?d]" "''SELECT''"]
    by (auto simp: suggestion_distance_limit_def)
qed

end
