(* ===== verification/Parser.thy ===== *)
theory Parser
  imports Suggestion
begin

text \<open>
  The syntax trees of \<open>src/compiler/ast.hpp\<close> and the recursive descent parser of
  \<open>src/compiler/parser.cpp\<close>. The parser's state is the tokens that are left, the range of the end of the
  statement and the number of expression nodes so far. An expression error is raised where the code records it: the code hands a null
  pointer up to the statement, which then reports the first recorded error.
\<close>

subsection \<open>Syntax trees\<close>

record AstColumnDef =
  acd_name :: string
  acd_type :: Type
  acd_nullable :: bool
  acd_source :: SourceRange

record CreateTableAst =
  cta_table_name :: string
  cta_table_source :: SourceRange
  cta_columns :: "AstColumnDef list"

record AstInsertColumn =
  aic_name :: string
  aic_source :: SourceRange

record AstLiteral =
  al_value :: Value
  al_source :: SourceRange

record InsertAst =
  ia_table_name :: string
  ia_table_source :: SourceRange
  ia_columns :: "AstInsertColumn list"
  ia_rows :: "AstLiteral list list"

datatype AstCompareOp = AstEq | AstNe | AstLt | AstLe | AstGt | AstGe
datatype AstLogicOp = AstAnd | AstOr
datatype AstNullTestOp = AstIsNull | AstIsNotNull

text \<open>\<open>std::variant<AstCompareOp, AstLogicOp>\<close>\<close>

datatype AstBinaryOp = AstCompare AstCompareOp | AstLogic AstLogicOp

record AstIdentifierExpr =
  ai_qualifier :: "string option"
  ai_name :: string
  ai_source :: SourceRange

datatype AstExpr =
    AstIdentifier AstIdentifierExpr
  | AstLiteralExpr Value SourceRange
  | AstBinary AstBinaryOp SourceRange AstExpr AstExpr
  | AstUnary SourceRange AstExpr
  | AstNullTest AstNullTestOp SourceRange AstExpr

record AstSelectColumn =
  asc_qualifier :: "string option"
  asc_name :: string
  asc_source :: SourceRange

datatype AstAggregateKind = AstCount | AstSum | AstAvg | AstMin | AstMax

record AstAggregateCall =
  aac_kind :: AstAggregateKind
  aac_argument :: "AstSelectColumn option"
  aac_source :: SourceRange

datatype AstSelectItem = AstColumnItem AstSelectColumn | AstAggregateItem AstAggregateCall

datatype AstSortDirection = AstAsc | AstDesc

record AstSortKey =
  ask_qualifier :: "string option"
  ask_column_name :: string
  ask_source :: SourceRange
  ask_direction :: AstSortDirection

record AstJoin =
  aj_table_name :: string
  aj_table_source :: SourceRange
  aj_condition :: AstExpr

record SelectAst =
  sa_table_name :: string
  sa_table_source :: SourceRange
  sa_joins :: "AstJoin list"
  sa_select_all :: bool
  sa_items :: "AstSelectItem list"
  sa_predicate :: "AstExpr option"
  sa_group_by :: "AstSelectColumn list"
  sa_order_by :: "AstSortKey list"

record DeleteAst =
  da_table_name :: string
  da_table_source :: SourceRange
  da_predicate :: "AstExpr option"

record AstUpdateAssignment =
  aua_column_name :: string
  aua_column_source :: SourceRange
  aua_literal :: AstLiteral

record UpdateAst =
  upa_table_name :: string
  upa_table_source :: SourceRange
  upa_assignments :: "AstUpdateAssignment list"
  upa_predicate :: "AstExpr option"

datatype StatementAst =
    StCreateTable CreateTableAst
  | StInsert InsertAst
  | StSelect SelectAst
  | StDelete DeleteAst
  | StUpdate UpdateAst

subsection \<open>Literals\<close>

text \<open>\<open>std::from_chars\<close> on a 64-bit integer, when it accepts the whole text.\<close>

definition int_from_chars :: "string \<Rightarrow> int option" where
  "int_from_chars lexeme =
     (let negative = (lexeme \<noteq> [] \<and> hd lexeme = CHR ''-'');
          digits = (if negative then tl lexeme else lexeme);
          value = (if negative then - int (decimal_value digits) else int (decimal_value digits))
      in if digits = [] \<or> \<not> list_all is_ascii_digit digits \<or> value < - (2 ^ 63) \<or> 2 ^ 63 \<le> value then None else Some value)"

definition parse_integer_literal :: "string \<Rightarrow> Value option" where
  "parse_integer_literal lexeme =
     (case int_from_chars lexeme of
        None \<Rightarrow> None
      | Some value \<Rightarrow> Some (if value \<le> 2147483647 then VInt (word_of_int value) else VBigInt (word_of_int value)))"

definition parse_double_literal :: "(string \<Rightarrow> u64 option) \<Rightarrow> string \<Rightarrow> Value option" where
  "parse_double_literal from_chars lexeme =
     (case from_chars lexeme of None \<Rightarrow> None | Some value \<Rightarrow> if isfinite value then Some (VDouble value) else None)"

subsection \<open>The token stream\<close>

record ParserState =
  ps_tokens :: "Token list"
  ps_fallback_end :: SourceRange
  ps_expression_complexity :: nat

definition fallback_location :: "Token list \<Rightarrow> SourceRange" where
  "fallback_location tokens =
     (if tokens = [] then \<lparr>sr_begin = \<lparr>sl_line = 1, sl_column = 1, sl_byte_offset = 0\<rparr>,
                           sr_end = \<lparr>sl_line = 1, sl_column = 1, sl_byte_offset = 0\<rparr>\<rparr>
      else tk_source (last tokens))"

definition fallback_end :: "ParserState \<Rightarrow> Token" where
  "fallback_end s = \<lparr>tk_kind = TkEnd, tk_lexeme = [], tk_source = ps_fallback_end s\<rparr>"

definition peek_token :: "ParserState \<Rightarrow> Token" where
  "peek_token s = (case ps_tokens s of [] \<Rightarrow> fallback_end s | t # _ \<Rightarrow> t)"

definition peek_next :: "ParserState \<Rightarrow> Token" where
  "peek_next s = (case ps_tokens s of _ # t # _ \<Rightarrow> t | _ \<Rightarrow> fallback_end s)"

definition check :: "TokenKind \<Rightarrow> ParserState \<Rightarrow> bool" where
  "check kind s \<longleftrightarrow> tk_kind (peek_token s) = kind"

definition advance_token :: "ParserState \<Rightarrow> ParserState" where
  "advance_token s = (case ps_tokens s of
     [] \<Rightarrow> s
   | t # ts \<Rightarrow> if tk_kind t \<noteq> TkEnd then s\<lparr>ps_tokens := ts\<rparr> else s)"

definition match_token :: "TokenKind \<Rightarrow> ParserState \<Rightarrow> bool \<times> ParserState" where
  "match_token kind s = (if check kind s then (True, advance_token s) else (False, s))"

subsection \<open>Errors\<close>

definition syntax_error :: "string \<Rightarrow> ParserState \<Rightarrow> CompileError" where
  "syntax_error message s =
     \<lparr>ce_stage = kSyntax, ce_source = tk_source (peek_token s), ce_message = message, ce_suggestion = None, ce_fix_it = None\<rparr>"

definition raise_expression_error :: "string \<Rightarrow> ParserState \<Rightarrow> CompileError" where
  "raise_expression_error message s =
     \<lparr>ce_stage = kSyntax, ce_source = tk_source (peek_token s), ce_message = message, ce_suggestion = None, ce_fix_it = None\<rparr>"

definition keyword_error :: "string \<Rightarrow> (string \<times> string) list \<Rightarrow> ParserState \<Rightarrow> CompileError" where
  "keyword_error message candidates s =
     (let e = \<lparr>ce_stage = kSyntax, ce_source = tk_source (peek_token s), ce_message = message, ce_suggestion = None, ce_fix_it = None\<rparr>
      in if tk_kind (peek_token s) = TkIdentifier then
           (case best_suggestion (tk_lexeme (peek_token s)) (map (\<lambda>(spelling, display). \<lparr>su_spelling = spelling, su_display = display\<rparr>) candidates) of
              Some candidate \<Rightarrow> e\<lparr>ce_suggestion := Some (suggestion_message candidate),
                ce_fix_it := Some \<lparr>fi_range = tk_source (peek_token s), fi_replacement = candidate\<rparr>\<rparr>
            | None \<Rightarrow> e)
         else e)"

definition insertion_error :: "string \<Rightarrow> string \<Rightarrow> ParserState \<Rightarrow> CompileError" where
  "insertion_error message replacement s =
     \<lparr>ce_stage = kSyntax, ce_source = tk_source (peek_token s), ce_message = message, ce_suggestion = None,
      ce_fix_it = Some \<lparr>fi_range = \<lparr>sr_begin = sr_begin (tk_source (peek_token s)), sr_end = sr_begin (tk_source (peek_token s))\<rparr>,
                        fi_replacement = replacement\<rparr>\<rparr>"

definition semicolon_error :: "string \<Rightarrow> ParserState \<Rightarrow> CompileError" where
  "semicolon_error message s = (if check TkEnd s then insertion_error message '';'' s else syntax_error message s)"

definition right_parenthesis_error :: "string \<Rightarrow> ParserState \<Rightarrow> CompileError" where
  "right_parenthesis_error message s =
     (if check TkSemicolon s \<or> check TkEnd s \<or> check TkFrom s \<or> check TkWhere s \<or> check TkGroup s \<or> check TkOrder s
      then insertion_error message '')'' s else syntax_error message s)"

fun starts_literal :: "TokenKind \<Rightarrow> bool" where
  "starts_literal TkIntegerLiteral = True"
| "starts_literal TkDoubleLiteral = True"
| "starts_literal TkStringLiteral = True"
| "starts_literal TkTrue = True"
| "starts_literal TkFalse = True"
| "starts_literal TkNull = True"
| "starts_literal _ = False"

text \<open>\<open>if (!match(kind)) return error;\<close> and reading an identifier.\<close>

type_synonym 'a parsed = "(CompileError, 'a \<times> ParserState) result"

definition require :: "TokenKind \<Rightarrow> (ParserState \<Rightarrow> CompileError) \<Rightarrow> ParserState \<Rightarrow> (CompileError, ParserState) result" where
  "require kind error s = (case match_token kind s of (True, s') \<Rightarrow> Inr s' | (False, s') \<Rightarrow> Inl (error s'))"

definition take_identifier :: "string \<Rightarrow> ParserState \<Rightarrow> Token parsed" where
  "take_identifier message s =
     (if check TkIdentifier s then Inr (peek_token s, advance_token s)
      else Inl (syntax_error message s))"

subsection \<open>Expressions\<close>

definition kMaxExpressionComplexity :: nat where "kMaxExpressionComplexity = 256"

definition consume_expression_budget :: "ParserState \<Rightarrow> (CompileError, ParserState) result" where
  "consume_expression_budget s =
     (if kMaxExpressionComplexity \<le> ps_expression_complexity s
      then Inl (raise_expression_error ''expression exceeds maximum supported complexity'' s)
      else Inr (s\<lparr>ps_expression_complexity := ps_expression_complexity s + 1\<rparr>))"

definition parse_column_reference :: "string \<Rightarrow> ParserState \<Rightarrow> AstIdentifierExpr parsed" where
  "parse_column_reference message s =
     (if \<not> check TkIdentifier s then Inl (raise_expression_error message s)
      else
        let name = tk_lexeme (peek_token s); location = tk_source (peek_token s)
        in case match_token TkDot (advance_token s) of
             (True, s') \<Rightarrow>
               if \<not> check TkIdentifier s' then Inl (raise_expression_error (''expected column identifier after '' @ [CHR 0x27] @ ''.'' @ [CHR 0x27]) s')
               else Inr (\<lparr>ai_qualifier = Some name, ai_name = tk_lexeme (peek_token s'), ai_source = location\<rparr>, advance_token s')
           | (False, s') \<Rightarrow> Inr (\<lparr>ai_qualifier = None, ai_name = name, ai_source = location\<rparr>, s'))"

fun comparison_operator :: "TokenKind \<Rightarrow> AstCompareOp option" where
  "comparison_operator TkEq = Some AstEq"
| "comparison_operator TkNe = Some AstNe"
| "comparison_operator TkLt = Some AstLt"
| "comparison_operator TkLe = Some AstLe"
| "comparison_operator TkGt = Some AstGt"
| "comparison_operator TkGe = Some AstGe"
| "comparison_operator _ = None"

text \<open>The cases of \<open>parse_primary\<close> that are one literal token: its value, or the message of an error.\<close>

definition literal_token :: "(string \<Rightarrow> u64 option) \<Rightarrow> Token \<Rightarrow> (string, Value) result option" where
  "literal_token from_chars t =
     (if tk_kind t = TkIntegerLiteral then
        Some (case parse_integer_literal (tk_lexeme t) of None \<Rightarrow> Inl ''invalid integer literal in expression'' | Some value \<Rightarrow> Inr value)
      else if tk_kind t = TkDoubleLiteral then
        Some (case parse_double_literal from_chars (tk_lexeme t) of None \<Rightarrow> Inl ''invalid floating literal in expression'' | Some value \<Rightarrow> Inr value)
      else if tk_kind t = TkStringLiteral then Some (Inr (VText (tk_lexeme t)))
      else if tk_kind t = TkTrue \<or> tk_kind t = TkFalse then Some (Inr (VBool (tk_kind t = TkTrue)))
      else if tk_kind t = TkNull then Some (Inr VNull)
      else None)"

definition parse_operand :: "(string \<Rightarrow> u64 option) \<Rightarrow> ParserState \<Rightarrow> AstExpr parsed" where
  "parse_operand from_chars s =
     (if check TkIdentifier s then
        bind_result (consume_expression_budget s) (\<lambda>s1.
          bind_result (parse_column_reference ''expected column identifier'' s1) (\<lambda>(column, s2). Inr (AstIdentifier column, s2)))
      else case literal_token from_chars (peek_token s) of
        Some literal \<Rightarrow>
          bind_result (consume_expression_budget s) (\<lambda>s1.
            case literal of
              Inl message \<Rightarrow> Inl (raise_expression_error message s1)
            | Inr value \<Rightarrow> Inr (AstLiteralExpr value (tk_source (peek_token s1)), advance_token s1))
      | None \<Rightarrow> Inl (raise_expression_error ''expected expression'' s))"

text \<open>
  The mutually recursive methods \<open>parse_or\<close> to \<open>parse_primary\<close>; a goal with \<open>Rest\<close> is the loop of its method,
  with the left operand so far.
\<close>

datatype ExprGoal = GoalOr | GoalOrRest AstExpr | GoalAnd | GoalAndRest AstExpr | GoalNot | GoalComparison | GoalPrimary

lemma bind_result_cong [fundef_cong]:
  "r = r' \<Longrightarrow> (\<And>a. r' = Inr a \<Longrightarrow> f a = g a) \<Longrightarrow> bind_result r f = bind_result r' g"
  by (cases r') auto

function (domintros) parse_goal :: "(string \<Rightarrow> u64 option) \<Rightarrow> ExprGoal \<Rightarrow> ParserState \<Rightarrow> AstExpr parsed" where
  "parse_goal from_chars GoalOr s =
     bind_result (parse_goal from_chars GoalAnd s) (\<lambda>(lhs, s1). parse_goal from_chars (GoalOrRest lhs) s1)"
| "parse_goal from_chars (GoalOrRest lhs) s =
     (if \<not> check TkOr s then Inr (lhs, s)
      else bind_result (consume_expression_budget s) (\<lambda>s1.
        bind_result (parse_goal from_chars GoalAnd (advance_token s1)) (\<lambda>(rhs, s2).
          parse_goal from_chars (GoalOrRest (AstBinary (AstLogic AstOr) (tk_source (peek_token s1)) lhs rhs)) s2)))"
| "parse_goal from_chars GoalAnd s =
     bind_result (parse_goal from_chars GoalNot s) (\<lambda>(lhs, s1). parse_goal from_chars (GoalAndRest lhs) s1)"
| "parse_goal from_chars (GoalAndRest lhs) s =
     (if \<not> check TkAnd s then Inr (lhs, s)
      else bind_result (consume_expression_budget s) (\<lambda>s1.
        bind_result (parse_goal from_chars GoalNot (advance_token s1)) (\<lambda>(rhs, s2).
          parse_goal from_chars (GoalAndRest (AstBinary (AstLogic AstAnd) (tk_source (peek_token s1)) lhs rhs)) s2)))"
| "parse_goal from_chars GoalNot s =
     (if \<not> check TkNot s then parse_goal from_chars GoalComparison s
      else bind_result (consume_expression_budget s) (\<lambda>s1.
        bind_result (parse_goal from_chars GoalNot (advance_token s1)) (\<lambda>(operand, s2).
          Inr (AstUnary (tk_source (peek_token s1)) operand, s2))))"
| "parse_goal from_chars GoalComparison s =
     bind_result (parse_goal from_chars GoalPrimary s) (\<lambda>(lhs, s1).
       if check TkIs s1 then
         bind_result (consume_expression_budget s1) (\<lambda>s2.
           case match_token TkNot (advance_token s2) of (negated, s3) \<Rightarrow>
             bind_result (require TkNull (raise_expression_error (if negated then ''expected NULL after IS NOT'' else ''expected NULL after IS'')) s3)
               (\<lambda>s4. Inr (AstNullTest (if negated then AstIsNotNull else AstIsNull) (tk_source (peek_token s2)) lhs, s4)))
       else case comparison_operator (tk_kind (peek_token s1)) of
         None \<Rightarrow> Inr (lhs, s1)
       | Some op \<Rightarrow>
           bind_result (consume_expression_budget s1) (\<lambda>s2.
             bind_result (parse_goal from_chars GoalPrimary (advance_token s2)) (\<lambda>(rhs, s3).
               Inr (AstBinary (AstCompare op) (tk_source (peek_token s2)) lhs rhs, s3))))"
| "parse_goal from_chars GoalPrimary s =
     (if check TkLeftParen s then
        bind_result (consume_expression_budget s) (\<lambda>s1.
          bind_result (parse_goal from_chars GoalOr (advance_token s1)) (\<lambda>(expression, s2).
            bind_result (require TkRightParen
                (raise_expression_error (''expected '' @ [CHR 0x27] @ '')'' @ [CHR 0x27] @ '' after expression'')) s2)
              (\<lambda>s3. Inr (expression, s3))))
      else parse_operand from_chars s)"
  by pat_completeness auto

text \<open>No token comes back and the budget only grows; this is what the recursion ends by.\<close>

definition extends :: "ParserState \<Rightarrow> ParserState \<Rightarrow> bool" where
  "extends s s' \<longleftrightarrow> (\<exists>ts. ps_tokens s = ts @ ps_tokens s') \<and> ps_fallback_end s' = ps_fallback_end s
     \<and> ps_expression_complexity s \<le> ps_expression_complexity s'
     \<and> (ps_expression_complexity s \<le> kMaxExpressionComplexity \<longrightarrow> ps_expression_complexity s' \<le> kMaxExpressionComplexity)"

lemma extends_refl [simp]: "extends s s"
  by (simp add: extends_def)

lemma extends_trans: "extends s s' \<Longrightarrow> extends s' s'' \<Longrightarrow> extends s s''"
  by (force simp: extends_def)

lemma extends_advance: "extends s (advance_token s)"
  by (auto simp: extends_def advance_token_def split: list.split)

lemma extends_past: "extends s t \<Longrightarrow> extends (advance_token t) u \<Longrightarrow> extends s u"
  using extends_advance extends_trans by blast

lemma extends_budget: "consume_expression_budget s = Inr s' \<Longrightarrow> extends s s'"
  by (auto simp: extends_def consume_expression_budget_def split: if_splits)

lemma extends_match: "match_token kind s = (b, s') \<Longrightarrow> extends s s'"
  by (auto simp: match_token_def extends_advance split: if_splits)

lemma extends_require: "require kind error s = Inr s' \<Longrightarrow> extends s s'"
  by (auto simp: require_def match_token_def extends_advance split: if_splits)

lemma extends_column_reference:
  assumes "parse_column_reference message s = Inr (column, s')"
  shows "extends s s'"
proof -
  obtain b s1 where m: "match_token TkDot (advance_token s) = (b, s1)" by (cases "match_token TkDot (advance_token s)")
  have "extends s s1" by (rule extends_trans [OF extends_advance extends_match [OF m]])
  then show ?thesis using assms extends_trans [OF _ extends_advance]
    by (cases b) (auto simp: parse_column_reference_def Let_def m split: if_splits)
qed

lemma extends_operand:
  assumes "parse_operand from_chars s = Inr (e, s')"
  shows "extends s s'"
proof (cases "check TkIdentifier s")
  case True
  then show ?thesis using assms
    by (auto simp: parse_operand_def bind_result_Inr_iff dest!: extends_budget extends_column_reference intro: extends_trans)
next
  case False
  then obtain literal s1 where "consume_expression_budget s = Inr s1"
    "(case literal of Inl message \<Rightarrow> Inl (raise_expression_error message s1)
      | Inr value \<Rightarrow> Inr (AstLiteralExpr value (tk_source (peek_token s1)), advance_token s1)) = Inr (e, s')"
    using assms by (auto simp: parse_operand_def bind_result_Inr_iff split: option.splits)
  then show ?thesis using extends_trans [OF extends_budget extends_advance] by (cases literal) auto
qed

lemma parse_goal_extends_dom:
  "parse_goal_dom (from_chars, goal, s) \<Longrightarrow> parse_goal from_chars goal s = Inr (e, s') \<Longrightarrow> extends s s'"
proof (induction arbitrary: e s' rule: parse_goal.pinduct)
  case (1 from_chars s)
  then show ?case by (fastforce simp: parse_goal.psimps bind_result_Inr_iff intro: extends_trans)
next
  case (2 from_chars lhs s)
  show ?case
  proof (cases "check TkOr s")
    case True
    then obtain s1 rhs s2 where c: "consume_expression_budget s = Inr s1" "parse_goal from_chars GoalAnd (advance_token s1) = Inr (rhs, s2)"
      "parse_goal from_chars (GoalOrRest (AstBinary (AstLogic AstOr) (tk_source (peek_token s1)) lhs rhs)) s2 = Inr (e, s')"
      using "2.prems" "2.hyps" by (auto simp: parse_goal.psimps bind_result_Inr_iff)
    have "extends s (advance_token s1)" using extends_trans [OF extends_budget [OF c(1)] extends_advance] .
    moreover have "extends (advance_token s1) s2" using "2.IH"(1) True c(1,2) by blast
    moreover have "extends s2 s'" using "2.IH"(2) [OF _ c(1,2) refl c(3)] True by simp
    ultimately show ?thesis using extends_trans by blast
  qed (use 2 in \<open>simp add: parse_goal.psimps\<close>)
next
  case (3 from_chars s)
  then show ?case by (fastforce simp: parse_goal.psimps bind_result_Inr_iff intro: extends_trans)
next
  case (4 from_chars lhs s)
  show ?case
  proof (cases "check TkAnd s")
    case True
    then obtain s1 rhs s2 where c: "consume_expression_budget s = Inr s1" "parse_goal from_chars GoalNot (advance_token s1) = Inr (rhs, s2)"
      "parse_goal from_chars (GoalAndRest (AstBinary (AstLogic AstAnd) (tk_source (peek_token s1)) lhs rhs)) s2 = Inr (e, s')"
      using "4.prems" "4.hyps" by (auto simp: parse_goal.psimps bind_result_Inr_iff)
    have "extends s (advance_token s1)" using extends_trans [OF extends_budget [OF c(1)] extends_advance] .
    moreover have "extends (advance_token s1) s2" using "4.IH"(1) True c(1,2) by blast
    moreover have "extends s2 s'" using "4.IH"(2) [OF _ c(1,2) refl c(3)] True by simp
    ultimately show ?thesis using extends_trans by blast
  qed (use 4 in \<open>simp add: parse_goal.psimps\<close>)
next
  case (5 from_chars s)
  show ?case
  proof (cases "check TkNot s")
    case True
    then obtain s1 operand where c: "consume_expression_budget s = Inr s1" "parse_goal from_chars GoalNot (advance_token s1) = Inr (operand, s')"
      using "5.prems" "5.hyps" by (auto simp: parse_goal.psimps bind_result_Inr_iff)
    have "extends s (advance_token s1)" using extends_trans [OF extends_budget [OF c(1)] extends_advance] .
    moreover have "extends (advance_token s1) s'" using "5.IH"(2) [OF _ c] True by simp
    ultimately show ?thesis using extends_trans by blast
  qed (use 5 in \<open>simp add: parse_goal.psimps\<close>)
next
  case (6 from_chars s)
  then obtain lhs s1 where l: "parse_goal from_chars GoalPrimary s = Inr (lhs, s1)"
    by (auto simp: parse_goal.psimps bind_result_Inr_iff)
  have e1: "extends s s1" using "6.IH" l by blast
  show ?case
  proof (cases "check TkIs s1")
    case True
    then obtain s2 where b: "consume_expression_budget s1 = Inr s2"
      using "6.prems" "6.hyps" l by (auto simp: parse_goal.psimps bind_result_Inr_iff)
    obtain negated s3 where m: "match_token TkNot (advance_token s2) = (negated, s3)" by (cases "match_token TkNot (advance_token s2)")
    obtain error where r: "require TkNull error s3 = Inr s'"
      using "6.prems" "6.hyps" l True b m by (auto simp: parse_goal.psimps bind_result_Inr_iff)
    have "extends s1 s'"
      using extends_trans [OF extends_budget [OF b] extends_advance] extends_trans [OF extends_match [OF m] extends_require [OF r]]
      by (rule extends_trans)
    then show ?thesis using e1 extends_trans by blast
  next
    case False
    show ?thesis
    proof (cases "comparison_operator (tk_kind (peek_token s1))")
      case None
      then show ?thesis using False l e1 "6.prems" "6.hyps" by (simp add: parse_goal.psimps)
    next
      case (Some op)
      then obtain s2 rhs where c: "consume_expression_budget s1 = Inr s2" "parse_goal from_chars GoalPrimary (advance_token s2) = Inr (rhs, s')"
        using False l "6.prems" "6.hyps" by (auto simp: parse_goal.psimps bind_result_Inr_iff)
      have "extends s1 (advance_token s2)" using extends_trans [OF extends_budget [OF c(1)] extends_advance] .
      moreover have "extends (advance_token s2) s'" using "6.IH" l False Some c by blast
      ultimately show ?thesis using e1 extends_trans by blast
    qed
  qed
next
  case (7 from_chars s)
  show ?case
  proof (cases "check TkLeftParen s")
    case True
    then obtain s1 s2 where c: "consume_expression_budget s = Inr s1" "parse_goal from_chars GoalOr (advance_token s1) = Inr (e, s2)"
      "\<exists>error. require TkRightParen error s2 = Inr s'"
      using "7.prems" "7.hyps" by (auto simp: parse_goal.psimps bind_result_Inr_iff)
    have "extends s (advance_token s1)" using extends_trans [OF extends_budget [OF c(1)] extends_advance] .
    moreover have "extends (advance_token s1) s2" using "7.IH" [OF True c(1,2)] .
    ultimately show ?thesis using c(3) extends_require extends_trans by blast
  qed (use 7 extends_operand in \<open>simp add: parse_goal.psimps\<close>)
qed

fun goal_level :: "ExprGoal \<Rightarrow> nat" where
  "goal_level GoalOr = 5"
| "goal_level GoalAnd = 4"
| "goal_level GoalNot = 3"
| "goal_level GoalComparison = 2"
| "goal_level GoalPrimary = 1"
| "goal_level _ = 0"

lemma complexity_advance [simp]: "ps_expression_complexity (advance_token s) = ps_expression_complexity s"
  by (simp add: advance_token_def split: list.split)

lemma complexity_budget:
  "consume_expression_budget s = Inr s' \<Longrightarrow>
     ps_expression_complexity s' = ps_expression_complexity s + 1 \<and> ps_expression_complexity s < kMaxExpressionComplexity"
  by (auto simp: consume_expression_budget_def split: if_splits)

lemma extends_complexity: "extends s s' \<Longrightarrow> ps_expression_complexity s \<le> ps_expression_complexity s'"
  by (simp add: extends_def)

termination parse_goal
proof (relation "measures [\<lambda>(_, _, s). kMaxExpressionComplexity - ps_expression_complexity s, \<lambda>(_, goal, _). goal_level goal]",
    goal_cases)
qed (auto dest!: complexity_budget parse_goal_extends_dom extends_complexity)

declare parse_goal.simps [simp del]

definition parse_expression :: "(string \<Rightarrow> u64 option) \<Rightarrow> ParserState \<Rightarrow> AstExpr parsed" where
  "parse_expression from_chars s = parse_goal from_chars GoalOr s"

lemma parse_goal_extends: "parse_goal from_chars goal s = Inr (e, s') \<Longrightarrow> extends s s'"
proof (rule parse_goal_extends_dom)
  show "parse_goal_dom (from_chars, goal, s)"
    by (induction from_chars goal s rule: parse_goal.induct) (blast intro: parse_goal.domintros)+
qed

lemma parse_expression_extends: "parse_expression from_chars s = Inr (e, s') \<Longrightarrow> extends s s'"
  using parse_goal_extends by (simp add: parse_expression_def)

lemma extends_length: "extends s s' \<Longrightarrow> length (ps_tokens s') \<le> length (ps_tokens s)"
  by (auto simp: extends_def)

lemma check_shorter:
  "check kind s \<Longrightarrow> kind \<noteq> TkEnd \<Longrightarrow> length (ps_tokens (advance_token s)) < length (ps_tokens s)"
  by (auto simp: check_def peek_token_def advance_token_def fallback_end_def split: list.splits)

lemma require_shorter:
  "require kind error s = Inr s' \<Longrightarrow> kind \<noteq> TkEnd \<Longrightarrow> length (ps_tokens s') < length (ps_tokens s)"
  by (auto simp: require_def match_token_def check_shorter split: if_splits)

subsection \<open>CREATE TABLE\<close>

definition quoted :: "string \<Rightarrow> string" where
  "quoted message = [CHR 0x27] @ message @ [CHR 0x27]"

definition end_of_statement :: "(ParserState \<Rightarrow> CompileError) \<Rightarrow> StatementAst \<Rightarrow> ParserState \<Rightarrow> (CompileError, StatementAst) result" where
  "end_of_statement error ast s =
     bind_result (require TkSemicolon error s) (\<lambda>s'.
       if \<not> check TkEnd s' then Inl (syntax_error (''expected end of statement after '' @ quoted '';'') s') else Inr ast)"

fun column_type_of :: "TokenKind \<Rightarrow> Type option" where
  "column_type_of TkInt = Some kInt"
| "column_type_of TkBigInt = Some kBigInt"
| "column_type_of TkDouble = Some kDouble"
| "column_type_of TkBoolean = Some kBoolean"
| "column_type_of TkVarchar = Some kVarchar"
| "column_type_of _ = None"

definition parse_nullability :: "ParserState \<Rightarrow> bool parsed" where
  "parse_nullability s =
     (if check TkNull s then Inr (True, advance_token s)
      else if check TkNot s then
        bind_result (require TkNull (keyword_error ''expected NULL after NOT in column definition'' [(''null'', ''NULL'')]) (advance_token s))
          (\<lambda>s1. Inr (False, s1))
      else Inr (True, s))"

definition parse_column_def :: "ParserState \<Rightarrow> AstColumnDef parsed" where
  "parse_column_def s =
     bind_result (take_identifier ''expected column identifier'' s) (\<lambda>(column, s1).
       case column_type_of (tk_kind (peek_token s1)) of
         None \<Rightarrow> Inl (syntax_error ''expected INT, BIGINT, DOUBLE, BOOLEAN, or VARCHAR after column identifier'' s1)
       | Some column_type \<Rightarrow>
           bind_result (parse_nullability (advance_token s1)) (\<lambda>(nullable, s2).
             Inr (\<lparr>acd_name = tk_lexeme column, acd_type = column_type, acd_nullable = nullable, acd_source = tk_source column\<rparr>, s2)))"

lemma take_identifier_extends: "take_identifier message s = Inr (x, s') \<Longrightarrow> extends s s'"
  by (auto simp: take_identifier_def extends_advance split: if_splits)

lemma parse_nullability_extends: "parse_nullability s = Inr (x, s') \<Longrightarrow> extends s s'"
  by (auto simp: parse_nullability_def bind_result_Inr_iff split: if_splits
      dest!: extends_require intro: extends_advance extends_trans)

lemma parse_column_def_extends: "parse_column_def s = Inr (column, s') \<Longrightarrow> extends s s'"
  by (auto simp: parse_column_def_def bind_result_Inr_iff split: option.splits
      dest!: take_identifier_extends parse_nullability_extends intro: extends_past)

function parse_column_defs :: "AstColumnDef list \<Rightarrow> ParserState \<Rightarrow> AstColumnDef list parsed" where
  "parse_column_defs columns s =
     bind_result (parse_column_def s) (\<lambda>(column, s1).
       if check TkComma s1 then parse_column_defs (columns @ [column]) (advance_token s1)
       else if check TkIdentifier s1 then Inl (insertion_error (''expected '' @ quoted '')'' @ '' after column definitions'') '','' s1)
       else Inr (columns @ [column], s1))"
  by pat_completeness auto
termination
  by (relation "measure (\<lambda>(_, s). length (ps_tokens s))")
    (auto dest!: parse_column_def_extends extends_length check_shorter)

declare parse_column_defs.simps [simp del]

definition parse_create_table :: "ParserState \<Rightarrow> (CompileError, StatementAst) result" where
  "parse_create_table s =
     bind_result (require TkTable (keyword_error ''expected TABLE after CREATE'' [(''table'', ''TABLE'')]) s) (\<lambda>s1.
     bind_result (take_identifier ''expected table identifier'' s1) (\<lambda>(table, s2).
     bind_result (require TkLeftParen (syntax_error (''expected '' @ quoted ''('' @ '' after table identifier'')) s2) (\<lambda>s3.
     bind_result (parse_column_defs [] s3) (\<lambda>(columns, s4).
     bind_result (require TkRightParen (right_parenthesis_error (''expected '' @ quoted '')'' @ '' after column definitions'')) s4) (\<lambda>s5.
       end_of_statement (semicolon_error (''expected '' @ quoted '';'' @ '' after CREATE TABLE statement''))
         (StCreateTable \<lparr>cta_table_name = tk_lexeme table, cta_table_source = tk_source table, cta_columns = columns\<rparr>) s5)))))"

subsection \<open>INSERT\<close>

function parse_insert_columns :: "AstInsertColumn list \<Rightarrow> ParserState \<Rightarrow> AstInsertColumn list parsed" where
  "parse_insert_columns columns s =
     bind_result (take_identifier ''expected column identifier'' s) (\<lambda>(column, s1).
       if check TkComma s1
       then parse_insert_columns (columns @ [\<lparr>aic_name = tk_lexeme column, aic_source = tk_source column\<rparr>]) (advance_token s1)
       else Inr (columns @ [\<lparr>aic_name = tk_lexeme column, aic_source = tk_source column\<rparr>], s1))"
  by pat_completeness auto
termination
  by (relation "measure (\<lambda>(_, s). length (ps_tokens s))")
    (auto dest!: take_identifier_extends extends_length check_shorter)

declare parse_insert_columns.simps [simp del]

definition parse_column_list :: "ParserState \<Rightarrow> AstInsertColumn list parsed" where
  "parse_column_list s =
     (if check TkLeftParen s then
        bind_result (parse_insert_columns [] (advance_token s)) (\<lambda>(columns, s1).
        bind_result (require TkRightParen (right_parenthesis_error (''expected '' @ quoted '')'' @ '' after column list'')) s1) (\<lambda>s2.
          Inr (columns, s2)))
      else Inr ([], s))"

definition parse_row_literal :: "(string \<Rightarrow> u64 option) \<Rightarrow> ParserState \<Rightarrow> AstLiteral parsed" where
  "parse_row_literal from_chars s =
     (let literal = peek_token s;
          accept = (\<lambda>value. Inr (\<lparr>al_value = value, al_source = tk_source literal\<rparr>, advance_token s))
      in if tk_kind literal = TkIntegerLiteral then
           (case parse_integer_literal (tk_lexeme literal) of
              None \<Rightarrow> Inl (syntax_error ''invalid integer literal'' s) | Some value \<Rightarrow> accept value)
         else if tk_kind literal = TkDoubleLiteral then
           (case parse_double_literal from_chars (tk_lexeme literal) of
              None \<Rightarrow> Inl (syntax_error ''invalid floating literal'' s) | Some value \<Rightarrow> accept value)
         else if tk_kind literal = TkStringLiteral then accept (VText (tk_lexeme literal))
         else if tk_kind literal = TkTrue \<or> tk_kind literal = TkFalse then accept (VBool (tk_kind literal = TkTrue))
         else if tk_kind literal = TkNull then accept VNull
         else Inl (syntax_error ''expected integer, floating, BOOLEAN, NULL, or string literal'' s))"

lemma parse_row_literal_extends: "parse_row_literal from_chars s = Inr (x, s') \<Longrightarrow> extends s s'"
  by (auto simp: parse_row_literal_def Let_def extends_advance split: if_splits option.splits)

function parse_row :: "(string \<Rightarrow> u64 option) \<Rightarrow> AstLiteral list \<Rightarrow> ParserState \<Rightarrow> AstLiteral list parsed" where
  "parse_row from_chars row s =
     bind_result (parse_row_literal from_chars s) (\<lambda>(literal, s1).
       if check TkComma s1 then parse_row from_chars (row @ [literal]) (advance_token s1)
       else if starts_literal (tk_kind (peek_token s1)) then Inl (insertion_error (''expected '' @ quoted '')'' @ '' after VALUES row'') '','' s1)
       else Inr (row @ [literal], s1))"
  by pat_completeness auto
termination
  by (relation "measure (\<lambda>(_, _, s). length (ps_tokens s))")
    (auto dest!: parse_row_literal_extends extends_length check_shorter)

declare parse_row.simps [simp del]

lemma parse_row_extends: "parse_row from_chars row s = Inr (x, s') \<Longrightarrow> extends s s'"
proof (induction from_chars row s rule: parse_row.induct)
  case (1 from_chars row s)
  obtain l s1 where l: "parse_row_literal from_chars s = Inr (l, s1)"
    using "1.prems" by (auto simp: parse_row.simps [of from_chars row s] bind_result_Inr_iff)
  note e = parse_row_literal_extends [OF l]
  show ?case
  proof (cases "check TkComma s1")
    case True
    then show ?thesis using "1.IH" [OF l refl True] "1.prems" l extends_past [OF e]
      by (simp add: parse_row.simps [of from_chars row s])
  next
    case False
    then show ?thesis using "1.prems" l e by (simp add: parse_row.simps [of from_chars row s] split: if_splits)
  qed
qed

function parse_rows :: "(string \<Rightarrow> u64 option) \<Rightarrow> AstLiteral list list \<Rightarrow> ParserState \<Rightarrow> AstLiteral list list parsed" where
  "parse_rows from_chars rows s =
     bind_result (require TkLeftParen (syntax_error (''expected '' @ quoted ''('' @ '' before VALUES row'')) s) (\<lambda>s1.
     bind_result (parse_row from_chars [] s1) (\<lambda>(row, s2).
     bind_result (require TkRightParen (right_parenthesis_error (''expected '' @ quoted '')'' @ '' after VALUES row'')) s2) (\<lambda>s3.
       if check TkComma s3 then parse_rows from_chars (rows @ [row]) (advance_token s3) else Inr (rows @ [row], s3))))"
  by pat_completeness auto
termination
  by (relation "measure (\<lambda>(_, _, s). length (ps_tokens s))")
    (auto dest!: parse_row_extends extends_require extends_length check_shorter)

declare parse_rows.simps [simp del]

definition parse_insert :: "(string \<Rightarrow> u64 option) \<Rightarrow> ParserState \<Rightarrow> (CompileError, StatementAst) result" where
  "parse_insert from_chars s =
     bind_result (require TkInto (keyword_error ''expected INTO after INSERT'' [(''into'', ''INTO'')]) s) (\<lambda>s1.
     bind_result (take_identifier ''expected table identifier'' s1) (\<lambda>(table, s2).
     bind_result (parse_column_list s2) (\<lambda>(columns, s3).
     bind_result (require TkValues (keyword_error ''expected VALUES after table or column list'' [(''values'', ''VALUES'')]) s3) (\<lambda>s4.
     bind_result (parse_rows from_chars [] s4) (\<lambda>(rows, s5).
       end_of_statement (semicolon_error (''expected '' @ quoted '';'' @ '' after INSERT statement''))
         (StInsert \<lparr>ia_table_name = tk_lexeme table, ia_table_source = tk_source table, ia_columns = columns, ia_rows = rows\<rparr>) s5)))))"

subsection \<open>SELECT\<close>

fun aggregate_kind_of :: "TokenKind \<Rightarrow> AstAggregateKind option" where
  "aggregate_kind_of TkCount = Some AstCount"
| "aggregate_kind_of TkSum = Some AstSum"
| "aggregate_kind_of TkAvg = Some AstAvg"
| "aggregate_kind_of TkMin = Some AstMin"
| "aggregate_kind_of TkMax = Some AstMax"
| "aggregate_kind_of _ = None"

definition select_column :: "AstIdentifierExpr \<Rightarrow> AstSelectColumn" where
  "select_column column = \<lparr>asc_qualifier = ai_qualifier column, asc_name = ai_name column, asc_source = ai_source column\<rparr>"

definition parse_aggregate_argument :: "AstAggregateKind \<Rightarrow> ParserState \<Rightarrow> AstSelectColumn option parsed" where
  "parse_aggregate_argument kind s =
     (if check TkStar s then
        (if kind \<noteq> AstCount then Inl (syntax_error (''only COUNT accepts '' @ quoted ''*'' @ '' as an argument'') (advance_token s))
         else Inr (None, advance_token s))
      else bind_result (parse_column_reference ''expected aggregate column argument'' s) (\<lambda>(column, s1).
        Inr (Some (select_column column), s1)))"

definition parse_select_item :: "bool \<Rightarrow> ParserState \<Rightarrow> AstSelectItem parsed" where
  "parse_select_item first_item s =
     (case aggregate_kind_of (tk_kind (peek_token s)) of
        Some kind \<Rightarrow>
          bind_result (require TkLeftParen (syntax_error (''expected '' @ quoted ''('' @ '' after aggregate function'')) (advance_token s)) (\<lambda>s1.
          bind_result (parse_aggregate_argument kind s1) (\<lambda>(argument, s2).
          bind_result (require TkRightParen (right_parenthesis_error (''expected '' @ quoted '')'' @ '' after aggregate argument'')) s2) (\<lambda>s3.
            Inr (AstAggregateItem \<lparr>aac_kind = kind, aac_argument = argument, aac_source = tk_source (peek_token s)\<rparr>, s3))))
      | None \<Rightarrow>
          bind_result (parse_column_reference
            (if first_item then ''expected SELECT column or '' @ quoted ''*''
             else ''expected column identifier or aggregate after '' @ quoted '','') s) (\<lambda>(column, s1).
            Inr (AstColumnItem (select_column column), s1)))"

lemma parse_aggregate_argument_extends: "parse_aggregate_argument kind s = Inr (x, s') \<Longrightarrow> extends s s'"
  by (auto simp: parse_aggregate_argument_def bind_result_Inr_iff split: if_splits
      dest!: extends_column_reference intro: extends_advance)

lemma parse_select_item_extends: "parse_select_item first_item s = Inr (x, s') \<Longrightarrow> extends s s'"
  by (auto simp: parse_select_item_def bind_result_Inr_iff split: option.splits
      dest!: extends_column_reference extends_require parse_aggregate_argument_extends
      intro: extends_past [OF extends_refl] extends_trans)

function parse_select_items :: "bool \<Rightarrow> AstSelectItem list \<Rightarrow> ParserState \<Rightarrow> AstSelectItem list parsed" where
  "parse_select_items first_item items s =
     bind_result (parse_select_item first_item s) (\<lambda>(item, s1).
       if check TkComma s1 then parse_select_items False (items @ [item]) (advance_token s1) else Inr (items @ [item], s1))"
  by pat_completeness auto
termination
  by (relation "measure (\<lambda>(_, _, s). length (ps_tokens s))")
    (auto dest!: parse_select_item_extends extends_length check_shorter)

declare parse_select_items.simps [simp del]

definition parse_select_list :: "ParserState \<Rightarrow> (bool \<times> AstSelectItem list) parsed" where
  "parse_select_list s =
     (if check TkStar s then Inr ((True, []), advance_token s)
      else bind_result (parse_select_items True [] s) (\<lambda>(items, s1). Inr ((False, items), s1)))"

definition from_error :: "ParserState \<Rightarrow> CompileError" where
  "from_error s =
     (if check TkIdentifier s \<and> tk_lexeme (peek_token s) = ''as'' then syntax_error ''SELECT aliases are not supported'' s
      else if check TkIdentifier s \<and> tk_kind (peek_next s) = TkFrom then insertion_error ''expected FROM after SELECT list'' '','' s
      else keyword_error ''expected FROM after SELECT list'' [(''from'', ''FROM'')] s)"

definition reject_table_alias :: "ParserState \<Rightarrow> CompileError option" where
  "reject_table_alias s =
     (if \<not> check TkIdentifier s then None
      else if tk_lexeme (peek_token s) = ''as'' then
        Some (if check TkIdentifier (advance_token s) then syntax_error ''table aliases are not supported'' (advance_token s)
              else syntax_error ''expected table alias after AS'' (advance_token s))
      else if tk_kind (peek_next s) \<in> {TkSemicolon, TkJoin, TkInner, TkOn, TkWhere, TkGroup, TkOrder}
      then Some (syntax_error ''table aliases are not supported'' s)
      else None)"

text \<open>A table name behind FROM or JOIN, and no alias behind it.\<close>

definition take_table :: "string \<Rightarrow> ParserState \<Rightarrow> Token parsed" where
  "take_table message s =
     bind_result (take_identifier message s) (\<lambda>(table, s1).
       case reject_table_alias s1 of Some e \<Rightarrow> Inl e | None \<Rightarrow> Inr (table, s1))"

definition join_keywords :: "ParserState \<Rightarrow> (CompileError, ParserState) result" where
  "join_keywords s =
     (if check TkInner s then
        bind_result (require TkJoin (keyword_error ''expected JOIN after INNER'' [(''join'', ''JOIN'')]) (advance_token s)) (\<lambda>s1.
          Inr (if check TkJoin s1 then advance_token s1 else s1))
      else Inr (if check TkJoin s then advance_token s else s))"

definition parse_join :: "(string \<Rightarrow> u64 option) \<Rightarrow> ParserState \<Rightarrow> AstJoin parsed" where
  "parse_join from_chars s =
     bind_result (join_keywords s) (\<lambda>s1.
     bind_result (take_table ''expected table identifier after JOIN'' s1) (\<lambda>(table, s2).
     bind_result (require TkOn (keyword_error ''expected ON after joined table'' [(''on'', ''ON'')]) s2) (\<lambda>s3.
     bind_result (parse_expression from_chars s3) (\<lambda>(condition, s4).
       Inr (\<lparr>aj_table_name = tk_lexeme table, aj_table_source = tk_source table, aj_condition = condition\<rparr>, s4)))))"

lemma take_table_extends: "take_table message s = Inr (x, s') \<Longrightarrow> extends s s'"
  by (auto simp: take_table_def bind_result_Inr_iff split: option.splits dest!: take_identifier_extends)

lemma join_keywords_extends: "join_keywords s = Inr s' \<Longrightarrow> extends s s'"
  by (auto simp: join_keywords_def bind_result_Inr_iff split: if_splits dest!: extends_require
      intro: extends_advance extends_past [OF extends_refl] extends_trans)

lemma parse_join_extends_shorter:
  assumes "parse_join from_chars s = Inr (x, s')"
  shows "extends s s' \<and> length (ps_tokens s') < length (ps_tokens s)"
proof -
  obtain s1 table s2 error s3 condition where c: "join_keywords s = Inr s1" "take_table ''expected table identifier after JOIN'' s1 = Inr (table, s2)"
    "require TkOn error s2 = Inr s3" "parse_expression from_chars s3 = Inr (condition, s')"
    using assms by (auto simp: parse_join_def bind_result_Inr_iff)
  note e = join_keywords_extends [OF c(1)] take_table_extends [OF c(2)] extends_require [OF c(3)] parse_expression_extends [OF c(4)]
  have "length (ps_tokens s3) < length (ps_tokens s2)" using require_shorter [OF c(3)] by simp
  then show ?thesis using e extends_trans extends_length by (meson le_less_trans less_le_trans)
qed

function parse_joins :: "(string \<Rightarrow> u64 option) \<Rightarrow> AstJoin list \<Rightarrow> ParserState \<Rightarrow> AstJoin list parsed" where
  "parse_joins from_chars joins s =
     (if check TkJoin s \<or> check TkInner s
      then bind_result (parse_join from_chars s) (\<lambda>(join, s1). parse_joins from_chars (joins @ [join]) s1)
      else Inr (joins, s))"
  by pat_completeness auto
termination
  by (relation "measure (\<lambda>(_, _, s). length (ps_tokens s))") (auto dest!: parse_join_extends_shorter)

declare parse_joins.simps [simp del]

definition parse_where :: "(string \<Rightarrow> u64 option) \<Rightarrow> ParserState \<Rightarrow> AstExpr option parsed" where
  "parse_where from_chars s =
     (if check TkWhere s
      then bind_result (parse_expression from_chars (advance_token s)) (\<lambda>(predicate, s1). Inr (Some predicate, s1))
      else Inr (None, s))"

function parse_group_keys :: "AstSelectColumn list \<Rightarrow> ParserState \<Rightarrow> AstSelectColumn list parsed" where
  "parse_group_keys group_by s =
     bind_result (parse_column_reference ''expected column identifier in GROUP BY'' s) (\<lambda>(column, s1).
       if check TkComma s1 then parse_group_keys (group_by @ [select_column column]) (advance_token s1)
       else if check TkIdentifier s1 then Inl (insertion_error (''expected '' @ quoted '';'' @ '' after SELECT statement'') '','' s1)
       else Inr (group_by @ [select_column column], s1))"
  by pat_completeness auto
termination
  by (relation "measure (\<lambda>(_, s). length (ps_tokens s))")
    (auto dest!: extends_column_reference extends_length check_shorter)

declare parse_group_keys.simps [simp del]

definition parse_group_by :: "ParserState \<Rightarrow> AstSelectColumn list parsed" where
  "parse_group_by s =
     (if check TkGroup s
      then bind_result (require TkBy (keyword_error ''expected BY after GROUP'' [(''by'', ''BY'')]) (advance_token s)) (parse_group_keys [])
      else Inr ([], s))"

definition parse_direction :: "ParserState \<Rightarrow> AstSortDirection \<times> ParserState" where
  "parse_direction s =
     (if check TkAsc s then (AstAsc, advance_token s) else if check TkDesc s then (AstDesc, advance_token s) else (AstAsc, s))"

definition parse_sort_key :: "ParserState \<Rightarrow> AstSortKey parsed" where
  "parse_sort_key s =
     bind_result (parse_column_reference ''expected column identifier in ORDER BY'' s) (\<lambda>(column, s1).
       case parse_direction s1 of (direction, s2) \<Rightarrow>
         Inr (\<lparr>ask_qualifier = ai_qualifier column, ask_column_name = ai_name column, ask_source = ai_source column,
               ask_direction = direction\<rparr>, s2))"

lemma parse_direction_extends: "extends s (snd (parse_direction s))"
  by (simp add: parse_direction_def extends_advance)

lemma parse_sort_key_extends: "parse_sort_key s = Inr (x, s') \<Longrightarrow> extends s s'"
  by (auto simp: parse_sort_key_def bind_result_Inr_iff case_prod_beta
      dest!: extends_column_reference intro: extends_trans [OF _ parse_direction_extends])

function parse_sort_keys :: "AstSortKey list \<Rightarrow> ParserState \<Rightarrow> AstSortKey list parsed" where
  "parse_sort_keys order_by s =
     bind_result (parse_sort_key s) (\<lambda>(key, s1).
       if check TkComma s1 then parse_sort_keys (order_by @ [key]) (advance_token s1)
       else if check TkIdentifier s1 then Inl (insertion_error (''expected '' @ quoted '';'' @ '' after SELECT statement'') '','' s1)
       else Inr (order_by @ [key], s1))"
  by pat_completeness auto
termination
  by (relation "measure (\<lambda>(_, s). length (ps_tokens s))")
    (auto dest!: parse_sort_key_extends extends_length check_shorter)

declare parse_sort_keys.simps [simp del]

definition parse_order_by :: "ParserState \<Rightarrow> AstSortKey list parsed" where
  "parse_order_by s =
     (if check TkOrder s
      then bind_result (require TkBy (keyword_error ''expected BY after ORDER'' [(''by'', ''BY'')]) (advance_token s)) (parse_sort_keys [])
      else Inr ([], s))"

definition select_end_error :: "ParserState \<Rightarrow> CompileError" where
  "select_end_error s =
     (let message = ''expected '' @ quoted '';'' @ '' after SELECT statement'';
          keyword = keyword_error message [(''join'', ''JOIN''), (''inner'', ''INNER''), (''where'', ''WHERE''), (''group'', ''GROUP''), (''order'', ''ORDER'')] s
      in if check TkIdentifier s \<and> ce_suggestion keyword \<noteq> None then keyword else semicolon_error message s)"

definition parse_select :: "(string \<Rightarrow> u64 option) \<Rightarrow> ParserState \<Rightarrow> (CompileError, StatementAst) result" where
  "parse_select from_chars s =
     bind_result (parse_select_list s) (\<lambda>((select_all, items), s1).
     bind_result (require TkFrom from_error s1) (\<lambda>s2.
     bind_result (take_table ''expected table identifier after FROM'' s2) (\<lambda>(table, s3).
     bind_result (parse_joins from_chars [] s3) (\<lambda>(joins, s4).
     bind_result (parse_where from_chars s4) (\<lambda>(predicate, s5).
     bind_result (parse_group_by s5) (\<lambda>(group_by, s6).
     bind_result (parse_order_by s6) (\<lambda>(order_by, s7).
       end_of_statement select_end_error
         (StSelect \<lparr>sa_table_name = tk_lexeme table, sa_table_source = tk_source table, sa_joins = joins, sa_select_all = select_all,
            sa_items = items, sa_predicate = predicate, sa_group_by = group_by, sa_order_by = order_by\<rparr>) s7)))))))"

subsection \<open>DELETE and UPDATE\<close>

definition parse_delete :: "(string \<Rightarrow> u64 option) \<Rightarrow> ParserState \<Rightarrow> (CompileError, StatementAst) result" where
  "parse_delete from_chars s =
     bind_result (require TkFrom (keyword_error ''expected FROM after DELETE'' [(''from'', ''FROM'')]) s) (\<lambda>s1.
     bind_result (take_identifier ''expected table identifier after FROM'' s1) (\<lambda>(table, s2).
     bind_result (parse_where from_chars s2) (\<lambda>(predicate, s3).
       end_of_statement (semicolon_error (''expected '' @ quoted '';'' @ '' after DELETE statement''))
         (StDelete \<lparr>da_table_name = tk_lexeme table, da_table_source = tk_source table, da_predicate = predicate\<rparr>) s3)))"

definition assigned_value :: "(string \<Rightarrow> u64 option) \<Rightarrow> Token \<Rightarrow> Value option" where
  "assigned_value from_chars token =
     (if tk_kind token = TkIntegerLiteral then parse_integer_literal (tk_lexeme token)
      else if tk_kind token = TkDoubleLiteral then parse_double_literal from_chars (tk_lexeme token)
      else if tk_kind token = TkStringLiteral then Some (VText (tk_lexeme token))
      else if tk_kind token = TkTrue \<or> tk_kind token = TkFalse then Some (VBool (tk_kind token = TkTrue))
      else if tk_kind token = TkNull then Some VNull
      else None)"

definition parse_assignment :: "(string \<Rightarrow> u64 option) \<Rightarrow> ParserState \<Rightarrow> AstUpdateAssignment parsed" where
  "parse_assignment from_chars s =
     bind_result (take_identifier ''expected column identifier in SET clause'' s) (\<lambda>(column, s1).
     bind_result (require TkEq (syntax_error (''expected '' @ quoted ''='' @ '' after SET column'')) s1) (\<lambda>s2.
       case assigned_value from_chars (peek_token s2) of
         None \<Rightarrow> Inl (syntax_error (''expected integer, floating, BOOLEAN, NULL, or string literal after '' @ quoted ''='') s2)
       | Some value \<Rightarrow>
           Inr (\<lparr>aua_column_name = tk_lexeme column, aua_column_source = tk_source column,
                 aua_literal = \<lparr>al_value = value, al_source = tk_source (peek_token s2)\<rparr>\<rparr>, advance_token s2)))"

lemma parse_assignment_extends: "parse_assignment from_chars s = Inr (x, s') \<Longrightarrow> extends s s'"
  by (auto simp: parse_assignment_def bind_result_Inr_iff split: option.splits
      dest!: take_identifier_extends extends_require intro: extends_trans [OF extends_trans [OF _ _] extends_advance])

function parse_assignments :: "(string \<Rightarrow> u64 option) \<Rightarrow> AstUpdateAssignment list \<Rightarrow> ParserState \<Rightarrow> AstUpdateAssignment list parsed" where
  "parse_assignments from_chars assignments s =
     bind_result (parse_assignment from_chars s) (\<lambda>(assignment, s1).
       if check TkComma s1 then parse_assignments from_chars (assignments @ [assignment]) (advance_token s1)
       else if check TkIdentifier s1 then Inl (insertion_error (''expected '' @ quoted '';'' @ '' after UPDATE statement'') '','' s1)
       else Inr (assignments @ [assignment], s1))"
  by pat_completeness auto
termination
  by (relation "measure (\<lambda>(_, _, s). length (ps_tokens s))")
    (auto dest!: parse_assignment_extends extends_length check_shorter)

declare parse_assignments.simps [simp del]

definition parse_update :: "(string \<Rightarrow> u64 option) \<Rightarrow> ParserState \<Rightarrow> (CompileError, StatementAst) result" where
  "parse_update from_chars s =
     bind_result (take_identifier ''expected table identifier after UPDATE'' s) (\<lambda>(table, s1).
     bind_result (require TkSet (keyword_error ''expected SET after table identifier'' [(''set'', ''SET'')]) s1) (\<lambda>s2.
     bind_result (parse_assignments from_chars [] s2) (\<lambda>(assignments, s3).
     bind_result (parse_where from_chars s3) (\<lambda>(predicate, s4).
       end_of_statement (semicolon_error (''expected '' @ quoted '';'' @ '' after UPDATE statement''))
         (StUpdate \<lparr>upa_table_name = tk_lexeme table, upa_table_source = tk_source table, upa_assignments = assignments,
            upa_predicate = predicate\<rparr>) s4))))"

subsection \<open>Statements\<close>

definition initial_parser :: "Token list \<Rightarrow> ParserState" where
  "initial_parser tokens = \<lparr>ps_tokens = tokens, ps_fallback_end = fallback_location tokens, ps_expression_complexity = 0\<rparr>"

definition run_parser :: "(string \<Rightarrow> u64 option) \<Rightarrow> ParserState \<Rightarrow> (CompileError, StatementAst) result" where
  "run_parser from_chars s =
     (if check TkCreate s then parse_create_table (advance_token s)
      else if check TkInsert s then parse_insert from_chars (advance_token s)
      else if check TkSelect s then parse_select from_chars (advance_token s)
      else if check TkDelete s then parse_delete from_chars (advance_token s)
      else if check TkUpdate s then parse_update from_chars (advance_token s)
      else Inl (keyword_error ''expected CREATE, INSERT, SELECT, DELETE, or UPDATE''
        [(''create'', ''CREATE''), (''insert'', ''INSERT''), (''select'', ''SELECT''), (''delete'', ''DELETE''), (''update'', ''UPDATE'')] s))"

definition parse :: "(string \<Rightarrow> u64 option) \<Rightarrow> Token list \<Rightarrow> (CompileError, StatementAst) result" where
  "parse from_chars tokens = run_parser from_chars (initial_parser tokens)"

end
