(* ===== verification/Expression_Grammar.thy ===== *)
theory Expression_Grammar
  imports Parser
begin

text \<open>
  The grammar of SQL expressions, with its precedences and associativities, as an inductive relation between
  tokens and syntax trees, and the proof that the recursive descent parser implements it: what it returns is derivable, and
  every derivable text within the complexity budget is parsed to its tree.
\<close>

subsection \<open>The grammar\<close>

datatype Level = OrLevel | AndLevel | NotLevel | ComparisonLevel | PrimaryLevel

text \<open>The number counts operands, operators and parentheses, as the budget does.\<close>

inductive derives :: "(string \<Rightarrow> u64 option) \<Rightarrow> Level \<Rightarrow> Token list \<Rightarrow> AstExpr \<Rightarrow> nat \<Rightarrow> bool" for from_chars where
  d_column: "tk_kind t = TkIdentifier \<Longrightarrow>
    derives from_chars PrimaryLevel [t] (AstIdentifier \<lparr>ai_qualifier = None, ai_name = tk_lexeme t, ai_source = tk_source t\<rparr>) 1"
| d_qualified: "tk_kind q = TkIdentifier \<Longrightarrow> tk_kind d = TkDot \<Longrightarrow> tk_kind c = TkIdentifier \<Longrightarrow>
    derives from_chars PrimaryLevel [q, d, c]
      (AstIdentifier \<lparr>ai_qualifier = Some (tk_lexeme q), ai_name = tk_lexeme c, ai_source = tk_source q\<rparr>) 1"
| d_literal: "literal_token from_chars t = Some (Inr value) \<Longrightarrow>
    derives from_chars PrimaryLevel [t] (AstLiteralExpr value (tk_source t)) 1"
| d_parentheses: "tk_kind l = TkLeftParen \<Longrightarrow> derives from_chars OrLevel ts e n \<Longrightarrow> tk_kind r = TkRightParen \<Longrightarrow>
    derives from_chars PrimaryLevel (l # ts @ [r]) e (n + 1)"
| d_primary: "derives from_chars PrimaryLevel ts e n \<Longrightarrow> derives from_chars ComparisonLevel ts e n"
| d_compare: "derives from_chars PrimaryLevel ts lhs n \<Longrightarrow> comparison_operator (tk_kind t) = Some op \<Longrightarrow>
    derives from_chars PrimaryLevel us rhs m \<Longrightarrow>
    derives from_chars ComparisonLevel (ts @ t # us) (AstBinary (AstCompare op) (tk_source t) lhs rhs) (n + m + 1)"
| d_is_null: "derives from_chars PrimaryLevel ts e n \<Longrightarrow> tk_kind t = TkIs \<Longrightarrow> tk_kind u = TkNull \<Longrightarrow>
    derives from_chars ComparisonLevel (ts @ [t, u]) (AstNullTest AstIsNull (tk_source t) e) (n + 1)"
| d_is_not_null: "derives from_chars PrimaryLevel ts e n \<Longrightarrow> tk_kind t = TkIs \<Longrightarrow> tk_kind v = TkNot \<Longrightarrow> tk_kind u = TkNull \<Longrightarrow>
    derives from_chars ComparisonLevel (ts @ [t, v, u]) (AstNullTest AstIsNotNull (tk_source t) e) (n + 1)"
| d_comparison: "derives from_chars ComparisonLevel ts e n \<Longrightarrow> derives from_chars NotLevel ts e n"
| d_not: "tk_kind t = TkNot \<Longrightarrow> derives from_chars NotLevel ts e n \<Longrightarrow>
    derives from_chars NotLevel (t # ts) (AstUnary (tk_source t) e) (n + 1)"
| d_operand: "derives from_chars NotLevel ts e n \<Longrightarrow> derives from_chars AndLevel ts e n"
| d_and: "derives from_chars AndLevel ts lhs n \<Longrightarrow> tk_kind t = TkAnd \<Longrightarrow> derives from_chars NotLevel us rhs m \<Longrightarrow>
    derives from_chars AndLevel (ts @ t # us) (AstBinary (AstLogic AstAnd) (tk_source t) lhs rhs) (n + m + 1)"
| d_conjunction: "derives from_chars AndLevel ts e n \<Longrightarrow> derives from_chars OrLevel ts e n"
| d_or: "derives from_chars OrLevel ts lhs n \<Longrightarrow> tk_kind t = TkOr \<Longrightarrow> derives from_chars AndLevel us rhs m \<Longrightarrow>
    derives from_chars OrLevel (ts @ t # us) (AstBinary (AstLogic AstOr) (tk_source t) lhs rhs) (n + m + 1)"

text \<open>The nodes of a tree: what the complexity budget bounds.\<close>

fun expr_nodes :: "AstExpr \<Rightarrow> nat" where
  "expr_nodes (AstIdentifier _) = 1"
| "expr_nodes (AstLiteralExpr _ _) = 1"
| "expr_nodes (AstBinary _ _ lhs rhs) = expr_nodes lhs + expr_nodes rhs + 1"
| "expr_nodes (AstUnary _ e) = expr_nodes e + 1"
| "expr_nodes (AstNullTest _ _ e) = expr_nodes e + 1"

lemma derives_nodes: "derives from_chars level ts e n \<Longrightarrow> expr_nodes e \<le> n"
  by (induction rule: derives.induct) auto

subsection \<open>Reading tokens\<close>

text \<open>A state with the tokens \<open>ts\<close> in front and the budget \<open>n\<close> less spent than another.\<close>

definition ahead :: "Token list \<Rightarrow> nat \<Rightarrow> ParserState \<Rightarrow> ParserState" where
  "ahead ts n s = s\<lparr>ps_tokens := ts @ ps_tokens s, ps_expression_complexity := ps_expression_complexity s - n\<rparr>"

definition consumes :: "ParserState \<Rightarrow> Token list \<Rightarrow> nat \<Rightarrow> ParserState \<Rightarrow> bool" where
  "consumes s ts n s' \<longleftrightarrow> ps_tokens s = ts @ ps_tokens s' \<and> ps_expression_complexity s' = ps_expression_complexity s + n
     \<and> ps_fallback_end s' = ps_fallback_end s"

lemma consumes_refl [simp]: "consumes s [] 0 s"
  by (simp add: consumes_def)

lemma consumes_trans: "consumes s ts n s' \<Longrightarrow> consumes s' us m s'' \<Longrightarrow> consumes s (ts @ us) (n + m) s''"
  by (simp add: consumes_def)

lemma consumes_advance:
  "check kind s \<Longrightarrow> kind \<noteq> TkEnd \<Longrightarrow> consumes s [peek_token s] 0 (advance_token s) \<and> tk_kind (peek_token s) = kind"
  by (cases "ps_tokens s") (auto simp: check_def peek_token_def advance_token_def fallback_end_def consumes_def)

lemma consumes_token:
  "tk_kind (peek_token s) \<noteq> TkEnd \<Longrightarrow> consumes s [peek_token s] 0 (advance_token s)"
  using consumes_advance [of "tk_kind (peek_token s)" s] by (simp add: check_def)

lemma consumes_budget: "consume_expression_budget s = Inr s' \<Longrightarrow> consumes s [] 1 s' \<and> peek_token s' = peek_token s"
  by (cases "ps_tokens s") (auto simp: consume_expression_budget_def consumes_def peek_token_def fallback_end_def split: if_splits)

lemma consumes_require:
  "require kind error s = Inr s' \<Longrightarrow> kind \<noteq> TkEnd \<Longrightarrow> \<exists>t. tk_kind t = kind \<and> consumes s [t] 0 s'"
  using consumes_advance [of kind s] by (auto simp: require_def match_token_def split: if_splits)

subsection \<open>The parser returns derivable trees\<close>

lemma parse_operand_derives:
  assumes "parse_operand from_chars s = Inr (e, s')"
  shows "\<exists>ts. consumes s ts 1 s' \<and> derives from_chars PrimaryLevel ts e 1"
proof (cases "check TkIdentifier s")
  case True
  then obtain s1 column where b: "consume_expression_budget s = Inr s1"
    and c: "parse_column_reference ''expected column identifier'' s1 = Inr (column, s')" "e = AstIdentifier column"
    using assms by (auto simp: parse_operand_def bind_result_Inr_iff)
  note b' = consumes_budget [OF b]
  have i: "check TkIdentifier s1" using True b' by (simp add: check_def)
  note a = consumes_advance [OF i]
  show ?thesis
  proof (cases "check TkDot (advance_token s1)")
    case False
    then have "s' = advance_token s1" "column = \<lparr>ai_qualifier = None, ai_name = tk_lexeme (peek_token s1), ai_source = tk_source (peek_token s1)\<rparr>"
      using c(1) i by (auto simp: parse_column_reference_def Let_def match_token_def)
    then show ?thesis using consumes_trans [of s "[]" 1 s1 "[peek_token s1]" 0 s'] b' a c(2) d_column by auto
  next
    case True
    let ?s2 = "advance_token (advance_token s1)"
    have q: "check TkIdentifier ?s2" "s' = advance_token ?s2"
      "column = \<lparr>ai_qualifier = Some (tk_lexeme (peek_token s1)), ai_name = tk_lexeme (peek_token ?s2), ai_source = tk_source (peek_token s1)\<rparr>"
      using c(1) i True by (auto simp: parse_column_reference_def Let_def match_token_def split: if_splits)
    note d = consumes_advance [OF True] and f = consumes_advance [OF q(1)]
    have "consumes s [peek_token s1, peek_token (advance_token s1), peek_token ?s2] 1 s'"
      using b' a d f q(2) by (auto simp: consumes_def)
    then show ?thesis using d_qualified a d f c(2) q(3) by blast
  qed
next
  case False
  then obtain literal s1 where l: "literal_token from_chars (peek_token s) = Some literal" and b: "consume_expression_budget s = Inr s1"
    and r: "(case literal of Inl message \<Rightarrow> Inl (raise_expression_error message s1)
      | Inr value \<Rightarrow> Inr (AstLiteralExpr value (tk_source (peek_token s1)), advance_token s1)) = Inr (e, s')"
    using assms by (auto simp: parse_operand_def bind_result_Inr_iff split: option.splits)
  note b' = consumes_budget [OF b]
  obtain v where v: "literal = Inr v" "e = AstLiteralExpr v (tk_source (peek_token s))" "s' = advance_token s1"
    using r b' by (cases literal) auto
  have "tk_kind (peek_token s1) \<noteq> TkEnd" using l b' by (auto simp: literal_token_def)
  then have "consumes s [peek_token s] 1 s'" using consumes_token [of s1] b' v(3) by (auto simp: consumes_def)
  then show ?thesis using d_literal l v by blast
qed

fun goal_derives :: "(string \<Rightarrow> u64 option) \<Rightarrow> ExprGoal \<Rightarrow> Token list \<Rightarrow> AstExpr \<Rightarrow> nat \<Rightarrow> bool" where
  "goal_derives from_chars GoalOr ts e n = derives from_chars OrLevel ts e n"
| "goal_derives from_chars (GoalOrRest lhs) ts e n =
     (\<forall>us m. derives from_chars OrLevel us lhs m \<longrightarrow> derives from_chars OrLevel (us @ ts) e (m + n))"
| "goal_derives from_chars GoalAnd ts e n = derives from_chars AndLevel ts e n"
| "goal_derives from_chars (GoalAndRest lhs) ts e n =
     (\<forall>us m. derives from_chars AndLevel us lhs m \<longrightarrow> derives from_chars AndLevel (us @ ts) e (m + n))"
| "goal_derives from_chars GoalNot ts e n = derives from_chars NotLevel ts e n"
| "goal_derives from_chars GoalComparison ts e n = derives from_chars ComparisonLevel ts e n"
| "goal_derives from_chars GoalPrimary ts e n = derives from_chars PrimaryLevel ts e n"

lemma operator_token:
  assumes "consume_expression_budget s = Inr s1" "check kind s" "kind \<noteq> TkEnd"
  shows "consumes s [peek_token s] 1 (advance_token s1)" "tk_kind (peek_token s) = kind" "peek_token s1 = peek_token s"
proof -
  note b = consumes_budget [OF assms(1)]
  then have "check kind s1" using assms(2) by (simp add: check_def)
  note a = consumes_advance [OF this assms(3)]
  show "consumes s [peek_token s] 1 (advance_token s1)" "tk_kind (peek_token s) = kind" "peek_token s1 = peek_token s"
    using a b by (auto simp: consumes_def)
qed

lemma parse_goal_derives:
  "parse_goal from_chars goal s = Inr (e, s') \<Longrightarrow> \<exists>ts n. consumes s ts n s' \<and> goal_derives from_chars goal ts e n"
proof (induction from_chars goal s arbitrary: e s' rule: parse_goal.induct)
  case (1 from_chars s)
  obtain lhs s1 where c: "parse_goal from_chars GoalAnd s = Inr (lhs, s1)" "parse_goal from_chars (GoalOrRest lhs) s1 = Inr (e, s')"
    using "1.prems" by (auto simp: parse_goal.simps(1) bind_result_Inr_iff)
  obtain ts n where l: "consumes s ts n s1" "derives from_chars AndLevel ts lhs n" using "1.IH"(1) [OF c(1)] by auto
  obtain us m where r: "consumes s1 us m s'" "goal_derives from_chars (GoalOrRest lhs) us e m" using "1.IH"(2) [OF c(1) refl c(2)] by auto
  show ?case using consumes_trans [OF l(1) r(1)] r(2) d_conjunction [OF l(2)] by auto
next
  case (2 from_chars lhs s)
  show ?case
  proof (cases "check TkOr s")
    case True
    then obtain s1 rhs s2 where c: "consume_expression_budget s = Inr s1" "parse_goal from_chars GoalAnd (advance_token s1) = Inr (rhs, s2)"
      "parse_goal from_chars (GoalOrRest (AstBinary (AstLogic AstOr) (tk_source (peek_token s1)) lhs rhs)) s2 = Inr (e, s')"
      using "2.prems" by (auto simp: parse_goal.simps(2) bind_result_Inr_iff)
    note o = operator_token [OF c(1) True, simplified]
    obtain ts n where l: "consumes (advance_token s1) ts n s2" "derives from_chars AndLevel ts rhs n"
      using "2.IH"(1) True c(1,2) by fastforce
    obtain us m where r: "consumes s2 us m s'"
      "goal_derives from_chars (GoalOrRest (AstBinary (AstLogic AstOr) (tk_source (peek_token s1)) lhs rhs)) us e m"
      using "2.IH"(2) [OF _ c(1,2) refl c(3)] True by auto
    have "derives from_chars OrLevel (vs @ (peek_token s # ts) @ us) e (k + (1 + n + m))" if "derives from_chars OrLevel vs lhs k" for vs k
    proof -
      have "derives from_chars OrLevel ((vs @ peek_token s # ts) @ us) e (k + n + 1 + m)"
        using d_or [OF that o(2) l(2)] r(2) [unfolded goal_derives.simps o(3)] by blast
      then show ?thesis by (simp add: ac_simps)
    qed
    moreover have "consumes s ((peek_token s # ts) @ us) (1 + n + m) s'"
      using consumes_trans [OF consumes_trans [OF o(1) l(1)] r(1)] by simp
    ultimately show ?thesis by (metis goal_derives.simps(2))
  qed (use "2.prems" in \<open>auto simp: parse_goal.simps(2) intro!: exI [of _ "[]"] exI [of _ 0]\<close>)
next
  case (3 from_chars s)
  obtain lhs s1 where c: "parse_goal from_chars GoalNot s = Inr (lhs, s1)" "parse_goal from_chars (GoalAndRest lhs) s1 = Inr (e, s')"
    using "3.prems" by (auto simp: parse_goal.simps(3) bind_result_Inr_iff)
  obtain ts n where l: "consumes s ts n s1" "derives from_chars NotLevel ts lhs n" using "3.IH"(1) [OF c(1)] by auto
  obtain us m where r: "consumes s1 us m s'" "goal_derives from_chars (GoalAndRest lhs) us e m" using "3.IH"(2) [OF c(1) refl c(2)] by auto
  show ?case using consumes_trans [OF l(1) r(1)] r(2) d_operand [OF l(2)] by auto
next
  case (4 from_chars lhs s)
  show ?case
  proof (cases "check TkAnd s")
    case True
    then obtain s1 rhs s2 where c: "consume_expression_budget s = Inr s1" "parse_goal from_chars GoalNot (advance_token s1) = Inr (rhs, s2)"
      "parse_goal from_chars (GoalAndRest (AstBinary (AstLogic AstAnd) (tk_source (peek_token s1)) lhs rhs)) s2 = Inr (e, s')"
      using "4.prems" by (auto simp: parse_goal.simps(4) bind_result_Inr_iff)
    note o = operator_token [OF c(1) True, simplified]
    obtain ts n where l: "consumes (advance_token s1) ts n s2" "derives from_chars NotLevel ts rhs n"
      using "4.IH"(1) True c(1,2) by fastforce
    obtain us m where r: "consumes s2 us m s'"
      "goal_derives from_chars (GoalAndRest (AstBinary (AstLogic AstAnd) (tk_source (peek_token s1)) lhs rhs)) us e m"
      using "4.IH"(2) [OF _ c(1,2) refl c(3)] True by auto
    have "derives from_chars AndLevel (vs @ (peek_token s # ts) @ us) e (k + (1 + n + m))" if "derives from_chars AndLevel vs lhs k" for vs k
    proof -
      have "derives from_chars AndLevel ((vs @ peek_token s # ts) @ us) e (k + n + 1 + m)"
        using d_and [OF that o(2) l(2)] r(2) [unfolded goal_derives.simps o(3)] by blast
      then show ?thesis by (simp add: ac_simps)
    qed
    moreover have "consumes s ((peek_token s # ts) @ us) (1 + n + m) s'"
      using consumes_trans [OF consumes_trans [OF o(1) l(1)] r(1)] by simp
    ultimately show ?thesis by (metis goal_derives.simps(4))
  qed (use "4.prems" in \<open>auto simp: parse_goal.simps(4) intro!: exI [of _ "[]"] exI [of _ 0]\<close>)
next
  case (5 from_chars s)
  show ?case
  proof (cases "check TkNot s")
    case True
    then obtain s1 operand where c: "consume_expression_budget s = Inr s1" "parse_goal from_chars GoalNot (advance_token s1) = Inr (operand, s')"
      "e = AstUnary (tk_source (peek_token s1)) operand"
      using "5.prems" by (auto simp: parse_goal.simps(5) bind_result_Inr_iff)
    note o = operator_token [OF c(1) True, simplified]
    obtain ts n where l: "consumes (advance_token s1) ts n s'" "derives from_chars NotLevel ts operand n"
      using "5.IH"(2) [OF _ c(1,2)] True by auto
    show ?thesis using consumes_trans [OF o(1) l(1)] d_not [OF o(2) l(2)] c(3) o(3) by auto
  next
    case False
    then show ?thesis using "5.IH"(1) "5.prems" d_comparison by (fastforce simp: parse_goal.simps(5))
  qed
next
  case (6 from_chars s)
  obtain lhs s1 where c: "parse_goal from_chars GoalPrimary s = Inr (lhs, s1)"
    using "6.prems" by (auto simp: parse_goal.simps(6) bind_result_Inr_iff)
  obtain ts n where l: "consumes s ts n s1" "derives from_chars PrimaryLevel ts lhs n" using "6.IH"(1) [OF c(1)] by auto
  show ?case
  proof (cases "check TkIs s1")
    case True
    then obtain s2 where b: "consume_expression_budget s1 = Inr s2"
      using "6.prems" c by (auto simp: parse_goal.simps(6) bind_result_Inr_iff)
    note o = operator_token [OF b True, simplified]
    let ?s3 = "advance_token s2"
    show ?thesis
    proof (cases "check TkNot ?s3")
      case n: True
      note v = consumes_advance [OF n, simplified]
      obtain error where r: "require TkNull error (advance_token ?s3) = Inr s'"
        and e: "e = AstNullTest AstIsNotNull (tk_source (peek_token s2)) lhs"
        using "6.prems" c True b n by (auto simp: parse_goal.simps(6) bind_result_Inr_iff match_token_def)
      obtain u where u: "tk_kind u = TkNull" "consumes (advance_token ?s3) [u] 0 s'" using consumes_require [OF r] by auto
      have "consumes s (ts @ [peek_token s1, peek_token ?s3, u]) (n + 1) s'" using l(1) o(1) v u(2) by (auto simp: consumes_def)
      then show ?thesis using d_is_not_null [OF l(2) o(2), of "peek_token ?s3" u] v u(1) e o(3) by auto
    next
      case n: False
      obtain error where r: "require TkNull error ?s3 = Inr s'"
        and e: "e = AstNullTest AstIsNull (tk_source (peek_token s2)) lhs"
        using "6.prems" c True b n by (auto simp: parse_goal.simps(6) bind_result_Inr_iff match_token_def)
      obtain u where u: "tk_kind u = TkNull" "consumes ?s3 [u] 0 s'" using consumes_require [OF r] by auto
      have "consumes s (ts @ [peek_token s1, u]) (n + 1) s'" using l(1) o(1) u(2) by (auto simp: consumes_def)
      then show ?thesis using d_is_null [OF l(2) o(2), of u] u(1) e o(3) by auto
    qed
  next
    case False
    show ?thesis
    proof (cases "comparison_operator (tk_kind (peek_token s1))")
      case None
      then have "e = lhs" "s' = s1" using False c "6.prems" by (auto simp: parse_goal.simps(6))
      then show ?thesis using l(1) d_primary [OF l(2)] by auto
    next
      case (Some op)
      then obtain s2 rhs where r: "consume_expression_budget s1 = Inr s2" "parse_goal from_chars GoalPrimary (advance_token s2) = Inr (rhs, s')"
        "e = AstBinary (AstCompare op) (tk_source (peek_token s2)) lhs rhs"
        using False c "6.prems" by (auto simp: parse_goal.simps(6) bind_result_Inr_iff)
      have "check (tk_kind (peek_token s1)) s1" "tk_kind (peek_token s1) \<noteq> TkEnd" using Some by (auto simp: check_def)
      note o = operator_token [OF r(1) this]
      obtain us m where u: "consumes (advance_token s2) us m s'" "derives from_chars PrimaryLevel us rhs m"
        using "6.IH"(2) [OF c refl False Some r(1,2)] by auto
      have "consumes s (ts @ peek_token s1 # us) (n + m + 1) s'" using l(1) o(1) u(1) by (auto simp: consumes_def)
      then show ?thesis using d_compare [OF l(2) Some u(2)] r(3) o(3) by auto
    qed
  qed
next
  case (7 from_chars s)
  show ?case
  proof (cases "check TkLeftParen s")
    case True
    then obtain s1 s2 error where c: "consume_expression_budget s = Inr s1" "parse_goal from_chars GoalOr (advance_token s1) = Inr (e, s2)"
      "require TkRightParen error s2 = Inr s'"
      using "7.prems" by (auto simp: parse_goal.simps(7) bind_result_Inr_iff)
    note o = operator_token [OF c(1) True, simplified]
    obtain ts n where l: "consumes (advance_token s1) ts n s2" "derives from_chars OrLevel ts e n" using "7.IH" [OF True c(1,2)] by auto
    obtain r where r: "tk_kind r = TkRightParen" "consumes s2 [r] 0 s'" using consumes_require [OF c(3)] by auto
    have "consumes s (peek_token s # ts @ [r]) (n + 1) s'" using o(1) l(1) r(2) by (auto simp: consumes_def)
    then show ?thesis using d_parentheses [OF o(2) l(2) r(1)] by auto
  next
    case False
    then show ?thesis using "7.prems" parse_operand_derives by (fastforce simp: parse_goal.simps(7))
  qed
qed

subsection \<open>Derivable texts are parsed\<close>

text \<open>What the next token must not be, for a phrase of a level to end.\<close>

definition operator_follows :: "ParserState \<Rightarrow> bool" where
  "operator_follows s \<longleftrightarrow> check TkDot s \<or> check TkIs s \<or> comparison_operator (tk_kind (peek_token s)) \<noteq> None"

lemma peek_consumed: "consumes s (t # ts) n s' \<Longrightarrow> peek_token s = t"
  by (simp add: consumes_def peek_token_def)

lemma consumes_split:
  assumes "consumes s (ts @ us) (n + m) s'"
  obtains s1 where "consumes s ts n s1" "consumes s1 us m s'"
  using assms that [of "s\<lparr>ps_tokens := us @ ps_tokens s', ps_expression_complexity := ps_expression_complexity s + n\<rparr>"]
  by (simp add: consumes_def)

lemma consumes_state_eq: "consumes s ts n s1 \<Longrightarrow> consumes s ts n s2 \<Longrightarrow> s1 = s2"
  by (simp add: consumes_def)

lemma advance_consumed: "consumes s (t # ts) n s' \<Longrightarrow> tk_kind t \<noteq> TkEnd \<Longrightarrow> consumes (advance_token s) ts n s'"
  by (simp add: consumes_def advance_token_def)

lemma budget_consumed:
  assumes "consumes s ts (n + 1) s'" "ps_expression_complexity s' \<le> kMaxExpressionComplexity"
  obtains s1 where "consume_expression_budget s = Inr s1" "consumes s1 ts n s'" "peek_token s1 = peek_token s"
proof -
  let ?s1 = "s\<lparr>ps_expression_complexity := ps_expression_complexity s + 1\<rparr>"
  have "consume_expression_budget s = Inr ?s1" using assms by (simp add: consume_expression_budget_def consumes_def)
  moreover have "consumes ?s1 ts n s'" using assms(1) by (simp add: consumes_def)
  ultimately show ?thesis using that consumes_budget by blast
qed

lemma operator_consumed:
  assumes "consumes s (t # ts) (n + 1) s'" "ps_expression_complexity s' \<le> kMaxExpressionComplexity" "tk_kind t \<noteq> TkEnd"
  obtains s1 where "consume_expression_budget s = Inr s1" "consumes (advance_token s1) ts n s'" "peek_token s1 = t"
proof -
  obtain s1 where s1: "consume_expression_budget s = Inr s1" "consumes s1 (t # ts) n s'" "peek_token s1 = peek_token s"
    using budget_consumed [OF assms(1,2)] .
  then show ?thesis using that advance_consumed [OF s1(2) assms(3)] peek_consumed [OF assms(1)] by simp
qed

fun level_goal :: "Level \<Rightarrow> ExprGoal" where
  "level_goal OrLevel = GoalOr"
| "level_goal AndLevel = GoalAnd"
| "level_goal NotLevel = GoalNot"
| "level_goal ComparisonLevel = GoalComparison"
| "level_goal PrimaryLevel = GoalPrimary"

text \<open>What the parser does behind a phrase: the loops of the two left-associative levels go on with its tree.\<close>

fun continues :: "(string \<Rightarrow> u64 option) \<Rightarrow> Level \<Rightarrow> AstExpr \<Rightarrow> ParserState \<Rightarrow> AstExpr parsed" where
  "continues from_chars OrLevel e s = parse_goal from_chars (GoalOrRest e) s"
| "continues from_chars AndLevel e s = parse_goal from_chars (GoalAndRest e) s"
| "continues from_chars _ e s = Inr (e, s)"

fun may_follow :: "Level \<Rightarrow> ParserState \<Rightarrow> bool" where
  "may_follow OrLevel s \<longleftrightarrow> \<not> operator_follows s \<and> \<not> check TkAnd s"
| "may_follow AndLevel s \<longleftrightarrow> \<not> operator_follows s"
| "may_follow NotLevel s \<longleftrightarrow> \<not> operator_follows s"
| "may_follow ComparisonLevel s \<longleftrightarrow> \<not> operator_follows s"
| "may_follow PrimaryLevel s \<longleftrightarrow> \<not> check TkDot s"

lemma check_peek: "check kind s \<longleftrightarrow> tk_kind (peek_token s) = kind"
  by (simp add: check_def)

text \<open>The first token of a phrase is never an operator that could belong to a phrase of a higher level.\<close>

lemma derives_first:
  "derives from_chars level ts e n \<Longrightarrow> \<exists>t rest. ts = t # rest
     \<and> (case level of
          PrimaryLevel \<Rightarrow> tk_kind t = TkLeftParen \<or> tk_kind t = TkIdentifier \<or> literal_token from_chars t \<noteq> None
        | ComparisonLevel \<Rightarrow> tk_kind t = TkLeftParen \<or> tk_kind t = TkIdentifier \<or> literal_token from_chars t \<noteq> None
        | _ \<Rightarrow> True)"
  by (induction rule: derives.induct) auto

lemma literal_token_kind: "literal_token from_chars t \<noteq> None \<Longrightarrow> starts_literal (tk_kind t)"
  by (auto simp: literal_token_def split: if_splits)

lemma parse_not_comparison:
  assumes "derives from_chars ComparisonLevel ts e n" "consumes s ts n s'"
  shows "parse_goal from_chars GoalNot s = parse_goal from_chars GoalComparison s"
proof -
  obtain t rest where "ts = t # rest" "tk_kind t = TkLeftParen \<or> tk_kind t = TkIdentifier \<or> starts_literal (tk_kind t)"
    using derives_first [OF assms(1)] literal_token_kind by fastforce
  then show ?thesis using peek_consumed [of s t rest n s'] assms(2)
    by (auto simp: parse_goal.simps(5) check_peek)
qed

lemma consumes_complexity: "consumes s ts n s' \<Longrightarrow> ps_expression_complexity s \<le> ps_expression_complexity s'"
  by (simp add: consumes_def)

lemma consumes_last: "consumes s [t] 0 s' \<Longrightarrow> tk_kind t \<noteq> TkEnd \<Longrightarrow> advance_token s = s'"
  by (simp add: consumes_def advance_token_def)

lemma require_consumed:
  "consumes s (t # ts) n s' \<Longrightarrow> tk_kind t = kind \<Longrightarrow> require kind error s = Inr (advance_token s)"
  using peek_consumed [of s t ts n s'] by (simp add: require_def match_token_def check_peek)

lemma operator_split:
  assumes "consumes s (ts @ t # us) (n + m + 1) s'" "ps_expression_complexity s' \<le> kMaxExpressionComplexity" "tk_kind t \<noteq> TkEnd"
  obtains s1 s2 where "consumes s ts n s1" "peek_token s1 = t" "ps_expression_complexity s1 \<le> kMaxExpressionComplexity"
    "consume_expression_budget s1 = Inr s2" "consumes (advance_token s2) us m s'" "peek_token s2 = t"
proof -
  obtain s1 where s1: "consumes s ts n s1" "consumes s1 (t # us) (m + 1) s'"
    using consumes_split [of s ts "t # us" n "m + 1" s'] assms(1) by (auto simp: add.assoc)
  obtain s2 where "consume_expression_budget s1 = Inr s2" "consumes (advance_token s2) us m s'" "peek_token s2 = t"
    using operator_consumed [OF s1(2) assms(2,3)] .
  then show ?thesis
    using that [OF s1(1) peek_consumed [OF s1(2)]] consumes_complexity [OF s1(2)] assms(2) by simp
qed

lemma parse_column_d:
  assumes "consumes s [t] 1 s'" "ps_expression_complexity s' \<le> kMaxExpressionComplexity" "tk_kind t = TkIdentifier" "\<not> check TkDot s'"
  shows "parse_goal from_chars GoalPrimary s
    = Inr (AstIdentifier \<lparr>ai_qualifier = None, ai_name = tk_lexeme t, ai_source = tk_source t\<rparr>, s')"
proof -
  obtain s1 where s1: "consume_expression_budget s = Inr s1" "consumes s1 [t] 0 s'" "peek_token s1 = peek_token s"
    using budget_consumed [of s "[t]" 0 s'] assms(1,2) by auto
  have p: "peek_token s = t" using peek_consumed [OF assms(1)] .
  have "advance_token s1 = s'" using consumes_last [OF s1(2)] assms(3) by simp
  then show ?thesis using s1 p assms(3,4)
    by (simp add: parse_goal.simps(7) check_peek parse_operand_def parse_column_reference_def match_token_def)
qed

lemma parse_qualified_d:
  assumes "consumes s [q, d, c] 1 s'" "ps_expression_complexity s' \<le> kMaxExpressionComplexity"
    and "tk_kind q = TkIdentifier" "tk_kind d = TkDot" "tk_kind c = TkIdentifier"
  shows "parse_goal from_chars GoalPrimary s
    = Inr (AstIdentifier \<lparr>ai_qualifier = Some (tk_lexeme q), ai_name = tk_lexeme c, ai_source = tk_source q\<rparr>, s')"
proof -
  obtain s1 where s1: "consume_expression_budget s = Inr s1" "consumes s1 [q, d, c] 0 s'" "peek_token s1 = peek_token s"
    using budget_consumed [of s "[q, d, c]" 0 s'] assms(1,2) by auto
  have p: "peek_token s = q" using peek_consumed [OF assms(1)] .
  have a: "consumes (advance_token s1) [d, c] 0 s'" using advance_consumed [OF s1(2)] assms(3) by simp
  have b: "consumes (advance_token (advance_token s1)) [c] 0 s'" using advance_consumed [OF a] assms(4) by simp
  have "advance_token (advance_token (advance_token s1)) = s'" using consumes_last [OF b] assms(5) by simp
  then show ?thesis using s1 p peek_consumed [OF a] peek_consumed [OF b] assms(3-5)
    by (simp add: parse_goal.simps(7) check_peek parse_operand_def parse_column_reference_def match_token_def)
qed

lemma parse_literal_d:
  assumes "consumes s [t] 1 s'" "ps_expression_complexity s' \<le> kMaxExpressionComplexity"
    and "literal_token from_chars t = Some (Inr value)"
  shows "parse_goal from_chars GoalPrimary s = Inr (AstLiteralExpr value (tk_source t), s')"
proof -
  obtain s1 where s1: "consume_expression_budget s = Inr s1" "consumes s1 [t] 0 s'" "peek_token s1 = peek_token s"
    using budget_consumed [of s "[t]" 0 s'] assms(1,2) by auto
  have p: "peek_token s = t" using peek_consumed [OF assms(1)] .
  have k: "starts_literal (tk_kind t)" using literal_token_kind [of from_chars t] assms(3) by simp
  then have "tk_kind t \<noteq> TkEnd" by auto
  then have "advance_token s1 = s'" using consumes_last [OF s1(2)] by simp
  moreover have "tk_kind t \<noteq> TkLeftParen" "tk_kind t \<noteq> TkIdentifier" using k by auto
  ultimately show ?thesis using s1 p assms(3) by (simp add: parse_goal.simps(7) check_peek parse_operand_def)
qed

lemma derives_parsed:
  "derives from_chars level ts e n \<Longrightarrow> consumes s ts n s' \<Longrightarrow> ps_expression_complexity s' \<le> kMaxExpressionComplexity \<Longrightarrow>
   may_follow level s' \<Longrightarrow> parse_goal from_chars (level_goal level) s = continues from_chars level e s'"
proof (induction arbitrary: s s' rule: derives.induct)
  case (d_parentheses l ts e n r)
  obtain s1 where s1: "consume_expression_budget s = Inr s1" "consumes (advance_token s1) (ts @ [r]) n s'" "peek_token s1 = l"
    using operator_consumed [OF d_parentheses.prems(1,2)] d_parentheses.hyps(1) by auto
  obtain s2 where s2: "consumes (advance_token s1) ts n s2" "consumes s2 [r] 0 s'"
    using consumes_split [of "advance_token s1" ts "[r]" n 0 s'] s1(2) by auto
  have r: "peek_token s2 = r" using peek_consumed [OF s2(2)] .
  have "may_follow OrLevel s2" using d_parentheses.hyps(3) r by (simp add: operator_follows_def check_peek)
  then have "parse_goal from_chars GoalOr (advance_token s1) = parse_goal from_chars (GoalOrRest e) s2"
    using d_parentheses.IH [OF s2(1)] consumes_complexity [OF s2(2)] d_parentheses.prems(2) by simp
  also have "\<dots> = Inr (e, s2)" using r d_parentheses.hyps(3) by (simp add: parse_goal.simps(2) check_peek)
  finally show ?case
    using s1(1) peek_consumed [OF d_parentheses.prems(1)] d_parentheses.hyps(1,3) require_consumed [OF s2(2)] consumes_last [OF s2(2)]
    by (simp add: parse_goal.simps(7) check_peek)
next
  case (d_primary ts e n)
  then show ?case by (auto simp: parse_goal.simps(6) operator_follows_def)
next
  case (d_compare ts lhs n t op us rhs m)
  have "tk_kind t \<noteq> TkEnd" "tk_kind t \<noteq> TkIs" "tk_kind t \<noteq> TkDot" using d_compare.hyps(2) by auto
  then obtain s1 s2 where c: "consumes s ts n s1" "peek_token s1 = t" "ps_expression_complexity s1 \<le> kMaxExpressionComplexity"
    "consume_expression_budget s1 = Inr s2" "consumes (advance_token s2) us m s'" "peek_token s2 = t"
    using operator_split [OF d_compare.prems(1,2)] by metis
  have "parse_goal from_chars GoalPrimary s = Inr (lhs, s1)"
    using d_compare.IH(1) [OF c(1,3)] c(2) \<open>tk_kind t \<noteq> TkDot\<close> by (simp add: check_peek)
  moreover have "parse_goal from_chars GoalPrimary (advance_token s2) = Inr (rhs, s')"
    using d_compare.IH(2) [OF c(5) d_compare.prems(2)] d_compare.prems(3) by (simp add: operator_follows_def)
  ultimately show ?case using c d_compare.hyps(2) \<open>tk_kind t \<noteq> TkIs\<close>
    by (simp add: parse_goal.simps(6) check_peek)
next
  case (d_is_null ts e n t u)
  obtain s1 s2 where c: "consumes s ts n s1" "peek_token s1 = t" "ps_expression_complexity s1 \<le> kMaxExpressionComplexity"
    "consume_expression_budget s1 = Inr s2" "consumes (advance_token s2) [u] 0 s'" "peek_token s2 = t"
    using operator_split [of s ts t "[u]" n 0 s'] d_is_null.prems(1,2) d_is_null.hyps(2) by auto
  have "parse_goal from_chars GoalPrimary s = Inr (e, s1)"
    using d_is_null.IH [OF c(1,3)] c(2) d_is_null.hyps(2) by (simp add: check_peek)
  then show ?case using c d_is_null.hyps(2,3) peek_consumed [OF c(5)] require_consumed [OF c(5)] consumes_last [OF c(5)]
    by (simp add: parse_goal.simps(6) check_peek match_token_def)
next
  case (d_is_not_null ts e n t v u)
  obtain s1 s2 where c: "consumes s ts n s1" "peek_token s1 = t" "ps_expression_complexity s1 \<le> kMaxExpressionComplexity"
    "consume_expression_budget s1 = Inr s2" "consumes (advance_token s2) [v, u] 0 s'" "peek_token s2 = t"
    using operator_split [of s ts t "[v, u]" n 0 s'] d_is_not_null.prems(1,2) d_is_not_null.hyps(2) by auto
  have d: "consumes (advance_token (advance_token s2)) [u] 0 s'" using advance_consumed [OF c(5)] d_is_not_null.hyps(3) by simp
  have "parse_goal from_chars GoalPrimary s = Inr (e, s1)"
    using d_is_not_null.IH [OF c(1,3)] c(2) d_is_not_null.hyps(2) by (simp add: check_peek)
  then show ?case using c d_is_not_null.hyps(2-4) peek_consumed [OF c(5)] require_consumed [OF d] consumes_last [OF d]
    by (simp add: parse_goal.simps(6) check_peek match_token_def)
next
  case (d_comparison ts e n)
  then show ?case using parse_not_comparison [OF d_comparison.hyps d_comparison.prems(1)] by simp
next
  case (d_not t ts e n)
  obtain s1 where s1: "consume_expression_budget s = Inr s1" "consumes (advance_token s1) ts n s'" "peek_token s1 = t"
    using operator_consumed [OF d_not.prems(1,2)] d_not.hyps(1) by auto
  then show ?case using d_not.IH [OF s1(2) d_not.prems(2)] d_not.prems(3) d_not.hyps(1) peek_consumed [OF d_not.prems(1)]
    by (simp add: parse_goal.simps(5) check_peek)
next
  case (d_operand ts e n)
  then show ?case by (simp add: parse_goal.simps(3))
next
  case (d_and ts lhs n t us rhs m)
  obtain s1 s2 where c: "consumes s ts n s1" "peek_token s1 = t" "ps_expression_complexity s1 \<le> kMaxExpressionComplexity"
    "consume_expression_budget s1 = Inr s2" "consumes (advance_token s2) us m s'" "peek_token s2 = t"
    using operator_split [OF d_and.prems(1,2)] d_and.hyps(2) by auto
  have "parse_goal from_chars GoalAnd s = parse_goal from_chars (GoalAndRest lhs) s1"
    using d_and.IH(1) [OF c(1,3)] c(2) d_and.hyps(2) by (simp add: check_peek operator_follows_def)
  then show ?case using d_and.IH(2) [OF c(5) d_and.prems(2)] d_and.prems(3) c(2,4,6) d_and.hyps(2)
    by (simp add: parse_goal.simps(4) [of from_chars lhs s1] check_peek)
next
  case (d_conjunction ts e n)
  then show ?case by (simp add: parse_goal.simps(1) parse_goal.simps(4) [of from_chars e s'])
next
  case (d_or ts lhs n t us rhs m)
  obtain s1 s2 where c: "consumes s ts n s1" "peek_token s1 = t" "ps_expression_complexity s1 \<le> kMaxExpressionComplexity"
    "consume_expression_budget s1 = Inr s2" "consumes (advance_token s2) us m s'" "peek_token s2 = t"
    using operator_split [OF d_or.prems(1,2)] d_or.hyps(2) by auto
  have "parse_goal from_chars GoalOr s = parse_goal from_chars (GoalOrRest lhs) s1"
    using d_or.IH(1) [OF c(1,3)] c(2) d_or.hyps(2) by (simp add: check_peek operator_follows_def)
  moreover have "parse_goal from_chars GoalAnd (advance_token s2) = Inr (rhs, s')"
    using d_or.IH(2) [OF c(5) d_or.prems(2)] d_or.prems(3) by (simp add: parse_goal.simps(4) [of from_chars rhs s'])
  ultimately show ?case using c(2,4,6) d_or.hyps(2) by (simp add: parse_goal.simps(2) [of from_chars lhs s1] check_peek)
qed (simp_all add: parse_column_d parse_qualified_d parse_literal_d)

text \<open>
  C35: the expression parser implements the SQL expression grammar. It returns a tree exactly when the tokens in front form a phrase
  of the grammar for that tree (OR binds weaker than AND, AND weaker than NOT, NOT weaker than comparisons, both binary connectives to the
  left), provided the tokens behind it cannot continue the phrase and operands, operators and parentheses stay within the
  budget of 256.
\<close>

theorem expression_parser_exact:
  assumes "ps_expression_complexity s \<le> kMaxExpressionComplexity" "\<not> operator_follows s'" "\<not> check TkAnd s'" "\<not> check TkOr s'"
  shows "parse_expression from_chars s = Inr (e, s') \<longleftrightarrow>
    (\<exists>ts n. consumes s ts n s' \<and> derives from_chars OrLevel ts e n \<and> ps_expression_complexity s + n \<le> kMaxExpressionComplexity)"
proof
  assume p: "parse_expression from_chars s = Inr (e, s')"
  then obtain ts n where d: "consumes s ts n s'" "derives from_chars OrLevel ts e n"
    using parse_goal_derives [of from_chars GoalOr s e s'] by (auto simp: parse_expression_def)
  moreover have "ps_expression_complexity s' \<le> kMaxExpressionComplexity"
    using parse_expression_extends [OF p] assms(1) by (simp add: extends_def)
  ultimately show "\<exists>ts n. consumes s ts n s' \<and> derives from_chars OrLevel ts e n \<and> ps_expression_complexity s + n \<le> kMaxExpressionComplexity"
    by (auto simp: consumes_def intro!: exI [of _ ts] exI [of _ n])
next
  assume "\<exists>ts n. consumes s ts n s' \<and> derives from_chars OrLevel ts e n \<and> ps_expression_complexity s + n \<le> kMaxExpressionComplexity"
  then obtain ts n where d: "consumes s ts n s'" "derives from_chars OrLevel ts e n" "ps_expression_complexity s' \<le> kMaxExpressionComplexity"
    by (auto simp: consumes_def)
  have "parse_goal from_chars GoalOr s = parse_goal from_chars (GoalOrRest e) s'"
    using derives_parsed [OF d(2,1,3)] assms(2,3) by simp
  then show "parse_expression from_chars s = Inr (e, s')"
    using assms(4) by (simp add: parse_expression_def parse_goal.simps(2))
qed

definition demo_token :: "TokenKind \<Rightarrow> string \<Rightarrow> Token" where
  "demo_token kind lexeme = \<lparr>tk_kind = kind, tk_lexeme = lexeme, tk_source = empty_source_range\<rparr>"

theorem expression_parser_exact_witness:
  "\<exists>ts n. derives (\<lambda>_. None) OrLevel ts (AstUnary empty_source_range (AstIdentifier \<lparr>ai_qualifier = None, ai_name = ''a'', ai_source = empty_source_range\<rparr>)) n
    \<and> map tk_kind ts = [TkNot, TkIdentifier] \<and> n \<le> kMaxExpressionComplexity"
proof -
  let ?s = "initial_parser [demo_token TkNot ''not'', demo_token TkIdentifier ''a'', demo_token TkEnd []]"
  let ?s' = "?s\<lparr>ps_tokens := [demo_token TkEnd []], ps_expression_complexity := 2\<rparr>"
  have "parse_expression (\<lambda>_. None) ?s
      = Inr (AstUnary empty_source_range (AstIdentifier \<lparr>ai_qualifier = None, ai_name = ''a'', ai_source = empty_source_range\<rparr>), ?s')"
    by (simp add: parse_expression_def parse_goal.simps check_peek peek_token_def initial_parser_def demo_token_def
        consume_expression_budget_def kMaxExpressionComplexity_def advance_token_def parse_operand_def parse_column_reference_def match_token_def)
  then obtain ts n where "consumes ?s ts n ?s'" "derives (\<lambda>_. None) OrLevel ts (AstUnary empty_source_range
      (AstIdentifier \<lparr>ai_qualifier = None, ai_name = ''a'', ai_source = empty_source_range\<rparr>)) n"
    "ps_expression_complexity ?s + n \<le> kMaxExpressionComplexity"
    using expression_parser_exact [of ?s ?s'] by (auto simp: operator_follows_def check_peek peek_token_def initial_parser_def demo_token_def)
  moreover from this have "map tk_kind ts = [TkNot, TkIdentifier]" "n \<le> kMaxExpressionComplexity"
    by (auto simp: consumes_def initial_parser_def demo_token_def)
  ultimately show ?thesis by (intro exI [of _ ts] exI [of _ n] conjI)
qed

end
