(* ===== verification/Parser_Ranges.thy ===== *)
theory Parser_Ranges
  imports Expression_Grammar Lexer_Properties
begin

text \<open>
  Where the parser's errors, fix-its and syntax trees point: every source range is that of a token of the statement.
\<close>

named_theorems range_intros

subsection \<open>The ranges of a syntax tree\<close>

fun expr_sources :: "AstExpr \<Rightarrow> SourceRange set" where
  "expr_sources (AstIdentifier column) = {ai_source column}"
| "expr_sources (AstLiteralExpr _ source) = {source}"
| "expr_sources (AstBinary _ source lhs rhs) = insert source (expr_sources lhs \<union> expr_sources rhs)"
| "expr_sources (AstUnary source e) = insert source (expr_sources e)"
| "expr_sources (AstNullTest _ source e) = insert source (expr_sources e)"

fun item_sources :: "AstSelectItem \<Rightarrow> SourceRange set" where
  "item_sources (AstColumnItem column) = {asc_source column}"
| "item_sources (AstAggregateItem call) = insert (aac_source call) (asc_source ` set_option (aac_argument call))"

definition join_sources :: "AstJoin \<Rightarrow> SourceRange set" where
  "join_sources join = insert (aj_table_source join) (expr_sources (aj_condition join))"

definition assignment_sources :: "AstUpdateAssignment \<Rightarrow> SourceRange set" where
  "assignment_sources assignment = {aua_column_source assignment, al_source (aua_literal assignment)}"

definition all_sources :: "('a \<Rightarrow> SourceRange set) \<Rightarrow> 'a list \<Rightarrow> SourceRange set" where
  "all_sources f xs = (\<Union>x \<in> set xs. f x)"

definition option_sources :: "('a \<Rightarrow> SourceRange set) \<Rightarrow> 'a option \<Rightarrow> SourceRange set" where
  "option_sources f x = (\<Union>y \<in> set_option x. f y)"

lemma all_sources_simps [simp]:
  "all_sources f [] = {}" "all_sources f (x # xs) = f x \<union> all_sources f xs" "all_sources f (xs @ ys) = all_sources f xs \<union> all_sources f ys"
  "option_sources f None = {}" "option_sources f (Some x) = f x"
  by (auto simp: all_sources_def option_sources_def)

fun statement_sources :: "StatementAst \<Rightarrow> SourceRange set" where
  "statement_sources (StCreateTable create) = insert (cta_table_source create) (all_sources (\<lambda>c. {acd_source c}) (cta_columns create))"
| "statement_sources (StInsert insertion) = insert (ia_table_source insertion)
     (all_sources (\<lambda>c. {aic_source c}) (ia_columns insertion) \<union> all_sources (all_sources (\<lambda>l. {al_source l})) (ia_rows insertion))"
| "statement_sources (StSelect select) = insert (sa_table_source select)
     (all_sources join_sources (sa_joins select) \<union> all_sources item_sources (sa_items select)
      \<union> option_sources expr_sources (sa_predicate select) \<union> all_sources (\<lambda>c. {asc_source c}) (sa_group_by select)
      \<union> all_sources (\<lambda>k. {ask_source k}) (sa_order_by select))"
| "statement_sources (StDelete deletion) = insert (da_table_source deletion) (option_sources expr_sources (da_predicate deletion))"
| "statement_sources (StUpdate updating) = insert (upa_table_source updating)
     (all_sources assignment_sources (upa_assignments updating) \<union> option_sources expr_sources (upa_predicate updating))"

subsection \<open>States and results within a set of ranges\<close>

definition within :: "SourceRange set \<Rightarrow> ParserState \<Rightarrow> bool" where
  "within S s \<longleftrightarrow> tk_source ` set (ps_tokens s) \<subseteq> S \<and> ps_fallback_end s \<in> S"

definition located :: "SourceRange set \<Rightarrow> CompileError \<Rightarrow> bool" where
  "located S e \<longleftrightarrow> ce_source e \<in> S
     \<and> (case ce_fix_it e of None \<Rightarrow> True
        | Some f \<Rightarrow> \<exists>r \<in> S. fi_range f = r \<or> fi_range f = \<lparr>sr_begin = sr_begin r, sr_end = sr_begin r\<rparr>)"

definition yields :: "SourceRange set \<Rightarrow> ('a \<Rightarrow> SourceRange set) \<Rightarrow> 'a parsed \<Rightarrow> bool" where
  "yields S sources r \<longleftrightarrow> (case r of Inl e \<Rightarrow> located S e \<and> ce_stage e = kSyntax | Inr (x, s) \<Rightarrow> within S s \<and> sources x \<subseteq> S)"

definition proceeds :: "SourceRange set \<Rightarrow> (CompileError, ParserState) result \<Rightarrow> bool" where
  "proceeds S r \<longleftrightarrow> (case r of Inl e \<Rightarrow> located S e \<and> ce_stage e = kSyntax | Inr s \<Rightarrow> within S s)"

definition finishes :: "SourceRange set \<Rightarrow> (CompileError, StatementAst) result \<Rightarrow> bool" where
  "finishes S r \<longleftrightarrow> (case r of Inl e \<Rightarrow> located S e \<and> ce_stage e = kSyntax | Inr ast \<Rightarrow> statement_sources ast \<subseteq> S)"

lemma result_simps_within [simp]:
  "yields S sources (Inl e) \<longleftrightarrow> located S e \<and> ce_stage e = kSyntax" "yields S sources (Inr (x, s)) \<longleftrightarrow> within S s \<and> sources x \<subseteq> S"
  "proceeds S (Inl e) \<longleftrightarrow> located S e \<and> ce_stage e = kSyntax" "proceeds S (Inr s) \<longleftrightarrow> within S s"
  "finishes S (Inl e) \<longleftrightarrow> located S e \<and> ce_stage e = kSyntax" "finishes S (Inr ast) \<longleftrightarrow> statement_sources ast \<subseteq> S"
  by (simp_all add: yields_def proceeds_def finishes_def)

lemma within_bind [range_intros]:
  "yields S sources r \<Longrightarrow> (\<And>x s'. within S s' \<Longrightarrow> sources x \<subseteq> S \<Longrightarrow> yields S sources' (f x s')) \<Longrightarrow> yields S sources' (bind_result r (case_prod f))"
  "proceeds S r1 \<Longrightarrow> (\<And>s'. within S s' \<Longrightarrow> yields S sources' (g s')) \<Longrightarrow> yields S sources' (bind_result r1 g)"
  "yields S sources r \<Longrightarrow> (\<And>x s'. within S s' \<Longrightarrow> sources x \<subseteq> S \<Longrightarrow> finishes S (h x s')) \<Longrightarrow> finishes S (bind_result r (case_prod h))"
  "proceeds S r1 \<Longrightarrow> (\<And>s'. within S s' \<Longrightarrow> finishes S (k s')) \<Longrightarrow> finishes S (bind_result r1 k)"
  "proceeds S r1 \<Longrightarrow> (\<And>s'. within S s' \<Longrightarrow> proceeds S (q s')) \<Longrightarrow> proceeds S (bind_result r1 q)"
  by ((cases r; auto; fail) | (cases r1; auto; fail))+

lemma within_peek [simp]: "within S s \<Longrightarrow> tk_source (peek_token s) \<in> S"
  by (auto simp: within_def peek_token_def fallback_end_def split: list.split)

lemma within_advance [simp]: "within S s \<Longrightarrow> within S (advance_token s)"
  by (cases "ps_tokens s") (auto simp: within_def advance_token_def)

lemma errors_located [simp]:
  assumes "within S s"
  shows "located S (syntax_error message s)" "located S (raise_expression_error message s)" "located S (keyword_error message candidates s)"
    "located S (insertion_error message replacement s)" "located S (semicolon_error message s)" "located S (right_parenthesis_error message s)"
    "located S (from_error s)" "located S (select_end_error s)"
  using within_peek [OF assms]
  by (auto simp: located_def syntax_error_def raise_expression_error_def keyword_error_def insertion_error_def semicolon_error_def
      right_parenthesis_error_def from_error_def select_end_error_def Let_def split: option.split)

lemma errors_syntax [simp]:
  "ce_stage (syntax_error message s) = kSyntax" "ce_stage (raise_expression_error message s) = kSyntax"
  "ce_stage (keyword_error message candidates s) = kSyntax" "ce_stage (insertion_error message replacement s) = kSyntax"
  "ce_stage (semicolon_error message s) = kSyntax" "ce_stage (right_parenthesis_error message s) = kSyntax"
  "ce_stage (from_error s) = kSyntax" "ce_stage (select_end_error s) = kSyntax"
  by (auto simp: syntax_error_def raise_expression_error_def keyword_error_def insertion_error_def semicolon_error_def
      right_parenthesis_error_def from_error_def select_end_error_def Let_def split: option.split)

lemma within_budget [range_intros]: "within S s \<Longrightarrow> proceeds S (consume_expression_budget s)"
  by (simp add: consume_expression_budget_def within_def)

lemma within_require [range_intros]:
  "within S s \<Longrightarrow> (\<And>s'. within S s' \<Longrightarrow> located S (error s') \<and> ce_stage (error s') = kSyntax) \<Longrightarrow> proceeds S (require kind error s)"
  by (simp add: require_def match_token_def)

definition token_sources :: "Token \<Rightarrow> SourceRange set" where "token_sources t = {tk_source t}"

lemma within_take_identifier [range_intros]: "within S s \<Longrightarrow> yields S token_sources (take_identifier message s)"
  by (simp add: take_identifier_def token_sources_def)

lemma within_column_reference [range_intros]: "within S s \<Longrightarrow> yields S (\<lambda>c. {ai_source c}) (parse_column_reference message s)"
  by (simp add: parse_column_reference_def Let_def match_token_def)

lemma within_operand [range_intros]: "within S s \<Longrightarrow> yields S expr_sources (parse_operand from_chars s)"
  unfolding parse_operand_def
  by (auto intro!: range_intros split: option.split sum.split)

fun goal_sources :: "ExprGoal \<Rightarrow> SourceRange set" where
  "goal_sources (GoalOrRest lhs) = expr_sources lhs"
| "goal_sources (GoalAndRest lhs) = expr_sources lhs"
| "goal_sources _ = {}"

lemma within_goal: "within S s \<Longrightarrow> goal_sources goal \<subseteq> S \<Longrightarrow> yields S expr_sources (parse_goal from_chars goal s)"
proof (induction from_chars goal s rule: parse_goal.induct)
  case (1 from_chars s)
  have "yields S expr_sources (parse_goal from_chars GoalAnd s)" using 1 by simp
  then show ?case unfolding parse_goal.simps(1) [of from_chars s]
    by (cases "parse_goal from_chars GoalAnd s") (use "1.IH"(2) in auto)
next
  case (2 from_chars lhs s)
  show ?case
  proof (cases "check TkOr s")
    case True
    show ?thesis
    proof (cases "consume_expression_budget s")
      case (Inr s1)
      then have w: "within S s1" using within_budget [OF "2.prems"(1)] by simp
      have "yields S expr_sources (parse_goal from_chars GoalAnd (advance_token s1))" using "2.IH"(1) True Inr w by simp
      then show ?thesis using "2.IH"(2) [OF _ Inr] w True Inr "2.prems"
        by (cases "parse_goal from_chars GoalAnd (advance_token s1)") (auto simp: parse_goal.simps(2) [of from_chars lhs s])
    qed (use True within_budget [OF "2.prems"(1)] in \<open>simp add: parse_goal.simps(2) [of from_chars lhs s]\<close>)
  qed (use "2.prems" in \<open>simp add: parse_goal.simps(2) [of from_chars lhs s]\<close>)
next
  case (3 from_chars s)
  have "yields S expr_sources (parse_goal from_chars GoalNot s)" using 3 by simp
  then show ?case unfolding parse_goal.simps(3) [of from_chars s]
    by (cases "parse_goal from_chars GoalNot s") (use "3.IH"(2) in auto)
next
  case (4 from_chars lhs s)
  show ?case
  proof (cases "check TkAnd s")
    case True
    show ?thesis
    proof (cases "consume_expression_budget s")
      case (Inr s1)
      then have w: "within S s1" using within_budget [OF "4.prems"(1)] by simp
      have "yields S expr_sources (parse_goal from_chars GoalNot (advance_token s1))" using "4.IH"(1) True Inr w by simp
      then show ?thesis using "4.IH"(2) [OF _ Inr] w True Inr "4.prems"
        by (cases "parse_goal from_chars GoalNot (advance_token s1)") (auto simp: parse_goal.simps(4) [of from_chars lhs s])
    qed (use True within_budget [OF "4.prems"(1)] in \<open>simp add: parse_goal.simps(4) [of from_chars lhs s]\<close>)
  qed (use "4.prems" in \<open>simp add: parse_goal.simps(4) [of from_chars lhs s]\<close>)
next
  case (5 from_chars s)
  show ?case
  proof (cases "check TkNot s")
    case True
    show ?thesis
    proof (cases "consume_expression_budget s")
      case (Inr s1)
      then have w: "within S s1" using within_budget [OF "5.prems"(1)] by simp
      have "yields S expr_sources (parse_goal from_chars GoalNot (advance_token s1))" using "5.IH"(2) True Inr w by simp
      then show ?thesis using w True Inr
        by (cases "parse_goal from_chars GoalNot (advance_token s1)") (auto simp: parse_goal.simps(5) [of from_chars s])
    qed (use True within_budget [OF "5.prems"(1)] in \<open>simp add: parse_goal.simps(5) [of from_chars s]\<close>)
  qed (use "5.IH"(1) "5.prems" in \<open>simp add: parse_goal.simps(5) [of from_chars s]\<close>)
next
  case (6 from_chars s)
  have y: "yields S expr_sources (parse_goal from_chars GoalPrimary s)" using "6.IH"(1) "6.prems" by simp
  show ?case
  proof (cases "parse_goal from_chars GoalPrimary s")
    case (Inr r)
    obtain lhs s1 where l: "r = (lhs, s1)" by (cases r)
    then have w: "within S s1" "expr_sources lhs \<subseteq> S" using y Inr by auto
    show ?thesis
    proof (cases "check TkIs s1")
      case True
      show ?thesis unfolding parse_goal.simps(6) [of from_chars s] using Inr l True w
        by (auto simp: match_token_def intro!: range_intros)
    next
      case False
      show ?thesis
      proof (cases "comparison_operator (tk_kind (peek_token s1))")
        case None
        then show ?thesis unfolding parse_goal.simps(6) [of from_chars s] using Inr l False w by simp
      next
        case (Some op)
        have "yields S expr_sources (parse_goal from_chars GoalPrimary (advance_token s2))"
          if "consume_expression_budget s1 = Inr s2" "within S s2" for s2
          using "6.IH"(2) [OF Inr l [symmetric] False Some that(1)] that(2) by simp
        then show ?thesis unfolding parse_goal.simps(6) [of from_chars s] using Inr l False Some w within_budget [OF w(1)]
          by (cases "consume_expression_budget s1") (auto intro!: range_intros)
      qed
    qed
  qed (use y in \<open>simp add: parse_goal.simps(6) [of from_chars s]\<close>)
next
  case (7 from_chars s)
  show ?case
  proof (cases "check TkLeftParen s")
    case True
    have "yields S expr_sources (parse_goal from_chars GoalOr (advance_token s1))"
      if "consume_expression_budget s = Inr s1" "within S s1" for s1
      using "7.IH" [OF True that(1)] that(2) by simp
    then show ?thesis unfolding parse_goal.simps(7) [of from_chars s] using True within_budget [OF "7.prems"(1)]
      by (cases "consume_expression_budget s") (auto intro!: range_intros)
  qed (use "7.prems" in \<open>auto simp: parse_goal.simps(7) [of from_chars s] intro!: range_intros\<close>)
qed

lemma within_expression [range_intros]: "within S s \<Longrightarrow> yields S expr_sources (parse_expression from_chars s)"
  by (simp add: parse_expression_def within_goal)

subsection \<open>Statements\<close>

lemma within_end [range_intros]:
  "within S s \<Longrightarrow> (\<And>s'. within S s' \<Longrightarrow> located S (error s') \<and> ce_stage (error s') = kSyntax) \<Longrightarrow> statement_sources ast \<subseteq> S \<Longrightarrow>
   finishes S (end_of_statement error ast s)"
  unfolding end_of_statement_def by (auto intro!: range_intros)

lemma within_nullability [range_intros]: "within S s \<Longrightarrow> yields S (\<lambda>_. {}) (parse_nullability s)"
  unfolding parse_nullability_def by (auto intro!: range_intros)

lemma within_column_def [range_intros]: "within S s \<Longrightarrow> yields S (\<lambda>c. {acd_source c}) (parse_column_def s)"
  unfolding parse_column_def_def
  by (auto simp: token_sources_def intro!: range_intros within_bind(1) [OF within_nullability] split: option.split)

lemma within_column_defs [range_intros]:
  "within S s \<Longrightarrow> all_sources (\<lambda>c. {acd_source c}) columns \<subseteq> S \<Longrightarrow>
   yields S (all_sources (\<lambda>c. {acd_source c})) (parse_column_defs columns s)"
proof (induction columns s rule: parse_column_defs.induct)
  case (1 columns s)
  then show ?case unfolding parse_column_defs.simps [of columns s]
    by (cases "parse_column_def s") (use within_column_def [OF "1.prems"(1)] in auto)
qed

lemma within_create_table: "within S s \<Longrightarrow> finishes S (parse_create_table s)"
  unfolding parse_create_table_def
  by (auto simp: token_sources_def intro!: range_intros within_bind(3) [OF within_take_identifier] within_bind(3) [OF within_column_defs])

lemma within_insert_columns [range_intros]:
  "within S s \<Longrightarrow> all_sources (\<lambda>c. {aic_source c}) columns \<subseteq> S \<Longrightarrow>
   yields S (all_sources (\<lambda>c. {aic_source c})) (parse_insert_columns columns s)"
proof (induction columns s rule: parse_insert_columns.induct)
  case (1 columns s)
  then show ?case unfolding parse_insert_columns.simps [of columns s]
    by (cases "take_identifier ''expected column identifier'' s")
      (use within_take_identifier [OF "1.prems"(1), of "''expected column identifier''"] in \<open>auto simp: token_sources_def\<close>)
qed

lemma within_column_list [range_intros]: "within S s \<Longrightarrow> yields S (all_sources (\<lambda>c. {aic_source c})) (parse_column_list s)"
  unfolding parse_column_list_def by (auto intro!: range_intros within_bind(1) [OF within_insert_columns])

lemma within_row_literal [range_intros]: "within S s \<Longrightarrow> yields S (\<lambda>l. {al_source l}) (parse_row_literal from_chars s)"
  by (auto simp: parse_row_literal_def Let_def split: option.split)

lemma within_row [range_intros]:
  "within S s \<Longrightarrow> all_sources (\<lambda>l. {al_source l}) row \<subseteq> S \<Longrightarrow>
   yields S (all_sources (\<lambda>l. {al_source l})) (parse_row from_chars row s)"
proof (induction from_chars row s rule: parse_row.induct)
  case (1 from_chars row s)
  then show ?case unfolding parse_row.simps [of from_chars row s]
    by (cases "parse_row_literal from_chars s") (use within_row_literal [OF "1.prems"(1), of from_chars] in auto)
qed

lemma within_rows [range_intros]:
  "within S s \<Longrightarrow> all_sources (all_sources (\<lambda>l. {al_source l})) rows \<subseteq> S \<Longrightarrow>
   yields S (all_sources (all_sources (\<lambda>l. {al_source l}))) (parse_rows from_chars rows s)"
proof (induction from_chars rows s rule: parse_rows.induct)
  case (1 from_chars rows s)
  let ?lp = "syntax_error (''expected '' @ quoted ''('' @ '' before VALUES row'')"
  let ?rp = "right_parenthesis_error (''expected '' @ quoted '')'' @ '' after VALUES row'')"
  note eq = parse_rows.simps [of from_chars rows s]
  have lp: "proceeds S (require TkLeftParen ?lp s)" using "1.prems"(1) by (intro within_require) auto
  show ?case
  proof (cases "require TkLeftParen ?lp s")
    case l: (Inr s1)
    have row: "yields S (all_sources (\<lambda>l. {al_source l})) (parse_row from_chars [] s1)" using lp l by (intro within_row) auto
    show ?thesis
    proof (cases "parse_row from_chars [] s1")
      case r: (Inr p)
      obtain row s2 where p: "p = (row, s2)" by (cases p)
      have w: "within S s2" "all_sources (\<lambda>l. {al_source l}) row \<subseteq> S" using row r p by auto
      have rp: "proceeds S (require TkRightParen ?rp s2)" using w(1) by (intro within_require) auto
      show ?thesis
      proof (cases "require TkRightParen ?rp s2")
        case c: (Inr s3)
        show ?thesis unfolding eq l bind_result_simps r p prod.case c
          using "1.IH" [OF l r p [symmetric] c] "1.prems"(2) w rp [unfolded c] by auto
      next
        case c: (Inl e)
        show ?thesis unfolding eq l bind_result_simps r p prod.case c using rp [unfolded c] by simp
      qed
    next
      case r: (Inl e)
      show ?thesis unfolding eq l bind_result_simps r using row [unfolded r] by simp
    qed
  next
    case l: (Inl e)
    show ?thesis unfolding eq l bind_result_simps using lp [unfolded l] by simp
  qed
qed

lemma within_insert: "within S s \<Longrightarrow> finishes S (parse_insert from_chars s)"
  unfolding parse_insert_def
  by (auto simp: token_sources_def intro!: range_intros within_bind(3) [OF within_take_identifier] within_bind(3) [OF within_column_list]
      within_bind(3) [OF within_rows])

lemma within_aggregate_argument [range_intros]:
  "within S s \<Longrightarrow> yields S (option_sources (\<lambda>c. {asc_source c})) (parse_aggregate_argument kind s)"
  unfolding parse_aggregate_argument_def
  by (auto simp: select_column_def intro!: range_intros within_bind(1) [OF within_column_reference])

lemma within_select_item [range_intros]: "within S s \<Longrightarrow> yields S item_sources (parse_select_item first_item s)"
  unfolding parse_select_item_def
  by (auto simp: select_column_def option_sources_def intro!: range_intros within_bind(1) [OF within_column_reference]
      within_bind(1) [OF within_aggregate_argument] split: option.split)

lemma within_select_items [range_intros]:
  "within S s \<Longrightarrow> all_sources item_sources items \<subseteq> S \<Longrightarrow>
   yields S (all_sources item_sources) (parse_select_items first_item items s)"
proof (induction first_item items s rule: parse_select_items.induct)
  case (1 first_item items s)
  then show ?case unfolding parse_select_items.simps [of first_item items s]
    by (cases "parse_select_item first_item s") (use within_select_item [OF "1.prems"(1), of first_item] in auto)
qed

lemma within_select_list [range_intros]:
  "within S s \<Longrightarrow> yields S (\<lambda>(select_all, items). all_sources item_sources items) (parse_select_list s)"
  unfolding parse_select_list_def by (auto intro!: range_intros within_bind(1) [OF within_select_items])

lemma reject_alias_located: "within S s \<Longrightarrow> reject_table_alias s = Some e \<Longrightarrow> located S e \<and> ce_stage e = kSyntax"
  by (auto simp: reject_table_alias_def split: if_splits)

lemma within_take_table [range_intros]: "within S s \<Longrightarrow> yields S token_sources (take_table message s)"
  unfolding take_table_def
  by (auto intro!: range_intros within_bind(1) [OF within_take_identifier] dest: reject_alias_located split: option.split)

lemma within_join_keywords [range_intros]: "within S s \<Longrightarrow> proceeds S (join_keywords s)"
  unfolding join_keywords_def by (auto intro!: range_intros)

lemma within_join [range_intros]: "within S s \<Longrightarrow> yields S join_sources (parse_join from_chars s)"
  unfolding parse_join_def
  by (auto simp: join_sources_def token_sources_def intro!: range_intros within_bind(1) [OF within_take_table] within_bind(1) [OF within_expression])

lemma within_joins [range_intros]:
  "within S s \<Longrightarrow> all_sources join_sources joins \<subseteq> S \<Longrightarrow> yields S (all_sources join_sources) (parse_joins from_chars joins s)"
proof (induction from_chars joins s rule: parse_joins.induct)
  case (1 from_chars joins s)
  then show ?case unfolding parse_joins.simps [of from_chars joins s]
    by (cases "parse_join from_chars s") (use within_join [OF "1.prems"(1), of from_chars] in auto)
qed

lemma within_where [range_intros]: "within S s \<Longrightarrow> yields S (option_sources expr_sources) (parse_where from_chars s)"
  unfolding parse_where_def by (auto intro!: range_intros within_bind(1) [OF within_expression])

lemma within_group_keys [range_intros]:
  "within S s \<Longrightarrow> all_sources (\<lambda>c. {asc_source c}) keys \<subseteq> S \<Longrightarrow>
   yields S (all_sources (\<lambda>c. {asc_source c})) (parse_group_keys keys s)"
proof (induction keys s rule: parse_group_keys.induct)
  case (1 keys s)
  then show ?case unfolding parse_group_keys.simps [of keys s]
    by (cases "parse_column_reference ''expected column identifier in GROUP BY'' s")
      (use within_column_reference [OF "1.prems"(1), of "''expected column identifier in GROUP BY''"] in \<open>auto simp: select_column_def\<close>)
qed

lemma within_group_by [range_intros]: "within S s \<Longrightarrow> yields S (all_sources (\<lambda>c. {asc_source c})) (parse_group_by s)"
  unfolding parse_group_by_def by (auto intro!: range_intros)

lemma within_direction: "within S s \<Longrightarrow> within S (snd (parse_direction s))"
  by (simp add: parse_direction_def)

lemma within_sort_key [range_intros]: "within S s \<Longrightarrow> yields S (\<lambda>k. {ask_source k}) (parse_sort_key s)"
  unfolding parse_sort_key_def case_prod_beta [of _ "parse_direction _"]
  by (auto simp: within_direction intro!: range_intros within_bind(1) [OF within_column_reference])

lemma within_sort_keys [range_intros]:
  "within S s \<Longrightarrow> all_sources (\<lambda>k. {ask_source k}) keys \<subseteq> S \<Longrightarrow>
   yields S (all_sources (\<lambda>k. {ask_source k})) (parse_sort_keys keys s)"
proof (induction keys s rule: parse_sort_keys.induct)
  case (1 keys s)
  then show ?case unfolding parse_sort_keys.simps [of keys s]
    by (cases "parse_sort_key s") (use within_sort_key [OF "1.prems"(1)] in auto)
qed

lemma within_order_by [range_intros]: "within S s \<Longrightarrow> yields S (all_sources (\<lambda>k. {ask_source k})) (parse_order_by s)"
  unfolding parse_order_by_def by (auto intro!: range_intros)

lemma within_select: "within S s \<Longrightarrow> finishes S (parse_select from_chars s)"
  unfolding parse_select_def
  by (auto simp: token_sources_def intro!: range_intros within_bind(3) [OF within_select_list] within_bind(3) [OF within_take_table]
      within_bind(3) [OF within_joins] within_bind(3) [OF within_where] within_bind(3) [OF within_group_by] within_bind(3) [OF within_order_by])

lemma within_delete: "within S s \<Longrightarrow> finishes S (parse_delete from_chars s)"
  unfolding parse_delete_def
  by (auto simp: token_sources_def intro!: range_intros within_bind(3) [OF within_take_identifier] within_bind(3) [OF within_where])

lemma within_assignment [range_intros]: "within S s \<Longrightarrow> yields S assignment_sources (parse_assignment from_chars s)"
  unfolding parse_assignment_def
  by (auto simp: token_sources_def assignment_sources_def intro!: range_intros within_bind(1) [OF within_take_identifier] split: option.split)

lemma within_assignments [range_intros]:
  "within S s \<Longrightarrow> all_sources assignment_sources assignments \<subseteq> S \<Longrightarrow>
   yields S (all_sources assignment_sources) (parse_assignments from_chars assignments s)"
proof (induction from_chars assignments s rule: parse_assignments.induct)
  case (1 from_chars assignments s)
  then show ?case unfolding parse_assignments.simps [of from_chars assignments s]
    by (cases "parse_assignment from_chars s") (use within_assignment [OF "1.prems"(1), of from_chars] in auto)
qed

lemma within_update: "within S s \<Longrightarrow> finishes S (parse_update from_chars s)"
  unfolding parse_update_def
  by (auto simp: token_sources_def intro!: range_intros within_bind(3) [OF within_take_identifier] within_bind(3) [OF within_assignments]
      within_bind(3) [OF within_where])

lemma parse_within:
  assumes "tokens \<noteq> []"
  shows "finishes (tk_source ` set tokens) (parse from_chars tokens)"
proof -
  have "within (tk_source ` set tokens) (initial_parser tokens)"
    using assms by (simp add: within_def initial_parser_def fallback_location_def)
  then show ?thesis
    by (simp add: parse_def run_parser_def within_create_table within_insert within_select within_delete within_update)
qed

end
