(* ===== verification/Semantic.thy ===== *)
theory Semantic
  imports Parser Planner
begin

text \<open>
  Semantic analysis (\<open>src/compiler/semantic.cpp\<close>): names are resolved against a catalog, expressions are typed,
  literals are converted to the types of their columns, and the syntax tree becomes a bound statement. The catalog
  view is the list of its tables; a relation scope is the list of the tables of the query, in order.
\<close>

subsection \<open>Types of the analyzer\<close>

datatype SemanticType = SemInt | SemBigInt | SemDouble | SemVarchar | SemBool | SemNull | SemUnsupported

record AnalyzedExpression =
  ae_expression :: BoundExpr
  ae_type :: SemanticType

record ResolvedColumn =
  rc_reference :: BoundColumnRef
  rc_metadata :: ColumnMeta

type_synonym RelationScope = "TableMeta list"

definition make_semantic_error :: "SourceRange \<Rightarrow> string \<Rightarrow> string option \<Rightarrow> CompileError" where
  "make_semantic_error source message suggestion =
     \<lparr>ce_stage = kSemantic, ce_source = source, ce_message = message, ce_suggestion = suggestion, ce_fix_it = None\<rparr>"

subsection \<open>Names\<close>

definition find_table_named :: "TableMeta list \<Rightarrow> string \<Rightarrow> TableMeta option" where
  "find_table_named tables name = find (\<lambda>candidate. tm_table_name candidate = name) tables"

definition table_suggestion :: "TableMeta list \<Rightarrow> string \<Rightarrow> string option" where
  "table_suggestion tables name =
     map_option suggestion_message (best_suggestion name
       (map (\<lambda>table. \<lparr>su_spelling = tm_table_name table, su_display = tm_table_name table\<rparr>) tables))"

text \<open>The loop over the columns from \<open>index\<close> on.\<close>

fun find_column_from :: "nat \<Rightarrow> ColumnMeta list \<Rightarrow> string \<Rightarrow> ColumnId option" where
  "find_column_from index [] name = None"
| "find_column_from index (column # rest) name =
     (if cm_name column = name then Some (word_of_nat index) else find_column_from (index + 1) rest name)"

definition find_column :: "TableMeta \<Rightarrow> string \<Rightarrow> ColumnId option" where
  "find_column table name = find_column_from 0 (tm_columns table) name"

definition qualified_column_suggestion :: "TableMeta \<Rightarrow> string \<Rightarrow> string \<Rightarrow> string option" where
  "qualified_column_suggestion table qualifier name =
     map_option suggestion_message (best_suggestion name
       (map (\<lambda>column. \<lparr>su_spelling = cm_name column, su_display = qualifier @ ''.'' @ cm_name column\<rparr>) (tm_columns table)))"

text \<open>How many tables have a column of this name, and the names that occur in one table only, in order.\<close>

definition name_occurrences :: "RelationScope \<Rightarrow> string \<Rightarrow> nat" where
  "name_occurrences relations name =
     length (filter (\<lambda>relation. list_ex (\<lambda>candidate. cm_name candidate = name) (tm_columns relation)) relations)"

definition unique_column_names :: "RelationScope \<Rightarrow> string list" where
  "unique_column_names relations =
     fold (\<lambda>column unique_names.
         if name_occurrences relations (cm_name column) = 1 \<and> \<not> List.member unique_names (cm_name column)
         then unique_names @ [cm_name column] else unique_names)
       (concat (map tm_columns relations)) []"

definition unqualified_column_suggestion :: "RelationScope \<Rightarrow> string \<Rightarrow> string option" where
  "unqualified_column_suggestion relations name =
     map_option suggestion_message (best_suggestion name
       (map (\<lambda>candidate. \<lparr>su_spelling = candidate, su_display = candidate\<rparr>) (unique_column_names relations)))"

definition qualifier_suggestion :: "RelationScope \<Rightarrow> string \<Rightarrow> string \<Rightarrow> string option" where
  "qualifier_suggestion relations qualifier column_name =
     map_option suggestion_message (best_suggestion qualifier
       (map (\<lambda>table. \<lparr>su_spelling = tm_table_name table, su_display = tm_table_name table @ ''.'' @ column_name\<rparr>)
         (filter (\<lambda>table. find_column table column_name \<noteq> None) relations)))"

definition resolved_in :: "TableMeta \<Rightarrow> ColumnId \<Rightarrow> ResolvedColumn" where
  "resolved_in table column_id =
     \<lparr>rc_reference = \<lparr>bc_table_id = tm_table_id table, bc_column_id = column_id\<rparr>,
      rc_metadata = tm_columns table ! unat column_id\<rparr>"

text \<open>The loop over the relations for a name without qualifier.\<close>

fun resolve_unqualified ::
    "RelationScope \<Rightarrow> string \<Rightarrow> SourceRange \<Rightarrow> ResolvedColumn option \<Rightarrow> (CompileError, ResolvedColumn option) result" where
  "resolve_unqualified [] name location found = Inr found"
| "resolve_unqualified (table # rest) name location found =
     (case find_column table name of
        None \<Rightarrow> resolve_unqualified rest name location found
      | Some column_id \<Rightarrow>
          if found \<noteq> None then
            Inl (make_semantic_error location (''column '' @ quoted name @ '' is ambiguous'') None)
          else resolve_unqualified rest name location (Some (resolved_in table column_id)))"

definition resolve_column ::
    "RelationScope \<Rightarrow> string option \<Rightarrow> string \<Rightarrow> SourceRange \<Rightarrow> (CompileError, ResolvedColumn) result" where
  "resolve_column relations qualifier name location =
     (case qualifier of
        Some table_name \<Rightarrow>
          (case find (\<lambda>table. tm_table_name table = table_name) relations of
             None \<Rightarrow>
               Inl (make_semantic_error location
                 (''table qualifier '' @ quoted table_name @ '' is not present in query'')
                 (qualifier_suggestion relations table_name name))
           | Some relation \<Rightarrow>
               (case find_column relation name of
                  None \<Rightarrow>
                    Inl (make_semantic_error location
                      (''column '' @ quoted name @ '' does not exist in table '' @ quoted table_name)
                      (qualified_column_suggestion relation table_name name))
                | Some column_id \<Rightarrow> Inr (resolved_in relation column_id)))
      | None \<Rightarrow>
          bind_result (resolve_unqualified relations name location None) (\<lambda>found.
          case found of
            Some column \<Rightarrow> Inr column
          | None \<Rightarrow>
              Inl (make_semantic_error location
                (if length relations = 1
                 then ''column '' @ quoted name @ '' does not exist in table '' @ quoted (tm_table_name (hd relations))
                 else ''column '' @ quoted name @ '' does not exist'')
                (unqualified_column_suggestion relations name))))"

fun type_name :: "Type \<Rightarrow> string" where
  "type_name kInt = ''INT''"
| "type_name kBigInt = ''BIGINT''"
| "type_name kDouble = ''DOUBLE''"
| "type_name kBoolean = ''BOOLEAN''"
| "type_name kVarchar = ''VARCHAR''"

definition same_column :: "BoundColumnRef \<Rightarrow> BoundColumnRef \<Rightarrow> bool" where
  "same_column lhs rhs \<longleftrightarrow> bc_table_id lhs = bc_table_id rhs \<and> bc_column_id lhs = bc_column_id rhs"

subsection \<open>Aggregates\<close>

fun aggregate_kind :: "AstAggregateKind \<Rightarrow> AggregateKind" where
  "aggregate_kind AstCount = kCount"
| "aggregate_kind AstSum = kSum"
| "aggregate_kind AstAvg = kAvg"
| "aggregate_kind AstMin = kMin"
| "aggregate_kind AstMax = kMax"

fun ast_aggregate_name :: "AstAggregateKind \<Rightarrow> string" where
  "ast_aggregate_name AstCount = ''COUNT''"
| "ast_aggregate_name AstSum = ''SUM''"
| "ast_aggregate_name AstAvg = ''AVG''"
| "ast_aggregate_name AstMin = ''MIN''"
| "ast_aggregate_name AstMax = ''MAX''"

text \<open>The switch over the kind: output type and nullability for an argument type.\<close>

definition aggregate_output :: "AstAggregateKind \<Rightarrow> SourceRange \<Rightarrow> Type \<Rightarrow> (CompileError, Type \<times> bool) result" where
  "aggregate_output kind source input_type =
     (let numeric = (input_type = Type.kInt \<or> input_type = Type.kBigInt \<or> input_type = Type.kDouble) in
      case kind of
        AstCount \<Rightarrow> Inr (Type.kBigInt, False)
      | AstSum \<Rightarrow>
          if \<not> numeric then
            Inl (make_semantic_error source (''SUM requires a numeric column, but '' @ type_name input_type @ '' found'') None)
          else Inr (if input_type = Type.kDouble then Type.kDouble else Type.kBigInt, True)
      | AstAvg \<Rightarrow>
          if \<not> numeric then
            Inl (make_semantic_error source (''AVG requires a numeric column, but '' @ type_name input_type @ '' found'') None)
          else Inr (Type.kDouble, True)
      | _ \<Rightarrow>
          if \<not> numeric \<and> input_type \<noteq> Type.kVarchar then
            Inl (make_semantic_error source (ast_aggregate_name kind @ '' does not support '' @ type_name input_type) None)
          else Inr (input_type, True))"

definition analyze_aggregate :: "AstAggregateCall \<Rightarrow> RelationScope \<Rightarrow> (CompileError, BoundAggregateCall) result" where
  "analyze_aggregate aggregate relations =
     (case aac_argument aggregate of
        None \<Rightarrow>
          Inr \<lparr>bac_kind = AggregateKind.kCount, bac_argument = None, bac_output_type = Type.kBigInt, bac_nullable = False\<rparr>
      | Some argument \<Rightarrow>
          bind_result (resolve_column relations (asc_qualifier argument) (asc_name argument) (asc_source argument)) (\<lambda>column.
          bind_result (aggregate_output (aac_kind aggregate) (aac_source aggregate) (cm_type (rc_metadata column)))
            (\<lambda>(output_type, nullable).
          Inr \<lparr>bac_kind = aggregate_kind (aac_kind aggregate), bac_argument = Some (rc_reference column),
               bac_output_type = output_type, bac_nullable = nullable\<rparr>)))"

subsection \<open>Assigned values\<close>

fun value_type :: "Value \<Rightarrow> Type option" where
  "value_type (VInt _) = Some Type.kInt"
| "value_type (VBigInt _) = Some Type.kBigInt"
| "value_type (VDouble _) = Some Type.kDouble"
| "value_type (VBool _) = Some Type.kBoolean"
| "value_type (VText _) = Some Type.kVarchar"
| "value_type VNull = None"

text \<open>The conversions: an integer widens to \<open>BIGINT\<close>, either integer to \<open>DOUBLE\<close>.\<close>

fun widen_value :: "Type \<Rightarrow> Value \<Rightarrow> Value" where
  "widen_value target (VInt i) =
     (if target = Type.kBigInt then VBigInt (scast i)
      else if target = Type.kDouble then VDouble (double_of_int (sint i)) else VInt i)"
| "widen_value target (VBigInt i) = (if target = Type.kDouble then VDouble (double_of_int (sint i)) else VBigInt i)"
| "widen_value target value = value"

definition coerce_assignment :: "AstLiteral \<Rightarrow> ColumnMeta \<Rightarrow> (CompileError, Value) result" where
  "coerce_assignment literal target =
     (if is_null_value (al_value literal) then
        if \<not> cm_nullable target then
          Inl (make_semantic_error (al_source literal) (''column '' @ quoted (cm_name target) @ '' is NOT NULL, but NULL found'') None)
        else Inr (al_value literal)
      else
        let actual_type = value_type (al_value literal);
            widens_int_to_bigint = (cm_type target = Type.kBigInt \<and> actual_type = Some Type.kInt);
            widens_to_double = (cm_type target = Type.kDouble \<and>
              (actual_type = Some Type.kInt \<or> actual_type = Some Type.kBigInt))
        in if actual_type = None \<or>
              (Some (cm_type target) \<noteq> actual_type \<and> \<not> widens_int_to_bigint \<and> \<not> widens_to_double) then
             Inl (make_semantic_error (al_source literal)
               (''column '' @ quoted (cm_name target) @ '' expects '' @ type_name (cm_type target) @ '', but '' @
                (case actual_type of Some t \<Rightarrow> type_name t | None \<Rightarrow> ''unsupported'') @ '' found'') None)
           else if widens_int_to_bigint \<or> widens_to_double then Inr (widen_value (cm_type target) (al_value literal))
           else Inr (al_value literal))"


subsection \<open>Expressions\<close>

fun semantic_type :: "Type \<Rightarrow> SemanticType" where
  "semantic_type kInt = SemInt"
| "semantic_type kBigInt = SemBigInt"
| "semantic_type kDouble = SemDouble"
| "semantic_type kVarchar = SemVarchar"
| "semantic_type kBoolean = SemBool"

fun semantic_value_type :: "Value \<Rightarrow> SemanticType" where
  "semantic_value_type (VInt _) = SemInt"
| "semantic_value_type (VBigInt _) = SemBigInt"
| "semantic_value_type (VDouble _) = SemDouble"
| "semantic_value_type (VBool _) = SemBool"
| "semantic_value_type (VText _) = SemVarchar"
| "semantic_value_type VNull = SemNull"

definition is_numeric :: "SemanticType \<Rightarrow> bool" where
  "is_numeric type \<longleftrightarrow> type = SemInt \<or> type = SemBigInt \<or> type = SemDouble"

fun semantic_type_name :: "SemanticType \<Rightarrow> string" where
  "semantic_type_name SemInt = ''INT''"
| "semantic_type_name SemBigInt = ''BIGINT''"
| "semantic_type_name SemDouble = ''DOUBLE''"
| "semantic_type_name SemVarchar = ''VARCHAR''"
| "semantic_type_name SemBool = ''BOOL''"
| "semantic_type_name SemNull = ''NULL''"
| "semantic_type_name SemUnsupported = ''unsupported''"

fun bound_compare_op :: "AstCompareOp \<Rightarrow> CmpOp" where
  "bound_compare_op AstEq = kEq"
| "bound_compare_op AstNe = kNe"
| "bound_compare_op AstLt = kLt"
| "bound_compare_op AstLe = kLe"
| "bound_compare_op AstGt = kGt"
| "bound_compare_op AstGe = kGe"

definition bound_logic_op :: "AstLogicOp \<Rightarrow> LogicOp" where
  "bound_logic_op op = (if op = AstAnd then kAnd else kOr)"

fun compare_symbol :: "AstCompareOp \<Rightarrow> string" where
  "compare_symbol AstEq = ''=''"
| "compare_symbol AstNe = ''!=''"
| "compare_symbol AstLt = ''<''"
| "compare_symbol AstLe = ''<=''"
| "compare_symbol AstGt = ''>''"
| "compare_symbol AstGe = ''>=''"

definition logic_symbol :: "AstLogicOp \<Rightarrow> string" where
  "logic_symbol op = (if op = AstAnd then ''AND'' else ''OR'')"

definition is_equality :: "AstCompareOp \<Rightarrow> bool" where
  "is_equality op \<longleftrightarrow> op = AstEq \<or> op = AstNe"

fun expression_source :: "AstExpr \<Rightarrow> SourceRange" where
  "expression_source (AstIdentifier identifier) = ai_source identifier"
| "expression_source (AstLiteralExpr value source) = source"
| "expression_source (AstBinary op source lhs rhs) = source"
| "expression_source (AstNullTest op source operand) = source"
| "expression_source (AstUnary source operand) = source"

text \<open>The checks on the operand types of a comparison: the error message, if any.\<close>

definition comparison_fault :: "AstCompareOp \<Rightarrow> SemanticType \<Rightarrow> SemanticType \<Rightarrow> string option" where
  "comparison_fault comparison lhs rhs =
     (let operator_text = ''operator '' @ quoted (compare_symbol comparison) @ '' cannot be applied to '' in
      if lhs = SemNull \<or> rhs = SemNull then
        let concrete = (if lhs = SemNull then rhs else lhs) in
        if concrete = SemUnsupported then Some (operator_text @ ''unsupported values'')
        else if \<not> is_equality comparison \<and> (concrete = SemBool \<or> concrete = SemVarchar) then
          Some (operator_text @ semantic_type_name concrete)
        else None
      else if lhs \<noteq> rhs \<and> \<not> (is_numeric lhs \<and> is_numeric rhs) then
        Some (operator_text @ semantic_type_name lhs @ '' and '' @ semantic_type_name rhs)
      else if lhs = SemUnsupported \<or> rhs = SemUnsupported then Some (operator_text @ ''unsupported values'')
      else if lhs = SemBool \<and> \<not> is_equality comparison then Some (operator_text @ ''BOOL'')
      else if lhs = SemVarchar \<and> \<not> is_equality comparison then Some (operator_text @ ''VARCHAR'')
      else None)"

definition is_truth_type :: "SemanticType \<Rightarrow> bool" where
  "is_truth_type type \<longleftrightarrow> type = SemBool \<or> type = SemNull"

fun analyze_expression :: "AstExpr \<Rightarrow> RelationScope \<Rightarrow> (CompileError, AnalyzedExpression) result" where
  "analyze_expression (AstIdentifier identifier) relations =
     bind_result (resolve_column relations (ai_qualifier identifier) (ai_name identifier) (ai_source identifier)) (\<lambda>column.
     Inr \<lparr>ae_expression = BoundColumn (rc_reference column), ae_type = semantic_type (cm_type (rc_metadata column))\<rparr>)"
| "analyze_expression (AstLiteralExpr value source) relations =
     Inr \<lparr>ae_expression = BoundLiteral value, ae_type = semantic_value_type value\<rparr>"
| "analyze_expression (AstBinary op source lhs_ast rhs_ast) relations =
     bind_result (analyze_expression lhs_ast relations) (\<lambda>lhs.
     bind_result (analyze_expression rhs_ast relations) (\<lambda>rhs.
     case op of
       AstCompare comparison \<Rightarrow>
         (case comparison_fault comparison (ae_type lhs) (ae_type rhs) of
            Some message \<Rightarrow> Inl (make_semantic_error source message None)
          | None \<Rightarrow>
              Inr \<lparr>ae_expression = BoundBinaryExpr (Cmp (bound_compare_op comparison)) (ae_expression lhs) (ae_expression rhs),
                   ae_type = SemBool\<rparr>)
     | AstLogic logic \<Rightarrow>
         if \<not> is_truth_type (ae_type lhs) \<or> \<not> is_truth_type (ae_type rhs) then
           Inl (make_semantic_error source (''operator '' @ quoted (logic_symbol logic) @ '' requires BOOL operands'') None)
         else
           Inr \<lparr>ae_expression = BoundBinaryExpr (Logic (bound_logic_op logic)) (ae_expression lhs) (ae_expression rhs),
                ae_type = SemBool\<rparr>))"
| "analyze_expression (AstNullTest op source operand_ast) relations =
     bind_result (analyze_expression operand_ast relations) (\<lambda>operand.
     if ae_type operand = SemUnsupported then
       Inl (make_semantic_error source ''IS NULL operand has an unsupported type'' None)
     else
       Inr \<lparr>ae_expression = BoundNullTestExpr (if op = AstIsNull then kIsNull else kIsNotNull) (ae_expression operand),
            ae_type = SemBool\<rparr>)"
| "analyze_expression (AstUnary source operand_ast) relations =
     bind_result (analyze_expression operand_ast relations) (\<lambda>operand.
     if ae_type operand \<noteq> SemBool \<and> ae_type operand \<noteq> SemNull then
       Inl (make_semantic_error source (''operator '' @ quoted ''NOT'' @ '' requires a BOOL operand'') None)
     else Inr \<lparr>ae_expression = BoundUnaryExpr kNot (ae_expression operand), ae_type = SemBool\<rparr>)"

text \<open>A condition of a join or a \<open>WHERE\<close> clause: the same lines in all four statements.\<close>

definition analyze_predicate :: "string \<Rightarrow> AstExpr \<Rightarrow> RelationScope \<Rightarrow> (CompileError, BoundExpr) result" where
  "analyze_predicate message condition relations =
     bind_result (analyze_expression condition relations) (\<lambda>analyzed.
     if ae_type analyzed \<noteq> SemBool \<and> ae_type analyzed \<noteq> SemNull then
       Inl (make_semantic_error (expression_source condition) message None)
     else Inr (ae_expression analyzed))"

definition analyze_where :: "AstExpr option \<Rightarrow> RelationScope \<Rightarrow> (CompileError, BoundExpr option) result" where
  "analyze_where predicate relations =
     (case predicate of
        None \<Rightarrow> Inr None
      | Some condition \<Rightarrow> bind_result (analyze_predicate ''WHERE predicate must be BOOL'' condition relations) (\<lambda>e. Inr (Some e)))"


subsection \<open>CREATE TABLE and INSERT\<close>

text \<open>The first column whose name occurs before it.\<close>

fun duplicate_column :: "AstColumnDef list \<Rightarrow> AstColumnDef list \<Rightarrow> AstColumnDef option" where
  "duplicate_column previous [] = None"
| "duplicate_column previous (column # rest) =
     (if list_ex (\<lambda>p. acd_name p = acd_name column) previous then Some column
      else duplicate_column (previous @ [column]) rest)"

definition analyze_create :: "CreateTableAst \<Rightarrow> TableMeta list \<Rightarrow> (CompileError, BoundStatement) result" where
  "analyze_create create catalog =
     (if find_table_named catalog (cta_table_name create) \<noteq> None then
        Inl (make_semantic_error (cta_table_source create) (''table '' @ quoted (cta_table_name create) @ '' already exists'') None)
      else case duplicate_column [] (cta_columns create) of
        Some column \<Rightarrow> Inl (make_semantic_error (acd_source column) (''duplicate column '' @ quoted (acd_name column)) None)
      | None \<Rightarrow>
          Inr (StatementCreateTable
            \<lparr>bct_table_name = cta_table_name create,
             bct_columns = map (\<lambda>column. \<lparr>cm_name = acd_name column, cm_type = acd_type column, cm_nullable = acd_nullable column\<rparr>)
               (cta_columns create)\<rparr>))"

definition missing_table :: "TableMeta list \<Rightarrow> string \<Rightarrow> SourceRange \<Rightarrow> CompileError" where
  "missing_table catalog name source =
     make_semantic_error source (''table '' @ quoted name @ '' does not exist'') (table_suggestion catalog name)"

definition missing_column :: "TableMeta \<Rightarrow> string \<Rightarrow> SourceRange \<Rightarrow> CompileError" where
  "missing_column table name source =
     make_semantic_error source
       (''column '' @ quoted name @ '' does not exist in table '' @ quoted (tm_table_name table))
       (qualified_column_suggestion table (tm_table_name table) name)"

fun bind_insert_columns ::
    "TableMeta \<Rightarrow> ColumnId list \<Rightarrow> AstInsertColumn list \<Rightarrow> (CompileError, ColumnId list) result" where
  "bind_insert_columns table bound_columns [] = Inr bound_columns"
| "bind_insert_columns table bound_columns (column # rest) =
     (case find_column table (aic_name column) of
        None \<Rightarrow> Inl (missing_column table (aic_name column) (aic_source column))
      | Some column_id \<Rightarrow>
          if List.member bound_columns column_id then
            Inl (make_semantic_error (aic_source column) (''duplicate column '' @ quoted (aic_name column)) None)
          else bind_insert_columns table (bound_columns @ [column_id]) rest)"

text \<open>The first table column that an explicit column list leaves out.\<close>

definition unlisted_column :: "TableMeta \<Rightarrow> ColumnId list \<Rightarrow> nat option" where
  "unlisted_column table bound_columns =
     find (\<lambda>index. \<not> List.member bound_columns (word_of_nat index)) [0..<length (tm_columns table)]"

definition analyze_row :: "TableMeta \<Rightarrow> SourceRange \<Rightarrow> ColumnId list \<Rightarrow> AstLiteral list \<Rightarrow> (CompileError, Value list) result" where
  "analyze_row table table_source bound_columns row =
     (let expected_count = length (tm_columns table) in
      if length row \<noteq> expected_count then
        Inl (make_semantic_error
          (if expected_count < length row then al_source (row ! expected_count)
           else if row = [] then table_source else al_source (hd row))
          ''VALUES row value count does not match target column count'' None)
      else collect_results (\<lambda>index.
        let target_id = (if bound_columns = [] then word_of_nat index else bound_columns ! index)
        in coerce_assignment (row ! index) (tm_columns table ! unat (target_id :: ColumnId))) [0..<length row])"

definition analyze_insert :: "InsertAst \<Rightarrow> TableMeta list \<Rightarrow> (CompileError, BoundStatement) result" where
  "analyze_insert insertion catalog =
     (case find_table_named catalog (ia_table_name insertion) of
        None \<Rightarrow> Inl (missing_table catalog (ia_table_name insertion) (ia_table_source insertion))
      | Some table \<Rightarrow>
          bind_result (bind_insert_columns table [] (ia_columns insertion)) (\<lambda>bound_columns.
          case (if ia_columns insertion \<noteq> [] \<and> length bound_columns \<noteq> length (tm_columns table)
                then unlisted_column table bound_columns else None) of
            Some index \<Rightarrow>
              Inl (make_semantic_error (ia_table_source insertion)
                (''explicit INSERT column list must contain all columns; missing column '' @
                 quoted (cm_name (tm_columns table ! index))) None)
          | None \<Rightarrow>
              bind_result (collect_results (analyze_row table (ia_table_source insertion) bound_columns) (ia_rows insertion)) (\<lambda>rows.
              Inr (StatementInsert \<lparr>bi_table_id = tm_table_id table, bi_columns = bound_columns, bi_rows = rows\<rparr>))))"

subsection \<open>SELECT\<close>

fun analyze_joins ::
    "TableMeta list \<Rightarrow> RelationScope \<Rightarrow> AstJoin list \<Rightarrow> (CompileError, RelationScope \<times> BoundJoin list) result" where
  "analyze_joins catalog relations [] = Inr (relations, [])"
| "analyze_joins catalog relations (join # rest) =
     (case find_table_named catalog (aj_table_name join) of
        None \<Rightarrow> Inl (missing_table catalog (aj_table_name join) (aj_table_source join))
      | Some joined_table \<Rightarrow>
          if list_ex (\<lambda>relation. tm_table_id relation = tm_table_id joined_table) relations then
            Inl (make_semantic_error (aj_table_source join)
              (''table '' @ quoted (aj_table_name join) @ '' is already present in query; aliases are not supported'') None)
          else
            bind_result (analyze_predicate ''JOIN ON predicate must be BOOL'' (aj_condition join) (relations @ [joined_table])) (\<lambda>condition.
            bind_result (analyze_joins catalog (relations @ [joined_table]) rest) (\<lambda>(scope, joins).
            Inr (scope, \<lparr>bj_table_id = tm_table_id joined_table, bj_condition = condition\<rparr> # joins))))"

definition grouped :: "BoundColumnRef list \<Rightarrow> BoundColumnRef \<Rightarrow> bool" where
  "grouped group_by reference \<longleftrightarrow> list_ex (\<lambda>key. same_column key reference) group_by"

fun analyze_group_by ::
    "RelationScope \<Rightarrow> BoundColumnRef list \<Rightarrow> AstSelectColumn list \<Rightarrow> (CompileError, BoundColumnRef list) result" where
  "analyze_group_by relations group_by [] = Inr group_by"
| "analyze_group_by relations group_by (key # rest) =
     bind_result (resolve_column relations (asc_qualifier key) (asc_name key) (asc_source key)) (\<lambda>column.
     analyze_group_by relations
       (if \<not> grouped group_by (rc_reference column) then group_by @ [rc_reference column] else group_by) rest)"

fun is_aggregate_item :: "AstSelectItem \<Rightarrow> bool" where
  "is_aggregate_item (AstAggregateItem call) = True"
| "is_aggregate_item (AstColumnItem column) = False"

definition all_columns :: "RelationScope \<Rightarrow> BoundSelectItem list" where
  "all_columns relations =
     concat (map (\<lambda>relation. map (\<lambda>index. SelectColumn
       \<lparr>bc_table_id = tm_table_id relation, bc_column_id = word_of_nat index\<rparr>) [0..<length (tm_columns relation)]) relations)"

fun analyze_item ::
    "RelationScope \<Rightarrow> bool \<Rightarrow> BoundColumnRef list \<Rightarrow> AstSelectItem \<Rightarrow> (CompileError, BoundSelectItem) result" where
  "analyze_item relations aggregate_query group_by (AstColumnItem column) =
     bind_result (resolve_column relations (asc_qualifier column) (asc_name column) (asc_source column)) (\<lambda>resolved.
     if aggregate_query \<and> \<not> grouped group_by (rc_reference resolved) then
       Inl (make_semantic_error (asc_source column)
         (''column '' @ quoted (asc_name column) @ '' is neither grouped nor aggregated'') None)
     else Inr (SelectColumn (rc_reference resolved)))"
| "analyze_item relations aggregate_query group_by (AstAggregateItem call) =
     bind_result (analyze_aggregate call relations) (\<lambda>aggregate. Inr (SelectAggregate aggregate))"

definition analyze_sort_key ::
    "RelationScope \<Rightarrow> bool \<Rightarrow> BoundColumnRef list \<Rightarrow> AstSortKey \<Rightarrow> (CompileError, BoundSortKey) result" where
  "analyze_sort_key relations aggregate_query group_by key =
     bind_result (resolve_column relations (ask_qualifier key) (ask_column_name key) (ask_source key)) (\<lambda>resolved.
     if aggregate_query \<and> \<not> grouped group_by (rc_reference resolved) then
       Inl (make_semantic_error (ask_source key)
         (''ORDER BY column '' @ quoted (ask_column_name key) @ '' is neither grouped nor aggregated'') None)
     else Inr \<lparr>bsk_column = rc_reference resolved,
               bsk_direction = (if ask_direction key = AstAsc then kAsc else kDesc)\<rparr>)"

definition analyze_select :: "SelectAst \<Rightarrow> TableMeta list \<Rightarrow> (CompileError, BoundStatement) result" where
  "analyze_select select catalog =
     (case find_table_named catalog (sa_table_name select) of
        None \<Rightarrow> Inl (missing_table catalog (sa_table_name select) (sa_table_source select))
      | Some table \<Rightarrow>
          bind_result (analyze_joins catalog [table] (sa_joins select)) (\<lambda>(relations, joins).
          bind_result (analyze_group_by relations [] (sa_group_by select)) (\<lambda>group_by.
          let aggregate_query = (list_ex is_aggregate_item (sa_items select) \<or> group_by \<noteq> []) in
          if sa_select_all select \<and> aggregate_query then
            Inl (make_semantic_error (sa_table_source select) ''SELECT * is not allowed in an aggregate query'' None)
          else
            bind_result (if sa_select_all select then Inr (all_columns relations)
                         else collect_results (analyze_item relations aggregate_query group_by) (sa_items select)) (\<lambda>items.
            bind_result (analyze_where (sa_predicate select) relations) (\<lambda>predicate.
            bind_result (collect_results (analyze_sort_key relations aggregate_query group_by) (sa_order_by select)) (\<lambda>order_by.
            Inr (StatementSelect
              \<lparr>bs_table_id = tm_table_id table, bs_joins = joins, bs_items = items, bs_predicate = predicate,
               bs_group_by = group_by, bs_order_by = order_by\<rparr>)))))))"

subsection \<open>DELETE and UPDATE\<close>

definition analyze_delete :: "DeleteAst \<Rightarrow> TableMeta list \<Rightarrow> (CompileError, BoundStatement) result" where
  "analyze_delete deletion catalog =
     (case find_table_named catalog (da_table_name deletion) of
        None \<Rightarrow> Inl (missing_table catalog (da_table_name deletion) (da_table_source deletion))
      | Some table \<Rightarrow>
          bind_result (analyze_where (da_predicate deletion) [table]) (\<lambda>predicate.
          Inr (StatementDelete \<lparr>bd_table_id = tm_table_id table, bd_predicate = predicate\<rparr>)))"

fun analyze_assignments ::
    "TableMeta \<Rightarrow> BoundUpdateAssignment list \<Rightarrow> AstUpdateAssignment list \<Rightarrow> (CompileError, BoundUpdateAssignment list) result" where
  "analyze_assignments table bound [] = Inr bound"
| "analyze_assignments table bound (assignment # rest) =
     (case find_column table (aua_column_name assignment) of
        None \<Rightarrow> Inl (missing_column table (aua_column_name assignment) (aua_column_source assignment))
      | Some column_id \<Rightarrow>
          if list_ex (\<lambda>candidate. bua_column_id candidate = column_id) bound then
            Inl (make_semantic_error (aua_column_source assignment)
              (''duplicate column '' @ quoted (aua_column_name assignment)) None)
          else
            bind_result (coerce_assignment (aua_literal assignment) (tm_columns table ! unat column_id)) (\<lambda>value.
            analyze_assignments table (bound @ [\<lparr>bua_column_id = column_id, bua_value = value\<rparr>]) rest))"

definition analyze_update :: "UpdateAst \<Rightarrow> TableMeta list \<Rightarrow> (CompileError, BoundStatement) result" where
  "analyze_update update catalog =
     (case find_table_named catalog (upa_table_name update) of
        None \<Rightarrow> Inl (missing_table catalog (upa_table_name update) (upa_table_source update))
      | Some table \<Rightarrow>
          bind_result (analyze_assignments table [] (upa_assignments update)) (\<lambda>assignments.
          bind_result (analyze_where (upa_predicate update) [table]) (\<lambda>predicate.
          Inr (StatementUpdate
            \<lparr>bu_table_id = tm_table_id table, bu_assignments = assignments, bu_predicate = predicate\<rparr>))))"

fun analyze :: "StatementAst \<Rightarrow> TableMeta list \<Rightarrow> (CompileError, BoundStatement) result" where
  "analyze (StCreateTable create) catalog = analyze_create create catalog"
| "analyze (StInsert insertion) catalog = analyze_insert insertion catalog"
| "analyze (StSelect select) catalog = analyze_select select catalog"
| "analyze (StDelete deletion) catalog = analyze_delete deletion catalog"
| "analyze (StUpdate update) catalog = analyze_update update catalog"

end
