(* ===== verification/Compiler.thy ===== *)
theory Compiler
  imports Semantic Optimizer Source_Text
begin

text \<open>
  The composition of the compiler, \<open>compile\<close> in \<open>src/compiler/compiler.cpp\<close>: size check, tokens, syntax tree, bound
  statement, optimization and plan. The first stage that fails ends it. \<open>std::from_chars\<close> on floating literals is a parameter.
\<close>

definition generate_plan :: "BoundStatement \<Rightarrow> TableMeta list \<Rightarrow> (CompileError, Plan) result" where
  "generate_plan statement catalog =
     (case statement of
        StatementSelect select \<Rightarrow> generate_select_plan select catalog
      | StatementDelete deletion \<Rightarrow> generate_delete_plan deletion catalog
      | StatementUpdate updating \<Rightarrow> generate_update_plan updating catalog
      | StatementInsert insertion \<Rightarrow> Inr (generate_insert_plan insertion)
      | StatementCreateTable create \<Rightarrow> Inr (generate_create_table_plan create))"

definition compile :: "(string \<Rightarrow> u64 option) \<Rightarrow> string \<Rightarrow> TableMeta list \<Rightarrow> (CompileError, Plan) result" where
  "compile from_chars sql catalog =
     (if kMaxSqlBytes < length sql then
        Inl \<lparr>ce_stage = kLex,
             ce_source = \<lparr>sr_begin = \<lparr>sl_line = 1, sl_column = 1, sl_byte_offset = 0\<rparr>,
                          sr_end = \<lparr>sl_line = 1, sl_column = 1, sl_byte_offset = 0\<rparr>\<rparr>,
             ce_message = ''SQL text exceeds maximum length'', ce_suggestion = None, ce_fix_it = None\<rparr>
      else
        bind_result (tokenize from_chars sql) (\<lambda>tokens.
        bind_result (parse from_chars tokens) (\<lambda>statement.
        bind_result (analyze statement catalog) (\<lambda>bound.
        generate_plan (optimize bound) catalog))))"

end
