(* ===== verification/Semantic_Typing.thy ===== *)
theory Semantic_Typing
  imports Semantic Optimizer Query_Semantics
begin

text \<open>
  What semantic analysis guarantees to the later stages: every resolved name is a column of a table in scope, every
  analyzed expression has, in the runtime's own type system, the type the analyzer computed for it, and optimizer and
  planner keep that.
\<close>

subsection \<open>Resolved names\<close>

definition small_tables :: "TableMeta list \<Rightarrow> bool" where
  "small_tables tables \<longleftrightarrow> (\<forall>t \<in> set tables. length (tm_columns t) \<le> 2 ^ 32)"

definition column_in :: "RelationScope \<Rightarrow> BoundColumnRef \<Rightarrow> ColumnMeta \<Rightarrow> bool" where
  "column_in relations reference column \<longleftrightarrow>
     (\<exists>t \<in> set relations. tm_table_id t = bc_table_id reference \<and> unat (bc_column_id reference) < length (tm_columns t)
       \<and> column = tm_columns t ! unat (bc_column_id reference))"

lemma find_column_from_Some:
  "find_column_from i columns name = Some c \<Longrightarrow>
   \<exists>k < length columns. c = word_of_nat (i + k) \<and> cm_name (columns ! k) = name"
proof (induction i columns name rule: find_column_from.induct)
  case (2 i column rest name)
  show ?case
  proof (cases "cm_name column = name")
    case False
    then obtain k where "k < length rest" "c = word_of_nat (i + 1 + k)" "cm_name (rest ! k) = name" using 2 by auto
    then show ?thesis by (intro exI [of _ "Suc k"]) (simp add: add.assoc)
  qed (use "2.prems" in auto)
qed simp

lemma unat_index: "n \<le> 2 ^ 32 \<Longrightarrow> k < n \<Longrightarrow> unat (word_of_nat k :: u32) = k"
  by (simp add: unat_of_nat)

lemma find_column_Some:
  assumes "find_column t name = Some c" "length (tm_columns t) \<le> 2 ^ 32"
  shows "unat c < length (tm_columns t)" "cm_name (tm_columns t ! unat c) = name"
  using find_column_from_Some [of 0 "tm_columns t" name c] assms unat_index [OF assms(2)] unfolding find_column_def by auto

lemma resolved_in_column:
  assumes "t \<in> set relations" "find_column t name = Some c" "small_tables relations"
  shows "column_in relations (rc_reference (resolved_in t c)) (rc_metadata (resolved_in t c))"
  using find_column_Some [OF assms(2)] assms(1,3)
  by (auto simp: column_in_def resolved_in_def small_tables_def)

lemma column_in_mono: "set relations \<subseteq> set relations' \<Longrightarrow> column_in relations r c \<Longrightarrow> column_in relations' r c"
  by (auto simp: column_in_def)

lemma resolve_unqualified_column:
  "resolve_unqualified tables name location found = Inr found' \<Longrightarrow> set tables \<subseteq> set relations \<Longrightarrow> small_tables relations \<Longrightarrow>
   (case found of None \<Rightarrow> True | Some r \<Rightarrow> column_in relations (rc_reference r) (rc_metadata r)) \<Longrightarrow>
   (case found' of None \<Rightarrow> True | Some r \<Rightarrow> column_in relations (rc_reference r) (rc_metadata r))"
proof (induction tables name location found rule: resolve_unqualified.induct)
  case (2 table rest name location found)
  show ?case
  proof (cases "find_column table name")
    case (Some c)
    have "column_in relations (rc_reference (resolved_in table c)) (rc_metadata (resolved_in table c))"
      using 2 by (intro resolved_in_column [OF _ Some]) auto
    then show ?thesis using "2.IH"(2) [OF Some] "2.prems" Some by (auto split: if_splits)
  qed (use 2 in auto)
qed simp

lemma resolve_column_in:
  assumes "resolve_column relations qualifier name location = Inr r" "small_tables relations"
  shows "column_in relations (rc_reference r) (rc_metadata r)"
proof (cases qualifier)
  case None
  then obtain found where "resolve_unqualified relations name location None = Inr found" "found = Some r"
    using assms(1) by (auto simp: resolve_column_def result_simps split: option.splits)
  then show ?thesis using resolve_unqualified_column [of relations name location None found relations] assms(2) by simp
next
  case (Some q)
  then show ?thesis using assms
    by (auto simp: resolve_column_def find_Some_iff split: option.splits intro!: resolved_in_column)
qed

subsection \<open>Bindings of a scope\<close>

definition binding_row :: "SlotBinding \<Rightarrow> SlotRow" where
  "binding_row b = map (\<lambda>(c, column). \<lparr>sv_slot_id = sc_output_slot c, sv_value = validation_value (cm_type column)\<rparr>)
     (zip (sb_columns b) (tm_columns (sb_table b)))"

definition scope_row :: "SlotBinding list \<Rightarrow> SlotRow" where
  "scope_row bindings = concat (map binding_row bindings)"

definition binding_ok :: "SlotBinding \<Rightarrow> bool" where
  "binding_ok b \<longleftrightarrow> map sc_column_id (sb_columns b) = map word_of_nat [0..<length (tm_columns (sb_table b))]
     \<and> length (tm_columns (sb_table b)) \<le> 2 ^ 32 \<and> distinct (map sc_output_slot (sb_columns b))"

definition bindings_ok :: "SlotBinding list \<Rightarrow> bool" where
  "bindings_ok bindings \<longleftrightarrow> list_all binding_ok bindings \<and> distinct (map (\<lambda>b. tm_table_id (sb_table b)) bindings)
     \<and> distinct (concat (map (\<lambda>b. map sc_output_slot (sb_columns b)) bindings))"

lemma binding_ok_length: "binding_ok b \<Longrightarrow> length (sb_columns b) = length (tm_columns (sb_table b))"
  by (metis binding_ok_def diff_zero length_map length_upt)

lemma binding_ok_nth:
  assumes "binding_ok b" "k < length (tm_columns (sb_table b))"
  shows "sc_column_id (sb_columns b ! k) = word_of_nat k" "unat (sc_column_id (sb_columns b ! k)) = k"
proof -
  have "map sc_column_id (sb_columns b) ! k = map word_of_nat [0..<length (tm_columns (sb_table b))] ! k"
    using assms by (simp add: binding_ok_def)
  then show c: "sc_column_id (sb_columns b ! k) = word_of_nat k" using assms binding_ok_length [OF assms(1)] by simp
  show "unat (sc_column_id (sb_columns b ! k)) = k"
    unfolding c by (rule unat_index [OF _ assms(2)]) (use assms(1) in \<open>simp add: binding_ok_def\<close>)
qed

lemma binding_row_slots: "binding_ok b \<Longrightarrow> slots_of (binding_row b) = map sc_output_slot (sb_columns b)"
  using binding_ok_length [of b] by (intro nth_equalityI) (auto simp: binding_row_def)

lemma scope_row_slots:
  "list_all binding_ok bindings \<Longrightarrow> slots_of (scope_row bindings) = concat (map (\<lambda>b. map sc_output_slot (sb_columns b)) bindings)"
  by (induction bindings) (simp_all add: scope_row_def binding_row_slots)

lemma bindings_ok_take: "bindings_ok bindings \<Longrightarrow> bindings_ok (take n bindings)"
proof -
  assume ok: "bindings_ok bindings"
  let ?f = "\<lambda>b. map sc_output_slot (sb_columns b)"
  have "concat (map ?f bindings) = concat (map ?f (take n bindings)) @ concat (map ?f (drop n bindings))"
    by (metis append_take_drop_id concat_append map_append)
  moreover have "distinct (map (\<lambda>b. tm_table_id (sb_table b)) (take n bindings))"
    using ok by (simp add: bindings_ok_def take_map [symmetric])
  ultimately show ?thesis using ok by (auto simp: bindings_ok_def list_all_iff dest: in_set_takeD)
qed

lemma build_slot_bindings_ok:
  assumes "build_slot_bindings catalog ids = Inr bindings" "distinct ids" "small_tables catalog"
  shows "bindings_ok bindings" "map (\<lambda>b. tm_table_id (sb_table b)) bindings = ids"
    "\<forall>b \<in> set bindings. sb_table b \<in> set catalog"
proof -
  let ?N = "sum_list (map (\<lambda>b. length (sb_columns b)) bindings)"
  note b = build_slot_bindings_from_Inr [OF assms(1) [unfolded build_slot_bindings_def]]
  then have slots: "concat (map (\<lambda>b. map sc_output_slot (sb_columns b)) bindings) = map word_of_nat [0..<?N]"
    unfolding add_0 by blast
  have "?N \<le> 2 ^ 32" using b by (cases "?N = 0") (simp_all del: sum_list_eq_0_iff)
  then have d: "distinct (concat (map (\<lambda>b. map sc_output_slot (sb_columns b)) bindings))"
    unfolding slots by (rule distinct_slot_numbers)
  then have "distinct (map sc_output_slot (sb_columns x))" if "x \<in> set bindings" for x
    using that by (auto simp: distinct_concat_iff)
  then show "bindings_ok bindings" using b d assms(2,3)
    by (auto simp: bindings_ok_def binding_ok_def list_all_iff small_tables_def)
  show "map (\<lambda>b. tm_table_id (sb_table b)) bindings = ids" "\<forall>b \<in> set bindings. sb_table b \<in> set catalog"
    using b by (auto simp: list_all_iff)
qed

lemma find_slot_at:
  assumes "b \<in> set bindings" "distinct (map (\<lambda>b. tm_table_id (sb_table b)) bindings)"
  shows "find_slot bindings \<lparr>bc_table_id = tm_table_id (sb_table b), bc_column_id = c\<rparr> =
      map_option sc_output_slot (find (\<lambda>s. sc_column_id s = c) (sb_columns b))"
    "find_binding bindings (tm_table_id (sb_table b)) = Some b"
  using assms by (induction bindings) (auto simp: find_binding_def)

lemma find_scan_column:
  assumes "binding_ok b" "unat c < length (tm_columns (sb_table b))"
  shows "find (\<lambda>s. sc_column_id s = c) (sb_columns b) = Some (sb_columns b ! unat c)"
proof -
  have at: "sc_column_id (sb_columns b ! unat c) = c" using binding_ok_nth(1) [OF assms] by simp
  have "sc_column_id (sb_columns b ! j) \<noteq> c" if "j < unat c" for j
    using binding_ok_nth(2) [OF assms(1), of j] that assms(2) by auto
  then show ?thesis using at assms(2) binding_ok_length [OF assms(1)] by (auto simp: find_Some_iff)
qed

text \<open>A column in scope has a slot, and the static row has a value of the column's type there.\<close>

lemma column_slot:
  assumes "column_in (map sb_table bindings) r column" "bindings_ok bindings"
  obtains slot b where "find_slot bindings r = Some slot" "find_binding bindings (bc_table_id r) = Some b"
    "unat (bc_column_id r) < length (tm_columns (sb_table b))" "tm_columns (sb_table b) ! unat (bc_column_id r) = column"
    "lookup_value (scope_row bindings) slot = Inr (validation_value (cm_type column))"
    "\<lparr>sv_slot_id = slot, sv_value = validation_value (cm_type column)\<rparr> \<in> set (scope_row bindings)"
proof -
  obtain b where b: "b \<in> set bindings" "tm_table_id (sb_table b) = bc_table_id r"
      "unat (bc_column_id r) < length (tm_columns (sb_table b))" "column = tm_columns (sb_table b) ! unat (bc_column_id r)"
    using assms(1) by (auto simp: column_in_def)
  have ok: "binding_ok b" and d: "distinct (map (\<lambda>b. tm_table_id (sb_table b)) bindings)" and all: "list_all binding_ok bindings"
    and slots: "distinct (concat (map (\<lambda>b. map sc_output_slot (sb_columns b)) bindings))"
    using assms(2) b(1) by (auto simp: bindings_ok_def list_all_iff)
  let ?i = "unat (bc_column_id r)"
  let ?s = "sc_output_slot (sb_columns b ! ?i)"
  have r: "r = \<lparr>bc_table_id = tm_table_id (sb_table b), bc_column_id = bc_column_id r\<rparr>" using b(2) by simp
  have "find_slot bindings r = Some ?s" by (subst r) (simp add: find_slot_at(1) [OF b(1) d] find_scan_column [OF ok b(3)])
  moreover have e: "\<lparr>sv_slot_id = ?s, sv_value = validation_value (cm_type column)\<rparr> \<in> set (scope_row bindings)"
    using b binding_ok_length [OF ok] unfolding scope_row_def binding_row_def by (force simp: set_zip)
  moreover have "lookup_value (scope_row bindings) ?s = Inr (validation_value (cm_type column))"
    using e slots by (simp add: lookup_value_distinct scope_row_slots [OF all])
  ultimately show ?thesis using that find_slot_at(2) [OF b(1) d] b(2,3,4) by metis
qed

lemma binding_validation_row:
  assumes "binding_ok b"
  shows "make_validation_slot_row (sb_table b) (sb_columns b) = Inr (binding_row b)"
proof -
  let ?t = "sb_table b"
  let ?n = "length (tm_columns ?t)"
  have ids: "map (\<lambda>c. unat (sc_column_id c)) (sb_columns b) = [0..<?n]"
    using binding_ok_nth(2) [OF assms] binding_ok_length [OF assms] by (intro nth_equalityI) auto
  then have scan: "validate_scan_columns ?t (sb_columns b) = None"
    using assms binding_ok_length [OF assms] by (simp add: validate_scan_columns_None binding_ok_def atLeast0LessThan del: set_map)
  have "map (\<lambda>c. \<lparr>sv_slot_id = sc_output_slot c,
      sv_value = map (\<lambda>c. validation_value (cm_type c)) (tm_columns ?t) ! unat (sc_column_id c)\<rparr>) (sb_columns b) = binding_row b"
    using binding_ok_nth(2) [OF assms] binding_ok_length [OF assms] by (intro nth_equalityI) (auto simp: binding_row_def)
  then show ?thesis by (simp add: make_validation_slot_row_def materialize_Inr validation_row_matches scan)
qed


subsection \<open>Expressions\<close>

fun runtime_expr_type :: "SemanticType \<Rightarrow> ExprType" where
  "runtime_expr_type SemInt = EInt"
| "runtime_expr_type SemBigInt = EBigInt"
| "runtime_expr_type SemDouble = EDouble"
| "runtime_expr_type SemVarchar = EVarchar"
| "runtime_expr_type SemBool = EBool"
| "runtime_expr_type SemNull = ENull"
| "runtime_expr_type SemUnsupported = ENull"

fun ast_height :: "AstExpr \<Rightarrow> nat" where
  "ast_height (AstIdentifier _) = 1"
| "ast_height (AstLiteralExpr _ _) = 1"
| "ast_height (AstBinary _ _ lhs rhs) = Suc (max (ast_height lhs) (ast_height rhs))"
| "ast_height (AstUnary _ e) = Suc (ast_height e)"
| "ast_height (AstNullTest _ _ e) = Suc (ast_height e)"

lemma semantic_type_runtime [simp]:
  "semantic_type t \<noteq> SemUnsupported" "type_of_value (validation_value t) = runtime_expr_type (semantic_type t)"
  by (cases t; simp)+

lemma semantic_value_type_runtime [simp]:
  "semantic_value_type v \<noteq> SemUnsupported" "runtime_expr_type (semantic_value_type v) = type_of_value v"
  by (cases v; simp)+

lemma is_equality_bound: "is_ordered_comparison (bound_compare_op op) \<longleftrightarrow> \<not> is_equality op"
  by (cases op) (simp_all add: is_equality_def is_ordered_comparison_def)

lemma comparison_fault_runtime:
  assumes "comparison_fault op a b = None"
  shows "validate_comparison (bound_compare_op op) (runtime_expr_type a) (runtime_expr_type b) = Inr EBool"
  using assms
  by (cases a; cases b) (auto simp: comparison_fault_def validate_comparison_Inr_iff is_numeric_def is_numeric_type_def
      is_equality_bound Let_def split: if_splits)

lemma is_truth_type_runtime:
  "is_truth_type a \<Longrightarrow> is_truth_type b \<Longrightarrow> validate_logic (runtime_expr_type a) (runtime_expr_type b) = Inr EBool"
  by (auto simp: is_truth_type_def validate_logic_def)

text \<open>
  The type that the analyzer computes is the type that the executor finds in the planned expression, against the
  static row of the tables in scope.
\<close>

lemma analyze_expression_typed:
  assumes "analyze_expression e relations = Inr a" "relations = map sb_table bindings" "bindings_ok bindings" "small_tables relations"
  shows "\<exists>x. generate_expr (ae_expression a) bindings = Inr x \<and> type_ref x (scope_row bindings) = Inr (runtime_expr_type (ae_type a))
    \<and> expr_height x \<le> ast_height e \<and> ae_type a \<noteq> SemUnsupported"
  using assms(1)
proof (induction e arbitrary: a)
  case (AstIdentifier i)
  then obtain r where r: "resolve_column relations (ai_qualifier i) (ai_name i) (ai_source i) = Inr r"
    and a: "a = \<lparr>ae_expression = BoundColumn (rc_reference r), ae_type = semantic_type (cm_type (rc_metadata r))\<rparr>"
    by (auto simp: result_simps)
  have "column_in (map sb_table bindings) (rc_reference r) (rc_metadata r)"
    using resolve_column_in [OF r assms(4)] assms(2) by simp
  then obtain slot where "find_slot bindings (rc_reference r) = Some slot"
      "lookup_value (scope_row bindings) slot = Inr (validation_value (cm_type (rc_metadata r)))"
    by (rule column_slot [OF _ assms(3)])
  then show ?case by (simp add: a)
next
  case (AstBinary op source lhs rhs)
  then obtain l r where l: "analyze_expression lhs relations = Inr l" and r: "analyze_expression rhs relations = Inr r"
    and rest: "(case op of
       AstCompare comparison \<Rightarrow>
         (case comparison_fault comparison (ae_type l) (ae_type r) of
            Some message \<Rightarrow> Inl (make_semantic_error source message None)
          | None \<Rightarrow>
              Inr \<lparr>ae_expression = BoundBinaryExpr (Cmp (bound_compare_op comparison)) (ae_expression l) (ae_expression r),
                   ae_type = SemBool\<rparr>)
     | AstLogic logic \<Rightarrow>
         if \<not> is_truth_type (ae_type l) \<or> \<not> is_truth_type (ae_type r) then
           Inl (make_semantic_error source (''operator '' @ quoted (logic_symbol logic) @ '' requires BOOL operands'') None)
         else
           Inr \<lparr>ae_expression = BoundBinaryExpr (Logic (bound_logic_op logic)) (ae_expression l) (ae_expression r),
                ae_type = SemBool\<rparr>) = Inr a"
    by (auto simp: result_simps)
  obtain x where x: "generate_expr (ae_expression l) bindings = Inr x"
      "type_ref x (scope_row bindings) = Inr (runtime_expr_type (ae_type l))" "expr_height x \<le> ast_height lhs"
    using AstBinary.IH(1) [OF l] by blast
  obtain y where y: "generate_expr (ae_expression r) bindings = Inr y"
      "type_ref y (scope_row bindings) = Inr (runtime_expr_type (ae_type r))" "expr_height y \<le> ast_height rhs"
    using AstBinary.IH(2) [OF r] by blast
  have h: "max (expr_height x) (expr_height y) \<le> max (ast_height lhs) (ast_height rhs)"
    using x(3) y(3) by (rule max.mono)
  show ?case
  proof (cases op)
    case (AstCompare c)
    then have "comparison_fault c (ae_type l) (ae_type r) = None"
      and "a = \<lparr>ae_expression = BoundBinaryExpr (Cmp (bound_compare_op c)) (ae_expression l) (ae_expression r), ae_type = SemBool\<rparr>"
      using rest by (auto split: option.splits)
    then show ?thesis using x y h comparison_fault_runtime by simp
  next
    case (AstLogic g)
    then have "is_truth_type (ae_type l)" "is_truth_type (ae_type r)"
      and "a = \<lparr>ae_expression = BoundBinaryExpr (Logic (bound_logic_op g)) (ae_expression l) (ae_expression r), ae_type = SemBool\<rparr>"
      using rest by (auto split: if_splits)
    then show ?thesis using x y h is_truth_type_runtime by simp
  qed
next
  case (AstUnary source e)
  then obtain o' where o: "analyze_expression e relations = Inr o'" "ae_type o' = SemBool \<or> ae_type o' = SemNull"
    and a: "a = \<lparr>ae_expression = BoundUnaryExpr kNot (ae_expression o'), ae_type = SemBool\<rparr>"
    by (auto simp: result_simps split: if_splits)
  then show ?case using AstUnary.IH [OF o(1)] by auto
next
  case (AstNullTest op source e)
  then obtain o' where o: "analyze_expression e relations = Inr o'"
    and a: "a = \<lparr>ae_expression = BoundNullTestExpr (if op = AstIsNull then kIsNull else kIsNotNull) (ae_expression o'), ae_type = SemBool\<rparr>"
    by (auto simp: result_simps split: if_splits)
  then show ?case using AstNullTest.IH [OF o] by auto
qed simp

text \<open>A condition that the analyzer accepts passes the executor's check, optimized or not.\<close>

lemma analyze_predicate_valid:
  assumes "analyze_predicate message e (map sb_table bindings) = Inr c" "bindings_ok bindings" "small_tables (map sb_table bindings)"
    and "ast_height e \<le> kMaxExpressionDepth"
  obtains y where "generate_expr (oe_expression (fst (optimize_expression c trace))) bindings = Inr y"
    "validate_predicate y (scope_row bindings) = None"
proof -
  obtain a where a: "analyze_expression e (map sb_table bindings) = Inr a" "ae_type a = SemBool \<or> ae_type a = SemNull"
    and c: "c = ae_expression a"
    using assms(1) by (auto simp: analyze_predicate_def result_simps split: if_splits)
  obtain x where x: "generate_expr c bindings = Inr x" "type_ref x (scope_row bindings) = Inr (runtime_expr_type (ae_type a))"
      "expr_height x \<le> ast_height e"
    using analyze_expression_typed [OF a(1) refl assms(2,3)] c by blast
  then have v: "validate_expr x (scope_row bindings) = Inr (runtime_expr_type (ae_type a))"
    using assms(4) by (simp add: validate_expr_def validate_impl_Inr_iff)
  show ?thesis
  proof (rule optimize_expression_runtime [OF x(1) v, of trace])
    fix y t' assume y: "generate_expr (oe_expression (fst (optimize_expression c trace))) bindings = Inr y"
      "validate_expr y (scope_row bindings) = Inr t'" "type_refines (runtime_expr_type (ae_type a)) t'"
    then have "t' = EBool \<or> t' = ENull" using a(2) by (auto simp: type_refines_def)
    with y show ?thesis by (intro that) (auto simp: validate_predicate_None)
  qed
qed

lemma analyze_where_valid:
  assumes "analyze_where predicate (map sb_table bindings) = Inr c" "bindings_ok bindings" "small_tables (map sb_table bindings)"
    and "\<forall>e. predicate = Some e \<longrightarrow> ast_height e \<le> kMaxExpressionDepth"
  obtains y where "generate_predicate (fst (optimize_predicate c trace)) bindings = Inr y"
    "where_valid y (scope_row bindings)"
proof (cases predicate)
  case None
  then show ?thesis using that assms(1) by (simp add: analyze_where_def optimize_predicate_def generate_predicate_def where_valid_def)
next
  case (Some e)
  then obtain b where b: "analyze_predicate ''WHERE predicate must be BOOL'' e (map sb_table bindings) = Inr b" and c: "c = Some b"
    using assms(1) by (auto simp: analyze_where_def result_simps)
  have h: "ast_height e \<le> kMaxExpressionDepth" using assms(4) Some by simp
  obtain y where "generate_expr (oe_expression (fst (optimize_expression b trace))) bindings = Inr y"
      "validate_predicate y (scope_row bindings) = None"
    by (rule analyze_predicate_valid [OF b assms(2,3) h])
  note y = this
  show ?thesis
  proof (cases "oe_constant_truth (fst (optimize_expression b trace)) = Some CTrue")
    case True
    then show ?thesis using that [of None]
      by (simp add: c optimize_predicate_def apply_redundant_true_predicate_rule_def generate_predicate_def where_valid_def split_def Let_def)
  next
    case False
    then show ?thesis using that [of "Some y"] y
      by (simp add: c optimize_predicate_def apply_redundant_true_predicate_rule_def generate_predicate_def where_valid_def split_def Let_def)
  qed
qed

end
