(* ===== verification/Parsed_Statements.thy ===== *)
theory Parsed_Statements
  imports Expression_Grammar Lexer_Properties Semantic_Typing
begin

text \<open>
  What every parsed statement satisfies, whatever the catalog: names of new tables and columns are valid identifiers, literals
  fit the storage format, lists that must not be empty are not, and expressions are no deeper than the executor
  allows.
\<close>

subsection \<open>States over well-formed tokens\<close>

definition lexed :: "(string \<Rightarrow> u64 option) \<Rightarrow> ParserState \<Rightarrow> bool" where
  "lexed from_chars s \<longleftrightarrow> list_all (lexeme_ok from_chars) (ps_tokens s) \<and> ps_expression_complexity s \<le> kMaxExpressionComplexity"

lemma lexed_extends: "extends s s' \<Longrightarrow> lexed from_chars s \<Longrightarrow> lexed from_chars s'"
  by (auto simp: extends_def lexed_def)

lemma lexed_peek: "lexed from_chars s \<Longrightarrow> lexeme_ok from_chars (peek_token s)"
  by (auto simp: lexed_def peek_token_def fallback_end_def lexeme_ok_def split: list.split)

lemma lexed_advance [simp]: "lexed from_chars s \<Longrightarrow> lexed from_chars (advance_token s)"
  using lexed_extends [OF extends_advance] .

lemma lexed_require: "require kind error s = Inr s' \<Longrightarrow> lexed from_chars s \<Longrightarrow> lexed from_chars s'"
  using lexed_extends [OF extends_require] .

lemma lexed_identifier:
  assumes "take_identifier message s = Inr (t, s')" "lexed from_chars s"
  shows "is_valid_identifier (tk_lexeme t)" "lexed from_chars s'"
proof -
  have "tk_kind (peek_token s) = TkIdentifier" "t = peek_token s"
    using assms(1) by (auto simp: take_identifier_def check_def split: if_splits)
  then show "is_valid_identifier (tk_lexeme t)" using lexed_peek [OF assms(2)] by (simp add: lexeme_ok_def)
  show "lexed from_chars s'" by (rule lexed_extends [OF take_identifier_extends [OF assms(1)] assms(2)])
qed

subsection \<open>Expressions\<close>

lemma ast_height_nodes: "ast_height e \<le> expr_nodes e"
  by (induction e) auto

lemma parsed_expression:
  assumes "parse_expression from_chars s = Inr (e, s')" "lexed from_chars s"
  shows "ast_height e \<le> kMaxExpressionDepth" "lexed from_chars s'"
proof -
  obtain ts n where d: "consumes s ts n s'" "derives from_chars OrLevel ts e n"
    using parse_goal_derives [of from_chars GoalOr s e s'] assms(1) by (auto simp: parse_expression_def)
  show l: "lexed from_chars s'" by (rule lexed_extends [OF parse_expression_extends [OF assms(1)] assms(2)])
  have "n \<le> kMaxExpressionComplexity" using d(1) l by (simp add: consumes_def lexed_def)
  then show "ast_height e \<le> kMaxExpressionDepth"
    using ast_height_nodes [of e] derives_nodes [OF d(2)] by (simp add: kMaxExpressionComplexity_def kMaxExpressionDepth_def)
qed

lemma parsed_where:
  assumes "parse_where from_chars s = Inr (predicate, s')" "lexed from_chars s"
  shows "\<forall>e. predicate = Some e \<longrightarrow> ast_height e \<le> kMaxExpressionDepth" "lexed from_chars s'"
  using assms parsed_expression [of from_chars "advance_token s"]
  by (auto simp: parse_where_def bind_result_Inr_iff split: if_splits)

subsection \<open>Literals\<close>

definition value_storable :: "Value \<Rightarrow> bool" where
  "value_storable v \<longleftrightarrow> (case v of VText s \<Rightarrow> is_valid_utf8 s \<and> length s \<le> kMaxVarcharBytes | VDouble d \<Rightarrow> isfinite d | _ \<Rightarrow> True)"

lemma parsed_double: "parse_double_literal from_chars lexeme = Some v \<Longrightarrow> value_storable v"
  by (auto simp: parse_double_literal_def value_storable_def split: option.splits if_splits)

lemma parsed_integer: "parse_integer_literal lexeme = Some v \<Longrightarrow> value_storable v"
  by (auto simp: parse_integer_literal_def value_storable_def split: option.splits)

lemma parsed_row_literal:
  assumes "parse_row_literal from_chars s = Inr (l, s')" "lexed from_chars s"
  shows "value_storable (al_value l)" "lexed from_chars s'"
proof -
  show "value_storable (al_value l)"
    using assms(1) lexed_peek [OF assms(2)]
    by (auto simp: parse_row_literal_def Let_def lexeme_ok_def parsed_double parsed_integer value_storable_def
        dest!: parsed_double parsed_integer split: if_splits option.splits)
  show "lexed from_chars s'" by (rule lexed_extends [OF parse_row_literal_extends [OF assms(1)] assms(2)])
qed

lemma assigned_value_storable:
  "assigned_value from_chars t = Some v \<Longrightarrow> lexeme_ok from_chars t \<Longrightarrow> value_storable v"
  by (auto simp: assigned_value_def lexeme_ok_def value_storable_def dest!: parsed_double parsed_integer split: if_splits)

subsection \<open>The statements\<close>

fun statement_wf :: "StatementAst \<Rightarrow> bool" where
  "statement_wf (StCreateTable create) \<longleftrightarrow> is_valid_identifier (cta_table_name create) \<and> cta_columns create \<noteq> []
     \<and> list_all (\<lambda>c. is_valid_identifier (acd_name c)) (cta_columns create)"
| "statement_wf (StInsert insertion) \<longleftrightarrow> ia_rows insertion \<noteq> []
     \<and> list_all (list_all (\<lambda>l. value_storable (al_value l))) (ia_rows insertion)"
| "statement_wf (StSelect select) \<longleftrightarrow> (sa_select_all select \<or> sa_items select \<noteq> [])
     \<and> (\<forall>j \<in> set (sa_joins select). ast_height (aj_condition j) \<le> kMaxExpressionDepth)
     \<and> (\<forall>e. sa_predicate select = Some e \<longrightarrow> ast_height e \<le> kMaxExpressionDepth)"
| "statement_wf (StDelete deletion) \<longleftrightarrow> (\<forall>e. da_predicate deletion = Some e \<longrightarrow> ast_height e \<le> kMaxExpressionDepth)"
| "statement_wf (StUpdate updating) \<longleftrightarrow> upa_assignments updating \<noteq> []
     \<and> list_all (\<lambda>a. value_storable (al_value (aua_literal a))) (upa_assignments updating)
     \<and> (\<forall>e. upa_predicate updating = Some e \<longrightarrow> ast_height e \<le> kMaxExpressionDepth)"

lemma end_of_statement_ast: "end_of_statement error ast s = Inr ast' \<Longrightarrow> ast' = ast"
  by (auto simp: end_of_statement_def bind_result_Inr_iff split: if_splits)

lemma parsed_column_def:
  assumes "parse_column_def s = Inr (column, s')" "lexed from_chars s"
  shows "is_valid_identifier (acd_name column)" "lexed from_chars s'"
proof -
  show "is_valid_identifier (acd_name column)"
    using assms lexed_identifier(1) [of "''expected column identifier''" s]
    by (auto simp: parse_column_def_def bind_result_Inr_iff split: option.splits)
  show "lexed from_chars s'" by (rule lexed_extends [OF parse_column_def_extends [OF assms(1)] assms(2)])
qed

lemma parsed_column_defs:
  "parse_column_defs columns s = Inr (columns', s') \<Longrightarrow> lexed from_chars s \<Longrightarrow> list_all (\<lambda>c. is_valid_identifier (acd_name c)) columns \<Longrightarrow>
   list_all (\<lambda>c. is_valid_identifier (acd_name c)) columns' \<and> columns' \<noteq> []"
proof (induction columns s rule: parse_column_defs.induct)
  case (1 columns s)
  obtain c s1 where c: "parse_column_def s = Inr (c, s1)"
    using "1.prems"(1) by (auto simp: parse_column_defs.simps [of columns s] bind_result_Inr_iff)
  show ?case using "1.IH" [OF c refl] "1.prems" parsed_column_def [OF c "1.prems"(2)]
    by (auto simp: parse_column_defs.simps [of columns s] c split: if_splits)
qed

lemma parsed_create_table:
  assumes "parse_create_table s = Inr ast" "lexed from_chars s"
  shows "statement_wf ast"
proof -
  obtain e1 s1 t s2 e2 s3 columns s4 where c: "require TkTable e1 s = Inr s1" "take_identifier ''expected table identifier'' s1 = Inr (t, s2)"
    "require TkLeftParen e2 s2 = Inr s3" "parse_column_defs [] s3 = Inr (columns, s4)"
    "ast = StCreateTable \<lparr>cta_table_name = tk_lexeme t, cta_table_source = tk_source t, cta_columns = columns\<rparr>"
    using assms(1) by (auto simp: parse_create_table_def bind_result_Inr_iff dest!: end_of_statement_ast)
  note t = lexed_identifier [OF c(2) lexed_require [OF c(1) assms(2)]]
  show ?thesis using t parsed_column_defs [OF c(4) lexed_require [OF c(3) t(2)]] by (simp add: c(5))
qed

abbreviation row_storable :: "AstLiteral list \<Rightarrow> bool" where
  "row_storable row \<equiv> list_all (\<lambda>l. value_storable (al_value l)) row"

lemma parsed_row:
  "parse_row from_chars row s = Inr (row', s') \<Longrightarrow> lexed from_chars s \<Longrightarrow> row_storable row \<Longrightarrow> row_storable row'"
proof (induction from_chars row s rule: parse_row.induct)
  case (1 from_chars row s)
  obtain l s1 where l: "parse_row_literal from_chars s = Inr (l, s1)"
    using "1.prems"(1) by (auto simp: parse_row.simps [of from_chars row s] bind_result_Inr_iff)
  show ?case using "1.IH" [OF l refl] "1.prems" parsed_row_literal [OF l "1.prems"(2)]
    by (auto simp: parse_row.simps [of from_chars row s] l split: if_splits)
qed

lemma parsed_rows:
  "parse_rows from_chars rows s = Inr (rows', s') \<Longrightarrow> lexed from_chars s \<Longrightarrow> list_all row_storable rows \<Longrightarrow>
   list_all row_storable rows' \<and> rows' \<noteq> []"
proof (induction from_chars rows s rule: parse_rows.induct)
  case (1 from_chars rows s)
  let ?lp = "syntax_error (''expected '' @ quoted ''('' @ '' before VALUES row'')"
  let ?rp = "right_parenthesis_error (''expected '' @ quoted '')'' @ '' after VALUES row'')"
  obtain s1 where l: "require TkLeftParen ?lp s = Inr s1"
    using "1.prems"(1) unfolding parse_rows.simps [of from_chars rows s] by (auto simp: bind_result_Inr_iff)
  obtain row s2 where r: "parse_row from_chars [] s1 = Inr (row, s2)"
    using "1.prems"(1) unfolding parse_rows.simps [of from_chars rows s] l bind_result_simps by (auto simp: bind_result_Inr_iff)
  obtain s3 where c: "require TkRightParen ?rp s2 = Inr s3"
    using "1.prems"(1) unfolding parse_rows.simps [of from_chars rows s] l bind_result_simps r prod.case by (auto simp: bind_result_Inr_iff)
  have s1: "lexed from_chars s1" by (rule lexed_require [OF l "1.prems"(2)])
  have s3: "lexed from_chars s3" by (rule lexed_require [OF c lexed_extends [OF parse_row_extends [OF r] s1]])
  have row: "row_storable row" using parsed_row [OF r s1] by simp
  show ?case
  proof (cases "check TkComma s3")
    case True
    then have "parse_rows from_chars (rows @ [row]) (advance_token s3) = Inr (rows', s')"
      using "1.prems"(1) unfolding parse_rows.simps [of from_chars rows s] l bind_result_simps r prod.case c by simp
    then show ?thesis using "1.IH" [OF l r refl c True] s3 row "1.prems"(3) by simp
  next
    case False
    then have "rows' = rows @ [row]"
      using "1.prems"(1) unfolding parse_rows.simps [of from_chars rows s] l bind_result_simps r prod.case c by simp
    then show ?thesis using row "1.prems"(3) by simp
  qed
qed


lemma lexed_insert_columns: "parse_insert_columns columns s = Inr (columns', s') \<Longrightarrow> lexed from_chars s \<Longrightarrow> lexed from_chars s'"
proof (induction columns s rule: parse_insert_columns.induct)
  case (1 columns s)
  obtain t s1 where t: "take_identifier ''expected column identifier'' s = Inr (t, s1)"
    using "1.prems"(1) by (auto simp: parse_insert_columns.simps [of columns s] bind_result_Inr_iff)
  show ?case using "1.IH" [OF t refl] "1.prems" lexed_identifier(2) [OF t "1.prems"(2)]
    by (auto simp: parse_insert_columns.simps [of columns s] t split: if_splits)
qed

lemma lexed_column_list:
  assumes "parse_column_list s = Inr (columns, s')" "lexed from_chars s"
  shows "lexed from_chars s'"
proof (cases "check TkLeftParen s")
  case True
  then obtain cs s1 e where c: "parse_insert_columns [] (advance_token s) = Inr (cs, s1)" "require TkRightParen e s1 = Inr s'"
    using assms(1) by (auto simp: parse_column_list_def bind_result_Inr_iff)
  show ?thesis using lexed_require [OF c(2)] lexed_insert_columns [OF c(1)] assms(2) by simp
qed (use assms in \<open>simp add: parse_column_list_def\<close>)

lemma parsed_insert:
  assumes "parse_insert from_chars s = Inr ast" "lexed from_chars s"
  shows "statement_wf ast"
proof -
  obtain e1 s1 t s2 columns s3 e2 s4 rows s5 where c: "require TkInto e1 s = Inr s1" "take_identifier ''expected table identifier'' s1 = Inr (t, s2)"
    "parse_column_list s2 = Inr (columns, s3)" "require TkValues e2 s3 = Inr s4" "parse_rows from_chars [] s4 = Inr (rows, s5)"
    "ast = StInsert \<lparr>ia_table_name = tk_lexeme t, ia_table_source = tk_source t, ia_columns = columns, ia_rows = rows\<rparr>"
    using assms(1) by (auto simp: parse_insert_def bind_result_Inr_iff dest!: end_of_statement_ast)
  have "lexed from_chars s4"
    by (rule lexed_require [OF c(4) lexed_column_list [OF c(3) lexed_identifier(2) [OF c(2) lexed_require [OF c(1) assms(2)]]]])
  then show ?thesis using parsed_rows [OF c(5)] by (simp add: c(6))
qed

lemma parsed_select_items:
  "parse_select_items first_item items s = Inr (items', s') \<Longrightarrow> lexed from_chars s \<Longrightarrow> items' \<noteq> [] \<and> lexed from_chars s'"
proof (induction first_item items s rule: parse_select_items.induct)
  case (1 first_item items s)
  obtain item s1 where i: "parse_select_item first_item s = Inr (item, s1)"
    using "1.prems"(1) by (auto simp: parse_select_items.simps [of first_item items s] bind_result_Inr_iff)
  show ?case using "1.IH" [OF i refl] "1.prems" lexed_extends [OF parse_select_item_extends [OF i] "1.prems"(2)]
    by (auto simp: parse_select_items.simps [of first_item items s] i split: if_splits)
qed

lemma parsed_join:
  assumes "parse_join from_chars s = Inr (join, s')" "lexed from_chars s"
  shows "ast_height (aj_condition join) \<le> kMaxExpressionDepth" "lexed from_chars s'"
proof -
  obtain s1 t s2 e s3 condition where c: "join_keywords s = Inr s1" "take_table ''expected table identifier after JOIN'' s1 = Inr (t, s2)"
    "require TkOn e s2 = Inr s3" "parse_expression from_chars s3 = Inr (condition, s')" "aj_condition join = condition"
    using assms(1) by (auto simp: parse_join_def bind_result_Inr_iff)
  have "lexed from_chars s3"
    by (rule lexed_require [OF c(3) lexed_extends [OF take_table_extends [OF c(2)] lexed_extends [OF join_keywords_extends [OF c(1)] assms(2)]]])
  then show "ast_height (aj_condition join) \<le> kMaxExpressionDepth" "lexed from_chars s'"
    using parsed_expression [OF c(4)] by (simp_all add: c(5))
qed

lemma parsed_joins:
  "parse_joins from_chars joins s = Inr (joins', s') \<Longrightarrow> lexed from_chars s \<Longrightarrow>
   \<forall>j \<in> set joins. ast_height (aj_condition j) \<le> kMaxExpressionDepth \<Longrightarrow>
   (\<forall>j \<in> set joins'. ast_height (aj_condition j) \<le> kMaxExpressionDepth) \<and> lexed from_chars s'"
proof (induction from_chars joins s rule: parse_joins.induct)
  case (1 from_chars joins s)
  show ?case
  proof (cases "check TkJoin s \<or> check TkInner s")
    case True
    then obtain j s1 where j: "parse_join from_chars s = Inr (j, s1)"
      using "1.prems"(1) by (auto simp: parse_joins.simps [of from_chars joins s] bind_result_Inr_iff)
    then show ?thesis using "1.IH" [OF True j refl] "1.prems" parsed_join [OF j "1.prems"(2)] True
      by (auto simp: parse_joins.simps [of from_chars joins s])
  qed (use "1.prems" in \<open>simp add: parse_joins.simps [of from_chars joins s]\<close>)
qed

lemma parsed_select:
  assumes "parse_select from_chars s = Inr ast" "lexed from_chars s"
  shows "statement_wf ast"
proof -
  obtain select_all items s1 e s2 t s3 joins s4 predicate s5 where c: "parse_select_list s = Inr ((select_all, items), s1)"
    "require TkFrom e s1 = Inr s2" "take_table ''expected table identifier after FROM'' s2 = Inr (t, s3)"
    "parse_joins from_chars [] s3 = Inr (joins, s4)" "parse_where from_chars s4 = Inr (predicate, s5)"
    and ast: "\<exists>group_by order_by. ast = StSelect \<lparr>sa_table_name = tk_lexeme t, sa_table_source = tk_source t, sa_joins = joins,
      sa_select_all = select_all, sa_items = items, sa_predicate = predicate, sa_group_by = group_by, sa_order_by = order_by\<rparr>"
    using assms(1) by (auto simp: parse_select_def bind_result_Inr_iff dest!: end_of_statement_ast)
  have l: "(select_all \<or> items \<noteq> []) \<and> lexed from_chars s1"
    using c(1) assms(2) by (auto simp: parse_select_list_def bind_result_Inr_iff dest: parsed_select_items split: if_splits)
  have "lexed from_chars s3" using l lexed_require [OF c(2)] lexed_extends [OF take_table_extends [OF c(3)]] by blast
  note j = parsed_joins [OF c(4) this]
  show ?thesis using l j parsed_where [OF c(5)] ast by auto
qed

lemma parsed_delete:
  assumes "parse_delete from_chars s = Inr ast" "lexed from_chars s"
  shows "statement_wf ast"
proof -
  obtain e s1 t s2 predicate s3 where c: "require TkFrom e s = Inr s1"
    "take_identifier ''expected table identifier after FROM'' s1 = Inr (t, s2)" "parse_where from_chars s2 = Inr (predicate, s3)"
    "ast = StDelete \<lparr>da_table_name = tk_lexeme t, da_table_source = tk_source t, da_predicate = predicate\<rparr>"
    using assms(1) by (auto simp: parse_delete_def bind_result_Inr_iff dest!: end_of_statement_ast)
  show ?thesis
    using parsed_where [OF c(3) lexed_identifier(2) [OF c(2) lexed_require [OF c(1) assms(2)]]] by (simp add: c(4))
qed

abbreviation assignment_storable :: "AstUpdateAssignment \<Rightarrow> bool" where
  "assignment_storable a \<equiv> value_storable (al_value (aua_literal a))"

lemma parsed_assignment:
  assumes "parse_assignment from_chars s = Inr (a, s')" "lexed from_chars s"
  shows "assignment_storable a" "lexed from_chars s'"
proof -
  obtain t s1 e s2 v where c: "take_identifier ''expected column identifier in SET clause'' s = Inr (t, s1)" "require TkEq e s1 = Inr s2"
    "assigned_value from_chars (peek_token s2) = Some v" "al_value (aua_literal a) = v"
    using assms(1) by (auto simp: parse_assignment_def bind_result_Inr_iff split: option.splits)
  have "lexed from_chars s2" by (rule lexed_require [OF c(2) lexed_identifier(2) [OF c(1) assms(2)]])
  then show "assignment_storable a" using assigned_value_storable [OF c(3) lexed_peek] c(4) by simp
  show "lexed from_chars s'" by (rule lexed_extends [OF parse_assignment_extends [OF assms(1)] assms(2)])
qed

lemma parsed_assignments:
  "parse_assignments from_chars as s = Inr (as', s') \<Longrightarrow> lexed from_chars s \<Longrightarrow> list_all assignment_storable as \<Longrightarrow>
   list_all assignment_storable as' \<and> as' \<noteq> [] \<and> lexed from_chars s'"
proof (induction from_chars as s rule: parse_assignments.induct)
  case (1 from_chars as s)
  obtain a s1 where a: "parse_assignment from_chars s = Inr (a, s1)"
    using "1.prems"(1) by (auto simp: parse_assignments.simps [of from_chars as s] bind_result_Inr_iff)
  show ?case using "1.IH" [OF a refl] "1.prems" parsed_assignment [OF a "1.prems"(2)]
    by (auto simp: parse_assignments.simps [of from_chars as s] a split: if_splits)
qed

lemma parsed_update:
  assumes "parse_update from_chars s = Inr ast" "lexed from_chars s"
  shows "statement_wf ast"
proof -
  obtain t s1 e s2 as s3 predicate s4 where c: "take_identifier ''expected table identifier after UPDATE'' s = Inr (t, s1)"
    "require TkSet e s1 = Inr s2" "parse_assignments from_chars [] s2 = Inr (as, s3)" "parse_where from_chars s3 = Inr (predicate, s4)"
    "ast = StUpdate \<lparr>upa_table_name = tk_lexeme t, upa_table_source = tk_source t, upa_assignments = as, upa_predicate = predicate\<rparr>"
    using assms(1) by (auto simp: parse_update_def bind_result_Inr_iff dest!: end_of_statement_ast)
  note a = parsed_assignments [OF c(3) lexed_require [OF c(2) lexed_identifier(2) [OF c(1) assms(2)]]]
  show ?thesis using a parsed_where [OF c(4)] by (simp add: c(5))
qed

text \<open>Every statement that lexer and parser produce from a text.\<close>

lemma parsed_statement_wf:
  assumes "tokenize from_chars text = Inr tokens" "parse from_chars tokens = Inr ast"
  shows "statement_wf ast"
proof -
  have "list_all (lexeme_ok from_chars) tokens" using tokenize_loop_lexemes [OF assms(1) [unfolded tokenize_def]] by simp
  then have "lexed from_chars (initial_parser tokens)" by (simp add: lexed_def initial_parser_def)
  then have "lexed from_chars (advance_token (initial_parser tokens))" by simp
  then show ?thesis using assms(2) parsed_create_table parsed_insert parsed_select parsed_delete parsed_update
    unfolding parse_def run_parser_def by (auto split: if_splits)
qed

end
