(* ===== verification/Select_Typing.thy ===== *)
theory Select_Typing
  imports Semantic_Typing
begin

text \<open>
  Analyzed \<open>SELECT\<close> statements: the scope that the joins build up, grouped columns and aggregate calls, and the plan
  that optimizer and planner make of them, which the validation of the executor accepts.
\<close>

subsection \<open>Joins\<close>

lemma analyze_joins_scope:
  assumes "analyze_joins catalog relations ast_joins = Inr (scope, joins)"
  shows "length joins = length ast_joins" "map tm_table_id scope = map tm_table_id relations @ map bj_table_id joins"
    "take (length relations) scope = relations"
    "distinct (map tm_table_id relations) \<Longrightarrow> distinct (map tm_table_id scope)"
    "set relations \<subseteq> set catalog \<Longrightarrow> set scope \<subseteq> set catalog"
    "i < length joins \<Longrightarrow> analyze_predicate ''JOIN ON predicate must be BOOL'' (aj_condition (ast_joins ! i))
       (take (length relations + Suc i) scope) = Inr (bj_condition (joins ! i))"
proof -
  have "length joins = length ast_joins \<and> map tm_table_id scope = map tm_table_id relations @ map bj_table_id joins
    \<and> take (length relations) scope = relations
    \<and> (distinct (map tm_table_id relations) \<longrightarrow> distinct (map tm_table_id scope))
    \<and> (set relations \<subseteq> set catalog \<longrightarrow> set scope \<subseteq> set catalog)
    \<and> (\<forall>i < length joins. analyze_predicate ''JOIN ON predicate must be BOOL'' (aj_condition (ast_joins ! i))
       (take (length relations + Suc i) scope) = Inr (bj_condition (joins ! i)))"
    using assms
  proof (induction catalog relations ast_joins arbitrary: joins rule: analyze_joins.induct)
    case (2 catalog relations join rest)
    then obtain t where t: "find_table_named catalog (aj_table_name join) = Some t" by (auto split: option.splits)
    from "2.prems" obtain condition js where fresh: "\<not> list_ex (\<lambda>relation. tm_table_id relation = tm_table_id t) relations"
      and c: "analyze_predicate ''JOIN ON predicate must be BOOL'' (aj_condition join) (relations @ [t]) = Inr condition"
      and r: "analyze_joins catalog (relations @ [t]) rest = Inr (scope, js)"
      and j: "joins = \<lparr>bj_table_id = tm_table_id t, bj_condition = condition\<rparr> # js"
      by (auto simp: t result_simps split: if_splits)
    note ih = "2.IH" [OF t fresh c r]
    have tc: "t \<in> set catalog" using t by (auto simp: find_table_named_def find_Some_iff)
    have p: "take (Suc (length relations)) scope = relations @ [t]" using ih by simp
    then have "take (length relations) scope = relations"
      by (metis append_eq_conv_conj lessI less_imp_le_nat min.absorb1 take_take)
    moreover have "analyze_predicate ''JOIN ON predicate must be BOOL'' (aj_condition ((join # rest) ! i))
       (take (length relations + Suc i) scope) = Inr (bj_condition (joins ! i))" if "i < length joins" for i
      using that ih p c by (cases i) (simp_all add: j)
    moreover have "distinct (map tm_table_id relations) \<longrightarrow> distinct (map tm_table_id (relations @ [t]))"
      using fresh by (auto simp: list_ex_iff)
    then have "distinct (map tm_table_id relations) \<longrightarrow> distinct (map tm_table_id scope)" using ih by blast
    moreover have "set relations \<subseteq> set catalog \<longrightarrow> set scope \<subseteq> set catalog" using ih tc by simp
    ultimately show ?case using ih by (simp add: j)
  qed simp
  then show "length joins = length ast_joins" "map tm_table_id scope = map tm_table_id relations @ map bj_table_id joins"
    "take (length relations) scope = relations"
    "distinct (map tm_table_id relations) \<Longrightarrow> distinct (map tm_table_id scope)"
    "set relations \<subseteq> set catalog \<Longrightarrow> set scope \<subseteq> set catalog"
    "i < length joins \<Longrightarrow> analyze_predicate ''JOIN ON predicate must be BOOL'' (aj_condition (ast_joins ! i))
       (take (length relations + Suc i) scope) = Inr (bj_condition (joins ! i))"
    by blast+
qed

text \<open>Tables of a catalog with different ids are determined by their ids.\<close>

lemma bindings_tables:
  assumes "distinct (map tm_table_id catalog)" "set scope \<subseteq> set catalog" "\<forall>b \<in> set bindings. sb_table b \<in> set catalog"
    "map (\<lambda>b. tm_table_id (sb_table b)) bindings = map tm_table_id scope"
  shows "map sb_table bindings = scope"
proof -
  have "inj_on tm_table_id (set catalog)" using assms(1) by (simp add: distinct_map)
  then have "inj_on tm_table_id (set (map sb_table bindings) \<union> set scope)" using assms(2,3) by (auto intro: inj_on_subset)
  moreover have "map tm_table_id (map sb_table bindings) = map tm_table_id scope" using assms(4) by (simp add: comp_def)
  ultimately show ?thesis using map_injective inj_on_map_eq_map by blast
qed

lemma optimize_joins_nth:
  "length (fst (optimize_joins joins trace)) = length joins"
  "map bj_table_id (fst (optimize_joins joins trace)) = map bj_table_id joins"
  "i < length joins \<Longrightarrow> \<exists>trace'. bj_condition (fst (optimize_joins joins trace) ! i) =
     oe_expression (fst (optimize_expression (bj_condition (joins ! i)) trace'))"
proof -
  show l: "length (fst (optimize_joins joins trace)) = length joins" for joins trace
    by (induction joins arbitrary: trace) (auto simp: split_def Let_def)
  show "map bj_table_id (fst (optimize_joins joins trace)) = map bj_table_id joins"
    by (induction joins arbitrary: trace) (auto simp: split_def Let_def)
  show "i < length joins \<Longrightarrow> \<exists>trace'. bj_condition (fst (optimize_joins joins trace) ! i) =
     oe_expression (fst (optimize_expression (bj_condition (joins ! i)) trace'))"
  proof (induction joins arbitrary: i trace)
    case (Cons join rest)
    show ?case
    proof (cases i)
      case 0
      then show ?thesis by (auto simp: split_def Let_def optimize_join_condition_def)
    next
      case (Suc k)
      then show ?thesis using Cons by (auto simp: split_def Let_def optimize_join_condition_def)
    qed
  qed simp
qed

subsection \<open>The tree of joins\<close>

definition join_step :: "SlotBinding list \<Rightarrow> Expr list \<Rightarrow> nat \<times> BoundJoin \<Rightarrow> PlanNode \<Rightarrow> PlanNode" where
  "join_step bindings conditions = (\<lambda>(index, join) child.
     JoinNode kInner (conditions ! index) (Some child) (Some (SeqScanNode (bj_table_id join) (sb_columns (bindings ! (index + 1))))))"

lemma find_catalog_table_member:
  assumes "distinct (map tm_table_id catalog)" "t \<in> set catalog"
  shows "find_catalog_table catalog (tm_table_id t) = Some t"
  unfolding find_catalog_table_def using assms by (induction catalog) auto

lemma scan_validates:
  assumes "binding_ok b" "sb_table b \<in> set catalog" "distinct (map tm_table_id catalog)"
    "\<forall>t \<in> set catalog. validate_table_metadata t = None" "depth < kMaxPlanDepth"
  shows "validate_dataflow_node catalog (SeqScanNode (tm_table_id (sb_table b)) (sb_columns b)) depth types
    = Inr (binding_row b, append_slot_types types (binding_row b))"
  using assms by (simp add: find_catalog_table_member binding_validation_row)

lemma scope_row_snoc: "k < length bindings \<Longrightarrow> scope_row (take (Suc k) bindings) = scope_row (take k bindings) @ binding_row (bindings ! k)"
  by (simp add: take_Suc_conv_app_nth scope_row_def)

lemma scope_row_distinct: "bindings_ok bindings \<Longrightarrow> distinct (slots_of (scope_row bindings))"
  by (simp add: bindings_ok_def scope_row_slots)

lemma join_tree_validates:
  assumes "bindings_ok bindings" "\<forall>b \<in> set bindings. sb_table b \<in> set catalog" "distinct (map tm_table_id catalog)"
    and "\<forall>t \<in> set catalog. validate_table_metadata t = None"
    and "length bindings = Suc (length joins)"
    and "map bj_table_id joins = map (\<lambda>b. tm_table_id (sb_table b)) (tl bindings)"
    and "\<And>i. i < length joins \<Longrightarrow> validate_predicate (conditions ! i) (scope_row (take (i + 2) bindings)) = None"
    and "k \<le> length joins" "depth + k < kMaxPlanDepth"
  shows "\<exists>types'. validate_dataflow_node catalog
      (fold (join_step bindings conditions) (take k (enumerate 0 joins)) (SeqScanNode (tm_table_id (sb_table (hd bindings))) (sb_columns (hd bindings))))
      depth types = Inr (scope_row (take (Suc k) bindings), types')"
  using assms(8,9)
proof (induction k arbitrary: depth types)
  case 0
  obtain b bs where b: "bindings = b # bs" using assms(5) by (cases bindings) auto
  then have "binding_ok b" "sb_table b \<in> set catalog" using assms(1,2) by (auto simp: bindings_ok_def)
  then show ?case using scan_validates [OF _ _ assms(3,4)] 0 by (simp add: b scope_row_def)
next
  case (Suc k)
  let ?tree = "fold (join_step bindings conditions) (take k (enumerate 0 joins)) (SeqScanNode (tm_table_id (sb_table (hd bindings))) (sb_columns (hd bindings)))"
  let ?b = "bindings ! Suc k"
  have k: "k < length joins" "Suc k < length bindings" using Suc.prems assms(5) by simp_all
  have b: "binding_ok ?b" "sb_table ?b \<in> set catalog" using assms(1,2) k(2) by (auto simp: bindings_ok_def list_all_length)
  have "bj_table_id (joins ! k) = map bj_table_id joins ! k" using k by simp
  also have "\<dots> = tm_table_id (sb_table ?b)" unfolding assms(6) using k assms(5) by (simp add: nth_tl)
  finally have id: "bj_table_id (joins ! k) = tm_table_id (sb_table ?b)" .
  obtain types1 where left: "validate_dataflow_node catalog ?tree (depth + 1) types = Inr (scope_row (take (Suc k) bindings), types1)"
    using Suc.IH [of "depth + 1" types] Suc.prems by auto
  have right: "validate_dataflow_node catalog (SeqScanNode (tm_table_id (sb_table ?b)) (sb_columns ?b)) (depth + 1) types1
      = Inr (binding_row ?b, append_slot_types types1 (binding_row ?b))"
    using Suc.prems by (intro scan_validates [OF b assms(3,4)]) simp
  have d: "distinct (slots_of (scope_row (take (Suc (Suc k)) bindings)))"
    by (rule scope_row_distinct [OF bindings_ok_take [OF assms(1)]])
  have dl: "distinct (slots_of (scope_row (take (Suc k) bindings)))"
    by (rule scope_row_distinct [OF bindings_ok_take [OF assms(1)]])
  have merged: "merge_slot_rows (scope_row (take (Suc k) bindings)) (binding_row ?b) = Inr (scope_row (take (Suc (Suc k)) bindings))"
    using d scope_row_snoc [OF k(2)] merge_slot_rows_Inr [OF dl] by simp
  have cond: "validate_predicate (conditions ! k) (scope_row (take (Suc (Suc k)) bindings)) = None"
    using assms(7) [OF k(1)] by simp
  have "take (Suc k) (enumerate 0 joins) = take k (enumerate 0 joins) @ [(k, joins ! k)]"
    using k(1) by (subst take_Suc_conv_app_nth) (simp_all add: nth_enumerate_eq)
  then have fold: "fold (join_step bindings conditions) (take (Suc k) (enumerate 0 joins)) t =
      JoinNode kInner (conditions ! k) (Some (fold (join_step bindings conditions) (take k (enumerate 0 joins)) t))
        (Some (SeqScanNode (tm_table_id (sb_table ?b)) (sb_columns ?b)))" for t
    by (simp add: join_step_def id)
  show ?case unfolding fold using Suc.prems left right merged cond by simp
qed


subsection \<open>Grouped columns and aggregates\<close>

lemma same_column_eq [simp]: "same_column a b \<longleftrightarrow> a = b"
  by (cases a; cases b) (simp add: same_column_def)

lemma grouped_member [simp]: "grouped keys r \<longleftrightarrow> r \<in> set keys"
  by (auto simp: grouped_def list_ex_iff)

abbreviation columns_in :: "RelationScope \<Rightarrow> BoundColumnRef set \<Rightarrow> bool" where
  "columns_in relations references \<equiv> (\<forall>r \<in> references. \<exists>c. column_in relations r c)"

lemma analyze_group_by_keys:
  "analyze_group_by relations keys ast = Inr keys' \<Longrightarrow> small_tables relations \<Longrightarrow> distinct keys \<Longrightarrow> columns_in relations (set keys) \<Longrightarrow>
   distinct keys' \<and> columns_in relations (set keys')"
proof (induction relations keys ast rule: analyze_group_by.induct)
  case (2 relations keys key rest)
  then obtain column where c: "resolve_column relations (asc_qualifier key) (asc_name key) (asc_source key) = Inr column"
    and rest: "analyze_group_by relations (if \<not> grouped keys (rc_reference column) then keys @ [rc_reference column] else keys) rest = Inr keys'"
    by (auto simp: result_simps)
  have "\<exists>m. column_in relations (rc_reference column) m" using resolve_column_in [OF c "2.prems"(2)] by blast
  then have "distinct (if \<not> grouped keys (rc_reference column) then keys @ [rc_reference column] else keys)"
      "columns_in relations (set (if \<not> grouped keys (rc_reference column) then keys @ [rc_reference column] else keys))"
    using "2.prems"(3,4) by simp_all
  from "2.IH" [OF c rest "2.prems"(2) this] show ?case .
qed simp

definition bound_call :: "BoundAggregateCall \<Rightarrow> QuerySlot option \<Rightarrow> QuerySlot \<Rightarrow> AggregateCall" where
  "bound_call aggregate input output_slot =
     \<lparr>ac_kind = bac_kind aggregate, ac_input_slot = input, ac_output_slot = output_slot,
      ac_output_type = bac_output_type aggregate, ac_nullable = bac_nullable aggregate\<rparr>"

definition aggregate_typed :: "RelationScope \<Rightarrow> BoundAggregateCall \<Rightarrow> bool" where
  "aggregate_typed relations aggregate \<longleftrightarrow>
     (case bac_argument aggregate of
        None \<Rightarrow> (\<forall>out. call_types_valid (bound_call aggregate None out) None)
      | Some r \<Rightarrow> \<exists>c. column_in relations r c \<and> (\<forall>slot out. call_types_valid (bound_call aggregate (Some slot) out) (Some (cm_type c))))"

lemma aggregate_output_valid:
  "aggregate_output kind source t = Inr (out_type, nullable) \<Longrightarrow>
   call_types_valid \<lparr>ac_kind = aggregate_kind kind, ac_input_slot = Some slot, ac_output_slot = out, ac_output_type = out_type,
     ac_nullable = nullable\<rparr> (Some t)"
  by (cases kind; cases t) (auto simp: aggregate_output_def call_types_valid_def Let_def)

lemma analyze_aggregate_typed:
  assumes "analyze_aggregate call relations = Inr aggregate" "small_tables relations"
  shows "aggregate_typed relations aggregate"
proof (cases "aac_argument call")
  case None
  then show ?thesis using assms(1) by (auto simp: analyze_aggregate_def aggregate_typed_def bound_call_def call_types_valid_def Let_def)
next
  case (Some argument)
  then obtain r t n where r: "resolve_column relations (asc_qualifier argument) (asc_name argument) (asc_source argument) = Inr r"
    and out: "aggregate_output (aac_kind call) (aac_source call) (cm_type (rc_metadata r)) = Inr (t, n)"
    and a: "aggregate = \<lparr>bac_kind = aggregate_kind (aac_kind call), bac_argument = Some (rc_reference r),
               bac_output_type = t, bac_nullable = n\<rparr>"
    using assms(1) by (auto simp: analyze_aggregate_def result_simps)
  show ?thesis using resolve_column_in [OF r assms(2)] aggregate_output_valid [OF out]
    by (auto simp: a aggregate_typed_def bound_call_def)
qed

definition item_typed :: "RelationScope \<Rightarrow> bool \<Rightarrow> BoundColumnRef list \<Rightarrow> BoundSelectItem \<Rightarrow> bool" where
  "item_typed relations aggregate_query group_by item \<longleftrightarrow>
     (case item of
        SelectColumn r \<Rightarrow> (\<exists>c. column_in relations r c) \<and> (aggregate_query \<longrightarrow> r \<in> set group_by)
      | SelectAggregate aggregate \<Rightarrow> aggregate_typed relations aggregate)"

lemma analyze_item_typed:
  "analyze_item relations aggregate_query group_by item = Inr bound \<Longrightarrow> small_tables relations \<Longrightarrow>
   item_typed relations aggregate_query group_by bound \<and> (is_aggregate_item item \<longleftrightarrow> (\<exists>a. bound = SelectAggregate a))"
  using resolve_column_in [of relations]
  by (cases item) (fastforce simp: result_simps item_typed_def analyze_aggregate_typed split: if_splits)+

lemma all_columns_typed:
  assumes "item \<in> set (all_columns relations)" "small_tables relations"
  shows "item_typed relations False group_by item" "\<exists>r. item = SelectColumn r"
proof -
  obtain t i where t: "t \<in> set relations" "i < length (tm_columns t)"
    and item: "item = SelectColumn \<lparr>bc_table_id = tm_table_id t, bc_column_id = word_of_nat i\<rparr>"
    using assms(1) by (auto simp: all_columns_def)
  have "unat (word_of_nat i :: u32) = i"
    by (rule unat_index [OF _ t(2)]) (use assms(2) t(1) in \<open>simp add: small_tables_def\<close>)
  then have "column_in relations \<lparr>bc_table_id = tm_table_id t, bc_column_id = word_of_nat i\<rparr> (tm_columns t ! i)"
    using t by (auto simp: column_in_def)
  then show "item_typed relations False group_by item" "\<exists>r. item = SelectColumn r"
    by (auto simp: item_typed_def item)
qed

subsection \<open>The planned select list\<close>

text \<open>Aggregate calls of the select list, with the slots of their arguments.\<close>

definition call_of :: "SlotBinding list \<Rightarrow> BoundSelectItem list \<Rightarrow> AggregateCall \<Rightarrow> bool" where
  "call_of bindings items call \<longleftrightarrow> (\<exists>aggregate input. SelectAggregate aggregate \<in> set items \<and> call = bound_call aggregate input (ac_output_slot call)
     \<and> (case bac_argument aggregate of None \<Rightarrow> input = None | Some r \<Rightarrow> input \<noteq> None \<and> input = find_slot bindings r))"

lemma generate_items_parts:
  "generate_items bindings n items = Inr (projects, outs, calls) \<Longrightarrow>
   projects = map qo_slot_id outs \<and> length outs = length items
   \<and> (\<forall>s \<in> set projects. s \<in> ac_output_slot ` set calls \<or> (\<exists>r. SelectColumn r \<in> set items \<and> find_slot bindings r = Some s))
   \<and> (\<forall>c \<in> set calls. call_of bindings items c)
   \<and> ((\<exists>a. SelectAggregate a \<in> set items) \<longrightarrow> calls \<noteq> [])"
proof (induction items arbitrary: n projects outs calls)
  case (Cons item rest)
  have mono: "call_of bindings (item # rest) c" if "call_of bindings rest c" for c using that by (auto simp: call_of_def)
  show ?case
  proof (cases item)
    case (SelectColumn r)
  then obtain binding slot where b: "find_binding bindings (bc_table_id r) = Some binding" "find_slot bindings r = Some slot"
    and i: "\<not> length (tm_columns (sb_table binding)) \<le> unat (bc_column_id r)"
    using Cons.prems SelectColumn by (auto split: option.splits if_splits)
  obtain projects' outs' where rest: "generate_items bindings n rest = Inr (projects', outs', calls)"
    and p: "projects = slot # projects'" and o: "qo_slot_id (hd outs) = slot" "tl outs = outs'" "outs \<noteq> []"
    using Cons.prems SelectColumn b i by (auto simp: result_simps Let_def)
  obtain o1 where o1: "outs = o1 # outs'" "qo_slot_id o1 = slot" using o by (cases outs) auto
  show ?thesis using Cons.IH [OF rest] b p o1 mono SelectColumn by auto
next
  case (SelectAggregate aggregate)
  obtain input name projects' outs' calls' o1 where n: "\<not> 4294967295 < n"
    and input: "(case bac_argument aggregate of
             None \<Rightarrow> Inr (None, ''*'')
           | Some argument \<Rightarrow>
               (case (find_slot bindings argument, find_binding bindings (bc_table_id argument)) of
                  (Some slot, Some binding) \<Rightarrow>
                    if length (tm_columns (sb_table binding)) \<le> unat (bc_column_id argument) then
                      Inl (planner_error ''bound aggregate argument references an unmapped column'')
                    else Inr (Some slot, cm_name (tm_columns (sb_table binding) ! unat (bc_column_id argument)))
                | _ \<Rightarrow> Inl (planner_error ''bound aggregate argument references an unmapped column''))) = Inr (input, name)"
    and rest: "generate_items bindings (n + 1) rest = Inr (projects', outs', calls')"
    and p: "projects = word_of_nat n # projects'" "outs = o1 # outs'" "qo_slot_id o1 = word_of_nat n"
      "calls = bound_call aggregate input (word_of_nat n) # calls'"
    using Cons.prems SelectAggregate by (auto simp: result_simps Let_def bound_call_def split: if_splits)
  have new: "call_of bindings (SelectAggregate aggregate # rest) (bound_call aggregate input (word_of_nat n))"
    unfolding call_of_def by (intro exI [of _ aggregate] exI [of _ input])
      (use input in \<open>auto simp: bound_call_def eq_commute [of _ "find_slot bindings _"] split: option.splits if_splits\<close>)
  have "projects' = map qo_slot_id outs' \<and> length outs' = length rest
     \<and> (\<forall>s \<in> set projects'. s \<in> ac_output_slot ` set calls' \<or> (\<exists>r. SelectColumn r \<in> set rest \<and> find_slot bindings r = Some s))
     \<and> (\<forall>c \<in> set calls'. call_of bindings rest c)"
    using Cons.IH [OF rest] by blast
  then show ?thesis using new p mono SelectAggregate by (auto simp: bound_call_def)
  qed
qed simp


subsection \<open>Validation of the planned parts\<close>

lemma slot_lookup_member:
  assumes "distinct (slots_of row)" "s \<in> set (slots_of row)"
  shows "\<exists>v. slot_lookup row s = Inr v"
proof -
  obtain e where e: "e \<in> set row" "s = sv_slot_id e" using assms(2) by auto
  have "\<lparr>sv_slot_id = s, sv_value = sv_value e\<rparr> = e" by (simp add: e(2))
  then have "\<lparr>sv_slot_id = s, sv_value = sv_value e\<rparr> \<in> set row" using e(1) by simp
  then show ?thesis using assms(1) by (auto simp: slot_lookup_iff lookup_value_distinct)
qed

lemma slot_lookup_outside: "s \<notin> set (slots_of row) \<Longrightarrow> \<exists>e. slot_lookup row s = Inl e"
proof -
  assume s: "s \<notin> set (slots_of row)"
  then have "slot_lookup_loop row s None \<noteq> Inr v" for v by (induction row) auto
  then show ?thesis by (cases "slot_lookup row s") (auto simp: slot_lookup_def)
qed

lemma check_slots_members:
  assumes "distinct (slots_of row)"
  shows "set slots \<subseteq> set (slots_of row) \<Longrightarrow> check_output_slots row slots = Inr ()"
    and "sk_slot_id ` set keys \<subseteq> set (slots_of row) \<Longrightarrow> check_sort_slots row keys = Inr ()"
proof -
  show "set slots \<subseteq> set (slots_of row) \<Longrightarrow> check_output_slots row slots = Inr ()"
    by (induction slots) (use slot_lookup_member [OF assms] in fastforce)+
  show "sk_slot_id ` set keys \<subseteq> set (slots_of row) \<Longrightarrow> check_sort_slots row keys = Inr ()"
    by (induction keys) (use slot_lookup_member [OF assms] in fastforce)+
qed

lemma group_keys_validate:
  "distinct (slots_of row) \<Longrightarrow> set slots \<subseteq> set (slots_of row) \<Longrightarrow> distinct (slots_of out @ slots) \<Longrightarrow>
   \<exists>out'. validate_group_keys row slots out = Inr out' \<and> slots_of out' = slots_of out @ slots"
proof (induction slots arbitrary: out)
  case (Cons s slots)
  obtain v where v: "slot_lookup row s = Inr v" using slot_lookup_member [OF Cons.prems(1)] Cons.prems(2) by auto
  have "\<not> list_ex (\<lambda>entry. sv_slot_id entry = s) out" using Cons.prems(3) by (auto simp: list_ex_iff)
  then show ?case using Cons.IH [of "out @ [\<lparr>sv_slot_id = s, sv_value = v\<rparr>]"] Cons.prems v by auto
qed simp

lemma calls_validate:
  "\<forall>c \<in> set calls. ac_output_slot c \<notin> set (slots_of row) \<and>
     (case ac_input_slot c of None \<Rightarrow> call_types_valid c None
      | Some s \<Rightarrow> \<exists>v. slot_lookup row s = Inr v \<and> call_types_valid c (runtime_type v)) \<Longrightarrow>
   distinct (slots_of out @ map ac_output_slot calls) \<Longrightarrow>
   \<exists>out'. validate_calls row calls out = Inr out' \<and> slots_of out' = slots_of out @ map ac_output_slot calls"
proof (induction calls arbitrary: out)
  case (Cons c calls)
  obtain e where e: "slot_lookup row (ac_output_slot c) = Inl e" using slot_lookup_outside Cons.prems(1) by fastforce
  have f: "\<not> list_ex (\<lambda>entry. sv_slot_id entry = ac_output_slot c) out" using Cons.prems(2) by (force simp: list_ex_iff)
  let ?out = "out @ [\<lparr>sv_slot_id = ac_output_slot c, sv_value = validation_value (ac_output_type c)\<rparr>]"
  have ih: "\<exists>out'. validate_calls row calls ?out = Inr out' \<and> slots_of out' = slots_of ?out @ map ac_output_slot calls"
    by (rule Cons.IH) (use Cons.prems in auto)
  show ?case using ih e f Cons.prems(1) by (cases "ac_input_slot c") auto
qed simp

lemma headers_exist: "\<exists>columns. result_headers (map qo_slot_id outs) outs = Inr columns"
  by (induction outs) auto

lemma concat_block_unique:
  "distinct (concat (map f xs)) \<Longrightarrow> x \<in> set xs \<Longrightarrow> y \<in> set xs \<Longrightarrow> s \<in> set (f x) \<Longrightarrow> s \<in> set (f y) \<Longrightarrow> x = y"
  by (induction xs) auto

lemma find_slot_injective:
  assumes "bindings_ok bindings" "column_in (map sb_table bindings) r c" "column_in (map sb_table bindings) r' c'"
    and "find_slot bindings r = find_slot bindings r'"
  shows "r = r'"
proof -
  have at: "\<exists>b i. b \<in> set bindings \<and> i < length (sb_columns b) \<and> find_slot bindings q = Some (sc_output_slot (sb_columns b ! i))
      \<and> q = \<lparr>bc_table_id = tm_table_id (sb_table b), bc_column_id = sc_column_id (sb_columns b ! i)\<rparr>"
    if q: "column_in (map sb_table bindings) q m" for q m
  proof -
    obtain b where b: "b \<in> set bindings" "tm_table_id (sb_table b) = bc_table_id q" "unat (bc_column_id q) < length (tm_columns (sb_table b))"
      using q by (auto simp: column_in_def)
    have ok: "binding_ok b" and d: "distinct (map (\<lambda>b. tm_table_id (sb_table b)) bindings)"
      using assms(1) b(1) by (auto simp: bindings_ok_def list_all_iff)
    have q': "q = \<lparr>bc_table_id = tm_table_id (sb_table b), bc_column_id = bc_column_id q\<rparr>" using b(2) by simp
    have s: "find_slot bindings q = Some (sc_output_slot (sb_columns b ! unat (bc_column_id q)))"
      by (subst q') (simp add: find_slot_at(1) [OF b(1) d] find_scan_column [OF ok b(3)])
    have "bc_column_id q = sc_column_id (sb_columns b ! unat (bc_column_id q))" using binding_ok_nth(1) [OF ok b(3)] by simp
    then show ?thesis using b s q' binding_ok_length [OF ok] by metis
  qed
  obtain b i where 1: "b \<in> set bindings" "i < length (sb_columns b)" "find_slot bindings r = Some (sc_output_slot (sb_columns b ! i))"
      "r = \<lparr>bc_table_id = tm_table_id (sb_table b), bc_column_id = sc_column_id (sb_columns b ! i)\<rparr>" using at [OF assms(2)] by blast
  obtain b' i' where 2: "b' \<in> set bindings" "i' < length (sb_columns b')" "find_slot bindings r' = Some (sc_output_slot (sb_columns b' ! i'))"
      "r' = \<lparr>bc_table_id = tm_table_id (sb_table b'), bc_column_id = sc_column_id (sb_columns b' ! i')\<rparr>" using at [OF assms(3)] by blast
  have d: "distinct (concat (map (\<lambda>b. map sc_output_slot (sb_columns b)) bindings))"
    and ids: "distinct (map (\<lambda>b. tm_table_id (sb_table b)) bindings)" using assms(1) by (simp_all add: bindings_ok_def)
  have same: "sc_output_slot (sb_columns b ! i) = sc_output_slot (sb_columns b' ! i')" using 1 2 assms(4) by simp
  have m: "sc_output_slot (sb_columns b ! i) \<in> set (map sc_output_slot (sb_columns b))" using 1(2) by simp
  have "sc_output_slot (sb_columns b ! i) \<in> set (map sc_output_slot (sb_columns b'))" unfolding same using 2(2) by simp
  then have "b = b'" by (rule concat_block_unique [OF d 1(1) 2(1) m])
  moreover have "distinct (map sc_output_slot (sb_columns b))" using d 1(1) by (auto simp: distinct_concat_iff)
  ultimately have "i = i'" using same 1(2) 2(2) by (auto simp: distinct_conv_nth)
  with \<open>b = b'\<close> 1(4) 2(4) show ?thesis by simp
qed


subsection \<open>Analyzed queries pass validation\<close>

text \<open>A catalog of valid tables, as every open session has it.\<close>

definition catalog_valid :: "TableMeta list \<Rightarrow> bool" where
  "catalog_valid catalog \<longleftrightarrow> distinct (map tm_table_id catalog) \<and> small_tables catalog
     \<and> (\<forall>t \<in> set catalog. validate_table_metadata t = None)"

lemma small_tables_subset: "small_tables catalog \<Longrightarrow> set tables \<subseteq> set catalog \<Longrightarrow> small_tables tables"
  by (auto simp: small_tables_def)

lemma planned_conditions_valid:
  assumes "\<And>i. i < length joins \<Longrightarrow> analyze_predicate ''JOIN ON predicate must be BOOL'' (ast i)
       (map sb_table (take (i + 2) bindings)) = Inr (bj_condition (joins ! i)) \<and> ast_height (ast i) \<le> kMaxExpressionDepth"
    and "bindings_ok bindings" "small_tables (map sb_table bindings)"
    and "generate_join_conditions bindings (fst (optimize_joins joins trace)) = Inr conds" and "i < length joins"
  shows "validate_predicate (conds ! i) (scope_row (take (i + 2) bindings)) = None"
proof -
  let ?joins = "fst (optimize_joins joins trace)"
  have l: "list_all2 (\<lambda>(index, join) c. generate_expr (bj_condition join) (take (index + 2) bindings) = Inr c) (enumerate 0 ?joins) conds"
    using assms(4) by (simp add: generate_join_conditions_def collect_results_Inr_iff split_def)
  have i: "i < length ?joins" using assms(5) optimize_joins_nth(1) by simp
  then have "i < length (enumerate 0 ?joins)" by simp
  from list_all2_nthD [OF l this] have g: "generate_expr (bj_condition (?joins ! i)) (take (i + 2) bindings) = Inr (conds ! i)"
    using i by (simp add: nth_enumerate_eq)
  obtain trace' where c: "bj_condition (?joins ! i) = oe_expression (fst (optimize_expression (bj_condition (joins ! i)) trace'))"
    using optimize_joins_nth(3) [OF assms(5)] by blast
  have small: "small_tables (map sb_table (take (i + 2) bindings))"
    by (rule small_tables_subset [OF assms(3)]) (auto dest: in_set_takeD)
  note a = assms(1) [OF assms(5)]
  show ?thesis
    by (rule analyze_predicate_valid [OF conjunct1 [OF a] bindings_ok_take [OF assms(2)] small conjunct2 [OF a], of trace'])
      (use g c in simp)
qed

text \<open>The static row above the aggregation, in which select list and sort keys are looked up.\<close>

lemma aggregate_validates:
  assumes "validate_dataflow_node catalog child (depth + 1) types = Inr (row, types')" "depth < kMaxPlanDepth"
    and "distinct (slots_of row)" "set keys \<subseteq> set (slots_of row)" "distinct keys"
    and "\<forall>c \<in> set calls. ac_output_slot c \<notin> set (slots_of row) \<and>
     (case ac_input_slot c of None \<Rightarrow> call_types_valid c None
      | Some s \<Rightarrow> \<exists>v. slot_lookup row s = Inr v \<and> call_types_valid c (runtime_type v))"
    and "distinct (map ac_output_slot calls)"
  shows "\<exists>out types''. validate_dataflow_node catalog (AggregateNode keys calls (Some child)) depth types = Inr (out, types'')
     \<and> slots_of out = keys @ map ac_output_slot calls \<and> distinct (slots_of out)"
proof -
  obtain ks where k: "validate_group_keys row keys [] = Inr ks" "slots_of ks = keys"
    using group_keys_validate [OF assms(3,4), of "[]"] assms(5) by auto
  have d: "distinct (keys @ map ac_output_slot calls)" using assms(4-7) by auto
  then obtain out where "validate_calls row calls ks = Inr out" "slots_of out = keys @ map ac_output_slot calls"
    using calls_validate [OF assms(6), of ks] k(2) by auto
  then show ?thesis using assms(1,2) k(1) d by simp
qed


text \<open>The parts of an analyzed \<open>SELECT\<close>, and the parts of its plan.\<close>

lemma analyze_select_parts:
  assumes "analyze_select ast catalog = Inr (StatementSelect b)"
  obtains table scope joins group_by aggregate_query where
    "table \<in> set catalog" "analyze_joins catalog [table] (sa_joins ast) = Inr (scope, joins)"
    "analyze_group_by scope [] (sa_group_by ast) = Inr group_by"
    "aggregate_query \<longleftrightarrow> list_ex is_aggregate_item (sa_items ast) \<or> group_by \<noteq> []" "\<not> (sa_select_all ast \<and> aggregate_query)"
    "(if sa_select_all ast then Inr (all_columns scope)
      else collect_results (analyze_item scope aggregate_query group_by) (sa_items ast)) = Inr (bs_items b)"
    "analyze_where (sa_predicate ast) scope = Inr (bs_predicate b)"
    "collect_results (analyze_sort_key scope aggregate_query group_by) (sa_order_by ast) = Inr (bs_order_by b)"
    "bs_table_id b = tm_table_id table" "bs_joins b = joins" "bs_group_by b = group_by"
proof -
  obtain table where t: "find_table_named catalog (sa_table_name ast) = Some table"
    using assms by (auto simp: analyze_select_def split: option.splits)
  obtain sj where sj: "analyze_joins catalog [table] (sa_joins ast) = Inr sj"
    using assms by (auto simp: analyze_select_def t result_simps)
  obtain scope joins where s: "sj = (scope, joins)" by (cases sj)
  obtain group_by where g: "analyze_group_by scope [] (sa_group_by ast) = Inr group_by"
    using assms by (auto simp: analyze_select_def t sj s result_simps)
  let ?q = "list_ex is_aggregate_item (sa_items ast) \<or> group_by \<noteq> []"
  have n: "\<not> (sa_select_all ast \<and> ?q)"
    using assms by (auto simp: analyze_select_def t sj s g Let_def split: if_splits)
  have "table \<in> set catalog" using t by (auto simp: find_table_named_def find_Some_iff)
  moreover have "bind_result (if sa_select_all ast then Inr (all_columns scope)
         else collect_results (analyze_item scope ?q group_by) (sa_items ast)) (\<lambda>items.
       bind_result (analyze_where (sa_predicate ast) scope) (\<lambda>predicate.
       bind_result (collect_results (analyze_sort_key scope ?q group_by) (sa_order_by ast)) (\<lambda>order_by.
       Inr (StatementSelect \<lparr>bs_table_id = tm_table_id table, bs_joins = joins, bs_items = items, bs_predicate = predicate,
         bs_group_by = group_by, bs_order_by = order_by\<rparr>)))) = Inr (StatementSelect b)"
    using assms n unfolding analyze_select_def t option.case sj s bind_result_simps prod.case g Let_def if_not_P [OF n] by simp
  ultimately show ?thesis using that [of table scope joins group_by ?q] sj s g n by (elim bind_result_InrE) auto
qed

lemma generate_select_parts:
  assumes "generate_select_plan statement catalog = Inr (PlanQuery plan)"
  obtains bindings keys outs qouts calls predicate sort_keys conds where
    "build_slot_bindings catalog (bs_table_id statement # map bj_table_id (bs_joins statement)) = Inr bindings"
    "generate_group_keys bindings (bs_group_by statement) = Inr keys"
    "generate_items bindings (sum_list (map (\<lambda>b. length (sb_columns b)) bindings)) (bs_items statement) = Inr (outs, qouts, calls)"
    "generate_predicate (bs_predicate statement) bindings = Inr predicate"
    "generate_sort_keys bindings (bs_order_by statement) = Inr sort_keys"
    "generate_join_conditions bindings (bs_joins statement) = Inr conds"
    "plan = \<lparr>qp_root = Some (ProjectNode outs (Some (plan_child (join_tree statement bindings conds) predicate keys calls sort_keys))),
       qp_outputs = qouts\<rparr>"
proof -
  obtain bindings keys it where
    b: "build_slot_bindings catalog (bs_table_id statement # map bj_table_id (bs_joins statement)) = Inr bindings"
    and k: "generate_group_keys bindings (bs_group_by statement) = Inr keys"
    and it: "generate_items bindings (sum_list (map (\<lambda>b. length (sb_columns b)) bindings)) (bs_items statement) = Inr it"
    and rest: "(case it of (outs, qouts, calls) \<Rightarrow>
     bind_result (generate_predicate (bs_predicate statement) bindings) (\<lambda>predicate.
     bind_result (generate_sort_keys bindings (bs_order_by statement)) (\<lambda>sk.
     bind_result (generate_join_conditions bindings (bs_joins statement)) (\<lambda>conds.
       Inr (PlanQuery \<lparr>qp_root = Some (ProjectNode outs (Some (plan_child (join_tree statement bindings conds) predicate keys calls sk))),
         qp_outputs = qouts\<rparr>))))) = Inr (PlanQuery plan)"
    using assms unfolding generate_select_plan_eq by (elim bind_result_InrE)
  obtain outs qouts calls where i: "it = (outs, qouts, calls)" by (cases it)
  show ?thesis using that [OF b k it [unfolded i]] rest unfolding i prod.case by (elim bind_result_InrE) auto
qed


lemma planned_keys_slots:
  "generate_group_keys bindings keys = Inr slots \<longleftrightarrow> list_all2 (\<lambda>r s. find_slot bindings r = Some s) keys slots"
  "generate_sort_keys bindings order = Inr sort_keys \<longleftrightarrow>
     list_all2 (\<lambda>k s. find_slot bindings (bsk_column k) = Some (sk_slot_id s) \<and> sk_direction s = bsk_direction k) order sort_keys"
  by (auto simp: generate_group_keys_def generate_sort_keys_def collect_results_Inr_iff elim!: list_all2_mono split: option.splits)

lemma planned_keys_distinct:
  assumes "list_all2 (\<lambda>r s. find_slot bindings r = Some s) keys slots" "distinct keys" "bindings_ok bindings"
    "columns_in (map sb_table bindings) (set keys)"
  shows "distinct slots"
proof -
  have l: "length slots = length keys" using assms(1) by (simp add: list_all2_lengthD)
  have "slots ! i \<noteq> slots ! j" if ij: "i < length slots" "j < length slots" "i \<noteq> j" for i j
  proof
    assume e: "slots ! i = slots ! j"
    have f: "find_slot bindings (keys ! i) = find_slot bindings (keys ! j)"
      using list_all2_nthD2 [OF assms(1)] ij e by simp
    obtain c c' where "column_in (map sb_table bindings) (keys ! i) c" "column_in (map sb_table bindings) (keys ! j) c'"
      using assms(4) ij l by (metis nth_mem)
    from find_slot_injective [OF assms(3) this f] have "keys ! i = keys ! j" .
    then show False using assms(2) ij l by (simp add: nth_eq_iff_index_eq)
  qed
  then show ?thesis by (simp add: distinct_conv_nth)
qed

text \<open>Validation above the scans: filter, aggregation and sort keep what the parts above them look up.\<close>

lemma plan_child_validates:
  assumes tree: "\<And>depth types. depth \<le> 4 \<Longrightarrow> \<exists>types'. validate_dataflow_node catalog tree depth types = Inr (row, types')"
    and row: "distinct (slots_of row)" and "where_valid predicate row"
    and keys: "set keys \<subseteq> set (slots_of row)" "distinct keys"
    and calls: "\<forall>c \<in> set calls. ac_output_slot c \<notin> set (slots_of row) \<and>
     (case ac_input_slot c of None \<Rightarrow> call_types_valid c None
      | Some s \<Rightarrow> \<exists>v. slot_lookup row s = Inr v \<and> call_types_valid c (runtime_type v))"
      "distinct (map ac_output_slot calls)"
    and sort: "sk_slot_id ` set sort_keys \<subseteq> (if keys \<noteq> [] \<or> calls \<noteq> [] then set keys else set (slots_of row))"
  shows "\<exists>out types'. validate_dataflow_node catalog (plan_child tree predicate keys calls sort_keys) 1 types = Inr (out, types')
    \<and> distinct (slots_of out)
    \<and> slots_of out = (if keys \<noteq> [] \<or> calls \<noteq> [] then keys @ map ac_output_slot calls else slots_of row)"
proof -
  have [simp]: "d < kMaxPlanDepth" if "d \<le> 4" for d using that by (simp add: kMaxPlanDepth_def)
  let ?f = "case predicate of None \<Rightarrow> tree | Some p \<Rightarrow> FilterNode p (Some tree)"
  have f: "\<exists>types'. validate_dataflow_node catalog ?f depth types = Inr (row, types')" if "depth \<le> 3" for depth types
  proof (cases predicate)
    case None
    then show ?thesis using tree [of depth types] that by simp
  next
    case (Some p)
    then show ?thesis using tree [of "depth + 1" types] that assms(3) by (auto simp: where_valid_def kMaxPlanDepth_def)
  qed
  let ?a = "if keys \<noteq> [] \<or> calls \<noteq> [] then AggregateNode keys calls (Some ?f) else ?f"
  let ?out = "if keys \<noteq> [] \<or> calls \<noteq> [] then keys @ map ac_output_slot calls else slots_of row"
  have a: "\<exists>out types'. validate_dataflow_node catalog ?a depth types = Inr (out, types') \<and> distinct (slots_of out) \<and> slots_of out = ?out"
    if d: "depth \<le> 2" for depth types
  proof (cases "keys \<noteq> [] \<or> calls \<noteq> []")
    case True
    obtain types' where "validate_dataflow_node catalog ?f (depth + 1) types = Inr (row, types')" using f [of "depth + 1" types] d by auto
    from aggregate_validates [OF this _ row keys calls] show ?thesis using True d by auto
  next
    case False
    obtain types' where "validate_dataflow_node catalog ?f depth types = Inr (row, types')" using f [of depth types] d by auto
    then show ?thesis unfolding if_not_P [OF False] using row by blast
  qed
  show ?thesis
  proof (cases "sort_keys = []")
    case True
    then show ?thesis using a [of 1 types] by (simp add: plan_child_def Let_def)
  next
    case False
    obtain out types' where o: "validate_dataflow_node catalog ?a (1 + 1) types = Inr (out, types')" "distinct (slots_of out)" "slots_of out = ?out"
      using a [of "1 + 1" types] by auto
    have "sk_slot_id ` set sort_keys \<subseteq> set (slots_of out)" using sort o(3) by (auto split: if_splits)
    then have "check_sort_slots out sort_keys = Inr ()" by (rule check_slots_members(2) [OF o(2)])
    moreover have "validate_dataflow_node catalog (SortNode sort_keys (Some n)) 1 types = Inr (out, types')"
      if "validate_dataflow_node catalog n (1 + 1) types = Inr (out, types')" "check_sort_slots out sort_keys = Inr ()" for n
      using that False by (simp add: kMaxPlanDepth_def)
    moreover have "plan_child tree predicate keys calls sort_keys = SortNode sort_keys (Some ?a)"
      using False by (simp add: plan_child_def Let_def)
    ultimately show ?thesis using o by metis
  qed
qed


lemma collect_results_members:
  "collect_results f xs = Inr ys \<Longrightarrow> y \<in> set ys \<Longrightarrow> \<exists>x \<in> set xs. f x = Inr y"
  "collect_results f xs = Inr ys \<Longrightarrow> length ys = length xs"
  by (auto simp: collect_results_Inr_iff list_all2_conv_all_nth in_set_conv_nth) (metis nth_mem)

text \<open>What the analyzer guarantees of select list and sort keys.\<close>

lemma analyzed_items:
  assumes "(if all then Inr (all_columns scope)
      else collect_results (analyze_item scope aggregate_query group_by) ast_items) = Inr items"
    and "\<not> (all \<and> aggregate_query)" "aggregate_query \<longleftrightarrow> list_ex is_aggregate_item ast_items \<or> group_by \<noteq> []" "small_tables scope"
  shows "\<forall>item \<in> set items. item_typed scope aggregate_query group_by item"
    "aggregate_query \<longleftrightarrow> (\<exists>a. SelectAggregate a \<in> set items) \<or> group_by \<noteq> []"
proof -
  have "(\<forall>item \<in> set items. item_typed scope aggregate_query group_by item)
      \<and> (aggregate_query \<longleftrightarrow> (\<exists>a. SelectAggregate a \<in> set items) \<or> group_by \<noteq> [])"
  proof (cases all)
    case True
    then have "items = all_columns scope" "\<not> aggregate_query" using assms(1,2) by auto
    then show ?thesis using all_columns_typed [OF _ assms(4)] assms(3) by fastforce
  next
    case False
    then have c: "collect_results (analyze_item scope aggregate_query group_by) ast_items = Inr items" using assms(1) by simp
    have t: "item_typed scope aggregate_query group_by item" if "item \<in> set items" for item
      using collect_results_members(1) [OF c that] analyze_item_typed [OF _ assms(4)] by blast
    have "list_all2 (\<lambda>x y. analyze_item scope aggregate_query group_by x = Inr y) ast_items items"
      using c by (simp add: collect_results_Inr_iff)
    then have "list_all2 (\<lambda>x y. is_aggregate_item x \<longleftrightarrow> (\<exists>a. y = SelectAggregate a)) ast_items items"
      by (rule list_all2_mono) (use analyze_item_typed [OF _ assms(4)] in blast)
    then have "list_ex is_aggregate_item ast_items \<longleftrightarrow> (\<exists>a. SelectAggregate a \<in> set items)"
      by (induction rule: list_all2_induct) auto
    then show ?thesis using t assms(3) by blast
  qed
  then show "\<forall>item \<in> set items. item_typed scope aggregate_query group_by item"
    "aggregate_query \<longleftrightarrow> (\<exists>a. SelectAggregate a \<in> set items) \<or> group_by \<noteq> []" by blast+
qed

lemma analyzed_sort_keys:
  assumes "collect_results (analyze_sort_key scope aggregate_query group_by) ast = Inr order" "small_tables scope" "k \<in> set order"
  shows "\<exists>c. column_in scope (bsk_column k) c" "aggregate_query \<Longrightarrow> bsk_column k \<in> set group_by"
  using collect_results_members(1) [OF assms(1,3)] resolve_column_in [OF _ assms(2)]
  by (fastforce simp: analyze_sort_key_def result_simps split: if_splits)+

lemma analyzed_select_validates:
  assumes "catalog_valid catalog" "analyze_select ast catalog = Inr (StatementSelect b)"
    and "optimize (StatementSelect b) = StatementSelect b'" "generate_select_plan b' catalog = Inr (PlanQuery plan)"
    and "\<forall>j \<in> set (sa_joins ast). ast_height (aj_condition j) \<le> kMaxExpressionDepth"
    and "\<forall>e. sa_predicate ast = Some e \<longrightarrow> ast_height e \<le> kMaxExpressionDepth"
    and "sa_select_all ast \<or> sa_items ast \<noteq> []" "length (sa_joins ast) \<le> 251"
  shows "\<exists>query. validate_query_plan catalog plan = Inr query"
proof -
  obtain table scope joins group_by aggregate_query where
    t: "table \<in> set catalog" and sj: "analyze_joins catalog [table] (sa_joins ast) = Inr (scope, joins)"
    and gb: "analyze_group_by scope [] (sa_group_by ast) = Inr group_by"
    and q: "aggregate_query \<longleftrightarrow> list_ex is_aggregate_item (sa_items ast) \<or> group_by \<noteq> []" "\<not> (sa_select_all ast \<and> aggregate_query)"
    and items: "(if sa_select_all ast then Inr (all_columns scope)
      else collect_results (analyze_item scope aggregate_query group_by) (sa_items ast)) = Inr (bs_items b)"
    and wh: "analyze_where (sa_predicate ast) scope = Inr (bs_predicate b)"
    and order: "collect_results (analyze_sort_key scope aggregate_query group_by) (sa_order_by ast) = Inr (bs_order_by b)"
    and b: "bs_table_id b = tm_table_id table" "bs_joins b = joins" "bs_group_by b = group_by"
    using analyze_select_parts [OF assms(2)] by blast
  note scope = analyze_joins_scope [OF sj]
  have ids: "distinct (map tm_table_id catalog)" and small: "small_tables catalog"
    and valid: "\<forall>t \<in> set catalog. validate_table_metadata t = None" using assms(1) by (simp_all add: catalog_valid_def)
  have sub: "set scope \<subseteq> set catalog" using scope(5) t by simp
  note small' = small_tables_subset [OF small sub]
  obtain trace where b': "b' = b\<lparr>bs_joins := fst (optimize_joins joins []), bs_predicate := fst (optimize_predicate (bs_predicate b) trace)\<rparr>"
    using assms(3) by (auto simp: optimize_def split_def Let_def b)
  obtain bindings keys outs qouts calls predicate sort_keys conds where
    bind: "build_slot_bindings catalog (bs_table_id b' # map bj_table_id (bs_joins b')) = Inr bindings"
    and k: "generate_group_keys bindings (bs_group_by b') = Inr keys"
    and it: "generate_items bindings (sum_list (map (\<lambda>b. length (sb_columns b)) bindings)) (bs_items b') = Inr (outs, qouts, calls)"
    and p: "generate_predicate (bs_predicate b') bindings = Inr predicate"
    and sk: "generate_sort_keys bindings (bs_order_by b') = Inr sort_keys"
    and jc: "generate_join_conditions bindings (bs_joins b') = Inr conds"
    and plan: "plan = \<lparr>qp_root = Some (ProjectNode outs (Some (plan_child (join_tree b' bindings conds) predicate keys calls sort_keys))),
       qp_outputs = qouts\<rparr>"
    using generate_select_parts [OF assms(4)] by blast
  have tables: "bs_table_id b' # map bj_table_id (bs_joins b') = map tm_table_id scope"
    using scope(2) by (simp add: b' b optimize_joins_nth(2))
  have "distinct (map tm_table_id scope)" using scope(4) by simp
  note ok = build_slot_bindings_ok [OF bind [unfolded tables] this small]
  note sb = bindings_tables [OF ids sub ok(3,2)]
  let ?row = "scope_row bindings"
  have row: "distinct (slots_of ?row)" by (rule scope_row_distinct [OF ok(1)])
  have len: "length bindings = Suc (length joins)" using arg_cong [OF ok(2), of length] arg_cong [OF scope(2), of length] by simp
  have cond: "analyze_predicate ''JOIN ON predicate must be BOOL'' (aj_condition (sa_joins ast ! i))
       (map sb_table (take (i + 2) bindings)) = Inr (bj_condition (joins ! i)) \<and> ast_height (aj_condition (sa_joins ast ! i)) \<le> kMaxExpressionDepth"
    if "i < length joins" for i
    using scope(6) [OF that] assms(5) scope(1) that by (simp add: sb take_map [symmetric])
  have conds: "validate_predicate (conds ! i) (scope_row (take (i + 2) bindings)) = None" if "i < length (bs_joins b')" for i
    by (rule planned_conditions_valid [of joins "\<lambda>i. aj_condition (sa_joins ast ! i)" bindings "[]"])
      (use cond ok(1) small' sb jc that in \<open>auto simp: b' optimize_joins_nth(1)\<close>)
  have hd_id: "tm_table_id (sb_table (hd bindings)) = bs_table_id b'"
    using ok(2) len unfolding tables [symmetric] by (cases bindings) auto
  have tl_ids: "map bj_table_id (bs_joins b') = map (\<lambda>b. tm_table_id (sb_table b)) (tl bindings)"
    using ok(2) len unfolding tables [symmetric] by (cases bindings) auto
  have jl: "length (bs_joins b') = length joins" by (simp add: b' optimize_joins_nth(1))
  have tree: "\<exists>types'. validate_dataflow_node catalog (join_tree b' bindings conds) depth types = Inr (?row, types')"
    if "depth \<le> 4" for depth types
  proof -
    have "depth + length joins < kMaxPlanDepth" using that assms(8) scope(1) by (simp add: kMaxPlanDepth_def)
    then show ?thesis
      using join_tree_validates [OF ok(1,3) ids valid _ tl_ids conds, of "length joins" depth types] len jl
      by (simp add: join_tree_def join_step_def hd_id)
  qed
  have wv: "where_valid predicate ?row"
    by (rule analyze_where_valid [OF wh [folded sb] ok(1) small' [folded sb] assms(6), of trace]) (use p in \<open>simp add: b'\<close>)
  note typed = analyzed_items [OF items q(2,1) small']
  note gk = analyze_group_by_keys [OF gb small']
  have k': "list_all2 (\<lambda>r s. find_slot bindings r = Some s) group_by keys"
    using k by (simp add: planned_keys_slots b' b)
  have key_of: "find_slot bindings r = Some s \<Longrightarrow> r \<in> set group_by \<Longrightarrow> s \<in> set keys" for r s
    using k' by (auto simp: list_all2_conv_all_nth in_set_conv_nth)
  have in_row: "s \<in> set (slots_of ?row)" if "find_slot bindings r = Some s" "column_in scope r c" for r s c
    by (rule column_slot [OF that(2) [folded sb] ok(1)]) (use that(1) in force)
  have keys: "set keys \<subseteq> set (slots_of ?row)" using k' gk in_row by (fastforce simp: list_all2_conv_all_nth in_set_conv_nth)
  have dk: "distinct keys" by (rule planned_keys_distinct [OF k' _ ok(1)]) (use gk sb in auto)
  note gi = generate_items_parts [OF it]
  have [simp]: "bs_items b' = bs_items b" "bs_order_by b' = bs_order_by b" by (simp_all add: b')
  have call_item: "\<exists>a. SelectAggregate a \<in> set (bs_items b)" if "calls \<noteq> []"
    using gi that by (cases calls) (auto simp: call_of_def)
  have "keys = [] \<longleftrightarrow> group_by = []" using k' by auto
  then have agg: "keys \<noteq> [] \<or> calls \<noteq> [] \<longleftrightarrow> aggregate_query"
    using typed(2) call_item gi by auto
  have intro: "distinct (slots_of ?row @ map ac_output_slot calls)"
  proof -
    have "length bindings = Suc (length (bs_joins b'))" using len jl by simp
    from join_tree_introduced [OF this] planner_introduces_once [OF assms(4)] show ?thesis
      using ok(1) by (auto simp: plan introduced_plan_child scope_row_slots bindings_ok_def)
  qed
  have calls: "\<forall>c \<in> set calls. ac_output_slot c \<notin> set (slots_of ?row) \<and>
     (case ac_input_slot c of None \<Rightarrow> call_types_valid c None
      | Some s \<Rightarrow> \<exists>v. slot_lookup ?row s = Inr v \<and> call_types_valid c (runtime_type v))"
  proof
    fix c assume c: "c \<in> set calls"
    then have "call_of bindings (bs_items b) c" using gi by simp
    then obtain a input where a: "SelectAggregate a \<in> set (bs_items b)" "c = bound_call a input (ac_output_slot c)"
      and input: "(case bac_argument a of None \<Rightarrow> input = None | Some r \<Rightarrow> input \<noteq> None \<and> input = find_slot bindings r)"
      by (auto simp: call_of_def)
    have ta: "aggregate_typed scope a" using typed(1) a(1) by (force simp: item_typed_def)
    have out: "ac_output_slot c \<notin> set (slots_of ?row)" using intro c by auto
    have ci: "ac_input_slot c = input" by (subst a(2)) (simp add: bound_call_def)
    show "ac_output_slot c \<notin> set (slots_of ?row) \<and>
     (case ac_input_slot c of None \<Rightarrow> call_types_valid c None
      | Some s \<Rightarrow> \<exists>v. slot_lookup ?row s = Inr v \<and> call_types_valid c (runtime_type v))"
    proof (cases "bac_argument a")
      case None
      then have n: "input = None" using input by simp
      have "call_types_valid (bound_call a None (ac_output_slot c)) None" using ta None by (simp add: aggregate_typed_def)
      then have "call_types_valid c None" by (simp only: a(2) [unfolded n, symmetric])
      then show ?thesis using out ci n by simp
    next
      case (Some r)
      then obtain m where m: "column_in scope r m" "\<forall>slot out. call_types_valid (bound_call a (Some slot) out) (Some (cm_type m))"
        using ta by (auto simp: aggregate_typed_def)
      obtain s where s: "find_slot bindings r = Some s" "lookup_value ?row s = Inr (validation_value (cm_type m))"
        by (rule column_slot [OF m(1) [folded sb] ok(1)])
      have i: "input = Some s" using input Some s(1) by simp
      have "call_types_valid (bound_call a (Some s) (ac_output_slot c)) (Some (cm_type m))" using m(2) by blast
      then have "call_types_valid c (Some (cm_type m))" by (simp only: a(2) [unfolded i, symmetric])
      then show ?thesis using out ci i s(2) by (simp add: slot_lookup_iff)
    qed
  qed
  have sort: "sk_slot_id ` set sort_keys \<subseteq> (if keys \<noteq> [] \<or> calls \<noteq> [] then set keys else set (slots_of ?row))"
  proof
    fix s assume "s \<in> sk_slot_id ` set sort_keys"
    then obtain i where i: "i < length sort_keys" "s = sk_slot_id (sort_keys ! i)" by (auto simp: in_set_conv_nth)
    have l: "list_all2 (\<lambda>k s. find_slot bindings (bsk_column k) = Some (sk_slot_id s) \<and> sk_direction s = bsk_direction k) (bs_order_by b) sort_keys"
      using sk by (simp add: planned_keys_slots)
    let ?k = "bs_order_by b ! i"
    have f: "find_slot bindings (bsk_column ?k) = Some s" using list_all2_nthD2 [OF l i(1)] i(2) by simp
    have m: "?k \<in> set (bs_order_by b)" using list_all2_lengthD [OF l] i(1) by simp
    obtain c where c: "column_in scope (bsk_column ?k) c" using analyzed_sort_keys(1) [OF order small' m] by blast
    show "s \<in> (if keys \<noteq> [] \<or> calls \<noteq> [] then set keys else set (slots_of ?row))"
      using in_row [OF f c] key_of [OF f] analyzed_sort_keys(2) [OF order small' m] agg by simp
  qed
  have dc: "distinct (map ac_output_slot calls)" using intro by simp
  obtain out types' where child: "validate_dataflow_node catalog (plan_child (join_tree b' bindings conds) predicate keys calls sort_keys) 1 []
      = Inr (out, types')" "distinct (slots_of out)"
    and slots: "slots_of out = (if keys \<noteq> [] \<or> calls \<noteq> [] then keys @ map ac_output_slot calls else slots_of ?row)"
    using plan_child_validates [OF tree row wv keys dk calls dc sort, where types = "[]"] by blast
  have outs: "set outs \<subseteq> set (slots_of out)"
  proof
    fix s assume s: "s \<in> set outs"
    have "\<exists>r. SelectColumn r \<in> set (bs_items b) \<and> find_slot bindings r = Some s" if "s \<notin> ac_output_slot ` set calls"
      using gi s that by auto
    moreover have "s \<in> set (slots_of out)" if r: "SelectColumn r \<in> set (bs_items b)" "find_slot bindings r = Some s" for r
    proof -
      have "item_typed scope aggregate_query group_by (SelectColumn r)" using typed(1) r(1) by blast
      then obtain c where "column_in scope r c" "aggregate_query \<longrightarrow> r \<in> set group_by" by (auto simp: item_typed_def)
      then show ?thesis using in_row [OF r(2)] key_of [OF r(2)] agg by (simp add: slots)
    qed
    moreover have "s \<in> set (slots_of out)" if "s \<in> ac_output_slot ` set calls" using that by (auto simp: slots)
    ultimately show "s \<in> set (slots_of out)" by blast
  qed
  have "bs_items b \<noteq> []"
  proof (cases "sa_select_all ast")
    case True
    have "table \<in> set scope" using scope(3) by (metis in_set_takeD list.set_intros(1))
    moreover have "tm_columns table \<noteq> []" using valid t by (auto simp: validate_table_metadata_def split: if_splits)
    ultimately show ?thesis using items True by (auto simp: all_columns_def)
  next
    case False
    then have "length (bs_items b) = length (sa_items ast)" using items collect_results_members(2) by simp
    then show ?thesis using assms(7) False by auto
  qed
  then have ne: "outs \<noteq> []" "outs = map qo_slot_id qouts" using gi by auto
  then obtain columns where "result_headers outs qouts = Inr columns" using headers_exist by metis
  then show ?thesis using child(1) check_slots_members(1) [OF child(2) outs] ne by (simp add: validate_query_plan_def plan)
qed

end
