(* ===== verification/Compiled_Plans.thy ===== *)
theory Compiled_Plans
  imports Compiler Parsed_Statements Select_Typing Command_Properties
begin

text \<open>
  The contract between compiler and executor: a plan that \<open>compile\<close> returns for the catalog of an open session
  passes every check that the executor makes before it calls storage.
\<close>

subsection \<open>Tables and values\<close>

lemma find_named_catalog:
  assumes "find_table_named catalog name = Some t" "catalog_valid catalog"
  shows "t \<in> set catalog" "find_catalog_table catalog (tm_table_id t) = Some t" "validate_table_metadata t = None"
    "length (tm_columns t) \<le> 2 ^ 32" "small_tables [t]"
proof -
  show t: "t \<in> set catalog" using assms(1) by (auto simp: find_table_named_def find_Some_iff)
  show "find_catalog_table catalog (tm_table_id t) = Some t"
    by (rule find_catalog_table_member) (use t assms(2) in \<open>simp_all add: catalog_valid_def\<close>)
  show "validate_table_metadata t = None" "length (tm_columns t) \<le> 2 ^ 32" "small_tables [t]"
    using t assms(2) by (auto simp: catalog_valid_def small_tables_def)
qed

lemma coerced_value_matches:
  assumes "coerce_assignment literal column = Inr v"
  shows "value_matches_column v column"
  using assms
  by (cases "al_value literal"; cases "cm_type column")
    (auto simp: coerce_assignment_def value_matches_column_def Let_def split: if_splits)

subsection \<open>INSERT\<close>

lemma bind_insert_columns_distinct:
  "bind_insert_columns t bound columns = Inr cols \<Longrightarrow> length (tm_columns t) \<le> 2 ^ 32 \<Longrightarrow> distinct bound \<Longrightarrow>
   \<forall>c \<in> set bound. unat c < length (tm_columns t) \<Longrightarrow>
   distinct cols \<and> (\<forall>c \<in> set cols. unat c < length (tm_columns t)) \<and> length cols = length bound + length columns"
proof (induction t bound columns rule: bind_insert_columns.induct)
  case (2 t bound column rest)
  obtain c where c: "find_column t (aic_name column) = Some c" using "2.prems"(1) by (auto split: option.splits)
  have n: "\<not> List.member bound c" using "2.prems"(1) c by (auto split: if_splits)
  have r: "bind_insert_columns t (bound @ [c]) rest = Inr cols" using "2.prems"(1) c n by simp
  show ?case using "2.IH" [OF c n r] "2.prems" n find_column_Some(1) [OF c] by auto
qed simp

lemma listed_columns_complete:
  assumes "bind_insert_columns t [] columns = Inr cols" "length (tm_columns t) \<le> 2 ^ 32"
    and "(if columns \<noteq> [] \<and> length cols \<noteq> length (tm_columns t) then unlisted_column t cols else None) = None"
  shows "columns_complete (length (tm_columns t)) cols"
proof (cases "columns = []")
  case True
  then show ?thesis using assms(1) by (simp add: columns_complete_def)
next
  case False
  let ?n = "length (tm_columns t)"
  have cols: "distinct cols" "\<forall>c \<in> set cols. unat c < ?n"
    using bind_insert_columns_distinct [OF assms(1,2)] by auto
  have "length cols = ?n"
  proof (rule ccontr)
    assume "length cols \<noteq> ?n"
    then have "unlisted_column t cols = None" using assms(3) False by simp
    then have all: "\<forall>i < ?n. (word_of_nat i :: ColumnId) \<in> set cols"
      by (auto simp: unlisted_column_def find_None_iff)
    have "{..<?n} \<subseteq> unat ` set cols"
    proof
      fix i assume i: "i \<in> {..<?n}"
      then have "unat (word_of_nat i :: ColumnId) = i" using unat_index [OF assms(2)] by simp
      then show "i \<in> unat ` set cols" using all i by (metis image_eqI lessThan_iff)
    qed
    moreover have "unat ` set cols \<subseteq> {..<?n}" using cols(2) by auto
    ultimately have "unat ` set cols = {..<?n}" by blast
    moreover have "card (unat ` set cols) = length cols"
      using cols(1) by (simp add: card_image inj_on_def word_unat_eq_iff distinct_card)
    ultimately show False using \<open>length cols \<noteq> ?n\<close> by simp
  qed
  then show ?thesis using cols by (simp add: columns_complete_def)
qed

lemma analyzed_row_physical:
  assumes "analyze_row t source cols row = Inr values'" "columns_complete (length (tm_columns t)) cols" "length (tm_columns t) \<le> 2 ^ 32"
  shows "\<exists>r. physical_row t cols values' = Inr r"
proof -
  let ?n = "length (tm_columns t)"
  have len: "length row = ?n" using assms(1) by (auto simp: analyze_row_def Let_def split: if_splits)
  have "list_all2 (\<lambda>i v. coerce_assignment (row ! i)
      (tm_columns t ! unat ((if cols = [] then word_of_nat i else cols ! i) :: ColumnId)) = Inr v) [0..<?n] values'"
    using assms(1) len by (simp add: analyze_row_def Let_def collect_results_Inr_iff)
  then have v: "length values' = ?n" "\<And>i. i < ?n \<Longrightarrow> coerce_assignment (row ! i)
      (tm_columns t ! unat ((if cols = [] then word_of_nat i else cols ! i) :: ColumnId)) = Inr (values' ! i)"
    by (auto simp: list_all2_conv_all_nth)
  have target: "unat ((if cols = [] then word_of_nat i else cols ! i) :: ColumnId) = target_column cols i" if "i < ?n" for i
    using unat_index [OF assms(3) that] by (simp add: target_column_def)
  have m: "value_matches_column (values' ! i) (tm_columns t ! target_column cols i)" if "i < ?n" for i
    using coerced_value_matches [OF v(2) [OF that]] target [OF that] by simp
  have l: "length (place_values ?n cols values') = ?n"
    using place_values_length [of values' cols ?n] v(1) assms(2) by (auto simp: columns_complete_def)
  have "list_all2 value_matches_column (place_values ?n cols values') (tm_columns t)"
    unfolding list_all2_conv_all_nth
  proof (intro conjI allI impI)
    fix j assume "j < length (place_values ?n cols values')"
    then have "j < ?n" using l by simp
    then obtain i where i: "i < ?n" "target_column cols i = j" using target_column_onto [OF assms(2)] by blast
    show "value_matches_column (place_values ?n cols values' ! j) (tm_columns t ! j)"
      using place_values_nth [OF assms(2) v(1) i(1)] m [OF i(1)] i(2) by simp
  qed (rule l)
  then show ?thesis using v(1) assms(2) by (auto simp: physical_row_Inr columns_complete_def)
qed

lemma collect_results_total: "\<forall>x \<in> set xs. \<exists>y. f x = Inr y \<Longrightarrow> \<exists>ys. collect_results f xs = Inr ys"
  by (induction xs) auto

lemma analyzed_insert_accepted:
  assumes "analyze_insert ast catalog = Inr (StatementInsert b)" "catalog_valid catalog" "statement_wf (StInsert ast)"
  obtains t rows where "find_catalog_table catalog (bi_table_id b) = Some t" "validate_table_metadata t = None"
    "insert_rows t \<lparr>ip_table_id = bi_table_id b, ip_columns = bi_columns b, ip_rows = bi_rows b\<rparr> = Inr rows"
proof -
  obtain t where t: "find_table_named catalog (ia_table_name ast) = Some t"
    using assms(1) by (auto simp: analyze_insert_def split: option.splits)
  note tables = find_named_catalog [OF t assms(2)]
  obtain cols where cols: "bind_insert_columns t [] (ia_columns ast) = Inr cols"
    using assms(1) by (auto simp: analyze_insert_def t result_simps)
  have listed: "(if ia_columns ast \<noteq> [] \<and> length cols \<noteq> length (tm_columns t) then unlisted_column t cols else None) = None"
    using assms(1) unfolding analyze_insert_def t option.case cols bind_result_simps by (auto split: option.splits)
  obtain rows where rows: "collect_results (analyze_row t (ia_table_source ast) cols) (ia_rows ast) = Inr rows"
    and b: "b = \<lparr>bi_table_id = tm_table_id t, bi_columns = cols, bi_rows = rows\<rparr>"
    using assms(1) unfolding analyze_insert_def t option.case cols bind_result_simps listed by (auto simp: bind_result_Inr_iff)
  note complete = listed_columns_complete [OF cols tables(4) listed]
  have "\<forall>r \<in> set rows. \<exists>p. physical_row t cols r = Inr p"
    using collect_results_members(1) [OF rows] analyzed_row_physical [OF _ complete tables(4)] by blast
  then obtain prs where p: "collect_results (physical_row t cols) rows = Inr prs" using collect_results_total by blast
  have "rows \<noteq> []" using collect_results_members(2) [OF rows] assms(3) by auto
  then have "insert_rows t \<lparr>ip_table_id = tm_table_id t, ip_columns = cols, ip_rows = rows\<rparr> = Inr prs"
    using complete p by (auto simp: insert_rows_def Let_def columns_complete_def columns_permute_iff)
  then show ?thesis using that tables(2,3) by (simp add: b)
qed


subsection \<open>CREATE TABLE\<close>

definition column_meta :: "AstColumnDef \<Rightarrow> ColumnMeta" where
  "column_meta column = \<lparr>cm_name = acd_name column, cm_type = acd_type column, cm_nullable = acd_nullable column\<rparr>"

lemma analyzed_columns_valid:
  "duplicate_column previous columns = None \<Longrightarrow> list_all (\<lambda>c. is_valid_identifier (acd_name c)) columns \<Longrightarrow>
   validate_columns (map column_meta previous) (map column_meta columns) = None"
  by (induction previous columns rule: duplicate_column.induct)
    (auto simp: column_meta_def list_ex_iff split: if_splits)

lemma analyzed_create_accepted:
  assumes "analyze_create ast catalog = Inr (StatementCreateTable b)" "statement_wf (StCreateTable ast)"
  shows "validate_table_metadata \<lparr>tm_table_id = tid, tm_table_name = bct_table_name b, tm_columns = bct_columns b\<rparr> = None"
    "find_table_named catalog (bct_table_name b) = None"
proof -
  have n: "find_table_named catalog (cta_table_name ast) = None" and d: "duplicate_column [] (cta_columns ast) = None"
    and b: "b = \<lparr>bct_table_name = cta_table_name ast, bct_columns = map column_meta (cta_columns ast)\<rparr>"
    using assms(1) by (auto simp: analyze_create_def column_meta_def split: if_splits option.splits)
  show "find_table_named catalog (bct_table_name b) = None" using n by (simp add: b)
  show "validate_table_metadata \<lparr>tm_table_id = tid, tm_table_name = bct_table_name b, tm_columns = bct_columns b\<rparr> = None"
    using analyzed_columns_valid [OF d] assms(2) by (simp add: validate_table_metadata_def b)
qed

subsection \<open>DELETE and UPDATE\<close>

lemma single_binding:
  assumes "build_slot_bindings catalog [tm_table_id t] = Inr bindings" "t \<in> set catalog" "catalog_valid catalog"
  obtains b where "bindings = [b]" "sb_table b = t" "bindings_ok [b]" "make_validation_slot_row t (sb_columns b) = Inr (scope_row [b])"
proof -
  have ids: "distinct (map tm_table_id catalog)" and small: "small_tables catalog" using assms(3) by (simp_all add: catalog_valid_def)
  note ok = build_slot_bindings_ok [OF assms(1) _ small, simplified]
  have "map sb_table bindings = [t]"
    by (rule bindings_tables [OF ids]) (use ok assms(2) in auto)
  then obtain b where b: "bindings = [b]" "sb_table b = t" by auto
  then have "binding_ok b" using ok(1) by (simp add: bindings_ok_def)
  then show ?thesis using that b ok(1) binding_validation_row [of b] by (simp add: scope_row_def)
qed

lemma where_valid_executor: "where_valid predicate row \<Longrightarrow> validate_where predicate row = None"
  by (simp add: where_valid_def validate_where_def split: option.splits)

lemma analyzed_delete_accepted:
  assumes "analyze_delete ast catalog = Inr (StatementDelete b)" "catalog_valid catalog" "statement_wf (StDelete ast)"
    and "optimize (StatementDelete b) = StatementDelete b'" "generate_delete_plan b' catalog = Inr (PlanDelete p)"
  obtains t row where "find_catalog_table catalog (dp_table_id p) = Some t" "validate_table_metadata t = None"
    "make_validation_slot_row t (dp_input_columns p) = Inr row" "validate_where (dp_predicate p) row = None"
proof -
  obtain t where t: "find_table_named catalog (da_table_name ast) = Some t"
    using assms(1) by (auto simp: analyze_delete_def split: option.splits)
  note tables = find_named_catalog [OF t assms(2)]
  have wh: "analyze_where (da_predicate ast) [t] = Inr (bd_predicate b)" and id: "bd_table_id b = tm_table_id t"
    using assms(1) by (auto simp: analyze_delete_def t result_simps)
  have b': "b' = b\<lparr>bd_predicate := fst (optimize_predicate (bd_predicate b) [])\<rparr>"
    using assms(4) by (auto simp: optimize_def split_def Let_def)
  obtain bindings predicate where bind: "build_slot_bindings catalog [tm_table_id t] = Inr bindings"
    and g: "generate_predicate (bd_predicate b') [hd bindings] = Inr predicate"
    and p: "p = \<lparr>dp_table_id = tm_table_id t, dp_input_columns = sb_columns (hd bindings), dp_predicate = predicate\<rparr>"
    using assms(5) by (auto simp: generate_delete_plan_def result_simps b' id Let_def)
  obtain sb where sb: "bindings = [sb]" "sb_table sb = t" "bindings_ok [sb]" "make_validation_slot_row t (sb_columns sb) = Inr (scope_row [sb])"
    by (rule single_binding [OF bind tables(1) assms(2)])
  have "where_valid predicate (scope_row [sb])"
    by (rule analyze_where_valid [of "da_predicate ast" "[sb]" "bd_predicate b" "[]"])
      (use wh sb tables(5) assms(3) g in \<open>auto simp: b'\<close>)
  then show ?thesis using that tables(2,3) sb where_valid_executor by (simp add: p)
qed

lemma analyze_assignments_valid:
  "analyze_assignments t bound as = Inr bound' \<Longrightarrow> length (tm_columns t) \<le> 2 ^ 32 \<Longrightarrow>
   distinct (map bua_column_id bound) \<Longrightarrow>
   \<forall>a \<in> set bound. unat (bua_column_id a) < length (tm_columns t)
     \<and> value_matches_column (bua_value a) (tm_columns t ! unat (bua_column_id a)) \<Longrightarrow>
   distinct (map bua_column_id bound') \<and> (\<forall>a \<in> set bound'. unat (bua_column_id a) < length (tm_columns t)
     \<and> value_matches_column (bua_value a) (tm_columns t ! unat (bua_column_id a))) \<and> length bound' = length bound + length as"
proof (induction t bound as rule: analyze_assignments.induct)
  case (2 t bound a rest)
  obtain c where c: "find_column t (aua_column_name a) = Some c" using "2.prems"(1) by (auto split: option.splits)
  have n: "\<not> list_ex (\<lambda>candidate. bua_column_id candidate = c) bound" using "2.prems"(1) c by (auto split: if_splits)
  obtain v where v: "coerce_assignment (aua_literal a) (tm_columns t ! unat c) = Inr v" using "2.prems"(1) c n by (auto simp: result_simps)
  have r: "analyze_assignments t (bound @ [\<lparr>bua_column_id = c, bua_value = v\<rparr>]) rest = Inr bound'" using "2.prems"(1) c n v by simp
  show ?case using "2.IH" [OF c n v r] "2.prems" n find_column_Some(1) [OF c] coerced_value_matches [OF v]
    by (auto simp: list_ex_iff)
qed simp

lemma analyzed_update_accepted:
  assumes "analyze_update ast catalog = Inr (StatementUpdate b)" "catalog_valid catalog" "statement_wf (StUpdate ast)"
    and "optimize (StatementUpdate b) = StatementUpdate b'" "generate_update_plan b' catalog = Inr (PlanUpdate p)"
  obtains t row where "find_catalog_table catalog (up_table_id p) = Some t" "validate_table_metadata t = None" "up_assignments p \<noteq> []"
    "make_validation_slot_row t (up_input_columns p) = Inr row" "check_assignments t [] (up_assignments p) = None"
    "validate_where (up_predicate p) row = None"
proof -
  obtain t where t: "find_table_named catalog (upa_table_name ast) = Some t"
    using assms(1) by (auto simp: analyze_update_def split: option.splits)
  note tables = find_named_catalog [OF t assms(2)]
  have as: "analyze_assignments t [] (upa_assignments ast) = Inr (bu_assignments b)"
    and wh: "analyze_where (upa_predicate ast) [t] = Inr (bu_predicate b)" and id: "bu_table_id b = tm_table_id t"
    using assms(1) by (auto simp: analyze_update_def t result_simps)
  have b': "b' = b\<lparr>bu_predicate := fst (optimize_predicate (bu_predicate b) [])\<rparr>"
    using assms(4) by (auto simp: optimize_def split_def Let_def)
  obtain bindings predicate where bind: "build_slot_bindings catalog [tm_table_id t] = Inr bindings"
    and g: "generate_predicate (bu_predicate b') [hd bindings] = Inr predicate"
    using assms(5) by (auto simp: generate_update_plan_def result_simps b' id Let_def)
  obtain sb where sb: "bindings = [sb]" "sb_table sb = t" "bindings_ok [sb]" "make_validation_slot_row t (sb_columns sb) = Inr (scope_row [sb])"
    by (rule single_binding [OF bind tables(1) assms(2)])
  let ?plan = "map (\<lambda>a. \<lparr>ua_column_id = bua_column_id a, ua_value = bua_value a\<rparr>) (bu_assignments b)"
  note valid = analyze_assignments_valid [OF as tables(4)]
  have "collect_results (\<lambda>assignment. if length (tm_columns t) \<le> unat (bua_column_id assignment) then
           Inl (planner_error ''bound UPDATE assignment references an unmapped column'')
         else Inr \<lparr>ua_column_id = bua_column_id assignment, ua_value = bua_value assignment\<rparr>) (bu_assignments b) = Inr ?plan"
    by (rule collect_results_map_Inr) (use valid in \<open>auto simp: not_le\<close>)
  then have p: "p = \<lparr>up_table_id = tm_table_id t, up_input_columns = sb_columns sb, up_assignments = ?plan, up_predicate = predicate\<rparr>"
    using assms(5) bind g by (simp add: generate_update_plan_def b' id sb)
  have "where_valid predicate (scope_row [sb])"
    by (rule analyze_where_valid [of "upa_predicate ast" "[sb]" "bu_predicate b" "[]"])
      (use wh sb tables(5) assms(3) g in \<open>auto simp: b'\<close>)
  moreover have "check_assignments t [] ?plan = None"
    using valid by (auto simp: check_assignments_None comp_def distinct_map inj_on_def word_unat_eq_iff [symmetric])
  moreover have "?plan \<noteq> []" using valid assms(3) by auto
  ultimately show ?thesis using that tables(2,3) sb where_valid_executor by (simp add: p)
qed


subsection \<open>SELECT\<close>

text \<open>The joins on the left spine of a plan.\<close>

fun node_joins :: "PlanNode \<Rightarrow> nat" where
  "node_joins (JoinNode _ _ (Some left) _) = Suc (node_joins left)"
| "node_joins (FilterNode _ (Some child)) = node_joins child"
| "node_joins (SortNode _ (Some child)) = node_joins child"
| "node_joins (AggregateNode _ _ (Some child)) = node_joins child"
| "node_joins (ProjectNode _ (Some child)) = node_joins child"
| "node_joins _ = 0"

fun plan_joins :: "Plan \<Rightarrow> nat" where
  "plan_joins (PlanQuery plan) = (case qp_root plan of None \<Rightarrow> 0 | Some root \<Rightarrow> node_joins root)"
| "plan_joins _ = 0"

lemma node_joins_tree: "node_joins (join_tree statement bindings conditions) = length (bs_joins statement)"
proof -
  have "node_joins (fold (join_step bindings conditions) js t) = node_joins t + length js" for js t
    by (induction js arbitrary: t) (auto simp: join_step_def split: prod.split)
  from this [of "enumerate 0 (bs_joins statement)"] show ?thesis by (simp add: join_tree_def join_step_def)
qed

lemma node_joins_plan_child: "node_joins (plan_child tree predicate keys calls sort_keys) = node_joins tree"
  by (cases predicate) (simp_all add: plan_child_def Let_def)

lemma optimized_select:
  "optimize (StatementSelect b) = StatementSelect b' \<Longrightarrow> length (bs_joins b') = length (bs_joins b)"
  by (auto simp: optimize_def split_def Let_def optimize_joins_nth(1))

lemma analyzed_joins_count:
  "analyze_select ast catalog = Inr (StatementSelect b) \<Longrightarrow> length (sa_joins ast) = length (bs_joins b)"
  by (erule analyze_select_parts) (use analyze_joins_scope(1) in metis)

lemma analyzed_select_accepted:
  assumes "analyze_select ast catalog = Inr (StatementSelect b)" "catalog_valid catalog" "statement_wf (StSelect ast)"
    and "optimize (StatementSelect b) = StatementSelect b'" "generate_select_plan b' catalog = Inr (PlanQuery p)"
    and "plan_joins (PlanQuery p) \<le> 251"
  shows "\<exists>query. validate_query_plan catalog p = Inr query"
proof -
  have "plan_joins (PlanQuery p) = length (bs_joins b')"
    by (rule generate_select_parts [OF assms(5)]) (simp add: node_joins_plan_child node_joins_tree)
  then have "length (sa_joins ast) \<le> 251"
    using assms(6) optimized_select [OF assms(4)] analyzed_joins_count [OF assms(1)] by simp
  then show ?thesis using analyzed_select_validates [OF assms(2,1,4,5)] assms(3) by simp
qed

subsection \<open>Compiled plans reach storage\<close>

lemma answers_call_storage [simp]:
  "pe_storage_called (fst (respond outcome state))" "pe_storage_called (fst (abort_statement closed error state))"
  "pe_storage_called (fst (scan_failed closed failure state))" "pe_storage_called (fst (insert_answered closed n answer state))"
  "pe_storage_called (fst (count_answered closed texts k counted state))"
  by (auto simp: respond_def abort_statement_def scan_failed_def insert_answered_def count_answered_def
      split: Answer.split option.split)

lemma compile_parts:
  assumes "compile from_chars sql catalog = Inr plan"
  obtains ast bound where "statement_wf ast" "analyze ast catalog = Inr bound" "generate_plan (optimize bound) catalog = Inr plan"
proof -
  obtain tokens ast bound where "tokenize from_chars sql = Inr tokens" "parse from_chars tokens = Inr ast"
    "analyze ast catalog = Inr bound" "generate_plan (optimize bound) catalog = Inr plan"
    using assms unfolding compile_def by (auto simp: bind_result_Inr_iff split: if_splits)
  then show ?thesis using that parsed_statement_wf by blast
qed

lemma catalog_ok_valid: "catalog_ok catalog n \<Longrightarrow> small_tables catalog \<Longrightarrow> catalog_valid catalog"
  by (auto simp: catalog_ok_def catalog_valid_def)

lemma created_table_reaches_storage:
  assumes "catalog_ok (im_catalog impl) (im_next_table_id impl)" "im_next_table_id impl \<le> 4294967295"
    and "\<And>tid. validate_table_metadata \<lparr>tm_table_id = tid, tm_table_name = name, tm_columns = columns\<rparr> = None"
    and "find_table_named (im_catalog impl) name = None"
  shows "pe_storage_called (fst (execute_create_table calls \<lparr>ct_table_name = name, ct_columns = columns\<rparr> (impl, slot)))"
proof -
  let ?id = "ucast (im_next_table_id impl) :: TableId"
  have "unat ?id = unat (im_next_table_id impl)"
    using assms(2) by (simp add: unsigned_ucast_eq take_bit_nat_eq_self word_le_nat_alt)
  then have "\<forall>t \<in> set (im_catalog impl). tm_table_id t \<noteq> ?id" using assms(1) by (auto simp: catalog_ok_def)
  then have "\<not> has_duplicate_table (im_catalog impl) \<lparr>tm_table_id = ?id, tm_table_name = name, tm_columns = columns\<rparr>"
    using assms(4) by (auto simp: has_duplicate_table_def list_ex_iff find_table_named_def find_None_iff)
  then show ?thesis using assms(2,3)
    by (auto simp: execute_create_table_def Let_def not_less split: Answer.split option.split)
qed


text \<open>The statement kinds keep apart through all stages.\<close>

lemma analyze_kinds:
  "analyze (StCreateTable c) catalog = Inr bound \<Longrightarrow> \<exists>b. bound = StatementCreateTable b"
  "analyze (StInsert i) catalog = Inr bound \<Longrightarrow> \<exists>b. bound = StatementInsert b"
  "analyze (StSelect s) catalog = Inr bound \<Longrightarrow> \<exists>b. bound = StatementSelect b"
  "analyze (StDelete d) catalog = Inr bound \<Longrightarrow> \<exists>b. bound = StatementDelete b"
  "analyze (StUpdate u) catalog = Inr bound \<Longrightarrow> \<exists>b. bound = StatementUpdate b"
  by (auto simp: analyze_create_def analyze_insert_def analyze_select_def analyze_delete_def analyze_update_def
      bind_result_Inr_iff Let_def split: option.splits if_splits)

lemma optimize_kinds:
  "optimize (StatementCreateTable c) = StatementCreateTable c" "optimize (StatementInsert i) = StatementInsert i"
  "\<exists>b'. optimize (StatementSelect b) = StatementSelect b'" "\<exists>d'. optimize (StatementDelete d) = StatementDelete d'"
  "\<exists>u'. optimize (StatementUpdate u) = StatementUpdate u'"
  by (simp_all add: optimize_def split_def Let_def)

lemma generated_kinds:
  "generate_select_plan s catalog = Inr plan \<Longrightarrow> \<exists>p. plan = PlanQuery p"
  "generate_delete_plan d catalog = Inr plan \<Longrightarrow> \<exists>p. plan = PlanDelete p"
  "generate_update_plan u catalog = Inr plan \<Longrightarrow> \<exists>p. plan = PlanUpdate p"
  by (auto simp: generate_select_plan_def generate_delete_plan_def generate_update_plan_def bind_result_Inr_iff Let_def)

lemma accepted_plan_reaches_storage:
  assumes "statement_wf ast" "analyze ast (im_catalog impl) = Inr bound" "generate_plan (optimize bound) (im_catalog impl) = Inr plan"
    and "catalog_ok (im_catalog impl) (im_next_table_id impl)" "small_tables (im_catalog impl)" "im_open impl"
    and "im_next_table_id impl \<le> 4294967295" "plan_joins plan \<le> 251"
  shows "pe_storage_called (fst (execute_plan_impl calls max_query_rows plan (impl, slot)))"
proof -
  note valid = catalog_ok_valid [OF assms(4,5)]
  show ?thesis
  proof (cases ast)
    case (StCreateTable c)
    then obtain b where b: "bound = StatementCreateTable b" using analyze_kinds(1) assms(2) by blast
    have a: "analyze_create c (im_catalog impl) = Inr (StatementCreateTable b)" using assms(2) by (simp add: StCreateTable b)
    have "plan = PlanCreateTable \<lparr>ct_table_name = bct_table_name b, ct_columns = bct_columns b\<rparr>"
      using assms(3) by (simp add: b optimize_kinds generate_plan_def generate_create_table_plan_def)
    then show ?thesis
      using created_table_reaches_storage [OF assms(4,7), of "bct_table_name b" "bct_columns b"]
        analyzed_create_accepted [OF a] assms(1,6) StCreateTable by (simp add: execute_plan_impl_def)
  next
    case (StInsert i)
    then obtain b where b: "bound = StatementInsert b" using analyze_kinds(2) assms(2) by blast
    have a: "analyze_insert i (im_catalog impl) = Inr (StatementInsert b)" using assms(2) by (simp add: StInsert b)
    have p: "plan = PlanInsert \<lparr>ip_table_id = bi_table_id b, ip_columns = bi_columns b, ip_rows = bi_rows b\<rparr>"
      using assms(3) by (simp add: b optimize_kinds generate_plan_def generate_insert_plan_def)
    have "statement_wf (StInsert i)" using assms(1) StInsert by simp
    from analyzed_insert_accepted [OF a valid this]
    obtain t rows where "find_catalog_table (im_catalog impl) (bi_table_id b) = Some t" "validate_table_metadata t = None"
      "insert_rows t \<lparr>ip_table_id = bi_table_id b, ip_columns = bi_columns b, ip_rows = bi_rows b\<rparr> = Inr rows" by blast
    then show ?thesis using assms(6) by (simp add: p execute_plan_impl_def execute_insert_def)
  next
    case (StSelect s)
    then obtain b where b: "bound = StatementSelect b" using analyze_kinds(3) assms(2) by blast
    have a: "analyze_select s (im_catalog impl) = Inr (StatementSelect b)" using assms(2) by (simp add: StSelect b)
    obtain b' where b': "optimize (StatementSelect b) = StatementSelect b'" using optimize_kinds(3) by blast
    then have g: "generate_select_plan b' (im_catalog impl) = Inr plan" using assms(3) by (simp add: b generate_plan_def)
    then obtain p where p: "plan = PlanQuery p" using generated_kinds(1) by blast
    obtain q where q: "validate_query_plan (im_catalog impl) p = Inr q"
      using analyzed_select_accepted [OF a valid _ b' g [unfolded p]] assms(1,8) StSelect p by auto
    show ?thesis using q assms(6)
      by (cases "execute_query (query_env calls max_query_rows (im_catalog impl)) p")
        (simp_all add: execute_plan_impl_def run_query_def p Let_def)
  next
    case (StDelete d)
    then obtain b where b: "bound = StatementDelete b" using analyze_kinds(4) assms(2) by blast
    have a: "analyze_delete d (im_catalog impl) = Inr (StatementDelete b)" using assms(2) by (simp add: StDelete b)
    obtain b' where b': "optimize (StatementDelete b) = StatementDelete b'" using optimize_kinds(4) by blast
    then have g: "generate_delete_plan b' (im_catalog impl) = Inr plan" using assms(3) by (simp add: b generate_plan_def)
    then obtain p where p: "plan = PlanDelete p" using generated_kinds(2) by blast
    have "statement_wf (StDelete d)" using assms(1) StDelete by simp
    from analyzed_delete_accepted [OF a valid this b' g [unfolded p]]
    obtain t row where "find_catalog_table (im_catalog impl) (dp_table_id p) = Some t" "validate_table_metadata t = None"
      "make_validation_slot_row t (dp_input_columns p) = Inr row" "validate_where (dp_predicate p) row = None" by blast
    then show ?thesis using assms(6)
      by (auto simp: p execute_plan_impl_def execute_delete_def delete_answered_def split: sum.split)
  next
    case (StUpdate u)
    then obtain b where b: "bound = StatementUpdate b" using analyze_kinds(5) assms(2) by blast
    have a: "analyze_update u (im_catalog impl) = Inr (StatementUpdate b)" using assms(2) by (simp add: StUpdate b)
    obtain b' where b': "optimize (StatementUpdate b) = StatementUpdate b'" using optimize_kinds(5) by blast
    then have g: "generate_update_plan b' (im_catalog impl) = Inr plan" using assms(3) by (simp add: b generate_plan_def)
    then obtain p where p: "plan = PlanUpdate p" using generated_kinds(3) by blast
    have "statement_wf (StUpdate u)" using assms(1) StUpdate by simp
    from analyzed_update_accepted [OF a valid this b' g [unfolded p]]
    obtain t row where "find_catalog_table (im_catalog impl) (up_table_id p) = Some t" "validate_table_metadata t = None"
      "up_assignments p \<noteq> []" "make_validation_slot_row t (up_input_columns p) = Inr row"
      "check_assignments t [] (up_assignments p) = None" "validate_where (up_predicate p) row = None" by blast
    then show ?thesis using assms(6)
      by (auto simp: p execute_plan_impl_def execute_update_def update_answered_def split: sum.split)
  qed
qed


definition demo_tokens :: "Token list" where
  "demo_tokens = (case tokenize (\<lambda>_. None) ''UPDATE t SET a=7 WHERE TRUE;'' of Inr ts \<Rightarrow> ts | Inl _ \<Rightarrow> [])"

lemma demo_tokens: "tokenize (\<lambda>_. None) ''UPDATE t SET a=7 WHERE TRUE;'' = Inr demo_tokens"
  by code_simp

definition demo_ast :: StatementAst where
  "demo_ast = projr (parse (\<lambda>_. None) demo_tokens)"

lemma demo_ast: "parse (\<lambda>_. None) demo_tokens = Inr demo_ast"
  unfolding demo_ast_def demo_tokens_def by code_simp

definition demo_compile_impl :: Impl where
  "demo_compile_impl = initial_impl\<lparr>im_open := True, im_next_table_id := 2, im_catalog :=
     [\<lparr>tm_table_id = 1, tm_table_name = ''t'', tm_columns = [\<lparr>cm_name = ''a'', cm_type = kInt, cm_nullable = False\<rparr>]\<rparr>]\<rparr>"

definition demo_compiled_plan :: Plan where
  "demo_compiled_plan = PlanUpdate \<lparr>up_table_id = 1, up_input_columns = [\<lparr>sc_column_id = 0, sc_output_slot = 0\<rparr>],
     up_assignments = [\<lparr>ua_column_id = 0, ua_value = VInt 7\<rparr>], up_predicate = None\<rparr>"

lemma demo_ast_eq: "demo_ast = StUpdate \<lparr>upa_table_name = ''t'', upa_table_source = upa_table_source (case demo_ast of StUpdate u \<Rightarrow> u),
    upa_assignments = [\<lparr>aua_column_name = ''a'', aua_column_source = aua_column_source (hd (upa_assignments (case demo_ast of StUpdate u \<Rightarrow> u))),
      aua_literal = \<lparr>al_value = VInt 7, al_source = al_source (aua_literal (hd (upa_assignments (case demo_ast of StUpdate u \<Rightarrow> u))))\<rparr>\<rparr>],
    upa_predicate = Some (AstLiteralExpr (VBool True) (expression_source (the (upa_predicate (case demo_ast of StUpdate u \<Rightarrow> u)))))\<rparr>"
  unfolding demo_ast_def demo_tokens_def by code_simp

lemma demo_compiles: "compile (\<lambda>_. None) ''UPDATE t SET a=7 WHERE TRUE;'' (im_catalog demo_compile_impl) = Inr demo_compiled_plan"
  unfolding compile_def demo_tokens bind_result_simps demo_ast
  by (subst demo_ast_eq) (simp add: kMaxSqlBytes_def analyze_update_def find_table_named_def demo_compile_impl_def find_column_def
      coerce_assignment_def analyze_where_def analyze_predicate_def optimize_def generate_plan_def generate_update_plan_def
      build_slot_bindings_def find_table_def optimize_predicate_def apply_redundant_true_predicate_rule_def constant_truth_value_def 
      generate_predicate_def Let_def demo_compiled_plan_def)


end
