(* ===== verification/Record_Codec.thy ===== *)
theory Record_Codec
  imports Utf8
begin

text \<open>
  \<open>src/storage/record_codec.cpp\<close>: the two row formats. \<open>measure\<close> checks a row against its schema
  and computes its logical and encoded sizes, \<open>encode\<close> writes the null bitmap (format V2) and the
  cells, \<open>decode\<close> reads them back. The lemmas characterise both directions by the same layout, so
  that encoding and decoding are inverse to each other in both directions.
\<close>

subsection \<open>Data\<close>

datatype RowFormat = kV1 | kV2

datatype RecordCodecErrorKind = CodecInvalidArgument | CodecValueTooLarge | CodecCorrupt

datatype RecordCodecError = RecordCodecError (codec_kind: RecordCodecErrorKind) (codec_message: string)

type_synonym 'a RecordCodecResult = "(RecordCodecError, 'a) result"

definition kMaxRecordPayloadBytes :: nat where "kMaxRecordPayloadBytes = 4056"

record MeasuredSize =
  ms_logical :: nat
  ms_encoded :: nat

definition codec_failure :: "RecordCodecErrorKind \<Rightarrow> string \<Rightarrow> 'a RecordCodecResult" where
  "codec_failure k m = Inl (RecordCodecError k m)"

subsection \<open>Widths, bounded sums, bitmap size\<close>

fun fixed_width :: "Type \<Rightarrow> nat" where
  "fixed_width kInt = 4"
| "fixed_width kBigInt = 8"
| "fixed_width kDouble = 8"
| "fixed_width kBoolean = 1"
| "fixed_width kVarchar = 0"

definition append_little_endian :: "byte list \<Rightarrow> nat \<Rightarrow> 'a::len word \<Rightarrow> byte list" where
  "append_little_endian output n value = output @ le_bytes n value"

definition read_little_endian :: "byte list \<Rightarrow> nat \<Rightarrow> nat \<Rightarrow> ('a::len word \<times> nat) option" where
  "read_little_endian payload offset n =
     (if length payload < offset \<or> length payload - offset < n then None
      else Some (le_value (take n (drop offset payload)), offset + n))"

definition add_with_limit :: "nat \<Rightarrow> nat \<Rightarrow> nat \<Rightarrow> nat" where
  "add_with_limit current amount limit =
     (if limit < current \<or> limit - current < amount then limit + 1 else current + amount)"

definition null_bitmap_size :: "nat \<Rightarrow> nat" where
  "null_bitmap_size column_count = column_count div 8 + (if column_count mod 8 = 0 then 0 else 1)"

definition type_supported :: "RowFormat \<Rightarrow> Type \<Rightarrow> bool" where
  "type_supported format type \<longleftrightarrow>
     (if type = kInt \<or> type = kVarchar then True
      else format = kV2 \<and> (type = kBigInt \<or> type = kDouble \<or> type = kBoolean))"

definition unsupported_schema_message :: "RowFormat \<Rightarrow> string" where
  "unsupported_schema_message format =
     (if format = kV1 then ''record codec only supports SQL v1 schemas''
      else ''record codec does not support this SQL v2 schema yet'')"

subsection \<open>Measuring\<close>

fun measure_loop ::
  "RowFormat \<Rightarrow> (ColumnMeta \<times> Value) list \<Rightarrow> MeasuredSize \<Rightarrow> MeasuredSize RecordCodecResult" where
  "measure_loop format [] sz = Inr sz"
| "measure_loop format ((column, value) # rest) sz =
     (let type = cm_type column in
      if (format = kV1 \<and> cm_nullable column) \<or> \<not> type_supported format type then
        codec_failure CodecInvalidArgument (unsupported_schema_message format)
      else if is_null_value value then
        (if \<not> cm_nullable column then
           codec_failure CodecInvalidArgument ''NULL value for non-nullable column''
         else measure_loop format rest sz)
      else if runtime_type value \<noteq> Some type then
        codec_failure CodecInvalidArgument ''record Value type does not match schema''
      else case value of
        VDouble d \<Rightarrow>
          (if \<not> isfinite d then codec_failure CodecInvalidArgument ''DOUBLE value must be finite''
           else measure_loop format rest
             (sz\<lparr>ms_logical := add_with_limit (ms_logical sz) (fixed_width type) kMaxRowLogicalBytes,
                   ms_encoded := add_with_limit (ms_encoded sz) (fixed_width type) kMaxRecordPayloadBytes\<rparr>))
      | VText text \<Rightarrow>
          (if \<not> is_valid_utf8 text then
             codec_failure CodecInvalidArgument ''VARCHAR is not valid UTF-8''
           else if kMaxVarcharBytes < length text then
             codec_failure CodecValueTooLarge ''VARCHAR exceeds its byte limit''
           else measure_loop format rest
             (sz\<lparr>ms_logical := add_with_limit (ms_logical sz) (length text) kMaxRowLogicalBytes,
                   ms_encoded := add_with_limit (ms_encoded sz) (4 + length text) kMaxRecordPayloadBytes\<rparr>))
      | _ \<Rightarrow>
          measure_loop format rest
             (sz\<lparr>ms_logical := add_with_limit (ms_logical sz) (fixed_width type) kMaxRowLogicalBytes,
                   ms_encoded := add_with_limit (ms_encoded sz) (fixed_width type) kMaxRecordPayloadBytes\<rparr>))"

definition measure_row :: "RowFormat \<Rightarrow> TableMeta \<Rightarrow> Value list \<Rightarrow> MeasuredSize RecordCodecResult" where
  "measure_row format table values =
     (if length values \<noteq> length (tm_columns table) then
        codec_failure CodecInvalidArgument ''record column count does not match schema''
      else bind_result
        (measure_loop format (zip (tm_columns table) values)
           \<lparr>ms_logical = 0,
            ms_encoded = (if format = kV2 then null_bitmap_size (length (tm_columns table)) else 0)\<rparr>)
        (\<lambda>sz.
           if kMaxRowLogicalBytes < ms_logical sz then
             codec_failure CodecValueTooLarge ''logical row exceeds its byte limit''
           else if kMaxRecordPayloadBytes < ms_encoded sz then
             codec_failure CodecValueTooLarge ''encoded record exceeds one-page payload limit''
           else Inr sz))"

definition encoded_size :: "RowFormat \<Rightarrow> TableMeta \<Rightarrow> Value list \<Rightarrow> nat RecordCodecResult" where
  "encoded_size format table values =
     bind_result (measure_row format table values) (\<lambda>sz. Inr (ms_encoded sz))"

subsection \<open>Encoding\<close>

definition null_bit_mask :: "nat \<Rightarrow> byte" where
  "null_bit_mask index = push_bit (index mod 8) 1"

text \<open>
  The cell loop. The source switches on the column type; \<open>measure_row\<close> has established before it that
  every value that is not NULL holds the alternative of its column type, so the switch is written
  on the value.
\<close>

fun encode_loop :: "nat \<Rightarrow> Value list \<Rightarrow> byte list \<Rightarrow> byte list" where
  "encode_loop index [] output = output"
| "encode_loop index (value # rest) output =
     encode_loop (Suc index) rest
       (case value of
          VNull \<Rightarrow> output[index div 8 := output ! (index div 8) OR null_bit_mask index]
        | VInt i \<Rightarrow> append_little_endian output 4 i
        | VBigInt i \<Rightarrow> append_little_endian output 8 i
        | VDouble d \<Rightarrow> append_little_endian output 8 d
        | VBool b \<Rightarrow> output @ [if b then 1 else 0]
        | VText text \<Rightarrow>
            append_little_endian output 4 (word_of_nat (length text) :: u32) @ map byte_of_char text)"

definition encode :: "RowFormat \<Rightarrow> TableMeta \<Rightarrow> Value list \<Rightarrow> byte list RecordCodecResult" where
  "encode format table values =
     bind_result (measure_row format table values)
       (\<lambda>_. Inr (encode_loop 0 values
          (if format = kV2 then replicate (null_bitmap_size (length (tm_columns table))) 0 else [])))"

subsection \<open>Decoding\<close>

definition null_bit_set :: "byte list \<Rightarrow> nat \<Rightarrow> bool" where
  "null_bit_set payload index \<longleftrightarrow> payload ! (index div 8) AND null_bit_mask index \<noteq> 0"

definition check_null_bitmap :: "ColumnMeta list \<Rightarrow> byte list \<Rightarrow> nat RecordCodecResult" where
  "check_null_bitmap columns payload =
     (let bitmap_size = null_bitmap_size (length columns) in
      if length payload < bitmap_size then codec_failure CodecCorrupt ''short null bitmap''
      else if list_ex (\<lambda>index. null_bit_set payload index \<and> \<not> cm_nullable (columns ! index))
                [0..<length columns] then
        codec_failure CodecCorrupt ''NULL bit is set for a non-nullable column''
      else if columns \<noteq> [] \<and> length columns mod 8 \<noteq> 0
        \<and> payload ! (bitmap_size - 1) AND NOT (push_bit (length columns mod 8) 1 - 1) \<noteq> 0 then
        codec_failure CodecCorrupt ''unused null bitmap bits are not zero''
      else Inr bitmap_size)"

text \<open>One cell: the value, the offset behind it and the logical size it adds.\<close>

fun decode_cell :: "Type \<Rightarrow> byte list \<Rightarrow> nat \<Rightarrow> (Value \<times> nat \<times> nat) RecordCodecResult" where
  "decode_cell kInt payload offset =
     (case read_little_endian payload offset 4 of
        None \<Rightarrow> codec_failure CodecCorrupt ''short INT32 payload''
      | Some (bits, offset') \<Rightarrow> Inr (VInt bits, offset', 4))"
| "decode_cell kBigInt payload offset =
     (case read_little_endian payload offset 8 of
        None \<Rightarrow> codec_failure CodecCorrupt ''short INT64 payload''
      | Some (bits, offset') \<Rightarrow> Inr (VBigInt bits, offset', 8))"
| "decode_cell kDouble payload offset =
     (case read_little_endian payload offset 8 of
        None \<Rightarrow> codec_failure CodecCorrupt ''short DOUBLE payload''
      | Some (bits, offset') \<Rightarrow>
          if \<not> isfinite bits then codec_failure CodecCorrupt ''non-finite DOUBLE payload''
          else Inr (VDouble bits, offset', 8))"
| "decode_cell kBoolean payload offset =
     (if length payload \<le> offset then codec_failure CodecCorrupt ''short BOOLEAN payload''
      else if 1 < payload ! offset then codec_failure CodecCorrupt ''invalid BOOLEAN payload''
      else Inr (VBool (payload ! offset = 1), offset + 1, 1))"
| "decode_cell kVarchar payload offset =
     (case (read_little_endian payload offset 4 :: (u32 \<times> nat) option) of
        None \<Rightarrow> codec_failure CodecCorrupt ''short VARCHAR length prefix''
      | Some (byte_count, offset') \<Rightarrow>
          let n = unat byte_count; text = map char_of_byte (take n (drop offset' payload)) in
          if kMaxVarcharBytes < n \<or> length payload - offset' < n then
            codec_failure CodecCorrupt ''invalid VARCHAR byte length''
          else if \<not> is_valid_utf8 text then
            codec_failure CodecCorrupt ''VARCHAR payload is not valid UTF-8''
          else Inr (VText text, offset' + n, n))"

fun decode_loop ::
  "RowFormat \<Rightarrow> byte list \<Rightarrow> nat \<Rightarrow> ColumnMeta list \<Rightarrow> nat \<Rightarrow> nat \<Rightarrow> Value list RecordCodecResult" where
  "decode_loop format payload index [] offset logical_size =
     (if offset \<noteq> length payload then codec_failure CodecCorrupt ''record payload has trailing bytes''
      else Inr [])"
| "decode_loop format payload index (column # rest) offset logical_size =
     (if format = kV2 \<and> null_bit_set payload index then
        bind_result (decode_loop format payload (Suc index) rest offset logical_size)
          (\<lambda>values. Inr (VNull # values))
      else
        bind_result (decode_cell (cm_type column) payload offset)
          (\<lambda>(value, offset', n).
             if kMaxRowLogicalBytes < logical_size + n then
               codec_failure CodecCorrupt ''decoded logical row exceeds its byte limit''
             else
               bind_result (decode_loop format payload (Suc index) rest offset' (logical_size + n))
                 (\<lambda>values. Inr (value # values))))"

definition decode :: "RowFormat \<Rightarrow> TableMeta \<Rightarrow> byte list \<Rightarrow> Value list RecordCodecResult" where
  "decode format table payload =
     (if list_ex (\<lambda>column. (format = kV1 \<and> cm_nullable column) \<or> \<not> type_supported format (cm_type column))
           (tm_columns table) then
        codec_failure CodecInvalidArgument (unsupported_schema_message format)
      else if kMaxRecordPayloadBytes < length payload then
        codec_failure CodecCorrupt ''encoded record exceeds one-page payload limit''
      else
        bind_result (if format = kV2 then check_null_bitmap (tm_columns table) payload else Inr 0)
          (\<lambda>offset. decode_loop format payload 0 (tm_columns table) offset 0))"

subsection \<open>The layout both directions agree on\<close>

fun cell_bytes :: "Value \<Rightarrow> byte list" where
  "cell_bytes VNull = []"
| "cell_bytes (VInt i) = le_bytes 4 i"
| "cell_bytes (VBigInt i) = le_bytes 8 i"
| "cell_bytes (VDouble d) = le_bytes 8 d"
| "cell_bytes (VBool b) = [if b then 1 else 0]"
| "cell_bytes (VText s) = le_bytes 4 (word_of_nat (length s) :: u32) @ map byte_of_char s"

fun cell_logical :: "Value \<Rightarrow> nat" where
  "cell_logical VNull = 0"
| "cell_logical (VInt _) = 4"
| "cell_logical (VBigInt _) = 8"
| "cell_logical (VDouble _) = 8"
| "cell_logical (VBool _) = 1"
| "cell_logical (VText s) = length s"

definition schema_ok :: "RowFormat \<Rightarrow> ColumnMeta \<Rightarrow> bool" where
  "schema_ok format column \<longleftrightarrow>
     \<not> (format = kV1 \<and> cm_nullable column) \<and> type_supported format (cm_type column)"

fun cell_ok :: "ColumnMeta \<Rightarrow> Value \<Rightarrow> bool" where
  "cell_ok column VNull = cm_nullable column"
| "cell_ok column (VDouble d) = (cm_type column = kDouble \<and> isfinite d)"
| "cell_ok column (VText s) =
     (cm_type column = kVarchar \<and> is_valid_utf8 s \<and> length s \<le> kMaxVarcharBytes)"
| "cell_ok column v = (runtime_type v = Some (cm_type column))"

definition row_ok :: "RowFormat \<Rightarrow> ColumnMeta list \<Rightarrow> Value list \<Rightarrow> bool" where
  "row_ok format columns values \<longleftrightarrow>
     list_all (schema_ok format) columns \<and> list_all2 cell_ok columns values
     \<and> sum_list (map cell_logical values) \<le> kMaxRowLogicalBytes"

definition row_bytes :: "Value list \<Rightarrow> byte list" where
  "row_bytes values = concat (map cell_bytes values)"

fun mark_nulls :: "nat \<Rightarrow> Value list \<Rightarrow> byte list \<Rightarrow> byte list" where
  "mark_nulls index [] bitmap = bitmap"
| "mark_nulls index (v # vs) bitmap =
     mark_nulls (Suc index) vs
       (if v = VNull then bitmap[index div 8 := bitmap ! (index div 8) OR null_bit_mask index] else bitmap)"

definition row_bitmap :: "RowFormat \<Rightarrow> Value list \<Rightarrow> byte list" where
  "row_bitmap format values =
     (if format = kV2 then mark_nulls 0 values (replicate (null_bitmap_size (length values)) 0) else [])"

subsection \<open>Measuring and encoding\<close>

lemma add_with_limit_le [simp]:
  "add_with_limit c a l \<le> l \<longleftrightarrow> c + a \<le> l"
  by (auto simp: add_with_limit_def)

lemma add_with_limit_eq: "c + a \<le> l \<Longrightarrow> add_with_limit c a l = c + a"
  by (auto simp: add_with_limit_def)

lemma measure_loop_Cons:
  "measure_loop fmt ((c, v) # rest) sz = Inr sz' \<longleftrightarrow>
     schema_ok fmt c \<and> cell_ok c v \<and>
     measure_loop fmt rest
       (if v = VNull then sz else
        \<lparr>ms_logical = add_with_limit (ms_logical sz) (cell_logical v) kMaxRowLogicalBytes,
         ms_encoded = add_with_limit (ms_encoded sz) (length (cell_bytes v)) kMaxRecordPayloadBytes\<rparr>) = Inr sz'"
  by (cases v; cases sz) (auto simp: codec_failure_def schema_ok_def Let_def eq_commute)

lemma measure_loop_bounds:
  "measure_loop fmt ps sz = Inr sz' \<Longrightarrow>
     (ms_logical sz' \<le> kMaxRowLogicalBytes \<longrightarrow> ms_logical sz \<le> kMaxRowLogicalBytes) \<and>
     (ms_encoded sz' \<le> kMaxRecordPayloadBytes \<longrightarrow> ms_encoded sz \<le> kMaxRecordPayloadBytes)"
proof (induction ps arbitrary: sz)
  case (Cons p ps)
  obtain c v where "p = (c, v)" by (cases p)
  with Cons.prems Cons.IH show ?case
    by (fastforce simp: measure_loop_Cons simp del: measure_loop.simps split: if_splits)
qed simp

lemma measure_loop_iff:
  assumes "length cs = length vs"
  shows "(measure_loop fmt (zip cs vs) sz = Inr sz' \<and> ms_logical sz' \<le> kMaxRowLogicalBytes
            \<and> ms_encoded sz' \<le> kMaxRecordPayloadBytes) \<longleftrightarrow>
     list_all (schema_ok fmt) cs \<and> list_all2 cell_ok cs vs
     \<and> ms_logical sz + sum_list (map cell_logical vs) \<le> kMaxRowLogicalBytes
     \<and> ms_encoded sz + length (row_bytes vs) \<le> kMaxRecordPayloadBytes
     \<and> sz' = \<lparr>ms_logical = ms_logical sz + sum_list (map cell_logical vs),
              ms_encoded = ms_encoded sz + length (row_bytes vs)\<rparr>"
  using assms
proof (induction cs vs arbitrary: sz rule: list_induct2)
  case Nil
  show ?case by (cases sz; cases sz') (auto simp: row_bytes_def)
next
  case (Cons c cs v vs)
  show ?case
  proof (cases "v = VNull")
    case True
    then show ?thesis
      using Cons.IH [of sz] by (auto simp: measure_loop_Cons row_bytes_def simp del: measure_loop.simps)
  next
    case False
    let ?sz = "\<lparr>ms_logical = add_with_limit (ms_logical sz) (cell_logical v) kMaxRowLogicalBytes,
         ms_encoded = add_with_limit (ms_encoded sz) (length (cell_bytes v)) kMaxRecordPayloadBytes\<rparr>"
    have step: "measure_loop fmt (zip (c # cs) (v # vs)) sz = Inr sz' \<longleftrightarrow>
        schema_ok fmt c \<and> cell_ok c v \<and> measure_loop fmt (zip cs vs) ?sz = Inr sz'"
      using False by (simp add: measure_loop_Cons del: measure_loop.simps)
    show ?thesis
    proof (cases "ms_logical sz + cell_logical v \<le> kMaxRowLogicalBytes
        \<and> ms_encoded sz + length (cell_bytes v) \<le> kMaxRecordPayloadBytes")
      case True
      then have sz: "?sz = \<lparr>ms_logical = ms_logical sz + cell_logical v,
          ms_encoded = ms_encoded sz + length (cell_bytes v)\<rparr>"
        by (simp add: add_with_limit_eq)
      show ?thesis
        using Cons.IH [of ?sz] unfolding step sz by (auto simp: row_bytes_def add.assoc)
    next
      case over: False
      then have "\<not> (ms_logical ?sz \<le> kMaxRowLogicalBytes \<and> ms_encoded ?sz \<le> kMaxRecordPayloadBytes)"
        by simp
      then show ?thesis
        using over measure_loop_bounds [of fmt "zip cs vs" ?sz sz'] unfolding step
        by (auto simp: row_bytes_def)
    qed
  qed
qed

lemma length_mark_nulls [simp]: "length (mark_nulls i vs bm) = length bm"
  by (induction vs arbitrary: i bm) auto

lemma length_row_bitmap:
  "length (row_bitmap fmt vs) = (if fmt = kV2 then null_bitmap_size (length vs) else 0)"
  by (simp add: row_bitmap_def)

lemma measure_row_Inr_iff:
  "measure_row fmt t vs = Inr sz \<longleftrightarrow>
     row_ok fmt (tm_columns t) vs
     \<and> length (row_bitmap fmt vs) + length (row_bytes vs) \<le> kMaxRecordPayloadBytes
     \<and> sz = \<lparr>ms_logical = sum_list (map cell_logical vs),
             ms_encoded = length (row_bitmap fmt vs) + length (row_bytes vs)\<rparr>"
proof (cases "length (tm_columns t) = length vs")
  case True
  let ?sz = "\<lparr>ms_logical = 0, ms_encoded = length (row_bitmap fmt vs)\<rparr>"
  have "measure_row fmt t vs = Inr sz \<longleftrightarrow> measure_loop fmt (zip (tm_columns t) vs) ?sz = Inr sz
      \<and> ms_logical sz \<le> kMaxRowLogicalBytes \<and> ms_encoded sz \<le> kMaxRecordPayloadBytes"
    using True by (cases "measure_loop fmt (zip (tm_columns t) vs) ?sz")
      (auto simp: measure_row_def codec_failure_def length_row_bitmap not_less cong: if_cong)
  with measure_loop_iff [OF True, of fmt ?sz sz] show ?thesis
    by (auto simp: row_ok_def)
next
  case False
  then show ?thesis
    by (auto simp: measure_row_def codec_failure_def row_ok_def dest: list_all2_lengthD)
qed

subsubsection \<open>The null bitmap\<close>

lemma null_bitmap_size_ge: "n \<le> null_bitmap_size n * 8"
  by (simp add: null_bitmap_size_def) (auto simp: modulo_nat_def intro: order.trans)

lemma null_bitmap_index: "k < n \<Longrightarrow> k div 8 < null_bitmap_size n"
  using null_bitmap_size_ge [of n] by (simp add: less_mult_imp_div_less)

lemma bit_null_bit_mask: "bit (null_bit_mask k) i \<longleftrightarrow> i = k mod 8"
  by (auto simp: null_bit_mask_def bit_simps)

lemma null_bit_set_iff: "null_bit_set payload k \<longleftrightarrow> bit (payload ! (k div 8)) (k mod 8)"
proof -
  have "payload ! (k div 8) AND null_bit_mask k \<noteq> 0 \<longleftrightarrow>
      (\<exists>i. bit (payload ! (k div 8) AND null_bit_mask k) i)"
    by (metis bit_eq_iff bit_0_eq bot_apply bot_bool_def)
  then show ?thesis
    by (simp add: null_bit_set_def bit_and_iff bit_null_bit_mask)
qed

lemma bit_mark_nulls:
  assumes "j < length bm" and "i < 8"
  shows "bit (mark_nulls k vs bm ! j) i \<longleftrightarrow>
    bit (bm ! j) i \<or> (k \<le> j * 8 + i \<and> j * 8 + i < k + length vs \<and> vs ! (j * 8 + i - k) = VNull)"
  using assms(1)
proof (induction vs arbitrary: k bm)
  case (Cons v vs)
  let ?bm = "if v = VNull then bm[k div 8 := bm ! (k div 8) OR null_bit_mask k] else bm"
  let ?n = "j * 8 + i"
  have eq: "j = k div 8 \<and> i = k mod 8 \<longleftrightarrow> k = ?n" using assms(2) by auto
  have bm: "bit (?bm ! j) i \<longleftrightarrow> bit (bm ! j) i \<or> (v = VNull \<and> k = ?n)"
    using Cons.prems eq by (cases "j = k div 8") (auto simp: bit_or_iff bit_null_bit_mask)
  have idx: "(v # vs) ! (?n - k) = (if k = ?n then v else vs ! (?n - Suc k))" if "k \<le> ?n"
    using that by (auto simp: nth_Cons')
  have "bit (mark_nulls k (v # vs) bm ! j) i \<longleftrightarrow> bit (bm ! j) i \<or> (v = VNull \<and> k = ?n) \<or>
      (Suc k \<le> ?n \<and> ?n < Suc k + length vs \<and> vs ! (?n - Suc k) = VNull)"
    using Cons.IH [of ?bm "Suc k"] Cons.prems bm by auto
  then show ?case using idx by (auto simp: Suc_le_eq split: if_splits)
qed auto

lemma mark_nulls_Nil [simp]: "mark_nulls k vs [] = []"
  using length_mark_nulls [of k vs "[]"] by (simp del: length_mark_nulls)

lemma encode_loop_layout:
  assumes "\<forall>j < length vs. vs ! j = VNull \<longrightarrow> (k + j) div 8 < length bm"
  shows "encode_loop k vs (bm @ body) = mark_nulls k vs bm @ body @ row_bytes vs"
  using assms
proof (induction vs arbitrary: k bm body)
  case Nil
  then show ?case by (simp add: row_bytes_def)
next
  case (Cons v vs)
  have rest: "\<forall>j < length vs. vs ! j = VNull \<longrightarrow> (Suc k + j) div 8 < length bm"
    using Cons.prems by fastforce
  have "v = VNull \<Longrightarrow> k div 8 < length bm" using Cons.prems by force
  then show ?case
    using Cons.IH [of "Suc k"] rest
    by (cases v) (simp_all add: append_little_endian_def row_bytes_def list_update_append nth_append)
qed

lemma encode_Inr_iff:
  "encode fmt t vs = Inr bs \<longleftrightarrow>
     row_ok fmt (tm_columns t) vs \<and> bs = row_bitmap fmt vs @ row_bytes vs
     \<and> length bs \<le> kMaxRecordPayloadBytes"
proof (cases "row_ok fmt (tm_columns t) vs")
  case True
  then have len: "length (tm_columns t) = length vs" and cells: "list_all2 cell_ok (tm_columns t) vs"
    and schema: "list_all (schema_ok fmt) (tm_columns t)"
    by (auto simp: row_ok_def dest: list_all2_lengthD)
  let ?bm = "if fmt = kV2 then replicate (null_bitmap_size (length vs)) 0 else []"
  have "\<forall>j < length vs. vs ! j = VNull \<longrightarrow> (0 + j) div 8 < length ?bm"
  proof (cases "fmt = kV2")
    case True
    then show ?thesis by (simp add: null_bitmap_index)
  next
    case False
    then have "fmt = kV1" by (cases fmt) simp_all
    with schema have "\<forall>j < length vs. \<not> cm_nullable (tm_columns t ! j)"
      by (auto simp: list_all_length schema_ok_def len)
    with cells have "\<forall>j < length vs. vs ! j \<noteq> VNull"
      by (auto simp: list_all2_conv_all_nth)
    then show ?thesis by auto
  qed
  from encode_loop_layout [OF this, of "[]"]
  have "encode_loop 0 vs ?bm = row_bitmap fmt vs @ row_bytes vs"
    by (auto simp: row_bitmap_def split: if_splits)
  with True len show ?thesis
    by (auto simp: encode_def result_simps measure_row_Inr_iff)
next
  case False
  then show ?thesis by (auto simp: encode_def result_simps measure_row_Inr_iff)
qed

subsubsection \<open>Reading\<close>

lemma read_little_endian_iff:
  assumes "offset \<le> length payload" and "n * 8 = LENGTH('a)"
  shows "read_little_endian payload offset n = Some (w :: 'a::len word, offset') \<longleftrightarrow>
    offset' = offset + n \<and> offset' \<le> length payload \<and> take n (drop offset payload) = le_bytes n w"
proof -
  have "take n (drop offset payload) = le_bytes n w \<longleftrightarrow> le_value (take n (drop offset payload)) = w"
    if "offset + n \<le> length payload"
    using that assms le_bytes_le_value [of "take n (drop offset payload)" n, where 'a = 'a]
      le_value_le_bytes [of n w]
    by auto
  then show ?thesis using assms by (auto simp: read_little_endian_def)
qed

lemma decode_cell_iff:
  assumes "offset \<le> length payload"
  shows "decode_cell (cm_type c) payload offset = Inr (v, offset', n) \<longleftrightarrow>
    v \<noteq> VNull \<and> cell_ok c v \<and> n = cell_logical v \<and> offset' = offset + length (cell_bytes v)
    \<and> offset' \<le> length payload \<and> take (length (cell_bytes v)) (drop offset payload) = cell_bytes v"
proof (cases "cm_type c")
  case kInt
  have "decode_cell kInt payload offset = Inr (v, offset', n) \<longleftrightarrow>
      (\<exists>w. read_little_endian payload offset 4 = Some (w :: u32, offset') \<and> v = VInt w \<and> n = 4)"
    by (auto simp: codec_failure_def split: option.splits)
  then show ?thesis
    by (cases v) (auto simp: kInt read_little_endian_iff [OF assms])
next
  case kBigInt
  have "decode_cell kBigInt payload offset = Inr (v, offset', n) \<longleftrightarrow>
      (\<exists>w. read_little_endian payload offset 8 = Some (w :: u64, offset') \<and> v = VBigInt w \<and> n = 8)"
    by (auto simp: codec_failure_def split: option.splits)
  then show ?thesis
    by (cases v) (auto simp: kBigInt read_little_endian_iff [OF assms])
next
  case kDouble
  have "decode_cell kDouble payload offset = Inr (v, offset', n) \<longleftrightarrow>
      (\<exists>w. read_little_endian payload offset 8 = Some (w :: u64, offset') \<and> isfinite w
         \<and> v = VDouble w \<and> n = 8)"
    by (auto simp: codec_failure_def split: option.splits)
  then show ?thesis
    by (cases v) (auto simp: kDouble read_little_endian_iff [OF assms])
next
  case kBoolean
  have one: "\<not> 1 < (b :: byte) \<longleftrightarrow> b = 0 \<or> b = 1" for b
    by (metis le_less not_less word_less_1 zero_neq_one)
  have "decode_cell kBoolean payload offset = Inr (v, offset', n) \<longleftrightarrow>
      (\<exists>b. offset < length payload \<and> payload ! offset = (if b then 1 else 0)
        \<and> v = VBool b \<and> offset' = offset + 1 \<and> n = 1)"
    using one [of "payload ! offset"] by (auto simp: codec_failure_def)
  then show ?thesis
    by (cases v) (auto simp: kBoolean take_Suc hd_drop_conv_nth)
next
  case kVarchar
  have "decode_cell kVarchar payload offset = Inr (v, offset', n) \<longleftrightarrow>
      (\<exists>w offset1. read_little_endian payload offset 4 = Some (w :: u32, offset1)
         \<and> unat w \<le> kMaxVarcharBytes \<and> offset1 + unat w \<le> length payload
         \<and> v = VText (map char_of_byte (take (unat w) (drop offset1 payload)))
         \<and> is_valid_utf8 (map char_of_byte (take (unat w) (drop offset1 payload)))
         \<and> offset' = offset1 + unat w \<and> n = unat w)"
    by (auto simp: codec_failure_def Let_def read_little_endian_def not_less split: option.splits)
  then have dec: "decode_cell (cm_type c) payload offset = Inr (v, offset', n) \<longleftrightarrow>
      (\<exists>w. offset + 4 + unat w \<le> length payload \<and> take 4 (drop offset payload) = le_bytes 4 (w :: u32)
         \<and> unat w \<le> kMaxVarcharBytes
         \<and> v = VText (map char_of_byte (take (unat w) (drop (offset + 4) payload)))
         \<and> is_valid_utf8 (map char_of_byte (take (unat w) (drop (offset + 4) payload)))
         \<and> offset' = offset + 4 + unat w \<and> n = unat w)"
    by (auto simp: kVarchar read_little_endian_iff [OF assms])
  show ?thesis
  proof
    assume "decode_cell (cm_type c) payload offset = Inr (v, offset', n)"
    with dec show "v \<noteq> VNull \<and> cell_ok c v \<and> n = cell_logical v \<and> offset' = offset + length (cell_bytes v)
      \<and> offset' \<le> length payload \<and> take (length (cell_bytes v)) (drop offset payload) = cell_bytes v"
      by (auto simp: kVarchar comp_def take_add_drop)
  next
    assume R: "v \<noteq> VNull \<and> cell_ok c v \<and> n = cell_logical v \<and> offset' = offset + length (cell_bytes v)
      \<and> offset' \<le> length payload \<and> take (length (cell_bytes v)) (drop offset payload) = cell_bytes v"
    then obtain s where v: "v = VText s" by (cases v) (auto simp: kVarchar)
    let ?w = "word_of_nat (length s) :: u32"
    have w: "unat ?w = length s"
      using R v by (simp add: unat_of_nat take_bit_nat_eq_self kMaxVarcharBytes_def)
    have "take 4 (drop offset payload) @ take (length s) (drop (offset + 4) payload)
        = le_bytes 4 ?w @ map byte_of_char s"
      using R v by (simp add: take_add_drop)
    moreover have "length (take 4 (drop offset payload)) = length (le_bytes 4 ?w)"
      using R v by (auto simp: min_def)
    ultimately have "take 4 (drop offset payload) = le_bytes 4 ?w
        \<and> take (length s) (drop (offset + 4) payload) = map byte_of_char s"
      by (blast dest: append_eq_append_conv [THEN iffD1, rotated])
    with R v w show "decode_cell (cm_type c) payload offset = Inr (v, offset', n)"
      unfolding dec by (intro exI [where x = ?w]) (simp add: comp_def add.assoc)
  qed
qed

lemma decode_loop_iff:
  assumes "offset \<le> length payload" and "logical \<le> kMaxRowLogicalBytes"
    and "list_all (schema_ok fmt) cs"
  shows "decode_loop fmt payload k cs offset logical = Inr vs \<and>
      (\<forall>j < length cs. fmt = kV2 \<and> null_bit_set payload (k + j) \<longrightarrow> cm_nullable (cs ! j)) \<longleftrightarrow>
    list_all2 cell_ok cs vs
    \<and> (fmt = kV2 \<longrightarrow> (\<forall>j < length cs. null_bit_set payload (k + j) \<longleftrightarrow> vs ! j = VNull))
    \<and> drop offset payload = row_bytes vs
    \<and> logical + sum_list (map cell_logical vs) \<le> kMaxRowLogicalBytes"
  using assms
proof (induction cs arbitrary: k offset logical vs)
  case Nil
  then show ?case by (auto simp: codec_failure_def row_bytes_def)
next
  case (Cons c cs)
  have sc: "schema_ok fmt c" "list_all (schema_ok fmt) cs" using Cons.prems by simp_all
  show ?case
  proof (cases vs)
    case Nil
    then show ?thesis
      by (auto simp: result_simps codec_failure_def split: if_splits)
  next
    case vs: (Cons v vs')
    show ?thesis
    proof (cases "fmt = kV2 \<and> null_bit_set payload k")
      case True
      then show ?thesis
        using Cons.IH [of offset logical "Suc k" vs'] Cons.prems sc
        by (auto simp: vs result_simps All_less_Suc2 row_bytes_def)
    next
      case False
      have notnull: "v \<noteq> VNull" if "cell_ok c v" "fmt = kV2 \<longrightarrow> (null_bit_set payload k \<longleftrightarrow> v = VNull)"
        using that False sc(1) by (cases fmt) (auto simp: schema_ok_def)
      have "decode_loop fmt payload k (c # cs) offset logical = Inr (v # vs') \<longleftrightarrow>
          v \<noteq> VNull \<and> cell_ok c v \<and> offset + length (cell_bytes v) \<le> length payload
          \<and> take (length (cell_bytes v)) (drop offset payload) = cell_bytes v
          \<and> logical + cell_logical v \<le> kMaxRowLogicalBytes
          \<and> decode_loop fmt payload (Suc k) cs (offset + length (cell_bytes v))
               (logical + cell_logical v) = Inr vs'"
        using False
        by (auto simp: result_simps decode_cell_iff [OF Cons.prems(1)] codec_failure_def not_less
            split: if_splits)
      then show ?thesis
        using Cons.IH [of "offset + length (cell_bytes v)" "logical + cell_logical v" "Suc k" vs']
          False sc notnull
        by (auto simp: vs All_less_Suc2 row_bytes_def drop_eq_append_iff [OF Cons.prems(1)] add.assoc)
    qed
  qed
qed

lemma bit_not_low_mask:
  "(x :: byte) AND NOT (2 ^ m - 1) = 0 \<longleftrightarrow> (\<forall>i < 8. m \<le> i \<longrightarrow> \<not> bit x i)"
proof -
  have "(2 ^ m - 1 :: byte) = mask m" by (simp add: mask_eq_exp_minus_1)
  moreover have "x AND NOT (mask m) = 0 \<longleftrightarrow> (\<forall>i < 8. \<not> bit (x AND NOT (mask m)) i)"
    by (auto intro: bit_word_eqI)
  ultimately show ?thesis by (auto simp: bit_and_iff bit_not_iff bit_mask_iff)
qed

lemma row_bitmap_bits:
  "bs = row_bitmap kV2 vs \<longleftrightarrow> length bs = null_bitmap_size (length vs) \<and>
    (\<forall>j < null_bitmap_size (length vs). \<forall>i < 8.
       bit (bs ! j) i \<longleftrightarrow> j * 8 + i < length vs \<and> vs ! (j * 8 + i) = VNull)" (is "_ \<longleftrightarrow> ?R")
proof -
  have bits: "bit (row_bitmap kV2 vs ! j) i \<longleftrightarrow> j * 8 + i < length vs \<and> vs ! (j * 8 + i) = VNull"
    if "j < null_bitmap_size (length vs)" "i < 8" for i j
    using that by (auto simp: row_bitmap_def bit_mark_nulls)
  have "bs = row_bitmap kV2 vs" if R: ?R
  proof (rule nth_equalityI)
    show "length bs = length (row_bitmap kV2 vs)" using R by (simp add: length_row_bitmap)
    fix j assume "j < length bs"
    then show "bs ! j = row_bitmap kV2 vs ! j"
      using R bits by (intro bit_word_eqI) (simp add: length_row_bitmap)
  qed
  then show ?thesis using bits by (auto simp: length_row_bitmap)
qed

lemma null_bitmap_size_tail:
  "n mod 8 \<noteq> 0 \<Longrightarrow> null_bitmap_size n = Suc (n div 8)" "n mod 8 = 0 \<Longrightarrow> null_bitmap_size n = n div 8"
  by (simp_all add: null_bitmap_size_def)

lemma row_bitmap_checks:
  assumes "null_bitmap_size n \<le> length payload" and n: "length vs = n"
  shows "take (null_bitmap_size n) payload = row_bitmap kV2 vs \<longleftrightarrow>
    (\<forall>k < n. null_bit_set payload k \<longleftrightarrow> vs ! k = VNull)
    \<and> (n mod 8 \<noteq> 0 \<longrightarrow> (\<forall>i < 8. n mod 8 \<le> i \<longrightarrow> \<not> bit (payload ! (n div 8)) i))"
    (is "?L \<longleftrightarrow> ?R")
proof -
  have L: "?L \<longleftrightarrow> (\<forall>j < null_bitmap_size n. \<forall>i < 8.
      bit (payload ! j) i \<longleftrightarrow> j * 8 + i < n \<and> vs ! (j * 8 + i) = VNull)"
    using assms by (simp add: row_bitmap_bits)
  show ?thesis
  proof
    assume ?L
    then have bits: "bit (payload ! j) i \<longleftrightarrow> j * 8 + i < n \<and> vs ! (j * 8 + i) = VNull"
      if "j < null_bitmap_size n" "i < 8" for i j using that L by blast
    have "null_bit_set payload k \<longleftrightarrow> vs ! k = VNull" if "k < n" for k
      using bits [OF null_bitmap_index [OF that], of "k mod 8"] that by (simp add: null_bit_set_iff)
    moreover have "\<not> bit (payload ! (n div 8)) i" if "n mod 8 \<noteq> 0" "i < 8" "n mod 8 \<le> i" for i
    proof -
      have "n \<le> n div 8 * 8 + i" using div_mult_mod_eq [of n 8] that by linarith
      then show ?thesis using bits [of "n div 8" i] that by (simp add: null_bitmap_size_tail)
    qed
    ultimately show ?R by blast
  next
    assume R: ?R
    have "bit (payload ! j) i \<longleftrightarrow> j * 8 + i < n \<and> vs ! (j * 8 + i) = VNull"
      if j: "j < null_bitmap_size n" and i: "i < 8" for i j
    proof (cases "j * 8 + i < n")
      case True
      with R have "null_bit_set payload (j * 8 + i) \<longleftrightarrow> vs ! (j * 8 + i) = VNull" by blast
      with True i show ?thesis by (simp add: null_bit_set_iff)
    next
      case False
      then have m: "n mod 8 \<noteq> 0" and jd: "j = n div 8"
        using j i by (auto simp: null_bitmap_size_def split: if_splits)
      moreover have "n mod 8 \<le> i" using False jd div_mult_mod_eq [of n 8] by linarith
      ultimately show ?thesis using R i False by auto
    qed
    with L show ?L by blast
  qed
qed

lemma check_null_bitmap_Inr_iff:
  "check_null_bitmap cs payload = Inr offset \<longleftrightarrow>
     offset = null_bitmap_size (length cs) \<and> offset \<le> length payload
     \<and> (\<forall>k < length cs. null_bit_set payload k \<longrightarrow> cm_nullable (cs ! k))
     \<and> (length cs mod 8 \<noteq> 0 \<longrightarrow>
          (\<forall>i < 8. length cs mod 8 \<le> i \<longrightarrow> \<not> bit (payload ! (length cs div 8)) i))"
proof -
  have "length cs mod 8 \<noteq> 0 \<Longrightarrow> cs \<noteq> [] \<and> null_bitmap_size (length cs) - 1 = length cs div 8"
    by (auto simp: null_bitmap_size_tail)
  then show ?thesis
    by (auto simp: check_null_bitmap_def codec_failure_def Let_def list_ex_iff bit_not_low_mask not_less
        split: if_splits)
qed

lemma decode_Inr_iff:
  "decode fmt t bs = Inr vs \<longleftrightarrow>
     row_ok fmt (tm_columns t) vs \<and> bs = row_bitmap fmt vs @ row_bytes vs
     \<and> length bs \<le> kMaxRecordPayloadBytes"
proof -
  let ?cs = "tm_columns t" and ?off = "length (row_bitmap fmt vs)"
  have schema: "list_ex (\<lambda>column. (fmt = kV1 \<and> cm_nullable column) \<or> \<not> type_supported fmt (cm_type column)) ?cs
      \<longleftrightarrow> \<not> list_all (schema_ok fmt) ?cs"
    by (auto simp: list_ex_iff list_all_iff schema_ok_def)
  have limit: "0 \<le> kMaxRowLogicalBytes" by simp
  show ?thesis
  proof (cases "list_all (schema_ok fmt) ?cs \<and> length bs \<le> kMaxRecordPayloadBytes")
    case False
    then show ?thesis
      by (auto simp: decode_def schema codec_failure_def row_ok_def)
  next
    case True
    then have ok: "list_all (schema_ok fmt) ?cs" "length bs \<le> kMaxRecordPayloadBytes" by simp_all
    have dec: "decode fmt t bs = bind_result (if fmt = kV2 then check_null_bitmap ?cs bs else Inr 0)
        (\<lambda>offset. decode_loop fmt bs 0 ?cs offset 0)"
      using True unfolding decode_def schema by simp
    show ?thesis
    proof (cases fmt)
      case kV1
      then show ?thesis
        using ok decode_loop_iff [of 0 bs 0 fmt ?cs 0 vs]
        unfolding dec by (auto simp: row_ok_def row_bitmap_def)
    next
      case kV2
      let ?nb = "null_bitmap_size (length ?cs)"
      have "decode fmt t bs = Inr vs \<longleftrightarrow>
          check_null_bitmap ?cs bs = Inr ?nb \<and> decode_loop fmt bs 0 ?cs ?nb 0 = Inr vs"
        unfolding dec using kV2 by (auto simp: result_simps check_null_bitmap_Inr_iff)
      also have "\<dots> \<longleftrightarrow> ?nb \<le> length bs \<and> length ?cs = length vs
          \<and> take ?nb bs = row_bitmap fmt vs \<and> drop ?nb bs = row_bytes vs \<and> list_all2 cell_ok ?cs vs
          \<and> sum_list (map cell_logical vs) \<le> kMaxRowLogicalBytes"
      proof (cases "?nb \<le> length bs \<and> length ?cs = length vs")
        case True
        let ?N = "\<forall>k < length ?cs. null_bit_set bs k \<longrightarrow> cm_nullable (?cs ! k)"
        let ?B = "\<forall>k < length ?cs. null_bit_set bs k \<longleftrightarrow> vs ! k = VNull"
        let ?U = "length ?cs mod 8 \<noteq> 0 \<longrightarrow>
          (\<forall>i < 8. length ?cs mod 8 \<le> i \<longrightarrow> \<not> bit (bs ! (length ?cs div 8)) i)"
        have "check_null_bitmap ?cs bs = Inr ?nb \<longleftrightarrow> ?N \<and> ?U"
          using True unfolding check_null_bitmap_Inr_iff by blast
        moreover have "take ?nb bs = row_bitmap fmt vs \<longleftrightarrow> ?B \<and> ?U"
          unfolding kV2 using True by (intro row_bitmap_checks) auto
        moreover have "decode_loop fmt bs 0 ?cs ?nb 0 = Inr vs \<and> ?N \<longleftrightarrow> list_all2 cell_ok ?cs vs \<and> ?B
            \<and> drop ?nb bs = row_bytes vs \<and> sum_list (map cell_logical vs) \<le> kMaxRowLogicalBytes"
          using decode_loop_iff [OF conjunct1 [OF True] limit ok(1), of 0 vs] by (simp add: kV2)
        ultimately show ?thesis using True by argo
      next
        case False
        have "length ?cs = length vs" if "decode_loop fmt bs 0 ?cs ?nb 0 = Inr vs"
          "check_null_bitmap ?cs bs = Inr ?nb"
          using that decode_loop_iff [of ?nb bs 0 fmt ?cs 0 vs] ok
          by (auto simp: check_null_bitmap_Inr_iff dest: list_all2_lengthD)
        with False show ?thesis by (auto simp: check_null_bitmap_Inr_iff)
      qed
      also have "\<dots> \<longleftrightarrow> row_ok fmt ?cs vs \<and> bs = row_bitmap fmt vs @ row_bytes vs"
      proof -
        have "bs = row_bitmap fmt vs @ row_bytes vs \<longleftrightarrow> take m bs = row_bitmap fmt vs
            \<and> m \<le> length bs \<and> drop m bs = row_bytes vs"
          if "m = length (row_bitmap fmt vs)" for m
          using drop_eq_append_iff [of 0 bs "row_bitmap fmt vs" "row_bytes vs"] that by simp
        then show ?thesis
          using ok kV2 by (auto simp: row_ok_def length_row_bitmap dest: list_all2_lengthD)
      qed
      finally show ?thesis using ok by simp
    qed
  qed
qed

subsection \<open>Error kinds\<close>

lemma decode_cell_Inl: "decode_cell type payload offset = Inl e \<Longrightarrow> codec_kind e = CodecCorrupt"
  by (cases type) (auto simp: codec_failure_def Let_def split: option.splits if_splits)

lemma decode_loop_Inl:
  "decode_loop fmt payload k cs offset logical = Inl e \<Longrightarrow> codec_kind e = CodecCorrupt"
proof (induction cs arbitrary: k offset logical)
  case Nil
  then show ?case by (auto simp: codec_failure_def split: if_splits)
next
  case (Cons c cs)
  from Cons.prems Cons.IH show ?case
    by (auto simp: result_simps codec_failure_def split: if_splits dest: decode_cell_Inl)
qed

lemma check_null_bitmap_Inl: "check_null_bitmap cs payload = Inl e \<Longrightarrow> codec_kind e = CodecCorrupt"
  by (auto simp: check_null_bitmap_def codec_failure_def Let_def split: if_splits)

subsection \<open>Properties\<close>

text \<open>
  C14: encoding and decoding are inverse in both directions, for both row formats and every schema.
  A row that is accepted for storage is read back unchanged, and a payload that is accepted on
  reading is, byte for byte, the encoding of the row it was read as (the format has no second
  representation of any row).
\<close>

theorem codec_roundtrip:
  "encode format table values = Inr payload \<longleftrightarrow> decode format table payload = Inr values"
  by (simp add: encode_Inr_iff decode_Inr_iff)

text \<open>
  The size announced before encoding is the size of the encoding, and a payload never exceeds
  the one-page limit.
\<close>

lemma encoded_size_exact:
  assumes "encode format table values = Inr payload"
  shows "encoded_size format table values = Inr (length payload)
    \<and> length payload \<le> kMaxRecordPayloadBytes"
  using assms by (auto simp: encode_Inr_iff encoded_size_def result_simps measure_row_Inr_iff)

text \<open>
  On a schema the format supports, decoding never reports the caller at fault: whatever the
  bytes are, the answer is the decoded row or the error kind \<open>kCorrupt\<close>.
\<close>

lemma decode_fails_corrupt:
  assumes "list_all (schema_ok format) (tm_columns table)"
    and "decode format table payload = Inl e"
  shows "codec_kind e = CodecCorrupt"
proof -
  have "\<not> list_ex (\<lambda>column. (format = kV1 \<and> cm_nullable column) \<or> \<not> type_supported format (cm_type column))
      (tm_columns table)"
    using assms(1) by (auto simp: list_ex_iff list_all_iff schema_ok_def)
  with assms(2) show ?thesis
    by (auto simp: decode_def result_simps codec_failure_def split: if_splits
        dest: decode_loop_Inl check_null_bitmap_Inl)
qed

end
