(* ===== verification/Slotted_Page.thy ===== *)
theory Slotted_Page
  imports Record_Codec
begin

text \<open>
  \<open>src/storage/slotted_page.cpp\<close>: variable-length records in one page. A page is a 32-byte header, a
  slot directory growing up from it and the payloads packed against the end of the page. The
  operations are translated at byte level; a page is the map from offsets to bytes, of which the
  code uses \<open>0 ..< kPageSize\<close>.
\<close>

subsection \<open>Pages, slots, errors\<close>

type_synonym RawPage = "nat \<Rightarrow> byte"
type_synonym PageId = u32

definition kPageSize :: nat where "kPageSize = 4096"
definition kSlottedPageHeaderSize :: nat where "kSlottedPageHeaderSize = 32"
definition kSlotEntrySize :: nat where "kSlotEntrySize = 8"
definition kMaxSlotsPerPage :: nat where
  "kMaxSlotsPerPage = (kPageSize - kSlottedPageHeaderSize) div kSlotEntrySize"

definition kSlotOccupied :: u16 where "kSlotOccupied = 1"
definition kSlotRetired :: u16 where "kSlotRetired = 2"
definition kKnownSlotFlags :: u16 where "kKnownSlotFlags = kSlotOccupied OR kSlotRetired"

definition kMagic :: string where "kMagic = ''TSP1''"
definition kFormatVersion :: u16 where "kFormatVersion = 1"
definition kVersionOffset :: nat where "kVersionOffset = 4"
definition kHeaderSizeOffset :: nat where "kHeaderSizeOffset = 6"
definition kPageIdOffset :: nat where "kPageIdOffset = 8"
definition kSlotCountOffset :: nat where "kSlotCountOffset = 12"
definition kLiveCountOffset :: nat where "kLiveCountOffset = 14"
definition kFreeLowerOffset :: nat where "kFreeLowerOffset = 16"
definition kFreeUpperOffset :: nat where "kFreeUpperOffset = 18"
definition kReservedOffset :: nat where "kReservedOffset = 20"

lemmas page_constants =
  kPageSize_def kSlottedPageHeaderSize_def kSlotEntrySize_def kMaxSlotsPerPage_def
  kSlotOccupied_def kSlotRetired_def kKnownSlotFlags_def kMagic_def kFormatVersion_def
  kVersionOffset_def kHeaderSizeOffset_def kPageIdOffset_def kSlotCountOffset_def
  kLiveCountOffset_def kFreeLowerOffset_def kFreeUpperOffset_def kReservedOffset_def

datatype SlottedPageErrorKind = PageInvalidArgument | PageNoSpace | PageCorrupt

datatype SlottedPageError = SlottedPageError (page_error_kind: SlottedPageErrorKind) (page_error_message: string)

record SlotHandle =
  sh_slot_id :: u16
  sh_generation :: u16

record SlotEntry =
  se_record_offset :: u16
  se_record_length :: u16
  se_generation :: u16
  se_flags :: u16

record Range =
  rg_begin :: u16
  rg_end :: u16

subsection \<open>Field access\<close>

definition get_u16 :: "RawPage \<Rightarrow> nat \<Rightarrow> u16" where
  "get_u16 page offset = ucast (page offset) OR push_bit 8 (ucast (page (offset + 1)))"

definition get_u32 :: "RawPage \<Rightarrow> nat \<Rightarrow> u32" where
  "get_u32 page offset =
     fold (\<lambda>index value. value OR push_bit (index * 8) (ucast (page (offset + index)))) [0..<4] 0"

definition put_u16 :: "RawPage \<Rightarrow> nat \<Rightarrow> u16 \<Rightarrow> RawPage" where
  "put_u16 page offset value =
     page(offset := ucast (value AND 0xff), offset + 1 := ucast (drop_bit 8 value AND 0xff))"

definition put_u32 :: "RawPage \<Rightarrow> nat \<Rightarrow> u32 \<Rightarrow> RawPage" where
  "put_u32 page offset value =
     fold (\<lambda>index page. page(offset + index := ucast (drop_bit (index * 8) value AND 0xff))) [0..<4] page"

definition slot_byte_offset :: "nat \<Rightarrow> nat" where
  "slot_byte_offset slot_id = kSlottedPageHeaderSize + slot_id * kSlotEntrySize"

definition read_slot :: "RawPage \<Rightarrow> nat \<Rightarrow> SlotEntry" where
  "read_slot page slot_id =
     (let offset = slot_byte_offset slot_id in
      \<lparr>se_record_offset = get_u16 page offset, se_record_length = get_u16 page (offset + 2),
       se_generation = get_u16 page (offset + 4), se_flags = get_u16 page (offset + 6)\<rparr>)"

definition write_slot :: "RawPage \<Rightarrow> nat \<Rightarrow> SlotEntry \<Rightarrow> RawPage" where
  "write_slot page slot_id slot =
     (let offset = slot_byte_offset slot_id in
      put_u16 (put_u16 (put_u16 (put_u16 page offset (se_record_offset slot))
        (offset + 2) (se_record_length slot)) (offset + 4) (se_generation slot))
        (offset + 6) (se_flags slot))"

definition has_magic :: "RawPage \<Rightarrow> bool" where
  "has_magic page \<longleftrightarrow> list_all (\<lambda>i. byte_of_char (kMagic ! i) = page i) [0..<length kMagic]"

text \<open>\<open>std::copy\<close> of a byte range into the page, and the range read out of it.\<close>

definition copy_bytes :: "RawPage \<Rightarrow> nat \<Rightarrow> byte list \<Rightarrow> RawPage" where
  "copy_bytes page offset bytes =
     (\<lambda>i. if offset \<le> i \<and> i < offset + length bytes then bytes ! (i - offset) else page i)"

definition page_bytes :: "RawPage \<Rightarrow> nat \<Rightarrow> nat \<Rightarrow> byte list" where
  "page_bytes page offset n = map page [offset..<offset + n]"

definition invalid_handle :: "SlotEntry \<Rightarrow> SlotHandle \<Rightarrow> SlottedPageError option" where
  "invalid_handle slot handle =
     (if sh_generation handle = 0 \<or> se_flags slot \<noteq> kSlotOccupied
         \<or> se_generation slot \<noteq> sh_generation handle then
        Some (SlottedPageError PageInvalidArgument
          ''slot handle is stale or does not identify a live record'')
      else None)"

subsection \<open>Initialising and validating\<close>

definition initialize :: "PageId \<Rightarrow> (SlottedPageError, RawPage) result" where
  "initialize page_id =
     (if page_id = 0 then
        Inl (SlottedPageError PageInvalidArgument ''PageId 0 cannot be a SlottedPage'')
      else
        let page = copy_bytes (\<lambda>_. 0) 0 (map byte_of_char kMagic);
            page = put_u16 page kVersionOffset kFormatVersion;
            page = put_u16 page kHeaderSizeOffset (word_of_nat kSlottedPageHeaderSize);
            page = put_u32 page kPageIdOffset page_id;
            page = put_u16 page kFreeLowerOffset (word_of_nat kSlottedPageHeaderSize);
            page = put_u16 page kFreeUpperOffset (word_of_nat kPageSize)
        in Inr page)"

text \<open>The loop over the slot directory: counts the live slots and collects their ranges.\<close>

fun validate_slots ::
  "u16 \<Rightarrow> u16 \<Rightarrow> SlotEntry list \<Rightarrow> nat \<Rightarrow> Range list \<Rightarrow> (SlottedPageError, nat \<times> Range list) result" where
  "validate_slots free_lower free_upper [] counted_live ranges = Inr (counted_live, ranges)"
| "validate_slots free_lower free_upper (slot # rest) counted_live ranges =
     (if se_flags slot AND NOT kKnownSlotFlags \<noteq> 0 \<or> se_flags slot = (kSlotOccupied OR kSlotRetired) then
        Inl (SlottedPageError PageCorrupt ''Slot Entry contains invalid flags'')
      else if se_flags slot = kSlotOccupied then
        (if se_generation slot = 0 \<or> se_record_offset slot = 0 \<or> se_record_length slot = 0
            \<or> se_record_offset slot < free_upper \<or> se_record_offset slot < free_lower
            \<or> kPageSize < unat (se_record_offset slot) + unat (se_record_length slot) then
           Inl (SlottedPageError PageCorrupt ''live Slot Entry contains an invalid payload range'')
         else validate_slots free_lower free_upper rest (Suc counted_live)
           (ranges @ [\<lparr>rg_begin = se_record_offset slot,
                       rg_end = se_record_offset slot + se_record_length slot\<rparr>]))
      else if se_flags slot = kSlotRetired then
        (if se_generation slot \<noteq> - 1 \<or> se_record_offset slot \<noteq> 0 \<or> se_record_length slot \<noteq> 0 then
           Inl (SlottedPageError PageCorrupt ''retired Slot Entry is invalid'')
         else validate_slots free_lower free_upper rest counted_live ranges)
      else if se_generation slot = 0 \<or> se_generation slot = - 1
          \<or> se_record_offset slot \<noteq> 0 \<or> se_record_length slot \<noteq> 0 then
        Inl (SlottedPageError PageCorrupt ''deleted Slot Entry is invalid'')
      else validate_slots free_lower free_upper rest counted_live ranges)"

text \<open>The sweep over the sorted ranges: each begins where the previous one ended.\<close>

fun check_ranges :: "nat \<Rightarrow> Range list \<Rightarrow> SlottedPageError option" where
  "check_ranges next [] =
     (if next \<noteq> kPageSize then Some (SlottedPageError PageCorrupt ''record payload area is not compact'')
      else None)"
| "check_ranges next (r # rest) =
     (if unat (rg_begin r) \<noteq> next \<or> rg_end r \<le> rg_begin r then
        Some (SlottedPageError PageCorrupt ''record payload ranges overlap or contain gaps'')
      else check_ranges (unat (rg_end r)) rest)"

definition validate :: "RawPage \<Rightarrow> PageId \<Rightarrow> SlottedPageError option" where
  "validate page page_id =
     (if page_id = 0 then
        Some (SlottedPageError PageInvalidArgument ''PageId 0 cannot identify a SlottedPage'')
      else if \<not> has_magic page \<or> get_u16 page kVersionOffset \<noteq> kFormatVersion
          \<or> unat (get_u16 page kHeaderSizeOffset) \<noteq> kSlottedPageHeaderSize
          \<or> get_u32 page kPageIdOffset \<noteq> page_id then
        Some (SlottedPageError PageCorrupt ''SlottedPage header identity is invalid'')
      else if \<not> list_all (\<lambda>i. page i = 0) [kReservedOffset..<kSlottedPageHeaderSize] then
        Some (SlottedPageError PageCorrupt ''SlottedPage reserved header bytes are not zero'')
      else
        let slot_count = get_u16 page kSlotCountOffset;
            live_count = get_u16 page kLiveCountOffset;
            free_lower = get_u16 page kFreeLowerOffset;
            free_upper = get_u16 page kFreeUpperOffset;
            expected_free_lower = kSlottedPageHeaderSize + unat slot_count * kSlotEntrySize in
        if kMaxSlotsPerPage < unat slot_count \<or> slot_count < live_count
            \<or> unat free_lower \<noteq> expected_free_lower \<or> unat free_lower < kSlottedPageHeaderSize
            \<or> free_upper < free_lower \<or> kPageSize < unat free_upper
            \<or> (live_count = 0 \<and> unat free_upper \<noteq> kPageSize) then
          Some (SlottedPageError PageCorrupt ''SlottedPage free-space counters are invalid'')
        else case validate_slots free_lower free_upper (map (read_slot page) [0..<unat slot_count]) 0 [] of
          Inl e \<Rightarrow> Some e
        | Inr (counted_live, ranges) \<Rightarrow>
            if counted_live \<noteq> unat live_count then
              Some (SlottedPageError PageCorrupt ''live_count does not match occupied slots'')
            else check_ranges (unat free_upper) (sort_key rg_begin ranges))"

subsection \<open>Scanning, reading\<close>

fun find_live_slot :: "RawPage \<Rightarrow> nat list \<Rightarrow> (SlotHandle \<times> nat) option" where
  "find_live_slot page [] = None"
| "find_live_slot page (i # rest) =
     (let slot = read_slot page i in
      if se_flags slot = kSlotOccupied then
        Some (\<lparr>sh_slot_id = word_of_nat i, sh_generation = se_generation slot\<rparr>, i + 1)
      else find_live_slot page rest)"

text \<open>The live slot at or behind \<open>start\<close>, and the position to continue from.\<close>

definition next_live_slot ::
  "RawPage \<Rightarrow> PageId \<Rightarrow> nat \<Rightarrow> (SlottedPageError, SlotHandle option \<times> nat) result" where
  "next_live_slot page page_id start =
     (case validate page page_id of
        Some error \<Rightarrow> Inl error
      | None \<Rightarrow>
          let count = unat (get_u16 page kSlotCountOffset) in
          if count < start then
            Inl (SlottedPageError PageInvalidArgument ''scan position exceeds slot directory'')
          else case find_live_slot page [start..<count] of
            Some (handle, next) \<Rightarrow> Inr (Some handle, next)
          | None \<Rightarrow> Inr (None, count))"

definition get :: "RawPage \<Rightarrow> PageId \<Rightarrow> SlotHandle \<Rightarrow> (SlottedPageError, byte list) result" where
  "get page page_id handle =
     (case validate page page_id of
        Some error \<Rightarrow> Inl error
      | None \<Rightarrow>
          if get_u16 page kSlotCountOffset \<le> sh_slot_id handle then
            Inl (SlottedPageError PageInvalidArgument ''SlotId is outside the Slot Directory'')
          else
            let slot = read_slot page (unat (sh_slot_id handle)) in
            case invalid_handle slot handle of
              Some error \<Rightarrow> Inl error
            | None \<Rightarrow> Inr (page_bytes page (unat (se_record_offset slot)) (unat (se_record_length slot))))"

subsection \<open>Inserting\<close>

text \<open>The first slot that is free and whose generation can still grow.\<close>

definition find_reusable :: "RawPage \<Rightarrow> nat \<Rightarrow> nat option" where
  "find_reusable page slot_count =
     find (\<lambda>index. se_flags (read_slot page index) = 0 \<and> se_generation (read_slot page index) < - 1)
       [0..<slot_count]"

text \<open>The copy of the page with the payload below the others and its slot entry written.\<close>

definition insert_slot_at :: "RawPage \<Rightarrow> bool \<Rightarrow> nat \<Rightarrow> u16 \<Rightarrow> byte list \<Rightarrow> RawPage" where
  "insert_slot_at page reuse target generation payload =
     (let free_lower = get_u16 page kFreeLowerOffset;
          free_upper = get_u16 page kFreeUpperOffset;
          updated = (if reuse then page
            else put_u16 (put_u16 page kSlotCountOffset (get_u16 page kSlotCountOffset + 1))
                   kFreeLowerOffset (free_lower + word_of_nat kSlotEntrySize));
          slot = \<lparr>se_record_offset = free_upper - word_of_nat (length payload),
                  se_record_length = word_of_nat (length payload),
                  se_generation = generation, se_flags = kSlotOccupied\<rparr>;
          updated = copy_bytes updated (unat (se_record_offset slot)) payload;
          updated = write_slot updated target slot;
          updated = put_u16 updated kLiveCountOffset (get_u16 page kLiveCountOffset + 1)
      in put_u16 updated kFreeUpperOffset (se_record_offset slot))"

definition insert_payload ::
  "RawPage \<Rightarrow> PageId \<Rightarrow> byte list \<Rightarrow> (SlottedPageError, RawPage \<times> SlotHandle) result" where
  "insert_payload page page_id payload =
     (if payload = [] \<or> kMaxRecordPayloadBytes < length payload then
        Inl (SlottedPageError PageInvalidArgument ''record payload size is invalid'')
      else case validate page page_id of
        Some error \<Rightarrow> Inl error
      | None \<Rightarrow>
          let slot_count = get_u16 page kSlotCountOffset;
              found = find_reusable page (unat slot_count);
              target = (case found of Some index \<Rightarrow> index | None \<Rightarrow> unat slot_count);
              free_lower = get_u16 page kFreeLowerOffset;
              free_upper = get_u16 page kFreeUpperOffset;
              required = length payload + (if found = None then kSlotEntrySize else 0) in
          if found = None \<and> kMaxSlotsPerPage \<le> unat slot_count then
            Inl (SlottedPageError PageNoSpace ''SlottedPage has no room for another Slot Entry'')
          else if unat free_upper - unat free_lower < required then
            Inl (SlottedPageError PageNoSpace ''SlottedPage has insufficient contiguous free space'')
          else
            let generation = (if found = None then 1 else se_generation (read_slot page target) + 1);
                updated = insert_slot_at page (found \<noteq> None) target generation payload in
            case validate updated page_id of
              Some error \<Rightarrow> Inl error
            | None \<Rightarrow> Inr (updated,
                \<lparr>sh_slot_id = word_of_nat target, sh_generation = generation\<rparr>))"

subsection \<open>Replacing and erasing\<close>

text \<open>
  Both rebuild the page from an initialised one. The loop places the payload of every live slot,
  in slot order, downwards from the end of the page; \<open>contents\<close> gives the payload of each slot.
\<close>

fun place_slots ::
  "(nat \<Rightarrow> SlotEntry \<Rightarrow> byte list) \<Rightarrow> nat \<Rightarrow> SlotEntry list \<Rightarrow> u16 \<Rightarrow> RawPage \<Rightarrow> RawPage \<times> u16" where
  "place_slots contents index [] cursor page = (page, cursor)"
| "place_slots contents index (slot # rest) cursor page =
     (if se_flags slot = kSlotOccupied then
        let bytes = contents index slot;
            cursor' = cursor - word_of_nat (length bytes);
            page' = copy_bytes page (unat cursor') bytes;
            slot' = slot\<lparr>se_record_offset := cursor', se_record_length := word_of_nat (length bytes)\<rparr>
        in place_slots contents (Suc index) rest cursor' (write_slot page' index slot')
      else place_slots contents (Suc index) rest cursor (write_slot page index slot))"

definition slot_payload :: "RawPage \<Rightarrow> SlotEntry \<Rightarrow> byte list" where
  "slot_payload page slot =
     page_bytes page (unat (se_record_offset slot)) (unat (se_record_length slot))"

definition replace ::
  "RawPage \<Rightarrow> PageId \<Rightarrow> SlotHandle \<Rightarrow> byte list \<Rightarrow> (SlottedPageError, RawPage) result" where
  "replace page page_id handle payload =
     (if payload = [] \<or> kMaxRecordPayloadBytes < length payload then
        Inl (SlottedPageError PageInvalidArgument ''record payload size is invalid'')
      else case validate page page_id of
        Some error \<Rightarrow> Inl error
      | None \<Rightarrow>
          let slot_count = get_u16 page kSlotCountOffset; target = unat (sh_slot_id handle) in
          if slot_count \<le> sh_slot_id handle then
            Inl (SlottedPageError PageInvalidArgument ''SlotId is outside the Slot Directory'')
          else
            let slots = map (read_slot page) [0..<unat slot_count];
                payload_bytes = length payload + (\<Sum>index\<leftarrow>[0..<unat slot_count].
                  if se_flags (slots ! index) = kSlotOccupied \<and> index \<noteq> target
                  then unat (se_record_length (slots ! index)) else 0);
                free_lower = kSlottedPageHeaderSize + unat slot_count * kSlotEntrySize in
            case invalid_handle (slots ! target) handle of
              Some error \<Rightarrow> Inl error
            | None \<Rightarrow>
                if kPageSize - free_lower < payload_bytes then
                  Inl (SlottedPageError PageNoSpace ''SlottedPage has insufficient space for replacement payload'')
                else bind_result (initialize page_id) (\<lambda>updated.
                  let updated = put_u16 updated kSlotCountOffset slot_count;
                      updated = put_u16 updated kLiveCountOffset (get_u16 page kLiveCountOffset);
                      updated = put_u16 updated kFreeLowerOffset (word_of_nat free_lower);
                      (updated, cursor) = place_slots
                        (\<lambda>index slot. if index = target then payload else slot_payload page slot)
                        0 slots (word_of_nat kPageSize) updated;
                      updated = put_u16 updated kFreeUpperOffset cursor in
                  case validate updated page_id of
                    Some error \<Rightarrow> Inl error
                  | None \<Rightarrow> Inr updated))"

definition erase :: "RawPage \<Rightarrow> PageId \<Rightarrow> SlotHandle \<Rightarrow> (SlottedPageError, RawPage) result" where
  "erase page page_id handle =
     (case validate page page_id of
        Some error \<Rightarrow> Inl error
      | None \<Rightarrow>
          let slot_count = get_u16 page kSlotCountOffset; target = unat (sh_slot_id handle) in
          if slot_count \<le> sh_slot_id handle then
            Inl (SlottedPageError PageInvalidArgument ''SlotId is outside the Slot Directory'')
          else
            let slots = map (read_slot page) [0..<unat slot_count] in
            case invalid_handle (slots ! target) handle of
              Some error \<Rightarrow> Inl error
            | None \<Rightarrow>
                let deleted = (slots ! target)\<lparr>se_record_offset := 0, se_record_length := 0,
                      se_flags := (if se_generation (slots ! target) = - 1 then kSlotRetired else 0)\<rparr>;
                    slots = slots[target := deleted] in
                bind_result (initialize page_id) (\<lambda>compacted.
                  let new_live_count = get_u16 page kLiveCountOffset - 1;
                      compacted = put_u16 compacted kSlotCountOffset slot_count;
                      compacted = put_u16 compacted kLiveCountOffset new_live_count;
                      compacted = put_u16 compacted kFreeLowerOffset
                        (word_of_nat (kSlottedPageHeaderSize + unat slot_count * kSlotEntrySize));
                      (compacted, cursor) = place_slots (\<lambda>_ slot. slot_payload page slot)
                        0 slots (word_of_nat kPageSize) compacted;
                      compacted = put_u16 compacted kFreeUpperOffset
                        (if new_live_count = 0 then word_of_nat kPageSize else cursor) in
                  case validate compacted page_id of
                    Some error \<Rightarrow> Inl error
                  | None \<Rightarrow> Inr compacted))"

subsection \<open>Reading back what was written\<close>

lemma get_u16_le_value: "get_u16 p k = le_value [p k, p (Suc k)]"
  by (simp add: get_u16_def le_value_def)

lemma get_u32_le_value: "get_u32 p k = le_value (map p [k..<k + 4])"
proof -
  have "fold (\<lambda>i v. v OR push_bit (i * 8) (ucast (map p [k..<k + 4] ! i))) [0..<4] (0 :: u32)
      = fold (\<lambda>i v. v OR push_bit (i * 8) (ucast (p (k + i)))) [0..<4] 0"
    by (rule fold_cong) auto
  then show ?thesis by (simp add: get_u32_def le_value_def)
qed

lemma put_u16_le_byte: "put_u16 p k v = p(k := le_byte 0 v, Suc k := le_byte 1 v)"
  by (simp add: put_u16_def le_byte_def)

lemma le_value_two: "le_value [le_byte 0 v, le_byte (Suc 0) v] = (v :: u16)"
proof -
  have "le_bytes 2 v = [le_byte 0 v, le_byte (Suc 0) v]" by (simp add: le_bytes_def numeral_2_eq_2)
  moreover have "le_value (le_bytes 2 v) = v" by (rule le_value_le_bytes) simp
  ultimately show ?thesis by (simp only:)
qed

lemma get_put_same [simp, layout_simps]: "get_u16 (put_u16 p k v) k = v"
  by (simp add: get_u16_le_value put_u16_le_byte le_value_two)

lemma get_u16_cong: "p k = q k \<Longrightarrow> p (Suc k) = q (Suc k) \<Longrightarrow> get_u16 p k = get_u16 q k"
  by (simp add: get_u16_le_value)

lemma put_u16_other [simp, layout_simps]: "i \<noteq> k \<Longrightarrow> i \<noteq> Suc k \<Longrightarrow> put_u16 p k v i = p i"
  by (simp add: put_u16_le_byte)

lemma get_put_other [simp, layout_simps]:
  "k + 1 < j \<or> j + 1 < k \<Longrightarrow> get_u16 (put_u16 p k v) j = get_u16 p j"
  by (rule get_u16_cong) auto

lemma put_u32_bytes:
  "put_u32 p k v i = (if k \<le> i \<and> i < k + 4 then le_byte (i - k) v else p i)"
proof -
  have "i = k \<or> i = k + 1 \<or> i = k + 2 \<or> i = k + 3" if "k \<le> i" "i < k + 4" using that by linarith
  then show ?thesis
    by (auto simp: put_u32_def le_byte_def numeral_nat upt_rec)
qed

lemma get_put_u32 [simp, layout_simps]: "get_u32 (put_u32 p k v) k = v"
proof -
  have "map (put_u32 p k v) [k..<k + 4] = le_bytes 4 v"
    by (rule nth_equalityI) (auto simp: put_u32_bytes le_bytes_def)
  then show ?thesis by (simp add: get_u32_le_value le_value_le_bytes)
qed

lemma get_u32_cong: "(\<And>i. k \<le> i \<Longrightarrow> i < k + 4 \<Longrightarrow> p i = q i) \<Longrightarrow> get_u32 p k = get_u32 q k"
proof -
  assume "\<And>i. k \<le> i \<Longrightarrow> i < k + 4 \<Longrightarrow> p i = q i"
  then have "map p [k..<k + 4] = map q [k..<k + 4]" by simp
  then show ?thesis unfolding get_u32_le_value by (rule arg_cong)
qed

lemma slot_byte_offset_simps: "slot_byte_offset i = 32 + i * 8"
  by (simp add: slot_byte_offset_def page_constants)

lemma read_slot_cong:
  assumes "\<And>k. 32 + i * 8 \<le> k \<Longrightarrow> k < 40 + i * 8 \<Longrightarrow> p k = q k"
  shows "read_slot p i = read_slot q i"
  using assms by (auto simp: read_slot_def slot_byte_offset_simps Let_def intro!: get_u16_cong)

lemma read_write_same [simp]: "read_slot (write_slot p i s) i = s"
  by (simp add: read_slot_def write_slot_def Let_def)

lemma write_slot_other:
  "k < 32 + i * 8 \<or> 40 + i * 8 \<le> k \<Longrightarrow> write_slot p i s k = p k"
  by (auto simp: write_slot_def slot_byte_offset_simps Let_def)

lemma read_write_other: "i \<noteq> j \<Longrightarrow> read_slot (write_slot p i s) j = read_slot p j"
  by (rule read_slot_cong) (rule write_slot_other, arith)

lemma read_write_slot: "read_slot (write_slot p i s) j = (if i = j then s else read_slot p j)"
  by (simp add: read_write_other)

lemma copy_bytes_outside:
  "k < off \<or> off + length bs \<le> k \<Longrightarrow> copy_bytes p off bs k = p k"
  by (auto simp: copy_bytes_def)

lemma page_bytes_copy [simp]: "page_bytes (copy_bytes p off bs) off (length bs) = bs"
  by (rule nth_equalityI) (simp_all add: page_bytes_def copy_bytes_def)

lemma page_bytes_cong:
  "(\<And>k. off \<le> k \<Longrightarrow> k < off + n \<Longrightarrow> p k = q k) \<Longrightarrow> page_bytes p off n = page_bytes q off n"
  by (simp add: page_bytes_def)

lemma length_page_bytes [simp]: "length (page_bytes p off n) = n"
  by (simp add: page_bytes_def)

subsection \<open>What validation establishes\<close>

definition header_ok :: "RawPage \<Rightarrow> PageId \<Rightarrow> bool" where
  "header_ok p pid \<longleftrightarrow> pid \<noteq> 0 \<and> has_magic p \<and> get_u16 p kVersionOffset = kFormatVersion
     \<and> unat (get_u16 p kHeaderSizeOffset) = kSlottedPageHeaderSize \<and> get_u32 p kPageIdOffset = pid
     \<and> (\<forall>i. kReservedOffset \<le> i \<longrightarrow> i < kSlottedPageHeaderSize \<longrightarrow> p i = 0)"

definition slot_live :: "SlotEntry \<Rightarrow> bool" where
  "slot_live s \<longleftrightarrow> se_flags s = kSlotOccupied"

definition slot_ok :: "nat \<Rightarrow> nat \<Rightarrow> SlotEntry \<Rightarrow> bool" where
  "slot_ok fl fu s \<longleftrightarrow>
     (if se_flags s = kSlotOccupied then
        se_generation s \<noteq> 0 \<and> se_record_length s \<noteq> 0 \<and> fu \<le> unat (se_record_offset s)
        \<and> fl \<le> unat (se_record_offset s)
        \<and> unat (se_record_offset s) + unat (se_record_length s) \<le> kPageSize
      else se_record_offset s = 0 \<and> se_record_length s = 0 \<and>
        (if se_flags s = kSlotRetired then se_generation s = - 1
         else se_flags s = 0 \<and> se_generation s \<noteq> 0 \<and> se_generation s \<noteq> - 1))"

definition slot_range :: "SlotEntry \<Rightarrow> Range" where
  "slot_range s = \<lparr>rg_begin = se_record_offset s, rg_end = se_record_offset s + se_record_length s\<rparr>"

fun tiles :: "nat \<Rightarrow> Range list \<Rightarrow> nat \<Rightarrow> bool" where
  "tiles a [] b \<longleftrightarrow> a = b"
| "tiles a (r # rs) b \<longleftrightarrow> unat (rg_begin r) = a \<and> rg_begin r < rg_end r \<and> tiles (unat (rg_end r)) rs b"

definition page_slots :: "RawPage \<Rightarrow> SlotEntry list" where
  "page_slots p = map (read_slot p) [0..<unat (get_u16 p kSlotCountOffset)]"

definition page_ok :: "RawPage \<Rightarrow> PageId \<Rightarrow> bool" where
  "page_ok p pid \<longleftrightarrow> header_ok p pid
     \<and> unat (get_u16 p kSlotCountOffset) \<le> kMaxSlotsPerPage
     \<and> unat (get_u16 p kFreeLowerOffset)
         = kSlottedPageHeaderSize + unat (get_u16 p kSlotCountOffset) * kSlotEntrySize
     \<and> unat (get_u16 p kFreeLowerOffset) \<le> unat (get_u16 p kFreeUpperOffset)
     \<and> list_all (slot_ok (unat (get_u16 p kFreeLowerOffset)) (unat (get_u16 p kFreeUpperOffset))) (page_slots p)
     \<and> unat (get_u16 p kLiveCountOffset) = length (filter slot_live (page_slots p))
     \<and> tiles (unat (get_u16 p kFreeUpperOffset))
         (sort_key rg_begin (map slot_range (filter slot_live (page_slots p)))) kPageSize"

lemma check_ranges_tiles: "check_ranges a rs = None \<longleftrightarrow> tiles a rs kPageSize"
  by (induction a rs rule: check_ranges.induct) (auto simp: not_le)

lemma flags_known:
  "f AND NOT kKnownSlotFlags = 0 \<and> f \<noteq> (kSlotOccupied OR kSlotRetired) \<longleftrightarrow>
     f = 0 \<or> f = kSlotOccupied \<or> f = kSlotRetired"
proof -
  have three: "kKnownSlotFlags = mask 2" by (simp add: page_constants mask_eq_exp_minus_1)
  have "f AND NOT (mask 2) = 0 \<longleftrightarrow> take_bit 2 f = f"
    by (auto simp: bit_eq_iff bit_simps)
  also have "\<dots> \<longleftrightarrow> unat f < 4"
    by (simp add: word_unat_eq_iff unsigned_take_bit_eq take_bit_nat_eq_self_iff)
  also have "\<dots> \<longleftrightarrow> f = 0 \<or> f = 1 \<or> f = 2 \<or> f = 3"
    by (auto simp: word_unat_eq_iff)
  finally show ?thesis unfolding three by (auto simp: page_constants)
qed

lemma validate_slots_Cons:
  assumes fl: "fl \<noteq> 0"
  shows "validate_slots fl fu (s # ss) n rs = Inr r \<longleftrightarrow> slot_ok (unat fl) (unat fu) s \<and>
    validate_slots fl fu ss (if slot_live s then Suc n else n)
      (if slot_live s then rs @ [slot_range s] else rs) = Inr r"
proof -
  have known: "\<not> (se_flags s AND NOT kKnownSlotFlags \<noteq> 0 \<or> se_flags s = (kSlotOccupied OR kSlotRetired))
      \<longleftrightarrow> se_flags s = 0 \<or> se_flags s = kSlotOccupied \<or> se_flags s = kSlotRetired"
    using flags_known [of "se_flags s"] by blast
  have zero: "se_record_offset s \<noteq> 0" if "unat fl \<le> unat (se_record_offset s)"
    using that fl by (auto simp: unat_eq_0)
  have distinct: "kSlotRetired \<noteq> kSlotOccupied" "kSlotOccupied \<noteq> 0" "kSlotRetired \<noteq> 0"
    by (simp_all add: page_constants)
  show ?thesis
  proof (cases "se_flags s = kSlotOccupied")
    case True
    then show ?thesis using known zero
      by (auto simp: slot_ok_def slot_live_def slot_range_def word_less_nat_alt not_less not_le)
  next
    case False
    then show ?thesis using known distinct
      by (cases "se_flags s = kSlotRetired"; cases "se_flags s = 0") (auto simp: slot_ok_def slot_live_def)
  qed
qed

lemma validate_slots_iff:
  assumes "fl \<noteq> 0"
  shows "validate_slots fl fu ss n rs = Inr (n', rs') \<longleftrightarrow>
     list_all (slot_ok (unat fl) (unat fu)) ss \<and> n' = n + length (filter slot_live ss)
     \<and> rs' = rs @ map slot_range (filter slot_live ss)"
proof (induction ss arbitrary: n rs)
  case Nil
  then show ?case by auto
next
  case (Cons s ss)
  then show ?case by (auto simp: validate_slots_Cons [OF assms] simp del: validate_slots.simps(2))
qed

lemma tiles_le: "tiles a rs b \<Longrightarrow> a \<le> b"
  by (induction rs arbitrary: a) (force simp: word_less_nat_alt)+

lemma validate_iff: "validate p pid = None \<longleftrightarrow> page_ok p pid"
proof -
  let ?sc = "get_u16 p kSlotCountOffset" and ?lc = "get_u16 p kLiveCountOffset"
  let ?fl = "get_u16 p kFreeLowerOffset" and ?fu = "get_u16 p kFreeUpperOffset"
  let ?live = "filter slot_live (page_slots p)"
  have fl: "?fl \<noteq> 0" if "unat ?fl = kSlottedPageHeaderSize + unat ?sc * kSlotEntrySize"
    using that by (auto simp: page_constants)
  have len: "length ?live \<le> unat ?sc"
    by (metis diff_zero length_filter_le length_map length_upt page_slots_def)
  have empty: "unat ?fu = kPageSize" if "tiles (unat ?fu) (sort_key rg_begin (map slot_range ?live)) kPageSize" "?live = []"
    using that by simp
  show ?thesis
  proof (cases "unat ?fl = kSlottedPageHeaderSize + unat ?sc * kSlotEntrySize")
    case False
    then show ?thesis by (auto simp: validate_def page_ok_def Let_def)
  next
    case True
    note slots = validate_slots_iff [OF fl [OF True], of ?fu "page_slots p" 0 "[]"]
    have "validate p pid = None \<longleftrightarrow> header_ok p pid \<and> unat ?sc \<le> kMaxSlotsPerPage
        \<and> ?lc \<le> ?sc \<and> ?fl \<le> ?fu \<and> unat ?fu \<le> kPageSize \<and> (?lc = 0 \<longrightarrow> unat ?fu = kPageSize)
        \<and> (\<exists>n rs. validate_slots ?fl ?fu (page_slots p) 0 [] = Inr (n, rs) \<and> n = unat ?lc
             \<and> check_ranges (unat ?fu) (sort_key rg_begin rs) = None)"
      using True
      by (auto simp: validate_def header_ok_def Let_def list_all_iff page_slots_def not_less
          split: sum.splits prod.splits)
    also have "\<dots> \<longleftrightarrow> page_ok p pid"
      unfolding slots check_ranges_tiles
      using True len empty tiles_le [of "unat ?fu" _ kPageSize]
      by (auto simp: page_ok_def word_le_nat_alt unat_eq_0)
    finally show ?thesis .
  qed
qed

lemma validate_ok [simp]: "page_ok p pid \<Longrightarrow> validate p pid = None"
  by (simp add: validate_iff)

end
