(* ===== verification/Page_File.thy ===== *)
theory Page_File
  imports Slotted_Page
begin

text \<open>
  \<open>src/storage/page_file.cpp\<close>: a file of fixed-size pages. Page 0 is the header with the number of pages and the
  head of the free list, whose links are stored in the free pages themselves. The medium is a file of pages with a
  size in bytes; what the stream operations on it do next is a list of outcomes, where an empty list stands for
  operations that succeed. Timing and locality counters are left out, the count of physical reads is kept.
\<close>

subsection \<open>The medium and the state\<close>

record DiskFile =
  df_size :: nat
  df_pages :: "nat \<Rightarrow> RawPage"

text \<open>
  A failed transfer: whether the stream is bad (for a read), and the page and the number of bytes that a failed write
  leaves behind.
\<close>

datatype StreamOutcome = StreamOk | SeekFails | TransferFails bool RawPage nat

datatype PageFileErrorKind = FileIo | FileCorrupt | FileInvalidArgument

datatype PageFileError = PageFileError (page_file_error_kind: PageFileErrorKind) (page_file_error_message: string)

datatype PageAllocationState = kAllocated | kFree

record PageFile =
  pf_file :: DiskFile
  pf_outcomes :: "StreamOutcome list"
  pf_open :: bool
  pf_poisoned :: bool
  pf_page_count :: nat
  pf_free_page_head :: PageId
  pf_read_attempts :: nat

type_synonym 'a page_io = "PageFile \<Rightarrow> (PageFileError, 'a) result \<times> PageFile"

definition io_bind :: "'a page_io \<Rightarrow> ('a \<Rightarrow> 'b page_io) \<Rightarrow> 'b page_io" where
  "io_bind m f s = (case m s of (Inl e, s1) \<Rightarrow> (Inl e, s1) | (Inr a, s1) \<Rightarrow> f a s1)"

definition io_fail :: "PageFileErrorKind \<Rightarrow> string \<Rightarrow> 'a page_io" where
  "io_fail kind message s = (Inl (PageFileError kind message), s)"

definition take_outcome :: "PageFile \<Rightarrow> StreamOutcome \<times> PageFile" where
  "take_outcome s = (case pf_outcomes s of [] \<Rightarrow> (StreamOk, s) | r # rest \<Rightarrow> (r, s\<lparr>pf_outcomes := rest\<rparr>))"

subsection \<open>Page layout\<close>

definition kPageFileMagic :: string where "kPageFileMagic = ''TDBPAGE1''"
definition kFreePageMagic :: string where "kFreePageMagic = ''TFR1''"
definition kPageFileFormatVersion :: u32 where "kPageFileFormatVersion = 1"
definition kFileVersionOffset :: nat where "kFileVersionOffset = 8"
definition kFreePageHeadOffset :: nat where "kFreePageHeadOffset = 12"
definition kPageCountOffset :: nat where "kPageCountOffset = 16"

definition get_u64 :: "RawPage \<Rightarrow> nat \<Rightarrow> u64" where
  "get_u64 page offset =
     fold (\<lambda>index value. value OR push_bit (index * 8) (ucast (page (offset + index)))) [0..<8] 0"

definition put_u64 :: "RawPage \<Rightarrow> nat \<Rightarrow> u64 \<Rightarrow> RawPage" where
  "put_u64 page offset value =
     fold (\<lambda>index page. page(offset + index := ucast (drop_bit (index * 8) value AND 0xff))) [0..<8] page"

definition make_header :: "nat \<Rightarrow> PageId \<Rightarrow> RawPage" where
  "make_header page_count free_page_head =
     (let page = copy_bytes (\<lambda>_. 0) 0 (map byte_of_char kPageFileMagic);
          page = put_u32 page kFileVersionOffset kPageFileFormatVersion;
          page = put_u32 page kFreePageHeadOffset free_page_head
      in put_u64 page kPageCountOffset (word_of_nat page_count))"

definition starts_with_magic :: "RawPage \<Rightarrow> string \<Rightarrow> bool" where
  "starts_with_magic page magic \<longleftrightarrow> list_all (\<lambda>i. byte_of_char (magic ! i) = page i) [0..<length magic]"

definition make_free_page :: "PageId \<Rightarrow> RawPage" where
  "make_free_page next = put_u32 (copy_bytes (\<lambda>_. 0) 0 (map byte_of_char kFreePageMagic)) 4 next"

text \<open>The offset of a page in the file, if \<open>std::streamoff\<close> can hold it.\<close>

definition page_offset :: "PageId \<Rightarrow> nat option" where
  "page_offset page_id =
     (let offset = unat page_id * kPageSize in if 9223372036854775807 < offset then None else Some offset)"

subsection \<open>Physical access\<close>

definition read_raw_page :: "PageId \<Rightarrow> RawPage page_io" where
  "read_raw_page page_id s =
     (case page_offset page_id of
        None \<Rightarrow> io_fail FileInvalidArgument ''Page offset is not representable'' s
      | Some offset \<Rightarrow>
          (case take_outcome s of (outcome, s1) \<Rightarrow>
             if outcome = SeekFails then io_fail FileIo ''cannot seek while reading PageFile'' s1
             else
               let s2 = s1\<lparr>pf_read_attempts := pf_read_attempts s1 + 1\<rparr> in
               (case outcome of
                  TransferFails bad page n \<Rightarrow>
                    io_fail (if bad then FileIo else FileCorrupt) ''PageFile page read was short'' s2
                | _ \<Rightarrow>
                    if df_size (pf_file s2) < offset + kPageSize
                    then io_fail FileCorrupt ''PageFile page read was short'' s2
                    else (Inr (df_pages (pf_file s2) (unat page_id)), s2))))"

text \<open>Writing a page leaves the file at least as long as the end of what was written.\<close>

definition put_page :: "nat \<Rightarrow> RawPage \<Rightarrow> nat \<Rightarrow> DiskFile \<Rightarrow> DiskFile" where
  "put_page n page reached file =
     \<lparr>df_size = max (df_size file) (n * kPageSize + reached), df_pages = (df_pages file)(n := page)\<rparr>"

definition write_raw_page :: "PageId \<Rightarrow> RawPage \<Rightarrow> unit page_io" where
  "write_raw_page page_id page s =
     (case page_offset page_id of
        None \<Rightarrow> io_fail FileInvalidArgument ''Page offset is not representable'' s
      | Some offset \<Rightarrow>
          (case take_outcome s of (outcome, s1) \<Rightarrow>
             (case outcome of
                SeekFails \<Rightarrow> io_fail FileIo ''cannot seek while writing PageFile'' s1
              | TransferFails bad left reached \<Rightarrow>
                  io_fail FileIo ''cannot write PageFile page''
                    (s1\<lparr>pf_file := put_page (unat page_id) left (min reached kPageSize) (pf_file s1)\<rparr>)
              | StreamOk \<Rightarrow> (Inr (), s1\<lparr>pf_file := put_page (unat page_id) page kPageSize (pf_file s1)\<rparr>))))"

definition write_header :: "unit page_io" where
  "write_header s = write_raw_page 0 (make_header (pf_page_count s) (pf_free_page_head s)) s"

definition read_free_next :: "PageId \<Rightarrow> PageId page_io" where
  "read_free_next page_id =
     io_bind (read_raw_page page_id) (\<lambda>page s.
       if \<not> starts_with_magic page kFreePageMagic then io_fail FileCorrupt ''free page marker is invalid'' s
       else (Inr (get_u32 page 4), s))"

text \<open>A state reached by reading only, with at most \<open>n\<close> physical reads.\<close>

definition only_reads :: "nat \<Rightarrow> PageFile \<Rightarrow> PageFile \<Rightarrow> bool" where
  "only_reads n s s1 \<longleftrightarrow> pf_file s1 = pf_file s \<and> pf_open s1 = pf_open s \<and> pf_poisoned s1 = pf_poisoned s
     \<and> pf_page_count s1 = pf_page_count s \<and> pf_free_page_head s1 = pf_free_page_head s
     \<and> pf_read_attempts s1 \<le> pf_read_attempts s + n"

lemma take_outcome_only_reads: "take_outcome s = (r, s1) \<Longrightarrow> only_reads 0 s s1"
  by (auto simp: take_outcome_def only_reads_def split: list.splits)

lemma read_raw_page_only_reads: "read_raw_page page_id s = (r, s1) \<Longrightarrow> only_reads 1 s s1"
  by (auto simp: read_raw_page_def io_fail_def Let_def only_reads_def
      split: option.splits prod.splits if_splits StreamOutcome.splits dest!: take_outcome_only_reads)

lemma read_free_next_only_reads: "read_free_next page_id s = (r, s1) \<Longrightarrow> only_reads 1 s s1"
  by (auto simp: read_free_next_def io_bind_def io_fail_def split: prod.splits sum.splits if_splits
      dest!: read_raw_page_only_reads)

subsection \<open>The free list\<close>

lemma card_remove_one: "x \<in> (S :: 'a :: finite set) \<Longrightarrow> x \<notin> V \<Longrightarrow> card (S - insert x V) < card (S - V)"
  by (rule psubset_card_mono) (auto intro: finite)

text \<open>
  The walk along the free list, with the pages visited so far. It ends on every file, however its links run: each
  step visits a page of the file that was not visited before.
\<close>

function (sequential) free_walk :: "PageId \<Rightarrow> PageId list \<Rightarrow> bool \<Rightarrow> PageId \<Rightarrow> bool page_io" where
  "free_walk page_id visited found current s =
     (if current = 0 then (Inr found, s)
      else if pf_page_count s \<le> unat current \<or> List.member visited current then
        io_fail FileCorrupt ''PageFile free list is invalid'' s
      else
        case read_free_next current s of
          (Inl e, s1) \<Rightarrow> (Inl e, s1)
        | (Inr next, s1) \<Rightarrow> free_walk page_id (current # visited) (found \<or> current = page_id) next s1)"
  by pat_completeness auto
termination
proof (relation "measure (\<lambda>(_, visited, _, _, s). card ({c. unat c < pf_page_count s} - set visited))", goal_cases)
  case (2 page_id visited found current s r s1 nxt)
  have "pf_page_count s1 = pf_page_count s" using read_free_next_only_reads [OF 2(3) [symmetric]] by (simp add: only_reads_def)
  moreover have "card ({c. unat c < pf_page_count s} - insert current (set visited)) < card ({c. unat c < pf_page_count s} - set visited)"
    using 2(2) by (intro card_remove_one) simp_all
  ultimately show ?case by simp
qed simp

declare free_walk.simps [simp del]

definition is_free_page :: "PageId \<Rightarrow> bool page_io" where
  "is_free_page page_id s = free_walk page_id [] False (pf_free_page_head s) s"

subsection \<open>Opening and creating\<close>

definition require_open :: "unit page_io" where
  "require_open s =
     (if \<not> pf_open s then io_fail FileInvalidArgument ''PageFile is closed'' s
      else if pf_poisoned s then io_fail FileIo ''PageFile state is unavailable after an I/O failure'' s
      else (Inr (), s))"

text \<open>The object with its stream open and the members at their initial values.\<close>

definition opened_stream :: "DiskFile \<Rightarrow> StreamOutcome list \<Rightarrow> PageFile" where
  "opened_stream file outcomes =
     \<lparr>pf_file = file, pf_outcomes = outcomes, pf_open = True, pf_poisoned = False, pf_page_count = 1,
      pf_free_page_head = 0, pf_read_attempts = 0\<rparr>"

text \<open>
  \<open>PageFile::open\<close>: the answer of \<open>std::filesystem::file_size\<close> with the file behind it, whether the stream opens, and
  the outcomes of the operations to come. On every error the object is closed and dropped.
\<close>

definition open_page_file :: "(unit, DiskFile) result \<Rightarrow> bool \<Rightarrow> StreamOutcome list \<Rightarrow> (PageFileError, PageFile) result" where
  "open_page_file path stream_opens outcomes =
     (case path of
        Inl _ \<Rightarrow> Inl (PageFileError FileIo ''cannot inspect PageFile size'')
      | Inr file \<Rightarrow>
          if df_size file < kPageSize \<or> df_size file mod kPageSize \<noteq> 0 then
            Inl (PageFileError FileCorrupt ''PageFile length is invalid'')
          else if \<not> stream_opens then Inl (PageFileError FileIo ''cannot open PageFile'')
          else
            (case read_raw_page 0 (opened_stream file outcomes) of
                  (Inl e, _) \<Rightarrow> Inl e
                | (Inr header, s1) \<Rightarrow>
                    if \<not> starts_with_magic header kPageFileMagic \<or> get_u32 header kFileVersionOffset \<noteq> kPageFileFormatVersion then
                      Inl (PageFileError FileCorrupt ''PageFile header magic or version is invalid'')
                    else
                      let page_count = unat (get_u64 header kPageCountOffset) in
                      if page_count = 0 \<or> 4294967296 < page_count \<or> df_size file < page_count * kPageSize then
                        Inl (PageFileError FileCorrupt ''PageFile page_count is invalid'')
                      else
                        let s2 = s1\<lparr>pf_page_count := page_count, pf_free_page_head := get_u32 header kFreePageHeadOffset\<rparr>
                        in (case free_walk 0 [] False (pf_free_page_head s2) s2 of
                              (Inl e, _) \<Rightarrow> Inl e
                            | (Inr _, s3) \<Rightarrow> Inr s3)))"

text \<open>
  \<open>PageFile::create\<close>: whether the path can be inspected and a file is there, whether the output stream opens, and
  whether header write and close succeed; then the new file is opened.
\<close>

definition create_page_file ::
    "(unit, bool) result \<Rightarrow> bool \<Rightarrow> bool \<Rightarrow> bool \<Rightarrow> StreamOutcome list \<Rightarrow> (PageFileError, PageFile) result" where
  "create_page_file path output_opens write_succeeded close_succeeded outcomes =
     (case path of
        Inl _ \<Rightarrow> Inl (PageFileError FileIo ''cannot inspect PageFile path'')
      | Inr exists \<Rightarrow>
          if exists then Inl (PageFileError FileInvalidArgument ''PageFile already exists'')
          else if \<not> output_opens then Inl (PageFileError FileIo ''cannot create PageFile'')
          else if \<not> write_succeeded \<or> \<not> close_succeeded then
            Inl (PageFileError FileIo ''cannot initialize PageFile header'')
          else open_page_file (Inr \<lparr>df_size = kPageSize, df_pages = (\<lambda>_. (\<lambda>_. 0))(0 := make_header 1 0)\<rparr>) True outcomes)"

subsection \<open>Pages\<close>

definition out_of_range :: "PageId \<Rightarrow> PageFile \<Rightarrow> bool" where
  "out_of_range page_id s \<longleftrightarrow> page_id = 0 \<or> pf_page_count s \<le> unat page_id"

definition page_allocation_state :: "PageId \<Rightarrow> PageAllocationState page_io" where
  "page_allocation_state page_id =
     io_bind require_open (\<lambda>_ s.
       if out_of_range page_id s then io_fail FileInvalidArgument ''PageId is outside the data-page range'' s
       else io_bind (is_free_page page_id) (\<lambda>free s. (Inr (if free then kFree else kAllocated), s)) s)"

definition read_page :: "PageId \<Rightarrow> RawPage page_io" where
  "read_page page_id =
     io_bind require_open (\<lambda>_ s.
       if out_of_range page_id s then io_fail FileInvalidArgument ''PageId is outside the data-page range'' s
       else io_bind (is_free_page page_id) (\<lambda>free.
         if free then io_fail FileInvalidArgument ''free page cannot be read''
         else read_raw_page page_id) s)"

definition write_page :: "PageId \<Rightarrow> RawPage \<Rightarrow> unit page_io" where
  "write_page page_id page =
     io_bind require_open (\<lambda>_ s.
       if out_of_range page_id s then io_fail FileInvalidArgument ''PageId is outside the data-page range'' s
       else io_bind (is_free_page page_id) (\<lambda>free.
         if free then io_fail FileInvalidArgument ''free page cannot be written''
         else write_raw_page page_id page) s)"

text \<open>Writing the header; if that fails, the memory state is put back and the file poisoned.\<close>

definition mark_poisoned :: "PageFile \<Rightarrow> PageFile" where
  "mark_poisoned s = s\<lparr>pf_poisoned := True\<rparr>"

definition publish_header :: "(PageFile \<Rightarrow> PageFile) \<Rightarrow> unit page_io" where
  "publish_header restore s =
     (case write_header s of
        (Inl e, s1) \<Rightarrow> (Inl e, mark_poisoned (restore s1))
      | (Inr _, s1) \<Rightarrow> (Inr (), s1))"

definition reuse_free_page :: "PageId page_io" where
  "reuse_free_page s =
     (let allocated = pf_free_page_head s in
      io_bind (is_free_page allocated) (\<lambda>_.
      io_bind (read_free_next allocated) (\<lambda>next s1.
      io_bind (publish_header (\<lambda>s. s\<lparr>pf_free_page_head := allocated\<rparr>)) (\<lambda>_ s2.
        (case write_raw_page allocated (\<lambda>_. 0) s2 of
           (Inl e, s3) \<Rightarrow> (Inl e, mark_poisoned s3)
         | (Inr _, s3) \<Rightarrow> (Inr allocated, s3)))
        (s1\<lparr>pf_free_page_head := next\<rparr>))) s)"

definition extend_file :: "PageId page_io" where
  "extend_file s =
     (if 4294967295 < pf_page_count s then io_fail FileInvalidArgument ''PageId space is exhausted'' s
      else
        let allocated = word_of_nat (pf_page_count s) in
        io_bind (write_raw_page allocated (\<lambda>_. 0)) (\<lambda>_ s1.
        io_bind (publish_header (\<lambda>s. s\<lparr>pf_page_count := pf_page_count s - 1\<rparr>)) (\<lambda>_ s2. (Inr allocated, s2))
          (s1\<lparr>pf_page_count := pf_page_count s1 + 1\<rparr>)) s)"

definition allocate_page :: "PageId page_io" where
  "allocate_page =
     io_bind require_open (\<lambda>_ s. if pf_free_page_head s \<noteq> 0 then reuse_free_page s else extend_file s)"

definition free_page :: "PageId \<Rightarrow> unit page_io" where
  "free_page page_id =
     io_bind require_open (\<lambda>_ s.
       if out_of_range page_id s then io_fail FileInvalidArgument ''PageId is outside the data-page range'' s
       else io_bind (is_free_page page_id) (\<lambda>free.
         if free then io_fail FileInvalidArgument ''page is already free''
         else (\<lambda>s.
           let old_head = pf_free_page_head s in
           io_bind (write_raw_page page_id (make_free_page old_head)) (\<lambda>_ s1.
             publish_header (\<lambda>s. s\<lparr>pf_free_page_head := old_head\<rparr>) (s1\<lparr>pf_free_page_head := page_id\<rparr>)) s)) s)"

text \<open>Closing flushes the stream and closes it; on a failure the file stays open for another try.\<close>

definition close_page_file :: "unit page_io" where
  "close_page_file s =
     (if \<not> pf_open s then (Inr (), s)
      else case take_outcome s of (flush, s1) \<Rightarrow>
        if flush \<noteq> StreamOk then io_fail FileIo ''cannot close PageFile cleanly'' s1
        else case take_outcome s1 of (closing, s2) \<Rightarrow>
          if closing \<noteq> StreamOk then io_fail FileIo ''cannot close PageFile cleanly'' s2
          else (Inr (), s2\<lparr>pf_open := False\<rparr>))"

end
