(* ===== verification/Buffer_Pool.thy ===== *)
theory Buffer_Pool
  imports Page_File Plan
begin

text \<open>
  \<open>src/storage/buffer_pool.cpp\<close> and the part of \<open>src/storage/file_manager.cpp\<close> it uses: a fixed number of frames that
  cache pages of the open table files, with FIFO or LRU replacement and write-back of changed pages. This is the pool
  as one thread sees it: the demand path of \<open>load_page\<close> with its reservations opened and closed within one call, without the
  prefetch worker. While one thread runs, no other can take a reservation away, pin or change the victim or close the pool
  between the unlocking and the locking of the mutex, so \<open>reservation_matches\<close>, \<open>victim_owned\<close>, \<open>can_snapshot\<close> and
  \<open>can_commit\<close> are true, \<open>loading_table_\<close> is empty between calls, and the branches that wait for another load or
  give up a stale one cannot be reached. Log events and the counters that nothing depends on are left out.
\<close>

subsection \<open>State\<close>

record PageKey =
  pk_table_id :: TableId
  pk_page_id :: PageId

type_synonym FrameId = nat

datatype ReplacementPolicy = kFifo | kLru
datatype LifecycleState = kPoolOpen | kPoolClosing | kPoolClosed
datatype FrameState = kFrameFree | kFrameLoading | kFrameReady

record Frame =
  fr_page :: RawPage
  fr_key :: "PageKey option"
  fr_dirty :: bool
  fr_pin_count :: nat
  fr_state :: FrameState
  fr_ticket :: nat
  fr_replacement_ticket :: nat

record BufferPool =
  bp_frames :: "Frame list"
  bp_page_table :: "PageKey \<rightharpoonup> FrameId"
  bp_order :: "FrameId list"
  bp_policy :: ReplacementPolicy
  bp_lifecycle :: LifecycleState
  bp_fetch_count :: nat
  bp_hit_count :: nat
  bp_miss_count :: nat
  bp_dirty_flush_count :: nat
  bp_eviction_count :: nat

text \<open>The pool and the open files of the file manager.\<close>

record Engine =
  en_pool :: BufferPool
  en_files :: "TableId \<rightharpoonup> PageFile"

datatype BufferPoolErrorKind = PoolInvalidArgument | PoolNoVictim | PoolIo | PoolCorrupt

datatype BufferPoolError = BufferPoolError (pool_error_kind: BufferPoolErrorKind) (pool_error_message: string)

definition pool_invalid :: "string \<Rightarrow> BufferPoolError" where
  "pool_invalid message = BufferPoolError PoolInvalidArgument message"

fun map_file_error :: "PageFileError \<Rightarrow> BufferPoolError" where
  "map_file_error (PageFileError FileIo message) = BufferPoolError PoolIo message"
| "map_file_error (PageFileError FileCorrupt message) = BufferPoolError PoolCorrupt message"
| "map_file_error (PageFileError FileInvalidArgument message) = pool_invalid message"

definition kMaxU64 :: nat where "kMaxU64 = 18446744073709551615"
definition kMaxPinCount :: nat where "kMaxPinCount = 4294967295"

definition empty_frame :: Frame where
  "empty_frame = \<lparr>fr_page = (\<lambda>_. 0), fr_key = None, fr_dirty = False, fr_pin_count = 0, fr_state = kFrameFree,
     fr_ticket = 0, fr_replacement_ticket = 0\<rparr>"

definition create_pool :: "nat \<Rightarrow> ReplacementPolicy \<Rightarrow> (BufferPoolError, BufferPool) result" where
  "create_pool capacity policy =
     (if capacity = 0 \<or> capacity = kMaxU64 then
        Inl (pool_invalid ''BufferPool capacity is not representable or is zero'')
      else Inr \<lparr>bp_frames = replicate capacity empty_frame, bp_page_table = Map.empty, bp_order = [], bp_policy = policy,
        bp_lifecycle = kPoolOpen, bp_fetch_count = 0, bp_hit_count = 0, bp_miss_count = 0, bp_dirty_flush_count = 0,
        bp_eviction_count = 0\<rparr>)"

type_synonym 'a pool_io = "Engine \<Rightarrow> (BufferPoolError, 'a) result \<times> Engine"

definition frame_of :: "FrameId \<Rightarrow> Engine \<Rightarrow> Frame" where
  "frame_of frame_id e = bp_frames (en_pool e) ! frame_id"

definition change_pool :: "(BufferPool \<Rightarrow> BufferPool) \<Rightarrow> Engine \<Rightarrow> Engine" where
  "change_pool f e = e\<lparr>en_pool := f (en_pool e)\<rparr>"

definition change_frame :: "FrameId \<Rightarrow> (Frame \<Rightarrow> Frame) \<Rightarrow> Engine \<Rightarrow> Engine" where
  "change_frame frame_id f =
     change_pool (\<lambda>pool. pool\<lparr>bp_frames := (bp_frames pool)[frame_id := f (bp_frames pool ! frame_id)]\<rparr>)"

text \<open>\<open>FifoReplacer\<close>: the frames in the order of their loads, or of their last use.\<close>

definition record_load :: "FrameId \<Rightarrow> FrameId list \<Rightarrow> FrameId list" where
  "record_load frame_id order = remove1 frame_id order @ [frame_id]"

definition choose_victim :: "(FrameId \<Rightarrow> bool) \<Rightarrow> FrameId list \<Rightarrow> FrameId option" where
  "choose_victim eligible order = find eligible order"

subsection \<open>Access to the files\<close>

definition acquire_file :: "TableId \<Rightarrow> Engine \<Rightarrow> (PageFileError, PageFile) result" where
  "acquire_file table_id e =
     (case en_files e table_id of
        None \<Rightarrow> Inl (PageFileError FileInvalidArgument ''table PageFile is not open'')
      | Some file \<Rightarrow> Inr file)"

definition on_file :: "TableId \<Rightarrow> 'a page_io \<Rightarrow> 'a pool_io" where
  "on_file table_id operation e =
     (case acquire_file table_id e of
        Inl _ \<Rightarrow> (Inl (pool_invalid ''table PageFile is not open''), e)
      | Inr file \<Rightarrow>
          if \<not> pf_open file then (Inl (pool_invalid ''table PageFile is not open''), e)
          else case operation file of (r, file1) \<Rightarrow>
            (map_error map_file_error r, e\<lparr>en_files := (en_files e)(table_id \<mapsto> file1)\<rparr>))"

definition read_key :: "PageKey \<Rightarrow> RawPage pool_io" where
  "read_key key = on_file (pk_table_id key) (read_page (pk_page_id key))"

definition write_key :: "PageKey \<Rightarrow> RawPage \<Rightarrow> unit pool_io" where
  "write_key key page = on_file (pk_table_id key) (write_page (pk_page_id key) page)"

subsection \<open>Write-back\<close>

definition flush_frame :: "FrameId \<Rightarrow> unit pool_io" where
  "flush_frame frame_id e =
     (case fr_key (frame_of frame_id e) of
        None \<Rightarrow> (Inr (), e)
      | Some key \<Rightarrow>
          if fr_state (frame_of frame_id e) \<noteq> kFrameReady \<or> \<not> fr_dirty (frame_of frame_id e) then (Inr (), e)
          else if bp_dirty_flush_count (en_pool e) = kMaxU64 then
            (Inl (pool_invalid ''BufferPool dirty flush counter exhausted''), e)
          else case write_key key (fr_page (frame_of frame_id e)) e of
            (Inl error, e1) \<Rightarrow> (Inl error, e1)
          | (Inr _, e1) \<Rightarrow>
              (Inr (), change_pool (\<lambda>pool. pool\<lparr>bp_dirty_flush_count := bp_dirty_flush_count pool + 1\<rparr>)
                (change_frame frame_id (\<lambda>frame. frame\<lparr>fr_dirty := False\<rparr>) e1)))"

fun flush_frames :: "FrameId list \<Rightarrow> unit pool_io" where
  "flush_frames [] e = (Inr (), e)"
| "flush_frames (frame_id # rest) e =
     (case flush_frame frame_id e of (Inl error, e1) \<Rightarrow> (Inl error, e1) | (Inr _, e1) \<Rightarrow> flush_frames rest e1)"

definition flush_all_locked :: "unit pool_io" where
  "flush_all_locked e = flush_frames [0..<length (bp_frames (en_pool e))] e"

definition pool_open :: "Engine \<Rightarrow> bool" where
  "pool_open e \<longleftrightarrow> bp_lifecycle (en_pool e) = kPoolOpen"

definition flush_page :: "PageKey \<Rightarrow> unit pool_io" where
  "flush_page key e =
     (if \<not> pool_open e then (Inl (pool_invalid ''BufferPool is closed''), e)
      else case bp_page_table (en_pool e) key of None \<Rightarrow> (Inr (), e) | Some frame_id \<Rightarrow> flush_frame frame_id e)"

definition flush_all :: "unit pool_io" where
  "flush_all e = (if \<not> pool_open e then (Inl (pool_invalid ''BufferPool is closed''), e) else flush_all_locked e)"

subsection \<open>Loading pages\<close>

definition reset_to_free :: "Frame \<Rightarrow> Frame" where
  "reset_to_free frame = frame\<lparr>fr_page := (\<lambda>_. 0), fr_key := None, fr_dirty := False, fr_pin_count := 0, fr_state := kFrameFree\<rparr>"

text \<open>A resident page: the frame is pinned once more, and with LRU becomes the last to be replaced.\<close>

definition hit_frame :: "FrameId \<Rightarrow> FrameId pool_io" where
  "hit_frame frame_id e =
     (let e1 = change_pool (\<lambda>pool. pool\<lparr>bp_hit_count := bp_hit_count pool + 1\<rparr>) e in
      if fr_pin_count (frame_of frame_id e1) = kMaxPinCount then (Inl (pool_invalid ''Frame pin count overflow''), e1)
      else (Inr frame_id,
        change_pool (\<lambda>pool. if bp_policy pool = kLru then pool\<lparr>bp_order := record_load frame_id (bp_order pool)\<rparr> else pool)
          (change_frame frame_id (\<lambda>frame. frame\<lparr>fr_pin_count := fr_pin_count frame + 1\<rparr>) e1)))"

text \<open>
  The new identity of a frame, with the old mapping gone: \<open>publish\<close> is the commit of every kind of miss. The frame is
  pinned once for the guard that the caller gets.
\<close>

definition publish :: "FrameId \<Rightarrow> PageKey option \<Rightarrow> PageKey \<Rightarrow> RawPage \<Rightarrow> Engine \<Rightarrow> Engine" where
  "publish frame_id old_key key page e =
     change_pool (\<lambda>pool. pool\<lparr>bp_page_table := (case old_key of None \<Rightarrow> (bp_page_table pool)(key \<mapsto> frame_id)
          | Some old \<Rightarrow> ((bp_page_table pool)(key \<mapsto> frame_id))(old := None)),
        bp_order := record_load frame_id (bp_order pool)\<rparr>)
       (change_frame frame_id (\<lambda>frame. frame\<lparr>fr_page := page, fr_key := Some key, fr_dirty := False, fr_pin_count := 1,
          fr_state := kFrameReady, fr_ticket := fr_ticket frame + 1\<rparr>) e)"

definition load_free_frame :: "FrameId \<Rightarrow> PageKey \<Rightarrow> FrameId pool_io" where
  "load_free_frame frame_id key e =
     (if fr_ticket (frame_of frame_id e) = kMaxU64 then (Inl (pool_invalid ''BufferPool Frame ticket exhausted''), e)
      else case read_key key e of
        (Inl error, e1) \<Rightarrow>
          (Inl error, change_frame frame_id (\<lambda>frame. (reset_to_free frame)\<lparr>fr_ticket := fr_ticket frame + 1\<rparr>) e1)
      | (Inr page, e1) \<Rightarrow> (Inr frame_id, publish frame_id None key page e1))"

text \<open>Replacing a page that the files already have: the new page is read first, then the frame changes hands.\<close>

definition replace_clean :: "FrameId \<Rightarrow> PageKey \<Rightarrow> PageKey \<Rightarrow> FrameId pool_io" where
  "replace_clean frame_id old_key key e =
     (case read_key key e of
        (Inl error, e1) \<Rightarrow> (Inl error, e1)
      | (Inr page, e1) \<Rightarrow>
          (Inr frame_id, change_pool (\<lambda>pool. pool\<lparr>bp_eviction_count := bp_eviction_count pool + 1\<rparr>)
            (publish frame_id (Some old_key) key page e1)))"

text \<open>Replacing a changed page: the new page is read, the old one written back, then the frame changes hands.\<close>

definition replace_dirty :: "FrameId \<Rightarrow> PageKey \<Rightarrow> PageKey \<Rightarrow> FrameId pool_io" where
  "replace_dirty frame_id old_key key e =
     (case read_key key e of
        (Inl error, e1) \<Rightarrow> (Inl error, e1)
      | (Inr page, e1) \<Rightarrow>
          if bp_dirty_flush_count (en_pool e1) = kMaxU64 then
            (Inl (pool_invalid ''BufferPool dirty flush counter exhausted''), e1)
          else case write_key old_key (fr_page (frame_of frame_id e1)) e1 of
            (Inl error, e2) \<Rightarrow> (Inl error, e2)
          | (Inr _, e2) \<Rightarrow>
              (Inr frame_id, change_pool (\<lambda>pool. pool\<lparr>bp_dirty_flush_count := bp_dirty_flush_count pool + 1,
                  bp_eviction_count := bp_eviction_count pool + 1\<rparr>)
                (publish frame_id (Some old_key) key page e2)))"

definition eligible :: "Engine \<Rightarrow> FrameId \<Rightarrow> bool" where
  "eligible e frame_id \<longleftrightarrow> fr_state (frame_of frame_id e) = kFrameReady \<and> fr_key (frame_of frame_id e) \<noteq> None
     \<and> fr_pin_count (frame_of frame_id e) = 0"

definition replace_victim :: "FrameId \<Rightarrow> PageKey \<Rightarrow> PageKey \<Rightarrow> FrameId pool_io" where
  "replace_victim frame_id old_key key e =
     (if fr_ticket (frame_of frame_id e) = kMaxU64 then (Inl (pool_invalid ''BufferPool Frame ticket exhausted''), e)
      else if bp_eviction_count (en_pool e) = kMaxU64 then (Inl (pool_invalid ''BufferPool eviction counter exhausted''), e)
      else if fr_replacement_ticket (frame_of frame_id e) = kMaxU64 then
        (Inl (pool_invalid ''BufferPool replacement ticket exhausted''), e)
      else
        let e1 = change_frame frame_id (\<lambda>frame. frame\<lparr>fr_replacement_ticket := fr_replacement_ticket frame + 1\<rparr>) e in
        if fr_dirty (frame_of frame_id e1) then replace_dirty frame_id old_key key e1 else replace_clean frame_id old_key key e1)"

definition miss :: "PageKey \<Rightarrow> FrameId pool_io" where
  "miss key e =
     (let e1 = change_pool (\<lambda>pool. pool\<lparr>bp_miss_count := bp_miss_count pool + 1\<rparr>) e in
      case find (\<lambda>frame_id. fr_state (frame_of frame_id e1) = kFrameFree) [0..<length (bp_frames (en_pool e1))] of
        Some frame_id \<Rightarrow> load_free_frame frame_id key e1
      | None \<Rightarrow>
          (case choose_victim (eligible e1) (bp_order (en_pool e1)) of
             None \<Rightarrow> (Inl (BufferPoolError PoolNoVictim ''all resident Frames are pinned''), e1)
           | Some victim \<Rightarrow> replace_victim victim (the (fr_key (frame_of victim e1))) key e1))"

definition fetch_page :: "PageKey \<Rightarrow> FrameId pool_io" where
  "fetch_page key e =
     (if \<not> pool_open e \<or> pk_page_id key = 0 then (Inl (pool_invalid ''pool is closed or PageId is zero''), e)
      else if bp_fetch_count (en_pool e) = kMaxU64 then (Inl (pool_invalid ''BufferPool fetch counter exhausted''), e)
      else
        let e1 = change_pool (\<lambda>pool. pool\<lparr>bp_fetch_count := bp_fetch_count pool + 1\<rparr>) e in
        case bp_page_table (en_pool e1) key of
          None \<Rightarrow> miss key e1
        | Some frame_id \<Rightarrow>
            if fr_state (frame_of frame_id e1) = kFrameReady then hit_frame frame_id e1
            else (Inl (pool_invalid ''BufferPool PageTable has invalid Frame state''),
              change_pool (\<lambda>pool. pool\<lparr>bp_miss_count := bp_miss_count pool + 1\<rparr>) e1))"

subsection \<open>Guards\<close>

text \<open>What a \<open>PageGuard\<close> does with its frame: give the page, change it and mark it dirty, and unpin it at the end.\<close>

definition guard_page :: "FrameId \<Rightarrow> Engine \<Rightarrow> RawPage" where
  "guard_page frame_id e = fr_page (frame_of frame_id e)"

definition change_guarded :: "FrameId \<Rightarrow> RawPage \<Rightarrow> Engine \<Rightarrow> Engine" where
  "change_guarded frame_id page = change_frame frame_id (\<lambda>frame. frame\<lparr>fr_page := page, fr_dirty := True\<rparr>)"

definition unpin :: "FrameId \<Rightarrow> Engine \<Rightarrow> Engine" where
  "unpin frame_id = change_frame frame_id (\<lambda>frame. frame\<lparr>fr_pin_count := fr_pin_count frame - 1\<rparr>)"

subsection \<open>Giving pages up\<close>

definition belongs :: "TableId \<Rightarrow> Frame \<Rightarrow> bool" where
  "belongs table_id frame \<longleftrightarrow> (case fr_key frame of None \<Rightarrow> False | Some key \<Rightarrow> pk_table_id key = table_id)"

definition release_table :: "TableId \<Rightarrow> unit pool_io" where
  "release_table table_id e =
     (let frames = bp_frames (en_pool e);
          owned = filter (\<lambda>frame_id. belongs table_id (frames ! frame_id)) [0..<length frames] in
      if \<not> pool_open e then (Inl (pool_invalid ''BufferPool is closed''), e)
      else if list_ex (\<lambda>frame. belongs table_id frame \<and> fr_pin_count frame \<noteq> 0) frames then
        (Inl (pool_invalid ''cannot release table with active PageGuards''), e)
      else case flush_frames owned e of
        (Inl error, e1) \<Rightarrow> (Inl error, e1)
      | (Inr _, e1) \<Rightarrow>
          (Inr (), change_pool (\<lambda>pool. pool
            \<lparr>bp_frames := map (\<lambda>frame. if belongs table_id frame then reset_to_free frame else frame) (bp_frames pool),
             bp_page_table := (\<lambda>key. if pk_table_id key = table_id then None else bp_page_table pool key),
             bp_order := filter (\<lambda>frame_id. \<not> belongs table_id (bp_frames pool ! frame_id)) (bp_order pool)\<rparr>) e1))"

definition close_pool :: "unit pool_io" where
  "close_pool e =
     (if bp_lifecycle (en_pool e) = kPoolClosed then (Inr (), e)
      else if bp_lifecycle (en_pool e) = kPoolClosing then (Inl (pool_invalid ''BufferPool is closing''), e)
      else if list_ex (\<lambda>frame. fr_pin_count frame \<noteq> 0) (bp_frames (en_pool e)) then
        (Inl (pool_invalid ''cannot close BufferPool with active PageGuards''), e)
      else case flush_all_locked e of
        (Inl error, e1) \<Rightarrow> (Inl error, e1)
      | (Inr _, e1) \<Rightarrow>
          (Inr (), change_pool (\<lambda>pool. pool\<lparr>bp_frames := map reset_to_free (bp_frames pool), bp_page_table := Map.empty,
             bp_order := [], bp_lifecycle := kPoolClosed\<rparr>) e1))"

end
