(* ===== verification/Slot_Store.thy ===== *)
theory Slot_Store
  imports Main
begin

text \<open>
  The contract a page of records gives its clients, as an interface: a well-formed store behaves like
  a finite map from handles to payloads, and a handle that was erased stays invalid whatever
  happens to the store afterwards. \<open>Slotted_Page\<close> provides it for \<open>SlottedPage\<close>; \<open>Record_Page\<close>
  and the heap table rely on it.
\<close>

locale slot_store =
  fixes wf :: "'p \<Rightarrow> bool"
    and lookup :: "'p \<Rightarrow> 'h \<Rightarrow> 'b option"
    and stale :: "'p \<Rightarrow> 'h \<Rightarrow> bool"
    and insert_into :: "'p \<Rightarrow> 'b \<Rightarrow> 'e + 'p \<times> 'h"
    and replace_in :: "'p \<Rightarrow> 'h \<Rightarrow> 'b \<Rightarrow> 'e + 'p"
    and erase_from :: "'p \<Rightarrow> 'h \<Rightarrow> 'e + 'p"
  assumes insert_law: "wf p \<Longrightarrow> insert_into p b = Inr (q, h) \<Longrightarrow>
      wf q \<and> lookup p h = None \<and> \<not> stale p h \<and> lookup q = (lookup p)(h \<mapsto> b)"
    and replace_law: "wf p \<Longrightarrow> replace_in p h b = Inr q \<Longrightarrow>
      wf q \<and> lookup p h \<noteq> None \<and> lookup q = (lookup p)(h \<mapsto> b)"
    and erase_law: "wf p \<Longrightarrow> erase_from p h = Inr q \<Longrightarrow>
      wf q \<and> lookup p h \<noteq> None \<and> lookup q = (lookup p)(h := None) \<and> stale q h"
    and stale_lookup: "stale p h \<Longrightarrow> lookup p h = None"
    and insert_stale: "wf p \<Longrightarrow> insert_into p b = Inr (q, h) \<Longrightarrow> stale p h' \<Longrightarrow> stale q h'"
    and replace_stale: "wf p \<Longrightarrow> replace_in p h b = Inr q \<Longrightarrow> stale p h' \<Longrightarrow> stale q h'"
    and erase_stale: "wf p \<Longrightarrow> erase_from p h = Inr q \<Longrightarrow> stale p h' \<Longrightarrow> stale q h'"
begin

text \<open>One successful operation on the store; its closure is everything that can happen to it.\<close>

inductive step :: "'p \<Rightarrow> 'p \<Rightarrow> bool" where
  step_insert: "insert_into p b = Inr (q, h) \<Longrightarrow> step p q"
| step_replace: "replace_in p h b = Inr q \<Longrightarrow> step p q"
| step_erase: "erase_from p h = Inr q \<Longrightarrow> step p q"

lemma step_keeps:
  assumes "step p q" "wf p"
  shows "wf q" "stale p h \<Longrightarrow> stale q h"
  using assms
  by (cases; auto dest: insert_law replace_law erase_law insert_stale replace_stale erase_stale)+

lemma steps_keep: "step\<^sup>*\<^sup>* p q \<Longrightarrow> wf p \<Longrightarrow> wf q \<and> (stale p h \<longrightarrow> stale q h)"
  by (induction rule: rtranclp_induct) (auto dest: step_keeps)

lemma erased_stays_invalid:
  assumes "wf p" "erase_from p h = Inr q" "step\<^sup>*\<^sup>* q r"
  shows "lookup r h = None"
  using assms steps_keep [OF assms(3)] erase_law by (blast dest: stale_lookup)

lemma erased_not_reissued:
  assumes "wf p" "erase_from p h = Inr q" "step\<^sup>*\<^sup>* q r" "insert_into r b = Inr (s, h')"
  shows "h' \<noteq> h"
  using assms steps_keep [OF assms(3)] erase_law insert_law by blast

lemma lookup_insert:
  "wf p \<Longrightarrow> insert_into p b = Inr (q, h) \<Longrightarrow> lookup q h' = (if h' = h then Some b else lookup p h')"
  by (auto dest: insert_law)

lemma lookup_replace:
  "wf p \<Longrightarrow> replace_in p h b = Inr q \<Longrightarrow> lookup q h' = (if h' = h then Some b else lookup p h')"
  by (auto dest: replace_law)

lemma lookup_erase:
  "wf p \<Longrightarrow> erase_from p h = Inr q \<Longrightarrow> lookup q h' = (if h' = h then None else lookup p h')"
  by (auto dest: erase_law)

end

end
