(* ===== verification/Page_Directory.thy ===== *)
theory Page_Directory
  imports Slotted_Page Slot_Store
begin

text \<open>
  The slot directory of a page as an abstract list of slot states, and the proof that the byte-level
  operations of \<open>Slotted_Page\<close> implement it: each operation on a valid page either fails with the
  error the specification names or yields a valid page whose directory is the specified one. The
  theory ends with the interpretation of the \<open>slot_store\<close> interface on these operations.
\<close>

subsection \<open>The abstract slot directory\<close>

datatype slot_state = SlotFree u16 | SlotRetired | SlotLive u16 "byte list"

definition slot_state_of :: "RawPage \<Rightarrow> SlotEntry \<Rightarrow> slot_state" where
  "slot_state_of p s =
     (if se_flags s = kSlotOccupied then SlotLive (se_generation s) (slot_payload p s)
      else if se_flags s = kSlotRetired then SlotRetired else SlotFree (se_generation s))"

definition abs_page :: "RawPage \<Rightarrow> slot_state list" where
  "abs_page p = map (slot_state_of p) (page_slots p)"

fun state_bytes :: "slot_state \<Rightarrow> nat" where
  "state_bytes (SlotLive _ b) = length b"
| "state_bytes _ = 0"

definition used_bytes :: "slot_state list \<Rightarrow> nat" where
  "used_bytes ss = kSlottedPageHeaderSize + length ss * kSlotEntrySize + sum_list (map state_bytes ss)"

fun is_free :: "slot_state \<Rightarrow> bool" where
  "is_free (SlotFree _) = True"
| "is_free _ = False"

fun state_generation :: "slot_state \<Rightarrow> u16" where
  "state_generation (SlotFree g) = g"
| "state_generation (SlotLive g _) = g"
| "state_generation SlotRetired = - 1"

definition spec_allocate :: "slot_state list \<Rightarrow> byte list \<Rightarrow> (slot_state list \<times> SlotHandle) option" where
  "spec_allocate ss b =
     (case find (\<lambda>i. is_free (ss ! i)) [0..<length ss] of
        Some i \<Rightarrow>
          if used_bytes ss + length b \<le> kPageSize then
            let g = state_generation (ss ! i) + 1 in
            Some (ss[i := SlotLive g b], \<lparr>sh_slot_id = word_of_nat i, sh_generation = g\<rparr>)
          else None
      | None \<Rightarrow>
          if length ss < kMaxSlotsPerPage \<and> used_bytes ss + kSlotEntrySize + length b \<le> kPageSize then
            Some (ss @ [SlotLive 1 b], \<lparr>sh_slot_id = word_of_nat (length ss), sh_generation = 1\<rparr>)
          else None)"

lemma tiles_sum:
  "tiles a rs b \<Longrightarrow> a + (\<Sum>r\<leftarrow>rs. unat (rg_end r) - unat (rg_begin r)) = b"
  by (induction rs arbitrary: a) (force simp: word_less_nat_alt)+

lemma tiles_sorted:
  "tiles a rs b \<Longrightarrow> sorted_wrt (<) (map rg_begin rs) \<and> (\<forall>r \<in> set rs. a \<le> unat (rg_begin r))"
  by (induction rs arbitrary: a) (force simp: word_less_nat_alt)+

lemma tiles_append: "tiles a (xs @ ys) c \<longleftrightarrow> (\<exists>b. tiles a xs b \<and> tiles b ys c)"
  by (induction xs arbitrary: a) auto

lemma unat_slot_end:
  assumes "slot_ok fl fu s" "slot_live s"
  shows "unat (se_record_offset s + se_record_length s) = unat (se_record_offset s) + unat (se_record_length s)"
    "se_record_offset s < se_record_offset s + se_record_length s"
proof -
  have "unat (se_record_offset s) + unat (se_record_length s) < 2 ^ LENGTH(16)"
    using assms by (simp add: slot_ok_def slot_live_def page_constants)
  then show e: "unat (se_record_offset s + se_record_length s)
      = unat (se_record_offset s) + unat (se_record_length s)"
    by (rule unat_add_lem [THEN iffD1])
  show "se_record_offset s < se_record_offset s + se_record_length s"
    using assms by (simp add: word_less_nat_alt e slot_ok_def slot_live_def unat_gt_0)
qed

lemma sum_list_filter_live:
  "sum_list (map (state_bytes \<circ> slot_state_of p) ss)
     = (\<Sum>s\<leftarrow>filter slot_live ss. unat (se_record_length s))"
  by (induction ss) (auto simp: slot_state_of_def slot_live_def slot_payload_def)

lemma length_page_slots: "length (page_slots p) = unat (get_u16 p kSlotCountOffset)"
  by (simp add: page_slots_def)

lemma page_slots_nth: "i < length (page_slots p) \<Longrightarrow> page_slots p ! i = read_slot p i"
  by (simp add: page_slots_def)

lemma length_abs_page [simp]: "length (abs_page p) = length (page_slots p)"
  by (simp add: abs_page_def)

lemma page_ok_used:
  assumes "page_ok p pid"
  shows "used_bytes (abs_page p) + unat (get_u16 p kFreeUpperOffset)
    = unat (get_u16 p kFreeLowerOffset) + kPageSize"
proof -
  let ?fu = "unat (get_u16 p kFreeUpperOffset)"
  let ?live = "filter slot_live (page_slots p)"
  let ?len = "\<lambda>r. unat (rg_end r) - unat (rg_begin r)"
  have ok: "list_all (slot_ok (unat (get_u16 p kFreeLowerOffset)) ?fu) (page_slots p)"
    and t: "tiles ?fu (sort_key rg_begin (map slot_range ?live)) kPageSize"
    using assms unfolding page_ok_def by blast+
  have "map ?len (map slot_range ?live) = map (\<lambda>s. unat (se_record_length s)) ?live"
    using ok by (auto simp: list_all_iff slot_range_def unat_slot_end)
  then have "(\<Sum>r\<leftarrow>map slot_range ?live. ?len r) = (\<Sum>s\<leftarrow>?live. unat (se_record_length s))"
    by (rule arg_cong)
  with tiles_sum [OF t] have "?fu + (\<Sum>s\<leftarrow>?live. unat (se_record_length s)) = kPageSize"
    by (simp only: sum_list_sort_key)
  then show ?thesis
    using assms
    by (simp add: used_bytes_def abs_page_def sum_list_filter_live page_ok_def length_page_slots)
qed

lemma header_ok_cong:
  assumes "\<And>i. i < 12 \<or> (20 \<le> i \<and> i < 32) \<Longrightarrow> p i = q i"
  shows "header_ok p pid \<longleftrightarrow> header_ok q pid"
proof -
  have "has_magic p \<longleftrightarrow> has_magic q" using assms by (auto simp: has_magic_def list_all_iff page_constants)
  moreover have "get_u16 p kVersionOffset = get_u16 q kVersionOffset"
    "get_u16 p kHeaderSizeOffset = get_u16 q kHeaderSizeOffset"
    using assms by (auto simp: page_constants intro!: get_u16_cong)
  moreover have "get_u32 p kPageIdOffset = get_u32 q kPageIdOffset"
    by (rule get_u32_cong) (simp add: assms page_constants)
  ultimately show ?thesis using assms by (auto simp: header_ok_def page_constants)
qed

lemma get_u16_write_slot [layout_simps]: "k + 1 < 32 \<Longrightarrow> get_u16 (write_slot p i s) k = get_u16 p k"
  by (rule get_u16_cong) (auto simp: write_slot_other)

lemma get_u16_copy [layout_simps]: "k + 1 < off \<Longrightarrow> get_u16 (copy_bytes p off bs) k = get_u16 p k"
  by (rule get_u16_cong) (auto simp: copy_bytes_outside)

lemma read_slot_put [layout_simps]: "k + 1 < 32 \<Longrightarrow> read_slot (put_u16 p k v) i = read_slot p i"
  by (rule read_slot_cong) auto

lemma read_slot_copy [layout_simps]:
  "40 + i * 8 \<le> off \<Longrightarrow> read_slot (copy_bytes p off bs) i = read_slot p i"
  by (rule read_slot_cong) (auto simp: copy_bytes_outside)

lemma slot_ok_mono:
  "slot_ok fl fu s \<Longrightarrow> fl' \<le> fu' \<Longrightarrow> fu' \<le> fu \<Longrightarrow> slot_ok fl' fu' s"
  by (auto simp: slot_ok_def)

lemma sort_key_tiles:
  assumes "mset xs = mset ys" and "tiles a ys b"
  shows "sort_key rg_begin xs = ys"
proof -
  have "sorted (map rg_begin ys) \<and> distinct (map rg_begin ys)"
    using tiles_sorted [OF assms(2)] by (simp add: strict_sorted_iff)
  with assms(1) show ?thesis by (blast intro: sort_key_distinctI)
qed

lemma page_ok_add_live:
  assumes ok: "page_ok p pid" and hq: "header_ok q pid"
    and sc: "unat (get_u16 q kSlotCountOffset) \<le> kMaxSlotsPerPage"
    and fl: "unat (get_u16 q kFreeLowerOffset)
         = kSlottedPageHeaderSize + unat (get_u16 q kSlotCountOffset) * kSlotEntrySize"
      "unat (get_u16 q kFreeLowerOffset) \<le> unat (get_u16 q kFreeUpperOffset)"
    and fu: "unat (get_u16 q kFreeUpperOffset) + unat (se_record_length s) = unat (get_u16 p kFreeUpperOffset)"
    and s: "slot_live s" "se_record_offset s = get_u16 q kFreeUpperOffset" "se_record_length s \<noteq> 0"
      "se_generation s \<noteq> 0"
    and ms: "mset (filter slot_live (page_slots q)) = add_mset s (mset (filter slot_live (page_slots p)))"
    and others: "set (page_slots q) \<subseteq> insert s (set (page_slots p))"
    and lc: "unat (get_u16 q kLiveCountOffset) = Suc (unat (get_u16 p kLiveCountOffset))"
  shows "page_ok q pid"
proof -
  let ?live = "\<lambda>x. filter slot_live (page_slots x)"
  let ?fu = "\<lambda>x. unat (get_u16 x kFreeUpperOffset)" and ?fl = "\<lambda>x. unat (get_u16 x kFreeLowerOffset)"
  have okp: "list_all (slot_ok (?fl p) (?fu p)) (page_slots p)"
    and t: "tiles (?fu p) (sort_key rg_begin (map slot_range (?live p))) kPageSize"
    and lcp: "unat (get_u16 p kLiveCountOffset) = length (?live p)"
    using ok unfolding page_ok_def by blast+
  have "?fu p \<le> kPageSize" using tiles_le [OF t] .
  then have slot: "slot_ok (?fl q) (?fu q) s"
    using s fl fu by (auto simp: slot_ok_def slot_live_def)
  moreover have "slot_ok (?fl q) (?fu q) x" if "x \<in> set (page_slots p)" for x
    using that okp fl(2) fu slot_ok_mono [of "?fl p" "?fu p" x "?fl q" "?fu q"]
    by (simp add: list_all_iff)
  ultimately have "list_all (slot_ok (?fl q) (?fu q)) (page_slots q)"
    using others by (auto simp: list_all_iff)
  moreover have "tiles (?fu q) (slot_range s # sort_key rg_begin (map slot_range (?live p))) kPageSize"
    using t fu s unat_slot_end [OF slot s(1)] by (simp add: slot_range_def)
  moreover from this have "sort_key rg_begin (map slot_range (?live q))
      = slot_range s # sort_key rg_begin (map slot_range (?live p))"
    by (rule sort_key_tiles [rotated]) (simp only: mset_map mset_sort mset.simps ms image_mset_add_mset)
  moreover have "length (?live q) = Suc (length (?live p))"
    using arg_cong [OF ms, of size] by (simp only: size_mset size_add_mset)
  ultimately show ?thesis
    using hq sc fl lc lcp unfolding page_ok_def by simp
qed

lemma page_ok_room:
  assumes "page_ok p pid"
  shows "length (page_slots p) \<le> kMaxSlotsPerPage"
    "unat (get_u16 p kFreeLowerOffset) = 32 + length (page_slots p) * 8"
    "unat (get_u16 p kFreeLowerOffset) \<le> unat (get_u16 p kFreeUpperOffset)"
    "unat (get_u16 p kFreeUpperOffset) \<le> kPageSize"
    "unat (get_u16 p kFreeUpperOffset) - unat (get_u16 p kFreeLowerOffset) = kPageSize - used_bytes (abs_page p)"
    "used_bytes (abs_page p) \<le> kPageSize"
proof -
  show "length (page_slots p) \<le> kMaxSlotsPerPage"
    and "unat (get_u16 p kFreeLowerOffset) = 32 + length (page_slots p) * 8"
    and l: "unat (get_u16 p kFreeLowerOffset) \<le> unat (get_u16 p kFreeUpperOffset)"
    using assms unfolding page_ok_def length_page_slots by (auto simp: page_constants)
  show u: "unat (get_u16 p kFreeUpperOffset) \<le> kPageSize"
    using assms unfolding page_ok_def by (blast dest: tiles_le)
  from page_ok_used [OF assms] l u
  show "unat (get_u16 p kFreeUpperOffset) - unat (get_u16 p kFreeLowerOffset) = kPageSize - used_bytes (abs_page p)"
    and "used_bytes (abs_page p) \<le> kPageSize" by linarith+
qed

lemma page_ok_slot: "page_ok p pid \<Longrightarrow> s \<in> set (page_slots p) \<Longrightarrow>
    slot_ok (unat (get_u16 p kFreeLowerOffset)) (unat (get_u16 p kFreeUpperOffset)) s"
  by (auto simp: page_ok_def list_all_iff)

lemma is_free_iff:
  assumes "page_ok p pid" and "i < length (page_slots p)"
  shows "is_free (abs_page p ! i) \<longleftrightarrow>
    se_flags (read_slot p i) = 0 \<and> se_generation (read_slot p i) < - 1"
proof -
  have "slot_ok (unat (get_u16 p kFreeLowerOffset)) (unat (get_u16 p kFreeUpperOffset)) (read_slot p i)"
    using page_ok_slot [OF assms(1)] assms(2) nth_mem [of i "page_slots p"] by (simp add: page_slots_nth)
  moreover have "g < - 1 \<longleftrightarrow> g \<noteq> - 1" for g :: u16
    by (metis word_n1_ge order.not_eq_order_implies_strict order_less_irrefl)
  ultimately show ?thesis
    using assms(2)
    by (auto simp: abs_page_def page_slots_nth slot_state_of_def slot_ok_def page_constants split: if_splits)
qed

lemma find_reusable_abs:
  assumes "page_ok p pid"
  shows "find_reusable p (unat (get_u16 p kSlotCountOffset)) = find (\<lambda>i. is_free (abs_page p ! i)) [0..<length (abs_page p)]"
  unfolding find_reusable_def length_abs_page length_page_slots
  by (rule find_cong) (simp_all add: is_free_iff [OF assms] length_page_slots)

lemma abs_page_live_cong:
  assumes "page_ok p pid" and "\<And>k. unat (get_u16 p kFreeUpperOffset) \<le> k \<Longrightarrow> k < kPageSize \<Longrightarrow> q k = p k"
    and "s \<in> set (page_slots p)"
  shows "slot_state_of q s = slot_state_of p s"
proof (cases "slot_live s")
  case True
  then have "unat (get_u16 p kFreeUpperOffset) \<le> unat (se_record_offset s)"
      "unat (se_record_offset s) + unat (se_record_length s) \<le> kPageSize"
    using page_ok_slot [OF assms(1,3)] by (simp_all add: slot_ok_def slot_live_def)
  then have "slot_payload q s = slot_payload p s"
    unfolding slot_payload_def by (intro page_bytes_cong assms(2)) simp_all
  then show ?thesis by (simp add: slot_state_of_def)
next
  case False
  then show ?thesis by (simp add: slot_state_of_def slot_live_def)
qed

definition put_slot :: "'a list \<Rightarrow> nat \<Rightarrow> 'a \<Rightarrow> 'a list" where
  "put_slot xs i x = (if i < length xs then xs[i := x] else xs @ [x])"

lemma length_put_slot: "i \<le> length xs \<Longrightarrow> length (put_slot xs i x) = max (length xs) (Suc i)"
  by (auto simp: put_slot_def)

lemma nth_put_slot: "i \<le> length xs \<Longrightarrow> j < length (put_slot xs i x) \<Longrightarrow>
    put_slot xs i x ! j = (if j = i then x else xs ! j)"
  by (auto simp: put_slot_def nth_append split: if_splits)

lemma map_put_slot: "map f (put_slot xs i x) = put_slot (map f xs) i (f x)"
  by (simp add: put_slot_def map_update)

lemma mset_filter_put_slot:
  assumes "i \<le> length xs" "P x" "i < length xs \<Longrightarrow> \<not> P (xs ! i)"
  shows "mset (filter P (put_slot xs i x)) = add_mset x (mset (filter P xs))"
proof (cases "i < length xs")
  case True
  then have "filter P xs = filter P (take i xs) @ filter P (drop (Suc i) xs)"
    using assms(3) by (metis filter.simps(2) filter_append id_take_nth_drop)
  then show ?thesis using True assms(2) by (simp add: put_slot_def upd_conv_take_nth_drop)
next
  case False
  then show ?thesis using assms by (simp add: put_slot_def)
qed

lemma insert_updated:
  fixes p pid b g lc' target
  defines "slots \<equiv> page_slots p" and "fu \<equiv> get_u16 p kFreeUpperOffset"
  defines "n' \<equiv> max (length slots) (Suc target)"
  defines "s \<equiv> \<lparr>se_record_offset = fu - word_of_nat (length b), se_record_length = word_of_nat (length b),
        se_generation = g, se_flags = kSlotOccupied\<rparr>"
  defines "base \<equiv> (if target < length slots then p else
      put_u16 (put_u16 p kSlotCountOffset (get_u16 p kSlotCountOffset + 1))
        kFreeLowerOffset (get_u16 p kFreeLowerOffset + word_of_nat kSlotEntrySize))"
  defines "q \<equiv> insert_slot_at p (target < length slots) target g b"
  assumes ok: "page_ok p pid" and b: "b \<noteq> []" "length b \<le> kMaxRecordPayloadBytes" and g: "g \<noteq> 0"
    and target: "target \<le> length slots" "target < kMaxSlotsPerPage"
      "target < length slots \<Longrightarrow> \<not> slot_live (slots ! target)"
    and room: "32 + n' * 8 + length b \<le> unat fu"
  shows "page_ok q pid \<and> abs_page q = put_slot (abs_page p) target (SlotLive g b)"
proof -
  note rm = page_ok_room [OF ok]
  have q_def: "q = put_u16 (put_u16 (write_slot (copy_bytes base (unat (se_record_offset s)) b) target s)
        kLiveCountOffset (get_u16 p kLiveCountOffset + 1)) kFreeUpperOffset (se_record_offset s)"
    by (simp add: q_def insert_slot_at_def base_def s_def fu_def Let_def)
  have n': "n' \<le> kMaxSlotsPerPage" using target rm(1) by (auto simp: n'_def slots_def)
  have off: "unat (se_record_offset s) = unat fu - length b"
    using room by (simp add: s_def unat_minus_small)
  have len: "unat (se_record_length s) = length b"
    using b by (simp add: s_def unat_word_small kMaxRecordPayloadBytes_def)
  have lo: "32 + n' * 8 \<le> unat (se_record_offset s)" using room off by linarith
  have above: "40 + target * 8 \<le> unat (se_record_offset s)" using lo n'_def by (simp add: max_def split: if_splits)
  have sc: "unat (get_u16 q kSlotCountOffset) = n'"
    using target lo rm(1) n' unat_plus_small [of "get_u16 p kSlotCountOffset" 1]
    by (auto simp: q_def base_def n'_def slots_def length_page_slots page_constants layout_simps)
  have fl: "unat (get_u16 q kFreeLowerOffset) = 32 + n' * 8"
    using target lo rm n' unat_plus_small [of "get_u16 p kFreeLowerOffset" 8]
    by (auto simp: q_def base_def n'_def slots_def page_constants layout_simps)
  have fuq: "get_u16 q kFreeUpperOffset = se_record_offset s" by (simp add: q_def)
  have rd: "read_slot q i = (if i = target then s else read_slot p i)" if "i < n'" for i
    using that lo n'_def
    by (auto simp: q_def base_def read_write_slot layout_simps page_constants)
  have slots: "page_slots q = put_slot slots target s"
  proof (rule nth_equalityI)
    show "length (page_slots q) = length (put_slot slots target s)"
      using target by (simp add: length_page_slots sc length_put_slot n'_def)
    fix i assume i: "i < length (page_slots q)"
    then have "i < n'" by (simp add: length_page_slots sc)
    with i show "page_slots q ! i = put_slot slots target s ! i"
      using target rd by (auto simp: page_slots_nth nth_put_slot length_put_slot n'_def slots_def)
  qed
  have bytes: "q k = p k" if "k < 12 \<or> (20 \<le> k \<and> k < 32) \<or> unat fu \<le> k" for k
    using that lo room off by (auto simp: q_def base_def page_constants write_slot_other copy_bytes_outside n'_def)
  have "header_ok q pid \<longleftrightarrow> header_ok p pid"
    by (rule header_ok_cong) (use bytes in blast)
  then have hq: "header_ok q pid" using ok by (simp add: page_ok_def)
  have "unat (get_u16 p kLiveCountOffset) \<le> kMaxSlotsPerPage"
    using ok rm(1) length_filter_le [of slot_live "page_slots p"] unfolding page_ok_def by linarith
  then have lc: "unat (get_u16 q kLiveCountOffset) = Suc (unat (get_u16 p kLiveCountOffset))"
    using unat_plus_small [of "get_u16 p kLiveCountOffset" 1]
    by (simp add: q_def page_constants layout_simps)
  have live: "slot_live s" by (simp add: s_def slot_live_def)
  have ms: "mset (filter slot_live (page_slots q)) = add_mset s (mset (filter slot_live (page_slots p)))"
    unfolding slots slots_def [symmetric] by (rule mset_filter_put_slot) (use target live in auto)
  have others: "set (page_slots q) \<subseteq> insert s (set (page_slots p))"
    unfolding slots slots_def [symmetric]
    by (auto simp: put_slot_def dest: set_update_subset_insert [THEN subsetD])
  have "page_ok q pid"
  proof (rule page_ok_add_live [OF ok hq _ _ _ _ live fuq [symmetric] _ _ ms others lc])
    show "unat (get_u16 q kFreeUpperOffset) + unat (se_record_length s) = unat (get_u16 p kFreeUpperOffset)"
      using fuq off len room by (simp add: fu_def)
    show "se_record_length s \<noteq> 0" using len b by (auto simp: unat_eq_0 [symmetric])
  qed (use n' lo sc fl fuq g in \<open>simp_all add: page_constants s_def\<close>)
  moreover have "abs_page q = put_slot (abs_page p) target (SlotLive g b)"
  proof -
    have "slot_payload q s = page_bytes (copy_bytes base (unat (se_record_offset s)) b)
        (unat (se_record_offset s)) (length b)"
      unfolding slot_payload_def len
      using above by (intro page_bytes_cong) (simp add: q_def page_constants write_slot_other)
    then have "slot_payload q s = b" by simp
    then have "slot_state_of q s = SlotLive g b" by (simp add: slot_state_of_def s_def)
    moreover have "map (slot_state_of q) slots = map (slot_state_of p) slots"
      using bytes by (auto simp: slots_def fu_def intro!: abs_page_live_cong [OF ok])
    ultimately show ?thesis unfolding abs_page_def slots map_put_slot slots_def [symmetric] by (simp only:)
  qed
  ultimately show ?thesis by blast
qed

lemma insert_payload_eq:
  assumes ok: "page_ok p pid" and b: "b \<noteq> []" "length b \<le> kMaxRecordPayloadBytes"
  shows "find (\<lambda>i. is_free (abs_page p ! i)) [0..<length (abs_page p)] = Some i \<Longrightarrow>
      used_bytes (abs_page p) + length b \<le> kPageSize \<Longrightarrow>
      page_ok (insert_slot_at p True i (se_generation (read_slot p i) + 1) b) pid \<Longrightarrow>
      insert_payload p pid b = Inr (insert_slot_at p True i (se_generation (read_slot p i) + 1) b,
        \<lparr>sh_slot_id = word_of_nat i, sh_generation = se_generation (read_slot p i) + 1\<rparr>)"
    and "find (\<lambda>i. is_free (abs_page p ! i)) [0..<length (abs_page p)] = None \<Longrightarrow>
      length (page_slots p) < kMaxSlotsPerPage \<Longrightarrow>
      used_bytes (abs_page p) + kSlotEntrySize + length b \<le> kPageSize \<Longrightarrow>
      page_ok (insert_slot_at p False (length (page_slots p)) 1 b) pid \<Longrightarrow>
      insert_payload p pid b = Inr (insert_slot_at p False (length (page_slots p)) 1 b,
        \<lparr>sh_slot_id = word_of_nat (length (page_slots p)), sh_generation = 1\<rparr>)"
    and "spec_allocate (abs_page p) b = None \<Longrightarrow>
      \<exists>m. insert_payload p pid b = Inl (SlottedPageError PageNoSpace m)"
proof -
  note rm = page_ok_room [OF ok]
  have v: "validate p pid = None" using ok by (simp add: validate_iff)
  have room: "unat (get_u16 p kFreeUpperOffset) - unat (get_u16 p kFreeLowerOffset) < k \<longleftrightarrow>
      \<not> used_bytes (abs_page p) + k \<le> kPageSize" for k
    using rm(5,6) by linarith
  have pre: "\<not> (b = [] \<or> kMaxRecordPayloadBytes < length b)" using b by simp
  define f where "f = find (\<lambda>i. is_free (abs_page p ! i)) [0..<length (abs_page p)]"
  note unf = insert_payload_def if_not_P [OF pre] v option.case Let_def
    find_reusable_abs [OF ok, folded f_def] room
  show "insert_payload p pid b = Inr (insert_slot_at p True i (se_generation (read_slot p i) + 1) b,
        \<lparr>sh_slot_id = word_of_nat i, sh_generation = se_generation (read_slot p i) + 1\<rparr>)"
    if "find (\<lambda>i. is_free (abs_page p ! i)) [0..<length (abs_page p)] = Some i"
      "used_bytes (abs_page p) + length b \<le> kPageSize"
      "page_ok (insert_slot_at p True i (se_generation (read_slot p i) + 1) b) pid"
    using that unfolding unf f_def [symmetric] by simp
  show "insert_payload p pid b = Inr (insert_slot_at p False (length (page_slots p)) 1 b,
        \<lparr>sh_slot_id = word_of_nat (length (page_slots p)), sh_generation = 1\<rparr>)"
    if "find (\<lambda>i. is_free (abs_page p ! i)) [0..<length (abs_page p)] = None"
      "length (page_slots p) < kMaxSlotsPerPage"
      "used_bytes (abs_page p) + kSlotEntrySize + length b \<le> kPageSize"
      "page_ok (insert_slot_at p False (length (page_slots p)) 1 b) pid"
    using that unfolding unf f_def [symmetric]
    by (simp add: length_page_slots add.assoc add.commute)
  show "\<exists>m. insert_payload p pid b = Inl (SlottedPageError PageNoSpace m)"
    if "spec_allocate (abs_page p) b = None"
    using that unfolding unf spec_allocate_def f_def [symmetric]
    by (auto simp: length_page_slots add.assoc add.commute split: option.splits if_splits)
qed

lemma insert_payload_refines:
  assumes ok: "page_ok p pid" and b: "b \<noteq> []" "length b \<le> kMaxRecordPayloadBytes"
  shows "case spec_allocate (abs_page p) b of
      None \<Rightarrow> (\<exists>m. insert_payload p pid b = Inl (SlottedPageError PageNoSpace m))
    | Some (ss, h) \<Rightarrow> (\<exists>q. insert_payload p pid b = Inr (q, h) \<and> page_ok q pid \<and> abs_page q = ss)"
proof (cases "spec_allocate (abs_page p) b")
  case None
  then show ?thesis using insert_payload_eq(3) [OF ok b] by simp
next
  case spec: (Some r)
  note rm = page_ok_room [OF ok]
  let ?f = "find (\<lambda>i. is_free (abs_page p ! i)) [0..<length (abs_page p)]"
  show ?thesis
  proof (cases ?f)
    case (Some i)
    then have i: "i < length (page_slots p)" "is_free (abs_page p ! i)" by (auto dest: find_upt_Some)
    have fits: "used_bytes (abs_page p) + length b \<le> kPageSize"
      using spec Some by (auto simp: spec_allocate_def split: if_splits)
    have gen: "state_generation (abs_page p ! i) = se_generation (read_slot p i)"
      and notlive: "\<not> slot_live (page_slots p ! i)"
      using i by (auto simp: abs_page_def page_slots_nth slot_state_of_def slot_live_def split: if_splits)
    have g: "se_generation (read_slot p i) + 1 \<noteq> 0" using i is_free_iff [OF ok i(1)]
      by (metis add_eq_0_iff2 order_less_irrefl)
    have "32 + max (length (page_slots p)) (Suc i) * 8 + length b \<le> unat (get_u16 p kFreeUpperOffset)"
      using fits i(1) rm by (subst max_absorb1) linarith+
    with insert_updated [OF ok b g, of i] i rm(1) notlive
    have "page_ok (insert_slot_at p True i (se_generation (read_slot p i) + 1) b) pid
        \<and> abs_page (insert_slot_at p True i (se_generation (read_slot p i) + 1) b)
          = (abs_page p)[i := SlotLive (se_generation (read_slot p i) + 1) b]"
      by (simp add: put_slot_def)
    with insert_payload_eq(1) [OF ok b Some fits] show ?thesis
      using Some fits gen by (simp add: spec_allocate_def Let_def)
  next
    case None
    have fits: "length (page_slots p) < kMaxSlotsPerPage"
        "used_bytes (abs_page p) + kSlotEntrySize + length b \<le> kPageSize"
      using spec None by (auto simp: spec_allocate_def split: if_splits)
    have "32 + max (length (page_slots p)) (Suc (length (page_slots p))) * 8 + length b
        \<le> unat (get_u16 p kFreeUpperOffset)"
      using fits(2) rm by (subst max_absorb2) (simp_all add: page_constants)
    with insert_updated [OF ok b, of 1 "length (page_slots p)"] fits(1)
    have "page_ok (insert_slot_at p False (length (page_slots p)) 1 b) pid
        \<and> abs_page (insert_slot_at p False (length (page_slots p)) 1 b) = abs_page p @ [SlotLive 1 b]"
      by (simp add: put_slot_def)
    with insert_payload_eq(2) [OF ok b None fits] show ?thesis
      using None fits by (simp add: spec_allocate_def)
  qed
qed

subsection \<open>Rebuilding a page\<close>

lemma initialize_Inr: "initialize pid = Inr p \<Longrightarrow> pid \<noteq> 0"
  by (auto simp: initialize_def split: if_splits)

lemma initialize_fields:
  assumes "initialize pid = Inr p"
  shows "header_ok p pid" "get_u16 p kSlotCountOffset = 0" "get_u16 p kLiveCountOffset = 0"
    "unat (get_u16 p kFreeLowerOffset) = 32" "unat (get_u16 p kFreeUpperOffset) = 4096"
proof -
  define a where "a = put_u16 (put_u16 (copy_bytes (\<lambda>_. 0) 0 (map byte_of_char kMagic)) 4 1) 6 32"
  have pid: "pid \<noteq> 0" using assms by (rule initialize_Inr)
  have p: "p = put_u16 (put_u16 (put_u32 a 8 pid) 16 32) 18 4096"
    using assms by (auto simp: initialize_def a_def page_constants Let_def split: if_splits)
  have zero: "p i = 0" if "12 \<le> i" "i < 16 \<or> 20 \<le> i" for i
    using that by (auto simp: p a_def put_u32_bytes copy_bytes_def page_constants)
  have "get_u16 p k = get_u16 a k" if "k < 7" for k
    unfolding p using that by (intro get_u16_cong) (simp_all add: put_u32_bytes)
  then have "get_u16 p 4 = 1" "get_u16 p 6 = 32" by (simp_all add: a_def)
  moreover have "get_u32 p 8 = get_u32 (put_u32 a 8 pid) 8"
    unfolding p by (rule get_u32_cong) simp
  moreover have "p i = byte_of_char (kMagic ! i)" if "i < 4" for i
    using that by (simp add: p a_def put_u32_bytes copy_bytes_def) (simp add: page_constants)
  ultimately show "header_ok p pid"
    using pid zero by (auto simp: header_ok_def has_magic_def list_all_iff page_constants)
  have "get_u16 p k = 0" if "k = 12 \<or> k = 14" for k
    using that zero by (auto simp: get_u16_le_value le_value_def)
  then show "get_u16 p kSlotCountOffset = 0" "get_u16 p kLiveCountOffset = 0"
    by (simp_all add: page_constants)
  show "unat (get_u16 p kFreeLowerOffset) = 32" "unat (get_u16 p kFreeUpperOffset) = 4096"
    by (simp_all add: p page_constants)
qed

lemma initialize_page_ok:
  assumes "initialize pid = Inr p"
  shows "page_ok p pid" "abs_page p = []"
  using initialize_fields [OF assms]
  by (simp_all add: page_ok_def page_slots_def abs_page_def page_constants)

text \<open>What \<^const>\<open>place_slots\<close> writes: the slot entries, and the states they stand for.\<close>

fun placed :: "(nat \<Rightarrow> SlotEntry \<Rightarrow> byte list) \<Rightarrow> nat \<Rightarrow> SlotEntry list \<Rightarrow> u16 \<Rightarrow> SlotEntry list" where
  "placed c i [] cur = []"
| "placed c i (s # ss) cur =
     (if slot_live s then
        let cur' = cur - word_of_nat (length (c i s)) in
        s\<lparr>se_record_offset := cur', se_record_length := word_of_nat (length (c i s))\<rparr>
          # placed c (Suc i) ss cur'
      else s # placed c (Suc i) ss cur)"

definition new_state :: "(nat \<Rightarrow> SlotEntry \<Rightarrow> byte list) \<Rightarrow> nat \<Rightarrow> SlotEntry \<Rightarrow> slot_state" where
  "new_state c k s =
     (if slot_live s then SlotLive (se_generation s) (c k s) else slot_state_of (\<lambda>_. 0) s)"

definition new_states :: "(nat \<Rightarrow> SlotEntry \<Rightarrow> byte list) \<Rightarrow> nat \<Rightarrow> SlotEntry list \<Rightarrow> slot_state list" where
  "new_states c i ss = map2 (new_state c) [i..<i + length ss] ss"

lemma new_states_simps [simp]:
  "new_states c i [] = []"
  "new_states c i (s # ss) = new_state c i s # new_states c (Suc i) ss"
  by (simp_all add: new_states_def upt_conv_Cons del: upt_Suc)

lemma new_state_bytes [simp]: "state_bytes (new_state c k s) = (if slot_live s then length (c k s) else 0)"
  by (auto simp: new_state_def slot_state_of_def slot_live_def)

lemma slot_state_of_dead: "\<not> slot_live s \<Longrightarrow> slot_state_of p s = new_state c k s"
  by (simp add: new_state_def slot_state_of_def slot_live_def)

lemma length_placed [simp]: "length (placed c i ss cur) = length ss"
  by (induction c i ss cur rule: placed.induct) (simp_all add: Let_def)

lemma place_slots_spec:
  assumes "place_slots c i ss cur pg = (q, cur')"
    and "32 + (i + length ss) * 8 + sum_list (map state_bytes (new_states c i ss)) \<le> unat cur"
  shows "unat cur' + sum_list (map state_bytes (new_states c i ss)) = unat cur
    \<and> (\<forall>k. k < 32 + i * 8 \<or> (32 + (i + length ss) * 8 \<le> k \<and> k < unat cur') \<or> unat cur \<le> k \<longrightarrow> q k = pg k)
    \<and> map (read_slot q) [i..<i + length ss] = placed c i ss cur
    \<and> map (slot_state_of q) (placed c i ss cur) = new_states c i ss"
  using assms
proof (induction ss arbitrary: i cur pg)
  case Nil
  then show ?case by simp
next
  case (Cons s ss)
  show ?case
  proof (cases "slot_live s")
    case False
    let ?pg = "write_slot pg i s"
    have pl: "place_slots c (Suc i) ss cur ?pg = (q, cur')"
      using Cons.prems(1) False by (simp add: slot_live_def)
    have room: "32 + (Suc i + length ss) * 8 + sum_list (map state_bytes (new_states c (Suc i) ss)) \<le> unat cur"
      using Cons.prems(2) False by simp
    note ih = Cons.IH [OF pl room]
    have "read_slot q i = read_slot ?pg i"
      using ih by (intro read_slot_cong) simp
    moreover have "q k = pg k"
      if "k < 32 + i * 8 \<or> (32 + (i + length (s # ss)) * 8 \<le> k \<and> k < unat cur') \<or> unat cur \<le> k" for k
    proof -
      have "q k = ?pg k" using ih that by force
      also have "\<dots> = pg k" using that room by (intro write_slot_other) auto
      finally show ?thesis .
    qed
    ultimately show ?thesis using ih False slot_state_of_dead [OF False]
      unfolding map_upt_shift by simp
  next
    case True
    let ?b = "c i s"
    define cur1 where "cur1 = cur - word_of_nat (length ?b)"
    define s1 where "s1 = s\<lparr>se_record_offset := cur1, se_record_length := word_of_nat (length ?b)\<rparr>"
    define pg1 where "pg1 = write_slot (copy_bytes pg (unat cur1) ?b) i s1"
    have pl: "place_slots c (Suc i) ss cur1 pg1 = (q, cur')"
      using Cons.prems(1) True by (simp add: slot_live_def Let_def pg1_def cur1_def s1_def)
    have small: "length ?b < 65536"
      using Cons.prems(2) True unsigned_less [of cur, where 'a = nat] by simp
    have c1: "unat cur1 + length ?b = unat cur"
      using Cons.prems(2) True by (simp add: cur1_def unat_minus_small)
    then have room: "32 + (Suc i + length ss) * 8 + sum_list (map state_bytes (new_states c (Suc i) ss)) \<le> unat cur1"
      using Cons.prems(2) True by simp
    note ih = Cons.IH [OF pl room]
    have rd: "read_slot q i = s1"
    proof -
      have "read_slot q i = read_slot pg1 i" using ih by (intro read_slot_cong) simp
      then show ?thesis by (simp add: pg1_def)
    qed
    have out: "q k = pg k"
      if "k < 32 + i * 8 \<or> (32 + (i + length (s # ss)) * 8 \<le> k \<and> k < unat cur') \<or> unat cur \<le> k" for k
    proof -
      have le: "unat cur' \<le> unat cur1" using ih by linarith
      have "q k = pg1 k" using ih that c1 by force
      also have "\<dots> = copy_bytes pg (unat cur1) ?b k"
        unfolding pg1_def using that room c1 by (intro write_slot_other) auto
      also have "\<dots> = pg k" using that c1 le room by (intro copy_bytes_outside) auto
      finally show ?thesis .
    qed
    have "slot_payload q s1 = page_bytes (copy_bytes pg (unat cur1) ?b) (unat cur1) (length ?b)"
    proof -
      have "q k = copy_bytes pg (unat cur1) ?b k" if "unat cur1 \<le> k" for k
      proof -
        have "q k = pg1 k" using ih that by blast
        also have "\<dots> = copy_bytes pg (unat cur1) ?b k"
          unfolding pg1_def using that room by (intro write_slot_other) auto
        finally show ?thesis .
      qed
      then show ?thesis using small
        unfolding slot_payload_def s1_def by (simp add: unat_word_small page_bytes_def)
    qed
    then have st: "slot_state_of q s1 = new_state c i s"
      using True by (simp add: slot_state_of_def new_state_def slot_live_def s1_def)
    have pc: "placed c i (s # ss) cur = s1 # placed c (Suc i) ss cur1"
      using True by (simp add: s1_def cur1_def Let_def)
    have sum: "unat cur' + sum_list (map state_bytes (new_states c i (s # ss))) = unat cur"
      using ih c1 True by simp
    show ?thesis using ih sum out rd st unfolding pc map_upt_shift new_states_simps by simp
  qed
qed

lemma placed_spec:
  assumes "sum_list (map state_bytes (new_states c i ss)) \<le> unat cur" "unat cur \<le> kPageSize"
    and "\<And>k s. s \<in> set ss \<Longrightarrow> slot_live s \<Longrightarrow> c k s \<noteq> [] \<and> se_generation s \<noteq> 0"
    and "\<And>s. s \<in> set ss \<Longrightarrow> \<not> slot_live s \<Longrightarrow> slot_ok 0 0 s"
    and "fl \<le> fu" "fu + sum_list (map state_bytes (new_states c i ss)) = unat cur"
  shows "tiles fu (rev (map slot_range (filter slot_live (placed c i ss cur)))) (unat cur)
    \<and> list_all (slot_ok fl fu) (placed c i ss cur)
    \<and> length (filter slot_live (placed c i ss cur)) = length (filter slot_live ss)"
  using assms
proof (induction ss arbitrary: i cur)
  case Nil
  then show ?case by simp
next
  case (Cons s ss)
  show ?case
  proof (cases "slot_live s")
    case False
    have "slot_ok fl fu s" using Cons.prems(4) [of s] False by (simp add: slot_ok_def slot_live_def)
    then show ?thesis using Cons.IH [of "Suc i" cur] Cons.prems False by simp
  next
    case True
    let ?b = "c i s"
    define cur1 where "cur1 = cur - word_of_nat (length ?b)"
    define s1 where "s1 = s\<lparr>se_record_offset := cur1, se_record_length := word_of_nat (length ?b)\<rparr>"
    have c1: "unat cur1 + length ?b = unat cur"
      using Cons.prems(1) True by (simp add: cur1_def unat_minus_small)
    have len: "unat (se_record_length s1) = length ?b"
      using c1 Cons.prems(2) by (simp add: s1_def unat_word_small page_constants)
    have live: "slot_live s1" using True by (simp add: s1_def slot_live_def)
    have b: "?b \<noteq> []" "se_generation s \<noteq> 0" using Cons.prems(3) [of s] True by auto
    have ih: "tiles fu (rev (map slot_range (filter slot_live (placed c (Suc i) ss cur1)))) (unat cur1)
      \<and> list_all (slot_ok fl fu) (placed c (Suc i) ss cur1)
      \<and> length (filter slot_live (placed c (Suc i) ss cur1)) = length (filter slot_live ss)"
      using Cons.IH [of "Suc i" cur1] Cons.prems c1 True by simp
    have fu1: "fu \<le> unat cur1" using Cons.prems c1 True by simp
    have "se_record_length s1 \<noteq> 0" using len b by (auto simp: unat_eq_0 [symmetric])
    then have ok: "slot_ok fl fu s1"
      using fu1 c1 len live Cons.prems(2,5) b(2) by (simp add: slot_ok_def slot_live_def s1_def)
    have "tiles (unat cur1) [slot_range s1] (unat cur)"
      using unat_slot_end [OF ok live] len c1 by (simp add: slot_range_def s1_def)
    moreover have "placed c i (s # ss) cur = s1 # placed c (Suc i) ss cur1"
      using True by (simp add: s1_def cur1_def Let_def)
    ultimately show ?thesis using ih ok live True by (auto simp: tiles_append)
  qed
qed

lemma rebuild_page_ok:
  assumes u: "initialize pid = Inr u" and n: "length ss \<le> kMaxSlotsPerPage"
    and lc: "unat lc = length (filter slot_live ss)"
    and live: "\<And>k s. s \<in> set ss \<Longrightarrow> slot_live s \<Longrightarrow> c k s \<noteq> [] \<and> se_generation s \<noteq> 0"
    and dead: "\<And>s. s \<in> set ss \<Longrightarrow> \<not> slot_live s \<Longrightarrow> slot_ok 0 0 s"
    and room: "used_bytes (new_states c 0 ss) \<le> kPageSize"
    and pl: "place_slots c 0 ss (word_of_nat kPageSize)
       (put_u16 (put_u16 (put_u16 u kSlotCountOffset (word_of_nat (length ss))) kLiveCountOffset lc)
         kFreeLowerOffset (word_of_nat (kSlottedPageHeaderSize + length ss * kSlotEntrySize))) = (q, cur)"
  shows "page_ok (put_u16 q kFreeUpperOffset cur) pid
    \<and> abs_page (put_u16 q kFreeUpperOffset cur) = new_states c 0 ss
    \<and> (lc = 0 \<longrightarrow> cur = word_of_nat kPageSize)"
proof -
  let ?r = "put_u16 q kFreeUpperOffset cur" and ?pl = "placed c 0 ss (word_of_nat kPageSize)"
  let ?tot = "sum_list (map state_bytes (new_states c 0 ss))"
  define u' where "u' = put_u16 (put_u16 (put_u16 u kSlotCountOffset (word_of_nat (length ss))) kLiveCountOffset lc)
         kFreeLowerOffset (word_of_nat (kSlottedPageHeaderSize + length ss * kSlotEntrySize))"
  have four: "unat (word_of_nat kPageSize :: u16) = kPageSize" by (simp add: page_constants)
  have "length (new_states c 0 ss) = length ss" by (simp add: new_states_def)
  then have room': "32 + (0 + length ss) * 8 + ?tot \<le> unat (word_of_nat kPageSize :: u16)"
    using room four by (simp add: used_bytes_def page_constants)
  note sp = place_slots_spec [OF pl room']
  have cur: "unat cur + ?tot = kPageSize" using sp four by simp
  have lo: "32 + length ss * 8 \<le> unat cur" using cur room' unfolding four by simp
  have low: "q k = u' k" if "k < 32" for k using sp that by (simp add: u'_def)
  have g: "get_u16 ?r k = get_u16 u' k" if "k < 17" for k
  proof -
    have "get_u16 ?r k = get_u16 q k" using that by (simp add: page_constants)
    also have "\<dots> = get_u16 u' k" using that low by (intro get_u16_cong) auto
    finally show ?thesis .
  qed
  have sc: "unat (get_u16 ?r kSlotCountOffset) = length ss"
    and lcr: "get_u16 ?r kLiveCountOffset = lc"
    using g [of 12] g [of 14] n by (simp_all add: u'_def page_constants unat_word_small)
  have "get_u16 ?r kFreeLowerOffset = word_of_nat (32 + length ss * 8)"
    using g [of 16] by (simp add: u'_def page_constants)
  then have fl: "unat (get_u16 ?r kFreeLowerOffset) = kSlottedPageHeaderSize + length ss * kSlotEntrySize"
    using n by (simp only: page_constants) (rule unat_word_small, simp)
  have fu: "get_u16 ?r kFreeUpperOffset = cur" by simp
  have "map (read_slot ?r) [0..<length ss] = map (read_slot q) [0..<length ss]"
    by (rule map_cong) (simp_all add: read_slot_put page_constants)
  moreover have "map (read_slot q) [0..<length ss] = ?pl" using sp by simp
  ultimately have slots: "page_slots ?r = ?pl" unfolding page_slots_def sc by (rule trans)
  have "header_ok ?r pid \<longleftrightarrow> header_ok u pid"
  proof (rule header_ok_cong)
    fix i :: nat assume "i < 12 \<or> (20 \<le> i \<and> i < 32)"
    then show "?r i = u i" using low [of i] by (auto simp: u'_def page_constants)
  qed
  then have hd: "header_ok ?r pid" using initialize_fields(1) [OF u] by simp
  have pp: "tiles (unat cur) (rev (map slot_range (filter slot_live ?pl))) kPageSize
      \<and> list_all (slot_ok (kSlottedPageHeaderSize + length ss * kSlotEntrySize) (unat cur)) ?pl
      \<and> length (filter slot_live ?pl) = length (filter slot_live ss)"
    using placed_spec [of c 0 ss "word_of_nat kPageSize" "32 + length ss * 8" "unat cur"] cur lo live dead
    unfolding four by (simp add: page_constants)
  then have srt: "sort_key rg_begin (map slot_range (filter slot_live ?pl))
      = rev (map slot_range (filter slot_live ?pl))"
    by (intro sort_key_tiles) auto
  have ok: "page_ok ?r pid"
    unfolding page_ok_def slots srt fl fu sc lcr lc using hd n lo pp by (simp add: page_constants)
  have "abs_page ?r = map (slot_state_of q) ?pl"
  proof -
    have "slot_state_of ?r s = slot_state_of q s" if s: "s \<in> set ?pl" for s
    proof (rule sym, rule abs_page_live_cong [OF ok])
      show "s \<in> set (page_slots ?r)" using s slots by simp
      show "q k = ?r k" if "unat (get_u16 ?r kFreeUpperOffset) \<le> k" for k
        using that lo fu by (simp add: page_constants)
    qed
    then show ?thesis by (simp add: abs_page_def slots)
  qed
  moreover have "map (slot_state_of q) ?pl = new_states c 0 ss" using sp by blast
  ultimately have ab: "abs_page ?r = new_states c 0 ss" by (rule trans)
  have "cur = word_of_nat kPageSize" if "lc = 0"
  proof -
    have "filter slot_live ?pl = []" using pp lc that by simp
    then have "unat cur = kPageSize" using pp by (simp del: filter_empty_conv)
    then show ?thesis using four by (simp add: word_unat_eq_iff)
  qed
  with ok ab show ?thesis by blast
qed

subsection \<open>The slot directory as a specification\<close>

text \<open>
  What the operations mean on the abstract directory: a handle is valid when its slot is live with
  the same generation; erasing keeps the generation in the freed slot, and a slot whose generation
  is exhausted is retired for good.
\<close>

definition lookup_slot :: "slot_state list \<Rightarrow> SlotHandle \<Rightarrow> byte list option" where
  "lookup_slot ss h =
     (if unat (sh_slot_id h) < length ss then
        (case ss ! unat (sh_slot_id h) of
           SlotLive g b \<Rightarrow> if g = sh_generation h then Some b else None
         | _ \<Rightarrow> None)
      else None)"

definition payload_size_ok :: "byte list \<Rightarrow> bool" where
  "payload_size_ok b \<longleftrightarrow> b \<noteq> [] \<and> length b \<le> kMaxRecordPayloadBytes"

definition spec_get :: "slot_state list \<Rightarrow> SlotHandle \<Rightarrow> (SlottedPageErrorKind, byte list) result" where
  "spec_get ss h = (case lookup_slot ss h of None \<Rightarrow> Inl PageInvalidArgument | Some b \<Rightarrow> Inr b)"

definition spec_insert ::
  "slot_state list \<Rightarrow> byte list \<Rightarrow> (SlottedPageErrorKind, slot_state list \<times> SlotHandle) result" where
  "spec_insert ss b =
     (if \<not> payload_size_ok b then Inl PageInvalidArgument
      else case spec_allocate ss b of None \<Rightarrow> Inl PageNoSpace | Some r \<Rightarrow> Inr r)"

definition spec_replace ::
  "slot_state list \<Rightarrow> SlotHandle \<Rightarrow> byte list \<Rightarrow> (SlottedPageErrorKind, slot_state list) result" where
  "spec_replace ss h b =
     (if \<not> payload_size_ok b then Inl PageInvalidArgument
      else case lookup_slot ss h of
        None \<Rightarrow> Inl PageInvalidArgument
      | Some _ \<Rightarrow>
          let ss' = ss[unat (sh_slot_id h) := SlotLive (sh_generation h) b]
          in if used_bytes ss' \<le> kPageSize then Inr ss' else Inl PageNoSpace)"

definition released :: "u16 \<Rightarrow> slot_state" where
  "released g = (if g = - 1 then SlotRetired else SlotFree g)"

definition spec_erase ::
  "slot_state list \<Rightarrow> SlotHandle \<Rightarrow> (SlottedPageErrorKind, slot_state list) result" where
  "spec_erase ss h =
     (case lookup_slot ss h of
        None \<Rightarrow> Inl PageInvalidArgument
      | Some _ \<Rightarrow> Inr (ss[unat (sh_slot_id h) := released (sh_generation h)]))"

lemma lookup_slot_abs:
  assumes ok: "page_ok p pid"
  shows "lookup_slot (abs_page p) h =
    (if sh_slot_id h < get_u16 p kSlotCountOffset
        \<and> invalid_handle (read_slot p (unat (sh_slot_id h))) h = None
     then Some (slot_payload p (read_slot p (unat (sh_slot_id h)))) else None)"
proof (cases "unat (sh_slot_id h) < length (page_slots p)")
  case True
  let ?s = "read_slot p (unat (sh_slot_id h))"
  have "slot_ok (unat (get_u16 p kFreeLowerOffset)) (unat (get_u16 p kFreeUpperOffset)) ?s"
    using page_ok_slot [OF ok] nth_mem [OF True] by (simp add: page_slots_nth True)
  then have "se_flags ?s = kSlotOccupied \<Longrightarrow> se_generation ?s \<noteq> 0" by (simp add: slot_ok_def)
  then show ?thesis using True
    by (auto simp: lookup_slot_def abs_page_def page_slots_nth slot_state_of_def invalid_handle_def
        length_page_slots word_less_nat_alt)
next
  case False
  then show ?thesis
    by (simp add: lookup_slot_def length_page_slots word_less_nat_alt)
qed

lemma get_refines:
  assumes "page_ok p pid"
  shows "case spec_get (abs_page p) h of
      Inl k \<Rightarrow> \<exists>m. get p pid h = Inl (SlottedPageError k m)
    | Inr b \<Rightarrow> get p pid h = Inr b"
  using assms
  by (auto simp: spec_get_def get_def lookup_slot_abs [OF assms] Let_def not_le not_less slot_payload_def
      invalid_handle_def)

lemma slot_ok_weaken: "slot_ok fl fu s \<Longrightarrow> slot_ok 0 0 s"
  by (auto simp: slot_ok_def)

lemma length_new_states [simp]: "length (new_states c i ss) = length ss"
  by (simp add: new_states_def)

lemma nth_new_states: "j < length ss \<Longrightarrow> new_states c i ss ! j = new_state c (i + j) (ss ! j)"
  by (simp add: new_states_def)

text \<open>The state of the page after a rebuild that changes one slot.\<close>

lemma new_states_update:
  assumes "j < length (page_slots p)"
    and "\<And>k. k < length (page_slots p) \<Longrightarrow> k \<noteq> j \<Longrightarrow> slot_live (page_slots p ! k) \<Longrightarrow>
      c k (page_slots p ! k) = slot_payload p (page_slots p ! k)"
  shows "new_states c 0 ((page_slots p)[j := s]) = (abs_page p)[j := new_state c j s]"
proof (rule nth_equalityI)
  show "length (new_states c 0 ((page_slots p)[j := s])) = length ((abs_page p)[j := new_state c j s])"
    by simp
  fix k assume "k < length (new_states c 0 ((page_slots p)[j := s]))"
  then have k: "k < length (page_slots p)" by simp
  show "new_states c 0 ((page_slots p)[j := s]) ! k = (abs_page p)[j := new_state c j s] ! k"
  proof (cases "k = j")
    case True
    then show ?thesis using k by (simp add: nth_new_states)
  next
    case False
    then have "new_state c k (page_slots p ! k) = slot_state_of p (page_slots p ! k)"
      using assms(2) [OF k False] by (auto simp: new_state_def slot_state_of_def slot_live_def)
    then show ?thesis using k False by (simp add: nth_new_states abs_page_def)
  qed
qed

lemma page_slots_map: "map (read_slot p) [0..<length (page_slots p)] = page_slots p"
  by (simp add: page_slots_def)

lemma page_ok_live_slot:
  assumes "page_ok p pid" "x \<in> set (page_slots p)" "slot_live x"
  shows "slot_payload p x \<noteq> []" "se_generation x \<noteq> 0"
proof -
  have "se_record_length x \<noteq> 0 \<and> se_generation x \<noteq> 0"
    using page_ok_slot [OF assms(1,2)] assms(3) by (simp add: slot_ok_def slot_live_def)
  then show "slot_payload p x \<noteq> []" "se_generation x \<noteq> 0"
    by (auto simp: slot_payload_def page_bytes_def unat_eq_0)
qed

lemma used_bytes_update:
  assumes "j < length (page_slots p)"
  shows "used_bytes ((abs_page p)[j := SlotLive g b]) = kSlottedPageHeaderSize
    + length (page_slots p) * kSlotEntrySize + (length b + (\<Sum>k\<leftarrow>[0..<length (page_slots p)].
        if se_flags (page_slots p ! k) = kSlotOccupied \<and> k \<noteq> j
        then unat (se_record_length (page_slots p ! k)) else 0))"
proof -
  have "(\<Sum>k\<leftarrow>[0..<length (page_slots p)]. if k \<noteq> j then state_bytes (abs_page p ! k) else 0)
      = (\<Sum>k\<leftarrow>[0..<length (page_slots p)]. if se_flags (page_slots p ! k) = kSlotOccupied \<and> k \<noteq> j
        then unat (se_record_length (page_slots p ! k)) else 0)"
    by (intro arg_cong [where f = sum_list] map_cong)
      (auto simp: abs_page_def slot_state_of_def slot_payload_def)
  then show ?thesis using assms by (simp add: used_bytes_def sum_list_update_other)
qed

lemma initialize_ok: "pid \<noteq> 0 \<Longrightarrow> \<exists>u. initialize pid = Inr u"
  by (simp add: initialize_def Let_def)

lemma page_ok_pid: "page_ok p pid \<Longrightarrow> pid \<noteq> 0"
  by (simp add: page_ok_def header_ok_def)

lemma replace_refines:
  assumes ok: "page_ok p pid"
  shows "case spec_replace (abs_page p) h b of
      Inl k \<Rightarrow> \<exists>m. replace p pid h b = Inl (SlottedPageError k m)
    | Inr ss \<Rightarrow> \<exists>q. replace p pid h b = Inr q \<and> page_ok q pid \<and> abs_page q = ss"
proof (cases "payload_size_ok b \<and> lookup_slot (abs_page p) h \<noteq> None")
  case False
  then show ?thesis using ok
    by (auto simp: spec_replace_def replace_def payload_size_ok_def lookup_slot_abs [OF ok] Let_def
        not_le not_less invalid_handle_def word_less_nat_alt split: option.splits if_splits)
next
  case True
  let ?j = "unat (sh_slot_id h)" and ?sc = "get_u16 p kSlotCountOffset"
  let ?ss = "(abs_page p)[?j := SlotLive (sh_generation h) b]"
  define c where "c = (\<lambda>index slot. if index = ?j then b else slot_payload p slot)"
  have pre: "\<not> (b = [] \<or> kMaxRecordPayloadBytes < length b)" using True by (simp add: payload_size_ok_def)
  have j: "sh_slot_id h < ?sc" "invalid_handle (read_slot p ?j) h = None"
    using True by (auto simp: lookup_slot_abs [OF ok] split: if_splits)
  then have jl: "?j < length (page_slots p)" by (simp add: length_page_slots word_less_nat_alt)
  let ?s = "page_slots p ! ?j"
  have s: "slot_live ?s" "se_generation ?s = sh_generation h" "sh_generation h \<noteq> 0"
    using j jl by (auto simp: page_slots_nth invalid_handle_def slot_live_def split: if_splits)
  have states: "new_states c 0 (page_slots p) = ?ss"
    using new_states_update [of ?j p c ?s] jl s by (simp add: c_def new_state_def)
  note room = used_bytes_update [OF jl, of "sh_generation h" b]
  have fl: "kSlottedPageHeaderSize + length (page_slots p) * kSlotEntrySize \<le> kPageSize"
    using page_ok_room [OF ok] by (simp add: page_constants)
  have fits: "kPageSize - (kSlottedPageHeaderSize + length (page_slots p) * kSlotEntrySize)
      < length b + (\<Sum>k\<leftarrow>[0..<length (page_slots p)].
        if se_flags (page_slots p ! k) = kSlotOccupied \<and> k \<noteq> ?j
        then unat (se_record_length (page_slots p ! k)) else 0) \<longleftrightarrow> \<not> used_bytes ?ss \<le> kPageSize"
    using room fl by linarith
  have v: "validate p pid = None" using ok by simp
  obtain u where u: "initialize pid = Inr u" using initialize_ok [OF page_ok_pid [OF ok]] by blast
  define u' where "u' = put_u16 (put_u16 (put_u16 u kSlotCountOffset ?sc) kLiveCountOffset (get_u16 p kLiveCountOffset))
      kFreeLowerOffset (word_of_nat (kSlottedPageHeaderSize + length (page_slots p) * kSlotEntrySize))"
  obtain q cur where pl: "place_slots c 0 (page_slots p) (word_of_nat kPageSize) u' = (q, cur)"
    by (cases "place_slots c 0 (page_slots p) (word_of_nat kPageSize) u'")
  let ?r = "put_u16 q kFreeUpperOffset cur"
  have eq: "replace p pid h b = (if \<not> used_bytes ?ss \<le> kPageSize
      then Inl (SlottedPageError PageNoSpace ''SlottedPage has insufficient space for replacement payload'')
      else case validate ?r pid of Some e \<Rightarrow> Inl e | None \<Rightarrow> Inr ?r)"
    using j(1) unfolding replace_def if_not_P [OF pre] v option.case Let_def length_page_slots [symmetric] page_slots_map page_slots_nth [OF jl] j(2) fits u c_def [symmetric] bind_result_simps
      u'_def [symmetric] pl prod.case
    by (simp add: not_le)
  show ?thesis
  proof (cases "used_bytes ?ss \<le> kPageSize")
    case False
    then show ?thesis using True eq by (auto simp: spec_replace_def Let_def)
  next
    case fit: True
    have "page_ok ?r pid \<and> abs_page ?r = new_states c 0 (page_slots p) \<and>
        (get_u16 p kLiveCountOffset = 0 \<longrightarrow> cur = word_of_nat kPageSize)"
    proof (rule rebuild_page_ok [OF u])
      show "place_slots c 0 (page_slots p) (word_of_nat kPageSize)
       (put_u16 (put_u16 (put_u16 u kSlotCountOffset (word_of_nat (length (page_slots p)))) kLiveCountOffset
         (get_u16 p kLiveCountOffset)) kFreeLowerOffset
         (word_of_nat (kSlottedPageHeaderSize + length (page_slots p) * kSlotEntrySize))) = (q, cur)"
        using pl unfolding u'_def length_page_slots by simp
      show "used_bytes (new_states c 0 (page_slots p)) \<le> kPageSize" using fit states by simp
      show "c k x \<noteq> [] \<and> se_generation x \<noteq> 0" if "x \<in> set (page_slots p)" "slot_live x" for k x
        using page_ok_live_slot [OF ok that] pre by (simp add: c_def)
      show "slot_ok 0 0 x" if "x \<in> set (page_slots p)" "\<not> slot_live x" for x
        using page_ok_slot [OF ok that(1)] by (rule slot_ok_weaken)
    qed (use ok page_ok_room(1) [OF ok] in \<open>simp_all add: page_ok_def\<close>)
    then show ?thesis using True eq fit states by (auto simp: spec_replace_def Let_def)
  qed
qed

lemma used_bytes_released:
  "used_bytes (ss[j := released g]) \<le> used_bytes ss"
proof (cases "j < length ss")
  case True
  have "sum_list (map state_bytes ss) = sum_list (map state_bytes (ss[j := ss ! j]))" by simp
  also have "\<dots> \<ge> sum_list (map state_bytes (ss[j := released g]))"
    unfolding sum_list_update_other [OF True] by (simp add: released_def)
  finally show ?thesis by (simp add: used_bytes_def)
next
  case False
  then show ?thesis by (simp add: list_update_beyond)
qed

lemma erase_refines:
  assumes ok: "page_ok p pid"
  shows "case spec_erase (abs_page p) h of
      Inl k \<Rightarrow> \<exists>m. erase p pid h = Inl (SlottedPageError k m)
    | Inr ss \<Rightarrow> \<exists>q. erase p pid h = Inr q \<and> page_ok q pid \<and> abs_page q = ss"
proof (cases "lookup_slot (abs_page p) h = None")
  case True
  then show ?thesis using ok
    by (auto simp: spec_erase_def erase_def lookup_slot_abs [OF ok] Let_def
        not_le not_less invalid_handle_def word_less_nat_alt split: option.splits if_splits)
next
  case False
  let ?j = "unat (sh_slot_id h)" and ?sc = "get_u16 p kSlotCountOffset"
  let ?ss = "(abs_page p)[?j := released (sh_generation h)]"
  define c where "c = (\<lambda>(index::nat) slot. slot_payload p slot)"
  have j: "sh_slot_id h < ?sc" "invalid_handle (read_slot p ?j) h = None"
    using False by (auto simp: lookup_slot_abs [OF ok] split: if_splits)
  then have jl: "?j < length (page_slots p)" by (simp add: length_page_slots word_less_nat_alt)
  let ?s = "page_slots p ! ?j"
  have s: "slot_live ?s" "se_generation ?s = sh_generation h" "sh_generation h \<noteq> 0"
    using j jl by (auto simp: page_slots_nth invalid_handle_def slot_live_def split: if_splits)
  define d where "d = ?s\<lparr>se_record_offset := 0, se_record_length := 0,
      se_flags := (if se_generation ?s = - 1 then kSlotRetired else 0)\<rparr>"
  define slots where "slots = (page_slots p)[?j := d]"
  have d: "\<not> slot_live d" "slot_ok 0 0 d" "slot_state_of (\<lambda>_. 0) d = released (sh_generation h)"
    using s by (simp_all add: d_def slot_live_def slot_ok_def slot_state_of_def released_def page_constants)
  have states: "new_states c 0 slots = ?ss"
    using new_states_update [OF jl, of c d] d by (simp add: slots_def c_def new_state_def)
  let ?lc = "get_u16 p kLiveCountOffset - 1"
  have "unat (get_u16 p kLiveCountOffset) = Suc (length (filter slot_live slots))"
    using ok length_filter_update [of ?j "page_slots p" slot_live d] jl s(1) d(1)
    unfolding page_ok_def slots_def by simp
  then have lc: "unat ?lc = length (filter slot_live slots)"
    using unat_minus_small [of 1 "get_u16 p kLiveCountOffset"] by simp
  obtain u where u: "initialize pid = Inr u" using initialize_ok [OF page_ok_pid [OF ok]] by blast
  define u' where "u' = put_u16 (put_u16 (put_u16 u kSlotCountOffset ?sc) kLiveCountOffset ?lc)
      kFreeLowerOffset (word_of_nat (kSlottedPageHeaderSize + length (page_slots p) * kSlotEntrySize))"
  obtain q cur where pl: "place_slots c 0 slots (word_of_nat kPageSize) u' = (q, cur)"
    by (cases "place_slots c 0 slots (word_of_nat kPageSize) u'")
  let ?r = "put_u16 q kFreeUpperOffset cur"
  let ?fu = "if ?lc = 0 then word_of_nat kPageSize else cur"
  have v: "validate p pid = None" using ok by simp
  have eq: "erase p pid h = (case validate (put_u16 q kFreeUpperOffset ?fu) pid of
      Some e \<Rightarrow> Inl e | None \<Rightarrow> Inr (put_u16 q kFreeUpperOffset ?fu))"
    using j(1) unfolding erase_def v option.case Let_def length_page_slots [symmetric] page_slots_map page_slots_nth [OF jl] j(2) u c_def [symmetric] bind_result_simps
      d_def [symmetric, unfolded page_slots_nth [OF jl]] slots_def [symmetric] u'_def [symmetric] pl prod.case
    by (simp add: not_le)
  have "page_ok ?r pid \<and> abs_page ?r = new_states c 0 slots \<and> (?lc = 0 \<longrightarrow> cur = word_of_nat kPageSize)"
  proof (rule rebuild_page_ok [OF u])
    show "place_slots c 0 slots (word_of_nat kPageSize)
       (put_u16 (put_u16 (put_u16 u kSlotCountOffset (word_of_nat (length slots))) kLiveCountOffset ?lc)
         kFreeLowerOffset (word_of_nat (kSlottedPageHeaderSize + length slots * kSlotEntrySize))) = (q, cur)"
      using pl unfolding u'_def slots_def length_list_update length_page_slots by simp
    show "used_bytes (new_states c 0 slots) \<le> kPageSize"
      using states used_bytes_released [of "abs_page p"] page_ok_room(6) [OF ok] by (metis le_trans)
    have old: "x = d \<or> x \<in> set (page_slots p)" if "x \<in> set slots" for x
      using that set_update_subset_insert [of "page_slots p" ?j d] by (auto simp: slots_def)
    show "c k x \<noteq> [] \<and> se_generation x \<noteq> 0" if "x \<in> set slots" "slot_live x" for k x
      using old [OF that(1)] d(1) that(2) page_ok_live_slot [OF ok] by (auto simp: c_def)
    show "slot_ok 0 0 x" if "x \<in> set slots" "\<not> slot_live x" for x
      using old [OF that(1)] d(2) page_ok_slot [OF ok] by (blast intro: slot_ok_weaken)
  qed (use lc page_ok_room(1) [OF ok] in \<open>simp_all add: slots_def\<close>)
  moreover from this have "?fu = cur" by simp
  ultimately show ?thesis using False eq states by (auto simp: spec_erase_def simp del: if_True)
qed

lemma insert_refines:
  assumes "page_ok p pid"
  shows "case spec_insert (abs_page p) b of
      Inl k \<Rightarrow> \<exists>m. insert_payload p pid b = Inl (SlottedPageError k m)
    | Inr (ss, h) \<Rightarrow> \<exists>q. insert_payload p pid b = Inr (q, h) \<and> page_ok q pid \<and> abs_page q = ss"
proof (cases "payload_size_ok b")
  case True
  then have "b \<noteq> []" "length b \<le> kMaxRecordPayloadBytes" by (simp_all add: payload_size_ok_def)
  from insert_payload_refines [OF assms this] show ?thesis
    using True by (auto simp: spec_insert_def split: option.splits)
next
  case False
  then show ?thesis by (auto simp: spec_insert_def insert_payload_def payload_size_ok_def)
qed

text \<open>The functional form of the refinements: what a successful call did to the abstract directory.\<close>

lemma insert_Inr:
  assumes "page_ok p pid" "insert_payload p pid b = Inr (q, h)"
  shows "page_ok q pid" "spec_insert (abs_page p) b = Inr (abs_page q, h)"
  using insert_refines [OF assms(1), of b] assms(2) by (auto split: sum.splits prod.splits)

lemma replace_Inr:
  assumes "page_ok p pid" "replace p pid h b = Inr q"
  shows "page_ok q pid" "spec_replace (abs_page p) h b = Inr (abs_page q)"
  using replace_refines [OF assms(1), of h b] assms(2) by (auto split: sum.splits)

lemma erase_Inr:
  assumes "page_ok p pid" "erase p pid h = Inr q"
  shows "page_ok q pid" "spec_erase (abs_page p) h = Inr (abs_page q)"
  using erase_refines [OF assms(1), of h] assms(2) by (auto split: sum.splits)

subsection \<open>Handles that can never be valid again\<close>

definition stale_slot :: "slot_state list \<Rightarrow> SlotHandle \<Rightarrow> bool" where
  "stale_slot ss h \<longleftrightarrow> unat (sh_slot_id h) < length ss
     \<and> sh_generation h \<le> state_generation (ss ! unat (sh_slot_id h)) \<and> lookup_slot ss h = None"

lemma handle_eq_iff:
  "h = (h' :: SlotHandle) \<longleftrightarrow> unat (sh_slot_id h) = unat (sh_slot_id h') \<and> sh_generation h = sh_generation h'"
  by (cases h; cases h') (auto simp: word_unat_eq_iff)

lemma lookup_slot_update:
  assumes "j < length ss"
  shows "lookup_slot (ss[j := x]) h =
    (if unat (sh_slot_id h) = j
     then (case x of SlotLive g b \<Rightarrow> if g = sh_generation h then Some b else None | _ \<Rightarrow> None)
     else lookup_slot ss h)"
  using assms by (auto simp: lookup_slot_def)

lemma lookup_slot_set_live:
  assumes "unat (sh_slot_id h) < length ss"
    and "\<And>g c. ss ! unat (sh_slot_id h) = SlotLive g c \<Longrightarrow> g = sh_generation h"
  shows "lookup_slot (ss[unat (sh_slot_id h) := SlotLive (sh_generation h) b]) = (lookup_slot ss)(h \<mapsto> b)"
proof
  fix x
  have "lookup_slot ss x = None" if "unat (sh_slot_id x) = unat (sh_slot_id h)" "x \<noteq> h"
    using that assms(2) by (auto simp: lookup_slot_def handle_eq_iff split: slot_state.splits)
  then show "lookup_slot (ss[unat (sh_slot_id h) := SlotLive (sh_generation h) b]) x
      = ((lookup_slot ss)(h \<mapsto> b)) x"
    unfolding lookup_slot_update [OF assms(1)] by (auto simp: handle_eq_iff)
qed

lemma lookup_slot_append:
  "lookup_slot (ss @ [x]) h =
    (if unat (sh_slot_id h) = length ss
     then (case x of SlotLive g b \<Rightarrow> if g = sh_generation h then Some b else None | _ \<Rightarrow> None)
     else lookup_slot ss h)"
  by (auto simp: lookup_slot_def nth_append)

lemma lookup_slot_SomeD:
  "lookup_slot ss h = Some b \<Longrightarrow> unat (sh_slot_id h) < length ss
     \<and> ss ! unat (sh_slot_id h) = SlotLive (sh_generation h) b"
  by (auto simp: lookup_slot_def split: if_splits slot_state.splits)

lemma stale_slot_update:
  assumes "stale_slot ss h" "j < length ss" "state_generation (ss ! j) \<le> state_generation x"
    "\<And>g b. x = SlotLive g b \<Longrightarrow> unat (sh_slot_id h) = j \<Longrightarrow> g \<noteq> sh_generation h"
  shows "stale_slot (ss[j := x]) h"
proof -
  have "lookup_slot (ss[j := x]) h = None"
    using assms by (auto simp: lookup_slot_update stale_slot_def split: slot_state.splits)
  moreover have "sh_generation h \<le> state_generation (ss[j := x] ! unat (sh_slot_id h))"
    using assms by (cases "unat (sh_slot_id h) = j") (auto simp: stale_slot_def intro: order_trans)
  ultimately show ?thesis using assms by (simp add: stale_slot_def)
qed

text \<open>A well-formed page never holds a free slot whose generation cannot grow.\<close>

lemma page_ok_free_generation:
  assumes "page_ok p pid" "i < length (page_slots p)" "is_free (abs_page p ! i)"
  shows "state_generation (abs_page p ! i) < - 1"
  using assms is_free_iff [OF assms(1,2)]
  by (auto simp: abs_page_def page_slots_nth slot_state_of_def page_constants split: if_splits)

lemma spec_insert_cases [consumes 2, case_names reuse fresh]:
  assumes "page_ok p pid" "spec_insert (abs_page p) b = Inr (ss, h)"
  obtains (reuse) "unat (sh_slot_id h) < length (abs_page p)" "is_free (abs_page p ! unat (sh_slot_id h))"
      "state_generation (abs_page p ! unat (sh_slot_id h)) < sh_generation h"
      "ss = (abs_page p)[unat (sh_slot_id h) := SlotLive (sh_generation h) b]"
  | (fresh) "unat (sh_slot_id h) = length (abs_page p)" "sh_generation h = 1"
      "ss = abs_page p @ [SlotLive (sh_generation h) b]"
proof -
  let ?f = "find (\<lambda>i. is_free (abs_page p ! i)) [0..<length (abs_page p)]"
  have small: "unat (word_of_nat i :: u16) = i" if "i \<le> length (abs_page p)" for i
    using that page_ok_room(1) [OF assms(1)] by (intro unat_word_small) (simp add: page_constants)
  from assms(2) have "spec_allocate (abs_page p) b = Some (ss, h)"
    by (auto simp: spec_insert_def split: if_splits option.splits)
  then show ?thesis
  proof (cases ?f)
    case None
    with \<open>spec_allocate (abs_page p) b = Some (ss, h)\<close> show ?thesis
      by (intro fresh) (auto simp: spec_allocate_def small split: if_splits)
  next
    case (Some i)
    then have i: "i < length (page_slots p)" "is_free (abs_page p ! i)" by (auto dest: find_upt_Some)
    note g = page_ok_free_generation [OF assms(1) i]
    then have "state_generation (abs_page p ! i) < state_generation (abs_page p ! i) + 1"
      using unat_plus_small [of "state_generation (abs_page p ! i)" 1]
      by (simp add: word_less_nat_alt unat_max_u16)
    with \<open>spec_allocate (abs_page p) b = Some (ss, h)\<close> Some i show ?thesis
      by (intro reuse) (auto simp: spec_allocate_def small Let_def split: if_splits)
  qed
qed

text \<open>\<^const>\<open>slot_store\<close> holds of the pages of this module.\<close>

interpretation page: slot_store
  "\<lambda>p. page_ok p pid" "\<lambda>p. lookup_slot (abs_page p)" "\<lambda>p. stale_slot (abs_page p)"
  "\<lambda>p. insert_payload p pid" "\<lambda>p. replace p pid" "\<lambda>p. erase p pid"
  for pid
proof unfold_locales
  fix p q b h h'
  assume ok: "page_ok p pid" and ins: "insert_payload p pid b = Inr (q, h)"
  note r = insert_Inr [OF ok ins]
  from ok r(2) show "page_ok q pid \<and> lookup_slot (abs_page p) h = None \<and> \<not> stale_slot (abs_page p) h
      \<and> lookup_slot (abs_page q) = (lookup_slot (abs_page p))(h \<mapsto> b)"
  proof (cases rule: spec_insert_cases)
    case reuse
    then have "lookup_slot (abs_page q) = (lookup_slot (abs_page p))(h \<mapsto> b)"
      using lookup_slot_set_live [of h "abs_page p" b] by (cases "abs_page p ! unat (sh_slot_id h)") auto
    moreover have "lookup_slot (abs_page p) h = None"
      using reuse(2) by (auto simp: lookup_slot_def split: slot_state.splits)
    ultimately show ?thesis using r(1) reuse(3) by (auto simp: stale_slot_def)
  next
    case fresh
    then show ?thesis using r(1)
      by (auto simp: fun_eq_iff lookup_slot_append handle_eq_iff stale_slot_def lookup_slot_def nth_append)
  qed
  assume st: "stale_slot (abs_page p) h'"
  from ok r(2) show "stale_slot (abs_page q) h'"
  proof (cases rule: spec_insert_cases)
    case reuse
    have "unat (sh_slot_id h') = unat (sh_slot_id h) \<Longrightarrow> sh_generation h \<noteq> sh_generation h'"
      using st reuse(3) by (auto simp: stale_slot_def)
    then show ?thesis unfolding reuse(4)
      by (intro stale_slot_update [OF st reuse(1)]) (use reuse(3) in auto)
  next
    case fresh
    with st show ?thesis by (auto simp: stale_slot_def lookup_slot_append nth_append)
  qed
next
  fix p q b h h'
  assume ok: "page_ok p pid" and rep: "replace p pid h b = Inr q"
  note r = replace_Inr [OF ok rep]
  then obtain old where l: "lookup_slot (abs_page p) h = Some old"
    and q: "abs_page q = (abs_page p)[unat (sh_slot_id h) := SlotLive (sh_generation h) b]"
    by (auto simp: spec_replace_def Let_def split: if_splits option.splits)
  note s = lookup_slot_SomeD [OF l]
  show "page_ok q pid \<and> lookup_slot (abs_page p) h \<noteq> None
      \<and> lookup_slot (abs_page q) = (lookup_slot (abs_page p))(h \<mapsto> b)"
    using r(1) l s lookup_slot_set_live [of h "abs_page p" b] by (simp add: q)
  show "stale_slot (abs_page q) h'" if "stale_slot (abs_page p) h'"
    unfolding q using s that
    by (intro stale_slot_update [OF that]) (auto simp: stale_slot_def lookup_slot_def)
next
  fix p q h h'
  assume ok: "page_ok p pid" and er: "erase p pid h = Inr q"
  note r = erase_Inr [OF ok er]
  then obtain old where l: "lookup_slot (abs_page p) h = Some old"
    and q: "abs_page q = (abs_page p)[unat (sh_slot_id h) := released (sh_generation h)]"
    by (auto simp: spec_erase_def split: option.splits)
  note s = lookup_slot_SomeD [OF l]
  have g: "state_generation (released (sh_generation h)) = sh_generation h" by (simp add: released_def)
  have "\<And>g b. released (sh_generation h) \<noteq> SlotLive g b" by (simp add: released_def)
  then have u: "lookup_slot (abs_page q) x = (if unat (sh_slot_id x) = unat (sh_slot_id h) then None
      else lookup_slot (abs_page p) x)" for x
    using s by (simp add: q lookup_slot_update split: slot_state.splits)
  show "page_ok q pid \<and> lookup_slot (abs_page p) h \<noteq> None
      \<and> lookup_slot (abs_page q) = (lookup_slot (abs_page p))(h := None) \<and> stale_slot (abs_page q) h"
  proof -
    have "lookup_slot (abs_page p) x = None" if "unat (sh_slot_id x) = unat (sh_slot_id h)" "x \<noteq> h" for x
      using that s by (auto simp: lookup_slot_def handle_eq_iff)
    then have "lookup_slot (abs_page q) = (lookup_slot (abs_page p))(h := None)"
      using u by (auto simp: fun_eq_iff)
    moreover have "stale_slot (abs_page q) h" using u [of h] s g by (simp add: stale_slot_def q)
    ultimately show ?thesis using r(1) l by simp
  qed
  show "stale_slot (abs_page q) h'" if "stale_slot (abs_page p) h'"
    unfolding q using s g by (intro stale_slot_update [OF that]) (auto simp: released_def split: if_splits)
next
  fix p h assume "stale_slot (abs_page p) h"
  then show "lookup_slot (abs_page p) h = None" by (simp add: stale_slot_def)
qed

subsection \<open>Scanning\<close>

fun is_live :: "slot_state \<Rightarrow> bool" where
  "is_live (SlotLive _ _) = True"
| "is_live _ = False"

definition spec_next :: "slot_state list \<Rightarrow> nat \<Rightarrow> SlotHandle option \<times> nat" where
  "spec_next ss start =
     (case find (\<lambda>i. is_live (ss ! i)) [start..<length ss] of
        Some i \<Rightarrow> (Some \<lparr>sh_slot_id = word_of_nat i, sh_generation = state_generation (ss ! i)\<rparr>, i + 1)
      | None \<Rightarrow> (None, length ss))"

lemma find_live_slot_abs:
  assumes "\<And>i. i \<in> set is \<Longrightarrow> i < length (page_slots p)"
  shows "find_live_slot p is = map_option
    (\<lambda>i. (\<lparr>sh_slot_id = word_of_nat i, sh_generation = state_generation (abs_page p ! i)\<rparr>, i + 1))
    (find (\<lambda>i. is_live (abs_page p ! i)) is)"
  using assms
  by (induction "is") (auto simp: abs_page_def page_slots_nth slot_state_of_def Let_def)

lemma next_live_slot_refines:
  assumes "page_ok p pid"
  shows "next_live_slot p pid start =
    (if length (abs_page p) < start
     then Inl (SlottedPageError PageInvalidArgument ''scan position exceeds slot directory'')
     else Inr (spec_next (abs_page p) start))"
  using assms find_live_slot_abs [of "[start..<length (page_slots p)]" p]
  by (auto simp: next_live_slot_def spec_next_def Let_def length_page_slots split: option.splits)

subsection \<open>Operation sequences\<close>

text \<open>A successful operation on the page numbered \<open>pid\<close>.\<close>

inductive page_step :: "PageId \<Rightarrow> RawPage \<Rightarrow> RawPage \<Rightarrow> bool" for pid where
  page_insert: "insert_payload p pid b = Inr (q, h) \<Longrightarrow> page_step pid p q"
| page_replace: "replace p pid h b = Inr q \<Longrightarrow> page_step pid p q"
| page_erase: "erase p pid h = Inr q \<Longrightarrow> page_step pid p q"

lemma page_step_store: "page_step pid p q \<longleftrightarrow> page.step pid p q"
  by (auto elim!: page_step.cases page.step.cases intro: page_step.intros page.step.intros)

lemma page_steps_store: "(page_step pid)\<^sup>*\<^sup>* = (page.step pid)\<^sup>*\<^sup>*"
  by (rule arg_cong [where f = rtranclp]) (simp add: fun_eq_iff page_step_store)

subsection \<open>Properties of slotted pages\<close>

text \<open>
  C17: the validation pass accepts a page exactly when its header is the one of a slotted page with
  this number, its counters agree with the slot directory, every slot entry is well formed and the
  live payloads tile the area from \<open>free_upper\<close> to the end of the page without gap or overlap.
\<close>

theorem slotted_validate_exact: "validate p pid = None \<longleftrightarrow> page_ok p pid"
  by (rule validate_iff)

text \<open>
  Inserting into a valid page implements the abstract directory: it reuses the first free slot with
  the next generation or appends one, fails with NoSpace exactly when the payload (and a new slot
  entry) does not fit, with InvalidArgument exactly on an empty or oversized payload, and the
  resulting page is valid again.
\<close>

lemma slotted_insert_refines:
  assumes "validate p pid = None"
  shows "case spec_insert (abs_page p) b of
      Inl k \<Rightarrow> \<exists>m. insert_payload p pid b = Inl (SlottedPageError k m)
    | Inr (ss, h) \<Rightarrow> \<exists>q. insert_payload p pid b = Inr (q, h) \<and> validate q pid = None \<and> abs_page q = ss"
  using insert_refines assms unfolding validate_iff by blast

lemma first_page_ok: "\<exists>p. initialize 1 = Inr p \<and> validate p 1 = None \<and> abs_page p = []"
  using initialize_ok [of 1] initialize_page_ok unfolding validate_iff by fastforce

lemma spec_insert_first:
  "spec_insert [] [7] = Inr ([SlotLive 1 [7]], \<lparr>sh_slot_id = 0, sh_generation = 1\<rparr>)"
  by (simp add: spec_insert_def spec_allocate_def payload_size_ok_def used_bytes_def page_constants
      kMaxRecordPayloadBytes_def)

lemma first_page_live:
  "\<exists>p. validate p 1 = None \<and> abs_page p = [SlotLive 1 [7]]"
proof -
  obtain p where p: "initialize 1 = Inr p" "validate p 1 = None" "abs_page p = []" using first_page_ok by blast
  then show ?thesis using insert_refines [of p 1 "[7]"] unfolding validate_iff by (auto simp: spec_insert_first)
qed

text \<open>
  Replacing a payload in a valid page changes exactly the slot of the handle and keeps its
  generation, so the handle stays valid; a stale handle is refused with InvalidArgument and a payload
  that does not fit with NoSpace. The page rebuilt from scratch is valid and every other record
  keeps its bytes although all payloads may have moved.
\<close>

lemma slotted_replace_refines:
  assumes "validate p pid = None"
  shows "case spec_replace (abs_page p) h b of
      Inl k \<Rightarrow> \<exists>m. replace p pid h b = Inl (SlottedPageError k m)
    | Inr ss \<Rightarrow> \<exists>q. replace p pid h b = Inr q \<and> validate q pid = None \<and> abs_page q = ss"
  using replace_refines assms unfolding validate_iff by blast

text \<open>
  C15: erasing frees the slot but keeps its generation in it (or retires the slot when the generation
  is exhausted), compacts the remaining payloads without changing them, and yields a valid page; a
  handle that does not name a live record is refused with InvalidArgument.
\<close>

theorem slotted_erase_refines:
  assumes "validate p pid = None"
  shows "case spec_erase (abs_page p) h of
      Inl k \<Rightarrow> \<exists>m. erase p pid h = Inl (SlottedPageError k m)
    | Inr ss \<Rightarrow> \<exists>q. erase p pid h = Inr q \<and> validate q pid = None \<and> abs_page q = ss"
  using erase_refines assms unfolding validate_iff by blast

theorem slotted_erase_refines_witness:
  "\<exists>p q. validate p 1 = None \<and> abs_page p = [SlotLive 1 [7]]
     \<and> erase p 1 \<lparr>sh_slot_id = 0, sh_generation = 1\<rparr> = Inr q
     \<and> validate q 1 = None \<and> abs_page q = [SlotFree 1]"
proof -
  obtain p where p: "validate p 1 = None" "abs_page p = [SlotLive 1 [7]]" using first_page_live by blast
  then show ?thesis
    using slotted_erase_refines [of p 1 "\<lparr>sh_slot_id = 0, sh_generation = 1\<rparr>"]
    by (auto simp: spec_erase_def lookup_slot_def released_def)
qed

text \<open>
  A handle that was erased is never valid again and never issued again: after any sequence of
  inserts, replaces and erases on the page, reading through it is refused with InvalidArgument and no
  insertion returns it.
\<close>

lemma erased_handle_stays_stale:
  assumes "validate p pid = None" and "erase p pid h = Inr q" and "(page_step pid)\<^sup>*\<^sup>* q r"
  shows "(\<exists>m. get r pid h = Inl (SlottedPageError PageInvalidArgument m))
     \<and> (\<forall>b s h'. insert_payload r pid b = Inr (s, h') \<longrightarrow> h' \<noteq> h)"
proof -
  have ok: "page_ok p pid" and st: "(page.step pid)\<^sup>*\<^sup>* q r"
    using assms by (simp_all add: validate_iff page_steps_store)
  have "page_ok q pid" by (rule erase_Inr [OF ok assms(2)])
  then have "page_ok r pid" using page.steps_keep [OF st] by blast
  then show ?thesis
    using get_refines [of r pid h] page.erased_stays_invalid [OF ok assms(2) st]
      page.erased_not_reissued [OF ok assms(2) st]
    by (auto simp: spec_get_def)
qed

text \<open>
  Scanning a valid page from a slot position returns the first live slot at or behind it, with its
  generation, and the position just behind that slot; when there is none it returns the end of the
  directory, and a position beyond the directory is refused.
\<close>

lemma slotted_next_live_refines:
  assumes "validate p pid = None"
  shows "next_live_slot p pid start =
    (if length (abs_page p) < start
     then Inl (SlottedPageError PageInvalidArgument ''scan position exceeds slot directory'')
     else Inr (spec_next (abs_page p) start))"
  using assms by (simp add: validate_iff next_live_slot_refines)

end
