(* ===== verification/Record_Page.thy ===== *)
theory Record_Page
  imports Page_Directory
begin

text \<open>
  \<open>src/storage/record_page.cpp\<close>: typed rows in a slotted page, and the 64-bit record id that packs
  page number, slot generation and slot number. The row operations compose the record codec with the
  page operations; the theory interprets \<open>slot_store\<close> once more, now with record ids as handles and
  rows as contents.
\<close>

subsection \<open>Record ids\<close>

record RecordIdParts =
  rp_page_id :: PageId
  rp_slot_id :: u16
  rp_generation :: u16

datatype RecordPageErrorKind =
  RecordPageInvalidArgument | RecordPageValueTooLarge | RecordPageNoSpace | RecordPageCorrupt

datatype RecordPageError =
  RecordPageError (record_page_kind: RecordPageErrorKind) (record_page_message: string)

definition kSlotBits :: nat where "kSlotBits = 16"
definition kGenerationBits :: nat where "kGenerationBits = 16"
definition kPageShift :: nat where "kPageShift = kSlotBits + kGenerationBits"

definition invalid_record :: RecordPageError where
  "invalid_record = RecordPageError RecordPageInvalidArgument ''invalid record handle or page''"

fun map_codec_error :: "RecordCodecError \<Rightarrow> RecordPageError" where
  "map_codec_error (RecordCodecError CodecInvalidArgument m) = RecordPageError RecordPageInvalidArgument m"
| "map_codec_error (RecordCodecError CodecValueTooLarge m) = RecordPageError RecordPageValueTooLarge m"
| "map_codec_error (RecordCodecError CodecCorrupt m) = RecordPageError RecordPageCorrupt m"

fun map_page_error :: "SlottedPageError \<Rightarrow> RecordPageError" where
  "map_page_error (SlottedPageError PageInvalidArgument m) = RecordPageError RecordPageInvalidArgument m"
| "map_page_error (SlottedPageError PageNoSpace m) = RecordPageError RecordPageNoSpace m"
| "map_page_error (SlottedPageError PageCorrupt m) = RecordPageError RecordPageCorrupt m"

definition rid_encode :: "RecordIdParts \<Rightarrow> (RecordPageError, RecordId) result" where
  "rid_encode p =
     (if rp_page_id p = 0 \<or> rp_generation p = 0 then Inl invalid_record
      else Inr \<lparr>rid_value = (push_bit kPageShift (ucast (rp_page_id p)) OR
        push_bit kSlotBits (ucast (rp_generation p))) OR ucast (rp_slot_id p)\<rparr>)"

definition rid_decode :: "RecordId \<Rightarrow> (RecordPageError, RecordIdParts) result" where
  "rid_decode rid =
     (let p = \<lparr>rp_page_id = ucast (drop_bit kPageShift (rid_value rid)),
               rp_slot_id = ucast (rid_value rid),
               rp_generation = ucast (drop_bit kSlotBits (rid_value rid))\<rparr>
      in if rp_page_id p = 0 \<or> rp_generation p = 0 then Inl invalid_record else Inr p)"

subsection \<open>Row operations\<close>

definition initialize_record_page :: "PageId \<Rightarrow> (RecordPageError, RawPage) result" where
  "initialize_record_page pid = map_error map_page_error (initialize pid)"

definition insert_record ::
  "RawPage \<Rightarrow> PageId \<Rightarrow> RowFormat \<Rightarrow> TableMeta \<Rightarrow> Value list \<Rightarrow> (RecordPageError, RawPage \<times> RecordId) result"
  where
  "insert_record page pid format meta values =
     bind_result (map_error map_codec_error (encode format meta values)) (\<lambda>encoded.
     bind_result (map_error map_page_error (insert_payload page pid encoded)) (\<lambda>(candidate, slot).
     bind_result (rid_encode \<lparr>rp_page_id = pid, rp_slot_id = sh_slot_id slot,
                              rp_generation = sh_generation slot\<rparr>) (\<lambda>rid.
     Inr (candidate, rid))))"

definition get_record ::
  "RawPage \<Rightarrow> PageId \<Rightarrow> RowFormat \<Rightarrow> TableMeta \<Rightarrow> RecordId \<Rightarrow> (RecordPageError, Record) result" where
  "get_record page pid format meta rid =
     bind_result (rid_decode rid) (\<lambda>parts.
     if rp_page_id parts \<noteq> pid then Inl invalid_record
     else bind_result (map_error map_page_error
            (get page pid \<lparr>sh_slot_id = rp_slot_id parts, sh_generation = rp_generation parts\<rparr>)) (\<lambda>bytes.
          bind_result (map_error map_codec_error (decode format meta bytes)) (\<lambda>values.
          Inr \<lparr>rec_rid = rid, rec_values = values\<rparr>)))"

definition replace_record ::
  "RawPage \<Rightarrow> PageId \<Rightarrow> RowFormat \<Rightarrow> TableMeta \<Rightarrow> RecordId \<Rightarrow> Value list \<Rightarrow> (RecordPageError, RawPage) result"
  where
  "replace_record page pid format meta rid values =
     bind_result (rid_decode rid) (\<lambda>parts.
     if rp_page_id parts \<noteq> pid then Inl invalid_record
     else bind_result (map_error map_codec_error (encode format meta values)) (\<lambda>encoded.
          map_error map_page_error
            (replace page pid \<lparr>sh_slot_id = rp_slot_id parts, sh_generation = rp_generation parts\<rparr> encoded)))"

definition erase_record :: "RawPage \<Rightarrow> PageId \<Rightarrow> RecordId \<Rightarrow> (RecordPageError, RawPage) result" where
  "erase_record page pid rid =
     bind_result (rid_decode rid) (\<lambda>parts.
     if rp_page_id parts \<noteq> pid then Inl invalid_record
     else map_error map_page_error
            (erase page pid \<lparr>sh_slot_id = rp_slot_id parts, sh_generation = rp_generation parts\<rparr>))"

text \<open>The next row at or behind slot position \<open>start\<close>, and the position to continue from.\<close>

definition next_record ::
  "RawPage \<Rightarrow> PageId \<Rightarrow> RowFormat \<Rightarrow> TableMeta \<Rightarrow> nat \<Rightarrow> (RecordPageError, Record option \<times> nat) result" where
  "next_record page pid format meta start =
     bind_result (map_error map_page_error (next_live_slot page pid start)) (\<lambda>(slot, next_position).
     case slot of
       None \<Rightarrow> Inr (None, next_position)
     | Some handle \<Rightarrow>
         bind_result (rid_encode \<lparr>rp_page_id = pid, rp_slot_id = sh_slot_id handle,
                                  rp_generation = sh_generation handle\<rparr>) (\<lambda>rid.
         bind_result (get_record page pid format meta rid) (\<lambda>record.
         Inr (Some record, next_position))))"

subsection \<open>Packing is injective\<close>

lemma rid_fields:
  fixes p :: u32 and g s :: u16
  defines "w \<equiv> (push_bit 32 (ucast p) OR push_bit 16 (ucast g)) OR ucast s :: u64"
  shows "ucast (drop_bit 32 w) = p" "ucast (drop_bit 16 w) = g" "ucast w = s"
  unfolding w_def
  by (auto simp: bit_eq_iff bit_simps dest: bit_imp_le_length)

lemma rid_join:
  fixes w :: u64
  shows "(push_bit 32 (ucast (ucast (drop_bit 32 w) :: u32)) OR push_bit 16 (ucast (ucast (drop_bit 16 w) :: u16)))
    OR ucast (ucast w :: u16) = w"
proof (rule bit_word_eqI)
  fix n assume "n < LENGTH(64)"
  then consider "n < 16" | "16 \<le> n" "n < 32" | "32 \<le> n" "n < 64" by fastforce
  then show "bit ((push_bit 32 (ucast (ucast (drop_bit 32 w) :: u32))
      OR push_bit 16 (ucast (ucast (drop_bit 16 w) :: u16))) OR ucast (ucast w :: u16) :: u64) n = bit w n"
    by cases (auto simp: bit_simps)
qed

lemma rid_encode_iff: "rid_encode p = Inr rid \<longleftrightarrow> rid_decode rid = Inr p"
proof
  assume e: "rid_encode p = Inr rid"
  define w :: u64 where
    "w = (push_bit 32 (ucast (rp_page_id p)) OR push_bit 16 (ucast (rp_generation p))) OR ucast (rp_slot_id p)"
  have "rid = \<lparr>rid_value = w\<rparr>" "rp_page_id p \<noteq> 0" "rp_generation p \<noteq> 0"
    using e by (auto simp: rid_encode_def w_def kPageShift_def kSlotBits_def kGenerationBits_def split: if_splits)
  then show "rid_decode rid = Inr p"
    using rid_fields [where p = "rp_page_id p" and g = "rp_generation p" and s = "rp_slot_id p", folded w_def]
    by (cases p) (simp add: rid_decode_def Let_def kPageShift_def kSlotBits_def kGenerationBits_def)
next
  assume "rid_decode rid = Inr p"
  then show "rid_encode p = Inr rid"
    by (cases rid) (auto simp: rid_encode_def rid_decode_def kPageShift_def kSlotBits_def kGenerationBits_def
        rid_join Let_def split: if_splits)
qed


subsection \<open>A record page as a store of rows\<close>

definition rid_handle :: "PageId \<Rightarrow> RecordId \<Rightarrow> SlotHandle option" where
  "rid_handle pid rid =
     (case rid_decode rid of
        Inl _ \<Rightarrow> None
      | Inr parts \<Rightarrow> if rp_page_id parts \<noteq> pid then None
          else Some \<lparr>sh_slot_id = rp_slot_id parts, sh_generation = rp_generation parts\<rparr>)"

definition payload_row :: "RowFormat \<Rightarrow> TableMeta \<Rightarrow> byte list \<Rightarrow> Value list option" where
  "payload_row format meta b = (case decode format meta b of Inl _ \<Rightarrow> None | Inr vs \<Rightarrow> Some vs)"

definition record_lookup :: "RowFormat \<Rightarrow> TableMeta \<Rightarrow> PageId \<Rightarrow> RawPage \<Rightarrow> RecordId \<Rightarrow> Value list option" where
  "record_lookup format meta pid p rid =
     Option.bind (rid_handle pid rid) (\<lambda>h. Option.bind (lookup_slot (abs_page p) h) (payload_row format meta))"

definition record_stale :: "PageId \<Rightarrow> RawPage \<Rightarrow> RecordId \<Rightarrow> bool" where
  "record_stale pid p rid \<longleftrightarrow> (\<exists>h. rid_handle pid rid = Some h \<and> stale_slot (abs_page p) h)"

text \<open>A page whose layout is valid and whose live payloads all are rows of the table.\<close>

definition record_page_ok :: "RowFormat \<Rightarrow> TableMeta \<Rightarrow> PageId \<Rightarrow> RawPage \<Rightarrow> bool" where
  "record_page_ok format meta pid p \<longleftrightarrow> page_ok p pid
     \<and> (\<forall>h b. lookup_slot (abs_page p) h = Some b \<longrightarrow> payload_row format meta b \<noteq> None)"

lemma payload_row_encode: "encode format meta vs = Inr b \<Longrightarrow> payload_row format meta b = Some vs"
proof -
  assume "encode format meta vs = Inr b"
  then have "decode format meta b = Inr vs" unfolding encode_Inr_iff decode_Inr_iff .
  then show ?thesis by (simp add: payload_row_def)
qed

lemma rid_handle_iff:
  "rid_handle pid rid = Some h \<longleftrightarrow>
     rid_encode \<lparr>rp_page_id = pid, rp_slot_id = sh_slot_id h, rp_generation = sh_generation h\<rparr> = Inr rid"
proof (cases "rid_decode rid")
  case (Inr parts)
  then show ?thesis unfolding rid_encode_iff by (cases h; cases parts) (auto simp: rid_handle_def)
qed (simp add: rid_encode_iff rid_handle_def)

lemma rid_handle_inj: "rid_handle pid r = Some h \<Longrightarrow> rid_handle pid r' = Some h \<Longrightarrow> r = r'"
  by (simp add: rid_handle_iff)

lemma rid_handle_exists:
  "pid \<noteq> 0 \<Longrightarrow> sh_generation h \<noteq> 0 \<Longrightarrow> \<exists>rid. rid_handle pid rid = Some h"
  by (simp add: rid_handle_iff rid_encode_def)

lemma record_lookup_upd:
  assumes "rid_handle pid rid = Some h" "lookup_slot (abs_page q) = (lookup_slot (abs_page p))(h := x)"
  shows "record_lookup format meta pid q
    = (record_lookup format meta pid p)(rid := Option.bind x (payload_row format meta))"
proof
  fix r
  show "record_lookup format meta pid q r
      = ((record_lookup format meta pid p)(rid := Option.bind x (payload_row format meta))) r"
    using assms rid_handle_inj [of pid r h rid]
    by (cases "rid_handle pid r") (auto simp: record_lookup_def)
qed

lemma record_page_ok_upd:
  assumes "record_page_ok format meta pid p" "page_ok q pid"
    "lookup_slot (abs_page q) = (lookup_slot (abs_page p))(h := x)"
    "\<And>b. x = Some b \<Longrightarrow> payload_row format meta b \<noteq> None"
  shows "record_page_ok format meta pid q"
  using assms by (auto simp: record_page_ok_def)

lemma live_generation:
  assumes "page_ok p pid" "lookup_slot (abs_page p) h = Some b"
  shows "sh_generation h \<noteq> 0"
  using assms by (auto simp: lookup_slot_abs invalid_handle_def split: if_splits)

lemma insert_record_Inr:
  assumes "page_ok p pid"
  shows "insert_record p pid format meta vs = Inr (q, rid) \<longleftrightarrow>
    (\<exists>b h. encode format meta vs = Inr b \<and> insert_payload p pid b = Inr (q, h) \<and> rid_handle pid rid = Some h)"
  by (auto simp: insert_record_def result_simps rid_handle_iff)

lemma replace_record_Inr:
  "replace_record p pid format meta rid vs = Inr q \<longleftrightarrow>
    (\<exists>b h. rid_handle pid rid = Some h \<and> encode format meta vs = Inr b \<and> replace p pid h b = Inr q)"
  by (auto simp: replace_record_def result_simps rid_handle_def split: sum.splits if_splits)

lemma erase_record_Inr:
  "erase_record p pid rid = Inr q \<longleftrightarrow> (\<exists>h. rid_handle pid rid = Some h \<and> erase p pid h = Inr q)"
  by (auto simp: erase_record_def result_simps rid_handle_def split: sum.splits if_splits)

interpretation record_page: slot_store
  "record_page_ok format meta pid" "record_lookup format meta pid" "record_stale pid"
  "\<lambda>p. insert_record p pid format meta" "\<lambda>p. replace_record p pid format meta" "\<lambda>p. erase_record p pid"
  for format meta pid
proof unfold_locales
  fix p q vs rid rid'
  assume ok: "record_page_ok format meta pid p" and ins: "insert_record p pid format meta vs = Inr (q, rid)"
  have pok: "page_ok p pid" using ok by (simp add: record_page_ok_def)
  from ins obtain b h where e: "encode format meta vs = Inr b" "insert_payload p pid b = Inr (q, h)"
    and h: "rid_handle pid rid = Some h" unfolding insert_record_Inr [OF pok] by blast
  note law = page.insert_law [OF pok e(2)]
  note row = payload_row_encode [OF e(1)]
  show "record_page_ok format meta pid q \<and> record_lookup format meta pid p rid = None
      \<and> \<not> record_stale pid p rid
      \<and> record_lookup format meta pid q = (record_lookup format meta pid p)(rid \<mapsto> vs)"
    using record_page_ok_upd [OF ok, of q h "Some b"] record_lookup_upd [OF h, of q p "Some b"] law row h
    by (auto simp: record_lookup_def record_stale_def)
  show "record_stale pid q rid'" if "record_stale pid p rid'"
    using that page.insert_stale [OF pok e(2)] by (auto simp: record_stale_def)
next
  fix p q vs rid rid'
  assume ok: "record_page_ok format meta pid p" and rep: "replace_record p pid format meta rid vs = Inr q"
  have pok: "page_ok p pid" using ok by (simp add: record_page_ok_def)
  from rep obtain b h where e: "encode format meta vs = Inr b" "replace p pid h b = Inr q"
    and h: "rid_handle pid rid = Some h" unfolding replace_record_Inr by blast
  note law = page.replace_law [OF pok e(2)]
  note row = payload_row_encode [OF e(1)]
  show "record_page_ok format meta pid q \<and> record_lookup format meta pid p rid \<noteq> None
      \<and> record_lookup format meta pid q = (record_lookup format meta pid p)(rid \<mapsto> vs)"
    using record_page_ok_upd [OF ok, of q h "Some b"] record_lookup_upd [OF h, of q p "Some b"] law row h ok
    by (auto simp: record_lookup_def record_page_ok_def)
  show "record_stale pid q rid'" if "record_stale pid p rid'"
    using that page.replace_stale [OF pok e(2)] by (auto simp: record_stale_def)
next
  fix p q rid rid'
  assume ok: "record_page_ok format meta pid p" and er: "erase_record p pid rid = Inr q"
  have pok: "page_ok p pid" using ok by (simp add: record_page_ok_def)
  from er obtain h where e: "erase p pid h = Inr q" and h: "rid_handle pid rid = Some h"
    unfolding erase_record_Inr by blast
  note law = page.erase_law [OF pok e]
  show "record_page_ok format meta pid q \<and> record_lookup format meta pid p rid \<noteq> None
      \<and> record_lookup format meta pid q = (record_lookup format meta pid p)(rid := None) \<and> record_stale pid q rid"
    using record_page_ok_upd [OF ok, of q h None] record_lookup_upd [OF h, of q p None] law h ok
    by (auto simp: record_lookup_def record_page_ok_def record_stale_def)
  show "record_stale pid q rid'" if "record_stale pid p rid'"
    using that page.erase_stale [OF pok e] by (auto simp: record_stale_def)
next
  fix p rid assume "record_stale pid p rid"
  then show "record_lookup format meta pid p rid = None"
    by (auto simp: record_stale_def record_lookup_def dest: page.stale_lookup)
qed


lemma get_record_Inr:
  assumes "page_ok p pid"
  shows "get_record p pid format meta rid = Inr r \<longleftrightarrow>
    rec_rid r = rid \<and> record_lookup format meta pid p rid = Some (rec_values r)"
proof -
  have get: "get p pid h = Inr b \<longleftrightarrow> lookup_slot (abs_page p) h = Some b" for h b
    using get_refines [OF assms, of h] by (auto simp: spec_get_def split: option.splits)
  have row: "decode format meta b = Inr vs \<longleftrightarrow> payload_row format meta b = Some vs" for b vs
    by (auto simp: payload_row_def split: sum.splits)
  show ?thesis
    by (cases r)
      (auto simp: get_record_def result_simps get row record_lookup_def rid_handle_def bind_eq_Some_conv
        split: sum.splits if_splits)
qed

lemma next_record_refines:
  assumes ok: "record_page_ok format meta pid p" and start: "start \<le> length (abs_page p)"
  shows "case find (\<lambda>i. is_live (abs_page p ! i)) [start..<length (abs_page p)] of
      None \<Rightarrow> next_record p pid format meta start = Inr (None, length (abs_page p))
    | Some i \<Rightarrow> \<exists>rid vs. rid_handle pid rid = Some \<lparr>sh_slot_id = word_of_nat i,
            sh_generation = state_generation (abs_page p ! i)\<rparr>
        \<and> record_lookup format meta pid p rid = Some vs
        \<and> next_record p pid format meta start = Inr (Some \<lparr>rec_rid = rid, rec_values = vs\<rparr>, i + 1)"
proof (cases "find (\<lambda>i. is_live (abs_page p ! i)) [start..<length (abs_page p)]")
  case None
  then show ?thesis using start ok
    by (simp add: next_record_def next_live_slot_refines record_page_ok_def spec_next_def)
next
  case (Some i)
  let ?h = "\<lparr>sh_slot_id = word_of_nat i, sh_generation = state_generation (abs_page p ! i)\<rparr> :: SlotHandle"
  have pok: "page_ok p pid" using ok by (simp add: record_page_ok_def)
  from Some have i: "i < length (abs_page p)" "is_live (abs_page p ! i)" by (auto simp: find_Some_iff)
  then obtain g b where live: "abs_page p ! i = SlotLive g b" by (cases "abs_page p ! i") auto
  have "unat (word_of_nat i :: u16) = i"
    using i(1) page_ok_room(1) [OF pok] by (intro unat_word_small) (simp add: page_constants)
  then have l: "lookup_slot (abs_page p) ?h = Some b" using i(1) live by (simp add: lookup_slot_def)
  then obtain rid where rid: "rid_handle pid rid = Some ?h"
    using rid_handle_exists [OF page_ok_pid [OF pok] live_generation [OF pok l]] by blast
  from l ok obtain vs where vs: "payload_row format meta b = Some vs"
    by (fastforce simp: record_page_ok_def)
  then have look: "record_lookup format meta pid p rid = Some vs" using rid l by (simp add: record_lookup_def)
  then have "get_record p pid format meta rid = Inr \<lparr>rec_rid = rid, rec_values = vs\<rparr>"
    by (simp add: get_record_Inr [OF pok])
  then have "next_record p pid format meta start = Inr (Some \<lparr>rec_rid = rid, rec_values = vs\<rparr>, i + 1)"
    using Some start rid by (simp add: next_record_def next_live_slot_refines [OF pok] spec_next_def rid_handle_iff)
  then show ?thesis using Some rid look by auto
qed

subsection \<open>Properties of record pages\<close>

text \<open>
  A record id and its page, slot and generation determine each other: packing never loses or mixes
  fields, unpacking accepts exactly the ids that packing produces, and ids with page or generation zero
  are refused in both directions.
\<close>

lemma rid_roundtrip: "rid_encode parts = Inr rid \<longleftrightarrow> rid_decode rid = Inr parts"
  by (rule rid_encode_iff)

text \<open>
  A row inserted into a page of valid rows is read back unchanged through the returned record id,
  every other record id reads what it read before, the id was not in use, and the page holds valid
  rows only afterwards.
\<close>

lemma insert_record_get:
  assumes "record_page_ok format meta pid p" and "insert_record p pid format meta values = Inr (q, rid)"
  shows "get_record q pid format meta rid = Inr \<lparr>rec_rid = rid, rec_values = values\<rparr>
    \<and> (\<forall>rid' r. rid' \<noteq> rid \<longrightarrow>
        (get_record q pid format meta rid' = Inr r \<longleftrightarrow> get_record p pid format meta rid' = Inr r))
    \<and> (\<forall>r. get_record p pid format meta rid \<noteq> Inr r)
    \<and> record_page_ok format meta pid q"
proof -
  have q: "record_page_ok format meta pid q" and fresh: "record_lookup format meta pid p rid = None"
    using record_page.insert_law [OF assms] by auto
  then have ok: "page_ok p pid" "page_ok q pid" using assms(1) by (auto simp: record_page_ok_def)
  show ?thesis using q fresh
    by (auto simp: get_record_Inr [OF ok(1)] get_record_Inr [OF ok(2)] record_page.lookup_insert [OF assms])
qed

definition demo_table :: TableMeta where
  "demo_table = \<lparr>tm_table_id = 2, tm_table_name = ''t'',
     tm_columns = [\<lparr>cm_name = ''id'', cm_type = kInt, cm_nullable = False\<rparr>]\<rparr>"

lemma demo_page: "\<exists>p. record_page_ok kV1 demo_table 1 p \<and> abs_page p = []"
proof -
  obtain p where "validate p 1 = None" "abs_page p = []" using first_page_ok by blast
  moreover from this have "lookup_slot (abs_page p) h = None" for h by (simp add: lookup_slot_def)
  ultimately have "record_page_ok kV1 demo_table 1 p" by (simp add: record_page_ok_def validate_iff)
  with \<open>abs_page p = []\<close> show ?thesis by blast
qed

lemma demo_insert:
  assumes "record_page_ok kV1 demo_table 1 p" "abs_page p = []"
  shows "\<exists>q. insert_record p 1 kV1 demo_table [VInt 7] = Inr (q, \<lparr>rid_value = 0x100010000\<rparr>)
    \<and> record_page_ok kV1 demo_table 1 q"
proof -
  have pok: "page_ok p 1" using assms(1) by (simp add: record_page_ok_def)
  have e: "encode kV1 demo_table [VInt 7] = Inr [7, 0, 0, 0]" by code_simp
  have "spec_insert [] [7, 0, 0, 0] = Inr ([SlotLive 1 [7, 0, 0, 0]], \<lparr>sh_slot_id = 0, sh_generation = 1\<rparr>)"
    by (simp add: spec_insert_def spec_allocate_def payload_size_ok_def used_bytes_def page_constants
        kMaxRecordPayloadBytes_def)
  then obtain q where q: "insert_payload p 1 [7, 0, 0, 0] = Inr (q, \<lparr>sh_slot_id = 0, sh_generation = 1\<rparr>)"
    using insert_refines [OF pok, of "[7, 0, 0, 0]"] assms(2) by auto
  have r: "rid_encode \<lparr>rp_page_id = 1, rp_slot_id = 0, rp_generation = 1\<rparr> = Inr \<lparr>rid_value = 0x100010000\<rparr>"
    by code_simp
  have ins: "insert_record p 1 kV1 demo_table [VInt 7] = Inr (q, \<lparr>rid_value = 0x100010000\<rparr>)"
    using e q r by (simp add: insert_record_def)
  then show ?thesis using record_page.insert_law [OF assms(1) ins] by blast
qed

text \<open>
  Replacing a row succeeds only on a record id that is in use; afterwards that id reads the new row
  and every other id what it read before.
\<close>

lemma replace_record_get:
  assumes "record_page_ok format meta pid p" and "replace_record p pid format meta rid values = Inr q"
  shows "get_record q pid format meta rid = Inr \<lparr>rec_rid = rid, rec_values = values\<rparr>
    \<and> (\<forall>rid' r. rid' \<noteq> rid \<longrightarrow>
        (get_record q pid format meta rid' = Inr r \<longleftrightarrow> get_record p pid format meta rid' = Inr r))
    \<and> (\<exists>r. get_record p pid format meta rid = Inr r)
    \<and> record_page_ok format meta pid q"
proof -
  have q: "record_page_ok format meta pid q" and used: "record_lookup format meta pid p rid \<noteq> None"
    using record_page.replace_law [OF assms] by auto
  then have ok: "page_ok p pid" "page_ok q pid" using assms(1) by (auto simp: record_page_ok_def)
  from used obtain vs where "record_lookup format meta pid p rid = Some vs" by blast
  then have "get_record p pid format meta rid = Inr \<lparr>rec_rid = rid, rec_values = vs\<rparr>"
    by (simp add: get_record_Inr [OF ok(1)])
  then have "\<exists>r. get_record p pid format meta rid = Inr r" by blast
  moreover have "(\<forall>rid' r. rid' \<noteq> rid \<longrightarrow>
      (get_record q pid format meta rid' = Inr r \<longleftrightarrow> get_record p pid format meta rid' = Inr r))
    \<and> get_record q pid format meta rid = Inr \<lparr>rec_rid = rid, rec_values = values\<rparr>"
    by (auto simp: get_record_Inr [OF ok(1)] get_record_Inr [OF ok(2)] record_page.lookup_replace [OF assms])
  ultimately show ?thesis using q by blast
qed

text \<open>A successful row operation on the page numbered \<open>pid\<close>.\<close>

inductive record_step :: "RowFormat \<Rightarrow> TableMeta \<Rightarrow> PageId \<Rightarrow> RawPage \<Rightarrow> RawPage \<Rightarrow> bool"
  for format meta pid where
  record_step_insert: "insert_record p pid format meta vs = Inr (q, rid) \<Longrightarrow> record_step format meta pid p q"
| record_step_replace: "replace_record p pid format meta rid vs = Inr q \<Longrightarrow> record_step format meta pid p q"
| record_step_erase: "erase_record p pid rid = Inr q \<Longrightarrow> record_step format meta pid p q"

lemma record_steps_store: "(record_step format meta pid)\<^sup>*\<^sup>* = (record_page.step pid format meta)\<^sup>*\<^sup>*"
proof -
  have "record_step format meta pid p q \<longleftrightarrow> record_page.step pid format meta p q" for p q
    by (auto elim!: record_step.cases record_page.step.cases intro: record_step.intros record_page.step.intros)
  then show ?thesis by (intro arg_cong [where f = rtranclp]) (simp add: fun_eq_iff)
qed

text \<open>
  A record id that was erased reads nothing any more, whatever rows are inserted, replaced or erased
  on the page afterwards.
\<close>

lemma erased_record_unreadable:
  assumes "record_page_ok format meta pid p" and "erase_record p pid rid = Inr q"
    and "(record_step format meta pid)\<^sup>*\<^sup>* q s"
  shows "get_record s pid format meta rid \<noteq> Inr r"
proof -
  note st = assms(3) [unfolded record_steps_store]
  have "record_page_ok format meta pid q" using record_page.erase_law [OF assms(1,2)] by blast
  then have "page_ok s pid" using record_page.steps_keep [OF st] by (simp add: record_page_ok_def)
  then show ?thesis
    using record_page.erased_stays_invalid [OF assms(1,2) st] by (simp add: get_record_Inr)
qed

lemma demo_erase:
  "\<exists>p q. record_page_ok kV1 demo_table 1 p \<and> erase_record p 1 \<lparr>rid_value = 0x100010000\<rparr> = Inr q"
proof -
  obtain p q where q: "record_page_ok kV1 demo_table 1 p"
    "insert_record p 1 kV1 demo_table [VInt 7] = Inr (q, \<lparr>rid_value = 0x100010000\<rparr>)"
    "record_page_ok kV1 demo_table 1 q" using demo_page demo_insert by blast
  obtain h where h: "rid_handle 1 \<lparr>rid_value = 0x100010000\<rparr> = Some h" "lookup_slot (abs_page q) h \<noteq> None"
    using record_page.insert_law [OF q(1,2)]
    by (auto simp: record_lookup_def fun_eq_iff bind_eq_Some_conv dest!: spec [where x = "\<lparr>rid_value = 0x100010000\<rparr>"])
  then obtain r where "erase q 1 h = Inr r"
    using erase_refines [of q 1 h] q(3) by (auto simp: record_page_ok_def spec_erase_def)
  then show ?thesis using q(3) h(1) by (auto simp: erase_record_Inr)
qed

end
