(* ===== verification/Heap_Table.thy ===== *)
theory Heap_Table
  imports Buffer_Pool Record_Page
begin

text \<open>
  \<open>src/storage/heap_table.cpp\<close>: the rows of a table on the data pages of its file. A table is its schema and row format;
  each operation acquires the file anew, asks it which pages are allocated and works on the pages through guards of
  the buffer pool. The hooks of \<open>NewRecordPageIo\<close>, which tests set, are empty, and the prefetch that a scan starts is
  left out.
\<close>

datatype HeapTableErrorKind = HeapInvalidArgument | HeapValueTooLarge | HeapNoVictim | HeapIo | HeapCorrupt

datatype HeapTableError = HeapTableError (heap_error_kind: HeapTableErrorKind) (heap_error_message: string)

fun translate_file :: "PageFileError \<Rightarrow> HeapTableError" where
  "translate_file (PageFileError FileIo message) = HeapTableError HeapIo message"
| "translate_file (PageFileError FileCorrupt message) = HeapTableError HeapCorrupt message"
| "translate_file (PageFileError FileInvalidArgument message) = HeapTableError HeapInvalidArgument message"

fun translate_pool :: "BufferPoolError \<Rightarrow> HeapTableError" where
  "translate_pool (BufferPoolError PoolIo message) = HeapTableError HeapIo message"
| "translate_pool (BufferPoolError PoolCorrupt message) = HeapTableError HeapCorrupt message"
| "translate_pool (BufferPoolError PoolInvalidArgument message) = HeapTableError HeapInvalidArgument message"
| "translate_pool (BufferPoolError PoolNoVictim message) = HeapTableError HeapNoVictim message"

fun translate_codec :: "RecordCodecError \<Rightarrow> HeapTableError" where
  "translate_codec (RecordCodecError CodecInvalidArgument message) = HeapTableError HeapInvalidArgument message"
| "translate_codec (RecordCodecError CodecValueTooLarge message) = HeapTableError HeapValueTooLarge message"
| "translate_codec (RecordCodecError CodecCorrupt message) = HeapTableError HeapCorrupt message"

fun translate_record :: "RecordPageError \<Rightarrow> HeapTableError" where
  "translate_record (RecordPageError RecordPageInvalidArgument message) = HeapTableError HeapInvalidArgument message"
| "translate_record (RecordPageError RecordPageValueTooLarge message) = HeapTableError HeapValueTooLarge message"
| "translate_record (RecordPageError RecordPageCorrupt message) = HeapTableError HeapCorrupt message"
| "translate_record (RecordPageError RecordPageNoSpace message) = HeapTableError HeapCorrupt ''new RecordPage unexpectedly has no space''"

record HeapScanPosition =
  sp_next_page :: nat
  sp_next_slot :: nat
  sp_page_end_exclusive :: nat

type_synonym 'a heap_io = "Engine \<Rightarrow> (HeapTableError, 'a) result \<times> Engine"

definition heap_bind :: "'a heap_io \<Rightarrow> ('a \<Rightarrow> 'b heap_io) \<Rightarrow> 'b heap_io" where
  "heap_bind m f e = (case m e of (Inl error, e1) \<Rightarrow> (Inl error, e1) | (Inr a, e1) \<Rightarrow> f a e1)"

definition heap_fail :: "HeapTableErrorKind \<Rightarrow> string \<Rightarrow> 'a heap_io" where
  "heap_fail kind message e = (Inl (HeapTableError kind message), e)"

text \<open>An operation on the file of a table, which a lease keeps in the file manager.\<close>

definition on_lease :: "TableId \<Rightarrow> 'a page_io \<Rightarrow> 'a heap_io" where
  "on_lease table_id operation e =
     (case acquire_file table_id e of
        Inl error \<Rightarrow> (Inl (translate_file error), e)
      | Inr pf \<Rightarrow> (case operation pf of (r, pf1) \<Rightarrow>
          (map_error translate_file r, e\<lparr>en_files := (en_files e)(table_id \<mapsto> pf1)\<rparr>)))"

definition acquire_table :: "TableMeta \<Rightarrow> unit heap_io" where
  "acquire_table meta = on_lease (tm_table_id meta) require_open"

definition table_page_count :: "TableMeta \<Rightarrow> nat heap_io" where
  "table_page_count meta = on_lease (tm_table_id meta) (\<lambda>pf. (Inr (pf_page_count pf), pf))"

definition page_key :: "TableMeta \<Rightarrow> PageId \<Rightarrow> PageKey" where
  "page_key meta page_id = \<lparr>pk_table_id = tm_table_id meta, pk_page_id = page_id\<rparr>"

text \<open>Work on a page under a guard, which is released at the end of the block.\<close>

definition with_guard :: "TableMeta \<Rightarrow> PageId \<Rightarrow> (FrameId \<Rightarrow> 'a heap_io) \<Rightarrow> 'a heap_io" where
  "with_guard meta page_id body e =
     (case fetch_page (page_key meta page_id) e of
        (Inl error, e1) \<Rightarrow> (Inl (translate_pool error), e1)
      | (Inr frame_id, e1) \<Rightarrow> (case body frame_id e1 of (r, e2) \<Rightarrow> (r, unpin frame_id e2)))"

subsection \<open>Insertion\<close>

text \<open>The row on the page under the guard; \<open>None\<close> if the page has no space for it.\<close>

definition insert_on_page ::
    "RowFormat \<Rightarrow> TableMeta \<Rightarrow> PageId \<Rightarrow> Value list \<Rightarrow> FrameId \<Rightarrow> (RecordPageError, RecordId) result heap_io" where
  "insert_on_page format meta page_id row frame_id e =
     (case insert_record (guard_page frame_id e) page_id format meta row of
        Inl error \<Rightarrow> (Inr (Inl error), e)
      | Inr (page, rid) \<Rightarrow> (Inr (Inr rid), change_guarded frame_id page e))"

definition compensate :: "TableMeta \<Rightarrow> PageId \<Rightarrow> HeapTableError \<Rightarrow> 'a heap_io" where
  "compensate meta page_id original e =
     (case on_lease (tm_table_id meta) (free_page page_id) e of
        (Inl error, e1) \<Rightarrow>
          (case on_lease (tm_table_id meta) (\<lambda>pf. (Inr (), mark_poisoned pf)) e1 of (_, e2) \<Rightarrow>
             (Inl (HeapTableError HeapIo (''bootstrap failed: '' @ heap_error_message original
               @ ''; compensation failed: '' @ heap_error_message error)), e2))
      | (Inr _, e1) \<Rightarrow> (Inl original, e1))"

definition create_record_page :: "RowFormat \<Rightarrow> TableMeta \<Rightarrow> Value list \<Rightarrow> RecordId heap_io" where
  "create_record_page format meta row =
     heap_bind (on_lease (tm_table_id meta) allocate_page) (\<lambda>page_id.
       case initialize_record_page page_id of
         Inl error \<Rightarrow> compensate meta page_id (translate_record error)
       | Inr scratch \<Rightarrow> (\<lambda>e.
           case on_lease (tm_table_id meta) (write_page page_id scratch) e of
             (Inl error, e1) \<Rightarrow> compensate meta page_id error e1
           | (Inr _, e1) \<Rightarrow>
               heap_bind (with_guard meta page_id (insert_on_page format meta page_id row)) (\<lambda>inserted e2.
                 (map_error translate_record inserted, e2)) e1))"

text \<open>First fit: the allocated pages in order of their ids, then a new page.\<close>

fun first_fit :: "RowFormat \<Rightarrow> TableMeta \<Rightarrow> Value list \<Rightarrow> PageId list \<Rightarrow> RecordId heap_io" where
  "first_fit format meta row [] e = create_record_page format meta row e"
| "first_fit format meta row (page_id # rest) e =
     heap_bind (on_lease (tm_table_id meta) (page_allocation_state page_id)) (\<lambda>state e.
       if state = kFree then first_fit format meta row rest e
       else
         heap_bind (with_guard meta page_id (insert_on_page format meta page_id row)) (\<lambda>inserted e.
           case inserted of
             Inl error \<Rightarrow>
               if record_page_kind error = RecordPageNoSpace then first_fit format meta row rest e
               else (Inl (translate_record error), e)
           | Inr rid \<Rightarrow> (Inr rid, e)) e) e"

definition data_pages :: "nat \<Rightarrow> PageId list" where
  "data_pages page_count = map word_of_nat [1..<page_count]"

definition heap_insert_record :: "RowFormat \<Rightarrow> TableMeta \<Rightarrow> Value list \<Rightarrow> RecordId heap_io" where
  "heap_insert_record format meta row e =
     (case encoded_size format meta row of
        Inl error \<Rightarrow> (Inl (translate_codec error), e)
      | Inr row_size \<Rightarrow>
          if row_size = 0 then heap_fail HeapInvalidArgument ''empty record schema'' e
          else heap_bind (acquire_table meta) (\<lambda>_. heap_bind (table_page_count meta) (\<lambda>page_count.
            first_fit format meta row (data_pages page_count))) e)"

text \<open>A batch stops at the first row that fails; the ids of the rows before it are part of the result.\<close>

fun insert_each :: "RowFormat \<Rightarrow> TableMeta \<Rightarrow> Value list list \<Rightarrow> Engine \<Rightarrow> (RecordId list \<times> HeapTableError option) \<times> Engine" where
  "insert_each format meta [] e = (([], None), e)"
| "insert_each format meta (row # rows) e =
     (case heap_insert_record format meta row e of
        (Inl error, e1) \<Rightarrow> (([], Some error), e1)
      | (Inr rid, e1) \<Rightarrow> (case insert_each format meta rows e1 of ((rids, error), e2) \<Rightarrow> ((rid # rids, error), e2)))"

definition insert_batch ::
    "RowFormat \<Rightarrow> TableMeta \<Rightarrow> Value list list \<Rightarrow> Engine \<Rightarrow> (RecordId list \<times> HeapTableError option) \<times> Engine" where
  "insert_batch format meta rows e =
     (case acquire_table meta e of
        (Inl error, e1) \<Rightarrow> (([], Some error), e1)
      | (Inr _, e1) \<Rightarrow> insert_each format meta rows e1)"

subsection \<open>Deletion\<close>

text \<open>The page of a record page_id, if it is allocated, under a guard.\<close>

definition with_record_page :: "TableMeta \<Rightarrow> RecordId \<Rightarrow> (PageId \<Rightarrow> FrameId \<Rightarrow> 'a heap_io) \<Rightarrow> 'a heap_io" where
  "with_record_page meta rid body e =
     (case rid_decode rid of
        Inl error \<Rightarrow> (Inl (translate_record error), e)
      | Inr parts \<Rightarrow>
          heap_bind (on_lease (tm_table_id meta) (page_allocation_state (rp_page_id parts))) (\<lambda>state.
            if state = kFree then heap_fail HeapInvalidArgument ''RID refers to a free page''
            else with_guard meta (rp_page_id parts) (body (rp_page_id parts))) e)"

definition delete_record :: "RowFormat \<Rightarrow> TableMeta \<Rightarrow> RecordId \<Rightarrow> unit heap_io" where
  "delete_record format meta rid e =
     (case rid_decode rid of
        Inl error \<Rightarrow> (Inl (translate_record error), e)
      | Inr _ \<Rightarrow>
          heap_bind (acquire_table meta) (\<lambda>_.
            with_record_page meta rid (\<lambda>page_id frame_id e.
              case get_record (guard_page frame_id e) page_id format meta rid of
                Inl error \<Rightarrow> (Inl (translate_record error), e)
              | Inr _ \<Rightarrow>
                  (case erase_record (guard_page frame_id e) page_id rid of
                     Inl error \<Rightarrow> (Inl (translate_record error), e)
                   | Inr page \<Rightarrow> (Inr (), change_guarded frame_id page e)))) e)"

fun delete_each :: "RowFormat \<Rightarrow> TableMeta \<Rightarrow> RecordId list \<Rightarrow> Engine \<Rightarrow> (nat \<times> HeapTableError option) \<times> Engine" where
  "delete_each format meta [] e = ((0, None), e)"
| "delete_each format meta (rid # rids) e =
     (case delete_record format meta rid e of
        (Inl error, e1) \<Rightarrow> ((0, Some error), e1)
      | (Inr _, e1) \<Rightarrow> (case delete_each format meta rids e1 of ((n, error), e2) \<Rightarrow> ((n + 1, error), e2)))"

definition delete_batch :: "RowFormat \<Rightarrow> TableMeta \<Rightarrow> RecordId list \<Rightarrow> Engine \<Rightarrow> (nat \<times> HeapTableError option) \<times> Engine" where
  "delete_batch format meta rids e =
     (case acquire_table meta e of
        (Inl error, e1) \<Rightarrow> ((0, Some error), e1)
      | (Inr _, e1) \<Rightarrow> delete_each format meta rids e1)"

subsection \<open>Update\<close>

definition validate_update :: "RowFormat \<Rightarrow> TableMeta \<Rightarrow> UpdateRow \<Rightarrow> unit heap_io" where
  "validate_update format meta row =
     heap_bind (acquire_table meta) (\<lambda>_ e.
       case encoded_size format meta (uw_values row) of
         Inl error \<Rightarrow> (Inl (translate_codec error), e)
       | Inr _ \<Rightarrow>
           with_record_page meta (uw_rid row) (\<lambda>page_id frame_id e.
             (map_error translate_record (bind_result (get_record (guard_page frame_id e) page_id format meta (uw_rid row))
                (\<lambda>_. Inr ())), e)) e)"

definition update_record :: "RowFormat \<Rightarrow> TableMeta \<Rightarrow> UpdateRow \<Rightarrow> unit heap_io" where
  "update_record format meta row =
     heap_bind (acquire_table meta) (\<lambda>_ e.
       case rid_decode (uw_rid row) of
         Inl error \<Rightarrow> (Inl (translate_record error), e)
       | Inr parts \<Rightarrow>
           with_guard meta (rp_page_id parts) (\<lambda>frame_id e.
             case replace_record (guard_page frame_id e) (rp_page_id parts) format meta (uw_rid row) (uw_values row) of
               Inl error \<Rightarrow>
                 if record_page_kind error = RecordPageNoSpace then
                   heap_fail HeapValueTooLarge ''updated record does not fit its RecordPage'' e
                 else (Inl (translate_record error), e)
             | Inr page \<Rightarrow> (Inr (), change_guarded frame_id page e)) e)"

fun validate_each :: "RowFormat \<Rightarrow> TableMeta \<Rightarrow> RecordId list \<Rightarrow> UpdateRow list \<Rightarrow> unit heap_io" where
  "validate_each format meta seen [] e = (Inr (), e)"
| "validate_each format meta seen (row # rows) e =
     (if List.member seen (uw_rid row) then heap_fail HeapInvalidArgument ''update request contains a duplicate RID'' e
      else heap_bind (validate_update format meta row) (\<lambda>_. validate_each format meta (seen @ [uw_rid row]) rows) e)"

fun update_each :: "RowFormat \<Rightarrow> TableMeta \<Rightarrow> UpdateRow list \<Rightarrow> Engine \<Rightarrow> (nat \<times> HeapTableError option) \<times> Engine" where
  "update_each format meta [] e = ((0, None), e)"
| "update_each format meta (row # rows) e =
     (case update_record format meta row e of
        (Inl error, e1) \<Rightarrow> ((0, Some error), e1)
      | (Inr _, e1) \<Rightarrow> (case update_each format meta rows e1 of ((n, error), e2) \<Rightarrow> ((n + 1, error), e2)))"

definition update_batch :: "RowFormat \<Rightarrow> TableMeta \<Rightarrow> UpdateRow list \<Rightarrow> Engine \<Rightarrow> (nat \<times> HeapTableError option) \<times> Engine" where
  "update_batch format meta rows e =
     (case acquire_table meta e of
        (Inl error, e1) \<Rightarrow> ((0, Some error), e1)
      | (Inr _, e1) \<Rightarrow>
          (case validate_each format meta [] rows e1 of
             (Inl error, e2) \<Rightarrow> ((0, Some error), e2)
           | (Inr _, e2) \<Rightarrow> update_each format meta rows e2))"

subsection \<open>Scanning\<close>

definition begin_scan :: "TableMeta \<Rightarrow> HeapScanPosition heap_io" where
  "begin_scan meta = heap_bind (acquire_table meta) (\<lambda>_. heap_bind (table_page_count meta) (\<lambda>page_count e.
     (Inr \<lparr>sp_next_page = 1, sp_next_slot = 0, sp_page_end_exclusive = page_count\<rparr>, e)))"

text \<open>The loop of \<open>next_record\<close> over the pages: the record it finds, if any, and the position behind it.\<close>

function scan_pages :: "RowFormat \<Rightarrow> TableMeta \<Rightarrow> HeapScanPosition \<Rightarrow> (Record option \<times> HeapScanPosition) heap_io" where
  "scan_pages format meta candidate e =
     (if sp_page_end_exclusive candidate \<le> sp_next_page candidate then (Inr (None, candidate), e)
      else
        let page_id = word_of_nat (sp_next_page candidate);
            next_page = candidate\<lparr>sp_next_page := sp_next_page candidate + 1, sp_next_slot := 0\<rparr> in
        heap_bind (on_lease (tm_table_id meta) (page_allocation_state page_id)) (\<lambda>state.
          if state = kAllocated then
            heap_bind (with_guard meta page_id (\<lambda>frame_id e.
                (map_error translate_record (next_record (guard_page frame_id e) page_id format meta (sp_next_slot candidate)), e)))
              (\<lambda>(found, next_position).
                case found of
                  Some record \<Rightarrow> (\<lambda>e. (Inr (Some record, candidate\<lparr>sp_next_slot := next_position\<rparr>), e))
                | None \<Rightarrow> scan_pages format meta next_page)
          else scan_pages format meta next_page) e)"
  by pat_completeness auto
termination
  by (relation "measure (\<lambda>(_, _, candidate, _). sp_page_end_exclusive candidate - sp_next_page candidate)") auto

declare scan_pages.simps [simp del]

definition position_invalid :: "HeapScanPosition \<Rightarrow> nat \<Rightarrow> bool" where
  "position_invalid position page_count \<longleftrightarrow>
     sp_next_page position < 1 \<or> sp_page_end_exclusive position < 1
     \<or> sp_page_end_exclusive position < sp_next_page position \<or> 4294967296 < sp_page_end_exclusive position
     \<or> page_count < sp_page_end_exclusive position \<or> kMaxSlotsPerPage < sp_next_slot position
     \<or> (sp_next_page position = sp_page_end_exclusive position \<and> sp_next_slot position \<noteq> 0)"

text \<open>The record, or none at the end, with the new position; an error keeps the position.\<close>

definition heap_next_record ::
    "RowFormat \<Rightarrow> TableMeta \<Rightarrow> HeapScanPosition \<Rightarrow> Engine \<Rightarrow> ((HeapTableError, Record option) result \<times> HeapScanPosition) \<times> Engine" where
  "heap_next_record format meta position e =
     (case heap_bind (acquire_table meta) (\<lambda>_. heap_bind (table_page_count meta) (\<lambda>page_count.
         if position_invalid position page_count then heap_fail HeapInvalidArgument ''invalid heap scan position''
         else scan_pages format meta position)) e of
        (Inl error, e1) \<Rightarrow> ((Inl error, position), e1)
      | (Inr (found, next), e1) \<Rightarrow> ((Inr found, next), e1))"

end
