(* ===== verification/Page_Store.thy ===== *)
theory Page_Store
  imports Main
begin

text \<open>
  The contracts of a store of pages as its clients see it. \<open>page_access\<close> reads and writes the pages of a partial map
  from page ids to contents; a failed operation may change the page that it was given, never another one. \<open>page_store\<close>
  adds pages to the map and takes them away. \<open>Page_File_Properties\<close> provides \<open>page_store\<close> for a page file,
  \<open>Buffer_Pool_Properties\<close> provides \<open>page_access\<close> for a table behind the buffer pool, and the heap table relies on both.
\<close>

locale page_access =
  fixes wf :: "'s \<Rightarrow> bool"
    and view :: "'s \<Rightarrow> 'k \<Rightarrow> 'p option"
    and fetch :: "'k \<Rightarrow> 's \<Rightarrow> ('e + 'p) \<times> 's"
    and store :: "'k \<Rightarrow> 'p \<Rightarrow> 's \<Rightarrow> ('e + unit) \<times> 's"
  assumes fetch_law: "wf s \<Longrightarrow> fetch k s = (rf, s1) \<Longrightarrow> wf s1 \<and> view s1 = view s \<and> (\<forall>p. rf = Inr p \<longrightarrow> view s k = Some p)"
    and store_law: "wf s \<Longrightarrow> store k p s = (rs, s1) \<Longrightarrow> wf s1 \<and> (\<forall>j. j \<noteq> k \<longrightarrow> view s1 j = view s j)
      \<and> (view s1 k = None \<longleftrightarrow> view s k = None) \<and> (rs = Inr () \<longrightarrow> view s k \<noteq> None \<and> view s1 k = Some p)"
begin

text \<open>One access, successful or not, that does not write page \<open>k\<close>.\<close>

inductive elsewhere :: "'k \<Rightarrow> 's \<Rightarrow> 's \<Rightarrow> bool" for k where
  elsewhere_fetch: "fetch j s = (r, s1) \<Longrightarrow> elsewhere k s s1"
| elsewhere_store: "store j p s = (r, s1) \<Longrightarrow> j \<noteq> k \<Longrightarrow> elsewhere k s s1"

lemma elsewhere_keeps: "elsewhere k s s1 \<Longrightarrow> wf s \<Longrightarrow> wf s1 \<and> view s1 k = view s k"
  by (erule elsewhere.cases) (auto dest: fetch_law store_law)

lemma elsewhere_many: "(elsewhere k)\<^sup>*\<^sup>* s s1 \<Longrightarrow> wf s \<Longrightarrow> wf s1 \<and> view s1 k = view s k"
  by (induction rule: rtranclp_induct) (auto dest: elsewhere_keeps)

text \<open>A page reads as it was last written, whatever is done to the others in between.\<close>

lemma read_after_write:
  assumes "wf s" "store k p s = (Inr (), s1)" "(elsewhere k)\<^sup>*\<^sup>* s1 s2" "fetch k s2 = (Inr q, s3)"
  shows "q = p"
proof -
  have "wf s1" "view s1 k = Some p" using store_law [OF assms(1,2)] by auto
  then show ?thesis using elsewhere_many [OF assms(3)] fetch_law [OF _ assms(4)] by auto
qed

end

locale page_store = page_access wf view fetch store
  for wf :: "'s \<Rightarrow> bool" and view :: "'s \<Rightarrow> 'k \<Rightarrow> 'p option" and fetch :: "'k \<Rightarrow> 's \<Rightarrow> ('e + 'p) \<times> 's"
    and store :: "'k \<Rightarrow> 'p \<Rightarrow> 's \<Rightarrow> ('e + unit) \<times> 's" +
  fixes blank :: 'p
    and allocate :: "'s \<Rightarrow> ('e + 'k) \<times> 's"
    and release :: "'k \<Rightarrow> 's \<Rightarrow> ('e + unit) \<times> 's"
  assumes allocate_law: "wf s \<Longrightarrow> allocate s = (ra, s1) \<Longrightarrow> wf s1 \<and> (\<forall>j. view s j \<noteq> None \<longrightarrow> view s1 j = view s j)
      \<and> (\<forall>k. ra = Inr k \<longrightarrow> view s k = None \<and> view s1 = (view s)(k \<mapsto> blank))"
    and release_law: "wf s \<Longrightarrow> release k s = (rr, s1) \<Longrightarrow> wf s1 \<and> (\<forall>j. j \<noteq> k \<longrightarrow> view s1 j = view s j)
      \<and> (rr = Inr () \<longrightarrow> view s k \<noteq> None \<and> view s1 k = None)"
begin

text \<open>A page that was written stays allocated under accesses, so it is not handed out again.\<close>

lemma allocate_not_in_use:
  assumes "wf s" "store k p s = (Inr (), s1)" "(elsewhere k)\<^sup>*\<^sup>* s1 s2" "allocate s2 = (Inr j, s3)"
  shows "j \<noteq> k" "view s3 k = Some p"
proof -
  have "wf s1" "view s1 k = Some p" using store_law [OF assms(1,2)] by auto
  then have "wf s2" "view s2 k = Some p" using elsewhere_many [OF assms(3)] by auto
  then show "j \<noteq> k" "view s3 k = Some p" using allocate_law [OF _ assms(4)] by auto
qed

end

end
