(* ===== verification/Page_File_Properties.thy ===== *)
theory Page_File_Properties
  imports Page_File Page_Store
begin

text \<open>
  What the page file guarantees: the free list in the file is acyclic and disjoint from the allocated pages, every
  operation keeps that whatever the stream does, reading ends on every file however its links run, and a file that
  was not poisoned is read back as it was. The view of a file is the partial map from allocated pages to contents.
\<close>

subsection \<open>Layout\<close>

lemma put_u64_bytes:
  "put_u64 p k v i = (if k \<le> i \<and> i < k + 8 then le_byte (i - k) v else p i)"
proof -
  have "i = k \<or> i = k + 1 \<or> i = k + 2 \<or> i = k + 3 \<or> i = k + 4 \<or> i = k + 5 \<or> i = k + 6 \<or> i = k + 7"
    if "k \<le> i" "i < k + 8" using that by linarith
  then show ?thesis
    by (auto simp: put_u64_def le_byte_def numeral_nat upt_rec)
qed

lemma get_u64_le_value: "get_u64 p k = le_value (map p [k..<k + 8])"
proof -
  have "fold (\<lambda>i v. v OR push_bit (i * 8) (ucast (map p [k..<k + 8] ! i))) [0..<8] (0 :: u64)
      = fold (\<lambda>i v. v OR push_bit (i * 8) (ucast (p (k + i)))) [0..<8] 0"
    by (rule fold_cong) auto
  then show ?thesis by (simp add: get_u64_def le_value_def)
qed

lemma get_put_u64: "get_u64 (put_u64 p k v) k = v"
proof -
  have "map (put_u64 p k v) [k..<k + 8] = le_bytes 8 v"
    by (rule nth_equalityI) (auto simp: put_u64_bytes le_bytes_def)
  then show ?thesis by (simp add: get_u64_le_value le_value_le_bytes)
qed

lemma length_magic [simp]: "length kPageFileMagic = 8" "length kFreePageMagic = 4"
  by (simp_all add: kPageFileMagic_def kFreePageMagic_def)

lemma magic_bytes:
  "(\<And>i. i < length magic \<Longrightarrow> p i = byte_of_char (magic ! i)) \<Longrightarrow> starts_with_magic p magic"
  by (simp add: starts_with_magic_def list_all_iff)

lemma header_fields:
  "starts_with_magic (make_header n h) kPageFileMagic"
  "get_u32 (make_header n h) kFileVersionOffset = kPageFileFormatVersion"
  "get_u32 (make_header n h) kFreePageHeadOffset = h"
  "get_u64 (make_header n h) kPageCountOffset = word_of_nat n"
proof -
  let ?a = "copy_bytes (\<lambda>_. 0) 0 (map byte_of_char kPageFileMagic)"
  have h: "make_header n h = put_u64 (put_u32 (put_u32 ?a 8 1) 12 h) 16 (word_of_nat n)"
    by (simp add: make_header_def Let_def kFileVersionOffset_def kFreePageHeadOffset_def kPageCountOffset_def kPageFileFormatVersion_def)
  show "starts_with_magic (make_header n h) kPageFileMagic"
    by (rule magic_bytes) (simp add: h put_u64_bytes put_u32_bytes copy_bytes_def)
  have "get_u32 (make_header n h) 8 = get_u32 (put_u32 ?a 8 1) 8"
    unfolding h by (rule get_u32_cong) (simp add: put_u64_bytes put_u32_bytes)
  then show "get_u32 (make_header n h) kFileVersionOffset = kPageFileFormatVersion"
    by (simp add: kFileVersionOffset_def kPageFileFormatVersion_def)
  have "get_u32 (make_header n h) 12 = get_u32 (put_u32 (put_u32 ?a 8 1) 12 h) 12"
    unfolding h by (rule get_u32_cong) (simp add: put_u64_bytes)
  then show "get_u32 (make_header n h) kFreePageHeadOffset = h" by (simp add: kFreePageHeadOffset_def)
  show "get_u64 (make_header n h) kPageCountOffset = word_of_nat n"
    by (simp add: h kPageCountOffset_def get_put_u64)
qed

lemma free_page_fields:
  "starts_with_magic (make_free_page h) kFreePageMagic" "get_u32 (make_free_page h) 4 = h"
  by (auto simp: make_free_page_def put_u32_bytes copy_bytes_def intro!: magic_bytes)

lemma page_offset_Some [simp]: "page_offset page_id = Some (unat page_id * kPageSize)"
proof -
  have "unat page_id < 2 ^ 32" using unsigned_less [of page_id, where 'a = nat] by simp
  then show ?thesis by (simp add: page_offset_def kPageSize_def)
qed

subsection \<open>Reading ends on every file\<close>

lemma only_reads_refl [simp]: "only_reads n s s"
  by (simp add: only_reads_def)

lemma only_reads_trans: "only_reads n s s1 \<Longrightarrow> only_reads m s1 s2 \<Longrightarrow> only_reads (n + m) s s2"
  by (simp add: only_reads_def)

lemma only_reads_mono: "only_reads n s s1 \<Longrightarrow> n \<le> m \<Longrightarrow> only_reads m s s1"
  by (simp add: only_reads_def)

text \<open>The loop on any file: at most one read for each page that was not visited yet.\<close>

lemma free_walk_reads:
  "free_walk page_id visited found current s = (r, s1) \<Longrightarrow>
     only_reads (card ({c. unat c < pf_page_count s} - set visited)) s s1"
proof (induction page_id visited found current s arbitrary: r s1 rule: free_walk.induct)
  case (1 page_id visited found current s)
  note step = "1.prems" [unfolded free_walk.simps [of page_id visited found current s]]
  show ?case
  proof (cases "current = 0 \<or> pf_page_count s \<le> unat current \<or> List.member visited current")
    case True
    then show ?thesis using step by (auto simp: io_fail_def split: if_splits)
  next
    case False
    obtain x s2 where x: "read_free_next current s = (x, s2)" by fastforce
    note rd = read_free_next_only_reads [OF x]
    have less: "card ({c. unat c < pf_page_count s} - insert current (set visited)) < card ({c. unat c < pf_page_count s} - set visited)"
      using False by (intro card_remove_one) simp_all
    show ?thesis
    proof (cases x)
      case (Inl e)
      then show ?thesis using step x False rd less
        by (auto intro: only_reads_mono)
    next
      case (Inr nxt)
      then have "free_walk page_id (current # visited) (found \<or> current = page_id) nxt s2 = (r, s1)"
        using step x False by auto
      from "1.IH" [OF _ _ x [symmetric] Inr this] False
      have "only_reads (card ({c. unat c < pf_page_count s2} - insert current (set visited))) s2 s1" by simp
      then have "only_reads (1 + card ({c. unat c < pf_page_count s} - insert current (set visited))) s s1"
        using only_reads_trans [OF rd] rd by (simp add: only_reads_def)
      then show ?thesis by (rule only_reads_mono) (use less in simp)
    qed
  qed
qed

lemma card_below: "card {c :: u32. unat c < n} \<le> n"
proof -
  have "card (unat ` {c :: u32. unat c < n}) \<le> card {..<n}" by (rule card_mono) auto
  moreover have "inj_on unat {c :: u32. unat c < n}" by (rule inj_onI) (simp add: word_unat_eq_iff)
  ultimately show ?thesis by (simp add: card_image)
qed

lemma is_free_page_reads:
  assumes "is_free_page page_id s = (r, s1)"
  shows "only_reads (pf_page_count s) s s1"
proof -
  have "card ({c. unat c < pf_page_count s} - set ([] :: u32 list)) \<le> pf_page_count s" using card_below by simp
  then show ?thesis using free_walk_reads [OF assms [unfolded is_free_page_def]] only_reads_mono by blast
qed

lemma require_open_state: "require_open s = (r, s1) \<Longrightarrow> s1 = s"
  by (auto simp: require_open_def io_fail_def split: if_splits)

lemma io_bind_cases:
  assumes "io_bind m f s = (r, s2)"
  obtains (failed) e where "m s = (Inl e, s2)" "r = Inl e"
    | (went_on) a s1 where "m s = (Inr a, s1)" "f a s1 = (r, s2)"
  using assms by (auto simp: io_bind_def split: prod.splits sum.splits)

lemma io_fail_iff [simp]: "io_fail kind message s = (r, s1) \<longleftrightarrow> r = Inl (PageFileError kind message) \<and> s1 = s"
  by (auto simp: io_fail_def)

lemma require_open_iff:
  "require_open s = (r, s1) \<longleftrightarrow> s1 = s \<and>
     (if \<not> pf_open s then r = Inl (PageFileError FileInvalidArgument ''PageFile is closed'')
      else if pf_poisoned s then r = Inl (PageFileError FileIo ''PageFile state is unavailable after an I/O failure'')
      else r = Inr ())"
  by (auto simp: require_open_def)

text \<open>A write changes one page of the file, to the given contents if it succeeds.\<close>

lemma write_raw_page_effect:
  assumes "write_raw_page page_id page s = (r, s1)"
  shows "\<exists>left reached. pf_file s1 = (if r = Inr () then put_page (unat page_id) page kPageSize (pf_file s)
        else if reached = None then pf_file s else put_page (unat page_id) left (the reached) (pf_file s))
      \<and> pf_open s1 = pf_open s \<and> pf_poisoned s1 = pf_poisoned s \<and> pf_page_count s1 = pf_page_count s
      \<and> pf_free_page_head s1 = pf_free_page_head s \<and> pf_read_attempts s1 = pf_read_attempts s"
proof -
  obtain outcome s0 where t: "take_outcome s = (outcome, s0)" by fastforce
  note k = take_outcome_only_reads [OF t, unfolded only_reads_def]
  show ?thesis
  proof (cases outcome)
    case (TransferFails bad left reached)
    then show ?thesis using assms t k
      by (auto simp: write_raw_page_def take_outcome_def split: list.splits
          intro!: exI [of _ left] exI [of _ "Some (min reached kPageSize)"])
  qed (use assms t k in \<open>auto simp: write_raw_page_def take_outcome_def split: list.splits\<close>)
qed

lemma publish_header_effect:
  "publish_header restore s = (r, s1) \<Longrightarrow>
     \<exists>s2. write_header s = (r, s2) \<and> s1 = (if r = Inr () then s2 else mark_poisoned (restore s2))"
  by (auto simp: publish_header_def split: prod.splits sum.splits)

text \<open>Composing the bounds on the reads of the parts.\<close>

definition reads_at_most :: "nat \<Rightarrow> 'a page_io \<Rightarrow> PageFile \<Rightarrow> bool" where
  "reads_at_most n m s \<longleftrightarrow> pf_read_attempts (snd (m s)) \<le> pf_read_attempts s + n"

lemma reads_at_most_bind:
  assumes "reads_at_most n m s" "\<And>a s1. m s = (Inr a, s1) \<Longrightarrow> reads_at_most k (f a) s1" "n + k \<le> l"
  shows "reads_at_most l (io_bind m f) s"
proof (cases "m s")
  case (Pair x s1)
  then show ?thesis using assms by (cases x) (fastforce simp: reads_at_most_def io_bind_def)+
qed

lemma reads_at_most_only_reads: "(\<And>r s1. m s = (r, s1) \<Longrightarrow> only_reads n s s1) \<Longrightarrow> reads_at_most n m s"
  by (cases "m s") (simp add: reads_at_most_def only_reads_def)

lemma write_raw_page_attempts: "write_raw_page page_id page s = (r, s1) \<Longrightarrow> pf_read_attempts s1 = pf_read_attempts s"
  using write_raw_page_effect [of page_id page s] by blast

lemma reads_at_most_steps:
  "reads_at_most 0 require_open s" "reads_at_most n (io_fail kind message) s"
  "reads_at_most (pf_page_count s) (is_free_page page_id) s"
  "reads_at_most 1 (read_raw_page page_id) s" "reads_at_most 1 (read_free_next page_id) s"
  "reads_at_most 0 (write_raw_page page_id page) s"
proof -
  show "reads_at_most 0 require_open s" by (rule reads_at_most_only_reads) (simp add: require_open_iff)
  show "reads_at_most n (io_fail kind message) s" by (simp add: reads_at_most_def io_fail_def)
  show "reads_at_most (pf_page_count s) (is_free_page page_id) s"
    by (rule reads_at_most_only_reads) (rule is_free_page_reads)
  show "reads_at_most 1 (read_raw_page page_id) s"
    by (rule reads_at_most_only_reads) (rule read_raw_page_only_reads)
  show "reads_at_most 1 (read_free_next page_id) s"
    by (rule reads_at_most_only_reads) (rule read_free_next_only_reads)
  show "reads_at_most 0 (write_raw_page page_id page) s"
    by (cases "write_raw_page page_id page s") (simp add: reads_at_most_def write_raw_page_attempts)
qed

lemma require_open_Inr: "require_open s = (Inr a, s1) \<Longrightarrow> s1 = s"
  by (simp add: require_open_iff)

lemma publish_header_reads:
  assumes "\<And>s. pf_read_attempts (restore s) = pf_read_attempts s"
  shows "reads_at_most 0 (publish_header restore) s"
proof (cases "publish_header restore s")
  case (Pair r s1)
  then obtain s2 where w: "write_header s = (r, s2)" "s1 = (if r = Inr () then s2 else mark_poisoned (restore s2))"
    using publish_header_effect by blast
  then show ?thesis using Pair write_raw_page_attempts [OF w(1) [unfolded write_header_def]]
    by (simp add: reads_at_most_def mark_poisoned_def assms)
qed

lemma page_count_after_walk: "is_free_page page_id s = (r, s1) \<Longrightarrow> pf_page_count s1 = pf_page_count s"
  using is_free_page_reads by (simp add: only_reads_def)

lemma with_free_check_reads:
  assumes "\<And>free s1. is_free_page page_id s = (Inr free, s1) \<Longrightarrow> reads_at_most k (f free) s1"
  shows "reads_at_most (pf_page_count s + k) (io_bind require_open (\<lambda>_ s.
       if out_of_range page_id s then io_fail kind message s else io_bind (is_free_page page_id) f s)) s"
proof (rule reads_at_most_bind [OF reads_at_most_steps(1)])
  fix u s1 assume "require_open s = (Inr u, s1)"
  then have s1: "s1 = s" by (rule require_open_Inr)
  have "reads_at_most (pf_page_count s + k) (io_bind (is_free_page page_id) f) s"
    by (rule reads_at_most_bind [OF reads_at_most_steps(3)]) (use assms in auto)
  then show "reads_at_most (pf_page_count s + k) (\<lambda>s. if out_of_range page_id s then io_fail kind message s
      else io_bind (is_free_page page_id) f s) s1"
    by (simp add: s1 reads_at_most_def io_fail_def)
qed simp

lemma snd_io_fail [simp]: "snd (io_fail kind message s) = s"
  by (simp add: io_fail_def)

lemma publish_in_state_reads:
  assumes "\<And>s. pf_read_attempts (restore s) = pf_read_attempts s" "\<And>s. pf_read_attempts (change s) = pf_read_attempts s"
  shows "reads_at_most 0 (\<lambda>s. publish_header restore (change s)) s"
  using publish_header_reads [OF assms(1), of "change s"] by (simp add: reads_at_most_def assms(2))

lemma zero_page_reads:
  "reads_at_most 0 (\<lambda>s. case write_raw_page a x s of (Inl e, s1) \<Rightarrow> (Inl e, mark_poisoned s1) | (Inr _, s1) \<Rightarrow> (Inr a, s1)) s"
  using reads_at_most_steps(6) [of a x s]
  by (cases "write_raw_page a x s") (auto simp: reads_at_most_def mark_poisoned_def split: sum.splits)

lemma extend_file_reads: "reads_at_most 0 extend_file s"
proof -
  define a :: PageId where "a = word_of_nat (pf_page_count s)"
  have "reads_at_most 0 (io_bind (publish_header (\<lambda>s. s\<lparr>pf_page_count := pf_page_count s - 1\<rparr>)) (\<lambda>_ s2. (Inr a, s2)))
      (s1\<lparr>pf_page_count := n\<rparr>)" for s1 n
    by (rule reads_at_most_bind [OF publish_header_reads, where k = 0]) (simp_all add: reads_at_most_def)
  then have "reads_at_most 0 (io_bind (write_raw_page a (\<lambda>_. 0)) (\<lambda>_ s1.
      io_bind (publish_header (\<lambda>s. s\<lparr>pf_page_count := pf_page_count s - 1\<rparr>)) (\<lambda>_ s2. (Inr a, s2))
        (s1\<lparr>pf_page_count := pf_page_count s1 + 1\<rparr>))) s"
    by (intro reads_at_most_bind [OF reads_at_most_steps(6), where k = 0]) (simp_all add: reads_at_most_def)
  then show ?thesis by (simp add: extend_file_def reads_at_most_def Let_def a_def)
qed

lemma reuse_free_page_reads: "reads_at_most (pf_page_count s + 1) reuse_free_page s"
proof -
  define a where "a = pf_free_page_head s"
  define zero :: "PageId page_io" where "zero = (\<lambda>s. case write_raw_page a (\<lambda>_. 0) s of
    (Inl e, s1) \<Rightarrow> (Inl e, mark_poisoned s1) | (Inr _, s1) \<Rightarrow> (Inr a, s1))"
  have "reads_at_most 0 (io_bind (publish_header (\<lambda>s. s\<lparr>pf_free_page_head := a\<rparr>)) (\<lambda>_. zero)) (s1\<lparr>pf_free_page_head := n\<rparr>)" for s1 n
    by (rule reads_at_most_bind [OF publish_header_reads, where k = 0]) (simp_all add: zero_def zero_page_reads)
  then have tail: "reads_at_most 1 (io_bind (read_free_next a) (\<lambda>next s1.
      io_bind (publish_header (\<lambda>s. s\<lparr>pf_free_page_head := a\<rparr>)) (\<lambda>_. zero) (s1\<lparr>pf_free_page_head := next\<rparr>))) s0" for s0
    by (intro reads_at_most_bind [OF reads_at_most_steps(5), where k = 0]) (simp_all add: reads_at_most_def)
  have "reads_at_most (pf_page_count s + 1) (io_bind (is_free_page a) (\<lambda>_. io_bind (read_free_next a) (\<lambda>next s1.
      io_bind (publish_header (\<lambda>s. s\<lparr>pf_free_page_head := a\<rparr>)) (\<lambda>_. zero) (s1\<lparr>pf_free_page_head := next\<rparr>)))) s"
    by (rule reads_at_most_bind [OF reads_at_most_steps(3) tail]) simp
  then show ?thesis unfolding reads_at_most_def reuse_free_page_def Let_def a_def zero_def .
qed

lemma allocate_page_reads: "reads_at_most (pf_page_count s + 1) allocate_page s"
proof -
  have "reads_at_most (pf_page_count s + 1) extend_file s"
    using extend_file_reads [of s] by (simp add: reads_at_most_def)
  then show ?thesis unfolding allocate_page_def
    by (intro reads_at_most_bind [OF reads_at_most_steps(1)])
      (auto dest!: require_open_Inr simp: reads_at_most_def intro: reuse_free_page_reads [unfolded reads_at_most_def])
qed

lemma free_page_reads: "reads_at_most (pf_page_count s) (free_page page_id) s"
proof -
  have "reads_at_most 0 (io_bind (write_raw_page page_id x) (\<lambda>_ s1.
      publish_header (\<lambda>s. s\<lparr>pf_free_page_head := h\<rparr>) (s1\<lparr>pf_free_page_head := n\<rparr>))) s1" for x h n s1
    by (rule reads_at_most_bind [OF reads_at_most_steps(6), where k = 0]) (simp_all add: publish_in_state_reads)
  then have "reads_at_most (pf_page_count s + 0) (free_page page_id) s"
    unfolding free_page_def by (intro with_free_check_reads) (auto simp: reads_at_most_def Let_def)
  then show ?thesis by simp
qed


subsection \<open>Well-formed files and their view\<close>

text \<open>The pages that the links of the free list run through, and the list of them in a file.\<close>

fun free_chain :: "DiskFile \<Rightarrow> PageId \<Rightarrow> PageId list \<Rightarrow> bool" where
  "free_chain f head [] \<longleftrightarrow> head = 0"
| "free_chain f head (x # xs) \<longleftrightarrow> head = x \<and> x \<noteq> 0 \<and> starts_with_magic (df_pages f (unat x)) kFreePageMagic
     \<and> free_chain f (get_u32 (df_pages f (unat x)) 4) xs"

fun free_pages :: "DiskFile \<Rightarrow> nat \<Rightarrow> PageId \<Rightarrow> PageId list" where
  "free_pages f 0 head = []"
| "free_pages f (Suc n) head = (if head = 0 then [] else head # free_pages f n (get_u32 (df_pages f (unat head)) 4))"

definition free_list :: "PageFile \<Rightarrow> PageId list" where
  "free_list s = free_pages (pf_file s) (pf_page_count s) (pf_free_page_head s)"

definition free_list_ok :: "PageFile \<Rightarrow> PageId list \<Rightarrow> bool" where
  "free_list_ok s xs \<longleftrightarrow> free_chain (pf_file s) (pf_free_page_head s) xs \<and> distinct xs
     \<and> (\<forall>x \<in> set xs. unat x < pf_page_count s)"

definition page_file_ok :: "PageFile \<Rightarrow> bool" where
  "page_file_ok s \<longleftrightarrow> 1 \<le> pf_page_count s \<and> pf_page_count s \<le> 4294967296
     \<and> pf_page_count s * kPageSize \<le> df_size (pf_file s) \<and> free_list_ok s (free_list s)
     \<and> (\<not> pf_poisoned s \<longrightarrow> df_pages (pf_file s) 0 = make_header (pf_page_count s) (pf_free_page_head s))"

definition page_view :: "PageFile \<Rightarrow> PageId \<Rightarrow> RawPage option" where
  "page_view s page_id =
     (if out_of_range page_id s \<or> page_id \<in> set (free_list s) then None
      else Some (df_pages (pf_file s) (unat page_id)))"

lemma free_pages_chain: "free_chain f head xs \<Longrightarrow> length xs \<le> n \<Longrightarrow> free_pages f n head = xs"
proof (induction xs arbitrary: n head)
  case Nil
  then show ?case by (cases n) auto
next
  case (Cons x xs)
  then show ?case by (cases n) auto
qed

lemma length_below:
  assumes "distinct xs" "\<forall>x \<in> set (xs :: u32 list). unat x < n"
  shows "length xs \<le> n"
proof -
  have "card (set xs) \<le> card {c :: u32. unat c < n}" using assms(2) by (intro card_mono) auto
  then show ?thesis using card_below [of n] assms(1) by (simp add: distinct_card)
qed

lemma free_list_eq: "free_list_ok s xs \<Longrightarrow> free_list s = xs"
  by (simp add: free_list_ok_def free_list_def free_pages_chain length_below)

lemma page_file_okI:
  assumes "free_list_ok s xs" "1 \<le> pf_page_count s" "pf_page_count s \<le> 4294967296"
    "pf_page_count s * kPageSize \<le> df_size (pf_file s)"
    "\<not> pf_poisoned s \<Longrightarrow> df_pages (pf_file s) 0 = make_header (pf_page_count s) (pf_free_page_head s)"
  shows "page_file_ok s"
  using assms free_list_eq [OF assms(1)] by (simp add: page_file_ok_def)

lemma free_chain_cong:
  "(\<And>x. x \<in> set xs \<Longrightarrow> df_pages f (unat x) = df_pages g (unat x)) \<Longrightarrow> free_chain f head xs = free_chain g head xs"
  by (induction xs arbitrary: head) auto

lemma free_chain_nonzero: "free_chain f head xs \<Longrightarrow> 0 \<notin> set xs"
  by (induction xs arbitrary: head) auto

lemma free_chain_head: "free_chain f head xs \<Longrightarrow> head \<noteq> 0 \<Longrightarrow> xs = head # tl xs"
  by (cases xs) auto

lemma same_file_law:
  assumes "pf_file s1 = pf_file s" "pf_page_count s1 = pf_page_count s" "pf_free_page_head s1 = pf_free_page_head s"
  shows "free_list s1 = free_list s" "page_view s1 = page_view s" "pf_poisoned s1 = pf_poisoned s \<Longrightarrow> page_file_ok s1 = page_file_ok s"
proof -
  show l: "free_list s1 = free_list s" by (simp add: free_list_def assms)
  show "page_view s1 = page_view s" by (simp add: fun_eq_iff page_view_def out_of_range_def assms l)
  show "pf_poisoned s1 = pf_poisoned s \<Longrightarrow> page_file_ok s1 = page_file_ok s"
    by (simp add: page_file_ok_def free_list_ok_def assms l)
qed

lemma only_reads_view: "only_reads n s s1 \<Longrightarrow> free_list s1 = free_list s \<and> page_view s1 = page_view s"
  by (auto simp: only_reads_def free_list_def page_view_def out_of_range_def)

lemma only_reads_ok: "only_reads n s s1 \<Longrightarrow> page_file_ok s1 = page_file_ok s"
  using only_reads_view [of n s s1] by (simp add: only_reads_def page_file_ok_def free_list_ok_def)

subsection \<open>Reading in a well-formed file\<close>

lemma read_raw_page_Inr: "read_raw_page page_id s = (Inr page, s1) \<Longrightarrow> page = df_pages (pf_file s) (unat page_id)"
  using take_outcome_only_reads [of s]
  by (auto simp: read_raw_page_def Let_def only_reads_def split: prod.splits if_splits StreamOutcome.splits)

lemma read_free_next_Inr: "read_free_next page_id s = (Inr n, s1) \<Longrightarrow> n = get_u32 (df_pages (pf_file s) (unat page_id)) 4"
  by (auto simp: read_free_next_def split: if_splits elim!: io_bind_cases dest!: read_raw_page_Inr)

lemma free_walk_Inr:
  "free_walk page_id visited found current s = (Inr b, s1) \<Longrightarrow> free_chain (pf_file s) current xs \<Longrightarrow>
     b \<longleftrightarrow> found \<or> page_id \<in> set xs"
proof (induction page_id visited found current s arbitrary: xs rule: free_walk.induct)
  case (1 page_id visited found current s)
  note step = "1.prems"(1) [unfolded free_walk.simps [of page_id visited found current s]]
  show ?case
  proof (cases "current = 0")
    case True
    then show ?thesis using step "1.prems"(2) by (cases xs) auto
  next
    case False
    obtain ys where xs: "xs = current # ys" "free_chain (pf_file s) (get_u32 (df_pages (pf_file s) (unat current)) 4) ys"
      using "1.prems"(2) False by (cases xs) auto
    obtain n s2 where n: "read_free_next current s = (Inr n, s2)"
      "free_walk page_id (current # visited) (found \<or> current = page_id) n s2 = (Inr b, s1)"
      "\<not> (pf_page_count s \<le> unat current \<or> List.member visited current)"
      using step False by (auto split: prod.splits sum.splits if_splits)
    have "free_chain (pf_file s2) n ys" using xs(2) read_free_next_Inr [OF n(1)] read_free_next_only_reads [OF n(1)]
      by (simp add: only_reads_def)
    from "1.IH" [OF False n(3) n(1) [symmetric] refl n(2) this] show ?thesis using xs by auto
  qed
qed

lemma is_free_page_Inr:
  "is_free_page page_id s = (Inr b, s1) \<Longrightarrow> page_file_ok s \<Longrightarrow> b \<longleftrightarrow> page_id \<in> set (free_list s)"
  using free_walk_Inr [of page_id "[]" False "pf_free_page_head s" s b s1 "free_list s"]
  by (simp add: is_free_page_def page_file_ok_def free_list_ok_def)

subsection \<open>What the operations do\<close>

text \<open>The guards that all operations on a page share.\<close>

lemma with_free_check:
  assumes "io_bind require_open (\<lambda>_ s. if out_of_range page_id s then io_fail kind message s
      else io_bind (is_free_page page_id) f s) s = (r, s2)" and ok: "page_file_ok s"
  obtains (refused) e where "r = Inl e" "only_reads (pf_page_count s) s s2"
    | (accepted) s1 where "only_reads (pf_page_count s) s s1" "pf_open s" "\<not> pf_poisoned s" "\<not> out_of_range page_id s"
        "f (page_id \<in> set (free_list s)) s1 = (r, s2)"
proof -
  from assms(1) show ?thesis
  proof (cases rule: io_bind_cases)
    case (failed e)
    then show ?thesis using refused by (auto simp: require_open_iff)
  next
    case (went_on a s0)
    then have s0: "s0 = s" "pf_open s" "\<not> pf_poisoned s" by (auto simp: require_open_iff split: if_splits)
    show ?thesis
    proof (cases "out_of_range page_id s")
      case True
      then show ?thesis using went_on s0 refused by simp
    next
      case False
      then have "io_bind (is_free_page page_id) f s = (r, s2)" using went_on s0 by simp
      then show ?thesis
      proof (cases rule: io_bind_cases)
        case (failed e)
        then show ?thesis using refused is_free_page_reads by blast
      next
        case (went_on b s1)
        then show ?thesis using accepted is_free_page_reads s0(2,3) False is_free_page_Inr [OF went_on(1) ok] by blast
      qed
    qed
  qed
qed

lemma page_allocation_state_law:
  assumes "page_allocation_state page_id s = (r, s1)" "page_file_ok s"
  shows "\<exists>n. only_reads n s s1" "r = Inr kAllocated \<Longrightarrow> page_view s page_id \<noteq> None" "r = Inr kFree \<Longrightarrow> page_view s page_id = None"
    "r = Inr a \<Longrightarrow> pf_open s \<and> \<not> pf_poisoned s \<and> \<not> out_of_range page_id s"
  using assms(1) unfolding page_allocation_state_def
  by (rule with_free_check [OF _ assms(2)]; auto simp: page_view_def split: if_splits)+

lemma read_page_law:
  assumes "read_page page_id s = (r, s1)" "page_file_ok s"
  shows "\<exists>n. only_reads n s s1" "r = Inr page \<Longrightarrow> page_view s page_id = Some page"
proof -
  have "(\<exists>n. only_reads n s s1) \<and> (r = Inr page \<longrightarrow> page_view s page_id = Some page)"
    using assms(1) unfolding read_page_def
  proof (rule with_free_check [OF _ assms(2)])
    fix s0
    assume s0: "only_reads (pf_page_count s) s s0" and range: "\<not> out_of_range page_id s"
      and rest: "(if page_id \<in> set (free_list s) then io_fail FileInvalidArgument ''free page cannot be read''
        else read_raw_page page_id) s0 = (r, s1)"
    show ?thesis
    proof (cases "page_id \<in> set (free_list s)")
      case False
      then have raw: "read_raw_page page_id s0 = (r, s1)" using rest by simp
      have "only_reads (pf_page_count s + 1) s s1" by (rule only_reads_trans [OF s0 read_raw_page_only_reads [OF raw]])
      moreover have "pf_file s0 = pf_file s" using s0 by (simp add: only_reads_def)
      ultimately show ?thesis using raw read_raw_page_Inr [of page_id s0 page s1] False range
        by (auto simp: page_view_def)
    qed (use rest s0 in auto)
  qed auto
  then show "\<exists>n. only_reads n s s1" "r = Inr page \<Longrightarrow> page_view s page_id = Some page" by auto
qed

text \<open>Changing one allocated page.\<close>

lemma put_page_size: "n \<le> df_size f \<Longrightarrow> n \<le> df_size (put_page k page reached f)"
  by (simp add: put_page_def)

lemma put_page_pages: "df_pages (put_page k page reached f) j = (if j = k then page else df_pages f j)"
  by (simp add: put_page_def)

lemma page_view_same_list:
  assumes "pf_page_count s1 = pf_page_count s" "free_list s1 = free_list s"
    "\<And>j. j \<noteq> page_id \<Longrightarrow> df_pages (pf_file s1) (unat j) = df_pages (pf_file s) (unat j)"
  shows "\<And>j. j \<noteq> page_id \<Longrightarrow> page_view s1 j = page_view s j" "page_view s1 page_id = None \<longleftrightarrow> page_view s page_id = None"
    "page_view s1 page_id = map_option (\<lambda>_. df_pages (pf_file s1) (unat page_id)) (page_view s page_id)"
  using assms by (auto simp: page_view_def out_of_range_def)

lemma change_page:
  assumes "page_file_ok s" "page_view s page_id = Some old"
    "pf_file s1 = put_page (unat page_id) new reached (pf_file s)" "pf_poisoned s1 = pf_poisoned s"
    "pf_page_count s1 = pf_page_count s" "pf_free_page_head s1 = pf_free_page_head s"
  shows "page_file_ok s1 \<and> free_list s1 = free_list s \<and> page_view s1 = (page_view s)(page_id \<mapsto> new)"
proof -
  have id: "page_id \<noteq> 0" "page_id \<notin> set (free_list s)" "\<not> out_of_range page_id s"
    using assms(2) by (auto simp: page_view_def out_of_range_def split: if_splits)
  have zero: "unat page_id \<noteq> 0" using id(1) by (simp add: unat_eq_zero)
  have "df_pages (pf_file s1) (unat x) = df_pages (pf_file s) (unat x)" if "x \<in> set (free_list s)" for x
    using id(2) that by (auto simp: put_page_pages assms(3) simp flip: word_unat_eq_iff)
  then have "free_chain (pf_file s1) (pf_free_page_head s1) (free_list s)"
    using assms(1) free_chain_cong [of "free_list s" "pf_file s1" "pf_file s"]
    by (simp add: page_file_ok_def free_list_ok_def assms(6))
  then have list: "free_list_ok s1 (free_list s)"
    using assms(1,5) by (simp add: page_file_ok_def free_list_ok_def)
  have "page_file_ok s1"
    using assms(1) zero by (intro page_file_okI [OF list]) (simp_all add: page_file_ok_def assms put_page_size put_page_pages)
  moreover have "page_view s1 = (page_view s)(page_id \<mapsto> new)"
    using free_list_eq [OF list] assms(5) id
    by (auto simp: fun_eq_iff page_view_def out_of_range_def put_page_pages assms(3) simp flip: word_unat_eq_iff)
  ultimately show ?thesis using free_list_eq [OF list] by simp
qed

text \<open>A file whose other pages look the same.\<close>

definition same_elsewhere :: "PageId \<Rightarrow> PageFile \<Rightarrow> PageFile \<Rightarrow> bool" where
  "same_elsewhere page_id s s1 \<longleftrightarrow> (\<forall>j. j \<noteq> page_id \<longrightarrow> page_view s1 j = page_view s j)"

lemma only_reads_law: "only_reads n s s1 \<Longrightarrow> page_file_ok s \<Longrightarrow> page_file_ok s1 \<and> page_view s1 = page_view s"
  using only_reads_ok only_reads_view by blast

lemma write_raw_page_law:
  assumes "write_raw_page page_id page s = (r, s1)" "page_file_ok s" "page_view s page_id = Some old"
  shows "page_file_ok s1" "pf_open s1 = pf_open s" "pf_poisoned s1 = pf_poisoned s"
    "pf_page_count s1 = pf_page_count s \<and> pf_free_page_head s1 = pf_free_page_head s \<and> free_list s1 = free_list s"
    "r = Inr u \<Longrightarrow> page_view s1 = (page_view s)(page_id \<mapsto> page)"
    "same_elsewhere page_id s s1" "page_view s1 page_id \<noteq> None"
proof -
  obtain left reached where w: "pf_file s1 = (if r = Inr () then put_page (unat page_id) page kPageSize (pf_file s)
      else if reached = None then pf_file s else put_page (unat page_id) left (the reached) (pf_file s))"
    "pf_open s1 = pf_open s" "pf_poisoned s1 = pf_poisoned s" "pf_page_count s1 = pf_page_count s"
    "pf_free_page_head s1 = pf_free_page_head s"
    using write_raw_page_effect [OF assms(1)] by blast
  show "pf_open s1 = pf_open s" "pf_poisoned s1 = pf_poisoned s" by (rule w)+
  have "page_file_ok s1 \<and> free_list s1 = free_list s \<and> (\<exists>new. page_view s1 = (page_view s)(page_id \<mapsto> new) \<and> (r = Inr () \<longrightarrow> new = page))"
  proof (cases "r \<noteq> Inr () \<and> reached = None")
    case True
    then have f: "pf_file s1 = pf_file s" using w(1) by simp
    show ?thesis using same_file_law [OF f w(4,5)] assms(2,3) w(3) True by (intro conjI exI [of _ old]) auto
  next
    case False
    then obtain new n where f: "pf_file s1 = put_page (unat page_id) new n (pf_file s)" "r = Inr () \<longrightarrow> new = page"
      using w(1) by (auto split: if_splits)
    show ?thesis using change_page [OF assms(2,3) f(1) w(3-5)] f(2) by blast
  qed
  then show "page_file_ok s1" "pf_page_count s1 = pf_page_count s \<and> pf_free_page_head s1 = pf_free_page_head s \<and> free_list s1 = free_list s"
    "r = Inr u \<Longrightarrow> page_view s1 = (page_view s)(page_id \<mapsto> page)" "same_elsewhere page_id s s1" "page_view s1 page_id \<noteq> None"
    using w(4,5) by (auto simp: same_elsewhere_def)
qed

lemma write_page_law:
  assumes "write_page page_id page s = (r, s1)" and ok: "page_file_ok s"
  shows "page_file_ok s1" "pf_open s1 = pf_open s" "pf_poisoned s1 = pf_poisoned s"
    "r = Inr u \<Longrightarrow> page_view s page_id \<noteq> None \<and> page_view s1 = (page_view s)(page_id \<mapsto> page)"
    "same_elsewhere page_id s s1" "page_view s1 page_id = None \<longleftrightarrow> page_view s page_id = None"
proof -
  have "page_file_ok s1 \<and> pf_open s1 = pf_open s \<and> pf_poisoned s1 = pf_poisoned s
      \<and> (r = Inr u \<longrightarrow> page_view s page_id \<noteq> None \<and> page_view s1 = (page_view s)(page_id \<mapsto> page))
      \<and> same_elsewhere page_id s s1 \<and> (page_view s1 page_id = None \<longleftrightarrow> page_view s page_id = None)"
    using assms(1) unfolding write_page_def
  proof (rule with_free_check [OF _ ok])
    fix e assume e: "r = Inl e" "only_reads (pf_page_count s) s s1"
    show ?thesis using only_reads_law [OF e(2) ok] e by (simp add: same_elsewhere_def only_reads_def)
  next
    fix s0
    assume s0: "only_reads (pf_page_count s) s s0" and range: "\<not> out_of_range page_id s"
      and rest: "(if page_id \<in> set (free_list s) then io_fail FileInvalidArgument ''free page cannot be written''
        else write_raw_page page_id page) s0 = (r, s1)"
    note eq = only_reads_law [OF s0 ok]
    have flags: "pf_open s0 = pf_open s" "pf_poisoned s0 = pf_poisoned s" using s0 by (simp_all add: only_reads_def)
    show ?thesis
    proof (cases "page_id \<in> set (free_list s)")
      case True
      then show ?thesis using rest eq flags by (auto simp: same_elsewhere_def)
    next
      case False
      then obtain old where old: "page_view s0 page_id = Some old" using range eq by (simp add: page_view_def)
      have "write_raw_page page_id page s0 = (r, s1)" using rest False by simp
      from write_raw_page_law [OF this conjunct1 [OF eq] old] eq flags old show ?thesis
        by (cases u) (auto simp: same_elsewhere_def)
    qed
  qed
  then show "page_file_ok s1" "pf_open s1 = pf_open s" "pf_poisoned s1 = pf_poisoned s"
    "r = Inr u \<Longrightarrow> page_view s page_id \<noteq> None \<and> page_view s1 = (page_view s)(page_id \<mapsto> page)"
    "same_elsewhere page_id s s1" "page_view s1 page_id = None \<longleftrightarrow> page_view s page_id = None" by auto
qed

text \<open>A file whose pages differ in the header page at most, and what writing the header does.\<close>

definition same_data :: "PageFile \<Rightarrow> PageFile \<Rightarrow> bool" where
  "same_data s s1 \<longleftrightarrow> (\<forall>k. k \<noteq> 0 \<longrightarrow> df_pages (pf_file s1) k = df_pages (pf_file s) k)
     \<and> df_size (pf_file s) \<le> df_size (pf_file s1)"

lemma write_header_effect:
  assumes "write_header s = (r, s1)"
  shows "same_data s s1" "pf_open s1 = pf_open s" "pf_poisoned s1 = pf_poisoned s" "pf_page_count s1 = pf_page_count s"
    "pf_free_page_head s1 = pf_free_page_head s"
    "r = Inr () \<Longrightarrow> df_pages (pf_file s1) 0 = make_header (pf_page_count s) (pf_free_page_head s)"
  using write_raw_page_effect [OF assms [unfolded write_header_def]]
  by (auto simp: same_data_def put_page_pages put_page_size split: if_splits)

lemma free_list_ok_same_data:
  assumes "same_data s s1" "pf_page_count s1 = pf_page_count s" "pf_free_page_head s1 = pf_free_page_head s"
  shows "free_list_ok s1 xs \<longleftrightarrow> free_list_ok s xs"
proof -
  have "free_chain (pf_file s1) h xs = free_chain (pf_file s) h xs" if "0 \<notin> set xs" for h
    using that assms(1) by (intro free_chain_cong) (metis same_data_def unat_eq_zero)
  then show ?thesis using free_chain_nonzero unfolding free_list_ok_def assms(2,3) by metis
qed

lemma page_view_same_data:
  assumes "same_data s s1" "pf_page_count s1 = pf_page_count s" "free_list s1 = free_list s"
  shows "page_view s1 = page_view s"
proof (rule ext)
  fix j :: PageId
  have "df_pages (pf_file s1) (unat j) = df_pages (pf_file s) (unat j)" if "j \<noteq> 0"
    using assms(1) that unfolding same_data_def by (metis unat_eq_zero)
  then show "page_view s1 j = page_view s j" by (simp add: page_view_def out_of_range_def assms(2,3))
qed

text \<open>
  Publishing a header for the list \<open>xs\<close>: it succeeds and the file is well formed with that list, or it fails and
  the file is poisoned and well formed with the list \<open>ys\<close> that the restored state has.
\<close>

lemma publish_header_law:
  assumes p: "publish_header restore s = (r, s1)" and xs: "free_list_ok s xs"
    and size: "1 \<le> pf_page_count s" "pf_page_count s \<le> 4294967296" "pf_page_count s * kPageSize \<le> df_size (pf_file s)"
    and restore: "\<And>t. pf_file (restore t) = pf_file t \<and> pf_open (restore t) = pf_open t"
      "\<And>t. pf_page_count t = pf_page_count s \<Longrightarrow> pf_page_count (restore t) = n"
      "\<And>t. pf_free_page_head t = pf_free_page_head s \<Longrightarrow> pf_free_page_head (restore t) = head"
    and ys: "free_list_ok (s\<lparr>pf_page_count := n, pf_free_page_head := head\<rparr>) ys" "1 \<le> n" "n \<le> pf_page_count s"
  shows "page_file_ok s1 \<and> same_data s s1 \<and> pf_open s1 = pf_open s \<and>
    (if r = Inr () then free_list s1 = xs \<and> pf_page_count s1 = pf_page_count s \<and> pf_poisoned s1 = pf_poisoned s
     else free_list s1 = ys \<and> pf_page_count s1 = n \<and> pf_poisoned s1)"
proof -
  obtain s2 where w: "write_header s = (r, s2)" and s1: "s1 = (if r = Inr () then s2 else mark_poisoned (restore s2))"
    using publish_header_effect [OF p] by blast
  note e = write_header_effect [OF w]
  have opened: "pf_open s1 = pf_open s" using s1 e(2) restore(1) by (simp add: mark_poisoned_def)
  show ?thesis
  proof (cases "r = Inr ()")
    case True
    have s1: "s1 = s2" using s1 True by simp
    have list: "free_list_ok s1 xs" using xs free_list_ok_same_data [OF e(1,4,5)] by (simp add: s1)
    have "page_file_ok s1"
      using size e(1) True by (intro page_file_okI [OF list]) (simp_all add: s1 e(4-6) same_data_def)
    then show ?thesis using free_list_eq [OF list] e(1,3,4) opened True by (simp add: s1)
  next
    case False
    have f: "pf_file s1 = pf_file s2" "pf_page_count s1 = n" "pf_free_page_head s1 = head" "pf_poisoned s1"
      using s1 False restore e(4,5) by (simp_all add: mark_poisoned_def)
    have data: "same_data s s1" using e(1) f(1) by (simp add: same_data_def)
    then have "same_data (s\<lparr>pf_page_count := n, pf_free_page_head := head\<rparr>) s1" by (simp add: same_data_def)
    then have list: "free_list_ok s1 ys" using ys(1) free_list_ok_same_data f(2,3) by fastforce
    have "n * kPageSize \<le> pf_page_count s * kPageSize" using ys(3) by simp
    then have "n * kPageSize \<le> df_size (pf_file s1)" using size(3) data unfolding same_data_def by linarith
    then have "page_file_ok s1"
      using size ys(2,3) by (intro page_file_okI [OF list]) (simp_all add: f(2-4))
    then show ?thesis using free_list_eq [OF list] data f opened False by simp
  qed
qed

lemma view_after_unlink:
  assumes "free_list s1 = a # free_list s" "same_data s s1" "pf_page_count s1 = pf_page_count s"
  shows "page_view s1 = (page_view s)(a := None)"
proof (rule ext)
  fix j :: PageId
  have "df_pages (pf_file s1) (unat j) = df_pages (pf_file s) (unat j)" if "j \<noteq> 0"
    using assms(2) that unfolding same_data_def by (metis unat_eq_zero)
  then show "page_view s1 j = ((page_view s)(a := None)) j"
    by (auto simp: page_view_def out_of_range_def assms(1,3))
qed

lemma same_data_refl [simp]: "pf_file s1 = pf_file s \<Longrightarrow> same_data s s1"
  by (simp add: same_data_def)

lemma same_data_trans: "same_data s s1 \<Longrightarrow> same_data s1 s2 \<Longrightarrow> same_data s s2"
  by (auto simp: same_data_def)

lemma free_page_law:
  assumes "free_page page_id s = (r, s1)" and ok: "page_file_ok s"
  shows "page_file_ok s1" "pf_open s1 = pf_open s" "same_elsewhere page_id s s1" "pf_poisoned s \<longrightarrow> pf_poisoned s1"
    "r = Inr u \<Longrightarrow> page_view s page_id \<noteq> None \<and> page_view s1 = (page_view s)(page_id := None) \<and> pf_poisoned s1 = pf_poisoned s"
proof -
  have "page_file_ok s1 \<and> pf_open s1 = pf_open s \<and> same_elsewhere page_id s s1 \<and> (pf_poisoned s \<longrightarrow> pf_poisoned s1)
      \<and> (r = Inr u \<longrightarrow> page_view s page_id \<noteq> None \<and> page_view s1 = (page_view s)(page_id := None) \<and> pf_poisoned s1 = pf_poisoned s)"
    using assms(1) unfolding free_page_def
  proof (rule with_free_check [OF _ ok])
    fix e assume e: "r = Inl e" "only_reads (pf_page_count s) s s1"
    show ?thesis using only_reads_law [OF e(2) ok] e by (simp add: same_elsewhere_def only_reads_def)
  next
    fix s0 :: PageFile
    define old_head where "old_head = pf_free_page_head s0"
    assume s0: "only_reads (pf_page_count s) s s0" and range: "\<not> out_of_range page_id s"
      and rest: "(if page_id \<in> set (free_list s) then io_fail FileInvalidArgument ''page is already free''
        else (\<lambda>s. let old_head = pf_free_page_head s in
           io_bind (write_raw_page page_id (make_free_page old_head)) (\<lambda>_ s1.
             publish_header (\<lambda>s. s\<lparr>pf_free_page_head := old_head\<rparr>) (s1\<lparr>pf_free_page_head := page_id\<rparr>)) s)) s0 = (r, s1)"
    note eq = only_reads_law [OF s0 ok]
    have flags: "pf_open s0 = pf_open s" "pf_poisoned s0 = pf_poisoned s" using s0 by (simp_all add: only_reads_def)
    show ?thesis
    proof (cases "page_id \<in> set (free_list s)")
      case True
      then show ?thesis using rest eq flags by (auto simp: same_elsewhere_def)
    next
      case False
      obtain old where old: "page_view s0 page_id = Some old" using False range eq by (simp add: page_view_def)
      have "io_bind (write_raw_page page_id (make_free_page old_head)) (\<lambda>_ s1.
             publish_header (\<lambda>s. s\<lparr>pf_free_page_head := old_head\<rparr>) (s1\<lparr>pf_free_page_head := page_id\<rparr>)) s0 = (r, s1)"
        using rest False by (simp add: Let_def old_head_def)
      then show ?thesis
      proof (cases rule: io_bind_cases)
        case (failed e)
        note w = write_raw_page_law [OF failed(1) conjunct1 [OF eq] old]
        then show ?thesis using failed(2) eq flags by (auto simp: same_elsewhere_def)
      next
        case (went_on a s2)
        note w = write_raw_page_law [OF went_on(1) conjunct1 [OF eq] old]
        have page: "df_pages (pf_file s2) (unat page_id) = make_free_page old_head"
          using fun_cong [OF w(5) [OF refl], of page_id] by (simp add: page_view_def split: if_splits)
        have size: "1 \<le> pf_page_count s2" "pf_page_count s2 \<le> 4294967296" "pf_page_count s2 * kPageSize \<le> df_size (pf_file s2)"
          "free_list_ok s2 (free_list s2)"
          using w(1) by (simp_all add: page_file_ok_def)
        have "page_id \<notin> set (free_list s2)" "page_id \<noteq> 0" "unat page_id < pf_page_count s2"
          using False range only_reads_view [OF s0] w(4) s0 by (auto simp: out_of_range_def only_reads_def)
        then have list: "free_list_ok (s2\<lparr>pf_free_page_head := page_id\<rparr>) (page_id # free_list s2)"
          using size(4) w(4) page free_page_fields [of old_head] by (simp add: free_list_ok_def old_head_def)
        have restored: "free_list_ok ((s2\<lparr>pf_free_page_head := page_id\<rparr>)
            \<lparr>pf_page_count := pf_page_count s2, pf_free_page_head := old_head\<rparr>) (free_list s2)"
          using size(4) w(4) by (simp add: free_list_ok_def old_head_def)
        have pub: "page_file_ok s1 \<and> same_data s2 s1 \<and> pf_open s1 = pf_open s2 \<and>
            (if r = Inr () then free_list s1 = page_id # free_list s2 \<and> pf_page_count s1 = pf_page_count s2 \<and> pf_poisoned s1 = pf_poisoned s2
             else free_list s1 = free_list s2 \<and> pf_page_count s1 = pf_page_count s2 \<and> pf_poisoned s1)"
          using publish_header_law [OF went_on(2) list, where n = "pf_page_count s2" and head = old_head and ys = "free_list s2"]
            size(1-3) restored by (simp add: same_data_def)
        show ?thesis
        proof (cases "r = Inr ()")
          case True
          then have "page_view s1 = (page_view s2)(page_id := None)" using pub by (intro view_after_unlink) auto
          also have "\<dots> = (page_view s)(page_id := None)" using w(6) eq by (auto simp: same_elsewhere_def)
          finally show ?thesis using True pub w(2,3) flags old eq by (auto simp: same_elsewhere_def)
        next
          case False
          then have "page_view s1 = page_view s2" using pub by (intro page_view_same_data) auto
          then show ?thesis using False pub w(2,3,6) flags eq by (cases u) (auto simp: same_elsewhere_def)
        qed
      qed
    qed
  qed
  then show "page_file_ok s1" "pf_open s1 = pf_open s" "same_elsewhere page_id s s1" "pf_poisoned s \<longrightarrow> pf_poisoned s1"
    "r = Inr u \<Longrightarrow> page_view s page_id \<noteq> None \<and> page_view s1 = (page_view s)(page_id := None) \<and> pf_poisoned s1 = pf_poisoned s"
    by auto
qed

text \<open>What an allocation may do: it adds a zero page, or it fails and leaves all allocated pages as they were.\<close>

definition allocation_outcome :: "PageFile \<Rightarrow> (PageFileError, PageId) result \<Rightarrow> PageFile \<Rightarrow> bool" where
  "allocation_outcome s r s1 \<longleftrightarrow> page_file_ok s1 \<and> pf_open s1 = pf_open s \<and> (pf_poisoned s \<longrightarrow> pf_poisoned s1)
     \<and> (\<forall>j. page_view s j \<noteq> None \<longrightarrow> page_view s1 j = page_view s j)
     \<and> (\<forall>a. r = Inr a \<longrightarrow> page_view s a = None \<and> page_view s1 = (page_view s)(a \<mapsto> (\<lambda>_. 0)) \<and> pf_poisoned s1 = pf_poisoned s)
     \<and> (\<forall>e. r = Inl e \<longrightarrow> pf_poisoned s1 \<or> page_view s1 = page_view s)"

lemma extend_file_law:
  assumes "extend_file s = (r, s1)" and ok: "page_file_ok s"
  shows "allocation_outcome s r s1"
proof (cases "4294967295 < pf_page_count s")
  case True
  then show ?thesis using assms by (auto simp: extend_file_def allocation_outcome_def)
next
  case False
  define a :: PageId where "a = word_of_nat (pf_page_count s)"
  have a: "unat a = pf_page_count s" using False by (simp add: a_def unat_word_small)
  have run: "io_bind (write_raw_page a (\<lambda>_. 0)) (\<lambda>_ s1.
        io_bind (publish_header (\<lambda>s. s\<lparr>pf_page_count := pf_page_count s - 1\<rparr>)) (\<lambda>_ s2. (Inr a, s2))
          (s1\<lparr>pf_page_count := pf_page_count s1 + 1\<rparr>)) s = (r, s1)"
    using assms(1) False by (simp add: extend_file_def Let_def a_def)
  have beyond: "page_file_ok t \<and> page_view t = page_view s \<and> free_list t = free_list s"
    if t: "pf_file t = put_page (unat a) x n (pf_file s) \<or> pf_file t = pf_file s" "pf_page_count t = pf_page_count s"
      "pf_free_page_head t = pf_free_page_head s" "pf_poisoned t = pf_poisoned s" for t x n
  proof -
    have pages: "df_pages (pf_file t) k = df_pages (pf_file s) k" if "k < pf_page_count s" for k
      using t(1) that a by (auto simp: put_page_pages)
    have size: "df_size (pf_file s) \<le> df_size (pf_file t)" using t(1) by (auto simp: put_page_size)
    have "free_chain (pf_file t) (pf_free_page_head t) (free_list s)"
      using ok pages free_chain_cong [of "free_list s" "pf_file t" "pf_file s"]
      by (simp add: page_file_ok_def free_list_ok_def t(3))
    then have list: "free_list_ok t (free_list s)" using ok by (simp add: page_file_ok_def free_list_ok_def t(2))
    have "page_file_ok t"
      using ok size pages by (intro page_file_okI [OF list]) (simp_all add: page_file_ok_def t(2-4))
    then show ?thesis using free_list_eq [OF list] pages
      by (auto simp: fun_eq_iff page_view_def out_of_range_def t(2))
  qed
  from run show ?thesis
  proof (cases rule: io_bind_cases)
    case (failed e)
    obtain left reached where "pf_file s1 = put_page (unat a) left (the reached) (pf_file s) \<or> pf_file s1 = pf_file s"
      and w: "pf_open s1 = pf_open s" "pf_poisoned s1 = pf_poisoned s" "pf_page_count s1 = pf_page_count s"
        "pf_free_page_head s1 = pf_free_page_head s"
      using write_raw_page_effect [OF failed(1)] by (auto split: if_splits)
    then show ?thesis using beyond [of s1 left "the reached"] failed(2) by (simp add: allocation_outcome_def)
  next
    case (went_on u s2)
    have w: "pf_file s2 = put_page (unat a) (\<lambda>_. 0) kPageSize (pf_file s)" "pf_open s2 = pf_open s"
      "pf_poisoned s2 = pf_poisoned s" "pf_page_count s2 = pf_page_count s" "pf_free_page_head s2 = pf_free_page_head s"
      using write_raw_page_effect [OF went_on(1)] by auto
    have s2: "page_file_ok s2 \<and> page_view s2 = page_view s \<and> free_list s2 = free_list s" using beyond w by blast
    obtain x where pub: "publish_header (\<lambda>s. s\<lparr>pf_page_count := pf_page_count s - 1\<rparr>) (s2\<lparr>pf_page_count := pf_page_count s2 + 1\<rparr>) = (x, s1)"
      "r = (case x of Inl e \<Rightarrow> Inl e | Inr _ \<Rightarrow> Inr a)"
      using went_on(2) by (auto simp: io_bind_def split: prod.splits sum.splits)
    have "page_file_ok s2" using s2 by simp
    then have old: "free_list_ok s2 (free_list s2)" unfolding page_file_ok_def by simp
    then have list: "free_list_ok (s2\<lparr>pf_page_count := pf_page_count s2 + 1\<rparr>) (free_list s2)"
      by (auto simp: free_list_ok_def)
    have size: "(pf_page_count s2 + 1) * kPageSize \<le> df_size (pf_file s2)" using w(1,4) a by (simp add: put_page_def)
    have law: "page_file_ok s1 \<and> same_data s2 s1 \<and> pf_open s1 = pf_open s2 \<and>
        (if x = Inr () then free_list s1 = free_list s2 \<and> pf_page_count s1 = pf_page_count s2 + 1 \<and> pf_poisoned s1 = pf_poisoned s2
         else free_list s1 = free_list s2 \<and> pf_page_count s1 = pf_page_count s2 \<and> pf_poisoned s1)"
      using publish_header_law [OF pub(1) list, where n = "pf_page_count s2" and head = "pf_free_page_head s2" and ys = "free_list s2"]
        False size s2 w(4) old by (simp add: same_data_def page_file_ok_def free_list_ok_def)
    show ?thesis
    proof (cases "x = Inr ()")
      case True
      have range: "0 < unat a" "a \<notin> set (free_list s)" using a ok by (auto simp: page_file_ok_def free_list_ok_def)
      have zero: "df_pages (pf_file s1) (unat a) = (\<lambda>_. 0)"
        using law range(1) by (simp add: same_data_def w(1) put_page_pages)
      have others: "df_pages (pf_file s1) (unat j) = df_pages (pf_file s) (unat j)" if "j \<noteq> 0" "j \<noteq> a" for j :: PageId
      proof -
        have "0 < unat j" using that(1) unat_eq_zero [of j] by linarith
        moreover have "unat j \<noteq> unat a" using that(2) by (simp flip: word_unat_eq_iff)
        ultimately show ?thesis using law by (simp add: same_data_def w(1) put_page_pages)
      qed
      have below: "unat j < pf_page_count s \<longleftrightarrow> unat j < pf_page_count s + 1 \<and> j \<noteq> a" for j :: PageId
        using a word_unat_eq_iff [of j a] by auto
      have lists: "free_list s1 = free_list s" "pf_page_count s1 = pf_page_count s + 1" "a \<noteq> 0"
        using True law s2 w(4) range(1) by auto
      have "page_view s1 j = ((page_view s)(a \<mapsto> (\<lambda>_. 0))) j" for j
      proof (cases "j = a")
        case True
        then show ?thesis using a zero lists range(2) by (simp add: page_view_def out_of_range_def)
      next
        case False
        then have "out_of_range j s1 = out_of_range j s" using below [of j] lists(2) by (auto simp: out_of_range_def)
        then show ?thesis using False others [of j] lists(1) by (auto simp: page_view_def out_of_range_def)
      qed
      then have "page_view s1 = (page_view s)(a \<mapsto> (\<lambda>_. 0))" by (rule ext)
      moreover have "page_view s a = None" using a by (simp add: page_view_def out_of_range_def)
      ultimately show ?thesis using True pub(2) law w(2,3) by (simp add: allocation_outcome_def)
    next
      case False
      then have "page_view s1 = page_view s2" using law by (intro page_view_same_data) auto
      then show ?thesis using False pub(2) law s2 w(2) by (auto simp: allocation_outcome_def split: sum.splits)
    qed
  qed
qed

lemma page_in_list: "page_file_ok s \<Longrightarrow> a \<in> set (free_list s) \<Longrightarrow> a \<noteq> 0 \<and> unat a < pf_page_count s"
  using free_chain_nonzero by (fastforce simp: page_file_ok_def free_list_ok_def)

lemma view_after_link:
  assumes "free_list s = a # free_list s1" "same_data s s1" "pf_page_count s1 = pf_page_count s" "page_file_ok s"
  shows "page_view s1 = (page_view s)(a \<mapsto> df_pages (pf_file s1) (unat a))" "page_view s a = None"
proof -
  have a: "a \<noteq> 0" "unat a < pf_page_count s" "a \<notin> set (free_list s1)"
    using page_in_list [OF assms(4), of a] assms(1,4) by (auto simp: page_file_ok_def free_list_ok_def)
  show "page_view s a = None" by (simp add: page_view_def assms(1))
  have "page_view s1 j = ((page_view s)(a \<mapsto> df_pages (pf_file s1) (unat a))) j" for j
  proof (cases "j = a \<or> j = 0")
    case False
    then have "df_pages (pf_file s1) (unat j) = df_pages (pf_file s) (unat j)"
      using assms(2) unat_eq_zero [of j] by (auto simp: same_data_def)
    then show ?thesis using False by (simp add: page_view_def out_of_range_def assms(1,3))
  qed (use a in \<open>auto simp: page_view_def out_of_range_def assms(3)\<close>)
  then show "page_view s1 = (page_view s)(a \<mapsto> df_pages (pf_file s1) (unat a))" by (rule ext)
qed

lemma mark_poisoned_law:
  "page_file_ok s \<Longrightarrow> page_file_ok (mark_poisoned s)" "page_view (mark_poisoned s) = page_view s"
  "free_list (mark_poisoned s) = free_list s" "pf_open (mark_poisoned s) = pf_open s" "pf_poisoned (mark_poisoned s)"
proof -
  show l: "free_list (mark_poisoned s) = free_list s" by (simp add: free_list_def mark_poisoned_def)
  show "page_view (mark_poisoned s) = page_view s"
    by (simp add: fun_eq_iff page_view_def out_of_range_def l) (simp add: mark_poisoned_def)
  show "page_file_ok s \<Longrightarrow> page_file_ok (mark_poisoned s)"
    unfolding page_file_ok_def free_list_ok_def l by (simp add: mark_poisoned_def)
qed (simp_all add: mark_poisoned_def)

lemma reuse_free_page_law:
  assumes "reuse_free_page s = (r, s1)" and ok: "page_file_ok s" and head: "pf_free_page_head s \<noteq> 0"
  shows "allocation_outcome s r s1"
proof -
  define a where "a = pf_free_page_head s"
  have reading: "allocation_outcome s (Inl e) t" if "only_reads n s t" for e :: PageFileError and n t
    using only_reads_law [OF that ok] that by (simp add: allocation_outcome_def only_reads_def)
  have links: "free_chain (pf_file s) a (free_list s)" using ok by (simp add: page_file_ok_def free_list_ok_def a_def)
  have list: "free_list s = a # tl (free_list s)" using free_chain_head [OF links] head by (simp add: a_def)
  then have chain: "free_chain (pf_file s) (get_u32 (df_pages (pf_file s) (unat a)) 4) (tl (free_list s))"
    using links by (metis free_chain.simps(2))
  from assms(1) have "io_bind (is_free_page a) (\<lambda>_. io_bind (read_free_next a) (\<lambda>next s1.
      io_bind (publish_header (\<lambda>s. s\<lparr>pf_free_page_head := a\<rparr>)) (\<lambda>_ s2.
        (case write_raw_page a (\<lambda>_. 0) s2 of (Inl e, s3) \<Rightarrow> (Inl e, mark_poisoned s3) | (Inr _, s3) \<Rightarrow> (Inr a, s3)))
        (s1\<lparr>pf_free_page_head := next\<rparr>))) s = (r, s1)"
    unfolding reuse_free_page_def a_def Let_def .
  then show ?thesis
  proof (cases rule: io_bind_cases)
    case (failed e)
    then show ?thesis using reading is_free_page_reads by blast
  next
    case (went_on b s2)
    note s2 = is_free_page_reads [OF went_on(1)]
    from went_on(2) show ?thesis
    proof (cases rule: io_bind_cases)
      case (failed e)
      then show ?thesis using reading only_reads_trans [OF s2 read_free_next_only_reads] by blast
    next
      case (went_on nxt s3)
      note s3 = only_reads_trans [OF s2 read_free_next_only_reads [OF went_on(1)]]
      note eq = only_reads_law [OF s3 ok] and lists = only_reads_view [OF s3]
      have fields: "pf_file s3 = pf_file s" "pf_page_count s3 = pf_page_count s" "pf_open s3 = pf_open s"
        "pf_poisoned s3 = pf_poisoned s" "pf_free_page_head s3 = a"
        using s3 by (simp_all add: only_reads_def a_def)
      have nxt: "nxt = get_u32 (df_pages (pf_file s) (unat a)) 4"
        using read_free_next_Inr [OF went_on(1)] s2 by (simp add: only_reads_def)
      have ok3: "free_list_ok s3 (free_list s)" using eq lists by (simp add: page_file_ok_def)
      have rest: "free_list_ok (s3\<lparr>pf_free_page_head := nxt\<rparr>) (tl (free_list s))"
        using ok3 chain nxt list by (auto simp: free_list_ok_def fields) (metis distinct_tl, metis list.set_sel(2) list.distinct(1))
      obtain x s4 where pub: "publish_header (\<lambda>s. s\<lparr>pf_free_page_head := a\<rparr>) (s3\<lparr>pf_free_page_head := nxt\<rparr>) = (x, s4)"
        by fastforce
      have "free_list_ok (s3\<lparr>pf_page_count := pf_page_count s3, pf_free_page_head := a\<rparr>) (free_list s)"
        using ok3 fields by (simp add: free_list_ok_def)
      then have law: "page_file_ok s4 \<and> same_data s s4 \<and> pf_open s4 = pf_open s \<and>
          (if x = Inr () then free_list s4 = tl (free_list s) \<and> pf_page_count s4 = pf_page_count s \<and> pf_poisoned s4 = pf_poisoned s
           else free_list s4 = free_list s \<and> pf_page_count s4 = pf_page_count s \<and> pf_poisoned s4)"
        using publish_header_law [OF pub rest, where n = "pf_page_count s3" and head = a and ys = "free_list s"] ok
        by (simp add: same_data_def fields page_file_ok_def)
      show ?thesis
      proof (cases x)
        case (Inl e)
        then have "page_view s4 = page_view s" using law by (intro page_view_same_data) auto
        moreover have "r = Inl e" "s1 = s4" using went_on(2) pub Inl by (auto simp: io_bind_def)
        ultimately show ?thesis using law Inl by (auto simp: allocation_outcome_def)
      next
        case (Inr u)
        then have law: "page_file_ok s4" "same_data s s4" "free_list s4 = tl (free_list s)" "pf_page_count s4 = pf_page_count s"
          "pf_open s4 = pf_open s" "pf_poisoned s4 = pf_poisoned s" using law by auto
        have v4: "page_view s4 = (page_view s)(a \<mapsto> df_pages (pf_file s4) (unat a))" "page_view s a = None"
          using view_after_link [of s a s4] list law ok by simp_all
        then have in4: "page_view s4 a = Some (df_pages (pf_file s4) (unat a))" by simp
        obtain y s5 where w: "write_raw_page a (\<lambda>_. 0) s4 = (y, s5)" by fastforce
        note wl = write_raw_page_law [OF w law(1) in4]
        have out: "r = (case y of Inl e \<Rightarrow> Inl e | Inr _ \<Rightarrow> Inr a)" "s1 = (case y of Inl e \<Rightarrow> mark_poisoned s5 | Inr _ \<Rightarrow> s5)"
          using went_on(2) pub Inr w by (auto simp: io_bind_def split: sum.splits)
        show ?thesis
        proof (cases y)
          case (Inl e)
          have "page_view s5 j = page_view s j" if "page_view s j \<noteq> None" for j
            using wl(6) v4 that by (cases "j = a") (auto simp: same_elsewhere_def)
          then show ?thesis using out wl(1,2) law(5) mark_poisoned_law [of s5] Inl
            by (simp add: allocation_outcome_def)
        next
          case (Inr u)
          then show ?thesis using out wl law(5,6) v4 by (auto simp: allocation_outcome_def)
        qed
      qed
    qed
  qed
qed

lemma allocate_page_law:
  assumes "allocate_page s = (r, s1)" "page_file_ok s"
  shows "allocation_outcome s r s1"
  using assms(1) unfolding allocate_page_def
proof (cases rule: io_bind_cases)
  case (failed e)
  then show ?thesis using assms(2) by (auto simp: require_open_iff allocation_outcome_def)
next
  case (went_on u s0)
  then have "s0 = s" by (simp add: require_open_iff)
  then show ?thesis using went_on(2) extend_file_law reuse_free_page_law assms(2) by (auto split: if_splits)
qed

subsection \<open>Opening a file again\<close>

text \<open>With a stream that works and links that are intact every read succeeds.\<close>

lemma read_raw_page_works:
  assumes "pf_outcomes s = []" "(unat page_id + 1) * kPageSize \<le> df_size (pf_file s)"
  shows "\<exists>n. read_raw_page page_id s = (Inr (df_pages (pf_file s) (unat page_id)), s\<lparr>pf_read_attempts := n\<rparr>)"
  using assms by (intro exI [of _ "pf_read_attempts s + 1"]) (simp add: read_raw_page_def take_outcome_def Let_def add.commute)

lemma free_walk_works:
  assumes "free_chain (pf_file s) current xs" "distinct xs" "\<forall>x \<in> set xs. unat x < pf_page_count s"
    "set xs \<inter> set visited = {}" "pf_outcomes s = []" "pf_page_count s * kPageSize \<le> df_size (pf_file s)"
  shows "\<exists>n b. free_walk page_id visited found current s = (Inr b, s\<lparr>pf_read_attempts := n\<rparr>)"
  using assms
proof (induction xs arbitrary: current visited found s)
  case Nil
  then show ?case
    by (intro exI [of _ "pf_read_attempts s"] exI [of _ found]) (simp add: free_walk.simps [of page_id visited found 0 s])
next
  case (Cons x xs)
  then have x: "current = x" "x \<noteq> 0" "starts_with_magic (df_pages (pf_file s) (unat x)) kFreePageMagic"
    "free_chain (pf_file s) (get_u32 (df_pages (pf_file s) (unat x)) 4) xs" by simp_all
  have "(unat x + 1) * kPageSize \<le> pf_page_count s * kPageSize"
    using Cons.prems(3) by (intro mult_right_mono) auto
  then obtain n where "read_raw_page x s = (Inr (df_pages (pf_file s) (unat x)), s\<lparr>pf_read_attempts := n\<rparr>)"
    using read_raw_page_works [OF Cons.prems(5)] Cons.prems(6) le_trans by blast
  then have next_page: "read_free_next x s = (Inr (get_u32 (df_pages (pf_file s) (unat x)) 4), s\<lparr>pf_read_attempts := n\<rparr>)"
    using x(3) by (simp add: read_free_next_def io_bind_def)
  obtain m b where "free_walk page_id (x # visited) (found \<or> x = page_id) (get_u32 (df_pages (pf_file s) (unat x)) 4)
      (s\<lparr>pf_read_attempts := n\<rparr>) = (Inr b, s\<lparr>pf_read_attempts := m\<rparr>)"
    using Cons.IH [of "s\<lparr>pf_read_attempts := n\<rparr>" "get_u32 (df_pages (pf_file s) (unat x)) 4" "x # visited"
      "found \<or> x = page_id"] Cons.prems x
    by auto
  then show ?case using next_page x Cons.prems(3,4)
    by (intro exI [of _ m] exI [of _ b]) (simp add: free_walk.simps [of page_id visited found x s])
qed

lemma opened_again:
  assumes "page_file_ok s" "\<not> pf_poisoned s" "df_size (pf_file s) mod kPageSize = 0"
  shows "\<exists>t. open_page_file (Inr (pf_file s)) True [] = Inr t \<and> page_file_ok t \<and> pf_open t
      \<and> pf_page_count t = pf_page_count s \<and> free_list t = free_list s \<and> page_view t = page_view s"
proof -
  define s1 where "s1 = opened_stream (pf_file s) []"
  have ok: "1 \<le> pf_page_count s" "pf_page_count s \<le> 4294967296" "pf_page_count s * kPageSize \<le> df_size (pf_file s)"
    "free_list_ok s (free_list s)" "df_pages (pf_file s) 0 = make_header (pf_page_count s) (pf_free_page_head s)"
    using assms(1,2) by (simp_all add: page_file_ok_def)
  have "1 * kPageSize \<le> pf_page_count s * kPageSize" using ok(1) by (rule mult_right_mono) simp
  then have size: "kPageSize \<le> df_size (pf_file s)" using ok(3) by linarith
  have "(unat (0 :: PageId) + 1) * kPageSize \<le> df_size (pf_file s1)" using size by (simp add: s1_def opened_stream_def)
  then obtain n where header: "read_raw_page 0 s1 = (Inr (make_header (pf_page_count s) (pf_free_page_head s)), s1\<lparr>pf_read_attempts := n\<rparr>)"
    using read_raw_page_works [of s1 0] ok(5) by (auto simp: s1_def opened_stream_def)
  define s2 where "s2 = s1\<lparr>pf_read_attempts := n, pf_page_count := pf_page_count s, pf_free_page_head := pf_free_page_head s\<rparr>"
  have same: "pf_file s2 = pf_file s" "pf_page_count s2 = pf_page_count s" "pf_free_page_head s2 = pf_free_page_head s"
    by (simp_all add: s1_def s2_def opened_stream_def)
  have list: "free_list_ok s2 (free_list s)" using ok(4) by (simp add: free_list_ok_def same)
  obtain m b where walk: "free_walk 0 [] False (pf_free_page_head s) s2 = (Inr b, s2\<lparr>pf_read_attempts := m\<rparr>)"
    using free_walk_works [of s2 "pf_free_page_head s" "free_list s" "[]" 0 False] list ok(3)
    by (auto simp: free_list_ok_def s2_def s1_def opened_stream_def)
  have fits: "unat (word_of_nat (pf_page_count s) :: u64) = pf_page_count s"
    using ok(2) by (intro unat_word_small) simp
  have opened: "open_page_file (Inr (pf_file s)) True [] = Inr (s2\<lparr>pf_read_attempts := m\<rparr>)"
    using size assms(3) header header_fields [of "pf_page_count s" "pf_free_page_head s"] fits ok(1-3) walk
    by (simp add: open_page_file_def s1_def [symmetric] s2_def Let_def)
  define t where "t = s2\<lparr>pf_read_attempts := m\<rparr>"
  have t: "pf_file t = pf_file s" "pf_page_count t = pf_page_count s" "pf_free_page_head t = pf_free_page_head s"
    "pf_poisoned t = pf_poisoned s" "pf_open t"
    using assms(2) by (simp_all add: t_def s2_def s1_def opened_stream_def)
  show ?thesis using same_file_law [OF t(1-3)] t(2,4,5) assms(1) opened t_def by auto
qed

text \<open>
  C11: a page file survives being closed. A well-formed file that was not poisoned and consists of whole pages is opened
  again with the same page count, the same free pages and the same contents of all allocated pages.
\<close>

theorem page_file_reopens:
  assumes "page_file_ok s" "\<not> pf_poisoned s" "df_size (pf_file s) mod kPageSize = 0"
  shows "\<exists>t. open_page_file (Inr (pf_file s)) True [] = Inr t \<and> page_file_ok t \<and> pf_open t
      \<and> pf_page_count t = pf_page_count s \<and> free_list t = free_list s \<and> page_view t = page_view s"
  using assms by (rule opened_again)

text \<open>A file with one allocated page and one on the free list.\<close>

definition demo_page_file :: PageFile where
  "demo_page_file =
     \<lparr>pf_file = \<lparr>df_size = 12288, df_pages = (\<lambda>_ _. 0)(0 := make_header 3 2, 1 := (\<lambda>_. 7), 2 := make_free_page 0)\<rparr>,
      pf_outcomes = [], pf_open = True, pf_poisoned = False, pf_page_count = 3, pf_free_page_head = 2, pf_read_attempts = 0\<rparr>"

lemma demo_page_file:
  "page_file_ok demo_page_file" "free_list demo_page_file = [2]" "\<not> pf_poisoned demo_page_file" "pf_open demo_page_file"
  "page_view demo_page_file = [1 \<mapsto> (\<lambda>_. 7)]"
proof -
  have list: "free_list_ok demo_page_file [2]"
    by (simp add: free_list_ok_def demo_page_file_def free_page_fields)
  show "page_file_ok demo_page_file"
    by (rule page_file_okI [OF list]) (simp_all add: demo_page_file_def kPageSize_def)
  show l: "free_list demo_page_file = [2]" by (rule free_list_eq [OF list])
  show "page_view demo_page_file = [1 \<mapsto> (\<lambda>_. 7)]"
  proof
    fix j :: PageId
    have "j = 0 \<or> j = 1 \<or> j = 2 \<or> 3 \<le> unat j" 
    proof -
      have "unat j = 0 \<or> unat j = 1 \<or> unat j = 2 \<or> 3 \<le> unat j" by arith
      then show ?thesis by (auto simp: word_unat_eq_iff)
    qed
    then show "page_view demo_page_file j = [1 \<mapsto> (\<lambda>_. 7)] j"
      unfolding page_view_def l by (auto simp: out_of_range_def demo_page_file_def)
  qed
qed (simp_all add: demo_page_file_def)

theorem page_file_reopens_witness:
  "\<exists>t. open_page_file (Inr (pf_file demo_page_file)) True [] = Inr t \<and> free_list t = [2]
     \<and> page_view t = [1 \<mapsto> (\<lambda>_. 7)]"
  using page_file_reopens [of demo_page_file] demo_page_file
  by (auto simp: demo_page_file_def kPageSize_def)

subsection \<open>A page file is a page store\<close>

interpretation page_file: page_store page_file_ok page_view read_page write_page "\<lambda>_. 0" allocate_page free_page
proof unfold_locales
  fix s s1 r assume "page_file_ok s" "allocate_page s = (r, s1)"
  then show "page_file_ok s1 \<and> (\<forall>j. page_view s j \<noteq> None \<longrightarrow> page_view s1 j = page_view s j)
      \<and> (\<forall>k. r = Inr k \<longrightarrow> page_view s k = None \<and> page_view s1 = (page_view s)(k \<mapsto> (\<lambda>_. 0)))"
    using allocate_page_law [of s r s1] by (simp add: allocation_outcome_def)
next
  fix s k r s1 assume "page_file_ok s" "free_page k s = (r, s1)"
  then show "page_file_ok s1 \<and> (\<forall>j. j \<noteq> k \<longrightarrow> page_view s1 j = page_view s j)
      \<and> (r = Inr () \<longrightarrow> page_view s k \<noteq> None \<and> page_view s1 k = None)"
    using free_page_law [of k s r s1] by (auto simp: same_elsewhere_def)
next
  fix s k r s1 assume "page_file_ok s" "read_page k s = (r, s1)"
  then show "page_file_ok s1 \<and> page_view s1 = page_view s \<and> (\<forall>p. r = Inr p \<longrightarrow> page_view s k = Some p)"
    using read_page_law [of k s r s1] only_reads_law by blast
next
  fix s k p r s1 assume "page_file_ok s" "write_page k p s = (r, s1)"
  then show "page_file_ok s1 \<and> (\<forall>j. j \<noteq> k \<longrightarrow> page_view s1 j = page_view s j)
      \<and> (page_view s1 k = None \<longleftrightarrow> page_view s k = None)
      \<and> (r = Inr () \<longrightarrow> page_view s k \<noteq> None \<and> page_view s1 k = Some p)"
    using write_page_law [of k p s r s1] by (auto simp: same_elsewhere_def)
qed

text \<open>
  C5: a page file behaves as a map from allocated pages to contents, whatever the stream does. A page that is handed
  out was not allocated and is blank; freeing takes one page away; reading returns what the map holds; writing changes
  one page. An operation that fails leaves the file well formed and every other page as it was.
\<close>

theorem page_file_refines_map:
  assumes "page_file_ok s"
  shows "(case allocate_page s of
       (Inr a, s1) \<Rightarrow> page_file_ok s1 \<and> page_view s a = None \<and> page_view s1 = (page_view s)(a \<mapsto> (\<lambda>_. 0))
     | (Inl _, s1) \<Rightarrow> page_file_ok s1 \<and> page_view s \<subseteq>\<^sub>m page_view s1)
   \<and> (case free_page k s of
       (Inr _, s1) \<Rightarrow> page_file_ok s1 \<and> page_view s k \<noteq> None \<and> page_view s1 = (page_view s)(k := None)
     | (Inl _, s1) \<Rightarrow> page_file_ok s1 \<and> (page_view s1)(k := None) = (page_view s)(k := None))
   \<and> (case read_page k s of
       (Inr p, s1) \<Rightarrow> page_file_ok s1 \<and> page_view s1 = page_view s \<and> page_view s k = Some p
     | (Inl _, s1) \<Rightarrow> page_file_ok s1 \<and> page_view s1 = page_view s)
   \<and> (case write_page k page s of
       (Inr _, s1) \<Rightarrow> page_file_ok s1 \<and> page_view s k \<noteq> None \<and> page_view s1 = (page_view s)(k \<mapsto> page)
     | (Inl _, s1) \<Rightarrow> page_file_ok s1 \<and> (page_view s1)(k := None) = (page_view s)(k := None)
         \<and> (page_view s1 k = None \<longleftrightarrow> page_view s k = None))"
proof (intro conjI)
  show "case allocate_page s of
       (Inr a, s1) \<Rightarrow> page_file_ok s1 \<and> page_view s a = None \<and> page_view s1 = (page_view s)(a \<mapsto> (\<lambda>_. 0))
     | (Inl _, s1) \<Rightarrow> page_file_ok s1 \<and> page_view s \<subseteq>\<^sub>m page_view s1"
    using page_file.allocate_law [OF assms] by (auto simp: map_le_def dom_def split: prod.split sum.split)
  show "case free_page k s of
       (Inr _, s1) \<Rightarrow> page_file_ok s1 \<and> page_view s k \<noteq> None \<and> page_view s1 = (page_view s)(k := None)
     | (Inl _, s1) \<Rightarrow> page_file_ok s1 \<and> (page_view s1)(k := None) = (page_view s)(k := None)"
    using page_file.release_law [OF assms] by (auto simp: fun_eq_iff split: prod.split sum.split)
  show "case read_page k s of
       (Inr p, s1) \<Rightarrow> page_file_ok s1 \<and> page_view s1 = page_view s \<and> page_view s k = Some p
     | (Inl _, s1) \<Rightarrow> page_file_ok s1 \<and> page_view s1 = page_view s"
    using page_file.fetch_law [OF assms] by (auto split: prod.split sum.split)
  show "case write_page k page s of
       (Inr _, s1) \<Rightarrow> page_file_ok s1 \<and> page_view s k \<noteq> None \<and> page_view s1 = (page_view s)(k \<mapsto> page)
     | (Inl _, s1) \<Rightarrow> page_file_ok s1 \<and> (page_view s1)(k := None) = (page_view s)(k := None)
         \<and> (page_view s1 k = None \<longleftrightarrow> page_view s k = None)"
    using page_file.store_law [OF assms] by (auto simp: fun_eq_iff split: prod.split sum.split)
qed

theorem page_file_refines_map_witness:
  "page_file_ok (snd (allocate_page demo_page_file)) \<and> page_file_ok (snd (write_page 1 (\<lambda>_. 9) demo_page_file))
   \<and> page_view (snd (read_page 1 demo_page_file)) = [1 \<mapsto> (\<lambda>_. 7)]"
  using page_file_refines_map [OF demo_page_file(1), of 1 "\<lambda>_. 9"] demo_page_file(5)
  by (auto split: prod.splits sum.splits)


end
