(* ===== verification/Buffer_Pool_Properties.thy ===== *)
theory Buffer_Pool_Properties
  imports Buffer_Pool Page_File_Properties
begin

text \<open>
  The buffer pool is transparent: with \<open>pool_view\<close> the contents that a reader of the pool sees (the frame of a resident
  page, the file of any other), every operation keeps the view, whatever fails, except the change a guard makes. Closing
  the pool or releasing a table brings the files to the view.
\<close>

subsection \<open>Views and the invariant\<close>

definition disk_view :: "Engine \<Rightarrow> PageKey \<Rightarrow> RawPage option" where
  "disk_view e key = (case en_files e (pk_table_id key) of None \<Rightarrow> None | Some file \<Rightarrow> page_view file (pk_page_id key))"

definition pool_view :: "Engine \<Rightarrow> PageKey \<Rightarrow> RawPage option" where
  "pool_view e key = (case bp_page_table (en_pool e) key of None \<Rightarrow> disk_view e key | Some i \<Rightarrow> Some (fr_page (frame_of i e)))"

definition pool_ok :: "BufferPool \<Rightarrow> bool" where
  "pool_ok pool \<longleftrightarrow>
     (\<forall>key i. bp_page_table pool key = Some i \<longleftrightarrow> i < length (bp_frames pool) \<and> fr_key (bp_frames pool ! i) = Some key)
     \<and> (\<forall>i < length (bp_frames pool). (fr_state (bp_frames pool ! i) = kFrameReady \<longleftrightarrow> fr_key (bp_frames pool ! i) \<noteq> None)
         \<and> fr_state (bp_frames pool ! i) \<noteq> kFrameLoading
         \<and> (fr_key (bp_frames pool ! i) = None \<longrightarrow> fr_pin_count (bp_frames pool ! i) = 0 \<and> \<not> fr_dirty (bp_frames pool ! i)))
     \<and> distinct (bp_order pool)
     \<and> set (bp_order pool) = {i. i < length (bp_frames pool) \<and> fr_key (bp_frames pool ! i) \<noteq> None}"

definition files_ok :: "Engine \<Rightarrow> bool" where
  "files_ok e \<longleftrightarrow> (\<forall>table_id file. en_files e table_id = Some file \<longrightarrow> page_file_ok file)"

text \<open>Whether the files of the tables are open and not poisoned; access through the pool never changes that.\<close>

definition health :: "Engine \<Rightarrow> TableId \<Rightarrow> (bool \<times> bool) option" where
  "health e table_id = map_option (\<lambda>file. (pf_open file, pf_poisoned file)) (en_files e table_id)"

text \<open>A resident page is allocated in its file, and if it is clean the file has the same contents.\<close>

definition cached_ok :: "Engine \<Rightarrow> bool" where
  "cached_ok e \<longleftrightarrow> (\<forall>i < length (bp_frames (en_pool e)). \<forall>key. fr_key (frame_of i e) = Some key \<longrightarrow>
     disk_view e key \<noteq> None \<and> (\<not> fr_dirty (frame_of i e) \<longrightarrow> disk_view e key = Some (fr_page (frame_of i e))))"

definition engine_ok :: "Engine \<Rightarrow> bool" where
  "engine_ok e \<longleftrightarrow> pool_ok (en_pool e) \<and> files_ok e \<and> cached_ok e"

lemma pool_okD:
  assumes "pool_ok (en_pool e)"
  shows "bp_page_table (en_pool e) key = Some i \<longleftrightarrow> i < length (bp_frames (en_pool e)) \<and> fr_key (frame_of i e) = Some key"
    "i < length (bp_frames (en_pool e)) \<Longrightarrow> fr_state (frame_of i e) = kFrameReady \<longleftrightarrow> fr_key (frame_of i e) \<noteq> None"
    "i < length (bp_frames (en_pool e)) \<Longrightarrow> fr_state (frame_of i e) \<noteq> kFrameLoading"
    "i < length (bp_frames (en_pool e)) \<Longrightarrow> fr_key (frame_of i e) = None \<Longrightarrow> fr_pin_count (frame_of i e) = 0 \<and> \<not> fr_dirty (frame_of i e)"
    "distinct (bp_order (en_pool e))"
    "i \<in> set (bp_order (en_pool e)) \<longleftrightarrow> i < length (bp_frames (en_pool e)) \<and> fr_key (frame_of i e) \<noteq> None"
  using assms by (auto simp: pool_ok_def frame_of_def)

lemma change_frame_simps [simp]:
  "en_files (change_frame i f e) = en_files e" "en_files (change_pool g e) = en_files e"
  "en_pool (change_pool g e) = g (en_pool e)"
  "length (bp_frames (en_pool (change_frame i f e))) = length (bp_frames (en_pool e))"
  "bp_page_table (en_pool (change_frame i f e)) = bp_page_table (en_pool e)"
  "bp_order (en_pool (change_frame i f e)) = bp_order (en_pool e)"
  "bp_lifecycle (en_pool (change_frame i f e)) = bp_lifecycle (en_pool e)"
  "bp_policy (en_pool (change_frame i f e)) = bp_policy (en_pool e)"
  "disk_view (change_frame i f e) = disk_view e" "disk_view (change_pool g e) = disk_view e"
  "health (change_frame i f e) = health e" "health (change_pool g e) = health e"
  by (simp_all add: change_frame_def change_pool_def fun_eq_iff disk_view_def health_def)

lemma frame_of_change_frame:
  "i < length (bp_frames (en_pool e)) \<Longrightarrow> frame_of j (change_frame i f e) = (if j = i then f (frame_of i e) else frame_of j e)"
  by (auto simp: frame_of_def change_frame_def change_pool_def)

text \<open>Two states of the engine whose frames, mappings and files look the same.\<close>

definition same_frames :: "Engine \<Rightarrow> Engine \<Rightarrow> bool" where
  "same_frames e e1 \<longleftrightarrow> length (bp_frames (en_pool e1)) = length (bp_frames (en_pool e))
     \<and> bp_page_table (en_pool e1) = bp_page_table (en_pool e)
     \<and> (\<forall>i < length (bp_frames (en_pool e)). fr_key (frame_of i e1) = fr_key (frame_of i e)
          \<and> fr_state (frame_of i e1) = fr_state (frame_of i e)
          \<and> (fr_key (frame_of i e) \<noteq> None \<longrightarrow> fr_page (frame_of i e1) = fr_page (frame_of i e)))"

lemma same_frames_refl [simp]: "same_frames e e"
  by (simp add: same_frames_def)

lemma same_frames_trans: "same_frames e e1 \<Longrightarrow> same_frames e1 e2 \<Longrightarrow> same_frames e e2"
  by (simp add: same_frames_def)

lemma same_frames_view:
  assumes "same_frames e e1" "disk_view e1 = disk_view e" "pool_ok (en_pool e)"
  shows "pool_view e1 = pool_view e"
proof
  fix key
  show "pool_view e1 key = pool_view e key"
    using assms pool_okD(1) [OF assms(3), of key]
    by (cases "bp_page_table (en_pool e) key") (auto simp: pool_view_def same_frames_def)
qed

text \<open>Changes of pins, tickets, order and counters do not matter.\<close>

lemma engine_ok_same:
  assumes ok: "engine_ok e" and same: "same_frames e e1" and disk: "disk_view e1 = disk_view e" and files: "files_ok e1"
    and order: "distinct (bp_order (en_pool e1))" "set (bp_order (en_pool e1)) = set (bp_order (en_pool e))"
    and frames: "\<And>i. i < length (bp_frames (en_pool e)) \<Longrightarrow> fr_dirty (frame_of i e1) = fr_dirty (frame_of i e)
      \<and> (fr_key (frame_of i e) = None \<longrightarrow> fr_pin_count (frame_of i e1) = fr_pin_count (frame_of i e))"
  shows "engine_ok e1 \<and> pool_view e1 = pool_view e"
proof -
  have p: "pool_ok (en_pool e)" "cached_ok e" using ok by (simp_all add: engine_ok_def)
  note d = pool_okD [OF p(1)]
  have "pool_ok (en_pool e1)"
    unfolding pool_ok_def frame_of_def [symmetric]
  proof (intro conjI allI impI)
    fix key i
    show "bp_page_table (en_pool e1) key = Some i \<longleftrightarrow> i < length (bp_frames (en_pool e1)) \<and> fr_key (frame_of i e1) = Some key"
      using same d(1) [of key i] by (auto simp: same_frames_def)
  qed (use same d frames order in \<open>auto simp: same_frames_def\<close>)
  moreover have "cached_ok e1"
    using p(2) same frames by (auto simp: cached_ok_def same_frames_def disk)
  ultimately show ?thesis using files same_frames_view [OF same disk p(1)] by (simp add: engine_ok_def)
qed

subsection \<open>Access to the files\<close>

lemma on_file_cases:
  assumes "on_file table_id operation e = (r, e1)"
  obtains (closed) "r = Inl (pool_invalid ''table PageFile is not open'')" "e1 = e"
    | (ran) pf r1 pf1 where "en_files e table_id = Some pf" "pf_open pf" "operation pf = (r1, pf1)"
        "r = map_error map_file_error r1" "e1 = e\<lparr>en_files := (en_files e)(table_id \<mapsto> pf1)\<rparr>"
  using assms by (auto simp: on_file_def acquire_file_def split: option.splits if_splits prod.splits)

text \<open>What an operation on one file means for the views.\<close>

lemma file_changed:
  assumes "files_ok e" "en_files e table_id = Some pf" "page_file_ok pf1"
  shows "files_ok (e\<lparr>en_files := (en_files e)(table_id \<mapsto> pf1)\<rparr>)"
    "disk_view (e\<lparr>en_files := (en_files e)(table_id \<mapsto> pf1)\<rparr>) key
      = (if pk_table_id key = table_id then page_view pf1 (pk_page_id key) else disk_view e key)"
    "pk_table_id key = table_id \<Longrightarrow> disk_view e key = page_view pf (pk_page_id key)"
  using assms by (auto simp: files_ok_def disk_view_def)

lemma read_key_law:
  assumes "read_key key e = (r, e1)" "files_ok e"
  shows "files_ok e1" "en_pool e1 = en_pool e" "disk_view e1 = disk_view e" "r = Inr page \<Longrightarrow> disk_view e key = Some page"
    "health e1 = health e"
proof -
  have "health e1 = health e \<and> files_ok e1 \<and> en_pool e1 = en_pool e \<and> disk_view e1 = disk_view e \<and> (r = Inr page \<longrightarrow> disk_view e key = Some page)"
    using assms(1) unfolding read_key_def
  proof (cases rule: on_file_cases)
    case (ran pf r1 pf1)
    have "page_file_ok pf" using assms(2) ran(1) by (auto simp: files_ok_def)
    note law = page_file.fetch_law [OF this ran(3)]
    note change = file_changed [OF assms(2) ran(1) conjunct1 [OF law], folded ran(5)]
    have "disk_view e1 = disk_view e" using change(2,3) law by (auto simp: fun_eq_iff)
    moreover have "health e1 = health e"
      using read_page_law(1) [OF ran(3)] \<open>page_file_ok pf\<close> ran(1) by (auto simp: health_def ran(5) fun_eq_iff only_reads_def)
    ultimately show ?thesis using change(1) change(3) [of key] law ran(4,5) by auto
  qed (simp add: assms(2))
  then show "files_ok e1" "en_pool e1 = en_pool e" "disk_view e1 = disk_view e" "r = Inr page \<Longrightarrow> disk_view e key = Some page"
    "health e1 = health e" by auto
qed

lemma write_key_law:
  assumes "write_key key page e = (r, e1)" "files_ok e"
  shows "files_ok e1" "en_pool e1 = en_pool e" "k \<noteq> key \<Longrightarrow> disk_view e1 k = disk_view e k"
    "disk_view e1 key = None \<longleftrightarrow> disk_view e key = None"
    "r = Inr u \<Longrightarrow> disk_view e1 = (disk_view e)(key \<mapsto> page) \<and> disk_view e key \<noteq> None" "health e1 = health e"
proof -
  have "health e1 = health e \<and> files_ok e1 \<and> en_pool e1 = en_pool e \<and> (\<forall>k. k \<noteq> key \<longrightarrow> disk_view e1 k = disk_view e k)
      \<and> (disk_view e1 key = None \<longleftrightarrow> disk_view e key = None)
      \<and> (r = Inr u \<longrightarrow> disk_view e1 key = Some page \<and> disk_view e key \<noteq> None)"
    using assms(1) unfolding write_key_def
  proof (cases rule: on_file_cases)
    case (ran pf r1 pf1)
    have "page_file_ok pf" using assms(2) ran(1) by (auto simp: files_ok_def)
    note law = page_file.store_law [OF this ran(3)]
    note change = file_changed [OF assms(2) ran(1) conjunct1 [OF law], folded ran(5)]
    have others: "disk_view e1 k = disk_view e k" if "k \<noteq> key" for k
    proof -
      have "pk_page_id k \<noteq> pk_page_id key" if "pk_table_id k = pk_table_id key"
        using \<open>k \<noteq> key\<close> that by (cases k; cases key) auto
      then show ?thesis using change(2,3) [of k] law by auto
    qed
    moreover have "health e1 = health e"
      using write_page_law(2,3) [OF ran(3)] \<open>page_file_ok pf\<close> ran(1) by (simp add: health_def ran(5) fun_eq_iff)
    ultimately show ?thesis using change(1) change(2,3) [of key] law ran(4,5) by (cases u) auto
  qed (simp add: assms(2))
  then show "files_ok e1" "en_pool e1 = en_pool e" "k \<noteq> key \<Longrightarrow> disk_view e1 k = disk_view e k"
    "disk_view e1 key = None \<longleftrightarrow> disk_view e key = None"
    "r = Inr u \<Longrightarrow> disk_view e1 = (disk_view e)(key \<mapsto> page) \<and> disk_view e key \<noteq> None"
    "health e1 = health e" by (auto simp: fun_eq_iff)
qed

lemma frame_of_pool: "en_pool e1 = en_pool e \<Longrightarrow> frame_of i e1 = frame_of i e"
  by (simp add: frame_of_def)

text \<open>Reading a file leaves the engine as it was; so does a failed or successful write of a resident page that is dirty.\<close>

lemma read_key_engine:
  assumes "read_key key e = (r, e1)" "engine_ok e"
  shows "engine_ok e1 \<and> pool_view e1 = pool_view e"
proof (rule engine_ok_same [OF assms(2)])
  have f: "files_ok e" using assms(2) by (simp add: engine_ok_def)
  note law = read_key_law [OF assms(1) f]
  show "same_frames e e1" using law(2) by (simp add: same_frames_def frame_of_pool [OF law(2)])
  show "disk_view e1 = disk_view e" "files_ok e1" by (rule law)+
  show "distinct (bp_order (en_pool e1))" "set (bp_order (en_pool e1)) = set (bp_order (en_pool e))"
    using assms(2) pool_okD(5) by (auto simp: law(2) engine_ok_def)
qed (simp add: frame_of_pool [OF read_key_law(2) [OF assms(1)]] assms(2) [unfolded engine_ok_def])

lemma write_key_engine:
  assumes "write_key key page e = (r, e1)" "engine_ok e" "i < length (bp_frames (en_pool e))"
    "fr_key (frame_of i e) = Some key" "fr_dirty (frame_of i e)"
  shows "engine_ok e1" "pool_view e1 = pool_view e"
proof -
  have ok: "pool_ok (en_pool e)" "files_ok e" "cached_ok e" using assms(2) by (simp_all add: engine_ok_def)
  note law = write_key_law [OF assms(1) ok(2)]
  note frames = frame_of_pool [OF law(2)]
  have resident: "bp_page_table (en_pool e) key = Some i" using pool_okD(1) [OF ok(1)] assms(3,4) by simp
  have only: "j = i" if "j < length (bp_frames (en_pool e))" "fr_key (frame_of j e) = Some key" for j
    using pool_okD(1) [OF ok(1), of key j] that resident by simp
  have "cached_ok e1"
    unfolding cached_ok_def frames law(2)
  proof (intro allI impI)
    fix j k assume j: "j < length (bp_frames (en_pool e))" "fr_key (frame_of j e) = Some k"
    show "disk_view e1 k \<noteq> None \<and> (\<not> fr_dirty (frame_of j e) \<longrightarrow> disk_view e1 k = Some (fr_page (frame_of j e)))"
      using ok(3) j only [of j] assms(5) law(3) [of k] law(4) by (cases "k = key") (auto simp: cached_ok_def)
  qed
  then show "engine_ok e1" using ok(1) law(1,2) by (simp add: engine_ok_def)
  show "pool_view e1 = pool_view e"
  proof
    fix k
    show "pool_view e1 k = pool_view e k"
      using law(3) [of k] resident by (cases "k = key") (auto simp: pool_view_def frames law(2) split: option.split)
  qed
qed

subsection \<open>Write-back\<close>

text \<open>The changes of an operation that only writes back: frames keep their pages and pins and can only become clean.\<close>

definition written_back :: "Engine \<Rightarrow> Engine \<Rightarrow> bool" where
  "written_back e e1 \<longleftrightarrow> same_frames e e1 \<and> bp_order (en_pool e1) = bp_order (en_pool e)
     \<and> bp_lifecycle (en_pool e1) = bp_lifecycle (en_pool e)
     \<and> (\<forall>i < length (bp_frames (en_pool e)). fr_pin_count (frame_of i e1) = fr_pin_count (frame_of i e)
          \<and> (fr_dirty (frame_of i e1) \<longrightarrow> fr_dirty (frame_of i e)))"

lemma written_back_refl [simp]: "written_back e e"
  by (simp add: written_back_def)

lemma written_back_trans: "written_back e e1 \<Longrightarrow> written_back e1 e2 \<Longrightarrow> written_back e e2"
  by (auto simp: written_back_def same_frames_def)

lemma resident_once:
  assumes "pool_ok (en_pool e)" "i < length (bp_frames (en_pool e))" "fr_key (frame_of i e) = Some key"
  shows "j < length (bp_frames (en_pool e)) \<Longrightarrow> fr_key (frame_of j e) = Some key \<Longrightarrow> j = i"
  using pool_okD(1) [OF assms(1), of key i] pool_okD(1) [OF assms(1), of key j] assms(2,3) by simp

lemma frame_of_change_pool:
  "bp_frames (g (en_pool e)) = bp_frames (en_pool e) \<Longrightarrow> frame_of i (change_pool g e) = frame_of i e"
  by (simp add: frame_of_def change_pool_def)

lemma flush_frame_law:
  assumes "flush_frame i e = (r, e1)" "engine_ok e" "i < length (bp_frames (en_pool e))"
  shows "engine_ok e1" "pool_view e1 = pool_view e" "written_back e e1" "r = Inr u \<Longrightarrow> \<not> fr_dirty (frame_of i e1)"
proof -
  have ok: "pool_ok (en_pool e)" "files_ok e" "cached_ok e" using assms(2) by (simp_all add: engine_ok_def)
  note d = pool_okD [OF ok(1)]
  have "engine_ok e1 \<and> pool_view e1 = pool_view e \<and> written_back e e1 \<and> (r = Inr u \<longrightarrow> \<not> fr_dirty (frame_of i e1))"
  proof (cases "fr_key (frame_of i e) = None \<or> \<not> fr_dirty (frame_of i e) \<or> bp_dirty_flush_count (en_pool e) = kMaxU64")
    case True
    then show ?thesis using assms d(2) [OF assms(3)] d(4) [OF assms(3)]
      by (auto simp: flush_frame_def split: option.splits if_splits)
  next
    case False
    then obtain key where key: "fr_key (frame_of i e) = Some key" "fr_dirty (frame_of i e)" by auto
    obtain w e2 where w: "write_key key (fr_page (frame_of i e)) e = (w, e2)" by fastforce
    note law = write_key_law [OF w ok(2)] and eng = write_key_engine [OF w assms(2,3) key]
    note frames = frame_of_pool [OF law(2)]
    have wb: "written_back e e2" by (simp add: written_back_def same_frames_def frames law(2))
    show ?thesis
    proof (cases w)
      case (Inl error)
      then have "r = Inl error \<and> e1 = e2" using assms(1) key False w d(2) [OF assms(3)] by (auto simp: flush_frame_def)
      then show ?thesis using eng wb by simp
    next
      case (Inr v)
      define e3 where "e3 = change_frame i (\<lambda>frame. frame\<lparr>fr_dirty := False\<rparr>) e2"
      define e4 where "e4 = change_pool (\<lambda>pool. pool\<lparr>bp_dirty_flush_count := bp_dirty_flush_count pool + 1\<rparr>) e3"
      have e1: "e1 = e4" using assms(1) key False w Inr d(2) [OF assms(3)] by (auto simp: flush_frame_def e3_def e4_def)
      have len: "i < length (bp_frames (en_pool e2))" using assms(3) law(2) by simp
      have f4: "frame_of j e4 = (if j = i then (frame_of i e)\<lparr>fr_dirty := False\<rparr> else frame_of j e)" for j
        by (simp add: e4_def e3_def frame_of_change_pool frame_of_change_frame [OF len] frames)
      have disk: "disk_view e4 = (disk_view e)(key \<mapsto> fr_page (frame_of i e))" using law(5) Inr by (simp add: e4_def e3_def)
      have pool: "bp_page_table (en_pool e4) = bp_page_table (en_pool e)" "bp_order (en_pool e4) = bp_order (en_pool e)"
        "length (bp_frames (en_pool e4)) = length (bp_frames (en_pool e))" "bp_lifecycle (en_pool e4) = bp_lifecycle (en_pool e)"
        by (simp_all add: e4_def e3_def law(2))
      have "pool_ok (en_pool e4)"
        using d pool unfolding pool_ok_def frame_of_def [symmetric] f4 by (auto simp: key)
      moreover have "cached_ok e4"
        unfolding cached_ok_def f4 disk pool(3)
      proof (intro allI impI)
        fix j k
        assume j: "j < length (bp_frames (en_pool e))"
          and k: "fr_key (if j = i then (frame_of i e)\<lparr>fr_dirty := False\<rparr> else frame_of j e) = Some k"
        show "((disk_view e)(key \<mapsto> fr_page (frame_of i e))) k \<noteq> None
            \<and> (\<not> fr_dirty (if j = i then (frame_of i e)\<lparr>fr_dirty := False\<rparr> else frame_of j e) \<longrightarrow>
                ((disk_view e)(key \<mapsto> fr_page (frame_of i e))) k
                  = Some (fr_page (if j = i then (frame_of i e)\<lparr>fr_dirty := False\<rparr> else frame_of j e)))"
        proof (cases "j = i")
          case False
          then have "k \<noteq> key" using resident_once [OF ok(1) assms(3) key(1) j] k by auto
          then show ?thesis using ok(3) j k False by (simp add: cached_ok_def)
        qed (use k key in auto)
      qed
      moreover have "files_ok e4" using law(1) by (simp add: e4_def e3_def files_ok_def)
      moreover have "pool_view e4 = pool_view e"
      proof
        fix k
        have "bp_page_table (en_pool e) key = Some i" using d(1) assms(3) key by simp
        then show "pool_view e4 k = pool_view e k"
          by (cases "k = key") (auto simp: pool_view_def pool disk f4 split: option.split)
      qed
      moreover have "written_back e e4" by (simp add: written_back_def same_frames_def f4 pool)
      ultimately show ?thesis by (simp add: e1 engine_ok_def f4)
    qed
  qed
  then show "engine_ok e1" "pool_view e1 = pool_view e" "written_back e e1" "r = Inr u \<Longrightarrow> \<not> fr_dirty (frame_of i e1)" by auto
qed

lemma flush_frames_law:
  "flush_frames is e = (r, e1) \<Longrightarrow> engine_ok e \<Longrightarrow> \<forall>i \<in> set is. i < length (bp_frames (en_pool e)) \<Longrightarrow>
     engine_ok e1 \<and> pool_view e1 = pool_view e \<and> written_back e e1
     \<and> (r = Inr u \<longrightarrow> (\<forall>i \<in> set is. \<not> fr_dirty (frame_of i e1)))"
proof (induction "is" arbitrary: e)
  case (Cons i "is")
  obtain x e2 where f: "flush_frame i e = (x, e2)" by fastforce
  have i: "i < length (bp_frames (en_pool e))" using Cons.prems(3) by simp
  note law = flush_frame_law [OF f Cons.prems(2) i]
  show ?case
  proof (cases x)
    case (Inl error)
    then show ?thesis using Cons.prems(1) f law by auto
  next
    case (Inr v)
    have run: "flush_frames is e2 = (r, e1)" using Cons.prems(1) f Inr by simp
    have len: "length (bp_frames (en_pool e2)) = length (bp_frames (en_pool e))"
      using law(3) by (simp add: written_back_def same_frames_def)
    note ih = Cons.IH [OF run law(1)] 
    have ih: "engine_ok e1 \<and> pool_view e1 = pool_view e2 \<and> written_back e2 e1
       \<and> (r = Inr u \<longrightarrow> (\<forall>i \<in> set is. \<not> fr_dirty (frame_of i e1)))"
      using ih Cons.prems(3) len by simp
    moreover have "\<not> fr_dirty (frame_of i e1)"
      using law(4) [OF Inr] ih i len by (auto simp: written_back_def)
    ultimately show ?thesis using law(2) written_back_trans [OF law(3)] by simp
  qed
qed simp

subsection \<open>Loading pages\<close>

lemma change_counters:
  assumes "\<And>pool. bp_frames (g pool) = bp_frames pool \<and> bp_page_table (g pool) = bp_page_table pool \<and> bp_order (g pool) = bp_order pool"
  shows "frame_of i (change_pool g e) = frame_of i e" "engine_ok (change_pool g e) = engine_ok e"
    "pool_view (change_pool g e) = pool_view e"
proof -
  show f: "frame_of i (change_pool g e) = frame_of i e" for i by (rule frame_of_change_pool) (simp add: assms)
  show "engine_ok (change_pool g e) = engine_ok e"
    by (simp add: engine_ok_def pool_ok_def cached_ok_def files_ok_def f assms)
  show "pool_view (change_pool g e) = pool_view e"
    by (rule ext) (simp add: pool_view_def f assms split: option.split)
qed

lemma frame_of_publish:
  "i < length (bp_frames (en_pool e)) \<Longrightarrow> frame_of j (publish i old_key key page e)
     = (if j = i then (frame_of i e)\<lparr>fr_page := page, fr_key := Some key, fr_dirty := False, fr_pin_count := 1,
          fr_state := kFrameReady, fr_ticket := fr_ticket (frame_of i e) + 1\<rparr> else frame_of j e)"
  unfolding publish_def by (simp add: frame_of_change_pool frame_of_change_frame)

lemma publish_simps [simp]:
  "en_files (publish i old_key key page e) = en_files e" "disk_view (publish i old_key key page e) = disk_view e"
  "health (publish i old_key key page e) = health e"
  "length (bp_frames (en_pool (publish i old_key key page e))) = length (bp_frames (en_pool e))"
  "bp_lifecycle (en_pool (publish i old_key key page e)) = bp_lifecycle (en_pool e)"
  "bp_order (en_pool (publish i old_key key page e)) = record_load i (bp_order (en_pool e))"
  by (simp_all add: publish_def)

lemma record_load_set: "distinct order \<Longrightarrow> set (record_load i order) = insert i (set order)" "distinct order \<Longrightarrow> distinct (record_load i order)"
  by (auto simp: record_load_def)

text \<open>A frame that is free, or whose page the files have, takes over another page.\<close>

lemma publish_law:
  assumes ok: "engine_ok e" and i: "i < length (bp_frames (en_pool e))" and page: "disk_view e key = Some page"
    and missing: "bp_page_table (en_pool e) key = None"
    and old: "fr_key (frame_of i e) = old_key" "\<And>k. old_key = Some k \<Longrightarrow> disk_view e k = Some (fr_page (frame_of i e))"
  shows "engine_ok (publish i old_key key page e)" "pool_view (publish i old_key key page e) = pool_view e"
proof -
  define e1 where "e1 = publish i old_key key page e"
  have p: "pool_ok (en_pool e)" "files_ok e" "cached_ok e" using ok by (simp_all add: engine_ok_def)
  note d = pool_okD [OF p(1)] and f1 = frame_of_publish [OF i, where old_key = old_key and key = key and page = page, folded e1_def]
  have len: "length (bp_frames (en_pool e1)) = length (bp_frames (en_pool e))" by (simp add: e1_def)
  have absent: "fr_key (frame_of j e) \<noteq> Some key" if "j < length (bp_frames (en_pool e))" for j
    using d(1) [of key j] that missing by simp
  have table: "bp_page_table (en_pool e1) k = (if k = key then Some i else if old_key = Some k then None else bp_page_table (en_pool e) k)" for k
    using absent [OF i] old(1) by (auto simp: e1_def publish_def split: option.split)
  have "pool_ok (en_pool e1)"
    unfolding pool_ok_def frame_of_def [symmetric]
  proof (intro conjI allI impI)
    fix k j
    consider "k = key" | "k \<noteq> key" "old_key = Some k" | "k \<noteq> key" "old_key \<noteq> Some k" by blast
    then show "bp_page_table (en_pool e1) k = Some j \<longleftrightarrow> j < length (bp_frames (en_pool e1)) \<and> fr_key (frame_of j e1) = Some k"
    proof cases
      case 1
      then show ?thesis using absent [of j] i by (auto simp: table f1 len)
    next
      case 2
      have "fr_key (frame_of i e) = Some k" using old(1) 2(2) by simp
      then have once: "j = i" if "j < length (bp_frames (en_pool e))" "fr_key (frame_of j e) = Some k"
        using resident_once [OF p(1) i, of k j] that by blast
      show ?thesis
      proof (cases "j = i")
        case True
        then show ?thesis using 2 by (simp add: table f1)
      next
        case False
        then show ?thesis using 2 once by (simp add: table f1 len) blast
      qed
    next
      case 3
      then show ?thesis using d(1) [of k j] d(1) [of k i] old(1) by (cases "j = i") (simp_all add: table f1 len)
    qed
  next
    show "distinct (bp_order (en_pool e1))" using record_load_set(2) d(5) by (simp add: e1_def)
    show "set (bp_order (en_pool e1)) = {j. j < length (bp_frames (en_pool e1)) \<and> fr_key (frame_of j e1) \<noteq> None}"
      using record_load_set(1) [OF d(5)] d(6) i by (simp add: f1 len) (simp add: e1_def, auto)
  next
    fix j assume "j < length (bp_frames (en_pool e1))"
    then have "j < length (bp_frames (en_pool e))" by (simp add: len)
    note dj = d(2-4) [OF this]
    show "(fr_state (frame_of j e1) = kFrameReady) = (fr_key (frame_of j e1) \<noteq> None)" "fr_state (frame_of j e1) \<noteq> kFrameLoading"
      using dj(1,2) by (simp_all add: f1)
    assume "fr_key (frame_of j e1) = None"
    then show "fr_pin_count (frame_of j e1) = 0" "\<not> fr_dirty (frame_of j e1)"
      using dj(3) by (simp_all add: f1 split: if_splits)
  qed
  moreover have "cached_ok e1"
    using p(3) page by (simp add: cached_ok_def f1 len) (simp add: e1_def)
  moreover have "files_ok e1" using p(2) by (simp add: files_ok_def e1_def)
  ultimately show "engine_ok (publish i old_key key page e)" by (simp add: engine_ok_def e1_def)
  show "pool_view (publish i old_key key page e) = pool_view e"
  proof
    fix k
    have disk: "disk_view e1 = disk_view e" by (simp add: e1_def)
    consider "k = key" | "k \<noteq> key" "old_key = Some k" | "k \<noteq> key" "old_key \<noteq> Some k" by blast
    then have "pool_view e1 k = pool_view e k"
    proof cases
      case 1
      then show ?thesis using page missing by (simp add: pool_view_def table f1)
    next
      case 2
      then have "bp_page_table (en_pool e) k = Some i" using d(1) [of k i] i old(1) by simp
      then show ?thesis using 2 old(2) by (simp add: pool_view_def table disk)
    next
      case 3
      then have "j \<noteq> i" if "bp_page_table (en_pool e) k = Some j" for j using d(1) [of k j] that old(1) by auto
      then show ?thesis using 3 by (simp add: pool_view_def table f1 disk split: option.split)
    qed
    then show "pool_view (publish i old_key key page e) k = pool_view e k" by (simp add: e1_def)
  qed
qed

text \<open>Steps that no user of the pool can tell.\<close>

definition unchanged :: "Engine \<Rightarrow> Engine \<Rightarrow> bool" where
  "unchanged e e1 \<longleftrightarrow> engine_ok e1 \<and> health e1 = health e \<and> pool_view e1 = pool_view e \<and> bp_page_table (en_pool e1) = bp_page_table (en_pool e)
     \<and> length (bp_frames (en_pool e1)) = length (bp_frames (en_pool e)) \<and> bp_lifecycle (en_pool e1) = bp_lifecycle (en_pool e)
     \<and> (\<forall>j < length (bp_frames (en_pool e)). fr_pin_count (frame_of j e1) = fr_pin_count (frame_of j e)
          \<and> fr_key (frame_of j e1) = fr_key (frame_of j e) \<and> fr_page (frame_of j e1) = fr_page (frame_of j e)
          \<and> fr_dirty (frame_of j e1) = fr_dirty (frame_of j e) \<and> fr_state (frame_of j e1) = fr_state (frame_of j e))"

lemma unchanged_refl: "engine_ok e \<Longrightarrow> unchanged e e"
  by (simp add: unchanged_def)

lemma unchanged_trans: "unchanged e e1 \<Longrightarrow> unchanged e1 e2 \<Longrightarrow> unchanged e e2"
  by (simp add: unchanged_def)

lemma unchanged_ok: "unchanged e e1 \<Longrightarrow> engine_ok e1"
  by (simp add: unchanged_def)

lemma unchanged_pool: "en_pool e1 = en_pool e \<Longrightarrow> health e1 = health e \<Longrightarrow> engine_ok e1 \<Longrightarrow> pool_view e1 = pool_view e \<Longrightarrow> unchanged e e1"
  by (simp add: unchanged_def frame_of_def)

lemma unchanged_read_key: "read_key key e = (r, e1) \<Longrightarrow> engine_ok e \<Longrightarrow> unchanged e e1"
  using read_key_engine [of key e r e1] read_key_law(2,5) [of key e r e1] by (simp add: unchanged_pool engine_ok_def)

lemma unchanged_write_key:
  "write_key key page e = (r, e1) \<Longrightarrow> engine_ok e \<Longrightarrow> i < length (bp_frames (en_pool e)) \<Longrightarrow> fr_key (frame_of i e) = Some key
     \<Longrightarrow> fr_dirty (frame_of i e) \<Longrightarrow> unchanged e e1"
  using write_key_engine [of key page e r e1 i] write_key_law(2,6) [of key page e r e1] by (simp add: unchanged_pool engine_ok_def)

lemma unchanged_counters:
  assumes "\<And>pool. bp_frames (g pool) = bp_frames pool \<and> bp_page_table (g pool) = bp_page_table pool \<and> bp_order (g pool) = bp_order pool
      \<and> bp_lifecycle (g pool) = bp_lifecycle pool" and "engine_ok e"
  shows "unchanged e (change_pool g e)"
  using change_counters [of g] assms by (simp add: unchanged_def)

text \<open>Pins and tickets of a frame that holds a page.\<close>

lemma frame_notes:
  assumes "engine_ok e" "i < length (bp_frames (en_pool e))"
    and f: "\<And>frame. fr_key (f frame) = fr_key frame \<and> fr_page (f frame) = fr_page frame \<and> fr_dirty (f frame) = fr_dirty frame
      \<and> fr_state (f frame) = fr_state frame"
    and pin: "fr_key (frame_of i e) = None \<Longrightarrow> fr_pin_count (f (frame_of i e)) = 0"
  shows "engine_ok (change_frame i f e) \<and> pool_view (change_frame i f e) = pool_view e"
proof (rule engine_ok_same [OF assms(1)])
  note fr = frame_of_change_frame [OF assms(2)]
  have ok: "pool_ok (en_pool e)" using assms(1) by (simp add: engine_ok_def)
  show "same_frames e (change_frame i f e)" by (simp add: same_frames_def fr f)
  show "files_ok (change_frame i f e)" using assms(1) by (simp add: engine_ok_def files_ok_def)
  show "distinct (bp_order (en_pool (change_frame i f e)))" using pool_okD(5) [OF ok] by simp
  show "fr_dirty (frame_of j (change_frame i f e)) = fr_dirty (frame_of j e) \<and>
      (fr_key (frame_of j e) = None \<longrightarrow> fr_pin_count (frame_of j (change_frame i f e)) = fr_pin_count (frame_of j e))"
    if "j < length (bp_frames (en_pool e))" for j
    using pin pool_okD(4) [OF ok assms(2)] by (simp add: fr f)
qed simp_all

subsection \<open>What a fetch does\<close>

text \<open>
  The contents that the pool shows stay the same, pinned frames keep their pages, and a page that was found has one pin
  more; no other pin count changes.
\<close>

definition fetched :: "PageKey \<Rightarrow> Engine \<Rightarrow> (BufferPoolError, FrameId) result \<Rightarrow> Engine \<Rightarrow> bool" where
  "fetched key e r e1 \<longleftrightarrow> engine_ok e1 \<and> health e1 = health e \<and> pool_view e1 = pool_view e
     \<and> length (bp_frames (en_pool e1)) = length (bp_frames (en_pool e)) \<and> bp_lifecycle (en_pool e1) = bp_lifecycle (en_pool e)
     \<and> (\<forall>j < length (bp_frames (en_pool e)). fr_pin_count (frame_of j e1) = fr_pin_count (frame_of j e) + (if r = Inr j then 1 else 0)
          \<and> (fr_pin_count (frame_of j e) \<noteq> 0 \<longrightarrow> fr_key (frame_of j e1) = fr_key (frame_of j e) \<and> fr_page (frame_of j e1) = fr_page (frame_of j e)))
     \<and> (\<forall>i. r = Inr i \<longrightarrow> i < length (bp_frames (en_pool e)) \<and> fr_key (frame_of i e1) = Some key)"

lemma fetched_error: "unchanged e e1 \<Longrightarrow> fetched key e (Inl error) e1"
  by (simp add: fetched_def unchanged_def)

lemma fetched_trans: "unchanged e e1 \<Longrightarrow> fetched key e1 r e2 \<Longrightarrow> fetched key e r e2"
  by (simp add: fetched_def unchanged_def)

lemma fetched_unchanged:
  assumes "fetched key e r e1" "unchanged e1 e2"
  shows "fetched key e r e2"
  using assms by (auto simp: fetched_def unchanged_def)

lemma fetched_publish:
  assumes ok: "engine_ok e" and i: "i < length (bp_frames (en_pool e))" "fr_pin_count (frame_of i e) = 0"
    and page: "disk_view e key = Some page" and missing: "bp_page_table (en_pool e) key = None"
    and old: "fr_key (frame_of i e) = old_key" "\<And>k. old_key = Some k \<Longrightarrow> disk_view e k = Some (fr_page (frame_of i e))"
  shows "fetched key e (Inr i) (publish i old_key key page e)"
  using publish_law [OF ok i(1) page missing old] i(2) by (simp add: fetched_def frame_of_publish [OF i(1)] i)

lemma hit_frame_law:
  assumes ok: "engine_ok e" and i: "i < length (bp_frames (en_pool e))" and key: "fr_key (frame_of i e) = Some key"
    and run: "hit_frame i e = (r, e1)"
  shows "fetched key e r e1"
proof -
  define e2 where "e2 = change_pool (\<lambda>pool. pool\<lparr>bp_hit_count := bp_hit_count pool + 1\<rparr>) e"
  define e3 where "e3 = change_frame i (\<lambda>frame. frame\<lparr>fr_pin_count := fr_pin_count frame + 1\<rparr>) e2"
  have u2: "unchanged e e2" unfolding e2_def by (rule unchanged_counters) (simp_all add: ok)
  have i2: "i < length (bp_frames (en_pool e2))" "fr_key (frame_of i e2) = Some key"
    using u2 i key by (simp_all add: unchanged_def)
  show ?thesis
  proof (cases "fr_pin_count (frame_of i e2) = kMaxPinCount")
    case True
    then show ?thesis using run fetched_error [OF u2] by (auto simp: hit_frame_def Let_def e2_def)
  next
    case False
    define e4 where "e4 = change_pool (\<lambda>pool. if bp_policy pool = kLru then pool\<lparr>bp_order := record_load i (bp_order pool)\<rparr> else pool) e3"
    have r: "r = Inr i" "e1 = e4" using run False by (auto simp: hit_frame_def Let_def e2_def e3_def e4_def)
    have ok3: "engine_ok e3 \<and> pool_view e3 = pool_view e2"
      unfolding e3_def by (rule frame_notes [OF unchanged_ok [OF u2] i2(1)]) (simp_all add: i2(2))
    have f3: "frame_of j e3 = (if j = i then (frame_of i e2)\<lparr>fr_pin_count := fr_pin_count (frame_of i e2) + 1\<rparr> else frame_of j e2)" for j
      by (simp add: e3_def frame_of_change_frame [OF i2(1)])
    have f4: "frame_of j e4 = frame_of j e3" for j unfolding e4_def by (rule frame_of_change_pool) simp
    have pool4: "bp_page_table (en_pool e4) = bp_page_table (en_pool e3)" "length (bp_frames (en_pool e4)) = length (bp_frames (en_pool e3))"
      "bp_lifecycle (en_pool e4) = bp_lifecycle (en_pool e3)" "health e4 = health e3" by (simp_all add: e4_def)
    have order: "i \<in> set (bp_order (en_pool e3))" "distinct (bp_order (en_pool e3))"
      using pool_okD(5,6) [of e3] ok3 i2 by (simp_all add: engine_ok_def f3) (simp add: e3_def)
    have "engine_ok e4 \<and> pool_view e4 = pool_view e3"
    proof (rule engine_ok_same [OF conjunct1 [OF ok3]])
      show "same_frames e3 e4" by (simp add: same_frames_def f4 pool4)
      show "files_ok e4" using ok3 by (simp add: engine_ok_def files_ok_def e4_def)
      show "distinct (bp_order (en_pool e4))" using record_load_set(2) order(2) by (simp add: e4_def)
      show "set (bp_order (en_pool e4)) = set (bp_order (en_pool e3))" using record_load_set(1) order by (auto simp: e4_def)
    qed (simp_all add: f4, simp add: e4_def)
    then show ?thesis
      using u2 ok3 i i2 pool4 by (simp add: fetched_def unchanged_def r f4 f3) (simp add: e3_def)
  qed
qed

lemma load_free_frame_law:
  assumes ok: "engine_ok e" and i: "i < length (bp_frames (en_pool e))" and free: "fr_state (frame_of i e) = kFrameFree"
    and missing: "bp_page_table (en_pool e) key = None" and run: "load_free_frame i key e = (r, e1)"
  shows "fetched key e r e1"
proof (cases "fr_ticket (frame_of i e) = kMaxU64")
  case True
  then show ?thesis using run fetched_error [OF unchanged_refl [OF ok]] by (auto simp: load_free_frame_def)
next
  case False
  obtain x e2 where read: "read_key key e = (x, e2)" by fastforce
  have u: "unchanged e e2" by (rule unchanged_read_key [OF read ok])
  have files: "files_ok e" using ok by (simp add: engine_ok_def)
  note law = read_key_law [OF read files]
  have i2: "i < length (bp_frames (en_pool e2))" using i law(2) by simp
  have ok2: "pool_ok (en_pool e2)" using unchanged_ok [OF u] by (simp add: engine_ok_def)
  have "fr_key (frame_of i e2) = None" using pool_okD(2) [OF ok2 i2] free by (simp add: frame_of_pool [OF law(2)])
  note none = this pool_okD(4) [OF ok2 i2 this]
  show ?thesis
  proof (cases x)
    case (Inr page)
    then have "fetched key e2 (Inr i) (publish i None key page e2)"
      using fetched_publish [OF unchanged_ok [OF u] i2 _ _ _ none(1), of key page] none(2) law(3,4) missing by (simp add: law(2))
    then show ?thesis using fetched_trans [OF u] run read False Inr by (simp add: load_free_frame_def)
  next
    case (Inl error)
    define e3 where "e3 = change_frame i (\<lambda>frame. (reset_to_free frame)\<lparr>fr_ticket := fr_ticket frame + 1\<rparr>) e2"
    have f3: "frame_of j e3 = (if j = i then (reset_to_free (frame_of i e2))\<lparr>fr_ticket := fr_ticket (frame_of i e2) + 1\<rparr> else frame_of j e2)" for j
      by (simp add: e3_def frame_of_change_frame [OF i2])
    have state: "fr_state (frame_of i e2) = kFrameFree" using free by (simp add: frame_of_pool [OF law(2)])
    have pool3: "length (bp_frames (en_pool e3)) = length (bp_frames (en_pool e2))" "bp_lifecycle (en_pool e3) = bp_lifecycle (en_pool e2)"
      "health e3 = health e2"
      by (simp_all add: e3_def)
    have "engine_ok e3 \<and> pool_view e3 = pool_view e2"
    proof (rule engine_ok_same [OF unchanged_ok [OF u]])
      show "same_frames e2 e3" using none state by (simp add: same_frames_def f3 reset_to_free_def) (simp add: e3_def)
      show "files_ok e3" using unchanged_ok [OF u] by (simp add: engine_ok_def files_ok_def e3_def)
      show "distinct (bp_order (en_pool e3))" using pool_okD(5) [OF ok2] by (simp add: e3_def)
      show "fr_dirty (frame_of j e3) = fr_dirty (frame_of j e2) \<and>
          (fr_key (frame_of j e2) = None \<longrightarrow> fr_pin_count (frame_of j e3) = fr_pin_count (frame_of j e2))" for j
        using none by (simp add: f3 reset_to_free_def)
    qed (simp_all add: e3_def)
    then have "fetched key e2 (Inl error) e3" using none by (simp add: fetched_def f3 pool3 reset_to_free_def)
    then show ?thesis using fetched_trans [OF u] run read False Inl by (simp add: load_free_frame_def e3_def)
  qed
qed

lemma replace_clean_law:
  assumes ok: "engine_ok e" and i: "i < length (bp_frames (en_pool e))" "fr_pin_count (frame_of i e) = 0"
    and old: "fr_key (frame_of i e) = Some old_key" "\<not> fr_dirty (frame_of i e)"
    and missing: "bp_page_table (en_pool e) key = None" and run: "replace_clean i old_key key e = (r, e1)"
  shows "fetched key e r e1"
proof -
  obtain x e2 where read: "read_key key e = (x, e2)" by fastforce
  have u: "unchanged e e2" by (rule unchanged_read_key [OF read ok])
  have files: "files_ok e" and cached: "cached_ok e" using ok by (simp_all add: engine_ok_def)
  note law = read_key_law [OF read files]
  note fr = frame_of_pool [OF law(2)]
  show ?thesis
  proof (cases x)
    case (Inl error)
    then show ?thesis using fetched_error [OF u] run read by (auto simp: replace_clean_def)
  next
    case (Inr page)
    define e3 where "e3 = publish i (Some old_key) key page e2"
    have "disk_view e2 old_key = Some (fr_page (frame_of i e2))" using cached i old by (simp add: cached_ok_def law(3) fr)
    then have f3: "fetched key e2 (Inr i) e3"
      unfolding e3_def
      by (intro fetched_publish [OF unchanged_ok [OF u]]) (use i old missing law(4) Inr in \<open>simp_all add: law(2,3) fr\<close>)
    moreover have "unchanged e3 e1" "r = Inr i"
    proof -
      have e1: "e1 = change_pool (\<lambda>pool. pool\<lparr>bp_eviction_count := bp_eviction_count pool + 1\<rparr>) e3" and "r = Inr i"
        using run read Inr by (simp_all add: replace_clean_def e3_def)
      then show "r = Inr i" by simp
      show "unchanged e3 e1" unfolding e1 by (rule unchanged_counters) (use f3 in \<open>simp_all add: fetched_def\<close>)
    qed
    ultimately show ?thesis using fetched_trans [OF u fetched_unchanged] by simp
  qed
qed

lemma replace_dirty_law:
  assumes ok: "engine_ok e" and i: "i < length (bp_frames (en_pool e))" "fr_pin_count (frame_of i e) = 0"
    and old: "fr_key (frame_of i e) = Some old_key" "fr_dirty (frame_of i e)"
    and missing: "bp_page_table (en_pool e) key = None" and run: "replace_dirty i old_key key e = (r, e1)"
  shows "fetched key e r e1"
proof -
  obtain x e2 where read: "read_key key e = (x, e2)" by fastforce
  have u: "unchanged e e2" by (rule unchanged_read_key [OF read ok])
  have files: "files_ok e" using ok by (simp add: engine_ok_def)
  note law = read_key_law [OF read files]
  note fr = frame_of_pool [OF law(2)]
  show ?thesis
  proof (cases "(\<exists>error. x = Inl error) \<or> bp_dirty_flush_count (en_pool e2) = kMaxU64")
    case True
    then show ?thesis using fetched_error [OF u] run read by (cases x) (auto simp: replace_dirty_def)
  next
    case False
    then obtain page where page: "x = Inr page" by (cases x) auto
    obtain w e3 where wr: "write_key old_key (fr_page (frame_of i e2)) e2 = (w, e3)" by fastforce
    have i2: "i < length (bp_frames (en_pool e2))" "fr_key (frame_of i e2) = Some old_key" "fr_dirty (frame_of i e2)"
      using i old by (simp_all add: law(2) fr)
    have u3: "unchanged e e3" by (rule unchanged_trans [OF u unchanged_write_key [OF wr unchanged_ok [OF u] i2]])
    have files2: "files_ok e2" by (rule law(1))
    note wlaw = write_key_law [OF wr files2]
    note fr3 = frame_of_pool [OF wlaw(2)]
    show ?thesis
    proof (cases w)
      case (Inl error)
      then show ?thesis using fetched_error [OF u3] run read page wr False by (auto simp: replace_dirty_def)
    next
      case (Inr v)
      define e4 where "e4 = publish i (Some old_key) key page e3"
      have "key \<noteq> old_key" using missing pool_okD(1) [of e old_key i] ok i(1) old(1) by (auto simp: engine_ok_def)
      then have "disk_view e3 key = Some page" using wlaw(3) [of key] law(3) law(4) [OF page] by simp
      moreover have "disk_view e3 old_key = Some (fr_page (frame_of i e3))" using wlaw(5) [OF Inr] by (simp add: fr3)
      ultimately have f4: "fetched key e3 (Inr i) e4"
        unfolding e4_def
        by (intro fetched_publish [OF unchanged_ok [OF u3]]) (use i old missing in \<open>simp_all add: law(2) wlaw(2) fr fr3\<close>)
      moreover have "unchanged e4 e1" "r = Inr i"
      proof -
        have e1: "e1 = change_pool (\<lambda>pool. pool\<lparr>bp_dirty_flush_count := bp_dirty_flush_count pool + 1,
                  bp_eviction_count := bp_eviction_count pool + 1\<rparr>) e4" and "r = Inr i"
          using run read page wr Inr False by (simp_all add: replace_dirty_def e4_def)
        then show "r = Inr i" by simp
        show "unchanged e4 e1" unfolding e1 by (rule unchanged_counters) (use f4 in \<open>simp_all add: fetched_def\<close>)
      qed
      ultimately show ?thesis using fetched_trans [OF u3 fetched_unchanged] by simp
    qed
  qed
qed

lemma replace_victim_law:
  assumes ok: "engine_ok e" and i: "i < length (bp_frames (en_pool e))" "eligible e i"
    and missing: "bp_page_table (en_pool e) key = None"
    and run: "replace_victim i (the (fr_key (frame_of i e))) key e = (r, e1)"
  shows "fetched key e r e1"
proof (cases "fr_ticket (frame_of i e) = kMaxU64 \<or> bp_eviction_count (en_pool e) = kMaxU64 \<or> fr_replacement_ticket (frame_of i e) = kMaxU64")
  case True
  then show ?thesis using run fetched_error [OF unchanged_refl [OF ok]] by (auto simp: replace_victim_def split: if_splits)
next
  case False
  define e2 where "e2 = change_frame i (\<lambda>frame. frame\<lparr>fr_replacement_ticket := fr_replacement_ticket frame + 1\<rparr>) e"
  obtain old_key where old: "fr_key (frame_of i e) = Some old_key" and pin: "fr_pin_count (frame_of i e) = 0"
    using i(2) by (auto simp: eligible_def)
  have f2: "frame_of j e2 = (if j = i then (frame_of i e)\<lparr>fr_replacement_ticket := fr_replacement_ticket (frame_of i e) + 1\<rparr> else frame_of j e)" for j
    by (simp add: e2_def frame_of_change_frame [OF i(1)])
  have "engine_ok e2 \<and> pool_view e2 = pool_view e"
    unfolding e2_def by (rule frame_notes [OF ok i(1)]) (simp_all add: pin)
  then have u: "unchanged e e2" by (simp add: unchanged_def f2) (simp add: e2_def)
  have i2: "i < length (bp_frames (en_pool e2))" "fr_pin_count (frame_of i e2) = 0" "fr_key (frame_of i e2) = Some old_key"
    "bp_page_table (en_pool e2) key = None"
    using i(1) pin old missing by (simp_all add: f2) (simp_all add: e2_def)
  have "fetched key e2 r e1"
  proof (cases "fr_dirty (frame_of i e2)")
    case True
    then show ?thesis using replace_dirty_law [OF unchanged_ok [OF u] i2(1-3) True i2(4)] run False old
      by (simp add: replace_victim_def Let_def e2_def)
  next
    case clean: False
    then show ?thesis using replace_clean_law [OF unchanged_ok [OF u] i2(1-3) clean i2(4)] run False old
      by (simp add: replace_victim_def Let_def e2_def)
  qed
  then show ?thesis by (rule fetched_trans [OF u])
qed

lemma miss_law:
  assumes ok: "engine_ok e" and missing: "bp_page_table (en_pool e) key = None" and run: "miss key e = (r, e1)"
  shows "fetched key e r e1"
proof -
  define e2 where "e2 = change_pool (\<lambda>pool. pool\<lparr>bp_miss_count := bp_miss_count pool + 1\<rparr>) e"
  have u: "unchanged e e2" unfolding e2_def by (rule unchanged_counters) (simp_all add: ok)
  note ok2 = unchanged_ok [OF u]
  have missing2: "bp_page_table (en_pool e2) key = None" using missing by (simp add: e2_def)
  have "fetched key e2 r e1"
  proof (cases "find (\<lambda>i. fr_state (frame_of i e2) = kFrameFree) [0..<length (bp_frames (en_pool e2))]")
    case (Some i)
    then have "i < length (bp_frames (en_pool e2))" "fr_state (frame_of i e2) = kFrameFree" by (auto simp: find_Some_iff)
    moreover have "load_free_frame i key e2 = (r, e1)" using run Some by (simp add: miss_def Let_def e2_def)
    ultimately show ?thesis using load_free_frame_law [OF ok2] missing2 by blast
  next
    case none: None
    show ?thesis
    proof (cases "choose_victim (eligible e2) (bp_order (en_pool e2))")
      case None
      then show ?thesis using run none fetched_error [OF unchanged_refl [OF ok2]] by (auto simp: miss_def Let_def e2_def)
    next
      case (Some i)
      then have "eligible e2 i" "i \<in> set (bp_order (en_pool e2))" by (auto simp: choose_victim_def find_Some_iff)
      moreover have "i < length (bp_frames (en_pool e2))"
        using calculation(2) pool_okD(6) [of e2 i] ok2 by (simp add: engine_ok_def)
      moreover have "replace_victim i (the (fr_key (frame_of i e2))) key e2 = (r, e1)"
        using run none Some by (simp add: miss_def Let_def e2_def)
      ultimately show ?thesis using replace_victim_law [OF ok2] missing2 by blast
    qed
  qed
  then show ?thesis by (rule fetched_trans [OF u])
qed

lemma fetch_page_law:
  assumes ok: "engine_ok e" and run: "fetch_page key e = (r, e1)"
  shows "fetched key e r e1"
proof (cases "\<not> pool_open e \<or> pk_page_id key = 0 \<or> bp_fetch_count (en_pool e) = kMaxU64")
  case True
  then show ?thesis using run fetched_error [OF unchanged_refl [OF ok]] by (auto simp: fetch_page_def split: if_splits)
next
  case False
  define e2 where "e2 = change_pool (\<lambda>pool. pool\<lparr>bp_fetch_count := bp_fetch_count pool + 1\<rparr>) e"
  have u: "unchanged e e2" unfolding e2_def by (rule unchanged_counters) (simp_all add: ok)
  note ok2 = unchanged_ok [OF u]
  have "fetched key e2 r e1"
  proof (cases "bp_page_table (en_pool e2) key")
    case None
    then have "miss key e2 = (r, e1)" using run False by (simp add: fetch_page_def Let_def e2_def)
    then show ?thesis by (rule miss_law [OF ok2 None])
  next
    case (Some i)
    have ok3: "pool_ok (en_pool e2)" using ok2 by (simp add: engine_ok_def)
    have i: "i < length (bp_frames (en_pool e2))" "fr_key (frame_of i e2) = Some key" using pool_okD(1) [OF ok3] Some by simp_all
    then have "fr_state (frame_of i e2) = kFrameReady" using pool_okD(2) [OF ok3] by simp
    then have "hit_frame i e2 = (r, e1)" using run False Some by (simp add: fetch_page_def Let_def e2_def)
    then show ?thesis by (rule hit_frame_law [OF ok2 i])
  qed
  then show ?thesis by (rule fetched_trans [OF u])
qed

lemma fetched_view:
  assumes "fetched key e (Inr i) e1"
  shows "i < length (bp_frames (en_pool e1))" "fr_key (frame_of i e1) = Some key" "pool_view e key = Some (guard_page i e1)"
    "engine_ok e1" "pool_view e1 = pool_view e" "fr_pin_count (frame_of i e1) \<noteq> 0"
proof -
  show i: "i < length (bp_frames (en_pool e1))" "fr_key (frame_of i e1) = Some key" and ok: "engine_ok e1"
    and view: "pool_view e1 = pool_view e" and "fr_pin_count (frame_of i e1) \<noteq> 0"
    using assms by (auto simp: fetched_def)
  have "bp_page_table (en_pool e1) key = Some i" using pool_okD(1) i ok by (simp add: engine_ok_def)
  then have "pool_view e1 key = Some (guard_page i e1)" by (simp add: pool_view_def guard_page_def)
  then show "pool_view e key = Some (guard_page i e1)" by (simp add: view)
qed

subsection \<open>What a guard does\<close>

lemma change_guarded_law:
  assumes ok: "engine_ok e" and i: "i < length (bp_frames (en_pool e))" and key: "fr_key (frame_of i e) = Some key"
  shows "engine_ok (change_guarded i page e)" "pool_view (change_guarded i page e) = (pool_view e)(key \<mapsto> page)"
proof -
  define e1 where "e1 = change_guarded i page e"
  have p: "pool_ok (en_pool e)" "files_ok e" "cached_ok e" using ok by (simp_all add: engine_ok_def)
  note d = pool_okD [OF p(1)]
  have f1: "frame_of j e1 = (if j = i then (frame_of i e)\<lparr>fr_page := page, fr_dirty := True\<rparr> else frame_of j e)" for j
    by (simp add: e1_def change_guarded_def frame_of_change_frame [OF i])
  have pool: "bp_page_table (en_pool e1) = bp_page_table (en_pool e)" "bp_order (en_pool e1) = bp_order (en_pool e)"
    "length (bp_frames (en_pool e1)) = length (bp_frames (en_pool e))" "disk_view e1 = disk_view e" "en_files e1 = en_files e"
    by (simp_all add: e1_def change_guarded_def)
  have "pool_ok (en_pool e1)" using d pool(1-3) unfolding pool_ok_def frame_of_def [symmetric] f1 by (auto simp: key)
  moreover have "cached_ok e1" using p(3) by (simp add: cached_ok_def f1 pool)
  moreover have "files_ok e1" using p(2) by (simp add: files_ok_def pool)
  ultimately show "engine_ok (change_guarded i page e)" by (simp add: engine_ok_def e1_def)
  show "pool_view (change_guarded i page e) = (pool_view e)(key \<mapsto> page)"
  proof
    fix k
    have resident: "bp_page_table (en_pool e) key = Some i" using d(1) i key by simp
    have "pool_view e1 k = ((pool_view e)(key \<mapsto> page)) k"
    proof (cases "k = key")
      case True
      then show ?thesis using resident by (simp add: pool_view_def pool f1)
    next
      case False
      then have "j \<noteq> i" if "bp_page_table (en_pool e) k = Some j" for j using d(1) [of k j] that key by auto
      then show ?thesis using False by (simp add: pool_view_def pool f1 split: option.split)
    qed
    then show "pool_view (change_guarded i page e) k = ((pool_view e)(key \<mapsto> page)) k" by (simp add: e1_def)
  qed
qed

lemma unpin_law:
  assumes "engine_ok e" "i < length (bp_frames (en_pool e))"
  shows "engine_ok (unpin i e) \<and> pool_view (unpin i e) = pool_view e"
  unfolding unpin_def
  using assms pool_okD(4) [of e i] by (intro frame_notes) (simp_all add: engine_ok_def)

text \<open>The two ways the heap table uses a guard: read the page, or replace it and mark it dirty; then the guard is released.\<close>

definition read_through :: "PageKey \<Rightarrow> RawPage pool_io" where
  "read_through key e = (case fetch_page key e of (Inl error, e1) \<Rightarrow> (Inl error, e1) | (Inr i, e1) \<Rightarrow> (Inr (guard_page i e1), unpin i e1))"

definition write_through :: "PageKey \<Rightarrow> RawPage \<Rightarrow> unit pool_io" where
  "write_through key page e =
     (case fetch_page key e of (Inl error, e1) \<Rightarrow> (Inl error, e1) | (Inr i, e1) \<Rightarrow> (Inr (), unpin i (change_guarded i page e1)))"

lemma read_through_law:
  assumes "engine_ok e" "read_through key e = (r, e1)"
  shows "engine_ok e1 \<and> pool_view e1 = pool_view e \<and> (\<forall>page. r = Inr page \<longrightarrow> pool_view e key = Some page)"
proof -
  obtain x e2 where run: "fetch_page key e = (x, e2)" by fastforce
  note f = fetch_page_law [OF assms(1) run]
  show ?thesis
  proof (cases x)
    case (Inl error)
    then show ?thesis using assms(2) run f by (auto simp: read_through_def fetched_def)
  next
    case (Inr i)
    note v = fetched_view [OF f [unfolded Inr]]
    show ?thesis using assms(2) run Inr unpin_law [OF v(4,1)] v(3,5) by (auto simp: read_through_def)
  qed
qed

lemma write_through_law:
  assumes "engine_ok e" "write_through key page e = (r, e1)"
  shows "engine_ok e1 \<and> pool_view e1 = (if r = Inr () then (pool_view e)(key \<mapsto> page) else pool_view e)
    \<and> (r = Inr () \<longrightarrow> pool_view e key \<noteq> None)"
proof -
  obtain x e2 where run: "fetch_page key e = (x, e2)" by fastforce
  note f = fetch_page_law [OF assms(1) run]
  show ?thesis
  proof (cases x)
    case (Inl error)
    then show ?thesis using assms(2) run f by (auto simp: write_through_def fetched_def)
  next
    case (Inr i)
    note v = fetched_view [OF f [unfolded Inr]]
    note c = change_guarded_law [OF v(4,1,2), of page]
    have "i < length (bp_frames (en_pool (change_guarded i page e2)))" using v(1) by (simp add: change_guarded_def)
    note un = unpin_law [OF c(1) this]
    show ?thesis using assms(2) run Inr un c(2) v(3,5) by (auto simp: write_through_def)
  qed
qed

interpretation pool_pages: page_access engine_ok pool_view read_through write_through
proof unfold_locales
  fix e e1 key r assume "engine_ok e" "read_through key e = (r, e1)"
  then show "engine_ok e1 \<and> pool_view e1 = pool_view e \<and> (\<forall>p. r = Inr p \<longrightarrow> pool_view e key = Some p)"
    using read_through_law by blast
next
  fix e e1 key page r assume "engine_ok e" "write_through key page e = (r, e1)"
  then show "engine_ok e1 \<and> (\<forall>j. j \<noteq> key \<longrightarrow> pool_view e1 j = pool_view e j)
      \<and> (pool_view e1 key = None \<longleftrightarrow> pool_view e key = None)
      \<and> (r = Inr () \<longrightarrow> pool_view e key \<noteq> None \<and> pool_view e1 key = Some page)"
    using write_through_law [of e key page r e1] by auto
qed

subsection \<open>Giving pages up\<close>

text \<open>Frames whose pages the files have can be freed.\<close>

lemma drop_frames:
  assumes ok: "engine_ok e" and files: "en_files e1 = en_files e"
    and len: "length (bp_frames (en_pool e1)) = length (bp_frames (en_pool e))"
    and frames: "\<And>i. i < length (bp_frames (en_pool e)) \<Longrightarrow>
      frame_of i e1 = (if Q i then reset_to_free (frame_of i e) else frame_of i e)"
    and clean: "\<And>i. i < length (bp_frames (en_pool e)) \<Longrightarrow> Q i \<Longrightarrow> \<not> fr_dirty (frame_of i e)"
    and table: "\<And>k. bp_page_table (en_pool e1) k
      = (case bp_page_table (en_pool e) k of None \<Rightarrow> None | Some i \<Rightarrow> if Q i then None else Some i)"
    and order: "distinct (bp_order (en_pool e1))" "set (bp_order (en_pool e1)) = {i \<in> set (bp_order (en_pool e)). \<not> Q i}"
  shows "engine_ok e1" "pool_view e1 = pool_view e"
proof -
  have p: "pool_ok (en_pool e)" "files_ok e" "cached_ok e" using ok by (simp_all add: engine_ok_def)
  note d = pool_okD [OF p(1)]
  have disk: "disk_view e1 = disk_view e" by (simp add: fun_eq_iff disk_view_def files)
  have "pool_ok (en_pool e1)"
    unfolding pool_ok_def frame_of_def [symmetric] len
  proof (intro conjI allI impI)
    fix k i
    have "bp_page_table (en_pool e1) k = Some i \<longleftrightarrow> bp_page_table (en_pool e) k = Some i \<and> \<not> Q i"
      by (auto simp: table split: option.split)
    also have "\<dots> \<longleftrightarrow> i < length (bp_frames (en_pool e)) \<and> fr_key (frame_of i e1) = Some k"
      using d(1) [of k i] by (auto simp: frames reset_to_free_def split: if_splits)
    finally show "bp_page_table (en_pool e1) k = Some i \<longleftrightarrow> i < length (bp_frames (en_pool e)) \<and> fr_key (frame_of i e1) = Some k" .
  next
    show "set (bp_order (en_pool e1)) = {i. i < length (bp_frames (en_pool e)) \<and> fr_key (frame_of i e1) \<noteq> None}"
    proof (rule set_eqI)
      fix i
      show "i \<in> set (bp_order (en_pool e1)) \<longleftrightarrow> i \<in> {i. i < length (bp_frames (en_pool e)) \<and> fr_key (frame_of i e1) \<noteq> None}"
        using d(6) [of i] by (cases "i < length (bp_frames (en_pool e))") (simp_all add: order(2) frames reset_to_free_def)
    qed
  next
    fix i assume i: "i < length (bp_frames (en_pool e))"
    show "(fr_state (frame_of i e1) = kFrameReady) = (fr_key (frame_of i e1) \<noteq> None)" "fr_state (frame_of i e1) \<noteq> kFrameLoading"
      using d(2,3) [OF i] by (simp_all add: frames [OF i] reset_to_free_def)
    assume "fr_key (frame_of i e1) = None"
    then show "fr_pin_count (frame_of i e1) = 0" "\<not> fr_dirty (frame_of i e1)"
      using d(4) [OF i] by (auto simp: frames [OF i] reset_to_free_def split: if_splits)
  qed (rule order(1))
  moreover have "cached_ok e1" using p(3) by (simp add: cached_ok_def len frames disk reset_to_free_def)
  moreover have "files_ok e1" using p(2) by (simp add: files_ok_def files)
  ultimately show "engine_ok e1" by (simp add: engine_ok_def)
  show "pool_view e1 = pool_view e"
  proof
    fix k
    show "pool_view e1 k = pool_view e k"
    proof (cases "bp_page_table (en_pool e) k")
      case (Some i)
      then have i: "i < length (bp_frames (en_pool e))" "fr_key (frame_of i e) = Some k" using d(1) by simp_all
      then show ?thesis using p(3) clean [OF i(1)] Some by (simp add: pool_view_def table frames disk cached_ok_def)
    qed (simp add: pool_view_def table disk)
  qed
qed

text \<open>Pages of clean frames and pages that are not resident are in the files as the pool shows them.\<close>

lemma clean_view:
  assumes "engine_ok e" "\<And>i. i < length (bp_frames (en_pool e)) \<Longrightarrow> fr_key (frame_of i e) = Some key \<Longrightarrow> \<not> fr_dirty (frame_of i e)"
  shows "disk_view e key = pool_view e key"
proof (cases "bp_page_table (en_pool e) key")
  case (Some i)
  then have "i < length (bp_frames (en_pool e))" "fr_key (frame_of i e) = Some key"
    using pool_okD(1) [of e key i] assms(1) by (simp_all add: engine_ok_def)
  then show ?thesis using assms Some by (simp add: pool_view_def engine_ok_def cached_ok_def)
qed (simp add: pool_view_def)

lemma flush_all_locked_law:
  assumes ok: "engine_ok e" and run: "flush_all_locked e = (r, e1)"
  shows "engine_ok e1 \<and> pool_view e1 = pool_view e \<and> written_back e e1 \<and> (r = Inr () \<longrightarrow> disk_view e1 = pool_view e
    \<and> (\<forall>i < length (bp_frames (en_pool e)). \<not> fr_dirty (frame_of i e1)))"
proof -
  have law: "engine_ok e1 \<and> pool_view e1 = pool_view e \<and> written_back e e1
     \<and> (r = Inr () \<longrightarrow> (\<forall>i \<in> set [0..<length (bp_frames (en_pool e))]. \<not> fr_dirty (frame_of i e1)))"
    using run unfolding flush_all_locked_def by (rule flush_frames_law) (simp_all add: ok)
  then have "length (bp_frames (en_pool e1)) = length (bp_frames (en_pool e))" by (simp add: written_back_def same_frames_def)
  then show ?thesis using law clean_view [of e1] by (auto simp: fun_eq_iff)
qed

lemma close_pool_law:
  assumes ok: "engine_ok e" and run: "close_pool e = (r, e1)"
  shows "engine_ok e1 \<and> pool_view e1 = pool_view e \<and> (r = Inr () \<and> pool_open e \<longrightarrow> disk_view e1 = pool_view e
    \<and> bp_page_table (en_pool e1) = Map.empty \<and> bp_lifecycle (en_pool e1) = kPoolClosed)"
proof (cases "\<not> pool_open e \<or> list_ex (\<lambda>frame. fr_pin_count frame \<noteq> 0) (bp_frames (en_pool e))")
  case True
  then have "e1 = e \<and> (pool_open e \<longrightarrow> r \<noteq> Inr ())"
    using run by (cases "bp_lifecycle (en_pool e)") (auto simp: close_pool_def pool_open_def split: if_splits)
  then show ?thesis using ok by auto
next
  case False
  obtain x e2 where flush: "flush_all_locked e = (x, e2)" by fastforce
  note law = flush_all_locked_law [OF ok flush]
  show ?thesis
  proof (cases x)
    case (Inl error)
    then have "e1 = e2" "r = Inl error" using run False flush by (auto simp: close_pool_def pool_open_def split: if_splits)
    then show ?thesis using law by simp
  next
    case (Inr v)
    have len: "length (bp_frames (en_pool e2)) = length (bp_frames (en_pool e))" using law by (simp add: written_back_def same_frames_def)
    have e1: "e1 = change_pool (\<lambda>pool. pool\<lparr>bp_frames := map reset_to_free (bp_frames pool), bp_page_table := Map.empty,
             bp_order := [], bp_lifecycle := kPoolClosed\<rparr>) e2"
      using run False flush Inr by (auto simp: close_pool_def pool_open_def split: if_splits)
    have fr: "frame_of i e1 = reset_to_free (frame_of i e2)" if "i < length (bp_frames (en_pool e2))" for i
      using that by (simp add: frame_of_def e1)
    have pool1: "en_files e1 = en_files e2" "length (bp_frames (en_pool e1)) = length (bp_frames (en_pool e2))"
      "bp_page_table (en_pool e1) = Map.empty" "bp_order (en_pool e1) = []"
      by (simp_all add: e1)
    have clean: "\<not> fr_dirty (frame_of i e2)" if "i < length (bp_frames (en_pool e2))" for i
      using law that Inr len by (cases v) simp
    note drop = drop_frames [where e = e2 and ?e1.0 = e1 and Q = "\<lambda>_. True", OF conjunct1 [OF law] pool1(1,2)]
    have "engine_ok e1" by (rule drop(1)) (simp_all add: fr clean pool1(3,4) split: option.split)
    moreover have "pool_view e1 = pool_view e2" by (rule drop(2)) (simp_all add: fr clean pool1(3,4) split: option.split)
    moreover have "disk_view e1 = disk_view e2" by (simp add: e1)
    ultimately show ?thesis using law Inr by (simp add: e1)
  qed
qed

lemma release_table_law:
  assumes ok: "engine_ok e" and run: "release_table t e = (r, e1)"
  shows "engine_ok e1 \<and> pool_view e1 = pool_view e
    \<and> (r = Inr () \<longrightarrow> (\<forall>key. pk_table_id key = t \<longrightarrow> disk_view e1 key = pool_view e key \<and> bp_page_table (en_pool e1) key = None))"
proof -
  define owned where "owned = filter (\<lambda>i. belongs t (frame_of i e)) [0..<length (bp_frames (en_pool e))]"
  show ?thesis
  proof (cases "\<not> pool_open e \<or> list_ex (\<lambda>frame. belongs t frame \<and> fr_pin_count frame \<noteq> 0) (bp_frames (en_pool e))")
    case True
    then show ?thesis using run ok by (auto simp: release_table_def Let_def split: if_splits)
  next
    case False
    obtain x e2 where flush: "flush_frames owned e = (x, e2)" by fastforce
    have law: "engine_ok e2 \<and> pool_view e2 = pool_view e \<and> written_back e e2
       \<and> (x = Inr () \<longrightarrow> (\<forall>i \<in> set owned. \<not> fr_dirty (frame_of i e2)))"
      by (rule flush_frames_law [OF flush ok]) (auto simp: owned_def)
    have same: "same_frames e e2" using law by (simp add: written_back_def)
    have len: "length (bp_frames (en_pool e2)) = length (bp_frames (en_pool e))" using same by (simp add: same_frames_def)
    have off: "(\<not> pool_open e) = False" "list_ex (\<lambda>frame. belongs t frame \<and> fr_pin_count frame \<noteq> 0) (bp_frames (en_pool e)) = False"
      using False by simp_all
    have run2: "(case (x, e2) of (Inl error, e1) \<Rightarrow> (Inl error, e1)
      | (Inr _, e1) \<Rightarrow> (Inr (), change_pool (\<lambda>pool. pool
            \<lparr>bp_frames := map (\<lambda>frame. if belongs t frame then reset_to_free frame else frame) (bp_frames pool),
             bp_page_table := (\<lambda>key. if pk_table_id key = t then None else bp_page_table pool key),
             bp_order := filter (\<lambda>i. \<not> belongs t (bp_frames pool ! i)) (bp_order pool)\<rparr>) e1)) = (r, e1)"
      using run unfolding flush [symmetric] owned_def frame_of_def release_table_def Let_def by (simp only: off if_False)
    show ?thesis
    proof (cases x)
      case (Inl error)
      then show ?thesis using run2 law by auto
    next
      case (Inr v)
      then have e1: "e1 = change_pool (\<lambda>pool. pool
            \<lparr>bp_frames := map (\<lambda>frame. if belongs t frame then reset_to_free frame else frame) (bp_frames pool),
             bp_page_table := (\<lambda>key. if pk_table_id key = t then None else bp_page_table pool key),
             bp_order := filter (\<lambda>i. \<not> belongs t (bp_frames pool ! i)) (bp_order pool)\<rparr>) e2"
        using run2 by simp
      have ok2: "engine_ok e2" and p2: "pool_ok (en_pool e2)" using law by (simp_all add: engine_ok_def)
      note d = pool_okD [OF p2]
      define Q where "Q = (\<lambda>i. belongs t (frame_of i e2))"
      have bel: "belongs t (frame_of i e2) = belongs t (frame_of i e)" if "i < length (bp_frames (en_pool e2))" for i
        using same that len by (simp add: belongs_def same_frames_def)
      have clean: "\<not> fr_dirty (frame_of i e2)" if "i < length (bp_frames (en_pool e2))" "Q i" for i
      proof -
        have "i \<in> set owned" using that bel len by (simp add: owned_def Q_def)
        then show ?thesis using law Inr by simp
      qed
      have pool1: "en_files e1 = en_files e2" "length (bp_frames (en_pool e1)) = length (bp_frames (en_pool e2))" by (simp_all add: e1)
      have fr: "frame_of i e1 = (if Q i then reset_to_free (frame_of i e2) else frame_of i e2)"
        if "i < length (bp_frames (en_pool e2))" for i
        using that by (simp add: frame_of_def e1 Q_def)
      have table: "bp_page_table (en_pool e1) k
          = (case bp_page_table (en_pool e2) k of None \<Rightarrow> None | Some i \<Rightarrow> if Q i then None else Some i)" for k
      proof (cases "bp_page_table (en_pool e2) k")
        case (Some i)
        then have "fr_key (frame_of i e2) = Some k" using d(1) by simp
        then show ?thesis using Some by (simp add: e1 Q_def belongs_def)
      qed (simp add: e1)
      have order: "distinct (bp_order (en_pool e1))" "set (bp_order (en_pool e1)) = {i \<in> set (bp_order (en_pool e2)). \<not> Q i}"
        using d(5) by (simp_all add: e1 Q_def frame_of_def)
      note drop = drop_frames [OF ok2 pool1 fr clean table order]
      have "disk_view e1 key = pool_view e key" if "pk_table_id key = t" for key
      proof -
        have "disk_view e1 key = disk_view e2 key" by (simp add: e1)
        also have "\<dots> = pool_view e2 key"
          using clean that by (intro clean_view [OF ok2]) (simp add: Q_def belongs_def)
        finally show ?thesis using law by simp
      qed
      then show ?thesis using drop law by (simp add: e1)
    qed
  qed
qed

lemma flush_all_law:
  assumes ok: "engine_ok e" and run: "flush_all e = (r, e1)"
  shows "engine_ok e1 \<and> pool_view e1 = pool_view e \<and> (r = Inr () \<longrightarrow> disk_view e1 = pool_view e)"
  using flush_all_locked_law [OF ok, of r e1] run ok by (auto simp: flush_all_def split: if_splits)

lemma flush_page_law:
  assumes ok: "engine_ok e" and run: "flush_page key e = (r, e1)"
  shows "engine_ok e1 \<and> pool_view e1 = pool_view e \<and> (r = Inr () \<longrightarrow> disk_view e1 key = pool_view e key)"
proof (cases "pool_open e \<and> bp_page_table (en_pool e) key \<noteq> None")
  case False
  then show ?thesis using run ok by (auto simp: flush_page_def pool_view_def split: if_splits)
next
  case True
  then obtain i where i: "bp_page_table (en_pool e) key = Some i" by auto
  have p: "pool_ok (en_pool e)" using ok by (simp add: engine_ok_def)
  have i2: "i < length (bp_frames (en_pool e))" "fr_key (frame_of i e) = Some key" using pool_okD(1) [OF p] i by simp_all
  have flush: "flush_frame i e = (r, e1)" using run True i by (simp add: flush_page_def)
  note law = flush_frame_law [OF flush ok i2(1)]
  have same: "same_frames e e1" using law(3) by (simp add: written_back_def)
  have p1: "pool_ok (en_pool e1)" using law(1) by (simp add: engine_ok_def)
  have "j = i" if "j < length (bp_frames (en_pool e1))" "fr_key (frame_of j e1) = Some key" for j
    using pool_okD(1) [OF p1, of key j] that same i by (simp add: same_frames_def)
  then have "r = Inr () \<Longrightarrow> disk_view e1 key = pool_view e1 key" using law(4) by (intro clean_view [OF law(1)]) auto
  then show ?thesis using law(1,2) by simp
qed

text \<open>A new pool over well-formed files: nothing is resident, so the files show through.\<close>

lemma create_pool_ok:
  assumes "create_pool n policy = Inr pool" "\<And>t pf. files t = Some pf \<Longrightarrow> page_file_ok pf"
  shows "engine_ok \<lparr>en_pool = pool, en_files = files\<rparr>" "pool_view \<lparr>en_pool = pool, en_files = files\<rparr> = disk_view \<lparr>en_pool = pool, en_files = files\<rparr>"
    "pool_open \<lparr>en_pool = pool, en_files = files\<rparr>" "length (bp_frames pool) = n"
proof -
  have pool: "pool = \<lparr>bp_frames = replicate n empty_frame, bp_page_table = Map.empty, bp_order = [], bp_policy = policy,
        bp_lifecycle = kPoolOpen, bp_fetch_count = 0, bp_hit_count = 0, bp_miss_count = 0, bp_dirty_flush_count = 0,
        bp_eviction_count = 0\<rparr>"
    using assms(1) by (simp add: create_pool_def split: if_splits)
  show "engine_ok \<lparr>en_pool = pool, en_files = files\<rparr>"
    using assms(2) by (auto simp: engine_ok_def pool_ok_def files_ok_def cached_ok_def frame_of_def pool empty_frame_def)
  show "pool_view \<lparr>en_pool = pool, en_files = files\<rparr> = disk_view \<lparr>en_pool = pool, en_files = files\<rparr>"
    by (simp add: fun_eq_iff pool_view_def pool)
qed (simp_all add: pool_open_def, insert assms(1), auto simp: create_pool_def split: if_splits)

subsection \<open>Properties of the pool\<close>

text \<open>A pool of one frame over a table file with one page.\<close>

definition demo_table_file :: PageFile where
  "demo_table_file =
     \<lparr>pf_file = \<lparr>df_size = 8192, df_pages = (\<lambda>_ _. 0)(0 := make_header 2 0, 1 := (\<lambda>_. 7))\<rparr>,
      pf_outcomes = [], pf_open = True, pf_poisoned = False, pf_page_count = 2, pf_free_page_head = 0, pf_read_attempts = 0\<rparr>"

definition demo_engine :: Engine where
  "demo_engine =
     \<lparr>en_pool = \<lparr>bp_frames = [empty_frame], bp_page_table = Map.empty, bp_order = [], bp_policy = kFifo,
        bp_lifecycle = kPoolOpen, bp_fetch_count = 0, bp_hit_count = 0, bp_miss_count = 0, bp_dirty_flush_count = 0,
        bp_eviction_count = 0\<rparr>, en_files = [1 \<mapsto> demo_table_file]\<rparr>"

lemma demo_engine:
  "engine_ok demo_engine" "pool_open demo_engine" "pool_view demo_engine \<lparr>pk_table_id = 1, pk_page_id = 1\<rparr> = Some (\<lambda>_. 7)"
proof -
  have list: "free_list_ok demo_table_file []" by (simp add: free_list_ok_def demo_table_file_def)
  have "page_file_ok demo_table_file"
    by (rule page_file_okI [OF list]) (simp_all add: demo_table_file_def kPageSize_def)
  then have f: "page_file_ok pf" if "[1 \<mapsto> demo_table_file] t = Some pf" for t :: TableId and pf
    using that by (simp split: if_splits)
  have pool: "create_pool 1 kFifo = Inr (en_pool demo_engine)"
    by (simp add: create_pool_def demo_engine_def kMaxU64_def)
  have e: "\<lparr>en_pool = en_pool demo_engine, en_files = [1 \<mapsto> demo_table_file]\<rparr> = demo_engine" by (simp add: demo_engine_def)
  note ok = create_pool_ok [OF pool, where files = "[1 \<mapsto> demo_table_file]", OF f, unfolded e]
  show "engine_ok demo_engine" "pool_open demo_engine" by (rule ok(1), simp, rule ok(3), simp)
  show "pool_view demo_engine \<lparr>pk_table_id = 1, pk_page_id = 1\<rparr> = Some (\<lambda>_. 7)"
    using free_list_eq [OF list]
    by (simp add: pool_view_def disk_view_def demo_engine_def page_view_def out_of_range_def) (simp add: demo_table_file_def)
qed

lemma demo_fetch: "fst (fetch_page \<lparr>pk_table_id = 1, pk_page_id = 1\<rparr> demo_engine) = Inr 0"
  by (simp add: fetch_page_def pool_open_def miss_def load_free_frame_def read_key_def on_file_def acquire_file_def
      demo_engine_def demo_table_file_def Let_def kMaxU64_def empty_frame_def frame_of_def read_page_def io_bind_def
      require_open_def out_of_range_def is_free_page_def free_walk.simps read_raw_page_def page_offset_def take_outcome_def
      kPageSize_def change_pool_def)

lemma demo_close: "fst (close_pool demo_engine) = Inr ()"
  by (simp add: close_pool_def demo_engine_def empty_frame_def flush_all_locked_def flush_frame_def frame_of_def)

text \<open>
  C4: the buffer pool is transparent. What a client reads through a guard is what was last written through a guard to
  that page, or what the file holds: fetching a page (hit, load into a free frame, replacement of a clean or a changed
  page, or any failure of these), writing back and releasing a table never change the contents that the pool shows, and
  a change through a guard changes that one page.
\<close>

theorem pool_transparent:
  assumes "engine_ok e"
  shows "(case fetch_page key e of
       (Inr i, e1) \<Rightarrow> engine_ok e1 \<and> pool_view e1 = pool_view e \<and> pool_view e key = Some (guard_page i e1)
         \<and> engine_ok (unpin i e1) \<and> pool_view (unpin i e1) = pool_view e
         \<and> engine_ok (change_guarded i page e1) \<and> pool_view (change_guarded i page e1) = (pool_view e)(key \<mapsto> page)
     | (Inl _, e1) \<Rightarrow> engine_ok e1 \<and> pool_view e1 = pool_view e)
   \<and> engine_ok (snd (flush_page key e)) \<and> pool_view (snd (flush_page key e)) = pool_view e
   \<and> engine_ok (snd (flush_all e)) \<and> pool_view (snd (flush_all e)) = pool_view e
   \<and> engine_ok (snd (release_table t e)) \<and> pool_view (snd (release_table t e)) = pool_view e
   \<and> engine_ok (snd (close_pool e)) \<and> pool_view (snd (close_pool e)) = pool_view e"
proof (intro conjI)
  show "case fetch_page key e of
       (Inr i, e1) \<Rightarrow> engine_ok e1 \<and> pool_view e1 = pool_view e \<and> pool_view e key = Some (guard_page i e1)
         \<and> engine_ok (unpin i e1) \<and> pool_view (unpin i e1) = pool_view e
         \<and> engine_ok (change_guarded i page e1) \<and> pool_view (change_guarded i page e1) = (pool_view e)(key \<mapsto> page)
     | (Inl _, e1) \<Rightarrow> engine_ok e1 \<and> pool_view e1 = pool_view e"
  proof (cases "fetch_page key e")
    case (Pair r e1)
    note f = fetch_page_law [OF assms Pair]
    show ?thesis
    proof (cases r)
      case (Inl error)
      then show ?thesis using Pair f by (simp add: fetched_def)
    next
      case (Inr i)
      note v = fetched_view [OF f [unfolded Inr]]
      show ?thesis using unpin_law [OF v(4,1)] change_guarded_law [OF v(4,1,2)] v by (simp add: Pair Inr)
    qed
  qed
qed (use flush_page_law [OF assms, of key] flush_all_law [OF assms] release_table_law [OF assms, of t] close_pool_law [OF assms]
    in \<open>metis surjective_pairing\<close>)+

theorem pool_transparent_witness:
  "engine_ok (snd (close_pool demo_engine)) \<and> pool_view (snd (close_pool demo_engine)) = pool_view demo_engine"
  using pool_transparent [OF demo_engine(1)] by blast

text \<open>
  C10: a page in use is never taken away. While a frame is pinned, no fetch of any page, whichever frame it
  loads or replaces and however it fails, changes the page or the identity of that frame, and its pin count
  changes only by the pin of a guard that the fetch returns on it.
\<close>

theorem pinned_page_stays:
  assumes "engine_ok e" "j < length (bp_frames (en_pool e))" "fr_pin_count (frame_of j e) \<noteq> 0" "fetch_page key e = (r, e1)"
  shows "fr_key (frame_of j e1) = fr_key (frame_of j e) \<and> guard_page j e1 = guard_page j e
    \<and> fr_pin_count (frame_of j e1) = fr_pin_count (frame_of j e) + (if r = Inr j then 1 else 0)"
  using fetch_page_law [OF assms(1,4)] assms(2,3) by (simp add: fetched_def guard_page_def)

text \<open>
  C9: closing the pool loses nothing. When \<open>close\<close> succeeds on an open pool, no page is resident any more and the files
  hold what the pool showed; the same holds for the pages of a table that \<open>release_table\<close> gave up, and after
  \<open>flush_all\<close>. An operation that fails loses nothing either: the pool still shows the same contents.
\<close>

theorem closed_pool_durable:
  assumes "engine_ok e" "pool_open e"
  shows "(case close_pool e of
       (Inr _, e1) \<Rightarrow> disk_view e1 = pool_view e \<and> bp_page_table (en_pool e1) = Map.empty \<and> \<not> pool_open e1
     | (Inl _, e1) \<Rightarrow> pool_view e1 = pool_view e)
   \<and> (case flush_all e of (Inr _, e1) \<Rightarrow> disk_view e1 = pool_view e | (Inl _, e1) \<Rightarrow> pool_view e1 = pool_view e)
   \<and> (case release_table (pk_table_id key) e of
       (Inr _, e1) \<Rightarrow> disk_view e1 key = pool_view e key \<and> bp_page_table (en_pool e1) key = None
     | (Inl _, e1) \<Rightarrow> pool_view e1 = pool_view e)"
proof (intro conjI)
  show "case close_pool e of
       (Inr _, e1) \<Rightarrow> disk_view e1 = pool_view e \<and> bp_page_table (en_pool e1) = Map.empty \<and> \<not> pool_open e1
     | (Inl _, e1) \<Rightarrow> pool_view e1 = pool_view e"
    using close_pool_law [OF assms(1)] assms(2) by (auto simp: pool_open_def split: prod.split sum.split)
  show "case flush_all e of (Inr _, e1) \<Rightarrow> disk_view e1 = pool_view e | (Inl _, e1) \<Rightarrow> pool_view e1 = pool_view e"
    using flush_all_law [OF assms(1)] by (auto split: prod.split sum.split)
  show "case release_table (pk_table_id key) e of
       (Inr _, e1) \<Rightarrow> disk_view e1 key = pool_view e key \<and> bp_page_table (en_pool e1) key = None
     | (Inl _, e1) \<Rightarrow> pool_view e1 = pool_view e"
    using release_table_law [OF assms(1), of "pk_table_id key"] by (auto split: prod.split sum.split)
qed

theorem pinned_page_stays_witness:
  "fr_pin_count (frame_of 0 (snd (fetch_page \<lparr>pk_table_id = 1, pk_page_id = 1\<rparr>
     (snd (fetch_page \<lparr>pk_table_id = 1, pk_page_id = 1\<rparr> demo_engine))))) \<noteq> 0"
proof -
  define e where "e = snd (fetch_page \<lparr>pk_table_id = 1, pk_page_id = 1\<rparr> demo_engine)"
  have "fetch_page \<lparr>pk_table_id = 1, pk_page_id = 1\<rparr> demo_engine = (Inr 0, e)"
    using demo_fetch by (simp add: e_def prod_eq_iff)
  note v = fetched_view [OF fetch_page_law [OF demo_engine(1) this]]
  obtain r e1 where run: "fetch_page \<lparr>pk_table_id = 1, pk_page_id = 1\<rparr> e = (r, e1)" by fastforce
  show ?thesis using pinned_page_stays [OF v(4,1,6) run] v(6) run by (simp add: e_def)
qed

theorem closed_pool_durable_witness:
  "disk_view (snd (close_pool demo_engine)) \<lparr>pk_table_id = 1, pk_page_id = 1\<rparr> = Some (\<lambda>_. 7)
   \<and> \<not> pool_open (snd (close_pool demo_engine))"
  using closed_pool_durable [OF demo_engine(1,2)] demo_engine(3) demo_close
  by (cases "close_pool demo_engine") auto

end
