(* ===== verification/Heap_Table_Properties.thy ===== *)
theory Heap_Table_Properties
  imports Heap_Table Buffer_Pool_Properties Slot_Store
begin

text \<open>
  A heap table is a map from record ids to rows. The rows are read off the pages as the buffer pool shows them, so what
  is proved here of insertion, deletion, update and scanning holds whatever is cached, replaced or written back in between, and
  whatever operations on the file fail.
\<close>

subsection \<open>The rows of a table\<close>

definition table_page :: "TableMeta \<Rightarrow> Engine \<Rightarrow> PageId \<Rightarrow> RawPage option" where
  "table_page meta e page_id = pool_view e (page_key meta page_id)"

definition heap_rows :: "RowFormat \<Rightarrow> TableMeta \<Rightarrow> Engine \<Rightarrow> RecordId \<Rightarrow> Value list option" where
  "heap_rows format meta e rid =
     (case rid_decode rid of
        Inl _ \<Rightarrow> None
      | Inr parts \<Rightarrow> Option.bind (table_page meta e (rp_page_id parts)) (\<lambda>p. record_lookup format meta (rp_page_id parts) p rid))"

text \<open>The file of the table is open in the manager and was not poisoned by a failed operation.\<close>

definition healthy :: "TableMeta \<Rightarrow> Engine \<Rightarrow> bool" where
  "healthy meta e \<longleftrightarrow> (case health e (tm_table_id meta) of None \<Rightarrow> False | Some (_, poisoned) \<Rightarrow> \<not> poisoned)"

definition heap_ok :: "RowFormat \<Rightarrow> TableMeta \<Rightarrow> Engine \<Rightarrow> bool" where
  "heap_ok format meta e \<longleftrightarrow> engine_ok e
     \<and> (healthy meta e \<longrightarrow> (\<forall>page_id p. table_page meta e page_id = Some p \<longrightarrow> record_page_ok format meta page_id p))"

text \<open>Steps that no user of the table can tell.\<close>

definition same_table :: "Engine \<Rightarrow> Engine \<Rightarrow> bool" where
  "same_table e e1 \<longleftrightarrow> engine_ok e1 \<and> pool_view e1 = pool_view e \<and> health e1 = health e"

lemma same_table_trans: "same_table e e1 \<Longrightarrow> same_table e1 e2 \<Longrightarrow> same_table e e2"
  by (simp add: same_table_def)

lemma same_table_rows:
  assumes "same_table e e1"
  shows "table_page meta e1 = table_page meta e" "heap_rows format meta e1 = heap_rows format meta e" "healthy meta e1 = healthy meta e"
    "heap_ok format meta e \<Longrightarrow> heap_ok format meta e1"
proof -
  show p: "table_page meta e1 = table_page meta e" using assms by (simp add: same_table_def table_page_def fun_eq_iff)
  show "heap_rows format meta e1 = heap_rows format meta e" by (simp add: fun_eq_iff heap_rows_def p split: sum.split)
  show h: "healthy meta e1 = healthy meta e" using assms by (simp add: same_table_def healthy_def)
  show "heap_ok format meta e \<Longrightarrow> heap_ok format meta e1" using assms by (simp add: heap_ok_def p h) (simp add: same_table_def)
qed

lemma heap_bind_cases:
  assumes "heap_bind m f e = (r, e1)"
  obtains (failed) error where "m e = (Inl error, e1)" "r = Inl error"
    | (went_on) a e2 where "m e = (Inr a, e2)" "f a e2 = (r, e1)"
  using assms by (auto simp: heap_bind_def split: prod.splits sum.splits)

lemma on_lease_cases:
  assumes "on_lease t operation e = (r, e1)"
  obtains (missing) error where "en_files e t = None" "r = Inl error" "e1 = e"
    | (ran) pf r1 pf1 where "en_files e t = Some pf" "operation pf = (r1, pf1)"
        "r = map_error translate_file r1" "e1 = e\<lparr>en_files := (en_files e)(t \<mapsto> pf1)\<rparr>"
  using assms by (auto simp: on_lease_def acquire_file_def split: option.splits prod.splits)

text \<open>
  What an operation on the file means for the contents that the pool shows, if it keeps the resident pages as they are:
  the pages that are not resident are those of the file.
\<close>

lemma lease_step:
  assumes ok: "engine_ok e" and pf: "en_files e t = Some pf" "page_file_ok pf1"
    and kept: "\<And>key i. bp_page_table (en_pool e) key = Some i \<Longrightarrow> pk_table_id key = t \<Longrightarrow> page_view pf1 (pk_page_id key) = page_view pf (pk_page_id key)"
    and e1: "e1 = e\<lparr>en_files := (en_files e)(t \<mapsto> pf1)\<rparr>"
  shows "engine_ok e1"
    "pool_view e1 key = (if bp_page_table (en_pool e) key = None \<and> pk_table_id key = t then page_view pf1 (pk_page_id key) else pool_view e key)"
    "bp_page_table (en_pool e1) = bp_page_table (en_pool e)"
    "health e1 = (health e)(t \<mapsto> (pf_open pf1, pf_poisoned pf1))"
proof -
  have p: "pool_ok (en_pool e)" "files_ok e" "cached_ok e" using ok by (simp_all add: engine_ok_def)
  note change = file_changed [OF p(2) pf, folded e1]
  have pool: "en_pool e1 = en_pool e" by (simp add: e1)
  have disk: "disk_view e1 k = disk_view e k" if "bp_page_table (en_pool e) k = Some i" for k i
    using change(2,3) [of k] kept [OF that] by simp
  have fr: "frame_of i e1 = frame_of i e" for i by (rule frame_of_pool [OF pool])
  have "cached_ok e1"
    unfolding cached_ok_def pool fr
  proof (intro allI impI)
    fix i k assume i: "i < length (bp_frames (en_pool e))" "fr_key (frame_of i e) = Some k"
    then have "bp_page_table (en_pool e) k = Some i" using pool_okD(1) [OF p(1)] by simp
    then show "disk_view e1 k \<noteq> None \<and> (\<not> fr_dirty (frame_of i e) \<longrightarrow> disk_view e1 k = Some (fr_page (frame_of i e)))"
      using p(3) i disk by (simp add: cached_ok_def)
  qed
  then show "engine_ok e1" using p(1) change(1) by (simp add: engine_ok_def pool)
  show "pool_view e1 key = (if bp_page_table (en_pool e) key = None \<and> pk_table_id key = t then page_view pf1 (pk_page_id key) else pool_view e key)"
    using change(2) [of key] by (simp add: pool_view_def pool fr split: option.split)
  show "bp_page_table (en_pool e1) = bp_page_table (en_pool e)" by (simp add: pool)
  show "health e1 = (health e)(t \<mapsto> (pf_open pf1, pf_poisoned pf1))" by (simp add: fun_eq_iff health_def e1)
qed

lemma resident_allocated:
  assumes "engine_ok e" "bp_page_table (en_pool e) key = Some i"
  shows "disk_view e key \<noteq> None"
  using assms pool_okD(1) [of e key i] by (auto simp: engine_ok_def cached_ok_def)

lemma allocated_iff: "engine_ok e \<Longrightarrow> pool_view e key = None \<longleftrightarrow> disk_view e key = None"
  using resident_allocated [of e key] by (cases "bp_page_table (en_pool e) key") (auto simp: pool_view_def)

text \<open>An operation that only reads the file.\<close>

lemma lease_reads:
  assumes run: "on_lease t operation e = (r, e1)" and ok: "engine_ok e"
    and reads: "\<And>pf r1 pf1. operation pf = (r1, pf1) \<Longrightarrow> page_file_ok pf \<Longrightarrow> \<exists>n. only_reads n pf pf1"
  shows "same_table e e1"
  using run
proof (cases rule: on_lease_cases)
  case (ran pf r1 pf1)
  have pfok: "page_file_ok pf" using ok ran(1) by (auto simp: engine_ok_def files_ok_def)
  obtain n where n: "only_reads n pf pf1" using reads [OF ran(2) pfok] by blast
  note law = only_reads_law [OF n pfok]
  note step = lease_step [OF ok ran(1) conjunct1 [OF law] _ ran(4)]
  have "disk_view e k = page_view pf (pk_page_id k)" if "pk_table_id k = t" for k
    using that ran(1) by (simp add: disk_view_def)
  then have "pool_view e1 = pool_view e" using step(2) law by (auto simp: fun_eq_iff pool_view_def)
  moreover have "health e1 = health e"
    using step(4) n law ran(1) by (simp add: fun_eq_iff health_def only_reads_def)
  ultimately show ?thesis using step(1) law by (simp add: same_table_def)
qed (simp add: same_table_def ok)

lemma acquire_table_law:
  assumes "acquire_table meta e = (r, e1)" "engine_ok e"
  shows "same_table e e1" "r = Inr u \<Longrightarrow> healthy meta e"
proof -
  show "same_table e e1"
    using assms unfolding acquire_table_def
    by (rule lease_reads) (auto simp: require_open_def io_fail_def only_reads_def split: if_splits)
  show "r = Inr u \<Longrightarrow> healthy meta e"
    using assms(1) unfolding acquire_table_def
    by (cases rule: on_lease_cases) (auto simp: require_open_def io_fail_def healthy_def health_def map_error_def split: if_splits sum.splits)
qed

lemma table_page_count_law:
  assumes "table_page_count meta e = (r, e1)" "engine_ok e"
  shows "same_table e e1"
  using assms unfolding table_page_count_def by (rule lease_reads) (auto simp: only_reads_def)

lemma allocation_state_law:
  assumes run: "on_lease (tm_table_id meta) (page_allocation_state page_id) e = (r, e1)" and ok: "engine_ok e"
  shows "same_table e e1" "r = Inr kAllocated \<Longrightarrow> table_page meta e page_id \<noteq> None"
    "r = Inr kFree \<Longrightarrow> table_page meta e page_id = None"
proof -
  show "same_table e e1"
    by (rule lease_reads [OF run ok]) (rule page_allocation_state_law(1))
  have "(r = Inr kAllocated \<longrightarrow> table_page meta e page_id \<noteq> None) \<and> (r = Inr kFree \<longrightarrow> table_page meta e page_id = None)"
    using run
  proof (cases rule: on_lease_cases)
    case (ran pf r1 pf1)
    have pfok: "page_file_ok pf" using ok ran(1) by (auto simp: engine_ok_def files_ok_def)
    have "disk_view e (page_key meta page_id) = page_view pf page_id" using ran(1) by (simp add: disk_view_def page_key_def)
    then show ?thesis
      using page_allocation_state_law(2,3) [OF ran(2) pfok] ran(3) allocated_iff [OF ok]
      by (auto simp: table_page_def map_error_def split: sum.splits)
  qed simp
  then show "r = Inr kAllocated \<Longrightarrow> table_page meta e page_id \<noteq> None" "r = Inr kFree \<Longrightarrow> table_page meta e page_id = None"
    by simp_all
qed

subsection \<open>Work under a guard\<close>

text \<open>What a body does with the page of its guard: a result, and the page it leaves if it marks the page dirty.\<close>

definition guarded :: "(RawPage \<Rightarrow> (HeapTableError, 'a) result \<times> RawPage option) \<Rightarrow> FrameId \<Rightarrow> 'a heap_io" where
  "guarded f i e = (case f (guard_page i e) of (r, None) \<Rightarrow> (r, e) | (r, Some q) \<Rightarrow> (r, change_guarded i q e))"

definition same_but_page :: "TableMeta \<Rightarrow> PageId \<Rightarrow> RawPage \<Rightarrow> Engine \<Rightarrow> Engine \<Rightarrow> bool" where
  "same_but_page meta page_id q e e1 \<longleftrightarrow> engine_ok e1 \<and> health e1 = health e
     \<and> pool_view e1 = (pool_view e)(page_key meta page_id \<mapsto> q)"

lemma with_guard_law:
  assumes run: "with_guard meta page_id (guarded f) e = (r, e1)" and ok: "engine_ok e"
  shows "(\<exists>error. r = Inl (translate_pool error)) \<and> same_table e e1
    \<or> (\<exists>p. table_page meta e page_id = Some p \<and> r = fst (f p)
        \<and> (case snd (f p) of None \<Rightarrow> same_table e e1 | Some q \<Rightarrow> same_but_page meta page_id q e e1))"
proof -
  obtain x e2 where fetch: "fetch_page (page_key meta page_id) e = (x, e2)" by fastforce
  note law = fetch_page_law [OF ok fetch]
  have health2: "health e2 = health e" using law by (simp add: fetched_def)
  show ?thesis
  proof (cases x)
    case (Inl error)
    then show ?thesis using run fetch law by (auto simp: with_guard_def fetched_def same_table_def)
  next
    case (Inr i)
    note v = fetched_view [OF law [unfolded Inr]]
    define p where "p = guard_page i e2"
    have page: "table_page meta e page_id = Some p" using v(3) by (simp add: table_page_def p_def)
    have r: "r = fst (f p)" and e1: "e1 = unpin i (snd (guarded f i e2))"
      using run fetch Inr by (auto simp: with_guard_def guarded_def p_def split: prod.splits option.splits)
    show ?thesis
    proof (cases "snd (f p)")
      case None
      then have "e1 = unpin i e2" using e1 by (cases "f (guard_page i e2)") (simp add: guarded_def p_def)
      then have "same_table e e1" using unpin_law [OF v(4,1)] v(5) health2 by (simp add: same_table_def unpin_def)
      then show ?thesis using page r None by auto
    next
      case (Some q)
      then have e1: "e1 = unpin i (change_guarded i q e2)" using e1 by (cases "f (guard_page i e2)") (simp add: guarded_def p_def)
      note c = change_guarded_law [OF v(4,1,2), of q]
      have "i < length (bp_frames (en_pool (change_guarded i q e2)))" using v(1) by (simp add: change_guarded_def)
      note un = unpin_law [OF c(1) this]
      have "same_but_page meta page_id q e e1"
        using un c(2) v(5) health2 by (simp add: same_but_page_def e1) (simp add: unpin_def change_guarded_def)
      then show ?thesis using page r Some by auto
    qed
  qed
qed

text \<open>The page of a record id, and the rows of one page.\<close>

lemma rid_handle_page: "rid_handle page_id rid = Some h \<Longrightarrow> \<exists>parts. rid_decode rid = Inr parts \<and> rp_page_id parts = page_id"
  by (auto simp: rid_handle_def split: sum.splits if_splits)

lemma heap_rows_on_page:
  assumes "rid_decode rid = Inr parts" "table_page meta e (rp_page_id parts) = Some p"
  shows "heap_rows format meta e rid = record_lookup format meta (rp_page_id parts) p rid"
  using assms by (simp add: heap_rows_def)

lemma record_lookup_other: "rid_decode rid = Inr parts \<Longrightarrow> rp_page_id parts \<noteq> page_id \<Longrightarrow> record_lookup format meta page_id p rid = None"
  by (simp add: record_lookup_def rid_handle_def)

lemma page_changed:
  assumes ok: "heap_ok format meta e" and page: "same_but_page meta page_id q e e1"
    and q: "record_page_ok format meta page_id q"
  shows "heap_ok format meta e1" "healthy meta e1 = healthy meta e"
    "table_page meta e1 = (table_page meta e)(page_id \<mapsto> q)"
    "heap_rows format meta e1 rid = (case rid_decode rid of
        Inl _ \<Rightarrow> None
      | Inr parts \<Rightarrow> if rp_page_id parts = page_id then record_lookup format meta page_id q rid else heap_rows format meta e rid)"
proof -
  show h: "healthy meta e1 = healthy meta e" using page by (simp add: same_but_page_def healthy_def)
  show pages: "table_page meta e1 = (table_page meta e)(page_id \<mapsto> q)"
    using page by (auto simp: fun_eq_iff table_page_def same_but_page_def page_key_def)
  show "heap_ok format meta e1"
    using ok page q by (simp add: heap_ok_def h pages) (simp add: same_but_page_def)
  show "heap_rows format meta e1 rid = (case rid_decode rid of
        Inl _ \<Rightarrow> None
      | Inr parts \<Rightarrow> if rp_page_id parts = page_id then record_lookup format meta page_id q rid else heap_rows format meta e rid)"
    by (simp add: heap_rows_def pages split: sum.split)
qed

text \<open>A change of one row on its page is a change of that row in the table.\<close>

lemma row_changed:
  assumes ok: "heap_ok format meta e" and p: "table_page meta e page_id = Some p" and page: "same_but_page meta page_id q e e1"
    and q: "record_page_ok format meta page_id q" "record_lookup format meta page_id q = (record_lookup format meta page_id p)(rid0 := x)"
    and rid0: "rid_decode rid0 = Inr parts0" "rp_page_id parts0 = page_id"
  shows "heap_rows format meta e1 = (heap_rows format meta e)(rid0 := x)" "heap_rows format meta e rid0 = record_lookup format meta page_id p rid0"
proof
  fix rid
  note law = page_changed(4) [OF ok page q(1), of rid]
  show "heap_rows format meta e1 rid = ((heap_rows format meta e)(rid0 := x)) rid"
  proof (cases "rid_decode rid")
    case (Inl error)
    then show ?thesis using law rid0 by (auto simp: heap_rows_def)
  next
    case (Inr parts)
    then show ?thesis using law rid0 p q(2) by (auto simp: heap_rows_def)
  qed
next
  show "heap_rows format meta e rid0 = record_lookup format meta page_id p rid0"
    using heap_rows_on_page [OF rid0(1), of meta e p format] p rid0(2) by simp
qed

subsection \<open>Insertion\<close>

text \<open>A record id that was given out and whose row is gone.\<close>

definition heap_stale :: "TableMeta \<Rightarrow> Engine \<Rightarrow> RecordId \<Rightarrow> bool" where
  "heap_stale meta e rid \<longleftrightarrow>
     (\<exists>parts p. rid_decode rid = Inr parts \<and> table_page meta e (rp_page_id parts) = Some p \<and> record_stale (rp_page_id parts) p rid)"

lemma pages_kept:
  assumes "\<And>page_id p. table_page meta e page_id = Some p \<Longrightarrow> table_page meta e1 page_id = Some p"
  shows "heap_rows format meta e \<subseteq>\<^sub>m heap_rows format meta e1" "heap_stale meta e rid \<Longrightarrow> heap_stale meta e1 rid"
  using assms
  by (auto simp: map_le_def heap_rows_def heap_stale_def dom_def bind_eq_Some_conv split: sum.splits)

lemma stale_same_page:
  assumes stale: "heap_stale meta e rid" and p: "table_page meta e page_id = Some p"
    and pages: "table_page meta e1 = (table_page meta e)(page_id \<mapsto> q)"
    and kept: "record_stale page_id p rid \<Longrightarrow> record_stale page_id q rid"
  shows "heap_stale meta e1 rid"
  using assms by (auto simp: heap_stale_def)

text \<open>What an insertion may do: it adds its row under a fresh id, or it fails and no row is lost.\<close>

definition inserted :: "RowFormat \<Rightarrow> TableMeta \<Rightarrow> Value list \<Rightarrow> Engine \<Rightarrow> (HeapTableError, RecordId) result \<Rightarrow> Engine \<Rightarrow> bool" where
  "inserted format meta row e r e1 \<longleftrightarrow> heap_ok format meta e1 \<and> heap_rows format meta e \<subseteq>\<^sub>m heap_rows format meta e1
     \<and> (\<forall>rid. heap_stale meta e rid \<longrightarrow> heap_stale meta e1 rid)
     \<and> (case r of
          Inl _ \<Rightarrow> healthy meta e1 \<longrightarrow> heap_rows format meta e1 = heap_rows format meta e
        | Inr rid \<Rightarrow> healthy meta e1 \<and> heap_rows format meta e rid = None \<and> \<not> heap_stale meta e rid
            \<and> heap_rows format meta e1 = (heap_rows format meta e)(rid \<mapsto> row))"

lemma same_table_stale: "same_table e e1 \<Longrightarrow> heap_stale meta e1 rid = heap_stale meta e rid"
  by (simp add: heap_stale_def same_table_rows(1))

lemma inserted_error: "same_table e e1 \<Longrightarrow> heap_ok format meta e \<Longrightarrow> inserted format meta row e (Inl error) e1"
  using same_table_rows [of e e1] by (simp add: inserted_def same_table_stale)

lemma inserted_after:
  assumes "same_table e e1" "inserted format meta row e1 r e2"
  shows "inserted format meta row e r e2"
  using assms same_table_rows [OF assms(1)] by (cases r) (auto simp: inserted_def same_table_stale)

lemma insert_on_page_guarded:
  "insert_on_page format meta page_id row = guarded (\<lambda>p. case insert_record p page_id format meta row of
     Inl error \<Rightarrow> (Inr (Inl error), None) | Inr (q, rid) \<Rightarrow> (Inr (Inr rid), Some q))"
  by (auto simp: fun_eq_iff insert_on_page_def guarded_def split: sum.split)

lemma insert_on_page_law:
  assumes run: "with_guard meta page_id (insert_on_page format meta page_id row) e = (r, e1)"
    and ok: "heap_ok format meta e" and healthy: "healthy meta e"
  shows "case r of
      Inl _ \<Rightarrow> same_table e e1
    | Inr (Inl _) \<Rightarrow> same_table e e1
    | Inr (Inr rid) \<Rightarrow> inserted format meta row e (Inr rid) e1"
proof -
  define f where "f = (\<lambda>p. case insert_record p page_id format meta row of
     Inl error \<Rightarrow> (Inr (Inl error) :: (HeapTableError, (RecordPageError, RecordId) result) result, None)
   | Inr (q, rid) \<Rightarrow> (Inr (Inr rid), Some q))"
  have eok: "engine_ok e" using ok by (simp add: heap_ok_def)
  have "(\<exists>error. r = Inl (translate_pool error)) \<and> same_table e e1
    \<or> (\<exists>p. table_page meta e page_id = Some p \<and> r = fst (f p)
        \<and> (case snd (f p) of None \<Rightarrow> same_table e e1 | Some q \<Rightarrow> same_but_page meta page_id q e e1))"
    by (rule with_guard_law [OF _ eok]) (use run in \<open>simp add: insert_on_page_guarded f_def\<close>)
  then show ?thesis
  proof (elim disjE exE conjE)
    fix p assume p: "table_page meta e page_id = Some p" and r: "r = fst (f p)"
      and page: "case snd (f p) of None \<Rightarrow> same_table e e1 | Some q \<Rightarrow> same_but_page meta page_id q e e1"
    have pok: "record_page_ok format meta page_id p" using ok healthy p by (simp add: heap_ok_def)
    show ?thesis
    proof (cases "insert_record p page_id format meta row")
      case (Inl error)
      then show ?thesis using r page by (simp add: f_def)
    next
      case (Inr x)
      obtain q rid where x: "x = (q, rid)" by fastforce
      have ins: "insert_record p page_id format meta row = Inr (q, rid)" using Inr x by simp
      note law = record_page.insert_law [OF pok ins]
      have sbp: "same_but_page meta page_id q e e1" and r: "r = Inr (Inr rid)" using r page Inr x by (simp_all add: f_def)
      have "page_ok p page_id" using pok by (simp add: record_page_ok_def)
      then obtain h where "rid_handle page_id rid = Some h" using ins insert_record_Inr by blast
      then obtain parts where parts: "rid_decode rid = Inr parts" "rp_page_id parts = page_id" using rid_handle_page by blast
      note qok = conjunct1 [OF law]
      have q: "record_lookup format meta page_id q = (record_lookup format meta page_id p)(rid := Some row)" using law by simp
      note rows = row_changed [OF ok p sbp qok q parts] and pages = page_changed [OF ok sbp qok]
      have "heap_stale meta e1 rid'" if "heap_stale meta e rid'" for rid'
        using stale_same_page [OF that p pages(3)] record_page.insert_stale [OF pok ins] by blast
      moreover have "\<not> heap_stale meta e rid" using law parts p by (auto simp: heap_stale_def)
      ultimately show ?thesis
        using rows pages(1,2) law healthy by (auto simp: r inserted_def map_le_def)
    qed
  qed auto
qed

text \<open>The operations on the file for a page that is not resident.\<close>

lemma lease_allocate:
  assumes run: "on_lease (tm_table_id meta) allocate_page e = (r, e1)" and ok: "engine_ok e"
  shows "engine_ok e1" "table_page meta e page_id = Some p \<Longrightarrow> table_page meta e1 page_id = Some p"
    "healthy meta e1 \<Longrightarrow> healthy meta e" "r = Inl error \<Longrightarrow> healthy meta e1 \<Longrightarrow> table_page meta e1 = table_page meta e"
    "r = Inr new \<Longrightarrow> table_page meta e new = None \<and> table_page meta e1 = (table_page meta e)(new \<mapsto> (\<lambda>_. 0))
       \<and> bp_page_table (en_pool e1) (page_key meta new) = None \<and> healthy meta e1 = healthy meta e"
proof -
  have "engine_ok e1 \<and> (\<forall>page_id p. table_page meta e page_id = Some p \<longrightarrow> table_page meta e1 page_id = Some p)
    \<and> (healthy meta e1 \<longrightarrow> healthy meta e) \<and> ((\<exists>error. r = Inl error) \<and> healthy meta e1 \<longrightarrow> table_page meta e1 = table_page meta e)
    \<and> (\<forall>new. r = Inr new \<longrightarrow> table_page meta e new = None \<and> table_page meta e1 = (table_page meta e)(new \<mapsto> (\<lambda>_. 0))
       \<and> bp_page_table (en_pool e1) (page_key meta new) = None \<and> healthy meta e1 = healthy meta e)"
    using run
  proof (cases rule: on_lease_cases)
    case (ran pf r1 pf1)
    have pfok: "page_file_ok pf" using ok ran(1) by (auto simp: engine_ok_def files_ok_def)
    have law: "page_file_ok pf1" "pf_poisoned pf \<longrightarrow> pf_poisoned pf1" "\<forall>j. page_view pf j \<noteq> None \<longrightarrow> page_view pf1 j = page_view pf j"
      "\<forall>a. r1 = Inr a \<longrightarrow> page_view pf a = None \<and> page_view pf1 = (page_view pf)(a \<mapsto> (\<lambda>_. 0)) \<and> pf_poisoned pf1 = pf_poisoned pf"
      "\<forall>x. r1 = Inl x \<longrightarrow> pf_poisoned pf1 \<or> page_view pf1 = page_view pf"
      using allocate_page_law [OF ran(2) pfok] by (simp_all add: allocation_outcome_def)
    have disk: "disk_view e (page_key meta j) = page_view pf j" for j using ran(1) by (simp add: disk_view_def page_key_def)
    have kept: "page_view pf1 (pk_page_id key) = page_view pf (pk_page_id key)"
      if "bp_page_table (en_pool e) key = Some i" "pk_table_id key = tm_table_id meta" for key i
    proof -
      have "key = page_key meta (pk_page_id key)" using that(2) by (cases key) (simp add: page_key_def)
      then have "page_view pf (pk_page_id key) \<noteq> None" using resident_allocated [OF ok that(1)] disk by metis
      then show ?thesis using law(3) by simp
    qed
    note step = lease_step [OF ok ran(1) law(1) kept ran(4)]
    have view: "table_page meta e1 j = (if bp_page_table (en_pool e) (page_key meta j) = None then page_view pf1 j else table_page meta e j)" for j
      using step(2) [where key = "page_key meta j"] by (simp add: table_page_def page_key_def)
    have old: "bp_page_table (en_pool e) (page_key meta j) = None \<Longrightarrow> table_page meta e j = page_view pf j" for j
      by (simp add: table_page_def pool_view_def disk)
    have none: "table_page meta e j = None \<longleftrightarrow> page_view pf j = None" for j
      using allocated_iff [OF ok, of "page_key meta j"] by (simp add: table_page_def disk)
    have h: "healthy meta e1 \<longleftrightarrow> \<not> pf_poisoned pf1" "healthy meta e \<longleftrightarrow> \<not> pf_poisoned pf"
      using step(4) ran(1) by (simp_all add: healthy_def) (simp add: health_def)
    have new: "table_page meta e a = None \<and> table_page meta e1 = (table_page meta e)(a \<mapsto> (\<lambda>_. 0))
       \<and> bp_page_table (en_pool e1) (page_key meta a) = None \<and> healthy meta e1 = healthy meta e" if "r1 = Inr a" for a
    proof -
      have a: "table_page meta e a = None" using law(4) that none by simp
      then have free: "bp_page_table (en_pool e) (page_key meta a) = None"
        by (auto simp: table_page_def pool_view_def split: option.splits)
      have "table_page meta e1 j = ((table_page meta e)(a \<mapsto> (\<lambda>_. 0))) j" for j
        using view [of j] old [of j] law(4) that free by (cases "j = a") simp_all
      then show ?thesis using a free step(3) law(4) that h by (simp add: fun_eq_iff)
    qed
    have "table_page meta e1 j = Some p" if "table_page meta e j = Some p" for j p
      using view [of j] old [of j] none [of j] law(3) that by simp
    moreover have "table_page meta e1 = table_page meta e" if "r1 = Inl x" "healthy meta e1" for x
      using view old law(5) that h by (auto simp: fun_eq_iff)
    ultimately show ?thesis using step(1) h law(2) new ran(3) by (auto simp: map_error_def split: sum.splits)
  qed (simp add: ok)
  then show "engine_ok e1" "table_page meta e page_id = Some p \<Longrightarrow> table_page meta e1 page_id = Some p"
    "healthy meta e1 \<Longrightarrow> healthy meta e" "r = Inl error \<Longrightarrow> healthy meta e1 \<Longrightarrow> table_page meta e1 = table_page meta e"
    "r = Inr new \<Longrightarrow> table_page meta e new = None \<and> table_page meta e1 = (table_page meta e)(new \<mapsto> (\<lambda>_. 0))
       \<and> bp_page_table (en_pool e1) (page_key meta new) = None \<and> healthy meta e1 = healthy meta e" by blast+
qed

text \<open>Writing a page that is not resident, giving it back, and poisoning the file.\<close>

definition same_elsewhere_pages :: "TableMeta \<Rightarrow> PageId \<Rightarrow> Engine \<Rightarrow> Engine \<Rightarrow> bool" where
  "same_elsewhere_pages meta page_id e e1 \<longleftrightarrow> engine_ok e1 \<and> (\<forall>j. j \<noteq> page_id \<longrightarrow> table_page meta e1 j = table_page meta e j)
     \<and> bp_page_table (en_pool e1) (page_key meta page_id) = None \<and> (healthy meta e1 \<longrightarrow> healthy meta e)"

lemma same_elsewhere_pages_trans:
  "same_elsewhere_pages meta page_id e e1 \<Longrightarrow> same_elsewhere_pages meta page_id e1 e2 \<Longrightarrow> same_elsewhere_pages meta page_id e e2"
  by (simp add: same_elsewhere_pages_def)

lemma lease_fresh_page:
  assumes run: "on_lease (tm_table_id meta) operation e = (r, e1)" and ok: "engine_ok e"
    and fresh: "bp_page_table (en_pool e) (page_key meta page_id) = None"
    and law: "\<And>pf r1 pf1. operation pf = (r1, pf1) \<Longrightarrow> page_file_ok pf \<Longrightarrow> page_file_ok pf1 \<and> same_elsewhere page_id pf pf1
      \<and> (pf_poisoned pf \<longrightarrow> pf_poisoned pf1)
      \<and> (\<forall>x. r1 = Inr x \<longrightarrow> page_view pf1 page_id = new \<and> pf_poisoned pf1 = poisoned pf)"
  shows "same_elsewhere_pages meta page_id e e1"
    "r = Inr x \<Longrightarrow> table_page meta e1 page_id = new \<and> (\<exists>pf. en_files e (tm_table_id meta) = Some pf \<and> healthy meta e1 = (\<not> poisoned pf))"
proof -
  have "same_elsewhere_pages meta page_id e e1 \<and> (r = Inr x \<longrightarrow> table_page meta e1 page_id = new
      \<and> (\<exists>pf. en_files e (tm_table_id meta) = Some pf \<and> healthy meta e1 = (\<not> poisoned pf)))"
    using run
  proof (cases rule: on_lease_cases)
    case (ran pf r1 pf1)
    have pfok: "page_file_ok pf" using ok ran(1) by (auto simp: engine_ok_def files_ok_def)
    note l = law [OF ran(2) pfok]
    have kept: "page_view pf1 (pk_page_id key) = page_view pf (pk_page_id key)"
      if "bp_page_table (en_pool e) key = Some i" "pk_table_id key = tm_table_id meta" for key i
    proof -
      have "key = page_key meta (pk_page_id key)" using that(2) by (cases key) (simp add: page_key_def)
      then have "pk_page_id key \<noteq> page_id" using fresh that(1) by auto
      then show ?thesis using l by (simp add: same_elsewhere_def)
    qed
    note step = lease_step [OF ok ran(1) conjunct1 [OF l] kept ran(4)]
    have view: "table_page meta e1 j = (if bp_page_table (en_pool e) (page_key meta j) = None then page_view pf1 j else table_page meta e j)" for j
      using step(2) [where key = "page_key meta j"] by (simp add: table_page_def page_key_def)
    have old: "bp_page_table (en_pool e) (page_key meta j) = None \<Longrightarrow> table_page meta e j = page_view pf j" for j
      using ran(1) by (simp add: table_page_def pool_view_def disk_view_def page_key_def)
    have h: "healthy meta e1 \<longleftrightarrow> \<not> pf_poisoned pf1" "healthy meta e \<longleftrightarrow> \<not> pf_poisoned pf"
      using step(4) ran(1) by (simp_all add: healthy_def) (simp add: health_def)
    have "table_page meta e1 j = table_page meta e j" if "j \<noteq> page_id" for j
      using view [of j] old [of j] l that by (simp add: same_elsewhere_def)
    moreover have "table_page meta e1 page_id = new \<and> healthy meta e1 = (\<not> poisoned pf)" if "r = Inr x"
      using that ran(3) view [of page_id] fresh l h by (auto simp: map_error_def split: sum.splits)
    ultimately show ?thesis using step(1,3) fresh h l ran(1) by (auto simp: same_elsewhere_pages_def)
  qed (simp add: same_elsewhere_pages_def ok fresh)
  then show "same_elsewhere_pages meta page_id e e1"
    "r = Inr x \<Longrightarrow> table_page meta e1 page_id = new \<and> (\<exists>pf. en_files e (tm_table_id meta) = Some pf \<and> healthy meta e1 = (\<not> poisoned pf))"
    by blast+
qed

lemma lease_write:
  assumes run: "on_lease (tm_table_id meta) (write_page page_id page) e = (r, e1)" and ok: "engine_ok e"
    and fresh: "bp_page_table (en_pool e) (page_key meta page_id) = None"
  shows "same_elsewhere_pages meta page_id e e1" "r = Inr x \<Longrightarrow> table_page meta e1 page_id = Some page \<and> healthy meta e1 = healthy meta e"
proof -
  have law: "page_file_ok pf1 \<and> same_elsewhere page_id pf pf1 \<and> (pf_poisoned pf \<longrightarrow> pf_poisoned pf1)
      \<and> (\<forall>x. r1 = Inr x \<longrightarrow> page_view pf1 page_id = Some page \<and> pf_poisoned pf1 = pf_poisoned pf)"
    if "write_page page_id page pf = (r1, pf1)" "page_file_ok pf" for pf r1 pf1
    using write_page_law [OF that] by auto
  note fl = lease_fresh_page [OF run ok fresh law]
  show "same_elsewhere_pages meta page_id e e1" by (rule fl(1))
  show "r = Inr x \<Longrightarrow> table_page meta e1 page_id = Some page \<and> healthy meta e1 = healthy meta e"
    using fl(2) by (auto simp: healthy_def health_def)
qed

lemma lease_free:
  assumes run: "on_lease (tm_table_id meta) (free_page page_id) e = (r, e1)" and ok: "engine_ok e"
    and fresh: "bp_page_table (en_pool e) (page_key meta page_id) = None"
  shows "same_elsewhere_pages meta page_id e e1" "r = Inr x \<Longrightarrow> table_page meta e1 page_id = None"
proof -
  have law: "page_file_ok pf1 \<and> same_elsewhere page_id pf pf1 \<and> (pf_poisoned pf \<longrightarrow> pf_poisoned pf1)
      \<and> (\<forall>x. r1 = Inr x \<longrightarrow> page_view pf1 page_id = None \<and> pf_poisoned pf1 = pf_poisoned pf)"
    if "free_page page_id pf = (r1, pf1)" "page_file_ok pf" for pf r1 pf1
    using free_page_law [OF that] by auto
  note fl = lease_fresh_page [OF run ok fresh law]
  show "same_elsewhere_pages meta page_id e e1" by (rule fl(1))
  show "r = Inr x \<Longrightarrow> table_page meta e1 page_id = None" using fl(2) by blast
qed

lemma lease_poison:
  assumes run: "on_lease (tm_table_id meta) (\<lambda>pf. (Inr (), mark_poisoned pf)) e = (r, e1)" and ok: "engine_ok e"
    and fresh: "bp_page_table (en_pool e) (page_key meta page_id) = None"
  shows "same_elsewhere_pages meta page_id e e1" "\<not> healthy meta e1"
proof -
  have law: "page_file_ok pf1 \<and> same_elsewhere page_id pf pf1 \<and> (pf_poisoned pf \<longrightarrow> pf_poisoned pf1)
      \<and> (\<forall>x. r1 = Inr x \<longrightarrow> page_view pf1 page_id = page_view pf1 page_id \<and> pf_poisoned pf1 = True)"
    if "(Inr (), mark_poisoned pf) = (r1, pf1)" "page_file_ok pf" for pf r1 pf1
    using mark_poisoned_law [of pf] that by (auto simp: same_elsewhere_def)
  have "same_elsewhere_pages meta page_id e e1 \<and> \<not> healthy meta e1"
    using run
  proof (cases rule: on_lease_cases)
    case (missing error)
    then show ?thesis using ok fresh by (simp add: same_elsewhere_pages_def healthy_def health_def)
  next
    case (ran pf r1 pf1)
    have pfok: "page_file_ok pf" using ok ran(1) by (auto simp: engine_ok_def files_ok_def)
    have pf1: "pf1 = mark_poisoned pf" using ran(2) by simp
    note l = mark_poisoned_law(1) [OF pfok] mark_poisoned_law(2-5) [of pf]
    note step = lease_step [OF ok ran(1) l(1) _ ran(4) [unfolded pf1]]
    have "pool_view e1 key = pool_view e key" for key
      using step(2) [where key = key] l(2) ran(1) by (auto simp: pool_view_def disk_view_def split: option.split)
    then show ?thesis
      using step(1,3,4) l fresh ran(1) by (simp add: same_elsewhere_pages_def table_page_def healthy_def health_def)
  qed
  then show "same_elsewhere_pages meta page_id e e1" "\<not> healthy meta e1" by simp_all
qed

lemma compensate_law:
  assumes run: "compensate meta page_id original e = (r, e1)" and ok: "engine_ok e"
    and fresh: "bp_page_table (en_pool e) (page_key meta page_id) = None"
  shows "\<exists>error. r = Inl error" "same_elsewhere_pages meta page_id e e1" "healthy meta e1 \<Longrightarrow> table_page meta e1 page_id = None"
proof -
  obtain x e2 where freed: "on_lease (tm_table_id meta) (free_page page_id) e = (x, e2)" by fastforce
  note law = lease_free [OF freed ok fresh]
  have "(\<exists>error. r = Inl error) \<and> same_elsewhere_pages meta page_id e e1 \<and> (healthy meta e1 \<longrightarrow> table_page meta e1 page_id = None)"
  proof (cases x)
    case (Inl error)
    obtain y e3 where poison: "on_lease (tm_table_id meta) (\<lambda>pf. (Inr (), mark_poisoned pf)) e2 = (y, e3)" by fastforce
    have "engine_ok e2" "bp_page_table (en_pool e2) (page_key meta page_id) = None" using law(1) by (simp_all add: same_elsewhere_pages_def)
    note plaw = lease_poison [OF poison this]
    have "e1 = e3" "\<exists>error. r = Inl error" using run freed Inl poison by (auto simp: compensate_def)
    then show ?thesis using plaw same_elsewhere_pages_trans [OF law(1) plaw(1)] by simp
  next
    case (Inr u)
    then have "e1 = e2" "r = Inl original" using run freed by (auto simp: compensate_def)
    then show ?thesis using law Inr by simp
  qed
  then show "\<exists>error. r = Inl error" "same_elsewhere_pages meta page_id e e1" "healthy meta e1 \<Longrightarrow> table_page meta e1 page_id = None"
    by simp_all
qed

text \<open>A failed bootstrap of a new page: the rows are as before, unless the file is poisoned.\<close>

lemma bootstrap_failed:
  assumes ok: "heap_ok format meta e" and none: "table_page meta e page_id = None"
    and others: "\<And>j. j \<noteq> page_id \<Longrightarrow> table_page meta e1 j = table_page meta e j" and eok: "engine_ok e1"
    and healthy: "healthy meta e1 \<Longrightarrow> healthy meta e \<and> table_page meta e1 page_id = None"
  shows "inserted format meta row e (Inl error) e1"
proof -
  have kept: "table_page meta e1 j = Some p" if "table_page meta e j = Some p" for j p
    using that none others [of j] by (cases "j = page_id") simp_all
  note mono = pages_kept [of meta e e1, OF kept]
  have same: "table_page meta e1 = table_page meta e" if "healthy meta e1"
    using healthy [OF that] none others by (metis ext)
  then have "heap_ok format meta e1" using ok healthy eok by (simp add: heap_ok_def)
  moreover have "heap_rows format meta e1 = heap_rows format meta e" if "healthy meta e1"
    using same [OF that] by (simp add: fun_eq_iff heap_rows_def split: sum.split)
  ultimately show ?thesis using mono by (simp add: inserted_def)
qed

lemma create_record_page_law:
  assumes run: "create_record_page format meta row e = (r, e1)" and ok: "heap_ok format meta e" and healthy: "healthy meta e"
  shows "inserted format meta row e r e1"
  using run unfolding create_record_page_def
proof (cases rule: heap_bind_cases)
  have eok: "engine_ok e" using ok by (simp add: heap_ok_def)
  {
    case (failed error)
    note law = lease_allocate [OF failed(1) eok]
    note mono = pages_kept [of meta e e1, OF law(2)]
    have same: "table_page meta e1 = table_page meta e" if "healthy meta e1" using law(4) [OF refl that] .
    then have "heap_ok format meta e1" using ok law(1,3) by (simp add: heap_ok_def)
    moreover have "heap_rows format meta e1 = heap_rows format meta e" if "healthy meta e1"
      using same [OF that] by (simp add: fun_eq_iff heap_rows_def split: sum.split)
    ultimately show ?thesis using mono by (simp add: inserted_def failed(2))
  next
    case (went_on page_id e2)
    note law = lease_allocate [OF went_on(1) eok]
    have new: "table_page meta e page_id = None" "table_page meta e2 = (table_page meta e)(page_id \<mapsto> (\<lambda>_. 0))"
      "bp_page_table (en_pool e2) (page_key meta page_id) = None" "healthy meta e2"
      using law(5) [OF refl] healthy by simp_all
    have gives_up: "inserted format meta row e r e1"
      if c: "compensate meta page_id error e3 = (r, e1)" and e3: "same_elsewhere_pages meta page_id e2 e3" for error e3
    proof -
      have "engine_ok e3" "bp_page_table (en_pool e3) (page_key meta page_id) = None" using e3 by (simp_all add: same_elsewhere_pages_def)
      note claw = compensate_law [OF c this]
      obtain x where r: "r = Inl x" using claw(1) by blast
      have all: "same_elsewhere_pages meta page_id e2 e1" by (rule same_elsewhere_pages_trans [OF e3 claw(2)])
      show ?thesis
        unfolding r
        by (rule bootstrap_failed [OF ok new(1)])
          (use all new healthy claw(3) in \<open>auto simp: same_elsewhere_pages_def\<close>)
    qed
    show ?thesis
    proof (cases "initialize_record_page page_id")
      case (Inl error)
      then have "compensate meta page_id (translate_record error) e2 = (r, e1)" using went_on(2) by simp
      then show ?thesis by (rule gives_up) (simp add: same_elsewhere_pages_def law(1) new)
    next
      case scratch: (Inr scratch)
      then obtain w e3 where wr: "on_lease (tm_table_id meta) (write_page page_id scratch) e2 = (w, e3)" by fastforce
      note wlaw = lease_write [OF wr law(1) new(3)]
      show ?thesis
      proof (cases w)
        case (Inl error)
        then have "compensate meta page_id error e3 = (r, e1)" using went_on(2) scratch wr by simp
        then show ?thesis using wlaw(1) by (rule gives_up)
      next
        case (Inr u)
        have pages: "table_page meta e3 = (table_page meta e)(page_id \<mapsto> scratch)"
          using wlaw(1) wlaw(2) [OF Inr] new(2) by (auto simp: fun_eq_iff same_elsewhere_pages_def)
        have "initialize page_id = Inr scratch"
          using scratch by (auto simp: initialize_record_page_def map_error_def split: sum.splits)
        note init = initialize_page_ok [OF this]
        have empty: "lookup_slot (abs_page scratch) h = None" for h by (simp add: init(2) lookup_slot_def)
        then have blank: "record_page_ok format meta page_id scratch" "record_lookup format meta page_id scratch rid = None" for rid
          using init(1) by (simp_all add: record_page_ok_def record_lookup_def bind_eq_None_conv)
        have h3: "healthy meta e3" using wlaw(2) [OF Inr] new(4) by simp
        have ok3: "heap_ok format meta e3"
          using ok blank(1) wlaw(1) by (auto simp: heap_ok_def pages same_elsewhere_pages_def healthy)
        have rows3: "heap_rows format meta e3 = heap_rows format meta e"
          using blank(2) new(1) by (auto simp: fun_eq_iff heap_rows_def pages split: sum.split)
        have kept: "table_page meta e3 j = Some p" if "table_page meta e j = Some p" for j p
          using that new(1) by (auto simp: pages)
        note mono = pages_kept [of meta e e3, OF kept]
        from went_on(2) scratch wr Inr have "heap_bind (with_guard meta page_id (insert_on_page format meta page_id row)) (\<lambda>inserted e2.
                 (map_error translate_record inserted, e2)) e3 = (r, e1)" by simp
        then have "inserted format meta row e3 r e1"
        proof (cases rule: heap_bind_cases)
          case (failed error)
          then show ?thesis using insert_on_page_law [OF failed(1) ok3 h3] inserted_error [OF _ ok3] by simp
        next
          case (went_on a e4)
          then show ?thesis using insert_on_page_law [OF went_on(1) ok3 h3] inserted_error [OF _ ok3]
            by (cases a) auto
        qed
        then show ?thesis using mono(2) by (cases r) (auto simp: inserted_def rows3)
      qed
    qed
  }
qed

lemma first_fit_law:
  "first_fit format meta row page_ids e = (r, e1) \<Longrightarrow> heap_ok format meta e \<Longrightarrow> healthy meta e \<Longrightarrow> inserted format meta row e r e1"
proof (induction page_ids arbitrary: e)
  case Nil
  then show ?case using create_record_page_law by simp
next
  case (Cons page_id rest)
  have eok: "engine_ok e" using Cons.prems(2) by (simp add: heap_ok_def)
  have skip: "inserted format meta row e r e1" if "same_table e e2" "first_fit format meta row rest e2 = (r, e1)" for e2
    using inserted_after [OF that(1) Cons.IH [OF that(2)]] same_table_rows(3,4) [OF that(1)] Cons.prems(2,3) by blast
  from Cons.prems(1) show ?case
    unfolding first_fit.simps
  proof (cases rule: heap_bind_cases)
    case (failed error)
    then show ?thesis using inserted_error [OF allocation_state_law(1) [OF failed(1) eok] Cons.prems(2)] by simp
  next
    case (went_on state e2)
    note same = allocation_state_law(1) [OF went_on(1) eok]
    note rows = same_table_rows [OF same]
    have ok2: "heap_ok format meta e2" "healthy meta e2" using rows(3,4) Cons.prems(2,3) by simp_all
    show ?thesis
    proof (cases "state = kFree")
      case True
      then show ?thesis using skip [OF same] went_on(2) by simp
    next
      case False
      then have "heap_bind (with_guard meta page_id (insert_on_page format meta page_id row)) (\<lambda>inserted e.
           case inserted of
             Inl error \<Rightarrow>
               if record_page_kind error = RecordPageNoSpace then first_fit format meta row rest e
               else (Inl (translate_record error), e)
           | Inr rid \<Rightarrow> (Inr rid, e)) e2 = (r, e1)" using went_on(2) by simp
      then show ?thesis
      proof (cases rule: heap_bind_cases)
        case (failed error)
        then have "same_table e e1" using insert_on_page_law [OF failed(1) ok2] same_table_trans [OF same] by simp
        then show ?thesis using inserted_error [OF _ Cons.prems(2)] failed(2) by simp
      next
        case (went_on a e3)
        note law = insert_on_page_law [OF went_on(1) ok2]
        show ?thesis
        proof (cases a)
          case (Inl error)
          then have "same_table e e3" using law same_table_trans [OF same] by simp
          then show ?thesis using went_on(2) Inl skip inserted_error [OF _ Cons.prems(2)] by (auto split: if_splits)
        next
          case (Inr rid)
          then show ?thesis using went_on(2) law inserted_after [OF same] by simp
        qed
      qed
    qed
  qed
qed

lemma heap_insert_record_law:
  assumes run: "heap_insert_record format meta row e = (r, e1)" and ok: "heap_ok format meta e"
  shows "inserted format meta row e r e1"
proof -
  have eok: "engine_ok e" using ok by (simp add: heap_ok_def)
  have same0: "same_table e e" using eok by (simp add: same_table_def)
  show ?thesis
  proof (cases "(\<exists>error. encoded_size format meta row = Inl error) \<or> encoded_size format meta row = Inr 0")
    case True
    then show ?thesis using run inserted_error [OF same0 ok] by (auto simp: heap_insert_record_def heap_fail_def)
  next
    case False
    then have "heap_bind (acquire_table meta) (\<lambda>_. heap_bind (table_page_count meta) (\<lambda>page_count.
            first_fit format meta row (data_pages page_count))) e = (r, e1)"
      using run by (auto simp: heap_insert_record_def split: sum.splits)
    then show ?thesis
    proof (cases rule: heap_bind_cases)
      case (failed error)
      then show ?thesis using inserted_error [OF acquire_table_law(1) [OF failed(1) eok] ok] by simp
    next
      case (went_on u e2)
      note same = acquire_table_law [OF went_on(1) eok]
      have eok2: "engine_ok e2" using same(1) by (simp add: same_table_def)
      from went_on(2) show ?thesis
      proof (cases rule: heap_bind_cases)
        case (failed error)
        note t = same_table_trans [OF same(1) table_page_count_law [OF failed(1) eok2]]
        show ?thesis using inserted_error [OF t ok] failed(2) by simp
      next
        case (went_on n e3)
        note t = same_table_trans [OF same(1) table_page_count_law [OF went_on(1) eok2]]
        have "heap_ok format meta e3" "healthy meta e3" using same_table_rows(3,4) [OF t] ok same(2) by blast+
        then show ?thesis using inserted_after [OF t first_fit_law [OF went_on(2)]] by blast
      qed
    qed
  qed
qed

subsection \<open>Deletion and update\<close>

text \<open>A change of one row to \<open>x\<close>, or a failure that leaves all rows as they were.\<close>

definition row_step ::
    "RowFormat \<Rightarrow> TableMeta \<Rightarrow> RecordId \<Rightarrow> Value list option \<Rightarrow> Engine \<Rightarrow> (HeapTableError, unit) result \<Rightarrow> Engine \<Rightarrow> bool" where
  "row_step format meta rid x e r e1 \<longleftrightarrow> heap_ok format meta e1 \<and> healthy meta e1 = healthy meta e
     \<and> (\<forall>rid. heap_stale meta e rid \<longrightarrow> heap_stale meta e1 rid)
     \<and> (case r of
          Inl _ \<Rightarrow> heap_rows format meta e1 = heap_rows format meta e
        | Inr _ \<Rightarrow> healthy meta e \<and> heap_rows format meta e rid \<noteq> None \<and> heap_rows format meta e1 = (heap_rows format meta e)(rid := x)
            \<and> (x = None \<longrightarrow> heap_stale meta e1 rid))"

lemma row_step_error: "same_table e e1 \<Longrightarrow> heap_ok format meta e \<Longrightarrow> row_step format meta rid x e (Inl error) e1"
  using same_table_rows [of e e1] by (simp add: row_step_def same_table_stale)

lemma row_step_after:
  assumes "same_table e e1" "row_step format meta rid x e1 r e2"
  shows "row_step format meta rid x e r e2"
  using assms same_table_rows [OF assms(1)] by (cases r) (auto simp: row_step_def same_table_stale)

lemma with_record_page_law:
  assumes run: "with_record_page meta rid (\<lambda>page_id. guarded (f page_id)) e = (r, e1)" and ok: "engine_ok e"
  shows "(\<exists>error. r = Inl error) \<and> same_table e e1
    \<or> (\<exists>parts p e2. same_table e e2 \<and> rid_decode rid = Inr parts \<and> table_page meta e2 (rp_page_id parts) = Some p
        \<and> r = fst (f (rp_page_id parts) p)
        \<and> (case snd (f (rp_page_id parts) p) of None \<Rightarrow> same_table e2 e1 | Some q \<Rightarrow> same_but_page meta (rp_page_id parts) q e2 e1))"
proof (cases "rid_decode rid")
  case (Inl error)
  then show ?thesis using run ok by (auto simp: with_record_page_def same_table_def)
next
  case (Inr parts)
  then have "heap_bind (on_lease (tm_table_id meta) (page_allocation_state (rp_page_id parts))) (\<lambda>state.
            if state = kFree then heap_fail HeapInvalidArgument ''RID refers to a free page''
            else with_guard meta (rp_page_id parts) (guarded (f (rp_page_id parts)))) e = (r, e1)"
    using run by (simp add: with_record_page_def)
  then show ?thesis
  proof (cases rule: heap_bind_cases)
    case (failed error)
    then show ?thesis using allocation_state_law(1) [OF failed(1) ok] by simp
  next
    case (went_on state e2)
    note same = allocation_state_law(1) [OF went_on(1) ok]
    have ok2: "engine_ok e2" using same by (simp add: same_table_def)
    show ?thesis
    proof (cases "state = kFree")
      case True
      then show ?thesis using went_on(2) same by (auto simp: heap_fail_def)
    next
      case False
      then have "with_guard meta (rp_page_id parts) (guarded (f (rp_page_id parts))) e2 = (r, e1)" using went_on(2) by simp
      from with_guard_law [OF this ok2] show ?thesis using same same_table_trans [OF same, of e1] Inr by blast
    qed
  qed
qed

text \<open>The page of a row after a successful operation of \<open>RecordPage\<close> on it.\<close>

lemma row_step_page:
  assumes ok: "heap_ok format meta e" "healthy meta e" and rid: "rid_decode rid = Inr parts"
    and p: "table_page meta e (rp_page_id parts) = Some p" and page: "same_but_page meta (rp_page_id parts) q e e1"
    and q: "record_page_ok format meta (rp_page_id parts) q" "record_lookup format meta (rp_page_id parts) p rid \<noteq> None"
      "record_lookup format meta (rp_page_id parts) q = (record_lookup format meta (rp_page_id parts) p)(rid := x)"
    and stale: "\<And>rid'. record_stale (rp_page_id parts) p rid' \<Longrightarrow> record_stale (rp_page_id parts) q rid'"
      "x = None \<Longrightarrow> record_stale (rp_page_id parts) q rid"
  shows "row_step format meta rid x e (Inr ()) e1"
proof -
  note changed = page_changed [OF ok(1) page q(1)] and rows = row_changed [OF ok(1) p page q(1,3) rid refl]
  have "heap_stale meta e1 rid'" if "heap_stale meta e rid'" for rid'
    by (rule stale_same_page [OF that p changed(3) stale(1)])
  moreover have "heap_stale meta e1 rid" if "x = None"
    using stale(2) [OF that] rid changed(3) by (auto simp: heap_stale_def)
  ultimately show ?thesis using rows changed(1,2) ok(2) q(2) by (simp add: row_step_def)
qed

lemma delete_record_law:
  assumes run: "delete_record format meta rid e = (r, e1)" and ok: "heap_ok format meta e"
  shows "row_step format meta rid None e r e1"
proof -
  have eok: "engine_ok e" using ok by (simp add: heap_ok_def)
  define f where "f = (\<lambda>page_id p. case get_record p page_id format meta rid of
      Inl error \<Rightarrow> (Inl (translate_record error), None)
    | Inr _ \<Rightarrow> (case erase_record p page_id rid of Inl error \<Rightarrow> (Inl (translate_record error), None) | Inr q \<Rightarrow> (Inr (), Some q)))"
  have body: "(\<lambda>page_id frame_id e. case get_record (guard_page frame_id e) page_id format meta rid of
                Inl error \<Rightarrow> (Inl (translate_record error), e)
              | Inr _ \<Rightarrow>
                  (case erase_record (guard_page frame_id e) page_id rid of
                     Inl error \<Rightarrow> (Inl (translate_record error), e)
                   | Inr page \<Rightarrow> (Inr (), change_guarded frame_id page e))) = (\<lambda>page_id. guarded (f page_id))"
    by (auto simp: fun_eq_iff guarded_def f_def split: sum.split)
  show ?thesis
  proof (cases "rid_decode rid")
    case (Inl error)
    then show ?thesis using run row_step_error [OF _ ok, of e] eok by (auto simp: delete_record_def same_table_def)
  next
    case (Inr parts)
    then have "heap_bind (acquire_table meta) (\<lambda>_. with_record_page meta rid (\<lambda>page_id. guarded (f page_id))) e = (r, e1)"
      using run by (simp add: delete_record_def body)
    then show ?thesis
    proof (cases rule: heap_bind_cases)
      case (failed error)
      then show ?thesis using row_step_error [OF acquire_table_law(1) [OF failed(1) eok] ok] by simp
    next
      case (went_on u e2)
      note same = acquire_table_law [OF went_on(1) eok]
      have eok2: "engine_ok e2" using same(1) by (simp add: same_table_def)
      from with_record_page_law [OF went_on(2) eok2] show ?thesis
      proof (elim disjE exE conjE)
        fix error assume "r = Inl error" "same_table e2 e1"
        then show ?thesis using row_step_error [OF same_table_trans [OF same(1)] ok] by simp
      next
        fix parts p e3
        assume e3: "same_table e2 e3" and parts: "rid_decode rid = Inr parts" and p: "table_page meta e3 (rp_page_id parts) = Some p"
          and r: "r = fst (f (rp_page_id parts) p)"
          and e1: "case snd (f (rp_page_id parts) p) of None \<Rightarrow> same_table e3 e1 | Some q \<Rightarrow> same_but_page meta (rp_page_id parts) q e3 e1"
        note t = same_table_trans [OF same(1) e3]
        have ok3: "heap_ok format meta e3" "healthy meta e3" using same_table_rows(3,4) [OF t] ok same(2) by blast+
        have pok: "record_page_ok format meta (rp_page_id parts) p" using ok3 p by (simp add: heap_ok_def)
        show ?thesis
        proof (cases "snd (f (rp_page_id parts) p)")
          case None
          then have "\<exists>error. r = Inl error" "same_table e3 e1" using r e1 by (auto simp: f_def split: sum.splits)
          then show ?thesis using row_step_error [OF same_table_trans [OF t] ok] by blast
        next
          case (Some q)
          then have er: "erase_record p (rp_page_id parts) rid = Inr q" and r: "r = Inr ()" and sbp: "same_but_page meta (rp_page_id parts) q e3 e1"
            using r e1 by (auto simp: f_def split: sum.splits)
          note law = record_page.erase_law [OF pok er]
          have "row_step format meta rid None e3 (Inr ()) e1"
            by (rule row_step_page [OF ok3 parts p sbp]) (use law record_page.erase_stale [OF pok er] in \<open>simp_all\<close>)
          then show ?thesis unfolding r by (rule row_step_after [OF t])
        qed
      qed
    qed
  qed
qed

lemma update_record_law:
  assumes run: "update_record format meta row e = (r, e1)" and ok: "heap_ok format meta e"
  shows "row_step format meta (uw_rid row) (Some (uw_values row)) e r e1"
proof -
  have eok: "engine_ok e" using ok by (simp add: heap_ok_def)
  define f where "f = (\<lambda>page_id p. case replace_record p page_id format meta (uw_rid row) (uw_values row) of
      Inl error \<Rightarrow> (Inl (if record_page_kind error = RecordPageNoSpace
          then HeapTableError HeapValueTooLarge ''updated record does not fit its RecordPage'' else translate_record error), None)
    | Inr q \<Rightarrow> (Inr (), Some q))"
  have body: "(\<lambda>frame_id e. case replace_record (guard_page frame_id e) page_id format meta (uw_rid row) (uw_values row) of
               Inl error \<Rightarrow>
                 if record_page_kind error = RecordPageNoSpace then
                   heap_fail HeapValueTooLarge ''updated record does not fit its RecordPage'' e
                 else (Inl (translate_record error), e)
             | Inr page \<Rightarrow> (Inr (), change_guarded frame_id page e)) = guarded (f page_id)" for page_id
    by (auto simp: fun_eq_iff guarded_def f_def heap_fail_def split: sum.split)
  from run show ?thesis
    unfolding update_record_def
  proof (cases rule: heap_bind_cases)
    case (failed error)
    then show ?thesis using row_step_error [OF acquire_table_law(1) [OF failed(1) eok] ok] by simp
  next
    case (went_on u e2)
    note same = acquire_table_law [OF went_on(1) eok]
    have eok2: "engine_ok e2" using same(1) by (simp add: same_table_def)
    have ok2: "heap_ok format meta e2" "healthy meta e2" using same_table_rows(3,4) [OF same(1)] ok same(2) by blast+
    show ?thesis
    proof (cases "rid_decode (uw_rid row)")
      case (Inl error)
      then show ?thesis using went_on(2) row_step_error [OF same(1) ok] by auto
    next
      case (Inr parts)
      then have "with_guard meta (rp_page_id parts) (guarded (f (rp_page_id parts))) e2 = (r, e1)"
        using went_on(2) by (simp add: body)
      from with_guard_law [OF this eok2] show ?thesis
      proof (elim disjE exE conjE)
        fix error assume "r = Inl (translate_pool error)" "same_table e2 e1"
        then show ?thesis using row_step_error [OF same_table_trans [OF same(1)] ok] by simp
      next
        fix p
        assume p: "table_page meta e2 (rp_page_id parts) = Some p" and r: "r = fst (f (rp_page_id parts) p)"
          and e1: "case snd (f (rp_page_id parts) p) of None \<Rightarrow> same_table e2 e1 | Some q \<Rightarrow> same_but_page meta (rp_page_id parts) q e2 e1"
        have pok: "record_page_ok format meta (rp_page_id parts) p" using ok2 p by (simp add: heap_ok_def)
        show ?thesis
        proof (cases "snd (f (rp_page_id parts) p)")
          case None
          then have "\<exists>error. r = Inl error" "same_table e2 e1" using r e1 by (auto simp: f_def split: sum.splits)
          then show ?thesis using row_step_error [OF same_table_trans [OF same(1)] ok] by blast
        next
          case (Some q)
          then have rep: "replace_record p (rp_page_id parts) format meta (uw_rid row) (uw_values row) = Inr q" and r: "r = Inr ()"
            and sbp: "same_but_page meta (rp_page_id parts) q e2 e1"
            using r e1 by (auto simp: f_def split: sum.splits)
          note law = record_page.replace_law [OF pok rep]
          have "row_step format meta (uw_rid row) (Some (uw_values row)) e2 (Inr ()) e1"
            by (rule row_step_page [OF ok2 Inr p sbp]) (use law record_page.replace_stale [OF pok rep] in \<open>simp_all\<close>)
          then show ?thesis unfolding r by (rule row_step_after [OF same(1)])
        qed
      qed
    qed
  qed
qed

subsection \<open>Batches\<close>

lemma stale_not_a_row:
  assumes "heap_stale meta e rid"
  shows "heap_rows format meta e rid = None"
  using assms record_page.stale_lookup by (auto simp: heap_stale_def heap_rows_def)

lemma insert_each_law:
  "insert_each format meta rows e = ((rids, error), e1) \<Longrightarrow> heap_ok format meta e \<Longrightarrow>
     heap_ok format meta e1 \<and> length rids \<le> length rows \<and> (error = None \<longrightarrow> length rids = length rows)
     \<and> (heap_rows format meta e)(rids [\<mapsto>] rows) \<subseteq>\<^sub>m heap_rows format meta e1
     \<and> (error = None \<or> healthy meta e1 \<longrightarrow> heap_rows format meta e1 = (heap_rows format meta e)(rids [\<mapsto>] rows))
     \<and> distinct rids \<and> (\<forall>rid \<in> set rids. heap_rows format meta e rid = None)"
proof (induction rows arbitrary: e rids)
  case (Cons row rows)
  obtain r e2 where ins: "heap_insert_record format meta row e = (r, e2)" by fastforce
  note law = heap_insert_record_law [OF ins Cons.prems(2)]
  show ?case
  proof (cases r)
    case (Inl x)
    then show ?thesis using Cons.prems(1) ins law by (auto simp: inserted_def)
  next
    case (Inr rid)
    obtain rids2 error2 e3 where rest: "insert_each format meta rows e2 = ((rids2, error2), e3)" by (metis prod.exhaust)
    then have out: "rids = rid # rids2" "error2 = error" "e3 = e1" using Cons.prems(1) ins Inr by auto
    have i: "heap_ok format meta e2" "heap_rows format meta e rid = None"
      "heap_rows format meta e2 = (heap_rows format meta e)(rid \<mapsto> row)"
      using law Inr by (auto simp: inserted_def)
    have ih: "heap_ok format meta e1 \<and> length rids2 \<le> length rows \<and> (error = None \<longrightarrow> length rids2 = length rows)
     \<and> (heap_rows format meta e2)(rids2 [\<mapsto>] rows) \<subseteq>\<^sub>m heap_rows format meta e1
     \<and> (error = None \<or> healthy meta e1 \<longrightarrow> heap_rows format meta e1 = (heap_rows format meta e2)(rids2 [\<mapsto>] rows))
     \<and> distinct rids2 \<and> (\<forall>rid \<in> set rids2. heap_rows format meta e2 rid = None)"
      using Cons.IH [OF _ i(1), of rids2] rest out by blast
    then have "rid \<notin> set rids2" "\<forall>rid \<in> set rids2. heap_rows format meta e rid = None" using i(3) by (auto split: if_splits)
    then show ?thesis using ih i(2,3) out by (simp add: fun_upd_def)
  qed
qed auto

lemma delete_each_law:
  "delete_each format meta rids e = ((n, error), e1) \<Longrightarrow> heap_ok format meta e \<Longrightarrow>
     heap_ok format meta e1 \<and> n \<le> length rids \<and> (error = None \<longrightarrow> n = length rids)
     \<and> heap_rows format meta e1 = heap_rows format meta e |` (- set (take n rids))
     \<and> distinct (take n rids) \<and> (\<forall>rid \<in> set (take n rids). heap_rows format meta e rid \<noteq> None)"
proof (induction rids arbitrary: e n)
  case (Cons rid rids)
  obtain r e2 where del: "delete_record format meta rid e = (r, e2)" by fastforce
  note law = delete_record_law [OF del Cons.prems(2)]
  show ?case
  proof (cases r)
    case (Inl x)
    then show ?thesis using Cons.prems(1) del law by (auto simp: row_step_def)
  next
    case (Inr u)
    obtain m error2 e3 where rest: "delete_each format meta rids e2 = ((m, error2), e3)" by (metis prod.exhaust)
    then have out: "n = m + 1" "error2 = error" "e3 = e1" using Cons.prems(1) del Inr by auto
    have i: "heap_ok format meta e2" "heap_rows format meta e rid \<noteq> None"
      "heap_rows format meta e2 = (heap_rows format meta e)(rid := None)"
      using law Inr by (auto simp: row_step_def)
    have ih: "heap_ok format meta e1 \<and> m \<le> length rids \<and> (error = None \<longrightarrow> m = length rids)
     \<and> heap_rows format meta e1 = heap_rows format meta e2 |` (- set (take m rids))
     \<and> distinct (take m rids) \<and> (\<forall>rid \<in> set (take m rids). heap_rows format meta e2 rid \<noteq> None)"
      using Cons.IH [OF _ i(1), of m] rest out by blast
    then have "rid \<notin> set (take m rids)" "\<forall>rid \<in> set (take m rids). heap_rows format meta e rid \<noteq> None"
      using i(3) by (auto split: if_splits)
    moreover have "heap_rows format meta e1 = heap_rows format meta e |` (- insert rid (set (take m rids)))"
      using ih i(3) by (auto simp: restrict_map_def fun_eq_iff)
    ultimately show ?thesis using ih i(2) out by simp
  qed
qed (auto simp: restrict_map_def)

lemma update_each_law:
  "update_each format meta rows e = ((n, error), e1) \<Longrightarrow> heap_ok format meta e \<Longrightarrow>
     heap_ok format meta e1 \<and> n \<le> length rows \<and> (error = None \<longrightarrow> n = length rows)
     \<and> heap_rows format meta e1 = (heap_rows format meta e)(map uw_rid (take n rows) [\<mapsto>] map uw_values rows)"
proof (induction rows arbitrary: e n)
  case (Cons row rows)
  obtain r e2 where up: "update_record format meta row e = (r, e2)" by fastforce
  note law = update_record_law [OF up Cons.prems(2)]
  show ?case
  proof (cases r)
    case (Inl x)
    then show ?thesis using Cons.prems(1) up law by (auto simp: row_step_def)
  next
    case (Inr u)
    obtain m error2 e3 where rest: "update_each format meta rows e2 = ((m, error2), e3)" by (metis prod.exhaust)
    then have out: "n = m + 1" "error2 = error" "e3 = e1" using Cons.prems(1) up Inr by auto
    have i: "heap_ok format meta e2" "heap_rows format meta e2 = (heap_rows format meta e)(uw_rid row \<mapsto> uw_values row)"
      using law Inr by (auto simp: row_step_def)
    have "heap_ok format meta e1 \<and> m \<le> length rows \<and> (error = None \<longrightarrow> m = length rows)
     \<and> heap_rows format meta e1 = (heap_rows format meta e2)(map uw_rid (take m rows) [\<mapsto>] map uw_values rows)"
      using Cons.IH [OF _ i(1), of m] rest out by blast
    then show ?thesis unfolding out i(2) by simp
  qed
qed auto

lemma validate_update_law:
  assumes run: "validate_update format meta row e = (r, e1)" and ok: "heap_ok format meta e"
  shows "same_table e e1" "r = Inr u \<Longrightarrow> healthy meta e \<and> heap_rows format meta e (uw_rid row) \<noteq> None"
proof -
  have eok: "engine_ok e" using ok by (simp add: heap_ok_def)
  define f where "f = (\<lambda>page_id p. (map_error translate_record (bind_result (get_record p page_id format meta (uw_rid row)) (\<lambda>_. Inr ())),
    None :: RawPage option))"
  have body: "(\<lambda>page_id frame_id e. (map_error translate_record (bind_result (get_record (guard_page frame_id e) page_id format meta (uw_rid row))
                (\<lambda>_. Inr ())), e)) = (\<lambda>page_id. guarded (f page_id))"
    by (simp add: fun_eq_iff guarded_def f_def)
  have "same_table e e1 \<and> (r = Inr u \<longrightarrow> healthy meta e \<and> heap_rows format meta e (uw_rid row) \<noteq> None)"
    using run unfolding validate_update_def body
  proof (cases rule: heap_bind_cases)
    case (failed error)
    then show ?thesis using acquire_table_law(1) [OF failed(1) eok] by simp
  next
    case (went_on v e2)
    note same = acquire_table_law [OF went_on(1) eok]
    have eok2: "engine_ok e2" using same(1) by (simp add: same_table_def)
    show ?thesis
    proof (cases "encoded_size format meta (uw_values row)")
      case (Inl error)
      then show ?thesis using went_on(2) same(1) by auto
    next
      case (Inr n)
      then have "with_record_page meta (uw_rid row) (\<lambda>page_id. guarded (f page_id)) e2 = (r, e1)" using went_on(2) by simp
      from with_record_page_law [OF this eok2] show ?thesis
      proof (elim disjE exE conjE)
        fix error assume "r = Inl error" "same_table e2 e1"
        then show ?thesis using same_table_trans [OF same(1)] by simp
      next
        fix parts p e3
        assume e3: "same_table e2 e3" and parts: "rid_decode (uw_rid row) = Inr parts" and p: "table_page meta e3 (rp_page_id parts) = Some p"
          and r: "r = fst (f (rp_page_id parts) p)"
          and e1: "case snd (f (rp_page_id parts) p) of None \<Rightarrow> same_table e3 e1 | Some q \<Rightarrow> same_but_page meta (rp_page_id parts) q e3 e1"
        note t = same_table_trans [OF same(1) e3]
        have "same_table e e1" using e1 same_table_trans [OF t] by (simp add: f_def)
        moreover have "heap_rows format meta e (uw_rid row) \<noteq> None" if won: "r = Inr u"
        proof -
          have "heap_ok format meta e3" "healthy meta e3" using same_table_rows(3,4) [OF t] ok same(2) by blast+
          then have "page_ok p (rp_page_id parts)" using p by (simp add: heap_ok_def record_page_ok_def)
          moreover obtain x where "get_record p (rp_page_id parts) format meta (uw_rid row) = Inr x"
            using won r by (auto simp: f_def map_error_def bind_result_def split: sum.splits)
          ultimately have "record_lookup format meta (rp_page_id parts) p (uw_rid row) \<noteq> None" using get_record_Inr by blast
          then show ?thesis using heap_rows_on_page [OF parts p, of format] same_table_rows(2) [OF t] by simp
        qed
        ultimately show ?thesis using same(2) by simp
      qed
    qed
  qed
  then show "same_table e e1" "r = Inr u \<Longrightarrow> healthy meta e \<and> heap_rows format meta e (uw_rid row) \<noteq> None" by simp_all
qed

lemma validate_each_law:
  "validate_each format meta seen rows e = (r, e1) \<Longrightarrow> heap_ok format meta e \<Longrightarrow> distinct seen \<Longrightarrow>
     same_table e e1 \<and> (r = Inr u \<longrightarrow> distinct (seen @ map uw_rid rows) \<and> (\<forall>row \<in> set rows. heap_rows format meta e (uw_rid row) \<noteq> None))"
proof (induction rows arbitrary: e seen)
  case Nil
  then show ?case by (simp add: same_table_def heap_ok_def)
next
  case (Cons row rows)
  show ?case
  proof (cases "List.member seen (uw_rid row)")
    case True
    then show ?thesis using Cons.prems(1,2) by (auto simp: heap_fail_def same_table_def heap_ok_def)
  next
    case False
    then have "heap_bind (validate_update format meta row) (\<lambda>_. validate_each format meta (seen @ [uw_rid row]) rows) e = (r, e1)"
      using Cons.prems(1) by simp
    then show ?thesis
    proof (cases rule: heap_bind_cases)
      case (failed error)
      then show ?thesis using validate_update_law(1) [OF failed(1) Cons.prems(2)] by simp
    next
      case (went_on v e2)
      note law = validate_update_law [OF went_on(1) Cons.prems(2)]
      have ok2: "heap_ok format meta e2" using same_table_rows(4) [OF law(1)] Cons.prems(2) by blast
      have "distinct (seen @ [uw_rid row])" using Cons.prems(3) False by simp
      then have "same_table e2 e1 \<and> (r = Inr u \<longrightarrow> distinct ((seen @ [uw_rid row]) @ map uw_rid rows)
          \<and> (\<forall>row \<in> set rows. heap_rows format meta e2 (uw_rid row) \<noteq> None))"
        using Cons.IH [OF went_on(2) ok2] by blast
      then show ?thesis using law same_table_trans [OF law(1)] same_table_rows(2) [OF law(1)] by simp
    qed
  qed
qed

subsection \<open>Scanning\<close>

text \<open>The records of a page from a slot on, in the order of the slots.\<close>

definition slot_record :: "RowFormat \<Rightarrow> TableMeta \<Rightarrow> PageId \<Rightarrow> RawPage \<Rightarrow> nat \<Rightarrow> Record" where
  "slot_record format meta page_id p i =
     (case next_record p page_id format meta i of Inr (Some record, _) \<Rightarrow> record | _ \<Rightarrow> \<lparr>rec_rid = \<lparr>rid_value = 0\<rparr>, rec_values = []\<rparr>)"

definition page_records :: "RowFormat \<Rightarrow> TableMeta \<Rightarrow> PageId \<Rightarrow> RawPage \<Rightarrow> nat \<Rightarrow> Record list" where
  "page_records format meta page_id p start =
     map (slot_record format meta page_id p) (filter (\<lambda>i. is_live (abs_page p ! i)) [start..<length (abs_page p)])"

text \<open>The records that a scan at a position has before it: the rest of its page and the pages behind it.\<close>

definition ahead :: "RowFormat \<Rightarrow> TableMeta \<Rightarrow> Engine \<Rightarrow> nat \<Rightarrow> nat \<Rightarrow> nat \<Rightarrow> Record list" where
  "ahead format meta e page slot page_end =
     concat (map (\<lambda>n. case table_page meta e (word_of_nat n) of
         None \<Rightarrow> []
       | Some p \<Rightarrow> page_records format meta (word_of_nat n) p (if n = page then slot else 0)) [page..<page_end])"

definition remaining :: "RowFormat \<Rightarrow> TableMeta \<Rightarrow> Engine \<Rightarrow> HeapScanPosition \<Rightarrow> Record list" where
  "remaining format meta e position = ahead format meta e (sp_next_page position) (sp_next_slot position) (sp_page_end_exclusive position)"

text \<open>The slot of a position is on its page.\<close>

definition position_ok :: "TableMeta \<Rightarrow> Engine \<Rightarrow> HeapScanPosition \<Rightarrow> bool" where
  "position_ok meta e position \<longleftrightarrow> (case table_page meta e (word_of_nat (sp_next_page position)) of
     None \<Rightarrow> True | Some p \<Rightarrow> sp_next_slot position \<le> length (abs_page p))"

lemma filter_upt_find:
  "find P [a..<b] = Some i \<Longrightarrow> filter P [a..<b] = i # filter P [i + 1..<b]"
proof (induction "b - a" arbitrary: a)
  case (Suc n)
  then have "a < b" by simp
  then have "[a..<b] = a # [a + 1..<b]" by (simp add: upt_rec)
  then show ?case using Suc.hyps(1) [of "a + 1"] Suc.hyps(2) Suc.prems by (auto split: if_splits)
qed simp

lemma slot_record_live:
  assumes ok: "record_page_ok format meta page_id p" and i: "i < length (abs_page p)" "is_live (abs_page p ! i)"
  obtains rid row where "slot_record format meta page_id p i = \<lparr>rec_rid = rid, rec_values = row\<rparr>"
    "rid_handle page_id rid = Some \<lparr>sh_slot_id = word_of_nat i, sh_generation = state_generation (abs_page p ! i)\<rparr>"
    "record_lookup format meta page_id p rid = Some row"
proof -
  have "find (\<lambda>i. is_live (abs_page p ! i)) [i..<length (abs_page p)] = Some i" using i by (simp add: upt_rec)
  then obtain rid row where r: "next_record p page_id format meta i = Inr (Some \<lparr>rec_rid = rid, rec_values = row\<rparr>, i + 1)"
    "rid_handle page_id rid = Some \<lparr>sh_slot_id = word_of_nat i, sh_generation = state_generation (abs_page p ! i)\<rparr>"
    "record_lookup format meta page_id p rid = Some row"
    using next_record_refines [OF ok, of i] i(1) by auto
  then show thesis by (intro that) (simp_all add: slot_record_def)
qed

lemma page_records_step:
  assumes ok: "record_page_ok format meta page_id p" and start: "start \<le> length (abs_page p)"
    and run: "next_record p page_id format meta start = Inr (found, next)"
  shows "page_records format meta page_id p start
      = (case found of None \<Rightarrow> [] | Some record \<Rightarrow> record # page_records format meta page_id p next)"
    "found \<noteq> None \<Longrightarrow> next \<le> length (abs_page p)"
proof -
  note refines = next_record_refines [OF ok start]
  have "page_records format meta page_id p start
      = (case found of None \<Rightarrow> [] | Some record \<Rightarrow> record # page_records format meta page_id p next)
     \<and> (found \<noteq> None \<longrightarrow> next \<le> length (abs_page p))"
  proof (cases "find (\<lambda>i. is_live (abs_page p ! i)) [start..<length (abs_page p)]")
    case None
    then have "filter (\<lambda>i. is_live (abs_page p ! i)) [start..<length (abs_page p)] = []"
      by (auto simp: find_None_iff filter_empty_conv)
    then show ?thesis using refines run None by (simp add: page_records_def)
  next
    case (Some i)
    then obtain rid row where r: "next_record p page_id format meta start = Inr (Some \<lparr>rec_rid = rid, rec_values = row\<rparr>, i + 1)"
      and h: "rid_handle page_id rid = Some \<lparr>sh_slot_id = word_of_nat i, sh_generation = state_generation (abs_page p ! i)\<rparr>"
        "record_lookup format meta page_id p rid = Some row"
      using refines by auto
    have i: "i < length (abs_page p)" "is_live (abs_page p ! i)" using Some by (auto simp: find_Some_iff)
    have "slot_record format meta page_id p i = \<lparr>rec_rid = rid, rec_values = row\<rparr>"
      using slot_record_live [OF ok i] h rid_handle_inj by (metis option.inject)
    then show ?thesis using r run filter_upt_find [OF Some] i(1) by (auto simp: page_records_def)
  qed
  then show "page_records format meta page_id p start
      = (case found of None \<Rightarrow> [] | Some record \<Rightarrow> record # page_records format meta page_id p next)"
    "found \<noteq> None \<Longrightarrow> next \<le> length (abs_page p)" by simp_all
qed

lemma ahead_step:
  assumes "page < page_end"
  shows "ahead format meta e page slot page_end
    = (case table_page meta e (word_of_nat page) of None \<Rightarrow> [] | Some p \<Rightarrow> page_records format meta (word_of_nat page) p slot)
      @ ahead format meta e (page + 1) 0 page_end"
proof -
  have "[page..<page_end] = page # [page + 1..<page_end]" using assms by (simp add: upt_rec)
  then show ?thesis by (auto simp: ahead_def intro!: arg_cong [where f = concat] split: option.split)
qed

lemma ahead_slot: "ahead format meta e page slot page_end = ahead format meta e1 page slot page_end" if "table_page meta e1 = table_page meta e"
  by (simp add: ahead_def that)

text \<open>What a scan finds is the first record before it; at the end nothing is left.\<close>

definition scanned :: "RowFormat \<Rightarrow> TableMeta \<Rightarrow> Engine \<Rightarrow> HeapScanPosition \<Rightarrow> Record option \<Rightarrow> HeapScanPosition \<Rightarrow> bool" where
  "scanned format meta e position found next \<longleftrightarrow> position_ok meta e next
     \<and> sp_page_end_exclusive next = sp_page_end_exclusive position
     \<and> remaining format meta e position = (case found of None \<Rightarrow> [] | Some record \<Rightarrow> record # remaining format meta e next)"

lemma same_table_scan:
  assumes "same_table e e1"
  shows "remaining format meta e1 position = remaining format meta e position" "position_ok meta e1 position = position_ok meta e position"
    "scanned format meta e1 position found next = scanned format meta e position found next"
proof -
  show r: "remaining format meta e1 position = remaining format meta e position" for position
    by (simp add: remaining_def ahead_def same_table_rows(1) [OF assms])
  show p: "position_ok meta e1 position = position_ok meta e position" for position
    by (simp add: position_ok_def same_table_rows(1) [OF assms])
  show "scanned format meta e1 position found next = scanned format meta e position found next"
    by (cases found) (simp_all add: scanned_def r p)
qed

lemma scan_page_law:
  assumes run: "with_guard meta page_id (\<lambda>frame_id e.
      (map_error translate_record (next_record (guard_page frame_id e) page_id format meta slot), e)) e = (r, e1)"
    and ok: "engine_ok e"
  shows "same_table e e1"
    "r = Inr x \<Longrightarrow> \<exists>p. table_page meta e page_id = Some p \<and> next_record p page_id format meta slot = Inr x"
proof -
  define f where "f = (\<lambda>p. (map_error translate_record (next_record p page_id format meta slot), None :: RawPage option))"
  have "(\<lambda>frame_id e. (map_error translate_record (next_record (guard_page frame_id e) page_id format meta slot), e)) = guarded f"
    by (simp add: fun_eq_iff guarded_def f_def)
  then have "with_guard meta page_id (guarded f) e = (r, e1)" using run by simp
  note law = with_guard_law [OF this ok]
  show "same_table e e1" using law by (auto simp: f_def)
  show "r = Inr x \<Longrightarrow> \<exists>p. table_page meta e page_id = Some p \<and> next_record p page_id format meta slot = Inr x"
  proof -
    assume r: "r = Inr x"
    then obtain p where p: "table_page meta e page_id = Some p" "r = map_error translate_record (next_record p page_id format meta slot)"
      using law by (auto simp: f_def)
    have "next_record p page_id format meta slot = Inr x"
      using p(2) r by (cases "next_record p page_id format meta slot") simp_all
    then show ?thesis using p(1) by blast
  qed
qed

lemma scan_pages_law:
  "scan_pages format meta position e = (r, e1) \<Longrightarrow> heap_ok format meta e \<Longrightarrow> healthy meta e \<Longrightarrow> position_ok meta e position \<Longrightarrow>
     same_table e e1 \<and> (\<forall>found next. r = Inr (found, next) \<longrightarrow> scanned format meta e position found next)"
proof (induction "sp_page_end_exclusive position - sp_next_page position" arbitrary: position e)
  case 0
  then show ?case
    by (auto simp: scan_pages.simps [of format meta position] same_table_def heap_ok_def scanned_def remaining_def ahead_def)
next
  case (Suc n)
  define page_id :: PageId where "page_id = word_of_nat (sp_next_page position)"
  define next_page where "next_page = position\<lparr>sp_next_page := Suc (sp_next_page position), sp_next_slot := 0\<rparr>"
  have eok: "engine_ok e" using Suc.prems(2) by (simp add: heap_ok_def)
  have lt: "sp_next_page position < sp_page_end_exclusive position" using Suc.hyps(2) by simp
  have rem: "remaining format meta e position = (case table_page meta e page_id of None \<Rightarrow> []
      | Some p \<Rightarrow> page_records format meta page_id p (sp_next_slot position)) @ remaining format meta e next_page"
    unfolding remaining_def ahead_step [OF lt] page_id_def next_page_def by simp
  have skip: "same_table e e1 \<and> (\<forall>found next. r = Inr (found, next) \<longrightarrow> scanned format meta e position found next)"
    if same: "same_table e e2" and more: "scan_pages format meta next_page e2 = (r, e1)"
      and none: "remaining format meta e position = remaining format meta e next_page" for e2
  proof -
    have "n = sp_page_end_exclusive next_page - sp_next_page next_page" using Suc.hyps(2) by (simp add: next_page_def)
    moreover have "heap_ok format meta e2" "healthy meta e2" using same_table_rows(3,4) [OF same] Suc.prems(2,3) by blast+
    moreover have "position_ok meta e2 next_page" by (simp add: position_ok_def next_page_def split: option.split)
    ultimately have "same_table e2 e1 \<and> (\<forall>found next. r = Inr (found, next) \<longrightarrow> scanned format meta e2 next_page found next)"
      using Suc.hyps(1) [of next_page e2] more by blast
    then show ?thesis
      using same_table_trans [OF same] none same_table_scan(3) [OF same]
      by (simp add: scanned_def) (simp add: next_page_def)
  qed
  have "heap_bind (on_lease (tm_table_id meta) (page_allocation_state page_id)) (\<lambda>state.
          if state = kAllocated then
            heap_bind (with_guard meta page_id (\<lambda>frame_id e.
                (map_error translate_record (next_record (guard_page frame_id e) page_id format meta (sp_next_slot position)), e)))
              (\<lambda>(found, next_position).
                case found of
                  Some record \<Rightarrow> (\<lambda>e. (Inr (Some record, position\<lparr>sp_next_slot := next_position\<rparr>), e))
                | None \<Rightarrow> scan_pages format meta next_page)
          else scan_pages format meta next_page) e = (r, e1)"
    using Suc.prems(1) lt unfolding page_id_def next_page_def by (simp add: scan_pages.simps [of format meta position e] Let_def)
  then show ?case
  proof (cases rule: heap_bind_cases)
    case (failed error)
    then show ?thesis using allocation_state_law(1) [OF failed(1) eok] by simp
  next
    case (went_on state e2)
    note same = allocation_state_law [OF went_on(1) eok]
    have eok2: "engine_ok e2" using same(1) by (simp add: same_table_def)
    show ?thesis
    proof (cases state)
      case kFree
      then have "table_page meta e page_id = None" using same(3) by simp
      then show ?thesis using skip [OF same(1)] went_on(2) kFree rem by simp
    next
      case kAllocated
      with went_on(2) have "heap_bind (with_guard meta page_id (\<lambda>frame_id e.
                (map_error translate_record (next_record (guard_page frame_id e) page_id format meta (sp_next_slot position)), e)))
              (\<lambda>(found, next_position).
                case found of
                  Some record \<Rightarrow> (\<lambda>e. (Inr (Some record, position\<lparr>sp_next_slot := next_position\<rparr>), e))
                | None \<Rightarrow> scan_pages format meta next_page) e2 = (r, e1)" by simp
      then show ?thesis
      proof (cases rule: heap_bind_cases)
        case (failed error)
        then show ?thesis using same_table_trans [OF same(1) scan_page_law(1) [OF failed(1) eok2]] by simp
      next
        case (went_on x e3)
        obtain found next_position where x: "x = (found, next_position)" by fastforce
        note law = scan_page_law [OF went_on(1) eok2]
        note t = same_table_trans [OF same(1) law(1)]
        obtain p where p: "table_page meta e page_id = Some p"
          "next_record p page_id format meta (sp_next_slot position) = Inr (found, next_position)"
          using law(2) [OF refl] same_table_rows(1) [OF same(1)] x by auto
        have pok: "record_page_ok format meta page_id p" using Suc.prems(2,3) p by (simp add: heap_ok_def)
        have start: "sp_next_slot position \<le> length (abs_page p)"
          using Suc.prems(4) p(1) by (simp add: position_ok_def page_id_def)
        note records = page_records_step [OF pok start p(2)]
        show ?thesis
        proof (cases found)
          case None
          then show ?thesis using skip [OF t] went_on(2) x rem p(1) records(1) by simp
        next
          case (Some hit)
          then have r: "r = Inr (Some hit, position\<lparr>sp_next_slot := next_position\<rparr>)" "e1 = e3" using went_on(2) x by simp_all
          have "remaining format meta e (position\<lparr>sp_next_slot := next_position\<rparr>)
              = page_records format meta page_id p next_position @ remaining format meta e next_page"
            using ahead_step [OF lt, of format meta e next_position] p(1) by (simp add: remaining_def page_id_def next_page_def)
          then have "scanned format meta e position (Some hit) (position\<lparr>sp_next_slot := next_position\<rparr>)"
            using rem p(1) records Some by (simp add: scanned_def position_ok_def page_id_def)
          then show ?thesis using r t by simp
        qed
      qed
    qed
  qed
qed

lemma heap_next_record_law:
  assumes run: "heap_next_record format meta position e = ((r, next), e1)" and ok: "heap_ok format meta e"
    and pos: "position_ok meta e position"
  shows "same_table e e1" "r = Inr found \<Longrightarrow> healthy meta e \<and> scanned format meta e position found next"
    "r = Inl error \<Longrightarrow> next = position"
proof -
  have eok: "engine_ok e" using ok by (simp add: heap_ok_def)
  obtain x where x: "heap_bind (acquire_table meta) (\<lambda>_. heap_bind (table_page_count meta) (\<lambda>page_count.
         if position_invalid position page_count then heap_fail HeapInvalidArgument ''invalid heap scan position''
         else scan_pages format meta position)) e = (x, e1)"
    and out: "(r, next) = (case x of Inl error \<Rightarrow> (Inl error, position) | Inr (found, next) \<Rightarrow> (Inr found, next))"
    using run by (auto simp: heap_next_record_def split: prod.splits sum.splits)
  have "same_table e e1 \<and> (\<forall>found next. x = Inr (found, next) \<longrightarrow> healthy meta e \<and> scanned format meta e position found next)"
    using x
  proof (cases rule: heap_bind_cases)
    case (failed error)
    then show ?thesis using acquire_table_law(1) [OF failed(1) eok] by simp
  next
    case (went_on u e2)
    note same = acquire_table_law [OF went_on(1) eok]
    have eok2: "engine_ok e2" using same(1) by (simp add: same_table_def)
    from went_on(2) show ?thesis
    proof (cases rule: heap_bind_cases)
      case (failed error)
      then show ?thesis using same_table_trans [OF same(1) table_page_count_law [OF failed(1) eok2]] by simp
    next
      case (went_on n e3)
      note t = same_table_trans [OF same(1) table_page_count_law [OF went_on(1) eok2]]
      have ok3: "heap_ok format meta e3" "healthy meta e3" using same_table_rows(3,4) [OF t] ok same(2) by blast+
      show ?thesis
      proof (cases "position_invalid position n")
        case True
        then show ?thesis using went_on(2) t by (auto simp: heap_fail_def)
      next
        case False
        have "position_ok meta e3 position" using pos same_table_scan(2) [OF t] by simp
        then have "same_table e3 e1 \<and> (\<forall>found next. x = Inr (found, next) \<longrightarrow> scanned format meta e3 position found next)"
          using scan_pages_law [OF _ ok3] went_on(2) False by simp
        then show ?thesis
          using same_table_trans [OF t] same(2) same_table_scan(3) [OF t] by simp
      qed
    qed
  qed
  then show "same_table e e1" "r = Inr found \<Longrightarrow> healthy meta e \<and> scanned format meta e position found next"
    "r = Inl error \<Longrightarrow> next = position"
    using out by (auto split: sum.splits)
qed

subsection \<open>The records of a table in order\<close>

text \<open>The place of a record id: its page, then its slot.\<close>

definition rid_place :: "RecordId \<Rightarrow> nat" where
  "rid_place rid = (case rid_decode rid of Inl _ \<Rightarrow> 0 | Inr parts \<Rightarrow> unat (rp_page_id parts) * 65536 + unat (rp_slot_id parts))"

lemma rid_handle_place: "rid_handle page_id rid = Some h \<Longrightarrow> rid_place rid = unat page_id * 65536 + unat (sh_slot_id h)"
  by (auto simp: rid_handle_def rid_place_def split: sum.splits if_splits)

lemma slot_number:
  assumes "record_page_ok format meta page_id p" "i < length (abs_page p)"
  shows "unat (word_of_nat i :: u16) = i" "i < 65536"
proof -
  have "page_ok p page_id" using assms(1) by (simp add: record_page_ok_def)
  then show "i < 65536" using assms(2) page_ok_room(1) [of p page_id] by (simp add: page_constants)
  then show "unat (word_of_nat i :: u16) = i" by (intro unat_word_small) simp
qed

lemma page_records_places:
  assumes "record_page_ok format meta page_id p"
  shows "map (\<lambda>record. rid_place (rec_rid record)) (page_records format meta page_id p start)
    = map (\<lambda>i. unat page_id * 65536 + i) (filter (\<lambda>i. is_live (abs_page p ! i)) [start..<length (abs_page p)])"
proof -
  have "rid_place (rec_rid (slot_record format meta page_id p i)) = unat page_id * 65536 + i"
    if "i < length (abs_page p)" "is_live (abs_page p ! i)" for i
    using slot_record_live [OF assms that] rid_handle_place slot_number [OF assms that(1)] by (metis SlotHandle.select_convs(1) Record.select_convs(1))
  then show ?thesis by (simp add: page_records_def)
qed

lemma page_records_mem:
  assumes ok: "record_page_ok format meta page_id p"
  shows "\<lparr>rec_rid = rid, rec_values = row\<rparr> \<in> set (page_records format meta page_id p 0) \<longleftrightarrow> record_lookup format meta page_id p rid = Some row"
proof
  assume "\<lparr>rec_rid = rid, rec_values = row\<rparr> \<in> set (page_records format meta page_id p 0)"
  then obtain i where i: "i < length (abs_page p)" "is_live (abs_page p ! i)"
    "slot_record format meta page_id p i = \<lparr>rec_rid = rid, rec_values = row\<rparr>"
    by (auto simp: page_records_def)
  then show "record_lookup format meta page_id p rid = Some row" using slot_record_live [OF ok i(1,2)] by auto
next
  assume look: "record_lookup format meta page_id p rid = Some row"
  then obtain h b where h: "rid_handle page_id rid = Some h" "lookup_slot (abs_page p) h = Some b"
    by (auto simp: record_lookup_def bind_eq_Some_conv)
  define i where "i = unat (sh_slot_id h)"
  have i: "i < length (abs_page p)" "abs_page p ! i = SlotLive (sh_generation h) b"
    using h(2) by (auto simp: lookup_slot_def i_def split: if_splits slot_state.splits)
  then have live: "is_live (abs_page p ! i)" by simp
  obtain rid2 row2 where r: "slot_record format meta page_id p i = \<lparr>rec_rid = rid2, rec_values = row2\<rparr>"
    "rid_handle page_id rid2 = Some \<lparr>sh_slot_id = word_of_nat i, sh_generation = state_generation (abs_page p ! i)\<rparr>"
    "record_lookup format meta page_id p rid2 = Some row2"
    by (rule slot_record_live [OF ok i(1) live])
  have "h = \<lparr>sh_slot_id = word_of_nat i, sh_generation = state_generation (abs_page p ! i)\<rparr>"
    using i(2) by (cases h) (simp add: i_def)
  then have "rid2 = rid" using rid_handle_inj r(2) h(1) by simp
  then have "slot_record format meta page_id p i = \<lparr>rec_rid = rid, rec_values = row\<rparr>" using r look by simp
  then show "\<lparr>rec_rid = rid, rec_values = row\<rparr> \<in> set (page_records format meta page_id p 0)"
    using i(1) live by (force simp: page_records_def)
qed

lemma sorted_filter_upt: "sorted_wrt (<) (filter P [a..<b])" for a b :: nat
  by (intro sorted_wrt_filter) simp

lemma ahead_places:
  assumes ok: "heap_ok format meta e" "healthy meta e" and page_end: "page_end \<le> 4294967296"
  shows "page \<le> page_end \<Longrightarrow> sorted_wrt (<) (map (\<lambda>record. rid_place (rec_rid record)) (ahead format meta e page slot page_end))
    \<and> (\<forall>record \<in> set (ahead format meta e page slot page_end). page * 65536 \<le> rid_place (rec_rid record))"
proof (induction "page_end - page" arbitrary: page slot)
  case 0
  then show ?case by (simp add: ahead_def)
next
  case (Suc n)
  define here where "here = (case table_page meta e (word_of_nat page) of None \<Rightarrow> [] | Some p \<Rightarrow> page_records format meta (word_of_nat page) p slot)"
  have lt: "page < page_end" using Suc.hyps(2) by simp
  have split: "ahead format meta e page slot page_end = here @ ahead format meta e (page + 1) 0 page_end"
    unfolding here_def by (rule ahead_step [OF lt])
  have ih: "sorted_wrt (<) (map (\<lambda>record. rid_place (rec_rid record)) (ahead format meta e (page + 1) 0 page_end))
    \<and> (\<forall>record \<in> set (ahead format meta e (page + 1) 0 page_end). (page + 1) * 65536 \<le> rid_place (rec_rid record))"
    by (rule Suc.hyps(1)) (use Suc.hyps(2) lt in simp_all)
  have num: "unat (word_of_nat page :: PageId) = page" using lt page_end by (simp add: unat_word_small)
  have "sorted_wrt (<) (map (\<lambda>record. rid_place (rec_rid record)) here)
    \<and> (\<forall>record \<in> set here. page * 65536 \<le> rid_place (rec_rid record) \<and> rid_place (rec_rid record) < (page + 1) * 65536)"
  proof (cases "table_page meta e (word_of_nat page)")
    case (Some p)
    have pok: "record_page_ok format meta (word_of_nat page) p" using ok Some by (simp add: heap_ok_def)
    define slots where "slots = filter (\<lambda>i. is_live (abs_page p ! i)) [slot..<length (abs_page p)]"
    have places: "map (\<lambda>record. rid_place (rec_rid record)) here = map (\<lambda>i. page * 65536 + i) slots"
      using page_records_places [OF pok, of slot] by (simp add: here_def Some num slots_def)
    have "sorted_wrt (<) (map (\<lambda>i. page * 65536 + i) slots)"
      unfolding sorted_wrt_map slots_def by (rule sorted_wrt_mono_rel [OF _ sorted_filter_upt]) simp
    moreover have "page * 65536 \<le> x \<and> x < (page + 1) * 65536" if "x \<in> set (map (\<lambda>i. page * 65536 + i) slots)" for x
      using that slot_number(2) [OF pok] by (auto simp: slots_def)
    moreover have "rid_place (rec_rid hit) \<in> set (map (\<lambda>i. page * 65536 + i) slots)" if "hit \<in> set here" for hit
      using that unfolding places [symmetric] by simp
    ultimately show ?thesis unfolding places by blast
  qed (simp add: here_def)
  then show ?case using ih unfolding split map_append sorted_wrt_append by fastforce
qed

lemma ahead_mem:
  assumes ok: "heap_ok format meta e" "healthy meta e"
  shows "\<lparr>rec_rid = rid, rec_values = row\<rparr> \<in> set (ahead format meta e page 0 page_end) \<longleftrightarrow>
    (\<exists>n p. page \<le> n \<and> n < page_end \<and> table_page meta e (word_of_nat n) = Some p
       \<and> record_lookup format meta (word_of_nat n) p rid = Some row)"
proof -
  have pok: "record_page_ok format meta page_id p" if "table_page meta e page_id = Some p" for page_id p
    using ok that by (simp add: heap_ok_def)
  have "\<lparr>rec_rid = rid, rec_values = row\<rparr> \<in> set (case table_page meta e (word_of_nat n) of
         None \<Rightarrow> [] | Some p \<Rightarrow> page_records format meta (word_of_nat n) p (if n = page then 0 else 0))
     \<longleftrightarrow> (\<exists>p. table_page meta e (word_of_nat n) = Some p \<and> record_lookup format meta (word_of_nat n) p rid = Some row)" for n
  proof (cases "table_page meta e (word_of_nat n)")
    case (Some p)
    then show ?thesis using page_records_mem [OF pok [OF Some]] by simp
  qed simp
  then show ?thesis by (auto simp: ahead_def)
qed

text \<open>A scan starts before all rows.\<close>

lemma begin_scan_law:
  assumes run: "begin_scan meta e = (Inr position, e1)" and ok: "heap_ok format meta e"
  shows "same_table e e1" "healthy meta e" "position_ok meta e position"
    "set (remaining format meta e position) = {\<lparr>rec_rid = rid, rec_values = row\<rparr> |rid row. heap_rows format meta e rid = Some row}"
    "sorted_wrt (<) (map (\<lambda>record. rid_place (rec_rid record)) (remaining format meta e position))"
proof -
  have eok: "engine_ok e" using ok by (simp add: heap_ok_def)
  obtain u e2 n where acq: "acquire_table meta e = (Inr u, e2)" and cnt: "table_page_count meta e2 = (Inr n, e1)"
    and pos: "position = \<lparr>sp_next_page = 1, sp_next_slot = 0, sp_page_end_exclusive = n\<rparr>"
    using run by (auto simp: begin_scan_def heap_bind_def split: prod.splits sum.splits)
  note same = acquire_table_law [OF acq eok]
  have eok2: "engine_ok e2" using same(1) by (simp add: same_table_def)
  show "same_table e e1" by (rule same_table_trans [OF same(1) table_page_count_law [OF cnt eok2]])
  show h: "healthy meta e" using same(2) by simp
  show "position_ok meta e position" by (simp add: position_ok_def pos split: option.split)
  obtain pf where pf: "en_files e2 (tm_table_id meta) = Some pf" "n = pf_page_count pf"
    using cnt unfolding table_page_count_def by (cases rule: on_lease_cases) auto
  then have pfok: "page_file_ok pf" using eok2 by (auto simp: engine_ok_def files_ok_def)
  then have n: "1 \<le> n" "n \<le> 4294967296" by (simp_all add: pf(2) page_file_ok_def)
  have in_range: "1 \<le> unat page_id \<and> unat page_id < n" if "table_page meta e page_id = Some p" for page_id p
  proof -
    have "table_page meta e2 page_id \<noteq> None" using that same_table_rows(1) [OF same(1)] by simp
    then have "disk_view e2 (page_key meta page_id) \<noteq> None" using allocated_iff [OF eok2] by (simp add: table_page_def)
    then have "page_id \<noteq> 0" "unat page_id < n"
      using pf by (auto simp: disk_view_def page_key_def page_view_def out_of_range_def split: if_splits)
    then show ?thesis by (simp add: Suc_le_eq unat_gt_0)
  qed
  have "\<lparr>rec_rid = rid, rec_values = row\<rparr> \<in> set (remaining format meta e position) \<longleftrightarrow> heap_rows format meta e rid = Some row" for rid row
  proof
    assume "\<lparr>rec_rid = rid, rec_values = row\<rparr> \<in> set (remaining format meta e position)"
    then obtain k p where k: "table_page meta e (word_of_nat k) = Some p" "record_lookup format meta (word_of_nat k) p rid = Some row"
      using ahead_mem [OF ok h] by (auto simp: remaining_def pos)
    then obtain parts where "rid_decode rid = Inr parts" "rp_page_id parts = word_of_nat k"
      using rid_handle_page by (fastforce simp: record_lookup_def bind_eq_Some_conv)
    then show "heap_rows format meta e rid = Some row" using heap_rows_on_page [of rid parts meta e p format] k by simp
  next
    assume "heap_rows format meta e rid = Some row"
    then obtain parts p where p: "rid_decode rid = Inr parts" "table_page meta e (rp_page_id parts) = Some p"
      "record_lookup format meta (rp_page_id parts) p rid = Some row"
      by (auto simp: heap_rows_def bind_eq_Some_conv split: sum.splits)
    have "\<exists>k p. 1 \<le> k \<and> k < n \<and> table_page meta e (word_of_nat k) = Some p \<and> record_lookup format meta (word_of_nat k) p rid = Some row"
      using in_range [OF p(2)] p(2,3) by (intro exI [of _ "unat (rp_page_id parts)"] exI [of _ p]) simp
    then show "\<lparr>rec_rid = rid, rec_values = row\<rparr> \<in> set (remaining format meta e position)"
      using ahead_mem [OF ok h] by (simp add: remaining_def pos)
  qed
  then show "set (remaining format meta e position) = {\<lparr>rec_rid = rid, rec_values = row\<rparr> |rid row. heap_rows format meta e rid = Some row}"
    by (auto simp: set_eq_iff) (metis Record.cases)
  show "sorted_wrt (<) (map (\<lambda>record. rid_place (rec_rid record)) (remaining format meta e position))"
    using ahead_places [OF ok h n(2), of 1 0] n(1) by (simp add: remaining_def pos)
qed

text \<open>Calls of \<open>next_record\<close> that return records, one after the other.\<close>

inductive scan_run ::
    "RowFormat \<Rightarrow> TableMeta \<Rightarrow> HeapScanPosition \<Rightarrow> Engine \<Rightarrow> Record list \<Rightarrow> HeapScanPosition \<Rightarrow> Engine \<Rightarrow> bool" for format meta where
  scan_run_none: "scan_run format meta position e [] position e"
| scan_run_next: "heap_next_record format meta position e = ((Inr (Some record), position1), e1) \<Longrightarrow>
    scan_run format meta position1 e1 records position2 e2 \<Longrightarrow> scan_run format meta position e (record # records) position2 e2"

lemma scan_run_law:
  "scan_run format meta position e records position2 e2 \<Longrightarrow> heap_ok format meta e \<Longrightarrow> position_ok meta e position \<Longrightarrow>
     same_table e e2 \<and> position_ok meta e2 position2 \<and> remaining format meta e position = records @ remaining format meta e position2"
proof (induction rule: scan_run.induct)
  case (scan_run_none position e)
  then show ?case by (simp add: same_table_def heap_ok_def)
next
  case (scan_run_next position e hit position1 e1 records position2 e2)
  note law = heap_next_record_law [OF scan_run_next.hyps(1) scan_run_next.prems]
  have sc: "scanned format meta e position (Some hit) position1" using law(2) by blast
  have "heap_ok format meta e1" "position_ok meta e1 position1"
    using same_table_rows(4) [OF law(1)] scan_run_next.prems(1) sc same_table_scan(2) [OF law(1)] by (auto simp: scanned_def)
  note ih = scan_run_next.IH [OF this]
  show ?case
    using ih sc same_table_trans [OF law(1)] same_table_scan(1) [OF law(1)] by (auto simp: scanned_def)
qed

subsection \<open>A table with one row\<close>

definition demo_heap_engine :: "RawPage \<Rightarrow> Engine" where
  "demo_heap_engine p = \<lparr>en_pool = en_pool demo_engine,
     en_files = [2 \<mapsto> demo_table_file\<lparr>pf_file := \<lparr>df_size = 8192, df_pages = (\<lambda>_ _. 0)(0 := make_header 2 0, 1 := p)\<rparr>\<rparr>]\<rparr>"

lemma demo_heap_engine:
  assumes "record_page_ok kV1 demo_table 1 p"
  shows "heap_ok kV1 demo_table (demo_heap_engine p)" "table_page demo_table (demo_heap_engine p) = [1 \<mapsto> p]"
proof -
  define pf where "pf = demo_table_file\<lparr>pf_file := \<lparr>df_size = 8192, df_pages = (\<lambda>_ _. 0)(0 := make_header 2 0, 1 := p)\<rparr>\<rparr>"
  have list: "free_list_ok pf []" by (simp add: free_list_ok_def pf_def demo_table_file_def)
  have "page_file_ok pf" by (rule page_file_okI [OF list]) (simp_all add: pf_def demo_table_file_def kPageSize_def)
  then have f: "page_file_ok pf0" if "[2 \<mapsto> pf] t = Some pf0" for t :: TableId and pf0 using that by (simp split: if_splits)
  have pool: "create_pool 1 kFifo = Inr (en_pool demo_engine)" by (simp add: create_pool_def demo_engine_def kMaxU64_def)
  have e: "\<lparr>en_pool = en_pool demo_engine, en_files = [2 \<mapsto> pf]\<rparr> = demo_heap_engine p" by (simp add: demo_heap_engine_def pf_def)
  note ok = create_pool_ok [OF pool, where files = "[2 \<mapsto> pf]", OF f, unfolded e]
  have eok: "engine_ok (demo_heap_engine p)" by (rule ok(1)) simp
  have view: "pool_view (demo_heap_engine p) = disk_view (demo_heap_engine p)" by (rule ok(2)) simp
  show pages: "table_page demo_table (demo_heap_engine p) = [1 \<mapsto> p]"
  proof
    fix j :: PageId
    have "j = 0 \<or> j = 1 \<or> 2 \<le> unat j"
    proof -
      have "unat j = 0 \<or> unat j = 1 \<or> 2 \<le> unat j" by arith
      then show ?thesis by (auto simp: word_unat_eq_iff)
    qed
    moreover have "page_view pf j = [1 \<mapsto> p] j" if "j = 0 \<or> j = 1 \<or> 2 \<le> unat j"
      using that unfolding page_view_def free_list_eq [OF list] by (auto simp: out_of_range_def pf_def demo_table_file_def)
    ultimately have "page_view pf j = [1 \<mapsto> p] j" by blast
    moreover have "table_page demo_table (demo_heap_engine p) j = page_view pf j"
      by (simp add: table_page_def view disk_view_def page_key_def demo_table_def) (simp add: demo_heap_engine_def pf_def)
    ultimately show "table_page demo_table (demo_heap_engine p) j = [1 \<mapsto> p] j" by simp
  qed
  show "heap_ok kV1 demo_table (demo_heap_engine p)"
    using eok assms by (simp add: heap_ok_def pages)
qed

lemma demo_rid: "rid_decode \<lparr>rid_value = 0x100010000\<rparr> = Inr \<lparr>rp_page_id = 1, rp_slot_id = 0, rp_generation = 1\<rparr>"
  by code_simp

lemma demo_heap_begin: "begin_scan demo_table (demo_heap_engine p)
    = (Inr \<lparr>sp_next_page = 1, sp_next_slot = 0, sp_page_end_exclusive = 2\<rparr>, demo_heap_engine p)"
  by (simp add: begin_scan_def heap_bind_def acquire_table_def table_page_count_def on_lease_def acquire_file_def require_open_def
      demo_heap_engine_def demo_table_def demo_table_file_def fun_upd_idem)

lemma demo_heap_delete:
  assumes ok: "record_page_ok kV1 demo_table 1 p" and er: "erase_record p 1 \<lparr>rid_value = 0x100010000\<rparr> = Inr q"
  shows "fst (delete_record kV1 demo_table \<lparr>rid_value = 0x100010000\<rparr> (demo_heap_engine p)) = Inr ()"
proof -
  have "record_lookup kV1 demo_table 1 p \<lparr>rid_value = 0x100010000\<rparr> \<noteq> None"
    using record_page.erase_law [OF ok er] by blast
  then obtain row where "record_lookup kV1 demo_table 1 p \<lparr>rid_value = 0x100010000\<rparr> = Some row" by auto
  then have get: "get_record p 1 kV1 demo_table \<lparr>rid_value = 0x100010000\<rparr> = Inr \<lparr>rec_rid = \<lparr>rid_value = 0x100010000\<rparr>, rec_values = row\<rparr>"
    using get_record_Inr [of p 1 kV1 demo_table] ok by (simp add: record_page_ok_def)
  have acq: "acquire_table demo_table (demo_heap_engine p) = (Inr (), demo_heap_engine p)"
    by (simp add: acquire_table_def on_lease_def acquire_file_def require_open_def
        demo_heap_engine_def demo_table_def demo_table_file_def fun_upd_idem)
  have state: "on_lease (tm_table_id demo_table) (page_allocation_state 1) (demo_heap_engine p) = (Inr kAllocated, demo_heap_engine p)"
    by (simp add: on_lease_def acquire_file_def require_open_def page_allocation_state_def io_bind_def out_of_range_def is_free_page_def
        free_walk.simps demo_heap_engine_def demo_table_def demo_table_file_def fun_upd_idem)
  have fetch: "fst (fetch_page (page_key demo_table 1) (demo_heap_engine p)) = Inr 0"
    by (simp add: fetch_page_def pool_open_def miss_def load_free_frame_def read_key_def on_file_def acquire_file_def
      demo_heap_engine_def demo_engine_def demo_table_file_def demo_table_def page_key_def Let_def kMaxU64_def empty_frame_def
      frame_of_def read_page_def io_bind_def require_open_def out_of_range_def is_free_page_def free_walk.simps read_raw_page_def
      page_offset_def take_outcome_def kPageSize_def change_pool_def)
  then obtain e1 where e1: "fetch_page (page_key demo_table 1) (demo_heap_engine p) = (Inr 0, e1)" by (metis prod.collapse)
  have eok: "engine_ok (demo_heap_engine p)" using demo_heap_engine(1) [OF ok] by (simp add: heap_ok_def)
  have "guard_page 0 e1 = p"
    using fetched_view(3) [OF fetch_page_law [OF eok e1]] demo_heap_engine(2) [OF ok] by (simp add: table_page_def fun_eq_iff)
  then show ?thesis
    by (simp add: delete_record_def demo_rid heap_bind_def acq with_record_page_def state with_guard_def e1 get er)
qed

subsection \<open>Properties of heap tables\<close>

text \<open>
  C3: a heap table is a map from record ids to rows. Insertion adds its row under an id that had none,
  deletion takes one row away, update changes one row; reads of other rows are never affected. An operation that fails, at
  whatever file or page operation, loses and changes no row; a failed insertion that could not undo the allocation of
  its page poisons the file, otherwise the table is exactly as before.
\<close>

theorem heap_table_refines_map:
  assumes "heap_ok format meta e"
  shows "(case heap_insert_record format meta row e of
       (Inr rid, e1) \<Rightarrow> heap_ok format meta e1 \<and> heap_rows format meta e rid = None
         \<and> heap_rows format meta e1 = (heap_rows format meta e)(rid \<mapsto> row)
     | (Inl _, e1) \<Rightarrow> heap_ok format meta e1 \<and> heap_rows format meta e \<subseteq>\<^sub>m heap_rows format meta e1
         \<and> (healthy meta e1 \<longrightarrow> heap_rows format meta e1 = heap_rows format meta e))
   \<and> (case delete_record format meta rid e of
       (Inr _, e1) \<Rightarrow> heap_ok format meta e1 \<and> heap_rows format meta e rid \<noteq> None
         \<and> heap_rows format meta e1 = (heap_rows format meta e)(rid := None)
     | (Inl _, e1) \<Rightarrow> heap_ok format meta e1 \<and> heap_rows format meta e1 = heap_rows format meta e)
   \<and> (case update_record format meta \<lparr>uw_rid = rid, uw_values = row\<rparr> e of
       (Inr _, e1) \<Rightarrow> heap_ok format meta e1 \<and> heap_rows format meta e rid \<noteq> None
         \<and> heap_rows format meta e1 = (heap_rows format meta e)(rid \<mapsto> row)
     | (Inl _, e1) \<Rightarrow> heap_ok format meta e1 \<and> heap_rows format meta e1 = heap_rows format meta e)"
proof (intro conjI)
  show "case heap_insert_record format meta row e of
       (Inr rid, e1) \<Rightarrow> heap_ok format meta e1 \<and> heap_rows format meta e rid = None
         \<and> heap_rows format meta e1 = (heap_rows format meta e)(rid \<mapsto> row)
     | (Inl _, e1) \<Rightarrow> heap_ok format meta e1 \<and> heap_rows format meta e \<subseteq>\<^sub>m heap_rows format meta e1
         \<and> (healthy meta e1 \<longrightarrow> heap_rows format meta e1 = heap_rows format meta e)"
    using heap_insert_record_law [OF _ assms] by (fastforce simp: inserted_def split: prod.split sum.split)
  show "case delete_record format meta rid e of
       (Inr _, e1) \<Rightarrow> heap_ok format meta e1 \<and> heap_rows format meta e rid \<noteq> None
         \<and> heap_rows format meta e1 = (heap_rows format meta e)(rid := None)
     | (Inl _, e1) \<Rightarrow> heap_ok format meta e1 \<and> heap_rows format meta e1 = heap_rows format meta e"
    using delete_record_law [OF _ assms] by (fastforce simp: row_step_def split: prod.split sum.split)
  show "case update_record format meta \<lparr>uw_rid = rid, uw_values = row\<rparr> e of
       (Inr _, e1) \<Rightarrow> heap_ok format meta e1 \<and> heap_rows format meta e rid \<noteq> None
         \<and> heap_rows format meta e1 = (heap_rows format meta e)(rid \<mapsto> row)
     | (Inl _, e1) \<Rightarrow> heap_ok format meta e1 \<and> heap_rows format meta e1 = heap_rows format meta e"
    using update_record_law [OF _ assms, of "\<lparr>uw_rid = rid, uw_values = row\<rparr>"] by (fastforce simp: row_step_def split: prod.split sum.split)
qed

theorem heap_table_refines_map_witness:
  "\<exists>p. heap_ok kV1 demo_table (snd (delete_record kV1 demo_table \<lparr>rid_value = 0x100010000\<rparr> (demo_heap_engine p)))
     \<and> heap_rows kV1 demo_table (snd (delete_record kV1 demo_table \<lparr>rid_value = 0x100010000\<rparr> (demo_heap_engine p))) \<lparr>rid_value = 0x100010000\<rparr> = None"
proof -
  obtain p q where p: "record_page_ok kV1 demo_table 1 p" "erase_record p 1 \<lparr>rid_value = 0x100010000\<rparr> = Inr q" using demo_erase by blast
  then show ?thesis
    using heap_table_refines_map [OF demo_heap_engine(1) [OF p(1)], of "[]" "\<lparr>rid_value = 0x100010000\<rparr>"] demo_heap_delete [OF p]
    by (intro exI [of _ p]) (auto split: prod.splits)
qed



text \<open>
  C6: a scan lists every row of the table exactly once, ordered by page and slot. After any number of calls the records
  returned so far are the beginning of that list; the next call returns its next record, or the end exactly when
  nothing is left, or an error that keeps the position. Scanning changes no row.
\<close>

theorem scan_lists_rows:
  assumes "heap_ok format meta e" "begin_scan meta e = (Inr position, e1)" "scan_run format meta position e1 records position2 e2"
  shows "\<exists>rest. set (records @ rest) = {\<lparr>rec_rid = rid, rec_values = row\<rparr> |rid row. heap_rows format meta e rid = Some row}
     \<and> sorted_wrt (<) (map (\<lambda>record. rid_place (rec_rid record)) (records @ rest))
     \<and> heap_rows format meta e2 = heap_rows format meta e
     \<and> (case heap_next_record format meta position2 e2 of
          ((Inr None, _), _) \<Rightarrow> rest = []
        | ((Inr (Some record), _), _) \<Rightarrow> rest \<noteq> [] \<and> record = hd rest
        | ((Inl _, position3), _) \<Rightarrow> position3 = position2)"
proof -
  note start = begin_scan_law [OF assms(2,1)]
  have ok1: "heap_ok format meta e1" using same_table_rows(4) [OF start(1)] assms(1) by blast
  have "position_ok meta e1 position" using start(3) same_table_scan(2) [OF start(1)] by simp
  note run = scan_run_law [OF assms(3) ok1 this]
  have t: "same_table e e2" using same_table_trans [OF start(1)] run by blast
  have ok2: "heap_ok format meta e2" using same_table_rows(4) [OF t] assms(1) by blast
  obtain r position3 e3 where call: "heap_next_record format meta position2 e2 = ((r, position3), e3)" by (metis prod.exhaust)
  have pos2: "position_ok meta e2 position2" using run by simp
  note law = heap_next_record_law [OF call ok2 pos2]
  have rem: "remaining format meta e position = records @ remaining format meta e2 position2"
    using run same_table_scan(1) [OF start(1)] same_table_scan(1) [of e1 e2] by simp
  have "case ((r, position3), e3) of
          ((Inr None, _), _) \<Rightarrow> remaining format meta e2 position2 = []
        | ((Inr (Some record), _), _) \<Rightarrow> remaining format meta e2 position2 \<noteq> [] \<and> record = hd (remaining format meta e2 position2)
        | ((Inl _, position3), _) \<Rightarrow> position3 = position2"
    using law(2,3) by (auto simp: scanned_def split: sum.split option.split)
  then show ?thesis
    using start(4,5) same_table_rows(2) [OF t] unfolding rem call by blast
qed

theorem scan_lists_rows_witness:
  "\<exists>p rest. heap_ok kV1 demo_table (demo_heap_engine p)
     \<and> set rest = {\<lparr>rec_rid = rid, rec_values = row\<rparr> |rid row. heap_rows kV1 demo_table (demo_heap_engine p) rid = Some row}
     \<and> sorted_wrt (<) (map (\<lambda>record. rid_place (rec_rid record)) rest)"
proof -
  obtain p q where p: "record_page_ok kV1 demo_table 1 p" "erase_record p 1 \<lparr>rid_value = 0x100010000\<rparr> = Inr q" using demo_erase by blast
  obtain rest where "set ([] @ rest) = {\<lparr>rec_rid = rid, rec_values = row\<rparr> |rid row. heap_rows kV1 demo_table (demo_heap_engine p) rid = Some row}"
    "sorted_wrt (<) (map (\<lambda>record. rid_place (rec_rid record)) ([] @ rest))"
    using scan_lists_rows [OF demo_heap_engine(1) [OF p(1)] demo_heap_begin scan_run_none] by blast
  then show ?thesis using demo_heap_engine(1) [OF p(1)] by (intro exI [of _ p] exI [of _ rest]) simp
qed

text \<open>Whatever is done to the table, successfully or not.\<close>

inductive heap_step :: "RowFormat \<Rightarrow> TableMeta \<Rightarrow> Engine \<Rightarrow> Engine \<Rightarrow> bool" for format meta where
  step_insert: "heap_step format meta e (snd (heap_insert_record format meta row e))"
| step_delete: "heap_step format meta e (snd (delete_record format meta rid e))"
| step_update: "heap_step format meta e (snd (update_record format meta change e))"

lemma heap_step_law:
  assumes "heap_step format meta e e1" "heap_ok format meta e"
  shows "heap_ok format meta e1" "heap_stale meta e rid \<Longrightarrow> heap_stale meta e1 rid"
  using assms(1)
proof (atomize (full), cases)
  case (step_insert row)
  then show "heap_ok format meta e1 \<and> (heap_stale meta e rid \<longrightarrow> heap_stale meta e1 rid)"
    using heap_insert_record_law [OF _ assms(2), of row] by (metis inserted_def prod.collapse)
next
  case (step_delete r)
  then show "heap_ok format meta e1 \<and> (heap_stale meta e rid \<longrightarrow> heap_stale meta e1 rid)"
    using delete_record_law [OF _ assms(2), of r] by (metis row_step_def prod.collapse)
next
  case (step_update change)
  then show "heap_ok format meta e1 \<and> (heap_stale meta e rid \<longrightarrow> heap_stale meta e1 rid)"
    using update_record_law [OF _ assms(2), of change] by (metis row_step_def prod.collapse)
qed

lemma heap_steps_keep: "(heap_step format meta)\<^sup>*\<^sup>* e e1 \<Longrightarrow> heap_ok format meta e \<Longrightarrow>
    heap_ok format meta e1 \<and> (heap_stale meta e rid \<longrightarrow> heap_stale meta e1 rid)"
  by (induction rule: rtranclp_induct) (auto dest: heap_step_law)

text \<open>
  C7: the id of a deleted row is dead for good. Whatever insertions, deletions and updates follow, successful or not, no
  row has the id again, neither reading, deleting nor updating it succeeds, and no insertion hands it out.
\<close>

theorem deleted_row_stays_gone:
  assumes "heap_ok format meta e" "delete_record format meta rid e = (Inr (), e1)" "(heap_step format meta)\<^sup>*\<^sup>* e1 e2"
  shows "heap_rows format meta e2 rid = None
    \<and> fst (delete_record format meta rid e2) \<noteq> Inr ()
    \<and> fst (update_record format meta \<lparr>uw_rid = rid, uw_values = row\<rparr> e2) \<noteq> Inr ()
    \<and> fst (heap_insert_record format meta row e2) \<noteq> Inr rid"
proof -
  have "heap_ok format meta e1 \<and> heap_stale meta e1 rid"
    using delete_record_law [OF assms(2,1)] by (simp add: row_step_def)
  then have ok2: "heap_ok format meta e2" and stale: "heap_stale meta e2 rid" using heap_steps_keep [OF assms(3)] by blast+
  have none: "heap_rows format meta e2 rid = None" by (rule stale_not_a_row [OF stale])
  have "fst (delete_record format meta rid e2) \<noteq> Inr ()"
    using delete_record_law [OF _ ok2, of rid] none by (cases "delete_record format meta rid e2") (auto simp: row_step_def)
  moreover have "fst (update_record format meta \<lparr>uw_rid = rid, uw_values = row\<rparr> e2) \<noteq> Inr ()"
    using update_record_law [OF _ ok2, of "\<lparr>uw_rid = rid, uw_values = row\<rparr>"] none
    by (cases "update_record format meta \<lparr>uw_rid = rid, uw_values = row\<rparr> e2") (auto simp: row_step_def)
  moreover have "fst (heap_insert_record format meta row e2) \<noteq> Inr rid"
    using heap_insert_record_law [OF _ ok2, of row] stale by (cases "heap_insert_record format meta row e2") (auto simp: inserted_def)
  ultimately show ?thesis using none by blast
qed

theorem deleted_row_stays_gone_witness:
  "\<exists>e e1. heap_ok kV1 demo_table e \<and> delete_record kV1 demo_table \<lparr>rid_value = 0x100010000\<rparr> e = (Inr (), e1)
     \<and> fst (delete_record kV1 demo_table \<lparr>rid_value = 0x100010000\<rparr> e1) \<noteq> Inr ()"
proof -
  obtain p q where p: "record_page_ok kV1 demo_table 1 p" "erase_record p 1 \<lparr>rid_value = 0x100010000\<rparr> = Inr q" using demo_erase by blast
  obtain e1 where d: "delete_record kV1 demo_table \<lparr>rid_value = 0x100010000\<rparr> (demo_heap_engine p) = (Inr (), e1)"
    using demo_heap_delete [OF p] by (metis prod.collapse)
  show ?thesis using deleted_row_stays_gone [OF demo_heap_engine(1) [OF p(1)] d] d demo_heap_engine(1) [OF p(1)] by blast
qed

end
