(* ===== verification/Cursor_State.thy ===== *)
theory Cursor_State
  imports Heap_Table_Properties
begin

text \<open>
  \<open>src/storage/cursor_state.cpp\<close>: the registry of open scans. An entry keeps the schema and format of its table, the
  position of the scan and whether it ended or failed. The next id belongs to the process, not to the registry; it is
  part of the state here, and \<open>None\<close> when all ids are used up.
\<close>

subsection \<open>The registry\<close>

type_synonym CursorId = u64

datatype CursorStatus = kCursorActive | kCursorEof | kCursorFailed

datatype CursorErrorKind =
  CursorInvalid | CursorInvalidArgument | CursorValueTooLarge | CursorNoVictim | CursorIo | CursorCorrupt

datatype CursorError = CursorError (cursor_error_kind: CursorErrorKind) (cursor_error_message: string)

record CursorState =
  cs_table_id :: TableId
  cs_position :: HeapScanPosition
  cs_status :: CursorStatus
  cs_saved_error :: "CursorError option"

record CursorEntry =
  ce_meta :: TableMeta
  ce_format :: RowFormat
  ce_state :: CursorState

record CursorRegistry =
  cr_entries :: "CursorId \<rightharpoonup> CursorEntry"
  cr_next_id :: "CursorId option"
  cr_engine :: Engine

definition invalid_cursor :: CursorError where
  "invalid_cursor = CursorError CursorInvalid ''cursor does not exist''"

fun map_heap_error :: "HeapTableError \<Rightarrow> CursorError" where
  "map_heap_error (HeapTableError HeapInvalidArgument message) = CursorError CursorInvalidArgument message"
| "map_heap_error (HeapTableError HeapValueTooLarge message) = CursorError CursorValueTooLarge message"
| "map_heap_error (HeapTableError HeapNoVictim message) = CursorError CursorNoVictim message"
| "map_heap_error (HeapTableError HeapIo message) = CursorError CursorIo message"
| "map_heap_error (HeapTableError HeapCorrupt message) = CursorError CursorCorrupt message"

type_synonym 'a cursor_op = "CursorRegistry \<Rightarrow> (CursorError, 'a) result \<times> CursorRegistry"

definition create_cursor :: "TableMeta \<Rightarrow> RowFormat \<Rightarrow> CursorId cursor_op" where
  "create_cursor meta format c =
     (case begin_scan meta (cr_engine c) of
        (Inl error, e) \<Rightarrow> (Inl (map_heap_error error), c\<lparr>cr_engine := e\<rparr>)
      | (Inr position, e) \<Rightarrow>
          (case cr_next_id c of
             None \<Rightarrow> (Inl (CursorError CursorInvalidArgument ''CursorId space exhausted''), c\<lparr>cr_engine := e\<rparr>)
           | Some cursor \<Rightarrow>
               (Inr cursor, c
                 \<lparr>cr_entries := (cr_entries c)(cursor \<mapsto> \<lparr>ce_meta = meta, ce_format = format,
                    ce_state = \<lparr>cs_table_id = tm_table_id meta, cs_position = position, cs_status = kCursorActive, cs_saved_error = None\<rparr>\<rparr>),
                  cr_next_id := (if cursor = - 1 then None else Some (cursor + 1)), cr_engine := e\<rparr>)))"

definition lookup_cursor :: "CursorId \<Rightarrow> CursorRegistry \<Rightarrow> (CursorError, CursorState) result" where
  "lookup_cursor cursor c = (case cr_entries c cursor of None \<Rightarrow> Inl invalid_cursor | Some entry \<Rightarrow> Inr (ce_state entry))"

text \<open>An error is answered again from the entry; the C++ value \<open>{nullopt, saved_error}\<close> is an error iff one was saved.\<close>

definition next_cursor_record :: "CursorId \<Rightarrow> Record option cursor_op" where
  "next_cursor_record cursor c =
     (case cr_entries c cursor of
        None \<Rightarrow> (Inl invalid_cursor, c)
      | Some entry \<Rightarrow>
          (case cs_status (ce_state entry) of
             kCursorEof \<Rightarrow> (Inr None, c)
           | kCursorFailed \<Rightarrow> (case cs_saved_error (ce_state entry) of None \<Rightarrow> (Inr None, c) | Some error \<Rightarrow> (Inl error, c))
           | kCursorActive \<Rightarrow>
               (case heap_next_record (ce_format entry) (ce_meta entry) (cs_position (ce_state entry)) (cr_engine c) of
                  ((Inl error, position), e) \<Rightarrow>
                    (Inl (map_heap_error error), c
                      \<lparr>cr_entries := (cr_entries c)(cursor \<mapsto> entry\<lparr>ce_state := (ce_state entry)
                         \<lparr>cs_position := position, cs_saved_error := Some (map_heap_error error), cs_status := kCursorFailed\<rparr>\<rparr>),
                       cr_engine := e\<rparr>)
                | ((Inr found, position), e) \<Rightarrow>
                    (Inr found, c
                      \<lparr>cr_entries := (cr_entries c)(cursor \<mapsto> entry\<lparr>ce_state := (ce_state entry)
                         \<lparr>cs_position := position, cs_status := (if found = None then kCursorEof else kCursorActive)\<rparr>\<rparr>),
                       cr_engine := e\<rparr>))))"

definition close_cursor :: "CursorId \<Rightarrow> unit cursor_op" where
  "close_cursor cursor c =
     (if cr_entries c cursor = None then (Inl invalid_cursor, c)
      else (Inr (), c\<lparr>cr_entries := (cr_entries c)(cursor := None)\<rparr>))"

definition clear_cursors :: "CursorRegistry \<Rightarrow> CursorRegistry" where
  "clear_cursors c = c\<lparr>cr_entries := Map.empty\<rparr>"

text \<open>Whether the table has an open cursor; only ids that were given out can have one.\<close>

definition has_cursor :: "TableId \<Rightarrow> CursorRegistry \<Rightarrow> bool" where
  "has_cursor table_id c \<longleftrightarrow> (\<exists>entry \<in> ran (cr_entries c). cs_table_id (ce_state entry) = table_id)"

subsection \<open>Ids and life of a cursor\<close>

inductive cursor_step :: "CursorRegistry \<Rightarrow> CursorRegistry \<Rightarrow> bool" where
  step_create: "cursor_step c (snd (create_cursor meta format c))"
| step_next: "cursor_step c (snd (next_cursor_record cursor c))"
| step_close: "cursor_step c (snd (close_cursor cursor c))"
| step_clear: "cursor_step c (clear_cursors c)"
| step_engine: "cursor_step c (c\<lparr>cr_engine := e\<rparr>)"

text \<open>How many ids are left, and the invariant that all open cursors have ids below the next one.\<close>

definition ids_below :: "CursorRegistry \<Rightarrow> nat" where
  "ids_below c = (case cr_next_id c of None \<Rightarrow> 2 ^ 64 | Some n \<Rightarrow> unat n)"

definition registry_ok :: "CursorRegistry \<Rightarrow> bool" where
  "registry_ok c \<longleftrightarrow> (\<forall>cursor \<in> dom (cr_entries c). unat cursor < ids_below c)"

lemma unat_last_id: "unat (- 1 :: CursorId) = 2 ^ 64 - 1"
  by (simp add: unsigned_minus_1_eq_mask mask_eq_exp_minus_1)

lemma next_id_above:
  fixes cursor :: CursorId
  assumes "cursor \<noteq> - 1"
  shows "unat (cursor + 1) = unat cursor + 1"
proof -
  have "unat cursor \<noteq> 2 ^ 64 - 1"
  proof
    assume "unat cursor = 2 ^ 64 - 1"
    then have "unat cursor = unat (- 1 :: CursorId)" by (simp add: unat_last_id)
    then show False using assms by (simp flip: word_unat_eq_iff)
  qed
  moreover have "unat cursor < 2 ^ LENGTH(64)" by (rule unsigned_less)
  ultimately have "unat cursor + 1 < 2 ^ 64" by simp
  then show ?thesis by (simp add: unat_word_ariths(1))
qed

lemma create_cursor_law:
  assumes "create_cursor meta format c = (Inr cursor, c1)"
  shows "unat cursor = ids_below c" "ids_below c1 = ids_below c + 1" "cr_next_id c = Some cursor"
proof -
  have ids: "cr_next_id c = Some cursor" "cr_next_id c1 = (if cursor = - 1 then None else Some (cursor + 1))"
    using assms by (auto simp: create_cursor_def split: prod.splits sum.splits option.splits)
  show "unat cursor = ids_below c" "cr_next_id c = Some cursor" using ids by (simp_all add: ids_below_def)
  show "ids_below c1 = ids_below c + 1"
    using next_id_above [of cursor] ids by (cases "cursor = - 1") (simp_all add: ids_below_def unat_last_id)
qed

lemma cursor_step_ids:
  assumes "cursor_step c c1"
  shows "ids_below c \<le> ids_below c1" "registry_ok c \<Longrightarrow> registry_ok c1"
  using assms
proof (atomize (full), cases)
  case (step_create meta format)
  obtain r c2 where run: "create_cursor meta format c = (r, c2)" by fastforce
  show "ids_below c \<le> ids_below c1 \<and> (registry_ok c \<longrightarrow> registry_ok c1)"
  proof (cases r)
    case (Inl error)
    then have "cr_next_id c2 = cr_next_id c \<and> cr_entries c2 = cr_entries c"
      using run by (auto simp: create_cursor_def split: prod.splits sum.splits option.splits)
    then show ?thesis using run step_create by (simp add: ids_below_def registry_ok_def)
  next
    case (Inr cursor)
    note law = create_cursor_law [OF run [unfolded Inr]]
    have "dom (cr_entries c2) = insert cursor (dom (cr_entries c))"
      using run Inr by (auto simp: create_cursor_def split: prod.splits sum.splits option.splits)
    then show ?thesis using law run step_create by (auto simp: registry_ok_def intro: less_SucI)
  qed
next
  case (step_next cursor)
  obtain r c2 where run: "next_cursor_record cursor c = (r, c2)" by fastforce
  then have "cr_next_id c2 = cr_next_id c \<and> dom (cr_entries c2) = dom (cr_entries c)"
    by (auto simp: next_cursor_record_def split: prod.splits sum.splits option.splits CursorStatus.splits if_splits)
  then show "ids_below c \<le> ids_below c1 \<and> (registry_ok c \<longrightarrow> registry_ok c1)"
    using run step_next by (simp add: ids_below_def registry_ok_def)
next
  case (step_close cursor)
  then show "ids_below c \<le> ids_below c1 \<and> (registry_ok c \<longrightarrow> registry_ok c1)"
    by (auto simp: close_cursor_def ids_below_def registry_ok_def split: if_splits)
qed (auto simp: clear_cursors_def ids_below_def registry_ok_def)

lemma cursor_steps_ids: "cursor_step\<^sup>*\<^sup>* c c1 \<Longrightarrow> ids_below c \<le> ids_below c1"
  by (induction rule: rtranclp_induct) (use cursor_step_ids(1) order_trans in blast)+

text \<open>A cursor that ended or failed is not touched by anything but closing it, clearing the registry, or its id being issued again.\<close>

definition rests :: "CursorId \<Rightarrow> CursorEntry option \<Rightarrow> CursorRegistry \<Rightarrow> bool" where
  "rests cursor entry c \<longleftrightarrow> registry_ok c \<and> unat cursor < ids_below c
     \<and> (cr_entries c cursor = entry \<or> cr_entries c cursor = None)"

lemma rests_step:
  assumes "cursor_step c c1" "rests cursor entry c" "\<And>x. entry = Some x \<Longrightarrow> cs_status (ce_state x) \<noteq> kCursorActive"
  shows "rests cursor entry c1"
proof -
  note ids = cursor_step_ids [OF assms(1)]
  have "cr_entries c1 cursor = entry \<or> cr_entries c1 cursor = None"
    using assms(1)
  proof cases
    case (step_create meta format)
    obtain r c2 where run: "create_cursor meta format c = (r, c2)" by fastforce
    have "cr_entries c2 cursor = cr_entries c cursor"
    proof (cases r)
      case (Inl error)
      then show ?thesis using run by (auto simp: create_cursor_def split: prod.splits sum.splits option.splits)
    next
      case (Inr new)
      have "new \<noteq> cursor" using create_cursor_law(1) [OF run [unfolded Inr]] assms(2) by (auto simp: rests_def)
      then show ?thesis using run Inr by (auto simp: create_cursor_def split: prod.splits sum.splits option.splits)
    qed
    then show ?thesis using assms(2) run step_create by (simp add: rests_def)
  next
    case (step_next other)
    then show ?thesis using assms(2,3)
      by (auto simp: rests_def next_cursor_record_def split: prod.splits sum.splits option.splits CursorStatus.splits)
  qed (use assms(2) in \<open>auto simp: rests_def close_cursor_def clear_cursors_def split: if_splits\<close>)
  then show ?thesis using ids assms(2) by (auto simp: rests_def)
qed

lemma rests_steps:
  "cursor_step\<^sup>*\<^sup>* c c1 \<Longrightarrow> rests cursor entry c \<Longrightarrow> (\<And>x. entry = Some x \<Longrightarrow> cs_status (ce_state x) \<noteq> kCursorActive) \<Longrightarrow> rests cursor entry c1"
  by (induction rule: rtranclp_induct) (use rests_step in blast)+

text \<open>
  C13: cursor ids are never reused and a cursor that has ended stays ended. Whatever happens to the registry and the
  storage after a cursor was created, later cursors get larger ids; and once the cursor reported its end or an error,
  every further call on its id reports the same end or error, or that the cursor does not exist any more.
\<close>

theorem cursor_ids_and_ends_final:
  assumes "registry_ok c" "create_cursor meta format c = (Inr cursor, c1)" "cursor_step\<^sup>*\<^sup>* c1 c2"
    and "next_cursor_record cursor c2 = (r, c3)" "r = Inr None \<or> (\<exists>error. r = Inl error)" "cursor_step\<^sup>*\<^sup>* c3 c4"
  shows "(case create_cursor meta2 format2 c2 of (Inr cursor2, _) \<Rightarrow> unat cursor < unat cursor2 | (Inl _, _) \<Rightarrow> True)
    \<and> fst (next_cursor_record cursor c4) \<in> {r, Inl invalid_cursor}"
proof
  note new = create_cursor_law [OF assms(2)]
  have "registry_ok c1" using cursor_step_ids(2) [OF step_create assms(1), of meta format] assms(2) by simp
  then have ok2: "registry_ok c2" and below: "unat cursor < ids_below c2"
    using assms(3) cursor_steps_ids [OF assms(3)] new(1,2)
    by (auto elim: rtranclp_induct dest: cursor_step_ids(2))
  show "case create_cursor meta2 format2 c2 of (Inr cursor2, _) \<Rightarrow> unat cursor < unat cursor2 | (Inl _, _) \<Rightarrow> True"
    using create_cursor_law(1) [of meta2 format2 c2] below by (auto split: prod.split sum.split)
  show "fst (next_cursor_record cursor c4) \<in> {r, Inl invalid_cursor}"
  proof -
    have step: "cursor_step c2 c3" using step_next [of c2 cursor] assms(4) by simp
    have ok3: "registry_ok c3" "unat cursor < ids_below c3" using cursor_step_ids [OF step] ok2 below by simp_all
    show ?thesis
    proof (cases "cr_entries c3 cursor")
      case None
      then have "rests cursor None c3" using ok3 by (simp add: rests_def)
      then have "rests cursor None c4" by (rule rests_steps [OF assms(6)]) simp
      moreover have "r = Inl invalid_cursor" using None assms(4)
        by (auto simp: next_cursor_record_def split: prod.splits sum.splits option.splits CursorStatus.splits)
      ultimately show ?thesis by (simp add: rests_def next_cursor_record_def)
    next
      case (Some entry)
      then have "rests cursor (Some entry) c3" using ok3 by (simp add: rests_def)
      note here = this
      have ended: "cs_status (ce_state entry) \<noteq> kCursorActive" "fst (next_cursor_record cursor c3) = r"
        using assms(4,5) Some
        by (auto simp: next_cursor_record_def split: prod.splits sum.splits option.splits CursorStatus.splits if_splits)
      have "rests cursor (Some entry) c4" using here by (rule rests_steps [OF assms(6)]) (simp add: ended(1))
      then show ?thesis
        using ended Some by (auto simp: rests_def next_cursor_record_def split: CursorStatus.splits option.splits)
    qed
  qed
qed

theorem cursor_ids_and_ends_final_witness:
  "\<exists>c c2. fst (create_cursor demo_table kV1 c) = Inr 0 \<and> cr_entries c2 0 = None
     \<and> fst (next_cursor_record 0 c2) = Inl invalid_cursor \<and> fst (create_cursor demo_table kV1 c2) = Inr 1
     \<and> unat (0 :: CursorId) < unat (1 :: CursorId)"
proof -
  define c where "c = \<lparr>cr_entries = Map.empty, cr_next_id = Some 0, cr_engine = demo_heap_engine (\<lambda>_. 0)\<rparr>"
  define c1 where "c1 = snd (create_cursor demo_table kV1 c)"
  define c2 where "c2 = snd (close_cursor 0 c1)"
  have ok: "registry_ok c" by (simp add: registry_ok_def c_def)
  have run: "create_cursor demo_table kV1 c = (Inr 0, c1)"
    by (simp add: c1_def create_cursor_def c_def demo_heap_begin)
  have step: "cursor_step\<^sup>*\<^sup>* c1 c2" unfolding c2_def by (intro r_into_rtranclp step_close)
  have c2: "cr_entries c2 = Map.empty" "cr_next_id c2 = Some 1" "cr_engine c2 = demo_heap_engine (\<lambda>_. 0)"
    using run by (auto simp: c2_def close_cursor_def create_cursor_def c_def demo_heap_begin)
  have gone: "next_cursor_record 0 c2 = (Inl invalid_cursor, c2)" by (simp add: next_cursor_record_def c2)
  have again: "fst (create_cursor demo_table kV1 c2) = Inr 1" by (simp add: create_cursor_def c2 demo_heap_begin)
  have "case create_cursor demo_table kV1 c2 of (Inr cursor2, _) \<Rightarrow> unat (0 :: CursorId) < unat cursor2 | (Inl _, _) \<Rightarrow> True"
    by (rule conjunct1 [OF cursor_ids_and_ends_final [OF ok run step gone _ rtranclp.rtrancl_refl]]) simp
  then show ?thesis using run c2 gone again by (intro exI [of _ c] exI [of _ c2]) (auto split: prod.splits)
qed

end
