(* ===== verification/Spec2Isabelle.thy ===== *)
theory Spec2Isabelle
  imports Optimizer Query_Properties Process Lexer_Properties Parser_Ranges Compiled_Plans Cursor_State
begin

text \<open>
  A verification library for tinydbms, a small relational database in C++: a compiler from SQL text to plans, an
  executor for the plans over a session with a catalog, a layer that runs scripts of statements, and a storage engine
  with page files, a buffer pool and heap tables. The theories follow the code part by part; paths are those of the
  repository.

  \<^bold>\<open>How the program is put together.\<close> \<open>Database::execute_script\<close> (\<open>src/core/script.cpp\<close>) cuts a script into statements, has
  each compiled against the catalog of the session and executes the plan; its source ranges are checked and translated to
  the whole script. \<open>compile\<close> (\<open>src/compiler/compiler.cpp\<close>) runs the lexer, the recursive descent parser, semantic analysis,
  the optimizer and the planner. The executor (\<open>src/core/executor.cpp\<close>) validates a plan against the catalog and runs it:
  queries are trees of scan, filter, join, aggregate, sort and projection, and INSERT, DELETE, UPDATE and CREATE TABLE turn into
  requests to storage. Below the storage interface (\<open>include/tinydbms/storage.hpp\<close>) a table is a heap of pages in one file:
  \<open>heap_table.cpp\<close> finds pages for rows and scans them, \<open>cursor_state.cpp\<close> keeps the open scans, \<open>buffer_pool.cpp\<close> caches pages,
  \<open>page_file.cpp\<close> allocates, reads and writes them, \<open>record_page.cpp\<close>, \<open>slotted_page.cpp\<close> and \<open>record_codec.cpp\<close> lay rows out in a page.

  \<^bold>\<open>Which theory models what.\<close> Definitions carry the names of the functions and types they translate.
  \<^item> \<open>Prelude\<close>: bytes, little-endian numbers, results as sums, generic lemmas; \<open>Common\<close>: \<open>common.hpp\<close>; \<open>Plan\<close>: \<open>compiler.hpp\<close>, \<open>diagnostic.hpp\<close>.
  \<^item> Rows in pages: \<open>Utf8\<close> and \<open>Record_Codec\<close> (\<open>record_codec.cpp\<close>), \<open>Slotted_Page\<close> (\<open>slotted_page.cpp\<close>, byte level), \<open>Page_Directory\<close> (its
    abstract slot list and the refinement), \<open>Record_Page\<close> (\<open>record_page.cpp\<close>). \<open>Slot_Store\<close> is the contract of a page as a map from handles to
    contents with handles that are never reused; it is interpreted for slotted pages and for record pages.
  \<^item> Pages in files: \<open>Page_File\<close> (\<open>page_file.cpp\<close>), \<open>Buffer_Pool\<close> (\<open>buffer_pool.cpp\<close>, \<open>FileManager::acquire_file\<close>) and their properties;
    \<open>Page_Store\<close> holds the contracts \<open>page_access\<close> and \<open>page_store\<close>, interpreted for page files and for the pool.
  \<^item> Tables: \<open>Heap_Table\<close> (\<open>heap_table.cpp\<close>), \<open>Heap_Table_Properties\<close>, \<open>Cursor_State\<close> (\<open>cursor_state.cpp\<close>).
  \<^item> Front end: \<open>Source_Text\<close> (\<open>diagnostics.cpp\<close>, \<open>split_statements\<close>), \<open>Lexer\<close> (\<open>lexer.cpp\<close>), \<open>Suggestion\<close> (\<open>diagnostic_suggestion.hpp\<close>),
    \<open>Parser\<close> (\<open>ast.hpp\<close>, \<open>parser.cpp\<close>), \<open>Semantic\<close> (\<open>semantic.cpp\<close>), \<open>Planner\<close> (\<open>bound_ast.hpp\<close>, \<open>planner.cpp\<close>), \<open>Optimizer\<close> (\<open>optimizer.cpp\<close>),
    \<open>Compiler\<close> (\<open>compile\<close>).
  \<^item> Execution: \<open>Expression\<close> (\<open>expression.cpp\<close>); from \<open>executor.cpp\<close> \<open>Slots\<close> (metadata checks, slot rows), \<open>Value_Hash\<close>, \<open>Row_Sort\<close>, \<open>Row_Join\<close>,
    \<open>Row_Aggregate\<close> (operators), \<open>Storage_Scan\<close> (scans through cursors), \<open>Query_Plan\<close> (validation and execution of plan trees) and
    \<open>Commands\<close> (the other statements); \<open>Session\<close> and \<open>Process\<close> (\<open>database.cpp\<close>, one session and all objects of a process); \<open>Script\<close>
    (\<open>script.cpp\<close>, \<open>analysis_catalog.cpp\<close>).

  \<^bold>\<open>State.\<close> Operations pass their state explicitly: a page is the map from offsets to bytes; a page file the medium (size and
  pages), the members of \<open>PageFile\<close> and the outcomes of the stream operations to come; \<open>Engine\<close> the pool and the open files; a session
  the members of \<open>Database::Impl\<close> with the flag \<open>g_database_open\<close>. Errors are values of a sum type, C++ exceptions included
  where the code catches them. Machine integers are words where their width matters; counters and sizes that are checked against
  a limit are natural numbers.

  \<^bold>\<open>What the lemmas show.\<close>
  \<^item> Compiler and executor fit (\<open>Compiled_Plans\<close>): every compiled plan passes all checks of the executor. It rests on the typing of analyzed
    expressions and queries (\<open>Semantic_Typing\<close>, \<open>Select_Typing\<close>), on what the parser guarantees (\<open>Parsed_Statements\<close>) and on the optimizer's
    equivalence theorem.
  \<^item> The parser accepts exactly the grammar of expressions (\<open>Expression_Grammar\<close>), its ranges are those of tokens (\<open>Parser_Ranges\<close>), and tokens are
    well formed and in order (\<open>Lexer_Properties\<close>).
  \<^item> Queries compute a reference semantics (\<open>Query_Semantics\<close>, \<open>Query_Properties\<close>); the operators are a filtered product, a stable sort, a grouping by key
    and exact sums; statements ask storage for exactly what their clauses say (\<open>Command_Properties\<close>), with known kinds of
    errors (\<open>Error_Kinds\<close>), and scripts account for every statement (\<open>Script_Properties\<close>).
  \<^item> Storage is a tower of refinements: bytes of a page to a slot list (\<open>validate_iff\<close>, the \<open>slotted_\<close> theorems), a file to a map from pages
    to contents (\<open>page_view\<close>), pool and files to the same kind of map (\<open>pool_view\<close>), a table to a map from record ids to rows
    (\<open>heap_rows\<close>). Each level keeps its invariant under every failure of the level below, and states what a failure may cost: nothing at the level of rows.

  \<^bold>\<open>Bounds.\<close> No definition has fuel. Loops are structural recursions or have a termination proof; the walk along the free list of a page
  file ends because it refuses to visit a page twice. The limits of the code are kept as they are: 4096 bytes per page, 1024 bytes per
  VARCHAR and 4096 per row, \<open>kMaxPlanDepth\<close>, \<open>kMaxExpressionDepth\<close> and \<open>kMaxExpressionComplexity\<close> 256, 1 MiB of SQL text, \<open>2^32\<close> pages per file.

  \<^bold>\<open>Parameters.\<close> Code outside the repository is an argument of the definitions that use it: \<open>std::hash\<close>, the arithmetic of \<open>long double\<close>,
  \<open>std::from_chars\<close> on floating-point literals, the outcomes of stream and file system operations. The executor takes the answers of the storage
  interface as arguments, so that its theorems hold for every storage, and the script layer takes compiler and plan renderer.

  \<^bold>\<open>Not modelled.\<close> Threads: every public operation of sessions holds its mutex and is one step here, and the buffer pool is the pool of one
  thread, without the prefetch worker, waiting for loads of other threads, log events and statistics. Cancellation inside a
  statement. The storage facade (\<open>storage.cpp\<close>: catalog tables, process-wide state, mapping of errors) and the directories and closing
  protocol of \<open>file_manager.cpp\<close>. Text of plans and results, the command line and graphical applications and the benchmarks, which
  have no logic of their own beyond input and output.
\<close>

end
